(* ===== verification/Prelude.thy ===== *)
theory Prelude
  imports "HOL-Library.Word" "HOL-Library.Char_ord" "HOL-Library.List_Lexorder"
begin

text \<open>
  What every component of the development shares: the machine integers of the Rust code
  with the arithmetic the code uses on them (wrapping, saturating), a few facts on lists
  and strings, and the collections of rewrite rules the component proofs use.

  Conventions. \<open>u64\<close> is a 64-bit word. An \<open>i64\<close> is an \<open>int\<close> whose wrap-around is written
  out (\<open>i64_add\<close> is \<open>+\<close> of a release build, which wraps). Sequence and arrival numbers, which the
  code only advances by one per local write and otherwise only compares, are \<open>nat\<close>.
  A Rust string is a \<open>string\<close> whose characters are the bytes of its UTF-8 encoding.
\<close>

named_theorems eval_simps "unfolding rules for evaluating closed terms"
named_theorems relation_simps "the version order"

section \<open>Machine integers\<close>

type_synonym byte = "8 word"
type_synonym u64 = "64 word"

text \<open>\<open>u64::saturating_add(1)\<close> and \<open>u64::saturating_mul\<close>.\<close>

definition u64_sat_inc :: "u64 \<Rightarrow> u64" where
  "u64_sat_inc w = (if w = - 1 then w else w + 1)"

definition u64_sat_mul :: "u64 \<Rightarrow> u64 \<Rightarrow> u64" where
  "u64_sat_mul a b = (if 2 ^ 64 \<le> unat a * unat b then - 1 else a * b)"

definition i64_max :: int where
  "i64_max = 9223372036854775807"

definition i64_min :: int where
  "i64_min = - 9223372036854775808"

definition is_i64 :: "int \<Rightarrow> bool" where
  "is_i64 x \<longleftrightarrow> i64_min \<le> x \<and> x \<le> i64_max"

definition i64_wrap :: "int \<Rightarrow> int" where
  "i64_wrap x = (x + 9223372036854775808) mod 18446744073709551616 - 9223372036854775808"

definition i64_add :: "int \<Rightarrow> int \<Rightarrow> int" where
  "i64_add a b = i64_wrap (a + b)"

definition i64_clamp :: "int \<Rightarrow> int" where
  "i64_clamp x = max i64_min (min i64_max x)"

definition i64_sat_add :: "int \<Rightarrow> int \<Rightarrow> int" where
  "i64_sat_add a b = i64_clamp (a + b)"

definition i64_sat_sub :: "int \<Rightarrow> int \<Rightarrow> int" where
  "i64_sat_sub a b = i64_clamp (a - b)"

definition i64_sat_mul :: "int \<Rightarrow> int \<Rightarrow> int" where
  "i64_sat_mul a b = i64_clamp (a * b)"

text \<open>\<open>u32::saturating_add(1)\<close> on a counter kept as a natural number.\<close>

definition u32_sat_inc :: "nat \<Rightarrow> nat" where
  "u32_sat_inc n = min 4294967295 (n + 1)"

lemmas [eval_simps] =
  u64_sat_inc_def u64_sat_mul_def i64_max_def i64_min_def is_i64_def i64_wrap_def i64_add_def
  i64_clamp_def i64_sat_add_def i64_sat_sub_def i64_sat_mul_def u32_sat_inc_def

lemma byte_lt [simp]: "unat (b :: byte) < 256"
  using unsigned_less [of b] by simp

lemma u64_less_inc: "(w :: u64) \<noteq> - 1 \<Longrightarrow> w < w + 1"
  by (metis inc_less_eq_triv_imp linorder_not_less)

lemma u64_sat_inc_ge: "w \<le> u64_sat_inc w"
  by (auto simp: u64_sat_inc_def dest: u64_less_inc)

lemma u64_sat_inc_gt: "w \<noteq> - 1 \<Longrightarrow> w < u64_sat_inc w"
  by (simp add: u64_sat_inc_def u64_less_inc)

lemma u64_sat_inc_nonzero [simp]: "u64_sat_inc w \<noteq> 0"
proof (cases "w = - 1")
  case False
  then have "0 < u64_sat_inc w"
    using u64_sat_inc_gt [of w] by (meson order_le_less_trans word_zero_le)
  then show ?thesis by auto
qed (simp add: u64_sat_inc_def)

lemma i64_wrap_id: "is_i64 x \<Longrightarrow> i64_wrap x = x"
  by (simp add: eval_simps)

lemma i64_add_exact: "is_i64 (a + b) \<Longrightarrow> i64_add a b = a + b"
  by (simp add: i64_add_def i64_wrap_id)

lemma is_i64_wrap [simp]: "is_i64 (i64_wrap x)"
  using pos_mod_bound [of 18446744073709551616 "x + 9223372036854775808"]
    pos_mod_sign [of 18446744073709551616 "x + 9223372036854775808"]
  by (simp add: is_i64_def i64_min_def i64_max_def i64_wrap_def)

lemma is_i64_clamp [simp]: "is_i64 (i64_clamp x)"
  by (simp add: eval_simps)

lemma mod_add_left_inj:
  assumes "(k + m) mod q = (k + n) mod q" and "m < q" and "n < (q :: nat)"
  shows "m = n"
proof -
  have "m \<le> n" if eq: "(k + m) mod q = (k + n) mod q" and lt: "m < q" for m n
  proof (rule ccontr)
    assume "\<not> m \<le> n"
    then obtain s where s: "k + m = k + n + q * s"
      using mod_eq_nat1E [OF eq] by (metis nat_add_left_cancel_le nat_le_linear)
    with lt have "s = 0" by (cases s) auto
    with s \<open>\<not> m \<le> n\<close> show False by simp
  qed
  from this [OF assms(1,2)] this [OF assms(1) [symmetric] assms(3)] show ?thesis by simp
qed

section \<open>Options and lists\<close>

text \<open>\<open>Option::is_none_or\<close> and \<open>Option::is_some_and\<close>.\<close>

fun is_none_or :: "('a \<Rightarrow> bool) \<Rightarrow> 'a option \<Rightarrow> bool" where
  "is_none_or P None = True"
| "is_none_or P (Some x) = P x"

fun is_some_and :: "('a \<Rightarrow> bool) \<Rightarrow> 'a option \<Rightarrow> bool" where
  "is_some_and P None = False"
| "is_some_and P (Some x) = P x"

lemma is_none_or_iff: "is_none_or P x \<longleftrightarrow> (\<forall>y. x = Some y \<longrightarrow> P y)"
  by (cases x) simp_all

lemma is_some_and_iff: "is_some_and P x \<longleftrightarrow> (\<exists>y. x = Some y \<and> P y)"
  by (cases x) simp_all

text \<open>\<open>Option::filter\<close>.\<close>

definition opt_filter :: "('a \<Rightarrow> bool) \<Rightarrow> 'a option \<Rightarrow> 'a option" where
  "opt_filter P x = (case x of None \<Rightarrow> None | Some y \<Rightarrow> if P y then Some y else None)"

lemma opt_filter_simps [simp]:
  "opt_filter P None = None"
  "opt_filter P (Some y) = (if P y then Some y else None)"
  by (simp_all add: opt_filter_def)

lemma opt_filter_eq_Some [simp]: "opt_filter P x = Some y \<longleftrightarrow> x = Some y \<and> P y"
  by (cases x) auto

text \<open>\<open>str::split\<close> on one character: never empty, and \<open>join\<close> inverts it.\<close>

fun split_on :: "'a \<Rightarrow> 'a list \<Rightarrow> 'a list list" where
  "split_on c [] = [[]]"
| "split_on c (x # xs) =
     (if x = c then [] # split_on c xs
      else case split_on c xs of [] \<Rightarrow> [[x]] | p # ps \<Rightarrow> (x # p) # ps)"

fun join_on :: "'a \<Rightarrow> 'a list list \<Rightarrow> 'a list" where
  "join_on c [] = []"
| "join_on c [p] = p"
| "join_on c (p # q # ps) = p @ c # join_on c (q # ps)"

lemma split_on_not_Nil [simp]: "split_on c xs \<noteq> []"
  by (induction xs) (auto split: list.split)

lemma join_split [simp]: "join_on c (split_on c xs) = xs"
proof (induction xs)
  case Nil
  then show ?case by simp
next
  case (Cons x xs)
  then show ?case
    by (cases "split_on c xs"; cases "tl (split_on c xs)") auto
qed

lemma split_on_no_sep: "p \<in> set (split_on c xs) \<Longrightarrow> c \<notin> set p"
  by (induction xs arbitrary: p) (auto split: list.splits if_splits)

lemma split_on_single: "c \<notin> set xs \<Longrightarrow> split_on c xs = [xs]"
  by (induction xs) auto

lemma split_on_append: "c \<notin> set ys \<Longrightarrow> split_on c (xs @ c # ys) = split_on c xs @ [ys]"
  by (induction xs) (auto simp: split_on_single split: list.split)

lemma split_on_append_sep: "split_on c (xs @ c # ys) = split_on c xs @ split_on c ys"
  by (induction xs) (auto split: list.split)

lemma split_join:
  "ps \<noteq> [] \<Longrightarrow> \<forall>p \<in> set ps. c \<notin> set p \<Longrightarrow> split_on c (join_on c ps) = ps"
  by (induction c ps rule: join_on.induct) (auto simp: split_on_single split_on_append_sep)

text \<open>\<open>str::rfind\<close> of one character.\<close>

fun rfind_on :: "'a \<Rightarrow> 'a list \<Rightarrow> nat option" where
  "rfind_on c [] = None"
| "rfind_on c (x # xs) =
     (case rfind_on c xs of Some i \<Rightarrow> Some (Suc i) | None \<Rightarrow> if x = c then Some 0 else None)"

lemma rfind_on_None [simp]: "rfind_on c xs = None \<longleftrightarrow> c \<notin> set xs"
  by (induction xs) (auto split: option.splits)

lemma rfind_on_Some:
  "rfind_on c xs = Some i \<Longrightarrow>
     i < length xs \<and> xs = take i xs @ c # drop (Suc i) xs \<and> c \<notin> set (drop (Suc i) xs)"
proof (induction xs arbitrary: i)
  case Nil
  then show ?case by simp
next
  case (Cons x xs)
  show ?case
  proof (cases "rfind_on c xs")
    case None
    with Cons.prems show ?thesis by (auto split: if_splits)
  next
    case (Some j)
    with Cons.prems Cons.IH [OF Some] show ?thesis by auto
  qed
qed

lemma foldl_max_set: "foldl max (x :: 'a::linorder) xs = Max (insert x (set xs))"
proof -
  have "(\<lambda>x s. max s x) = (max :: 'a \<Rightarrow> 'a \<Rightarrow> 'a)"
    by (intro ext) (simp add: max.commute)
  then show ?thesis
    using Max.set_eq_fold [of x xs] by (simp add: foldl_conv_fold)
qed

lemma sorted_wrt_less_distinct: "sorted_wrt (<) (xs :: 'a::preorder list) \<Longrightarrow> distinct xs"
  by (induction xs) auto

end
