(* ===== verification/BTree.thy ===== *)
theory BTree
  imports Prelude
begin

text \<open>
  \<open>std::collections::BTreeMap\<close> and \<open>BTreeSet\<close>, which hold all the state of the engine: finite maps
  that iterate in key order. A \<open>bmap\<close> is a list of entries with strictly increasing keys, so that
  two maps are equal exactly if they have the same entries, as Rust's derived \<open>==\<close> has it.
  The operations are those the engine uses. \<open>ordered_map\<close> is their contract; the lemmas
  derived from it are proved in the locale and reach the components by its interpretation.
\<close>

section \<open>The operations\<close>

typedef (overloaded) ('k, 'v) bmap =
  "{xs :: ('k::linorder \<times> 'v) list. sorted_wrt (<) (map fst xs)}"
  morphisms bm_entries Bmap
  by (rule exI [of _ "[]"]) simp

setup_lifting type_definition_bmap

fun al_insert :: "'k::linorder \<Rightarrow> 'v \<Rightarrow> ('k \<times> 'v) list \<Rightarrow> ('k \<times> 'v) list" where
  "al_insert k v [] = [(k, v)]"
| "al_insert k v ((k', v') # xs) =
     (if k < k' then (k, v) # (k', v') # xs
      else if k = k' then (k, v) # xs
      else (k', v') # al_insert k v xs)"

lemma fst_al_insert: "set (map fst (al_insert k v xs)) = insert k (set (map fst xs))"
  by (induction k v xs rule: al_insert.induct) auto

lemma sorted_al_insert:
  "sorted_wrt (<) (map fst xs) \<Longrightarrow> sorted_wrt (<) (map fst (al_insert k v xs))"
proof (induction k v xs rule: al_insert.induct)
  case (2 k v k' v' xs)
  then show ?case using fst_al_insert [of k v xs] by (auto dest: less_trans)
qed simp

lemma sorted_filter_fst:
  "sorted_wrt (<) (map fst xs) \<Longrightarrow> sorted_wrt (<) (map fst (filter P xs))"
  by (induction xs) auto

lift_definition bm_empty :: "('k::linorder, 'v) bmap" is "[]" by simp

lift_definition bm_insert :: "'k::linorder \<Rightarrow> 'v \<Rightarrow> ('k, 'v) bmap \<Rightarrow> ('k, 'v) bmap" is al_insert
  by (rule sorted_al_insert)

lift_definition bm_filter ::
    "('k::linorder \<Rightarrow> 'v \<Rightarrow> bool) \<Rightarrow> ('k, 'v) bmap \<Rightarrow> ('k, 'v) bmap" is
  "\<lambda>P. filter (\<lambda>(k, v). P k v)"
  by (rule sorted_filter_fst)

lift_definition bm_map :: "('k::linorder \<Rightarrow> 'v \<Rightarrow> 'w) \<Rightarrow> ('k, 'v) bmap \<Rightarrow> ('k, 'w) bmap" is
  "\<lambda>f. map (\<lambda>(k, v). (k, f k v))"
  by (simp add: comp_def split_def)

definition bm_remove :: "'k::linorder \<Rightarrow> ('k, 'v) bmap \<Rightarrow> ('k, 'v) bmap" where
  "bm_remove k m = bm_filter (\<lambda>k' _. k' \<noteq> k) m"

definition bm_get :: "('k::linorder, 'v) bmap \<Rightarrow> 'k \<Rightarrow> 'v option" where
  "bm_get m k = map_of (bm_entries m) k"

definition bm_has :: "('k::linorder, 'v) bmap \<Rightarrow> 'k \<Rightarrow> bool" where
  "bm_has m k \<longleftrightarrow> bm_get m k \<noteq> None"

definition bm_keys :: "('k::linorder, 'v) bmap \<Rightarrow> 'k list" where
  "bm_keys m = map fst (bm_entries m)"

definition bm_values :: "('k::linorder, 'v) bmap \<Rightarrow> 'v list" where
  "bm_values m = map snd (bm_entries m)"

definition bm_is_empty :: "('k::linorder, 'v) bmap \<Rightarrow> bool" where
  "bm_is_empty m \<longleftrightarrow> bm_entries m = []"

definition bm_len :: "('k::linorder, 'v) bmap \<Rightarrow> nat" where
  "bm_len m = length (bm_entries m)"

text \<open>\<open>collect\<close> and \<open>extend\<close>: a later pair replaces an earlier one with its key.\<close>

definition bm_extend :: "('k::linorder, 'v) bmap \<Rightarrow> ('k \<times> 'v) list \<Rightarrow> ('k, 'v) bmap" where
  "bm_extend m xs = foldl (\<lambda>m (k, v). bm_insert k v m) m xs"

definition bm_of_list :: "('k::linorder \<times> 'v) list \<Rightarrow> ('k, 'v) bmap" where
  "bm_of_list xs = bm_extend bm_empty xs"

text \<open>\<open>BTreeSet<K>\<close> is \<open>BTreeMap<K, ()>\<close>, as in the standard library.\<close>

type_synonym 'k bset = "('k, unit) bmap"

abbreviation bs_insert :: "'k::linorder \<Rightarrow> 'k bset \<Rightarrow> 'k bset" where
  "bs_insert k \<equiv> bm_insert k ()"

definition bs_of_list :: "'k::linorder list \<Rightarrow> 'k bset" where
  "bs_of_list ks = bm_of_list (map (\<lambda>k. (k, ())) ks)"

definition bs_union :: "'k::linorder bset \<Rightarrow> 'k bset \<Rightarrow> 'k bset" where
  "bs_union s t = bm_extend s (bm_entries t)"

section \<open>The contract, and what follows from it\<close>

locale ordered_map =
  fixes empty :: "'m"
    and insert :: "'k::linorder \<Rightarrow> 'v \<Rightarrow> 'm \<Rightarrow> 'm"
    and remove :: "'k \<Rightarrow> 'm \<Rightarrow> 'm"
    and get :: "'m \<Rightarrow> 'k \<Rightarrow> 'v option"
    and entries :: "'m \<Rightarrow> ('k \<times> 'v) list"
  assumes get_empty: "get empty k = None"
    and get_insert: "get (insert k v m) k' = (if k' = k then Some v else get m k')"
    and get_remove: "get (remove k m) k' = (if k' = k then None else get m k')"
    and sorted_entries: "sorted_wrt (<) (map fst (entries m))"
    and in_entries: "(k, v) \<in> set (entries m) \<longleftrightarrow> get m k = Some v"
    and entries_inj: "entries m = entries m' \<Longrightarrow> m = m'"
begin

lemma ext_eq: "(\<And>k. get m k = get m' k) \<Longrightarrow> m = m'"
proof -
  assume eq: "\<And>k. get m k = get m' k"
  have set: "set (entries m) = set (entries m')"
    using in_entries eq by auto
  have sorted: "sorted (map fst (entries m))" "sorted (map fst (entries m'))"
    and dist: "distinct (map fst (entries m))" "distinct (map fst (entries m'))"
    using sorted_entries by (auto intro: sorted_wrt_less_distinct strict_sorted_imp_sorted)
  have "inj_on fst (set (entries m) \<union> set (entries m'))"
    using dist(1) set by (simp add: distinct_map)
  then have "entries m = entries m'"
    using sorted dist set by (intro map_sorted_distinct_set_unique)
  then show "m = m'" by (rule entries_inj)
qed

lemma insert_idem: "get m k = Some v \<Longrightarrow> insert k v m = m"
  by (rule ext_eq) (auto simp: get_insert)

lemma insert_insert: "insert k v (insert k w m) = insert k v m"
  by (rule ext_eq) (auto simp: get_insert)

lemma insert_commute: "k \<noteq> k' \<Longrightarrow> insert k v (insert k' w m) = insert k' w (insert k v m)"
  by (rule ext_eq) (auto simp: get_insert)

lemma remove_absent: "get m k = None \<Longrightarrow> remove k m = m"
  by (rule ext_eq) (auto simp: get_remove)

lemma remove_insert: "get m k = None \<Longrightarrow> remove k (insert k v m) = m"
  by (rule ext_eq) (auto simp: get_remove get_insert)

lemma insert_remove: "insert k v (remove k m) = insert k v m"
  by (rule ext_eq) (auto simp: get_remove get_insert)

lemma reinsert: "get m k = Some v \<Longrightarrow> insert k v (remove k m) = m"
  by (simp add: insert_remove insert_idem)

lemma entries_distinct: "distinct (map fst (entries m))"
  using sorted_entries by (rule sorted_wrt_less_distinct)

end

lemma bm_get_eq_Some_iff: "bm_get m k = Some v \<longleftrightarrow> (k, v) \<in> set (bm_entries m)"
proof -
  have "distinct (map fst (bm_entries m))"
    using bm_entries [of m] by (auto intro: sorted_wrt_less_distinct)
  then show ?thesis by (simp add: bm_get_def)
qed

lemma map_of_al_insert:
  "map_of (al_insert k v xs) k' = (if k' = k then Some v else map_of xs k')"
  by (induction k v xs rule: al_insert.induct) auto

interpretation bm: ordered_map bm_empty bm_insert bm_remove bm_get bm_entries
proof unfold_locales
  fix k k' :: "'a :: linorder" and v :: 'b and m m' :: "('a, 'b) bmap"
  show "bm_get bm_empty k = None"
    by (simp add: bm_get_def bm_empty.rep_eq)
  show "bm_get (bm_insert k v m) k' = (if k' = k then Some v else bm_get m k')"
    by (simp add: bm_get_def bm_insert.rep_eq map_of_al_insert)
  have "map_of (filter (\<lambda>(k', _). k' \<noteq> k) xs) k' = (if k' = k then None else map_of xs k')"
    for xs :: "('a \<times> 'b) list"
    by (induction xs) auto
  then show "bm_get (bm_remove k m) k' = (if k' = k then None else bm_get m k')"
    by (simp add: bm_get_def bm_remove_def bm_filter.rep_eq)
  show "sorted_wrt (<) (map fst (bm_entries m))"
    using bm_entries [of m] by simp
  show "(k, v) \<in> set (bm_entries m) \<longleftrightarrow> bm_get m k = Some v"
    by (simp add: bm_get_eq_Some_iff)
  show "bm_entries m = bm_entries m' \<Longrightarrow> m = m'"
    by (simp add: bm_entries_inject)
qed

lemmas bm_eqI = bm.ext_eq

declare bm_empty.rep_eq [simp] bm_insert.rep_eq [simp]
declare bm.get_empty [simp]

lemma bm_get_insert [simp]: "bm_get (bm_insert k v m) k' = (if k' = k then Some v else bm_get m k')"
  by (rule bm.get_insert)

lemma bm_get_remove [simp]: "bm_get (bm_remove k m) k' = (if k' = k then None else bm_get m k')"
  by (rule bm.get_remove)

lemma bm_get_filter [simp]: "bm_get (bm_filter P m) k = opt_filter (P k) (bm_get m k)"
proof -
  have "bm_get (bm_filter P m) k = Some v \<longleftrightarrow> opt_filter (P k) (bm_get m k) = Some v" for v
    unfolding bm.in_entries [symmetric] opt_filter_eq_Some by (simp add: bm_filter.rep_eq)
  then show ?thesis by (metis not_Some_eq)
qed

lemma bm_get_map [simp]: "bm_get (bm_map f m) k = map_option (f k) (bm_get m k)"
proof -
  have "map_of (map (\<lambda>(k, v). (k, f k v)) xs) k = map_option (f k) (map_of xs k)" for xs
    by (induction xs) auto
  then show ?thesis by (simp add: bm_get_def bm_map.rep_eq)
qed

lemma bm_entries_filter [simp]: "bm_entries (bm_filter P m) = filter (\<lambda>(k, v). P k v) (bm_entries m)"
  by (rule bm_filter.rep_eq)

lemma bm_entries_remove [simp]: "bm_entries (bm_remove k m) = filter (\<lambda>(k', _). k' \<noteq> k) (bm_entries m)"
  by (simp add: bm_remove_def)

lemma bm_entries_map [simp]: "bm_entries (bm_map f m) = map (\<lambda>(k, v). (k, f k v)) (bm_entries m)"
  by (rule bm_map.rep_eq)

lemma in_bm_entries: "(k, v) \<in> set (bm_entries m) \<longleftrightarrow> bm_get m k = Some v"
  by (rule bm.in_entries)

lemma bm_has_iff [simp]: "bm_has m k \<longleftrightarrow> (\<exists>v. bm_get m k = Some v)"
  by (auto simp: bm_has_def)

lemma in_bm_keys: "k \<in> set (bm_keys m) \<longleftrightarrow> bm_has m k"
  by (force simp: bm_keys_def in_bm_entries [symmetric])

lemma in_bm_values: "v \<in> set (bm_values m) \<longleftrightarrow> (\<exists>k. bm_get m k = Some v)"
  by (force simp: bm_values_def in_bm_entries [symmetric])

lemma bm_keys_sorted: "sorted_wrt (<) (bm_keys m)"
  unfolding bm_keys_def by (rule bm.sorted_entries)

lemma bm_keys_distinct [simp]: "distinct (bm_keys m)"
  by (rule sorted_wrt_less_distinct [OF bm_keys_sorted])

lemma bm_is_empty_iff: "bm_is_empty m \<longleftrightarrow> (\<forall>k. bm_get m k = None)"
proof
  show "\<forall>k. bm_get m k = None" if "bm_is_empty m"
    using that by (simp add: bm_is_empty_def bm_get_def)
  show "bm_is_empty m" if "\<forall>k. bm_get m k = None"
  proof -
    have "m = bm_empty" by (rule bm_eqI) (simp add: that)
    then show ?thesis by (simp add: bm_is_empty_def)
  qed
qed

lemma bm_get_extend:
  "bm_get (bm_extend m xs) k = (case map_of (rev xs) k of Some v \<Rightarrow> Some v | None \<Rightarrow> bm_get m k)"
proof (induction xs arbitrary: m)
  case Nil
  then show ?case by (simp add: bm_extend_def)
next
  case (Cons x xs)
  obtain k' v' where x: "x = (k', v')" by fastforce
  have "bm_extend m (x # xs) = bm_extend (bm_insert k' v' m) xs"
    by (simp add: bm_extend_def x)
  with Cons.IH [of "bm_insert k' v' m"] show ?case
    by (auto simp: x map_add_def split: option.split)
qed

lemma bm_get_of_list: "bm_get (bm_of_list xs) k = map_of (rev xs) k"
  by (simp add: bm_of_list_def bm_get_extend split: option.split)

lemma bm_of_list_entries [simp]: "bm_of_list (bm_entries m) = m"
proof (rule bm_eqI)
  fix k
  have "distinct (map fst (rev (bm_entries m)))"
    by (simp add: rev_map [symmetric] bm.entries_distinct)
  then have "map_of (rev (bm_entries m)) k = Some v \<longleftrightarrow> map_of (bm_entries m) k = Some v" for v
    by (simp add: bm.entries_distinct)
  then have "map_of (rev (bm_entries m)) k = map_of (bm_entries m) k"
    by (metis not_Some_eq)
  then show "bm_get (bm_of_list (bm_entries m)) k = bm_get m k"
    unfolding bm_get_of_list by (simp add: bm_get_def)
qed

lemma bs_has_of_list: "bm_has (bs_of_list ks) k \<longleftrightarrow> k \<in> set ks"
proof -
  have "map_of (rev (map (\<lambda>k. (k, ())) ks)) k = Some () \<longleftrightarrow> k \<in> set ks"
    by (induction ks) (auto simp: map_add_def split: option.split)
  then show ?thesis by (simp add: bs_of_list_def bm_get_of_list)
qed

lemma bs_has_union: "bm_has (bs_union s t) k \<longleftrightarrow> bm_has s k \<or> bm_has t k"
proof -
  have "bm_get (bs_union s t) k =
      (case bm_get (bm_of_list (bm_entries t)) k of Some v \<Rightarrow> Some v | None \<Rightarrow> bm_get s k)"
    by (simp only: bs_union_def bm_get_extend bm_get_of_list)
  then show ?thesis by (auto split: option.split)
qed

lemma length_filter_values:
  "length (filter P (bm_values m)) = card {k. \<exists>v. bm_get m k = Some v \<and> P v}"
proof -
  let ?es = "filter (\<lambda>(_, v). P v) (bm_entries m)"
  have "distinct (map fst ?es)"
    using bm.entries_distinct [of m] by (rule List.distinct_map_filter)
  then have "length ?es = card (set (map fst ?es))"
    using distinct_card by fastforce
  moreover have "set (map fst ?es) = {k. \<exists>v. bm_get m k = Some v \<and> P v}"
    by (force simp flip: in_bm_entries)
  moreover have "length (filter P (bm_values m)) = length ?es"
    by (simp add: bm_values_def filter_map comp_def case_prod_unfold)
  ultimately show ?thesis by simp
qed

lemma finite_bm_dom: "finite {k. \<exists>v. bm_get m k = Some v \<and> P k v}"
proof (rule finite_subset)
  show "{k. \<exists>v. bm_get m k = Some v \<and> P k v} \<subseteq> set (bm_keys m)" by (auto simp: in_bm_keys)
qed simp

instantiation bmap :: (linorder, type) equal
begin

definition equal_bmap :: "('a, 'b) bmap \<Rightarrow> ('a, 'b) bmap \<Rightarrow> bool" where
  "equal_bmap m m' \<longleftrightarrow> bm_entries m = bm_entries m'"

instance
  by standard (simp add: equal_bmap_def bm_entries_inject)

end

instantiation bmap :: (linorder, type) size
begin

definition size_bmap :: "('a, 'b) bmap \<Rightarrow> nat" where
  "size_bmap = bm_len"

instance ..

end

lemmas [eval_simps] =
  bm_get_def bm_keys_def bm_values_def bm_is_empty_def bm_len_def bm_extend_def bm_of_list_def
  bs_of_list_def bs_union_def

end
