(* ===== verification/Ids.thy ===== *)
theory Ids
  imports BTree
begin

unbundle bit_operations_syntax

text \<open>
  \<open>crates/engine/src/id.rs\<close>: the byte newtypes (node, folder and batch ids, and the 32-byte content
  hash of \<open>entry.rs\<close>, which shares the macro), their hex form, \<open>BatchId::successor\<close>, and host names.
  A newtype over \<open>[u8; N]\<close> is a datatype over a byte list; its order is the derived \<open>Ord\<close>, byte order.
\<close>

section \<open>Hex\<close>

definition ID_LEN :: nat where
  "ID_LEN = 16"

datatype parse_hex_error = HexLength (hex_expected: nat) (hex_got: nat) | NotHex nat

definition hex_digit :: "char \<Rightarrow> byte option" where
  "hex_digit c =
     (let n = of_char c :: nat in
      if 48 \<le> n \<and> n \<le> 57 then Some (word_of_nat (n - 48))
      else if 97 \<le> n \<and> n \<le> 102 then Some (word_of_nat (n - 97 + 10))
      else if 65 \<le> n \<and> n \<le> 70 then Some (word_of_nat (n - 65 + 10))
      else None)"

text \<open>The loop of \<open>parse_hex\<close> over the slots, with the offset of the next pair.\<close>

fun parse_hex_pairs :: "nat \<Rightarrow> string \<Rightarrow> parse_hex_error + byte list" where
  "parse_hex_pairs i (a # b # s) =
     (case hex_digit a of None \<Rightarrow> Inl (NotHex i)
      | Some hi \<Rightarrow>
        (case hex_digit b of None \<Rightarrow> Inl (NotHex (i + 1))
         | Some lo \<Rightarrow>
           (case parse_hex_pairs (i + 2) s of Inl e \<Rightarrow> Inl e
            | Inr bs \<Rightarrow> Inr ((push_bit 4 hi OR lo) # bs))))"
| "parse_hex_pairs i s = Inr []"

definition parse_hex :: "nat \<Rightarrow> string \<Rightarrow> parse_hex_error + byte list" where
  "parse_hex n s =
     (if length s \<noteq> n * 2 then Inl (HexLength (n * 2) (length s)) else parse_hex_pairs 0 s)"

definition hex_char :: "byte \<Rightarrow> char" where
  "hex_char d = (if d < 10 then char_of (48 + unat d) else char_of (87 + unat d))"

definition write_hex :: "byte list \<Rightarrow> string" where
  "write_hex bs = concat (map (\<lambda>b. [hex_char (drop_bit 4 b), hex_char (b AND 15)]) bs)"

text \<open>The short display form, the first eight characters.\<close>

definition short_hex :: "byte list \<Rightarrow> string" where
  "short_hex bs = write_hex (take 4 bs)"

lemma length_write_hex [simp]: "length (write_hex bs) = 2 * length bs"
  by (induction bs) (auto simp: write_hex_def)

lemma hex_digit_char:
  assumes "d < 16" shows "hex_digit (hex_char d) = Some d"
proof -
  have lt: "unat d < 16"
    using assms by (simp add: word_less_nat_alt)
  have "of_char (char_of (k :: nat) :: char) = k" if "k < 256" for k
    using that by (simp add: of_char_of)
  then have code: "of_char (hex_char d) = (if unat d < 10 then 48 + unat d else 87 + unat d)"
    using lt by (auto simp: hex_char_def word_less_nat_alt)
  show ?thesis
    using lt unfolding hex_digit_def code Let_def by (auto split: if_splits)
qed

lemma nibbles:
  fixes b :: byte
  shows "push_bit 4 (drop_bit 4 b) OR (b AND 15) = b"
proof -
  have "(15 :: byte) = mask 4" by (simp add: mask_eq_exp_minus_1)
  then show ?thesis
    by (simp add: bit_eq_iff bit_or_iff bit_and_iff bit_push_bit_iff bit_drop_bit_eq bit_mask_iff)
      (metis add.commute add_diff_inverse_nat not_less)
qed

lemma nibble_bounds:
  fixes b :: byte
  shows "drop_bit 4 b < 16" "b AND 15 < 16"
proof -
  have "unat b div 16 < 16" using byte_lt [of b] by linarith
  then show "drop_bit 4 b < 16"
    by (simp add: word_less_nat_alt unat_drop_bit_eq drop_bit_eq_div unat_div)
  have "b AND 15 \<le> 15" by (rule word_and_le1)
  then show "b AND 15 < 16" by (simp add: word_le_nat_alt word_less_nat_alt)
qed

lemma parse_write_pairs: "parse_hex_pairs i (write_hex bs) = Inr bs"
proof (induction bs arbitrary: i)
  case Nil
  then show ?case by (simp add: write_hex_def)
next
  case (Cons b bs)
  have "write_hex (b # bs) = hex_char (drop_bit 4 b) # hex_char (b AND 15) # write_hex bs"
    by (simp add: write_hex_def)
  with Cons.IH show ?case
    by (simp add: hex_digit_char nibble_bounds nibbles)
qed

lemma parse_hex_pairs_length:
  "parse_hex_pairs i s = Inr bs \<Longrightarrow> length bs = length s div 2"
  by (induction i s arbitrary: bs rule: parse_hex_pairs.induct)
    (auto split: option.splits sum.splits)

lemma parse_hex_length: "parse_hex n s = Inr bs \<Longrightarrow> length bs = n"
  by (auto simp: parse_hex_def dest: parse_hex_pairs_length split: if_splits)

section \<open>The identifiers\<close>

datatype node_id = NodeId (node_bytes: "byte list")
datatype folder_id = FolderId (folder_bytes: "byte list")
datatype batch_id = BatchId (batch_bytes: "byte list")

instantiation node_id :: linorder
begin

definition less_eq_node_id :: "node_id \<Rightarrow> node_id \<Rightarrow> bool" where
  "less_eq_node_id a b \<longleftrightarrow> node_bytes a \<le> node_bytes b"

definition less_node_id :: "node_id \<Rightarrow> node_id \<Rightarrow> bool" where
  "less_node_id a b \<longleftrightarrow> node_bytes a < node_bytes b"

instance
  by standard (auto simp: less_eq_node_id_def less_node_id_def intro: node_id.expand)

end

instantiation batch_id :: linorder
begin

definition less_eq_batch_id :: "batch_id \<Rightarrow> batch_id \<Rightarrow> bool" where
  "less_eq_batch_id a b \<longleftrightarrow> batch_bytes a \<le> batch_bytes b"

definition less_batch_id :: "batch_id \<Rightarrow> batch_id \<Rightarrow> bool" where
  "less_batch_id a b \<longleftrightarrow> batch_bytes a < batch_bytes b"

instance
  by standard (auto simp: less_eq_batch_id_def less_batch_id_def intro: batch_id.expand)

end

instantiation folder_id :: linorder
begin

definition less_eq_folder_id :: "folder_id \<Rightarrow> folder_id \<Rightarrow> bool" where
  "less_eq_folder_id a b \<longleftrightarrow> folder_bytes a \<le> folder_bytes b"

definition less_folder_id :: "folder_id \<Rightarrow> folder_id \<Rightarrow> bool" where
  "less_folder_id a b \<longleftrightarrow> folder_bytes a < folder_bytes b"

instance
  by standard (auto simp: less_eq_folder_id_def less_folder_id_def intro: folder_id.expand)

end

lemmas id_order_simps [simp, eval_simps] =
  less_eq_node_id_def less_node_id_def less_eq_batch_id_def less_batch_id_def
  less_eq_folder_id_def less_folder_id_def

text \<open>
  \<open>NodeId::from_str\<close>, one instance of the macro: the sixteen bytes of the hex form.
\<close>

definition node_id_from_str :: "string \<Rightarrow> parse_hex_error + node_id" where
  "node_id_from_str s = (case parse_hex ID_LEN s of Inl e \<Rightarrow> Inl e | Inr bs \<Rightarrow> Inr (NodeId bs))"

definition node_id_to_string :: "node_id \<Rightarrow> string" where
  "node_id_to_string n = write_hex (node_bytes n)"

definition node_id_short :: "node_id \<Rightarrow> string" where
  "node_id_short n = short_hex (node_bytes n)"

section \<open>\<open>BatchId::successor\<close>\<close>

fun be_to_nat :: "byte list \<Rightarrow> nat" where
  "be_to_nat [] = 0"
| "be_to_nat (b # bs) = unat b * 256 ^ length bs + be_to_nat bs"

fun nat_to_be :: "nat \<Rightarrow> nat \<Rightarrow> byte list" where
  "nat_to_be 0 n = []"
| "nat_to_be (Suc k) n = word_of_nat (n div 256 ^ k mod 256) # nat_to_be k n"

definition batch_successor :: "batch_id \<Rightarrow> nat \<Rightarrow> batch_id" where
  "batch_successor b n =
     BatchId (nat_to_be ID_LEN ((be_to_nat (batch_bytes b) + n) mod 2 ^ 128))"

lemma length_nat_to_be [simp]: "length (nat_to_be k n) = k"
  by (induction k) auto

lemma be_to_nat_bound: "be_to_nat bs < 256 ^ length bs"
proof (induction bs)
  case (Cons b bs)
  have "unat b \<le> 255" using byte_lt [of b] by linarith
  then have "unat b * 256 ^ length bs \<le> 255 * 256 ^ length bs" by (rule mult_le_mono1)
  with Cons.IH have "unat b * 256 ^ length bs + be_to_nat bs < 256 * 256 ^ length bs" by linarith
  then show ?case by simp
qed simp

lemma be_to_nat_to_be: "be_to_nat (nat_to_be k n) = n mod 256 ^ k"
proof (induction k)
  case (Suc k)
  have "n mod 256 ^ Suc k = n mod (256 ^ k * 256)" by (simp add: mult.commute)
  also have "\<dots> = 256 ^ k * (n div 256 ^ k mod 256) + n mod 256 ^ k" by (rule mod_mult2_eq)
  finally show ?case
    using Suc.IH by (simp add: unat_of_nat mult.commute)
qed simp

lemma batch_successor_nat:
  "be_to_nat (batch_bytes (batch_successor b n)) = (be_to_nat (batch_bytes b) + n) mod 2 ^ 128"
  by (simp add: batch_successor_def be_to_nat_to_be ID_LEN_def)

lemma batch_successor_inj:
  assumes "batch_successor b m = batch_successor b n" and "m < 2 ^ 128" and "n < 2 ^ 128"
  shows "m = n"
proof -
  let ?k = "be_to_nat (batch_bytes b)"
  have "(?k + m) mod 2 ^ 128 = (?k + n) mod 2 ^ 128"
    using assms(1) batch_successor_nat [of b m] batch_successor_nat [of b n] by simp
  then show ?thesis using assms(2,3) by (rule mod_add_left_inj)
qed

section \<open>Host names\<close>

datatype host_name_error = HostTooLong nat | HostBadChar nat

datatype host_name = HostName (host_str: string)

definition host_max_len :: nat where
  "host_max_len = 63"

definition host_char :: "char \<Rightarrow> bool" where
  "host_char c = (let n = of_char c :: nat in
     (97 \<le> n \<and> n \<le> 122) \<or> (48 \<le> n \<and> n \<le> 57) \<or> n = 45)"

fun position_of :: "('a \<Rightarrow> bool) \<Rightarrow> 'a list \<Rightarrow> nat option" where
  "position_of P [] = None"
| "position_of P (x # xs) = (if P x then Some 0 else map_option Suc (position_of P xs))"

definition host_name_new :: "string \<Rightarrow> host_name_error + host_name" where
  "host_name_new s =
     (if host_max_len < length s then Inl (HostTooLong (length s))
      else case position_of (\<lambda>c. \<not> host_char c) s of
        Some at \<Rightarrow> Inl (HostBadChar at)
      | None \<Rightarrow> Inr (HostName s))"

definition host_empty :: host_name where
  "host_empty = HostName []"

definition host_ok :: "host_name \<Rightarrow> bool" where
  "host_ok h \<longleftrightarrow> length (host_str h) \<le> host_max_len \<and> list_all host_char (host_str h)"

instantiation host_name :: linorder
begin

definition less_eq_host_name :: "host_name \<Rightarrow> host_name \<Rightarrow> bool" where
  "less_eq_host_name a b \<longleftrightarrow> host_str a \<le> host_str b"

definition less_host_name :: "host_name \<Rightarrow> host_name \<Rightarrow> bool" where
  "less_host_name a b \<longleftrightarrow> host_str a < host_str b"

instance
  by standard (auto simp: less_eq_host_name_def less_host_name_def intro: host_name.expand)

end

lemmas [simp, eval_simps] = less_eq_host_name_def less_host_name_def

lemma position_of_None: "position_of P xs = None \<longleftrightarrow> (\<forall>x \<in> set xs. \<not> P x)"
  by (induction xs) auto

lemma position_of_Some: "position_of P xs = Some i \<Longrightarrow> i < length xs \<and> P (xs ! i)"
  by (induction xs arbitrary: i) (auto split: if_splits)

lemma host_name_new_ok: "host_name_new s = Inr h \<longleftrightarrow> h = HostName s \<and> host_ok h"
proof (cases "position_of (\<lambda>c. \<not> host_char c) s")
  case None
  moreover from None have "list_all host_char s"
    by (simp add: position_of_None list_all_iff)
  ultimately show ?thesis
    by (auto simp: host_name_new_def host_ok_def)
next
  case (Some i)
  then have "\<exists>c \<in> set s. \<not> host_char c"
    using position_of_Some [OF Some] nth_mem by blast
  with Some show ?thesis
    by (auto simp: host_name_new_def host_ok_def list_all_iff)
qed

lemmas [eval_simps] =
  ID_LEN_def hex_digit_def parse_hex_def hex_char_def write_hex_def short_hex_def
  node_id_from_str_def node_id_to_string_def node_id_short_def batch_successor_def
  host_max_len_def host_char_def host_name_new_def host_empty_def host_ok_def

section \<open>Properties\<close>

text \<open>A node id printed as hex parses back to itself, and nothing but a string of 32 hex digits
  parses.\<close>

theorem node_id_round_trip:
  assumes "length (node_bytes n) = ID_LEN"
  shows "node_id_from_str (node_id_to_string n) = Inr n \<and>
    (\<forall>s m. node_id_from_str s = Inr m \<longrightarrow> length s = 32 \<and> length (node_bytes m) = ID_LEN)"
proof -
  have "length s = 2 * ID_LEN" if "parse_hex ID_LEN s = Inr bs" for s bs
    using that by (simp add: parse_hex_def split: if_splits)
  moreover have "parse_hex ID_LEN (write_hex (node_bytes n)) = Inr (node_bytes n)"
    using assms by (simp add: parse_hex_def parse_write_pairs)
  ultimately show ?thesis
    using parse_hex_length [of ID_LEN]
    by (fastforce simp: node_id_from_str_def node_id_to_string_def ID_LEN_def split: sum.splits)
qed

lemma node_id_round_trip_witness:
  "node_id_from_str (node_id_to_string (NodeId (replicate 16 171))) = Inr (NodeId (replicate 16 171))"
  using node_id_round_trip [of "NodeId (replicate 16 171)"] by (simp add: ID_LEN_def)

end
