(* ===== verification/Versions.thy ===== *)
theory Versions
  imports Ids
begin

text \<open>
  \<open>crates/engine/src/version.rs\<close>: version vectors. The counters of a vector are \<open>u64\<close> words, and a
  stored counter is never zero (the field is private and every constructor drops zeros), which
  the type of vectors states. \<open>version_algebra\<close> is what the other components rely on:
  a partial order in which \<open>merge\<close> is the least upper bound and \<open>incremented\<close> goes strictly up.
\<close>

section \<open>The code\<close>

datatype relation = Equal | Dominates | Dominated | Concurrent

fun relation_flip :: "relation \<Rightarrow> relation" where
  "relation_flip Dominates = Dominated"
| "relation_flip Dominated = Dominates"
| "relation_flip r = r"

definition rel_dominates_or_equals :: "relation \<Rightarrow> bool" where
  "rel_dominates_or_equals r \<longleftrightarrow> r = Dominates \<or> r = Equal"

typedef version = "{m :: (node_id, u64) bmap. \<forall>n. bm_get m n \<noteq> Some 0}"
  morphisms version_map Version
  by (rule exI [of _ bm_empty]) simp

lemma version_abstype [code abstype]: "Version (version_map v) = v"
  by (rule version_map_inverse)

lemma version_map_nonzero [simp]: "bm_get (version_map v) n \<noteq> Some 0"
  using version_map [of v] by simp

definition version_empty :: version where
  "version_empty = Version bm_empty"

text \<open>\<open>From<BTreeMap>\<close>, the way in from the wire and the store: zero counters are dropped.\<close>

definition version_from :: "(node_id, u64) bmap \<Rightarrow> version" where
  "version_from m = Version (bm_filter (\<lambda>_ c. 0 < c) m)"

lemma version_map_empty [simp, code abstract]: "version_map version_empty = bm_empty"
  by (simp add: version_empty_def Version_inverse)

lemma version_map_from [simp, code abstract]:
  "version_map (version_from m) = bm_filter (\<lambda>_ c. 0 < c) m"
  by (simp add: version_from_def Version_inverse)

definition version_is_empty :: "version \<Rightarrow> bool" where
  "version_is_empty v \<longleftrightarrow> bm_is_empty (version_map v)"

definition counter :: "version \<Rightarrow> node_id \<Rightarrow> u64" where
  "counter v n = (case bm_get (version_map v) n of Some c \<Rightarrow> c | None \<Rightarrow> 0)"

definition compare :: "version \<Rightarrow> version \<Rightarrow> relation" where
  "compare a b =
     (let self_greater = list_ex (\<lambda>(n, mine). counter b n < mine) (bm_entries (version_map a));
          other_greater = list_ex (\<lambda>(n, mine). mine < counter b n) (bm_entries (version_map a))
            \<or> list_ex (\<lambda>n. \<not> bm_has (version_map a) n) (bm_keys (version_map b))
      in case (self_greater, other_greater) of
           (False, False) \<Rightarrow> Equal
         | (True, False) \<Rightarrow> Dominates
         | (False, True) \<Rightarrow> Dominated
         | (True, True) \<Rightarrow> Concurrent)"

definition dominates :: "version \<Rightarrow> version \<Rightarrow> bool" where
  "dominates a b \<longleftrightarrow> compare a b = Dominates"

definition dominates_or_equals :: "version \<Rightarrow> version \<Rightarrow> bool" where
  "dominates_or_equals a b \<longleftrightarrow> rel_dominates_or_equals (compare a b)"

text \<open>\<open>merge\<close>: the loop raises each slot of a copy to the maximum.\<close>

definition merge_slot :: "(node_id, u64) bmap \<Rightarrow> node_id \<times> u64 \<Rightarrow> (node_id, u64) bmap" where
  "merge_slot m nt =
     bm_insert (fst nt) (max (case bm_get m (fst nt) of Some c \<Rightarrow> c | None \<Rightarrow> 0) (snd nt)) m"

lemma merge_slot_nonzero:
  assumes "\<forall>n. bm_get m n \<noteq> Some 0" and "snd x \<noteq> 0"
  shows "\<forall>n. bm_get (merge_slot m x) n \<noteq> Some 0"
proof -
  have "max c (snd x) \<noteq> 0" for c :: u64
    using assms(2) by (metis max.cobounded2 word_le_0_iff)
  with assms(1) show ?thesis by (simp add: merge_slot_def)
qed

lemma merge_slots_nonzero:
  "\<forall>n. bm_get m n \<noteq> Some 0 \<Longrightarrow> \<forall>x \<in> set xs. snd x \<noteq> 0 \<Longrightarrow>
     \<forall>n. bm_get (foldl merge_slot m xs) n \<noteq> Some 0"
proof (induction xs arbitrary: m)
  case (Cons x xs)
  then have "\<forall>n. bm_get (merge_slot m x) n \<noteq> Some 0" by (intro merge_slot_nonzero) auto
  with Cons show ?case by simp
qed simp

definition merge :: "version \<Rightarrow> version \<Rightarrow> version" where
  "merge a b = Version (foldl merge_slot (version_map a) (bm_entries (version_map b)))"

definition incremented :: "version \<Rightarrow> node_id \<Rightarrow> version" where
  "incremented v n = Version (bm_insert n
     (u64_sat_inc (case bm_get (version_map v) n of Some c \<Rightarrow> c | None \<Rightarrow> 0)) (version_map v))"

lemma version_map_merge [simp, code abstract]:
  "version_map (merge a b) = foldl merge_slot (version_map a) (bm_entries (version_map b))"
proof -
  have "\<forall>x \<in> set (bm_entries (version_map b)). snd x \<noteq> 0"
    by (auto simp: in_bm_entries)
  then have "\<forall>n. bm_get (foldl merge_slot (version_map a) (bm_entries (version_map b))) n \<noteq> Some 0"
    by (intro merge_slots_nonzero) simp_all
  then show ?thesis by (simp add: merge_def Version_inverse)
qed

lemma version_map_incremented [simp, code abstract]:
  "version_map (incremented v n) = bm_insert n
     (u64_sat_inc (case bm_get (version_map v) n of Some c \<Rightarrow> c | None \<Rightarrow> 0)) (version_map v)"
  by (simp add: incremented_def Version_inverse)

section \<open>The order\<close>

text \<open>Everything about vectors follows from the counters.\<close>

lemma version_eqI: "(\<And>n. counter a n = counter b n) \<Longrightarrow> a = b"
proof -
  assume eq: "\<And>n. counter a n = counter b n"
  have "bm_get (version_map a) n = bm_get (version_map b) n" for n
    using eq [of n] version_map_nonzero [of a n] version_map_nonzero [of b n]
    by (auto simp: counter_def split: option.splits)
  then have "version_map a = version_map b" by (rule bm_eqI)
  then show "a = b" by (simp add: version_map_inject)
qed

lemma counter_zero: "bm_get (version_map v) n = None \<longleftrightarrow> counter v n = 0"
  using version_map_nonzero [of v n] by (auto simp: counter_def split: option.split)

lemma counter_entries:
  "(n, c) \<in> set (bm_entries (version_map v)) \<longleftrightarrow> counter v n = c \<and> c \<noteq> 0"
  using version_map_nonzero [of v n] by (auto simp: in_bm_entries counter_def split: option.split)

lemma counter_keys: "n \<in> set (bm_keys (version_map v)) \<longleftrightarrow> counter v n \<noteq> 0"
  by (auto simp: in_bm_keys counter_zero [symmetric])

lemma counter_empty [simp]: "counter version_empty n = 0"
  by (simp add: counter_def)

lemma counter_from: "counter (version_from m) n = (case bm_get m n of Some c \<Rightarrow> c | None \<Rightarrow> 0)"
  by (auto simp: counter_def opt_filter_def word_gt_0 split: option.split)

lemma counter_merge_slots:
  "(case bm_get (foldl merge_slot m xs) n of Some c \<Rightarrow> c | None \<Rightarrow> 0) =
     foldl max (case bm_get m n of Some c \<Rightarrow> c | None \<Rightarrow> 0) (map snd (filter (\<lambda>x. fst x = n) xs))"
  by (induction xs arbitrary: m) (auto simp: merge_slot_def)

lemma filter_fst_alist:
  "distinct (map fst xs) \<Longrightarrow>
     filter (\<lambda>x. fst x = n) xs = (case map_of xs n of Some c \<Rightarrow> [(n, c)] | None \<Rightarrow> [])"
proof (induction xs)
  case (Cons x xs)
  then show ?case
    by (cases "fst x = n") (auto simp: filter_empty_conv image_iff split: option.splits)
qed simp

lemma filter_fst_entries:
  "filter (\<lambda>x. fst x = n) (bm_entries m) = (case bm_get m n of Some c \<Rightarrow> [(n, c)] | None \<Rightarrow> [])"
  by (simp add: bm_get_def filter_fst_alist bm.entries_distinct)

lemma counter_merge [simp]: "counter (merge a b) n = max (counter a n) (counter b n)"
  unfolding counter_def version_map_merge counter_merge_slots filter_fst_entries
  by (simp split: option.split)

lemma counter_incremented [simp]:
  "counter (incremented v n) m = (if m = n then u64_sat_inc (counter v n) else counter v m)"
  by (simp add: counter_def)

definition version_le :: "version \<Rightarrow> version \<Rightarrow> bool" where
  "version_le a b \<longleftrightarrow> (\<forall>n. counter a n \<le> counter b n)"

lemma version_le_refl [simp]: "version_le a a"
  by (simp add: version_le_def)

lemma version_le_trans: "version_le a b \<Longrightarrow> version_le b c \<Longrightarrow> version_le a c"
  unfolding version_le_def by (meson order_trans)

lemma version_le_antisym: "version_le a b \<Longrightarrow> version_le b a \<Longrightarrow> a = b"
  by (rule version_eqI) (simp add: version_le_def order_antisym)

text \<open>\<open>compare\<close>, which walks the stored counters, decides exactly that order.\<close>

lemma compare_spec:
  "compare a b =
     (if a = b then Equal
      else if version_le b a then Dominates
      else if version_le a b then Dominated
      else Concurrent)"
proof -
  have ex: "list_ex (\<lambda>(n, mine). P n mine) (bm_entries (version_map a)) \<longleftrightarrow>
      (\<exists>n. counter a n \<noteq> 0 \<and> P n (counter a n))" for P
    unfolding list_ex_iff Bex_def split_paired_Ex counter_entries prod.case by blast
  have ex': "list_ex (\<lambda>n. \<not> bm_has (version_map a) n) (bm_keys (version_map b)) \<longleftrightarrow>
      (\<exists>n. counter b n \<noteq> 0 \<and> counter a n = 0)"
    unfolding list_ex_iff Bex_def counter_keys bm_has_def counter_zero [symmetric] by simp
  have pos: "x \<noteq> 0" if "y < x" for x y :: u64
    using that by auto
  have g: "list_ex (\<lambda>(n, mine). counter b n < mine) (bm_entries (version_map a)) \<longleftrightarrow>
      \<not> version_le a b"
    unfolding ex version_le_def not_all not_le using pos by blast
  have "(\<exists>n. counter a n \<noteq> 0 \<and> counter a n < counter b n) \<or>
      (\<exists>n. counter b n \<noteq> 0 \<and> counter a n = 0) \<longleftrightarrow> (\<exists>n. counter a n < counter b n)"
    using pos word_gt_0 by metis
  then have o: "(list_ex (\<lambda>(n, mine). mine < counter b n) (bm_entries (version_map a))
      \<or> list_ex (\<lambda>n. \<not> bm_has (version_map a) n) (bm_keys (version_map b))) \<longleftrightarrow> \<not> version_le b a"
    unfolding ex ex' version_le_def not_all not_le .
  show ?thesis
    unfolding compare_def Let_def g o
    using version_le_antisym [of a b] by (auto split: bool.split)
qed

text \<open>The derived predicates.\<close>

lemma dominates_or_equals_iff [relation_simps]: "dominates_or_equals a b \<longleftrightarrow> version_le b a"
  using version_le_antisym [of a b]
  by (auto simp: dominates_or_equals_def rel_dominates_or_equals_def compare_spec)

lemma dominates_iff [relation_simps]: "dominates a b \<longleftrightarrow> version_le b a \<and> a \<noteq> b"
  by (auto simp: dominates_def compare_spec)

lemma compare_Equal_iff [relation_simps]: "compare a b = Equal \<longleftrightarrow> a = b"
  by (simp add: compare_spec)

lemma compare_Dominates_iff [relation_simps]: "compare a b = Dominates \<longleftrightarrow> version_le b a \<and> a \<noteq> b"
  by (simp add: compare_spec)

lemma compare_Dominated_iff [relation_simps]: "compare a b = Dominated \<longleftrightarrow> version_le a b \<and> a \<noteq> b"
  using version_le_antisym [of a b] by (auto simp: compare_spec)

lemma compare_Concurrent_iff [relation_simps]:
  "compare a b = Concurrent \<longleftrightarrow> \<not> version_le a b \<and> \<not> version_le b a"
  by (auto simp: compare_spec)

lemma compare_flip: "relation_flip (compare a b) = compare b a"
  using version_le_antisym [of a b] by (auto simp: compare_spec)

section \<open>The contract the other components rely on\<close>

locale version_algebra =
  fixes le :: "'v \<Rightarrow> 'v \<Rightarrow> bool"
    and lub :: "'v \<Rightarrow> 'v \<Rightarrow> 'v"
    and bot :: "'v"
  assumes le_refl: "le a a"
    and le_trans: "le a b \<Longrightarrow> le b c \<Longrightarrow> le a c"
    and le_antisym: "le a b \<Longrightarrow> le b a \<Longrightarrow> a = b"
    and lub_upper1: "le a (lub a b)"
    and lub_upper2: "le b (lub a b)"
    and lub_least: "le a c \<Longrightarrow> le b c \<Longrightarrow> le (lub a b) c"
    and bot_least: "le bot a"
begin

lemma lub_comm: "lub a b = lub b a"
  by (intro le_antisym lub_least lub_upper1 lub_upper2)

lemma lub_assoc: "lub (lub a b) c = lub a (lub b c)"
  by (rule le_antisym; meson le_trans lub_least lub_upper1 lub_upper2)

lemma lub_idem: "lub a a = a"
  by (intro le_antisym lub_least lub_upper1 le_refl)

lemma lub_absorb: "le b a \<Longrightarrow> lub a b = a"
  by (intro le_antisym lub_least lub_upper1 le_refl)

lemma lub_le_iff: "le (lub a b) c \<longleftrightarrow> le a c \<and> le b c"
  by (meson le_trans lub_least lub_upper1 lub_upper2)

lemma fold_lub_le_iff: "le (foldl lub a vs) c \<longleftrightarrow> le a c \<and> (\<forall>v \<in> set vs. le v c)"
  by (induction vs arbitrary: a) (auto simp: lub_le_iff)

lemma fold_lub_upper: "v = a \<or> v \<in> set vs \<Longrightarrow> le v (foldl lub a vs)"
  using fold_lub_le_iff le_refl by blast

lemma fold_lub_set: "set vs = set ws \<Longrightarrow> foldl lub a vs = foldl lub a ws"
  by (rule le_antisym) (auto simp: fold_lub_le_iff fold_lub_upper)

end

interpretation ver: version_algebra version_le merge version_empty
proof unfold_locales
  fix a b c :: version
  show "version_le a a" by simp
  show "version_le a b \<Longrightarrow> version_le b c \<Longrightarrow> version_le a c" by (rule version_le_trans)
  show "version_le a b \<Longrightarrow> version_le b a \<Longrightarrow> a = b" by (rule version_le_antisym)
  show "version_le a (merge a b)" "version_le b (merge a b)"
    by (simp_all add: version_le_def)
  show "version_le a c \<Longrightarrow> version_le b c \<Longrightarrow> version_le (merge a b) c"
    by (simp add: version_le_def)
  show "version_le version_empty a" by (simp add: version_le_def)
qed

section \<open>Increments\<close>

text \<open>
  An increment is strictly above its input unless the counter has reached \<open>u64::MAX\<close>, the exception
  the code's comment names.
\<close>

lemma incremented_ge: "version_le v (incremented v n)"
  by (simp add: version_le_def u64_sat_inc_ge)

lemma incremented_gt:
  assumes "counter v n \<noteq> - 1"
  shows "\<not> version_le (incremented v n) v" "incremented v n \<noteq> v"
proof -
  have lt: "counter v n < counter (incremented v n) n"
    using assms by (simp add: u64_sat_inc_gt)
  then show "\<not> version_le (incremented v n) v"
    unfolding version_le_def by (meson not_le)
  show "incremented v n \<noteq> v"
    using lt by (metis less_irrefl)
qed

lemma incremented_saturated:
  "counter v n = - 1 \<Longrightarrow> incremented v n = v"
  by (rule version_eqI) (auto simp: u64_sat_inc_def)

lemma incremented_dominates:
  "counter v n \<noteq> - 1 \<Longrightarrow> version_le w v \<Longrightarrow> dominates (incremented v n) w"
  using incremented_gt [of v n] incremented_ge [of v n] version_le_trans [of w v "incremented v n"]
    version_le_antisym [of v w]
  by (auto simp: relation_simps)

lemma incremented_not_empty: "incremented v n \<noteq> version_empty"
proof
  assume "incremented v n = version_empty"
  then have "counter (incremented v n) n = counter version_empty n" by simp
  then show False by simp
qed

lemma independent_increments:
  assumes "n \<noteq> m" "counter v n \<noteq> - 1" "counter v m \<noteq> - 1"
  shows "compare (incremented v n) (incremented v m) = Concurrent"
proof -
  have "\<not> counter (incremented v n) n \<le> counter (incremented v m) n"
    "\<not> counter (incremented v m) m \<le> counter (incremented v n) m"
    using assms by (simp_all add: not_le u64_sat_inc_gt)
  then show ?thesis unfolding compare_Concurrent_iff version_le_def by blast
qed

instantiation version :: equal
begin

definition equal_version :: "version \<Rightarrow> version \<Rightarrow> bool" where
  "equal_version a b \<longleftrightarrow> HOL.equal (version_map a) (version_map b)"

instance
  by standard (simp add: equal_version_def equal version_map_inject)

end

lemmas [eval_simps] =
  rel_dominates_or_equals_def version_is_empty_def counter_def compare_def dominates_def
  dominates_or_equals_def merge_slot_def

section \<open>Properties\<close>

text \<open>C36: \<open>compare\<close>, which walks the stored counters of one vector and then the keys of the other,
  decides the pointwise order of the vectors, absent counters being zero.\<close>

theorem compare_decides_order:
  "compare a b =
     (if \<forall>n. counter a n = counter b n then Equal
      else if \<forall>n. counter b n \<le> counter a n then Dominates
      else if \<forall>n. counter a n \<le> counter b n then Dominated
      else Concurrent)"
  using compare_spec [of a b] version_eqI [of a b] by (auto simp: version_le_def)

text \<open>C37: \<open>merge\<close> is the least upper bound of two version vectors: it dominates or equals both, and
  whatever dominates or equals both dominates or equals it.\<close>

theorem merge_least_upper_bound:
  "dominates_or_equals (merge a b) a \<and> dominates_or_equals (merge a b) b \<and>
   (dominates_or_equals c a \<and> dominates_or_equals c b \<longrightarrow> dominates_or_equals c (merge a b))"
  by (auto simp: dominates_or_equals_iff version_le_def)

lemma merge_least_upper_bound_witness:
  "dominates_or_equals (incremented (merge (incremented version_empty (NodeId [1]))
       (incremented version_empty (NodeId [2]))) (NodeId [1]))
     (merge (incremented version_empty (NodeId [1])) (incremented version_empty (NodeId [2])))"
proof -
  let ?a = "incremented version_empty (NodeId [1])" and ?b = "incremented version_empty (NodeId [2])"
  let ?c = "incremented (merge ?a ?b) (NodeId [1])"
  have "dominates_or_equals ?c ?a" "dominates_or_equals ?c ?b" by code_simp+
  then show ?thesis using merge_least_upper_bound [of ?a ?b ?c] by blast
qed

end
