(* ===== verification/Paths.thy ===== *)
theory Paths
  imports BTree
begin

text \<open>
  \<open>crates/engine/src/path.rs\<close>: \<open>RelPath\<close>, the key of the index. A path is a string of bytes;
  \<open>rel_path_new\<close> is its validation, the only constructor the engine and the wire use. The order is
  the byte order of the string, which puts a directory before what it contains.
\<close>

section \<open>Paths and their validation\<close>

definition RESERVED_DIR :: string where
  "RESERVED_DIR = ''.delocal''"

definition MAX_COMPONENT_LEN :: nat where
  "MAX_COMPONENT_LEN = 255"

datatype rel_path_error =
    PathEmpty | PathAbsolute | PathTrailingSlash | PathEmptyComponent | PathDotComponent
  | PathDotDotComponent | PathNul | PathComponentTooLong nat | PathReserved

datatype rel_path = RelPath (path_str: string)

definition component_error :: "string \<Rightarrow> rel_path_error option" where
  "component_error c =
     (if c = [] then Some PathEmptyComponent
      else if c = ''.'' then Some PathDotComponent
      else if c = ''..'' then Some PathDotDotComponent
      else if MAX_COMPONENT_LEN < length c then Some (PathComponentTooLong (length c))
      else None)"

fun components_error :: "string list \<Rightarrow> rel_path_error option" where
  "components_error [] = None"
| "components_error (c # cs) =
     (case component_error c of Some e \<Rightarrow> Some e | None \<Rightarrow> components_error cs)"

definition rel_path_new :: "string \<Rightarrow> rel_path_error + rel_path" where
  "rel_path_new s =
     (if s = [] then Inl PathEmpty
      else if CHR 0x00 \<in> set s then Inl PathNul
      else if hd s = CHR ''/'' then Inl PathAbsolute
      else if last s = CHR ''/'' then Inl PathTrailingSlash
      else case components_error (split_on (CHR ''/'') s) of
        Some e \<Rightarrow> Inl e
      | None \<Rightarrow>
          if hd (split_on (CHR ''/'') s) = RESERVED_DIR then Inl PathReserved
          else Inr (RelPath s))"

instantiation rel_path :: linorder
begin

definition less_eq_rel_path :: "rel_path \<Rightarrow> rel_path \<Rightarrow> bool" where
  "less_eq_rel_path a b \<longleftrightarrow> path_str a \<le> path_str b"

definition less_rel_path :: "rel_path \<Rightarrow> rel_path \<Rightarrow> bool" where
  "less_rel_path a b \<longleftrightarrow> path_str a < path_str b"

instance
  by standard (auto simp: less_eq_rel_path_def less_rel_path_def intro: rel_path.expand)

end

lemmas [simp, eval_simps] = less_eq_rel_path_def less_rel_path_def

section \<open>Structure\<close>

definition path_components :: "rel_path \<Rightarrow> string list" where
  "path_components p = split_on (CHR ''/'') (path_str p)"

definition path_depth :: "rel_path \<Rightarrow> nat" where
  "path_depth p = length (path_components p)"

definition file_name :: "rel_path \<Rightarrow> string" where
  "file_name p = last (split_on (CHR ''/'') (path_str p))"

definition path_parent :: "rel_path \<Rightarrow> rel_path option" where
  "path_parent p = map_option (\<lambda>i. RelPath (take i (path_str p))) (rfind_on (CHR ''/'') (path_str p))"

definition path_join :: "rel_path \<Rightarrow> string \<Rightarrow> rel_path_error + rel_path" where
  "path_join p name =
     (if CHR ''/'' \<in> set name then Inl PathEmptyComponent
      else rel_path_new (path_str p @ CHR ''/'' # name))"

definition is_ancestor_of :: "rel_path \<Rightarrow> rel_path \<Rightarrow> bool" where
  "is_ancestor_of p q \<longleftrightarrow>
     length (path_str p) < length (path_str q) \<and>
     take (length (path_str p)) (path_str q) = path_str p \<and>
     path_str q ! length (path_str p) = CHR ''/''"

lemmas [eval_simps] =
  RESERVED_DIR_def MAX_COMPONENT_LEN_def component_error_def rel_path_new_def path_components_def
  path_depth_def file_name_def path_parent_def path_join_def is_ancestor_of_def

section \<open>What a valid path is\<close>

definition valid_component :: "string \<Rightarrow> bool" where
  "valid_component c \<longleftrightarrow>
     c \<noteq> [] \<and> c \<noteq> ''.'' \<and> c \<noteq> ''..'' \<and> length c \<le> 255 \<and> CHR 0x00 \<notin> set c \<and> CHR ''/'' \<notin> set c"

definition valid_path :: "rel_path \<Rightarrow> bool" where
  "valid_path p \<longleftrightarrow>
     list_all valid_component (path_components p) \<and> hd (path_components p) \<noteq> ''.delocal''"

lemma components_error_None:
  "components_error cs = None \<longleftrightarrow> (\<forall>c \<in> set cs. component_error c = None)"
  by (induction cs) (auto split: option.split)

lemma path_components_not_Nil [simp]: "path_components p \<noteq> []"
  by (simp add: path_components_def)

lemma join_components [simp]: "join_on (CHR ''/'') (path_components p) = path_str p"
  by (simp add: path_components_def)

lemma set_split_on: "c \<noteq> x \<Longrightarrow> c \<in> set s \<longleftrightarrow> (\<exists>p \<in> set (split_on x s). c \<in> set p)"
  by (induction s) (auto split: list.splits)

lemma hd_sep: "s \<noteq> [] \<Longrightarrow> hd s = c \<Longrightarrow> [] \<in> set (split_on c s)"
  by (cases s) auto

lemma last_sep: "s \<noteq> [] \<Longrightarrow> last s = c \<Longrightarrow> [] \<in> set (split_on c s)"
  by (metis append_butlast_last_id split_on.simps(1) split_on_append_sep list.set_intros(1)
      Un_iff set_append)

lemma valid_component_error:
  "component_error c = None \<longleftrightarrow> c \<noteq> [] \<and> c \<noteq> ''.'' \<and> c \<noteq> ''..'' \<and> length c \<le> 255"
  by (auto simp: component_error_def MAX_COMPONENT_LEN_def)

lemma rel_path_new_ok: "rel_path_new s = Inr p \<longleftrightarrow> p = RelPath s \<and> valid_path p"
proof -
  let ?cs = "split_on (CHR ''/'') s"
  have nosep: "\<forall>c \<in> set ?cs. CHR ''/'' \<notin> set c"
    using split_on_no_sep by fastforce
  have nul: "CHR 0x00 \<in> set s \<longleftrightarrow> (\<exists>c \<in> set ?cs. CHR 0x00 \<in> set c)"
    by (rule set_split_on) simp
  have valid: "valid_path (RelPath s) \<longleftrightarrow>
      components_error ?cs = None \<and> CHR 0x00 \<notin> set s \<and> hd ?cs \<noteq> RESERVED_DIR"
    using nosep nul by (auto simp: valid_path_def path_components_def list_all_iff
        valid_component_def components_error_None valid_component_error RESERVED_DIR_def)
  show ?thesis
  proof (cases "components_error ?cs")
    case None
    then have "[] \<notin> set ?cs"
      by (auto simp: components_error_None valid_component_error)
    moreover from this have "s \<noteq> []" by auto
    ultimately have "s \<noteq> []" "hd s \<noteq> CHR ''/''" "last s \<noteq> CHR ''/''"
      using hd_sep [of s "CHR ''/''"] last_sep [of s "CHR ''/''"] by blast+
    with None valid show ?thesis by (auto simp: rel_path_new_def)
  next
    case (Some e)
    with valid show ?thesis by (auto simp: rel_path_new_def)
  qed
qed

section \<open>Parents and ancestors\<close>

lemma is_ancestor_iff:
  "is_ancestor_of p q \<longleftrightarrow> (\<exists>r. path_str q = path_str p @ CHR ''/'' # r)"
proof
  assume "is_ancestor_of p q"
  then show "\<exists>r. path_str q = path_str p @ CHR ''/'' # r"
    unfolding is_ancestor_of_def by (metis id_take_nth_drop)
next
  assume "\<exists>r. path_str q = path_str p @ CHR ''/'' # r"
  then show "is_ancestor_of p q" by (auto simp: is_ancestor_of_def)
qed

lemma is_ancestor_trans: "is_ancestor_of p q \<Longrightarrow> is_ancestor_of q r \<Longrightarrow> is_ancestor_of p r"
  by (auto simp: is_ancestor_iff)

lemma is_ancestor_irrefl [simp]: "\<not> is_ancestor_of p p"
  by (simp add: is_ancestor_of_def)

lemma less_append_char: "(xs :: string) < xs @ c # ys"
  by (induction xs) auto

lemma is_ancestor_less: "is_ancestor_of p q \<Longrightarrow> p < q"
  by (auto simp: is_ancestor_iff less_append_char)

lemma is_ancestor_components:
  "is_ancestor_of p q \<longleftrightarrow> (\<exists>cs. cs \<noteq> [] \<and> path_components q = path_components p @ cs)"
proof
  assume "is_ancestor_of p q"
  then show "\<exists>cs. cs \<noteq> [] \<and> path_components q = path_components p @ cs"
    by (auto simp: is_ancestor_iff path_components_def split_on_append_sep)
next
  have join: "join_on c (xs @ ys) = join_on c xs @ c # join_on c ys"
    if "xs \<noteq> []" "ys \<noteq> []" for c :: char and xs ys
    using that by (induction c xs rule: join_on.induct) (cases ys; simp)+
  assume "\<exists>cs. cs \<noteq> [] \<and> path_components q = path_components p @ cs"
  then obtain cs where "cs \<noteq> []" "path_components q = path_components p @ cs" by blast
  then have "path_str q = path_str p @ CHR ''/'' # join_on (CHR ''/'') cs"
    using join [of "path_components p" cs "CHR ''/''"] join_components [of q] by simp
  then show "is_ancestor_of p q" by (auto simp: is_ancestor_iff)
qed

lemma path_parent_None: "path_parent p = None \<longleftrightarrow> path_depth p = 1"
proof (cases "CHR ''/'' \<in> set (path_str p)")
  case True
  then obtain xs ys where p: "path_str p = xs @ CHR ''/'' # ys" by (auto dest: split_list)
  have "split_on (CHR ''/'') zs \<noteq> []" for zs by simp
  then have pos: "0 < length (split_on (CHR ''/'') zs)" for zs by blast
  have "path_depth p = length (split_on (CHR ''/'') xs) + length (split_on (CHR ''/'') ys)"
    by (simp add: path_depth_def path_components_def p split_on_append_sep)
  with pos [of xs] pos [of ys] have "path_depth p \<noteq> 1" by linarith
  with True show ?thesis by (simp add: path_parent_def)
next
  case False
  then show ?thesis
    by (simp add: path_parent_def path_depth_def path_components_def split_on_single)
qed

lemma path_parent_Some:
  "path_parent p = Some q \<Longrightarrow>
     path_str p = path_str q @ CHR ''/'' # file_name p \<and> CHR ''/'' \<notin> set (file_name p) \<and>
     path_components p = path_components q @ [file_name p]"
proof -
  assume "path_parent p = Some q"
  then obtain i where i: "rfind_on (CHR ''/'') (path_str p) = Some i" "q = RelPath (take i (path_str p))"
    by (auto simp: path_parent_def)
  let ?f = "drop (Suc i) (path_str p)"
  have p: "path_str p = path_str q @ CHR ''/'' # ?f" and f: "CHR ''/'' \<notin> set ?f"
    using rfind_on_Some [OF i(1)] i(2) by simp_all
  then have "split_on (CHR ''/'') (path_str p) = split_on (CHR ''/'') (path_str q) @ [?f]"
    by (metis split_on_append)
  then have "file_name p = ?f" "path_components p = path_components q @ [?f]"
    by (simp_all add: file_name_def path_components_def)
  with p f show ?thesis by simp
qed

lemma path_parent_ancestor: "path_parent p = Some q \<Longrightarrow> is_ancestor_of q p"
  using path_parent_Some by (auto simp: is_ancestor_iff)

lemma path_parent_valid: "path_parent p = Some q \<Longrightarrow> valid_path p \<Longrightarrow> valid_path q"
  using path_parent_Some [of p q]
  by (cases "path_components q") (auto simp: valid_path_def)

lemma path_join_parent:
  assumes "path_parent p = Some q" and "valid_path p"
  shows "path_join q (file_name p) = Inr p"
proof -
  have "path_str p = path_str q @ CHR ''/'' # file_name p" "CHR ''/'' \<notin> set (file_name p)"
    using path_parent_Some [OF assms(1)] by auto
  with assms(2) show ?thesis
    by (simp add: path_join_def rel_path_new_ok rel_path.expand)
qed

lemma path_join_ok:
  "path_join p name = Inr q \<longleftrightarrow>
     valid_component name \<and> valid_path p \<and> q = RelPath (path_str p @ CHR ''/'' # name)"
proof (cases "CHR ''/'' \<in> set name")
  case True
  then show ?thesis by (auto simp: path_join_def valid_component_def)
next
  case False
  let ?q = "RelPath (path_str p @ CHR ''/'' # name)"
  have "path_components ?q = path_components p @ [name]"
    using False by (simp add: path_components_def split_on_append)
  then have "valid_path ?q \<longleftrightarrow> valid_component name \<and> valid_path p"
    by (auto simp: valid_path_def hd_append)
  with False show ?thesis by (auto simp: path_join_def rel_path_new_ok)
qed

section \<open>Properties\<close>

text \<open>\<open>RelPath::new\<close> accepts exactly the strings whose components are non-empty, neither \<open>.\<close> nor
  \<open>..\<close>, at most 255 bytes and free of NUL, and whose first component is not the reserved directory,
  and it keeps the string as it is.\<close>

theorem rel_path_new_accepts: "rel_path_new s = Inr p \<longleftrightarrow> p = RelPath s \<and> valid_path p"
  by (rule rel_path_new_ok)

text \<open>A path splits into its parent and its name and joins back from them, and a parent sorts
  before everything below it.\<close>

theorem parent_round_trip:
  assumes "path_parent p = Some q" and "valid_path p"
  shows "path_join q (file_name p) = Inr p \<and> is_ancestor_of q p \<and> q < p \<and> valid_path q"
  using path_join_parent [OF assms] path_parent_ancestor [OF assms(1)] is_ancestor_less
    path_parent_valid [OF assms] by blast

lemma parent_round_trip_witness:
  "path_join (RelPath ''a/b'') (file_name (RelPath ''a/b/c'')) = Inr (RelPath ''a/b/c'')"
proof -
  have "path_parent (RelPath ''a/b/c'') = Some (RelPath ''a/b'')" "valid_path (RelPath ''a/b/c'')"
    by code_simp+
  then show ?thesis using parent_round_trip by blast
qed

text \<open>Nothing bounds the length of a path as a whole: paths longer than 4,096 bytes are accepted.\<close>

theorem long_path_accepted:
  "\<exists>s. 4096 < length s \<and> rel_path_new s = Inr (RelPath s)"
proof -
  let ?cs = "replicate 2049 ''a''"
  let ?s = "join_on (CHR ''/'') ?cs"
  have "split_on (CHR ''/'') ?s = ?cs" by (rule split_join) simp_all
  then have "valid_path (RelPath ?s)"
    by (simp add: valid_path_def path_components_def valid_component_def list_all_iff)
  moreover have "0 < n \<Longrightarrow> length (join_on c (replicate n ''a'')) = 2 * n - 1" for n c
  proof (induction n)
    case (Suc n)
    then show ?case by (cases n) simp_all
  qed simp
  then have "4096 < length ?s" by simp
  ultimately show ?thesis using rel_path_new_ok by blast
qed

end
