(* ===== verification/Times.thy ===== *)
theory Times
  imports Prelude
begin

text \<open>
  \<open>crates/engine/src/time.rs\<close>: time as an input. A \<open>Timestamp\<close> is a number of nanoseconds since the
  Unix epoch, an \<open>i64\<close>; the engine only adds to it, saturating. \<open>format_utc_compact\<close> is the date in
  a conflict-copy name.
\<close>

type_synonym timestamp = int

definition NANOS_PER_SECOND :: int where "NANOS_PER_SECOND = 1000000000"
definition DEBOUNCE_NANOS :: int where "DEBOUNCE_NANOS = 2 * NANOS_PER_SECOND"
definition WINDOW_NANOS :: int where "WINDOW_NANOS = 10 * NANOS_PER_SECOND"
definition FETCH_STALL_NANOS :: int where "FETCH_STALL_NANOS = 60 * NANOS_PER_SECOND"
definition COMMIT_DEADLINE_NANOS :: int where "COMMIT_DEADLINE_NANOS = 30 * NANOS_PER_SECOND"
definition EXCLUSION_NANOS :: int where "EXCLUSION_NANOS = 60 * NANOS_PER_SECOND"
definition EXCLUSION_CAP_NANOS :: int where "EXCLUSION_CAP_NANOS = 60 * 60 * NANOS_PER_SECOND"
definition REFUSAL_NANOS :: int where "REFUSAL_NANOS = 60 * 60 * NANOS_PER_SECOND"

definition plus_nanos :: "timestamp \<Rightarrow> int \<Rightarrow> timestamp" where
  "plus_nanos t n = i64_sat_add t n"

definition since :: "timestamp \<Rightarrow> timestamp \<Rightarrow> int" where
  "since t earlier = i64_sat_sub t earlier"

lemmas [eval_simps] =
  NANOS_PER_SECOND_def DEBOUNCE_NANOS_def WINDOW_NANOS_def FETCH_STALL_NANOS_def
  COMMIT_DEADLINE_NANOS_def EXCLUSION_NANOS_def EXCLUSION_CAP_NANOS_def REFUSAL_NANOS_def
  plus_nanos_def since_def

lemma plus_nanos_gt: "is_i64 t \<Longrightarrow> t < i64_max \<Longrightarrow> 0 < n \<Longrightarrow> t < plus_nanos t n"
  by (simp add: eval_simps)

lemma plus_nanos_ge: "is_i64 t \<Longrightarrow> 0 \<le> n \<Longrightarrow> t \<le> plus_nanos t n"
  by (simp add: eval_simps)

lemma plus_nanos_le: "is_i64 t \<Longrightarrow> 0 \<le> n \<Longrightarrow> plus_nanos t n \<le> t + n"
  by (simp add: eval_simps)

section \<open>Decimal formatting\<close>

fun dec_digits :: "nat \<Rightarrow> string" where
  "dec_digits n =
     (if n < 10 then [char_of (48 + n)] else dec_digits (n div 10) @ [char_of (48 + n mod 10)])"

declare dec_digits.simps [simp del]

text \<open>\<open>{:0w}\<close> of an integer: zero padding after the sign, to a width of \<open>w\<close> characters.\<close>

definition pad_zero :: "nat \<Rightarrow> string \<Rightarrow> string" where
  "pad_zero w s = replicate (w - length s) (CHR ''0'') @ s"

definition fmt_pad :: "nat \<Rightarrow> int \<Rightarrow> string" where
  "fmt_pad w x =
     (if x < 0 then CHR ''-'' # pad_zero (w - 1) (dec_digits (nat (- x)))
      else pad_zero w (dec_digits (nat x)))"

definition digit_char :: "char \<Rightarrow> bool" where
  "digit_char c \<longleftrightarrow> 48 \<le> (of_char c :: nat) \<and> (of_char c :: nat) \<le> 57"

lemma length_dec_digits: "n < 10 ^ k \<Longrightarrow> 0 < k \<Longrightarrow> length (dec_digits n) \<le> k"
proof (induction n arbitrary: k rule: dec_digits.induct)
  case (1 n)
  show ?case
  proof (cases "n < 10")
    case True
    with "1.prems" show ?thesis by (subst dec_digits.simps) simp
  next
    case False
    with "1.prems" obtain j where k: "k = Suc j" "0 < j"
      by (cases k; cases "k - 1") auto
    with "1.prems" have "n div 10 < 10 ^ j" by (simp add: less_mult_imp_div_less mult.commute)
    with "1.IH" [OF False] k have "length (dec_digits (n div 10)) \<le> j" by simp
    with False k show ?thesis by (subst dec_digits.simps) simp
  qed
qed

lemma digit_char_of: "n < 10 \<Longrightarrow> digit_char (char_of (48 + n :: nat))"
  by (simp add: digit_char_def of_char_of)

lemma dec_digits_chars: "list_all digit_char (dec_digits n)"
proof (induction n rule: dec_digits.induct)
  case (1 n)
  then show ?case
    by (subst dec_digits.simps) (simp add: digit_char_of)
qed

lemma length_fmt_pad: "0 \<le> x \<Longrightarrow> x < 10 ^ w \<Longrightarrow> 0 < w \<Longrightarrow> length (fmt_pad w x) = w"
  using length_dec_digits [of "nat x" w]
  by (simp add: fmt_pad_def pad_zero_def nat_less_iff)

lemma fmt_pad_chars: "0 \<le> x \<Longrightarrow> list_all digit_char (fmt_pad w x)"
  using dec_digits_chars [of "nat x"]
  by (auto simp: fmt_pad_def pad_zero_def list_all_iff digit_char_def)

section \<open>The civil date\<close>

definition civil_from_days :: "int \<Rightarrow> int \<times> int \<times> int" where
  "civil_from_days days =
     (let z = days + 719468;
          era = z div 146097;
          doe = z mod 146097;
          yoe = (doe - doe div 1460 + doe div 36524 - doe div 146096) div 365;
          doy = doe - (365 * yoe + yoe div 4 - yoe div 100);
          mp = (5 * doy + 2) div 153;
          d = doy - (153 * mp + 2) div 5 + 1;
          m = (if mp < 10 then mp + 3 else mp - 9);
          y = yoe + era * 400 + (if m \<le> 2 then 1 else 0)
      in (y, m, d))"

definition format_utc_compact :: "int \<Rightarrow> string" where
  "format_utc_compact nanos =
     (let secs = nanos div NANOS_PER_SECOND;
          days = secs div 86400;
          sod = secs mod 86400;
          (y, m, d) = civil_from_days days
      in fmt_pad 4 y @ fmt_pad 2 m @ fmt_pad 2 d @ ''-'' @
         fmt_pad 2 (sod div 3600) @ fmt_pad 2 ((sod mod 3600) div 60) @ fmt_pad 2 (sod mod 60))"

text \<open>The day number of a civil date, the inverse the conversion is judged by.\<close>

definition days_before_month :: "int \<Rightarrow> int" where
  "days_before_month mp = (153 * mp + 2) div 5"

definition days_from_civil :: "int \<times> int \<times> int \<Rightarrow> int" where
  "days_from_civil ymd =
     (let (y, m, d) = ymd;
          y' = (if m \<le> 2 then y - 1 else y);
          mp = (if 2 < m then m - 3 else m + 9);
          yoe = y' mod 400
      in (y' div 400) * 146097 + (yoe * 365 + yoe div 4 - yoe div 100)
           + days_before_month mp + (d - 1) - 719468)"

text \<open>
  The year of era is \<open>era_num doe div 365\<close>. \<open>era_num\<close> is monotone, so it is enough to check where it
  puts the first day of each of the 400 years.
\<close>

definition era_num :: "int \<Rightarrow> int" where
  "era_num doe = doe - doe div 1460 + doe div 36524 - doe div 146096"

definition year_start :: "int \<Rightarrow> int" where
  "year_start y = 365 * y + y div 4 - y div 100"

lemma era_num_step: "era_num x \<le> era_num (x + 1)"
proof -
  have "(x + 1) div 1460 \<le> x div 1460 + 1" by linarith
  moreover have quarter: "v div 4 - u div 4 \<le> v - u" if "u \<le> v" "v \<le> u + 1" for u v :: int
    using that by presburger
  have "(x + 1) div 36524 div 4 - x div 36524 div 4 \<le> (x + 1) div 36524 - x div 36524"
    by (rule quarter) linarith+
  then have "(x + 1) div 146096 - x div 146096 \<le> (x + 1) div 36524 - x div 36524"
    by (simp add: div_mult2_eq' zdiv_zmult2_eq [of 4 _ 36524, symmetric])
  ultimately show ?thesis by (simp add: era_num_def)
qed

lemma era_num_mono: "x \<le> y \<Longrightarrow> era_num x \<le> era_num y"
proof (induction "nat (y - x)" arbitrary: y)
  case (Suc n)
  then have "era_num x \<le> era_num (y - 1)" by simp
  with era_num_step [of "y - 1"] show ?case by simp
qed simp

lemma year_starts:
  "list_all (\<lambda>y. (y = 0 \<or> era_num (year_start y - 1) < 365 * y) \<and>
     (y = 399 \<or> 365 * (y + 1) \<le> era_num (year_start (y + 1)))) [0..399]"
  by code_simp

lemma year_of_era:
  assumes doe: "0 \<le> doe" "doe < 146097" and y: "y = era_num doe div 365"
  shows "0 \<le> y" "y \<le> 399" "year_start y \<le> doe" "doe \<le> year_start y + 365"
proof -
  have "era_num 0 \<le> era_num doe" "era_num doe \<le> era_num 146096"
    using doe by (auto intro: era_num_mono)
  then have num: "0 \<le> era_num doe" "era_num doe < 146000"
    by (simp_all add: era_num_def)
  then show "0 \<le> y" "y \<le> 399" using y by linarith+
  then have "y \<in> set [0..399]" by simp
  with year_starts have lo: "y = 0 \<or> era_num (year_start y - 1) < 365 * y"
    and hi: "y = 399 \<or> 365 * (y + 1) \<le> era_num (year_start (y + 1))"
    by (auto simp only: list_all_iff)
  have "365 * (era_num doe div 365) \<le> era_num doe"
    "era_num doe < 365 * (era_num doe div 365 + 1)"
    using pos_mod_bound [of 365 "era_num doe", simplified] pos_mod_sign [of 365 "era_num doe", simplified]
      mult_div_mod_eq [of 365 "era_num doe"] by (simp_all only: distrib_left)
  then have bounds: "365 * y \<le> era_num doe" "era_num doe < 365 * (y + 1)"
    by (simp_all only: y)
  show "year_start y \<le> doe"
  proof (rule ccontr)
    assume "\<not> year_start y \<le> doe"
    then have "era_num doe \<le> era_num (year_start y - 1)" by (intro era_num_mono) simp
    with lo bounds doe \<open>\<not> year_start y \<le> doe\<close> show False by (auto simp: year_start_def)
  qed
  show "doe \<le> year_start y + 365"
  proof (cases "y = 399")
    case True
    with doe show ?thesis by (simp add: year_start_def)
  next
    case False
    have "doe < year_start (y + 1)"
    proof (rule ccontr)
      assume "\<not> doe < year_start (y + 1)"
      then have "era_num (year_start (y + 1)) \<le> era_num doe" by (intro era_num_mono) simp
      with hi bounds False show False by linarith
    qed
    moreover have "year_start (y + 1) \<le> year_start y + 366"
    proof -
      have "(y + 1) div 4 \<le> y div 4 + 1" by linarith
      moreover have "y div 100 \<le> (y + 1) div 100" by (simp add: zdiv_mono1)
      ultimately show ?thesis by (simp add: year_start_def)
    qed
    ultimately show ?thesis by linarith
  qed
qed

lemma month_of_year:
  fixes doy :: int
  assumes "0 \<le> doy" "doy \<le> 365" and mp: "mp = (5 * doy + 2) div 153"
  shows "0 \<le> mp" "mp \<le> 11" "days_before_month mp \<le> doy" "doy \<le> days_before_month mp + 30"
  using assms unfolding days_before_month_def by linarith+

lemma civil_from_days_alt:
  "civil_from_days days =
     (let era = (days + 719468) div 146097;
          doe = (days + 719468) mod 146097;
          yoe = era_num doe div 365;
          doy = doe - year_start yoe;
          mp = (5 * doy + 2) div 153;
          m = (if mp < 10 then mp + 3 else mp - 9)
      in (yoe + era * 400 + (if m \<le> 2 then 1 else 0), m, doy - days_before_month mp + 1))"
  by (simp only: civil_from_days_def era_num_def year_start_def days_before_month_def Let_def)

lemma civil_cases:
  obtains era yoe doy mp where
    "days + 719468 = era * 146097 + year_start yoe + doy" "0 \<le> yoe" "yoe \<le> 399"
    "era = (days + 719468) div 146097" "0 \<le> mp" "mp \<le> 11"
    "days_before_month mp \<le> doy" "doy \<le> days_before_month mp + 30"
    "civil_from_days days =
       (yoe + era * 400 + (if mp < 10 then 0 else 1), if mp < 10 then mp + 3 else mp - 9,
        doy - days_before_month mp + 1)"
proof -
  define era where "era = (days + 719468) div 146097"
  define doe where "doe = (days + 719468) mod 146097"
  define yoe where "yoe = era_num doe div 365"
  define doy where "doy = doe - year_start yoe"
  define mp where "mp = (5 * doy + 2) div 153"
  have "0 \<le> doe" "doe < 146097" by (simp_all add: doe_def)
  note Y = year_of_era [OF this yoe_def]
  then have "0 \<le> doy" "doy \<le> 365" by (simp_all add: doy_def)
  note M = month_of_year [OF this mp_def]
  have "civil_from_days days =
      (yoe + era * 400 + (if (if mp < 10 then mp + 3 else mp - 9) \<le> 2 then 1 else 0),
       if mp < 10 then mp + 3 else mp - 9, doy - days_before_month mp + 1)"
    unfolding civil_from_days_alt Let_def era_def mp_def doy_def yoe_def doe_def ..
  moreover have "(if (if mp < 10 then mp + 3 else mp - 9) \<le> 2 then 1 else 0 :: int)
      = (if mp < 10 then 0 else 1)"
    using M by auto
  ultimately have "civil_from_days days =
      (yoe + era * 400 + (if mp < 10 then 0 else 1), if mp < 10 then mp + 3 else mp - 9,
       doy - days_before_month mp + 1)"
    by (simp only:)
  moreover have "days + 719468 = era * 146097 + year_start yoe + doy"
    unfolding era_def doy_def doe_def by simp
  ultimately show thesis using that Y M era_def by blast
qed

lemma civil_from_days_bounds:
  assumes "civil_from_days days = (y, m, d)"
  shows "1 \<le> m" "m \<le> 12" "1 \<le> d" "d \<le> 31"
    "(days + 719468) div 146097 * 400 \<le> y" "y \<le> (days + 719468) div 146097 * 400 + 400"
  by (rule civil_cases [of days]; use assms in \<open>auto split: if_splits\<close>)+

lemma days_from_civil_from_days: "days_from_civil (civil_from_days days) = days"
proof (rule civil_cases [of days])
  fix era yoe doy mp
  assume H: "days + 719468 = era * 146097 + year_start yoe + doy" "0 \<le> yoe" "yoe \<le> 399"
    "0 \<le> mp" "mp \<le> 11"
    and eq: "civil_from_days days =
       (yoe + era * 400 + (if mp < 10 then 0 else 1), if mp < 10 then mp + 3 else mp - 9,
        doy - days_before_month mp + 1)"
  have "(yoe + era * 400) mod 400 = yoe" "(yoe + era * 400) div 400 = era"
    using H by simp_all
  then show "days_from_civil (civil_from_days days) = days"
    using H unfolding eq days_from_civil_def Let_def year_start_def by (cases "mp < 10") simp_all
qed

lemma format_utc_compact_shape:
  assumes "is_i64 nanos"
  shows "length (format_utc_compact nanos) = 15"
    "list_all (\<lambda>c. digit_char c \<or> c = CHR ''-'') (format_utc_compact nanos)"
proof -
  define days where "days = nanos div NANOS_PER_SECOND div 86400"
  obtain y m d where c: "civil_from_days days = (y, m, d)" by (metis prod_cases3)
  note B = civil_from_days_bounds [OF c]
  have "- 106752 \<le> days" "days \<le> 106751"
    using assms unfolding days_def is_i64_def i64_min_def i64_max_def NANOS_PER_SECOND_def
    by linarith+
  then have y: "0 \<le> y" "y < 10000" using B by linarith+
  define sod where "sod = nanos div NANOS_PER_SECOND mod 86400"
  have "0 \<le> sod" "sod < 86400" by (simp_all add: sod_def)
  then have sod: "0 \<le> sod div 3600" "sod div 3600 < 100" "0 \<le> sod mod 3600 div 60"
    "sod mod 3600 div 60 < 100" "0 \<le> sod mod 60" "sod mod 60 < 100"
    by simp_all
  define h where "h = sod div 3600"
  define mi where "mi = sod mod 3600 div 60"
  define se where "se = sod mod 60"
  have F: "format_utc_compact nanos =
      fmt_pad 4 y @ fmt_pad 2 m @ fmt_pad 2 d @ ''-'' @ fmt_pad 2 h @ fmt_pad 2 mi @ fmt_pad 2 se"
    by (simp only: format_utc_compact_def Let_def days_def [symmetric] c sod_def h_def mi_def se_def
        prod.case)
  note T = sod [folded h_def mi_def se_def]
  have l2: "length (fmt_pad 2 x) = 2" if "0 \<le> x" "x < 100" for x
    using length_fmt_pad [of x 2] that by simp
  have "length (fmt_pad 4 y) = 4" using length_fmt_pad [of y 4] y by simp
  moreover have "length (fmt_pad 2 m) = 2" "length (fmt_pad 2 d) = 2" using B by (auto intro: l2)
  ultimately show "length (format_utc_compact nanos) = 15"
    using l2 [OF T(1,2)] l2 [OF T(3,4)] l2 [OF T(5,6)] by (simp add: F)
  have "list_all digit_char (fmt_pad 4 y)" "list_all digit_char (fmt_pad 2 m)"
    "list_all digit_char (fmt_pad 2 d)" "list_all digit_char (fmt_pad 2 h)"
    "list_all digit_char (fmt_pad 2 mi)" "list_all digit_char (fmt_pad 2 se)"
    using B y T by (auto intro!: fmt_pad_chars)
  then show "list_all (\<lambda>c. digit_char c \<or> c = CHR ''-'') (format_utc_compact nanos)"
    by (auto simp: F list_all_iff)
qed

section \<open>Properties\<close>

text \<open>The civil date of a day determines the day, for every day of the proleptic Gregorian
  calendar, and is a real date: month 1 to 12, day 1 to 31.\<close>

theorem civil_date_round_trip:
  "days_from_civil (civil_from_days days) = days \<and>
   (case civil_from_days days of (y, m, d) \<Rightarrow> 1 \<le> m \<and> m \<le> 12 \<and> 1 \<le> d \<and> d \<le> 31)"
  using days_from_civil_from_days civil_from_days_bounds [of days] by (auto split: prod.splits)

end
