(* ===== verification/Entries.thy ===== *)
theory Entries
  imports Versions Paths Times
begin

text \<open>
  \<open>crates/engine/src/entry.rs\<close>: index entries, what the scanner sees of them, the fast-path predicate
  that is also the commit guard, and content equality.
\<close>

section \<open>The data\<close>

datatype content_hash = ContentHash (hash_bytes: "byte list")

definition EMPTY :: content_hash where
  "EMPTY = ContentHash (replicate 32 0)"

instantiation content_hash :: linorder
begin

definition less_eq_content_hash :: "content_hash \<Rightarrow> content_hash \<Rightarrow> bool" where
  "less_eq_content_hash a b \<longleftrightarrow> hash_bytes a \<le> hash_bytes b"

definition less_content_hash :: "content_hash \<Rightarrow> content_hash \<Rightarrow> bool" where
  "less_content_hash a b \<longleftrightarrow> hash_bytes a < hash_bytes b"

instance
  by standard (auto simp: less_eq_content_hash_def less_content_hash_def intro: content_hash.expand)

end

datatype kind = File | Dir | Symlink

text \<open>The derived \<open>Ord\<close> of \<open>Kind\<close> is declaration order.\<close>

fun kind_rank :: "kind \<Rightarrow> nat" where
  "kind_rank File = 0"
| "kind_rank Dir = 1"
| "kind_rank Symlink = 2"

instantiation kind :: linorder
begin

definition less_eq_kind :: "kind \<Rightarrow> kind \<Rightarrow> bool" where
  "less_eq_kind a b \<longleftrightarrow> kind_rank a \<le> kind_rank b"

definition less_kind :: "kind \<Rightarrow> kind \<Rightarrow> bool" where
  "less_kind a b \<longleftrightarrow> kind_rank a < kind_rank b"

lemma kind_rank_inj: "kind_rank a = kind_rank b \<Longrightarrow> a = b"
  by (cases a; cases b) simp_all

instance
  by standard (auto simp: less_eq_kind_def less_kind_def intro: kind_rank_inj)

end

lemmas [simp, eval_simps] =
  less_eq_content_hash_def less_content_hash_def less_eq_kind_def less_kind_def

record observed =
  ob_kind :: kind
  ob_size :: u64
  ob_mtime :: int
  ob_exec :: bool
  ob_hash :: content_hash

record entry =
  e_path :: rel_path
  e_kind :: kind
  e_size :: u64
  e_mtime :: int
  e_stamp :: int
  e_exec :: bool
  e_hash :: content_hash
  e_prev_hash :: content_hash
  e_version :: version
  e_deleted :: bool
  e_by :: node_id
  e_host :: host_name

section \<open>The predicates\<close>

definition ob_unchanged_by_stat :: "observed \<Rightarrow> observed \<Rightarrow> bool" where
  "ob_unchanged_by_stat self seen \<longleftrightarrow>
     (if ob_kind self \<noteq> ob_kind seen then False
      else case ob_kind seen of
        File \<Rightarrow> ob_size self = ob_size seen \<and> ob_mtime self = ob_mtime seen \<and>
                ob_exec self = ob_exec seen
      | Dir \<Rightarrow> True
      | Symlink \<Rightarrow> ob_hash self = ob_hash seen)"

definition normalised :: "observed \<Rightarrow> observed" where
  "normalised ob = (case ob_kind ob of
     Dir \<Rightarrow> ob\<lparr>ob_size := 0, ob_hash := EMPTY, ob_exec := False, ob_mtime := 0\<rparr>
   | Symlink \<Rightarrow> ob\<lparr>ob_exec := False, ob_mtime := 0\<rparr>
   | File \<Rightarrow> ob)"

definition entry_observed :: "entry \<Rightarrow> observed" where
  "entry_observed e =
     \<lparr>ob_kind = e_kind e, ob_size = e_size e, ob_mtime = e_mtime e, ob_exec = e_exec e,
      ob_hash = e_hash e\<rparr>"

definition unchanged_by_stat :: "entry \<Rightarrow> observed \<Rightarrow> bool" where
  "unchanged_by_stat e seen \<longleftrightarrow> \<not> e_deleted e \<and> ob_unchanged_by_stat (entry_observed e) seen"

definition is_metadata_only :: "entry \<Rightarrow> bool" where
  "is_metadata_only e \<longleftrightarrow> e_hash e = e_prev_hash e"

definition same_content :: "entry \<Rightarrow> entry \<Rightarrow> bool" where
  "same_content a b \<longleftrightarrow>
     (if e_deleted a \<or> e_deleted b then e_deleted a \<and> e_deleted b
      else e_kind a = e_kind b \<and> e_hash a = e_hash b \<and>
           (e_kind a \<noteq> File \<or> e_exec a = e_exec b))"

lemmas [eval_simps] =
  EMPTY_def ob_unchanged_by_stat_def normalised_def entry_observed_def unchanged_by_stat_def
  is_metadata_only_def same_content_def

section \<open>What they guarantee\<close>

lemma normalised_idem [simp]: "normalised (normalised ob) = normalised ob"
  by (simp add: normalised_def split: kind.split)

lemma normalised_kind [simp]: "ob_kind (normalised ob) = ob_kind ob"
  by (simp add: normalised_def split: kind.split)

lemma same_content_refl [simp]: "same_content a a"
  by (simp add: same_content_def)

lemma same_content_sym: "same_content a b \<longleftrightarrow> same_content b a"
  by (auto simp: same_content_def)

lemma same_content_trans: "same_content a b \<Longrightarrow> same_content b c \<Longrightarrow> same_content a c"
  by (auto simp: same_content_def split: if_splits)

text \<open>
  The fast path is an equivalence on what it looks at, so that a file the guard lets through is
  one the next scan confirms as unchanged.
\<close>

lemma fast_path_refl [simp]: "ob_unchanged_by_stat a a"
  by (simp add: ob_unchanged_by_stat_def split: kind.split)

lemma fast_path_sym: "ob_unchanged_by_stat a b \<longleftrightarrow> ob_unchanged_by_stat b a"
  by (auto simp: ob_unchanged_by_stat_def split: kind.split)

lemma fast_path_trans:
  "ob_unchanged_by_stat a b \<Longrightarrow> ob_unchanged_by_stat b c \<Longrightarrow> ob_unchanged_by_stat a c"
  by (auto simp: ob_unchanged_by_stat_def split: kind.splits if_splits)

text \<open>
  What the fast path accepts is the recorded entry again, once its file is hashed: the only thing
  it does not look at is a file's hash, and, for a directory or symlink, what normalisation drops.
\<close>

lemma fast_path_confirms:
  assumes "ob_unchanged_by_stat (normalised a) b"
    and "ob_kind b = File \<Longrightarrow> ob_hash a = ob_hash b"
    and "ob_kind b = Symlink \<Longrightarrow> ob_size a = ob_size b"
  shows "normalised b = normalised a"
  using assms
  by (cases "ob_kind b"; cases a; cases b)
    (auto simp: ob_unchanged_by_stat_def normalised_def split: kind.splits if_splits)

end
