(* ===== verification/Conflicts.thy ===== *)
theory Conflicts
  imports Entries "HOL-Library.Product_Lexorder"
begin

text \<open>
  \<open>crates/engine/src/conflict.rs\<close>: the winner rule, the merged version \<open>M\<close>, and the name of a conflict
  copy. The rule is refined to one linear order on what it looks at (\<open>content_key\<close>), and with it
  the resolution of concurrent entries of one path is a semilattice: machines that resolve the
  same versions in any order end with the same entry.
\<close>

section \<open>The winner rule\<close>

datatype side = First | Second

fun side_other :: "side \<Rightarrow> side" where
  "side_other First = Second"
| "side_other Second = First"

record winner_result =
  w_side :: side
  w_fallback :: bool

datatype ordering = Less | OrdEqual | Greater

definition ord_cmp :: "'a::linorder \<Rightarrow> 'a \<Rightarrow> ordering" where
  "ord_cmp a b = (if a < b then Less else if a = b then OrdEqual else Greater)"

definition ord_then :: "ordering \<Rightarrow> ordering \<Rightarrow> ordering" where
  "ord_then a b = (case a of OrdEqual \<Rightarrow> b | _ \<Rightarrow> a)"

definition pick :: "ordering \<Rightarrow> bool \<Rightarrow> winner_result option" where
  "pick ord fallback = (case ord of
     Greater \<Rightarrow> Some \<lparr>w_side = First, w_fallback = fallback\<rparr>
   | Less \<Rightarrow> Some \<lparr>w_side = Second, w_fallback = fallback\<rparr>
   | OrdEqual \<Rightarrow> None)"

definition total_fallback :: "entry \<Rightarrow> entry \<Rightarrow> winner_result" where
  "total_fallback a b =
     (let ord = ord_then (ord_cmp (e_hash a) (e_hash b))
                (ord_then (ord_cmp (e_kind a) (e_kind b))
                (ord_then (ord_cmp (e_exec a) (e_exec b))
                (ord_then (ord_cmp (e_size a) (e_size b))
                (ord_then (ord_cmp (e_prev_hash a) (e_prev_hash b))
                          (ord_cmp (e_host a) (e_host b))))))
      in \<lparr>w_side = (case ord of Less \<Rightarrow> Second | _ \<Rightarrow> First), w_fallback = True\<rparr>)"

definition winner :: "entry \<Rightarrow> entry \<Rightarrow> winner_result" where
  "winner a b =
     (case pick (ord_cmp (e_stamp a) (e_stamp b)) False of Some w \<Rightarrow> w | None \<Rightarrow>
      case pick (ord_cmp (e_deleted b) (e_deleted a)) False of Some w \<Rightarrow> w | None \<Rightarrow>
      case pick (ord_cmp (is_metadata_only b) (is_metadata_only a)) False of Some w \<Rightarrow> w | None \<Rightarrow>
      case pick (ord_cmp (e_mtime a) (e_mtime b)) False of Some w \<Rightarrow> w | None \<Rightarrow>
      case pick (ord_cmp (e_by a) (e_by b)) False of Some w \<Rightarrow> w | None \<Rightarrow>
      total_fallback a b)"

definition merged :: "entry \<Rightarrow> entry \<Rightarrow> entry" where
  "merged w l = w\<lparr>e_version := merge (e_version w) (e_version l)\<rparr>"

record conflict_copy =
  cc_path :: rel_path
  cc_loser :: entry

record resolution =
  r_winner :: side
  r_merged :: entry
  r_fallback :: bool

definition resolve :: "entry \<Rightarrow> entry \<Rightarrow> resolution" where
  "resolve incoming local =
     (let w = winner incoming local;
          (win, lose) = (case w_side w of First \<Rightarrow> (incoming, local) | Second \<Rightarrow> (local, incoming))
      in \<lparr>r_winner = w_side w, r_merged = merged win lose, r_fallback = w_fallback w\<rparr>)"

section \<open>The name of a conflict copy\<close>

definition split_name :: "string \<Rightarrow> kind \<Rightarrow> string \<times> string" where
  "split_name name k =
     (if k = Dir then (name, [])
      else case rfind_on (CHR ''.'') name of
        Some i \<Rightarrow> if 0 < i then (take i name, drop i name) else (name, [])
      | None \<Rightarrow> (name, []))"

text \<open>\<open>str::is_char_boundary\<close>: the byte there is not a UTF-8 continuation byte.\<close>

definition is_char_boundary :: "string \<Rightarrow> nat \<Rightarrow> bool" where
  "is_char_boundary s n \<longleftrightarrow>
     n = 0 \<or> n = length s \<or>
     (n < length s \<and> \<not> (128 \<le> (of_char (s ! n) :: nat) \<and> (of_char (s ! n) :: nat) < 192))"

fun cut_len :: "string \<Rightarrow> nat \<Rightarrow> nat" where
  "cut_len s 0 = 0"
| "cut_len s (Suc n) = (if is_char_boundary s (Suc n) then Suc n else cut_len s n)"

definition cut :: "string \<Rightarrow> nat \<Rightarrow> string" where
  "cut s mx = take (cut_len s (min mx (length s))) s"

definition fit :: "string \<Rightarrow> string \<Rightarrow> string \<Rightarrow> nat \<Rightarrow> string" where
  "fit stem suffix ext mx =
     (let budget = mx - length suffix in
      if length stem + length ext \<le> budget then stem @ suffix @ ext
      else let stem = cut stem (budget - length ext);
               ext = cut ext (budget - length stem)
           in stem @ suffix @ ext)"

definition conflict_suffix :: "entry \<Rightarrow> string" where
  "conflict_suffix l =
     (let who = (if host_str (e_host l) = [] then node_id_short (e_by l) else host_str (e_host l))
      in ''.conflict-'' @ format_utc_compact (e_mtime l) @ ''-'' @ who)"

definition conflict_copy_name :: "entry \<Rightarrow> rel_path option" where
  "conflict_copy_name l =
     (let (stem, ext) = split_name (file_name (e_path l)) (e_kind l);
          fname = fit stem (conflict_suffix l) ext MAX_COMPONENT_LEN
      in case path_parent (e_path l) of
           Some parent \<Rightarrow> (case path_join parent fname of Inr p \<Rightarrow> Some p | Inl _ \<Rightarrow> None)
         | None \<Rightarrow> (case rel_path_new fname of Inr p \<Rightarrow> Some p | Inl _ \<Rightarrow> None))"

lemmas [eval_simps] =
  ord_cmp_def ord_then_def pick_def total_fallback_def winner_def merged_def resolve_def
  split_name_def is_char_boundary_def cut_def fit_def conflict_suffix_def conflict_copy_name_def

section \<open>The rule is one linear order\<close>

type_synonym content_key =
  "int \<times> bool \<times> bool \<times> int \<times> node_id \<times> content_hash \<times> kind \<times> bool \<times> u64 \<times> content_hash \<times> host_name"

definition content_key :: "entry \<Rightarrow> content_key" where
  "content_key e =
     (e_stamp e, \<not> e_deleted e, \<not> is_metadata_only e, e_mtime e, e_by e, e_hash e, e_kind e,
      e_exec e, e_size e, e_prev_hash e, e_host e)"

lemma ord_then_cmp: "ord_then (ord_cmp a b) (ord_cmp c d) = ord_cmp (a, c) (b, d)"
  by (auto simp: ord_then_def ord_cmp_def)

lemma ord_cmp_not: "ord_cmp b a = ord_cmp (\<not> a) (\<not> b)"
  by (auto simp: ord_cmp_def)

lemma side_of_cmp: "(case ord_cmp x y of Less \<Rightarrow> Second | _ \<Rightarrow> First) = (if y \<le> x then First else Second)"
  by (auto simp: ord_cmp_def)

lemma pick_step:
  "w_side (case pick (ord_cmp x y) f of Some w \<Rightarrow> w | None \<Rightarrow> r) =
     (if y < x then First else if x < y then Second else w_side r)"
  by (auto simp: pick_def ord_cmp_def)

lemma side_step:
  fixes x y :: "'a::linorder" and k k' :: "'b::linorder"
  shows "(if y < x then First else if x < y then Second else if k' \<le> k then First else Second) =
     (if (y, k') \<le> (x, k) then First else Second)"
  by auto

lemma winner_side: "w_side (winner a b) = (if content_key b \<le> content_key a then First else Second)"
proof -
  have "w_side (total_fallback a b) =
      (if (e_hash b, e_kind b, e_exec b, e_size b, e_prev_hash b, e_host b) \<le>
          (e_hash a, e_kind a, e_exec a, e_size a, e_prev_hash a, e_host a) then First else Second)"
    unfolding total_fallback_def Let_def ord_then_cmp by (simp only: winner_result.simps side_of_cmp)
  then show ?thesis
    unfolding winner_def ord_cmp_not [of "e_deleted b"] ord_cmp_not [of "is_metadata_only b"]
      pick_step content_key_def by (simp only: side_step)
qed

lemma content_key_determines:
  assumes "content_key a = content_key b" and "e_path a = e_path b"
  shows "a\<lparr>e_version := v\<rparr> = b\<lparr>e_version := v\<rparr>"
  using assms by (cases a; cases b) (auto simp: content_key_def)

lemma content_key_version [simp]: "content_key (e\<lparr>e_version := v\<rparr>) = content_key e"
  by (simp add: content_key_def is_metadata_only_def)


lemma winner_symmetric:
  assumes "content_key a \<noteq> content_key b"
  shows "w_side (winner b a) = side_other (w_side (winner a b))"
  using assms by (auto simp: winner_side)

lemma resolve_merged:
  "r_merged (resolve a b) =
     (if content_key b \<le> content_key a then a else b)
       \<lparr>e_version := merge (e_version a) (e_version b)\<rparr>"
  by (simp add: resolve_def merged_def winner_side Let_def ver.lub_comm)

section \<open>Resolution is a semilattice\<close>

text \<open>
  A last-writer register over a version algebra: an element has a version and a key, elements of
  one place that agree on both are equal, and \<open>set_ver\<close> replaces the version only.
\<close>

locale keyed_register = version_algebra le lub bot
  for le :: "'v \<Rightarrow> 'v \<Rightarrow> bool" and lub :: "'v \<Rightarrow> 'v \<Rightarrow> 'v" and bot :: 'v +
  fixes ver :: "'e \<Rightarrow> 'v"
    and key :: "'e \<Rightarrow> 'k::linorder"
    and place :: "'e \<Rightarrow> 'p"
    and set_ver :: "'v \<Rightarrow> 'e \<Rightarrow> 'e"
  assumes ver_set: "ver (set_ver v e) = v"
    and key_set: "key (set_ver v e) = key e"
    and place_set: "place (set_ver v e) = place e"
    and determined: "place a = place b \<Longrightarrow> key a = key b \<Longrightarrow> ver a = ver b \<Longrightarrow> a = b"
begin

definition join :: "'e \<Rightarrow> 'e \<Rightarrow> 'e" where
  "join a b = set_ver (lub (ver a) (ver b)) (if key b \<le> key a then a else b)"

lemma join_ver: "ver (join a b) = lub (ver a) (ver b)"
  by (simp add: join_def ver_set)

lemma join_key: "key (join a b) = max (key a) (key b)"
  by (auto simp: join_def key_set max_def)

lemma join_place: "place a = place b \<Longrightarrow> place (join a b) = place a"
  by (simp add: join_def place_set)

lemma join_comm: "place a = place b \<Longrightarrow> join a b = join b a"
  by (rule determined) (simp_all add: join_place join_key join_ver lub_comm max.commute)

lemma join_assoc:
  "place a = place b \<Longrightarrow> place b = place c \<Longrightarrow> join (join a b) c = join a (join b c)"
  by (rule determined) (simp_all add: join_place join_key join_ver lub_assoc max.assoc)

lemma join_idem: "join a a = a"
  by (rule determined) (simp_all add: join_place join_key join_ver lub_idem)

lemma join_below:
  "place a = place b \<Longrightarrow> le (ver a) (ver b) \<Longrightarrow> key a \<le> key b \<Longrightarrow> join a b = b"
  by (rule determined)
    (simp_all add: join_place join_key join_ver max_absorb2 lub_comm [of "ver a"] lub_absorb)

lemma fold_join:
  assumes "\<forall>e \<in> set es. place e = place a"
  shows "place (foldl join a es) = place a"
    and "ver (foldl join a es) = foldl lub (ver a) (map ver es)"
    and "key (foldl join a es) = foldl max (key a) (map key es)"
  using assms by (induction es arbitrary: a) (auto simp: join_place join_ver join_key)

lemma fold_join_set:
  assumes "\<forall>e \<in> set (a # es). place e = p" "set (a # es) = set (b # fs)"
  shows "foldl join a es = foldl join b fs"
proof -
  have es: "\<forall>e \<in> set es. place e = place a" and fs: "\<forall>e \<in> set fs. place e = place b"
    and ab: "place a = place b"
    using assms(1) assms(1) [unfolded assms(2)] by auto
  have vers: "insert (ver a) (set (map ver es)) = insert (ver b) (set (map ver fs))"
    using arg_cong [OF assms(2), of "image ver"] by simp
  have keys: "insert (key a) (set (map key es)) = insert (key b) (set (map key fs))"
    using arg_cong [OF assms(2), of "image key"] by simp
  have "foldl lub (ver a) (map ver es) = foldl lub (ver b) (map ver fs)"
  proof (rule le_antisym)
    show "le (foldl lub (ver a) (map ver es)) (foldl lub (ver b) (map ver fs))"
      unfolding fold_lub_le_iff using vers fold_lub_upper [of _ "ver b" "map ver fs"] by blast
    show "le (foldl lub (ver b) (map ver fs)) (foldl lub (ver a) (map ver es))"
      unfolding fold_lub_le_iff using vers fold_lub_upper [of _ "ver a" "map ver es"] by blast
  qed
  then show ?thesis
    using ab keys by (intro determined) (simp_all add: fold_join [OF es] fold_join [OF fs] foldl_max_set)
qed

end

interpretation reg: keyed_register version_le merge version_empty e_version content_key e_path
  "\<lambda>v e. e\<lparr>e_version := v\<rparr>"
proof unfold_locales
  fix a b :: entry
  assume "e_path a = e_path b" "content_key a = content_key b" "e_version a = e_version b"
  then show "a = b"
    by (cases a; cases b) (auto simp: content_key_def)
qed simp_all

lemma resolve_is_join: "r_merged (resolve a b) = reg.join a b"
  by (simp add: resolve_merged reg.join_def)

section \<open>The name always fits\<close>

definition safe_char :: "char \<Rightarrow> bool" where
  "safe_char c \<longleftrightarrow> c \<noteq> CHR ''/'' \<and> c \<noteq> CHR 0x00"

lemma cut_len_le: "cut_len s n \<le> n"
  by (induction s n rule: cut_len.induct) auto

lemma cut_props: "length (cut s mx) \<le> mx" "set (cut s mx) \<subseteq> set s"
  using cut_len_le [of s "min mx (length s)"] by (auto simp: cut_def dest: in_set_takeD)

lemma fit_props:
  assumes "length suffix \<le> mx"
  obtains a b where "fit stem suffix ext mx = a @ suffix @ b" "set a \<subseteq> set stem" "set b \<subseteq> set ext"
    "length (fit stem suffix ext mx) \<le> mx"
proof (cases "length stem + length ext \<le> mx - length suffix")
  case True
  with assms show thesis by (intro that [of stem ext]) (auto simp: fit_def Let_def)
next
  case False
  let ?budget = "mx - length suffix"
  let ?a = "cut stem (?budget - length ext)"
  let ?b = "cut ext (?budget - length ?a)"
  have "length ?a \<le> ?budget - length ext" "length ?b \<le> ?budget - length ?a"
    by (rule cut_props)+
  then have "length (?a @ suffix @ ?b) \<le> mx" using assms by simp
  moreover have "fit stem suffix ext mx = ?a @ suffix @ ?b"
    using False by (simp add: fit_def Let_def)
  ultimately show thesis by (intro that [of ?a ?b]) (simp_all add: cut_props)
qed

lemma split_name_parts: "split_name name k = (stem, ext) \<Longrightarrow> stem @ ext = name"
  by (auto simp: split_name_def split: option.splits if_splits)

lemma hex_char_safe:
  assumes "d < 16" shows "safe_char (hex_char d)"
proof -
  have "hex_digit (hex_char d) \<noteq> None" by (simp add: hex_digit_char assms)
  moreover have "hex_digit (CHR ''/'') = None" "hex_digit (CHR 0x00) = None"
    by (simp_all add: hex_digit_def)
  ultimately show ?thesis by (auto simp: safe_char_def)
qed

lemma short_hex_safe: "list_all safe_char (short_hex bs)" "length (short_hex bs) \<le> 8"
  by (auto simp: short_hex_def write_hex_def list_all_iff hex_char_safe nibble_bounds
      length_write_hex [unfolded write_hex_def])

lemma host_char_safe: "host_char c \<Longrightarrow> safe_char c"
  by (auto simp: host_char_def safe_char_def)

lemma date_char_safe: "digit_char c \<or> c = CHR ''-'' \<Longrightarrow> safe_char c"
  by (auto simp: digit_char_def safe_char_def)

lemma conflict_suffix_props:
  assumes "host_ok (e_host l)" and "is_i64 (e_mtime l)"
  shows "list_all safe_char (conflict_suffix l)"
    and "26 \<le> length (conflict_suffix l)" and "length (conflict_suffix l) \<le> 89"
proof -
  define who where
    "who = (if host_str (e_host l) = [] then node_id_short (e_by l) else host_str (e_host l))"
  have S: "conflict_suffix l = ''.conflict-'' @ format_utc_compact (e_mtime l) @ ''-'' @ who"
    by (simp add: conflict_suffix_def who_def Let_def)
  have "list_all safe_char who" "length who \<le> 63"
    using assms(1) short_hex_safe [of "node_bytes (e_by l)"]
    by (auto simp: who_def node_id_short_def host_ok_def host_max_len_def list_all_iff
        intro: host_char_safe)
  moreover have "list_all safe_char (format_utc_compact (e_mtime l))"
    using format_utc_compact_shape(2) [OF assms(2)] by (auto simp: list_all_iff intro: date_char_safe)
  moreover have "list_all safe_char ''.conflict-''" "list_all safe_char ''-''"
    by (simp_all add: safe_char_def)
  ultimately show "list_all safe_char (conflict_suffix l)"
    and "26 \<le> length (conflict_suffix l)" and "length (conflict_suffix l) \<le> 89"
    using format_utc_compact_shape(1) [OF assms(2)] by (simp_all add: S)
qed

lemma valid_component_fit:
  assumes "valid_component name" and "split_name name k = (stem, ext)"
    and "list_all safe_char suffix" "26 \<le> length suffix" "length suffix \<le> 89"
  shows "valid_component (fit stem suffix ext 255)" "25 < length (fit stem suffix ext 255)"
proof -
  have "length suffix \<le> 255" using assms(5) by simp
  then obtain a b where F: "fit stem suffix ext 255 = a @ suffix @ b" "set a \<subseteq> set stem"
      "set b \<subseteq> set ext" "length (fit stem suffix ext 255) \<le> 255"
    by (rule fit_props)
  have "set stem \<union> set ext = set name"
    using split_name_parts [OF assms(2)] by auto
  then have "set (fit stem suffix ext 255) \<subseteq> set name \<union> set suffix" using F by auto
  then have chars: "CHR ''/'' \<notin> set (fit stem suffix ext 255)" "CHR 0x00 \<notin> set (fit stem suffix ext 255)"
    using assms(1,3) by (auto simp: valid_component_def list_all_iff safe_char_def)
  have len: "26 \<le> length (fit stem suffix ext 255)" using F(1) assms(4) by simp
  then show "25 < length (fit stem suffix ext 255)" by simp
  from len have "fit stem suffix ext 255 \<noteq> ''.''" "fit stem suffix ext 255 \<noteq> ''..''"
    "fit stem suffix ext 255 \<noteq> []" by auto
  with chars F(4) show "valid_component (fit stem suffix ext 255)"
    by (simp add: valid_component_def)
qed

lemma valid_path_file_name: "valid_path p \<Longrightarrow> valid_component (file_name p)"
  using path_components_not_Nil [of p]
  by (simp add: valid_path_def list_all_iff file_name_def path_components_def)

lemma valid_path_single:
  assumes "valid_component c" "length c \<noteq> 8"
  shows "rel_path_new c = Inr (RelPath c)"
proof -
  have "split_on (CHR ''/'') c = [c]"
    using assms(1) by (simp add: valid_component_def split_on_single)
  moreover have "c \<noteq> ''.delocal''" using assms(2) by auto
  ultimately show ?thesis
    using assms(1) by (simp add: rel_path_new_ok valid_path_def path_components_def)
qed

lemma conflict_copy_name_total:
  assumes "valid_path (e_path l)" and "host_ok (e_host l)" and "is_i64 (e_mtime l)"
  obtains p a b where "conflict_copy_name l = Some p" "valid_path p"
    "path_parent p = path_parent (e_path l)" "file_name p = a @ conflict_suffix l @ b"
proof -
  obtain stem ext where sp: "split_name (file_name (e_path l)) (e_kind l) = (stem, ext)"
    by fastforce
  define f where "f = fit stem (conflict_suffix l) ext 255"
  note S = conflict_suffix_props [OF assms(2,3)]
  have f: "valid_component f" "25 < length f"
    using valid_component_fit [OF valid_path_file_name [OF assms(1)] sp S] by (simp_all add: f_def)
  have "length (conflict_suffix l) \<le> 255" using S(3) by simp
  then obtain a b where ab: "f = a @ conflict_suffix l @ b"
    unfolding f_def by (rule fit_props)
  have nosep: "CHR ''/'' \<notin> set f" using f(1) by (simp add: valid_component_def)
  show thesis
  proof (cases "path_parent (e_path l)")
    case None
    have new: "rel_path_new f = Inr (RelPath f)" using f by (intro valid_path_single) auto
    then have "valid_path (RelPath f)" by (simp add: rel_path_new_ok)
    moreover have "conflict_copy_name l = Some (RelPath f)"
      unfolding conflict_copy_name_def sp None by (simp add: MAX_COMPONENT_LEN_def f_def [symmetric] new)
    moreover have "path_parent (RelPath f) = None" using nosep by (simp add: path_parent_def)
    moreover have "file_name (RelPath f) = a @ conflict_suffix l @ b"
      using nosep by (simp add: file_name_def split_on_single ab)
    ultimately show thesis using None that by metis
  next
    case (Some q)
    let ?p = "RelPath (path_str q @ CHR ''/'' # f)"
    have "valid_path q" using Some assms(1) by (rule path_parent_valid)
    with f(1) have join: "path_join q f = Inr ?p" by (simp add: path_join_ok)
    then have "valid_path ?p" by (auto simp: path_join_def rel_path_new_ok split: if_splits)
    have comps: "path_components ?p = path_components q @ [f]"
      using nosep by (simp add: path_components_def split_on_append)
    then have fn: "file_name ?p = f" by (simp add: file_name_def path_components_def)
    have "path_parent ?p \<noteq> None" by (simp add: path_parent_def)
    then obtain q' where q': "path_parent ?p = Some q'" by auto
    then have "path_str q' = path_str q"
      using path_parent_Some [OF q'] fn by simp
    then have "path_parent ?p = Some q" using q' by (simp add: rel_path.expand)
    moreover have "conflict_copy_name l = Some ?p"
      unfolding conflict_copy_name_def sp Some by (simp add: MAX_COMPONENT_LEN_def f_def [symmetric] join)
    ultimately show thesis using Some \<open>valid_path ?p\<close> fn ab that by metis
  qed
qed

section \<open>Properties\<close>

text \<open>C35: Resolving conflicting entries of one path gives the same entry on both machines, whichever of
  the two each holds, and the same entry for three however they meet.\<close>

theorem resolution_agrees:
  assumes "e_path a = e_path b" and "e_path b = e_path c"
  shows "r_merged (resolve a b) = r_merged (resolve b a) \<and>
    r_merged (resolve (r_merged (resolve a b)) c) = r_merged (resolve a (r_merged (resolve b c)))"
  using reg.join_comm [OF assms(1)] reg.join_assoc [OF assms] by (simp add: resolve_is_join)

lemma resolution_agrees_witness:
  "\<exists>a b. a \<noteq> b \<and> r_merged (resolve a b) = r_merged (resolve b a)"
proof -
  let ?a = "\<lparr>e_path = RelPath ''a'', e_kind = File, e_size = 1, e_mtime = 5, e_stamp = 5,
      e_exec = False, e_hash = EMPTY, e_prev_hash = EMPTY, e_version = version_empty,
      e_deleted = False, e_by = NodeId [1], e_host = HostName ''h''\<rparr>"
  have "?a \<noteq> ?a\<lparr>e_by := NodeId [2]\<rparr>" by simp
  moreover have "r_merged (resolve ?a (?a\<lparr>e_by := NodeId [2]\<rparr>)) =
      r_merged (resolve (?a\<lparr>e_by := NodeId [2]\<rparr>) ?a)"
    using resolution_agrees [of ?a "?a\<lparr>e_by := NodeId [2]\<rparr>" ?a] by simp
  ultimately show ?thesis by blast
qed

text \<open>The name of a conflict copy always exists: it is a valid path in the directory of the
  losing entry whose name keeps the whole conflict suffix, whatever the original name's length.\<close>

theorem conflict_copy_always_named:
  assumes "valid_path (e_path l)" and "host_ok (e_host l)" and "is_i64 (e_mtime l)"
  shows "\<exists>p a b. conflict_copy_name l = Some p \<and> valid_path p \<and>
    path_parent p = path_parent (e_path l) \<and> file_name p = a @ conflict_suffix l @ b"
  using conflict_copy_name_total [OF assms] by metis

lemma conflict_copy_always_named_witness:
  "\<exists>p. conflict_copy_name \<lparr>e_path = RelPath ''a/b.txt'', e_kind = File, e_size = 1, e_mtime = 5,
     e_stamp = 5, e_exec = False, e_hash = EMPTY, e_prev_hash = EMPTY, e_version = version_empty,
     e_deleted = False, e_by = NodeId [1], e_host = HostName ''h''\<rparr> = Some p \<and> valid_path p"
proof -
  let ?l = "\<lparr>e_path = RelPath ''a/b.txt'', e_kind = File, e_size = 1, e_mtime = 5,
     e_stamp = 5, e_exec = False, e_hash = EMPTY, e_prev_hash = EMPTY, e_version = version_empty,
     e_deleted = False, e_by = NodeId [1], e_host = HostName ''h''\<rparr>"
  have "valid_path (e_path ?l)" "host_ok (e_host ?l)" "is_i64 (e_mtime ?l)" by code_simp+
  from conflict_copy_always_named [OF this] show ?thesis by blast
qed

end
