(* ===== verification/Indexes.thy ===== *)
theory Indexes
  imports Conflicts
begin

text \<open>
  \<open>crates/engine/src/index.rs\<close>: the per-folder index, and the \<open>Changed\<close> key log of \<open>parts.rs\<close> it
  reports its pending rows with. A method that mutates the index takes it last and returns it
  after its result. \<open>seq\<close> numbers are natural numbers (the code adds one per local write).
\<close>

section \<open>The change log of \<open>parts.rs\<close>\<close>

definition changed_note :: "'k::linorder \<Rightarrow> 'k bset \<Rightarrow> 'k bset" where
  "changed_note k c = (if \<not> bm_has c k then bs_insert k c else c)"

definition changed_take :: "'k::linorder bset \<Rightarrow> 'k list \<times> 'k bset" where
  "changed_take c = (bm_keys c, bm_empty)"

lemma changed_note_eq: "changed_note k c = bs_insert k c"
  by (auto simp: changed_note_def intro: bm.insert_idem [symmetric])

section \<open>The data\<close>

record index_record =
  ir_entry :: entry
  ir_seq :: nat

datatype change_kind = Add | Modify | Delete

definition change_between :: "bool \<Rightarrow> bool \<Rightarrow> change_kind" where
  "change_between announced_live now_live =
     (case (announced_live, now_live) of
        (False, True) \<Rightarrow> Add | (True, True) \<Rightarrow> Modify | (_, False) \<Rightarrow> Delete)"

record reverted =
  rv_path :: rel_path
  rv_current :: "entry option"
  rv_restored :: "index_record option"

record pending =
  pd_announced :: "index_record option"
  pd_exempt :: bool

record local_change =
  lc_kind :: change_kind
  lc_record :: index_record

record watermark =
  wm_contiguous :: nat
  wm_ranges :: "(nat, nat) bmap"

record index =
  ix_own :: node_id
  ix_host :: host_name
  ix_records :: "(rel_path, index_record) bmap"
  ix_seq :: nat
  ix_peer_seq :: "(node_id, watermark) bmap"
  ix_pending :: "(rel_path, pending) bmap"
  ix_pending_changed :: "rel_path bset"
  ix_announced_seq :: nat
  ix_announced_tracked :: nat

section \<open>Reading\<close>

definition stamp_for :: "index_record option \<Rightarrow> kind \<Rightarrow> int \<Rightarrow> bool \<Rightarrow> int" where
  "stamp_for previous k mtime_ns content_changed =
     (case previous of
        Some r \<Rightarrow>
          if content_changed \<and> k = File then max mtime_ns (i64_add (e_stamp (ir_entry r)) 1)
          else i64_add (e_stamp (ir_entry r)) 1
      | None \<Rightarrow> if k = File then mtime_ns else 1)"

definition index_new :: "node_id \<Rightarrow> host_name \<Rightarrow> index" where
  "index_new own host =
     \<lparr>ix_own = own, ix_host = host, ix_records = bm_empty, ix_seq = 0, ix_peer_seq = bm_empty,
      ix_pending = bm_empty, ix_pending_changed = bm_empty, ix_announced_seq = 0,
      ix_announced_tracked = 0\<rparr>"

definition ix_get :: "index \<Rightarrow> rel_path \<Rightarrow> index_record option" where
  "ix_get ix p = bm_get (ix_records ix) p"

definition locate :: "index \<Rightarrow> rel_path \<Rightarrow> content_hash \<Rightarrow> rel_path list" where
  "locate ix path hash =
     (let holds = (\<lambda>r. \<not> e_deleted (ir_entry r) \<and> e_kind (ir_entry r) \<noteq> Dir \<and>
                       e_hash (ir_entry r) = hash);
          here = (case opt_filter holds (bm_get (ix_records ix) path) of
                    Some r \<Rightarrow> [e_path (ir_entry r)] | None \<Rightarrow> []);
          elsewhere = map (\<lambda>r. e_path (ir_entry r))
            (filter (\<lambda>r. e_path (ir_entry r) \<noteq> path) (filter holds (bm_values (ix_records ix))));
          any = (hash \<noteq> EMPTY)
      in filter (\<lambda>_. any) (here @ elsewhere))"

definition ix_live :: "index \<Rightarrow> rel_path \<Rightarrow> index_record option" where
  "ix_live ix p = opt_filter (\<lambda>r. \<not> e_deleted (ir_entry r)) (bm_get (ix_records ix) p)"

definition live_records :: "index \<Rightarrow> index_record list" where
  "live_records ix = filter (\<lambda>r. \<not> e_deleted (ir_entry r)) (bm_values (ix_records ix))"

definition tracked_count :: "index \<Rightarrow> nat" where
  "tracked_count ix = length (filter (\<lambda>r. e_kind (ir_entry r) \<noteq> Dir) (live_records ix))"

definition records_since :: "index \<Rightarrow> nat \<Rightarrow> index_record list" where
  "records_since ix after = filter (\<lambda>r. after < ir_seq r) (bm_values (ix_records ix))"

definition announced_since :: "index \<Rightarrow> nat \<Rightarrow> index_record list" where
  "announced_since ix after =
     (let announced = (\<lambda>r. ir_seq r \<le> ix_announced_seq ix);
          out = List.map_filter (\<lambda>(path, record).
            (case bm_get (ix_pending ix) path of
               Some kept \<Rightarrow> opt_filter announced (pd_announced kept)
             | None \<Rightarrow> opt_filter announced (Some record))) (bm_entries (ix_records ix))
      in sort_key ir_seq (filter (\<lambda>r. after < ir_seq r) out))"

definition is_live_record :: "index_record option \<Rightarrow> bool" where
  "is_live_record announced = is_some_and (\<lambda>r. \<not> e_deleted (ir_entry r)) announced"

definition is_pending :: "index \<Rightarrow> rel_path \<Rightarrow> bool" where
  "is_pending ix p = bm_has (ix_pending ix) p"

definition ix_pending_list :: "index \<Rightarrow> (index_record \<times> change_kind) list" where
  "ix_pending_list ix =
     List.map_filter (\<lambda>(path, row).
       map_option (\<lambda>r. (r, change_between (is_live_record (pd_announced row))
                                         (\<not> e_deleted (ir_entry r))))
         (bm_get (ix_records ix) path)) (bm_entries (ix_pending ix))"

definition pending_kind :: "index \<Rightarrow> rel_path \<Rightarrow> change_kind option" where
  "pending_kind ix path =
     (case bm_get (ix_pending ix) path of None \<Rightarrow> None
      | Some row \<Rightarrow>
        (case bm_get (ix_records ix) path of None \<Rightarrow> None
         | Some record \<Rightarrow>
             Some (change_between (is_live_record (pd_announced row)) (\<not> e_deleted (ir_entry record)))))"

definition unannounced :: "index \<Rightarrow> (index_record \<times> change_kind option) list" where
  "unannounced ix =
     sort_key (\<lambda>(r, _). ir_seq r)
       (map (\<lambda>(path, r).
          (r, if is_some_and pd_exempt (bm_get (ix_pending ix) path) then None
              else pending_kind ix path))
         (filter (\<lambda>(_, r). ix_announced_seq ix < ir_seq r) (bm_entries (ix_records ix))))"

definition announced_hash :: "index \<Rightarrow> rel_path \<Rightarrow> content_hash" where
  "announced_hash ix path =
     (case bm_get (ix_pending ix) path of
        Some row \<Rightarrow> (case pd_announced row of Some r \<Rightarrow> e_hash (ir_entry r) | None \<Rightarrow> EMPTY)
      | None \<Rightarrow> (case bm_get (ix_records ix) path of
          Some r \<Rightarrow> e_hash (ir_entry r) | None \<Rightarrow> EMPTY))"

section \<open>The watermarks\<close>

function wm_absorb :: "watermark \<Rightarrow> watermark" where
  "wm_absorb w =
     (case bm_entries (wm_ranges w) of
        [] \<Rightarrow> w
      | (low, high) # _ \<Rightarrow>
          if low \<le> wm_contiguous w
          then wm_absorb (w\<lparr>wm_ranges := bm_remove low (wm_ranges w),
                             wm_contiguous := max (wm_contiguous w) high\<rparr>)
          else w)"
  by pat_completeness auto
termination
  by (relation "measure (\<lambda>w. length (bm_entries (wm_ranges w)))")
    (auto simp: le_imp_less_Suc length_filter_le)

declare wm_absorb.simps [simp del]

definition wm_empty :: watermark where
  "wm_empty = \<lparr>wm_contiguous = 0, wm_ranges = bm_empty\<rparr>"

definition wm_received :: "nat \<Rightarrow> nat \<Rightarrow> watermark \<Rightarrow> watermark" where
  "wm_received seq_low seq_high w =
     (if seq_high \<le> wm_contiguous w then w
      else wm_absorb
        (if seq_low \<le> wm_contiguous w then w\<lparr>wm_contiguous := seq_high\<rparr>
         else w\<lparr>wm_ranges := bm_insert seq_low
           (max (case bm_get (wm_ranges w) seq_low of Some high \<Rightarrow> high | None \<Rightarrow> seq_high) seq_high)
           (wm_ranges w)\<rparr>))"

definition ix_peer_watermark :: "index \<Rightarrow> node_id \<Rightarrow> watermark" where
  "ix_peer_watermark ix peer =
     (case bm_get (ix_peer_seq ix) peer of Some w \<Rightarrow> w | None \<Rightarrow> wm_empty)"

definition peer_seq :: "index \<Rightarrow> node_id \<Rightarrow> nat" where
  "peer_seq ix peer =
     (case bm_get (ix_peer_seq ix) peer of None \<Rightarrow> 0 | Some w \<Rightarrow> wm_contiguous w)"

definition peer_has_gap :: "index \<Rightarrow> node_id \<Rightarrow> bool" where
  "peer_has_gap ix peer =
     is_some_and (\<lambda>w. \<not> bm_is_empty (wm_ranges w)) (bm_get (ix_peer_seq ix) peer)"

definition received_range :: "node_id \<Rightarrow> nat \<Rightarrow> nat \<Rightarrow> index \<Rightarrow> index" where
  "received_range peer seq_low seq_high ix =
     ix\<lparr>ix_peer_seq := bm_insert peer (wm_received seq_low seq_high (ix_peer_watermark ix peer))
          (ix_peer_seq ix)\<rparr>"

section \<open>Writing\<close>

definition mark_announced :: "index \<Rightarrow> index" where
  "mark_announced ix =
     ix\<lparr>ix_pending_changed := foldl (\<lambda>c p. changed_note p c) (ix_pending_changed ix)
          (bm_keys (ix_pending ix)),
        ix_pending := bm_empty,
        ix_announced_seq := ix_seq ix,
        ix_announced_tracked := tracked_count ix\<rparr>"

definition pending_changes :: "index \<Rightarrow> (rel_path \<times> pending option) list \<times> index" where
  "pending_changes ix =
     (let (paths, c) = changed_take (ix_pending_changed ix)
      in (map (\<lambda>p. (p, bm_get (ix_pending ix) p)) paths, ix\<lparr>ix_pending_changed := c\<rparr>))"

definition ix_write :: "entry \<Rightarrow> index \<Rightarrow> local_change \<times> index" where
  "ix_write entry ix =
     (let seq = ix_seq ix + 1;
          path = e_path entry;
          previous = bm_get (ix_records ix) path;
          row0 = (case bm_get (ix_pending ix) path of
                    Some row \<Rightarrow> row
                  | None \<Rightarrow> \<lparr>pd_announced = previous, pd_exempt = False\<rparr>);
          row = row0\<lparr>pd_exempt := False\<rparr>;
          k = change_between (is_live_record (pd_announced row)) (\<not> e_deleted entry);
          record = \<lparr>ir_entry = entry, ir_seq = seq\<rparr>
      in (\<lparr>lc_kind = k, lc_record = record\<rparr>,
          ix\<lparr>ix_seq := seq,
             ix_pending_changed := changed_note path (ix_pending_changed ix),
             ix_pending := bm_insert path row (ix_pending ix),
             ix_records := bm_insert path record (ix_records ix)\<rparr>))"

definition previous_version :: "index_record option \<Rightarrow> version" where
  "previous_version previous =
     (case previous of Some r \<Rightarrow> e_version (ir_entry r) | None \<Rightarrow> version_empty)"

definition observe :: "rel_path \<Rightarrow> observed \<Rightarrow> index \<Rightarrow> local_change option \<times> index" where
  "observe path obs ix =
     (let ob = normalised obs;
          previous = bm_get (ix_records ix) path
      in if is_some_and (\<lambda>r. \<not> e_deleted (ir_entry r) \<and> entry_observed (ir_entry r) = ob) previous
         then (None, ix)
         else
           let version = incremented (previous_version previous) (ix_own ix);
               prev_hash = announced_hash ix path;
               stamp = stamp_for previous (ob_kind ob) (ob_mtime ob) (ob_hash ob \<noteq> prev_hash);
               (change, ix') = ix_write
                 \<lparr>e_path = path, e_kind = ob_kind ob, e_size = ob_size ob, e_mtime = ob_mtime ob,
                  e_stamp = stamp, e_exec = ob_exec ob, e_hash = ob_hash ob, e_prev_hash = prev_hash,
                  e_version = version, e_deleted = False, e_by = ix_own ix, e_host = ix_host ix\<rparr> ix
           in (Some change, ix'))"

definition observe_absent :: "rel_path \<Rightarrow> int \<Rightarrow> index \<Rightarrow> local_change option \<times> index" where
  "observe_absent path at_ns ix =
     (case ix_live ix path of
        None \<Rightarrow> (None, ix)
      | Some previous \<Rightarrow>
          let (change, ix') = ix_write
            \<lparr>e_path = path, e_kind = e_kind (ir_entry previous), e_size = 0, e_mtime = at_ns,
             e_stamp = i64_add (e_stamp (ir_entry previous)) 1, e_exec = False, e_hash = EMPTY,
             e_prev_hash = announced_hash ix path,
             e_version = incremented (e_version (ir_entry previous)) (ix_own ix),
             e_deleted = True, e_by = ix_own ix, e_host = ix_host ix\<rparr> ix
          in (Some change, ix'))"

definition observe_absent_unrecoverable ::
    "rel_path \<Rightarrow> int \<Rightarrow> index \<Rightarrow> local_change option \<times> index" where
  "observe_absent_unrecoverable path at_ns ix =
     (case observe_absent path at_ns ix of
        (None, ix') \<Rightarrow> (None, ix')
      | (Some change, ix') \<Rightarrow>
          (Some change,
           (case bm_get (ix_pending ix') path of
              Some row \<Rightarrow>
                ix'\<lparr>ix_pending := bm_insert path (row\<lparr>pd_exempt := True\<rparr>) (ix_pending ix'),
                    ix_pending_changed := changed_note path (ix_pending_changed ix')\<rparr>
            | None \<Rightarrow> ix')))"

definition record_conflict_copy :: "rel_path \<Rightarrow> entry \<Rightarrow> index \<Rightarrow> local_change \<times> index" where
  "record_conflict_copy path loser ix =
     (let previous = bm_get (ix_records ix) path;
          version = incremented (previous_version previous) (ix_own ix);
          prev_hash = announced_hash ix path;
          stamp = stamp_for previous (e_kind loser) (e_mtime loser) True
      in ix_write
           \<lparr>e_path = path, e_kind = e_kind loser, e_size = e_size loser, e_mtime = e_mtime loser,
            e_stamp = stamp, e_exec = e_exec loser, e_hash = e_hash loser, e_prev_hash = prev_hash,
            e_version = version, e_deleted = False, e_by = ix_own ix, e_host = ix_host ix\<rparr> ix)"

definition adopt :: "entry \<Rightarrow> index \<Rightarrow> index_record option \<times> index" where
  "adopt entry ix =
     (let path = e_path entry in
      if \<not> is_none_or (\<lambda>r. dominates_or_equals (e_version entry) (e_version (ir_entry r)))
             (bm_get (ix_records ix) path)
      then (None, ix)
      else
        let seq = ix_seq ix + 1;
            record = \<lparr>ir_entry = entry, ir_seq = seq\<rparr>
        in (Some record,
            ix\<lparr>ix_seq := seq,
               ix_pending_changed := (if bm_has (ix_pending ix) path
                 then changed_note path (ix_pending_changed ix) else ix_pending_changed ix),
               ix_pending := bm_remove path (ix_pending ix),
               ix_records := bm_insert path record (ix_records ix)\<rparr>))"

definition bump_over ::
    "rel_path \<Rightarrow> version list \<Rightarrow> int option \<Rightarrow> int \<Rightarrow> index \<Rightarrow> local_change \<times> index" where
  "bump_over path over over_stamp at_ns ix =
     (let local = map_option ir_entry (bm_get (ix_records ix) path);
          base = (case local of Some e \<Rightarrow> e_version e | None \<Rightarrow> version_empty);
          version = incremented (foldl merge base over) (ix_own ix);
          prev_hash = announced_hash ix path;
          stamp = i64_add
            (case (map_option e_stamp local, over_stamp) of
               (Some a, Some b) \<Rightarrow> max a b | (Some a, None) \<Rightarrow> a | (None, Some b) \<Rightarrow> b
             | (None, None) \<Rightarrow> 0) 1
      in ix_write
           (case local of
              Some e \<Rightarrow> e\<lparr>e_version := version, e_prev_hash := prev_hash, e_stamp := stamp,
                          e_by := ix_own ix, e_host := ix_host ix\<rparr>
            | None \<Rightarrow>
                \<lparr>e_path = path, e_kind = File, e_size = 0, e_mtime = at_ns, e_stamp = stamp,
                 e_exec = False, e_hash = EMPTY, e_prev_hash = prev_hash, e_version = version,
                 e_deleted = True, e_by = ix_own ix, e_host = ix_host ix\<rparr>) ix)"

definition revert_row :: "rel_path \<times> pending \<Rightarrow> reverted list \<times> index \<Rightarrow> reverted list \<times> index" where
  "revert_row pr st =
     (let (path, row) = pr; (out, ix) = st;
          current = bm_get (ix_records ix) path;
          recs = bm_remove path (ix_records ix);
          recs' = (case pd_announced row of Some r \<Rightarrow> bm_insert path r recs | None \<Rightarrow> recs)
      in (out @ [\<lparr>rv_path = path, rv_current = map_option ir_entry current,
                  rv_restored = pd_announced row\<rparr>],
          ix\<lparr>ix_pending_changed := changed_note path (ix_pending_changed ix), ix_records := recs'\<rparr>))"

definition revert_pending :: "index \<Rightarrow> reverted list \<times> index" where
  "revert_pending ix =
     foldl (\<lambda>st pr. revert_row pr st) ([], ix\<lparr>ix_pending := bm_empty\<rparr>) (bm_entries (ix_pending ix))"

definition first_version :: "index \<Rightarrow> version" where
  "first_version ix = incremented version_empty (ix_own ix)"

lemmas [eval_simps] =
  changed_note_def changed_take_def change_between_def stamp_for_def index_new_def ix_get_def
  locate_def ix_live_def live_records_def tracked_count_def records_since_def announced_since_def
  is_live_record_def is_pending_def ix_pending_list_def pending_kind_def unannounced_def
  announced_hash_def wm_absorb.simps wm_empty_def wm_received_def ix_peer_watermark_def peer_seq_def
  peer_has_gap_def received_range_def mark_announced_def pending_changes_def ix_write_def
  previous_version_def observe_def observe_absent_def observe_absent_unrecoverable_def
  record_conflict_copy_def adopt_def bump_over_def revert_row_def revert_pending_def
  first_version_def

end
