(* ===== verification/IndexLaws.thy ===== *)
theory IndexLaws
  imports Indexes
begin

text \<open>
  What the index promises: its invariant over every run of its operations, growth of versions and
  stamps, what peers have been told (\<open>announced_view\<close>) and that \<open>revert\<close> puts exactly that back,
  and the watermarks as sets of received sequence numbers.
\<close>

section \<open>The two records a path can hold\<close>

text \<open>A record is held at a path as the current one or as the one the pending set keeps.\<close>

definition held :: "index \<Rightarrow> rel_path \<Rightarrow> index_record \<Rightarrow> bool" where
  "held ix p r \<longleftrightarrow> bm_get (ix_records ix) p = Some r \<or>
     (\<exists>row. bm_get (ix_pending ix) p = Some row \<and> pd_announced row = Some r)"

definition announced_view :: "index \<Rightarrow> rel_path \<Rightarrow> index_record option" where
  "announced_view ix p =
     (case bm_get (ix_pending ix) p of
        Some row \<Rightarrow> pd_announced row | None \<Rightarrow> bm_get (ix_records ix) p)"

definition ix_ok :: "index \<Rightarrow> bool" where
  "ix_ok ix \<longleftrightarrow>
     ix_announced_seq ix \<le> ix_seq ix \<and>
     (\<forall>p r. held ix p r \<longrightarrow> e_path (ir_entry r) = p \<and> 0 < ir_seq r \<and> ir_seq r \<le> ix_seq ix) \<and>
     (\<forall>p q r s. held ix p r \<longrightarrow> held ix q s \<longrightarrow> ir_seq r = ir_seq s \<longrightarrow> r = s) \<and>
     (\<forall>p row. bm_get (ix_pending ix) p = Some row \<longrightarrow>
        (\<exists>r. bm_get (ix_records ix) p = Some r \<and> ix_announced_seq ix < ir_seq r \<and>
             is_none_or (\<lambda>k. ir_seq k < ir_seq r) (pd_announced row)))"

named_theorems ok_intros \<open>every operation keeps the invariant\<close>
named_theorems index_fields \<open>what the operations leave alone\<close>

lemma ix_okD:
  assumes "ix_ok ix"
  shows "ix_announced_seq ix \<le> ix_seq ix"
    and "held ix p r \<Longrightarrow> e_path (ir_entry r) = p"
    and "held ix p r \<Longrightarrow> 0 < ir_seq r"
    and "held ix p r \<Longrightarrow> ir_seq r \<le> ix_seq ix"
    and "held ix p r \<Longrightarrow> held ix q s \<Longrightarrow> ir_seq r = ir_seq s \<Longrightarrow> r = s"
    and "bm_get (ix_pending ix) p = Some row \<Longrightarrow>
      \<exists>r. bm_get (ix_records ix) p = Some r \<and> ix_announced_seq ix < ir_seq r \<and>
          is_none_or (\<lambda>k. ir_seq k < ir_seq r) (pd_announced row)"
  using assms unfolding ix_ok_def by blast+

lemma held_record: "bm_get (ix_records ix) p = Some r \<Longrightarrow> held ix p r"
  by (simp add: held_def)

lemma held_kept:
  "bm_get (ix_pending ix) p = Some row \<Longrightarrow> pd_announced row = Some r \<Longrightarrow> held ix p r"
  by (simp add: held_def)

lemma held_announced: "announced_view ix p = Some r \<Longrightarrow> held ix p r"
  by (auto simp: announced_view_def held_def split: option.splits)

lemma announced_hash_view:
  "announced_hash ix p = (case announced_view ix p of Some r \<Rightarrow> e_hash (ir_entry r) | None \<Rightarrow> EMPTY)"
  by (auto simp: announced_hash_def announced_view_def split: option.splits)

section \<open>\<open>write\<close>, which every local change goes through\<close>

lemma ix_write_fields [index_fields]:
  "ix_own (snd (ix_write e ix)) = ix_own ix"
  "ix_host (snd (ix_write e ix)) = ix_host ix"
  "ix_seq (snd (ix_write e ix)) = Suc (ix_seq ix)"
  "ix_peer_seq (snd (ix_write e ix)) = ix_peer_seq ix"
  "ix_announced_seq (snd (ix_write e ix)) = ix_announced_seq ix"
  "ix_announced_tracked (snd (ix_write e ix)) = ix_announced_tracked ix"
  by (simp_all add: ix_write_def Let_def)

lemma ix_write_record:
  "lc_record (fst (ix_write e ix)) = \<lparr>ir_entry = e, ir_seq = Suc (ix_seq ix)\<rparr>"
  by (simp add: ix_write_def Let_def)

lemma ix_write_get [simp]:
  "bm_get (ix_records (snd (ix_write e ix))) p =
     (if p = e_path e then Some \<lparr>ir_entry = e, ir_seq = Suc (ix_seq ix)\<rparr>
      else bm_get (ix_records ix) p)"
  by (simp add: ix_write_def Let_def)

lemma ix_write_pending [simp]:
  "bm_get (ix_pending (snd (ix_write e ix))) p =
     (if p = e_path e
      then Some \<lparr>pd_announced = announced_view ix (e_path e), pd_exempt = False\<rparr>
      else bm_get (ix_pending ix) p)"
  by (simp add: ix_write_def Let_def announced_view_def split: option.splits)

lemma ix_write_view [simp]: "announced_view (snd (ix_write e ix)) p = announced_view ix p"
  by (auto simp: announced_view_def split: option.splits)

lemma ix_write_held:
  "held (snd (ix_write e ix)) p r \<Longrightarrow>
     held ix p r \<or> p = e_path e \<and> r = \<lparr>ir_entry = e, ir_seq = Suc (ix_seq ix)\<rparr>"
  by (auto simp: held_def announced_view_def split: if_splits option.splits)

text \<open>One new record, with the next sequence number, keeps the invariant.\<close>

lemma ix_ok_extend:
  assumes ok: "ix_ok ix"
    and seq: "ix_seq ix' = Suc (ix_seq ix)" and ann: "ix_announced_seq ix' = ix_announced_seq ix"
    and held: "\<And>p r. held ix' p r \<Longrightarrow>
      held ix p r \<or> p = e_path e \<and> r = \<lparr>ir_entry = e, ir_seq = Suc (ix_seq ix)\<rparr>"
    and pend: "\<And>p row. bm_get (ix_pending ix') p = Some row \<Longrightarrow>
      \<exists>r. bm_get (ix_records ix') p = Some r \<and> ix_announced_seq ix < ir_seq r \<and>
          is_none_or (\<lambda>k. ir_seq k < ir_seq r) (pd_announced row)"
  shows "ix_ok ix'"
  unfolding ix_ok_def
proof (intro conjI allI impI)
  show "ix_announced_seq ix' \<le> ix_seq ix'"
    using ix_okD(1) [OF ok] by (simp add: seq ann)
  fix p r assume p: "held ix' p r"
  show "e_path (ir_entry r) = p" "0 < ir_seq r" "ir_seq r \<le> ix_seq ix'"
    using held [OF p] ix_okD [OF ok] by (fastforce simp: seq)+
  fix q s assume q: "held ix' q s" and eq: "ir_seq r = ir_seq s"
  show "r = s"
    using held [OF p] held [OF q] eq ix_okD(4,5) [OF ok]
    by (metis index_record.select_convs(2) not_less_eq_eq order_refl)
next
  fix p row assume "bm_get (ix_pending ix') p = Some row"
  then show "\<exists>r. bm_get (ix_records ix') p = Some r \<and> ix_announced_seq ix' < ir_seq r \<and>
      is_none_or (\<lambda>k. ir_seq k < ir_seq r) (pd_announced row)"
    using pend by (simp add: ann)
qed

lemma ix_write_ok [ok_intros]:
  assumes ok: "ix_ok ix"
  shows "ix_ok (snd (ix_write e ix))"
proof (rule ix_ok_extend [OF ok, where e = e])
  fix p row assume "bm_get (ix_pending (snd (ix_write e ix))) p = Some row"
  then show "\<exists>r. bm_get (ix_records (snd (ix_write e ix))) p = Some r \<and>
      ix_announced_seq ix < ir_seq r \<and> is_none_or (\<lambda>k. ir_seq k < ir_seq r) (pd_announced row)"
    using ix_okD(1,6) [OF ok] le_imp_less_Suc [OF ix_okD(4) [OF ok held_announced]]
    by (cases "p = e_path e") (auto simp: is_none_or_iff le_imp_less_Suc)
qed (auto simp: index_fields dest: ix_write_held)

section \<open>Local changes\<close>

text \<open>A local change leaves the index alone or writes one entry at its path; the tombstone of
  \<open>observe_absent_unrecoverable\<close> only sets the flag of its pending row besides.\<close>

definition writes_at :: "rel_path \<Rightarrow> index \<Rightarrow> index \<Rightarrow> bool" where
  "writes_at p ix ix' \<longleftrightarrow>
     (\<exists>e. e_path e = p \<and> e_by e = ix_own ix \<and> e_host e = ix_host ix \<and>
          e_prev_hash e = announced_hash ix p \<and>
          (\<exists>v. version_le (previous_version (bm_get (ix_records ix) p)) v \<and>
               e_version e = incremented v (ix_own ix)) \<and>
          ix' = snd (ix_write e ix))"

lemma writes_atI:
  "e_path e = p \<Longrightarrow> e_by e = ix_own ix \<Longrightarrow> e_host e = ix_host ix \<Longrightarrow>
   e_prev_hash e = announced_hash ix p \<Longrightarrow> e_version e = incremented v (ix_own ix) \<Longrightarrow>
   version_le (previous_version (bm_get (ix_records ix) p)) v \<Longrightarrow>
   writes_at p ix (snd (ix_write e ix))"
  by (auto simp: writes_at_def)

lemma observe_writes:
  "observe p ob ix = (res, ix') \<Longrightarrow> res = None \<and> ix' = ix \<or> res \<noteq> None \<and> writes_at p ix ix'"
  by (auto simp: observe_def Let_def split_beta intro!: writes_atI split: if_splits)

lemma observe_absent_writes:
  "observe_absent p t ix = (res, ix') \<Longrightarrow>
     res = None \<and> ix' = ix \<or> res \<noteq> None \<and> writes_at p ix ix'"
  by (auto simp: observe_absent_def Let_def split_beta ix_live_def previous_version_def
      intro!: writes_atI split: option.splits)

lemma record_conflict_copy_writes: "writes_at p ix (snd (record_conflict_copy p e ix))"
  by (auto simp: record_conflict_copy_def Let_def intro!: writes_atI)

lemma bump_over_writes:
  assumes "ix_ok ix"
  shows "writes_at p ix (snd (bump_over p vs st t ix))"
proof (cases "bm_get (ix_records ix) p")
  case None
  then show ?thesis
    by (auto simp: bump_over_def Let_def previous_version_def intro!: writes_atI ver.fold_lub_upper)
next
  case (Some r)
  then have "e_path (ir_entry r) = p" using ix_okD(2) [OF assms] held_record by blast
  with Some show ?thesis
    by (auto simp: bump_over_def Let_def previous_version_def intro!: writes_atI ver.fold_lub_upper)
qed

text \<open>Marking a pending row exempt.\<close>

definition mark_exempt :: "rel_path \<Rightarrow> index \<Rightarrow> index" where
  "mark_exempt p ix =
     (case bm_get (ix_pending ix) p of
        Some row \<Rightarrow> ix\<lparr>ix_pending := bm_insert p (row\<lparr>pd_exempt := True\<rparr>) (ix_pending ix),
                       ix_pending_changed := changed_note p (ix_pending_changed ix)\<rparr>
      | None \<Rightarrow> ix)"

lemma unrecoverable_split:
  "observe_absent_unrecoverable p t ix =
     (case observe_absent p t ix of (None, ix') \<Rightarrow> (None, ix')
      | (Some c, ix') \<Rightarrow> (Some c, mark_exempt p ix'))"
  by (simp add: observe_absent_unrecoverable_def mark_exempt_def split: option.splits prod.splits)

lemma mark_exempt_fields [index_fields]:
  "ix_own (mark_exempt p ix) = ix_own ix" "ix_host (mark_exempt p ix) = ix_host ix"
  "ix_seq (mark_exempt p ix) = ix_seq ix" "ix_records (mark_exempt p ix) = ix_records ix"
  "ix_announced_seq (mark_exempt p ix) = ix_announced_seq ix"
  "ix_peer_seq (mark_exempt p ix) = ix_peer_seq ix"
  by (simp_all add: mark_exempt_def split: option.splits)

lemma mark_exempt_view [simp]: "announced_view (mark_exempt p ix) q = announced_view ix q"
  by (auto simp: mark_exempt_def announced_view_def split: option.splits)

lemma mark_exempt_pending:
  "bm_get (ix_pending (mark_exempt p ix)) q =
     map_option (\<lambda>row. if q = p then row\<lparr>pd_exempt := True\<rparr> else row) (bm_get (ix_pending ix) q)"
  by (cases "bm_get (ix_pending ix) q") (auto simp: mark_exempt_def split: option.splits)

lemma mark_exempt_held [simp]: "held (mark_exempt p ix) q r = held ix q r"
  by (cases "bm_get (ix_pending ix) q") (auto simp: held_def index_fields mark_exempt_pending)

lemma mark_exempt_ok [ok_intros]: "ix_ok ix \<Longrightarrow> ix_ok (mark_exempt p ix)"
  by (auto simp: ix_ok_def index_fields mark_exempt_pending split: if_splits; blast)

inductive local_step :: "index \<Rightarrow> index \<Rightarrow> bool" where
  observe: "observe p ob ix = (res, ix') \<Longrightarrow> local_step ix ix'"
| absent: "observe_absent p t ix = (res, ix') \<Longrightarrow> local_step ix ix'"
| unrecoverable: "observe_absent_unrecoverable p t ix = (res, ix') \<Longrightarrow> local_step ix ix'"
| conflict_copy: "record_conflict_copy p e ix = (res, ix') \<Longrightarrow> local_step ix ix'"
| bump: "bump_over p vs st t ix = (res, ix') \<Longrightarrow> local_step ix ix'"

inductive_cases local_stepE: "local_step ix ix'"

text \<open>The shape of a local step: nothing, a write, or a write with its row marked.\<close>

lemma local_step_shape:
  assumes "local_step ix ix'" and "ix_ok ix"
  shows "ix' = ix \<or> (\<exists>p. writes_at p ix ix') \<or>
         (\<exists>p ix1. writes_at p ix ix1 \<and> ix' = mark_exempt p ix1)"
  using assms(1)
proof cases
  case (observe p ob res)
  then show ?thesis using observe_writes by blast
next
  case (absent p t res)
  then show ?thesis using observe_absent_writes by blast
next
  case (unrecoverable p t res)
  then obtain res1 ix1 where 1: "observe_absent p t ix = (res1, ix1)"
    and 2: "ix' = (case res1 of None \<Rightarrow> ix1 | Some _ \<Rightarrow> mark_exempt p ix1)"
    by (auto simp: unrecoverable_split split: prod.splits option.splits)
  then show ?thesis using observe_absent_writes [OF 1] by (cases res1) auto
next
  case (conflict_copy p e res)
  then show ?thesis using record_conflict_copy_writes [of p ix e] by auto
next
  case (bump p vs st t res)
  then show ?thesis using bump_over_writes [OF assms(2), of p vs st t] by auto
qed

lemma writes_at_ok: "writes_at p ix ix' \<Longrightarrow> ix_ok ix \<Longrightarrow> ix_ok ix'"
  by (auto simp: writes_at_def intro: ok_intros)

lemma writes_at_view: "writes_at p ix ix' \<Longrightarrow> announced_view ix' q = announced_view ix q"
  by (auto simp: writes_at_def)

lemma writes_at_fields:
  assumes "writes_at p ix ix'"
  shows "ix_own ix' = ix_own ix" "ix_host ix' = ix_host ix" "ix_seq ix' = Suc (ix_seq ix)"
    "ix_peer_seq ix' = ix_peer_seq ix" "ix_announced_seq ix' = ix_announced_seq ix"
  using assms by (auto simp: writes_at_def index_fields)

lemma local_step_ok: "local_step ix ix' \<Longrightarrow> ix_ok ix \<Longrightarrow> ix_ok ix'"
  using local_step_shape writes_at_ok mark_exempt_ok by blast

lemma local_step_view:
  "local_step ix ix' \<Longrightarrow> ix_ok ix \<Longrightarrow> announced_view ix' q = announced_view ix q"
  using local_step_shape [of ix ix'] writes_at_view by fastforce

lemma local_step_announced_seq:
  "local_step ix ix' \<Longrightarrow> ix_ok ix \<Longrightarrow> ix_announced_seq ix' = ix_announced_seq ix"
  using local_step_shape [of ix ix'] by (fastforce simp: index_fields writes_at_fields)

text \<open>A run of local steps.\<close>

lemma local_run:
  assumes "local_step\<^sup>*\<^sup>* ix ix'" and "ix_ok ix"
  shows "ix_ok ix' \<and> announced_view ix' = announced_view ix \<and>
         ix_announced_seq ix' = ix_announced_seq ix"
  using assms
  by (induction rule: rtranclp_induct)
    (auto simp: local_step_ok local_step_announced_seq local_step_view)

section \<open>Revert\<close>

lemma revert_fold:
  "foldl (\<lambda>st pr. revert_row pr st) (out, ix) rows =
     (out @ map (\<lambda>(p, row). \<lparr>rv_path = p,
          rv_current = map_option ir_entry (bm_get (ix_records ix) p),
          rv_restored = pd_announced row\<rparr>) rows, snd (foldl (\<lambda>st pr. revert_row pr st) ([], ix) rows))"
  if "distinct (map fst rows)"
  using that
proof (induction rows arbitrary: out ix)
  case (Cons r rows)
  obtain p row where r: "r = (p, row)" by fastforce
  obtain o1 i1 where 1: "revert_row (p, row) ([], ix) = (o1, i1)" by fastforce
  have 2: "revert_row (p, row) (out, ix) =
      (out @ [\<lparr>rv_path = p, rv_current = map_option ir_entry (bm_get (ix_records ix) p),
        rv_restored = pd_announced row\<rparr>], i1)"
    using 1 by (simp add: revert_row_def Let_def)
  have 3: "q \<noteq> p \<Longrightarrow> bm_get (ix_records i1) q = bm_get (ix_records ix) q" for q
    using 1 by (auto simp: revert_row_def Let_def split: option.splits)
  have 4: "snd (foldl (\<lambda>st pr. revert_row pr st) (o1, i1) rows) =
      snd (foldl (\<lambda>st pr. revert_row pr st) ([], i1) rows)"
    using Cons.IH [of o1 i1] Cons.prems by simp
  from Cons.prems have "p \<notin> fst ` set rows" by (simp add: r)
  then have 5: "map (\<lambda>(p, row). \<lparr>rv_path = p,
          rv_current = map_option ir_entry (bm_get (ix_records i1) p),
          rv_restored = pd_announced row\<rparr>) rows =
      map (\<lambda>(p, row). \<lparr>rv_path = p,
          rv_current = map_option ir_entry (bm_get (ix_records ix) p),
          rv_restored = pd_announced row\<rparr>) rows"
    using 3 by (force intro: map_cong)
  show ?case
    using Cons.IH [of "out @ [\<lparr>rv_path = p,
        rv_current = map_option ir_entry (bm_get (ix_records ix) p),
        rv_restored = pd_announced row\<rparr>]" i1] Cons.prems
    by (simp add: r 1 2 4 5)
qed simp

lemma revert_row_state:
  "ix_pending (snd (revert_row pr st)) = ix_pending (snd st)"
  "ix_seq (snd (revert_row pr st)) = ix_seq (snd st)"
  "ix_own (snd (revert_row pr st)) = ix_own (snd st)"
  "ix_host (snd (revert_row pr st)) = ix_host (snd st)"
  "ix_peer_seq (snd (revert_row pr st)) = ix_peer_seq (snd st)"
  "ix_announced_seq (snd (revert_row pr st)) = ix_announced_seq (snd st)"
  "ix_announced_tracked (snd (revert_row pr st)) = ix_announced_tracked (snd st)"
  "bm_get (ix_records (snd (revert_row pr st))) q =
     (if q = fst pr then pd_announced (snd pr) else bm_get (ix_records (snd st)) q)"
  by (auto simp: revert_row_def Let_def split: prod.splits option.splits)

lemma revert_rows_state:
  fixes rows :: "(rel_path \<times> pending) list"
  defines "final st \<equiv> snd (foldl (\<lambda>st pr. revert_row pr st) st rows)"
  shows "ix_pending (final st) = ix_pending (snd st)" "ix_seq (final st) = ix_seq (snd st)"
    "ix_own (final st) = ix_own (snd st)" "ix_host (final st) = ix_host (snd st)"
    "ix_peer_seq (final st) = ix_peer_seq (snd st)"
    "ix_announced_seq (final st) = ix_announced_seq (snd st)"
    "ix_announced_tracked (final st) = ix_announced_tracked (snd st)"
    "distinct (map fst rows) \<Longrightarrow> bm_get (ix_records (final st)) q =
       (case map_of rows q of Some row \<Rightarrow> pd_announced row | None \<Rightarrow> bm_get (ix_records (snd st)) q)"
  unfolding final_def
proof (induction rows arbitrary: st)
  case (Cons r rows)
  { case 8
    then have "map_of rows (fst r) = None" by (simp add: map_of_eq_None_iff)
    with Cons.IH(8) [of "revert_row r st"] 8 show ?case
      by (auto simp: revert_row_state(8) split: option.splits) }
qed (simp_all add: revert_row_state)

lemma revert_pending_state [index_fields]:
  "ix_pending (snd (revert_pending ix)) = bm_empty"
  "ix_seq (snd (revert_pending ix)) = ix_seq ix"
  "ix_own (snd (revert_pending ix)) = ix_own ix"
  "ix_host (snd (revert_pending ix)) = ix_host ix"
  "ix_peer_seq (snd (revert_pending ix)) = ix_peer_seq ix"
  "ix_announced_seq (snd (revert_pending ix)) = ix_announced_seq ix"
  "ix_announced_tracked (snd (revert_pending ix)) = ix_announced_tracked ix"
  by (simp_all add: revert_pending_def revert_rows_state)

lemma revert_pending_get [simp]:
  "bm_get (ix_records (snd (revert_pending ix))) p = announced_view ix p"
  using revert_rows_state(8) [OF bm.entries_distinct [of "ix_pending ix"]]
  by (simp add: revert_pending_def announced_view_def bm_get_def [of "ix_pending ix"]
      split: option.splits)

lemma revert_pending_result:
  "fst (revert_pending ix) = map (\<lambda>(p, row). \<lparr>rv_path = p,
     rv_current = map_option ir_entry (bm_get (ix_records ix) p),
     rv_restored = pd_announced row\<rparr>) (bm_entries (ix_pending ix))"
  using arg_cong [where f = fst, OF revert_fold [OF bm.entries_distinct [of "ix_pending ix"],
    of "[]" "ix\<lparr>ix_pending := bm_empty\<rparr>"]]
  by (simp add: revert_pending_def del: foldl_append)

lemma revert_pending_held: "held (snd (revert_pending ix)) p r \<longleftrightarrow> announced_view ix p = Some r"
  by (simp add: held_def index_fields)

lemma revert_pending_ok [ok_intros]:
  assumes "ix_ok ix"
  shows "ix_ok (snd (revert_pending ix))"
  unfolding ix_ok_def
  using ix_okD(1-5) [OF assms] held_announced
  by (simp add: revert_pending_held index_fields) blast

section \<open>Adopting, announcing, receiving\<close>

lemma adopt_cases:
  assumes "adopt e ix = (res, ix')"
  obtains "res = None" "ix' = ix" "\<exists>r. bm_get (ix_records ix) (e_path e) = Some r \<and>
      \<not> version_le (e_version (ir_entry r)) (e_version e)"
  | "res = Some \<lparr>ir_entry = e, ir_seq = Suc (ix_seq ix)\<rparr>"
    "ix_records ix' = bm_insert (e_path e) \<lparr>ir_entry = e, ir_seq = Suc (ix_seq ix)\<rparr> (ix_records ix)"
    "ix_pending ix' = bm_remove (e_path e) (ix_pending ix)" "ix_seq ix' = Suc (ix_seq ix)"
    "ix_own ix' = ix_own ix" "ix_host ix' = ix_host ix" "ix_announced_seq ix' = ix_announced_seq ix"
    "ix_peer_seq ix' = ix_peer_seq ix"
    "\<forall>r. bm_get (ix_records ix) (e_path e) = Some r \<longrightarrow>
       version_le (e_version (ir_entry r)) (e_version e)"
  using assms
  by (auto simp: adopt_def Let_def is_none_or_iff dominates_or_equals_iff split: if_splits)

lemma adopt_ok [ok_intros]:
  assumes ok: "ix_ok ix"
  shows "ix_ok (snd (adopt e ix))"
proof -
  obtain res ix' where a: "adopt e ix = (res, ix')" by fastforce
  from a show ?thesis
  proof (cases rule: adopt_cases)
    case 2
    show ?thesis unfolding a snd_conv
    proof (rule ix_ok_extend [OF ok, where e = e])
      fix p r assume "held ix' p r"
      then show "held ix p r \<or> p = e_path e \<and> r = \<lparr>ir_entry = e, ir_seq = Suc (ix_seq ix)\<rparr>"
        by (auto simp: held_def 2 split: if_splits)
    next
      fix p row assume "bm_get (ix_pending ix') p = Some row"
      then show "\<exists>r. bm_get (ix_records ix') p = Some r \<and> ix_announced_seq ix < ir_seq r \<and>
          is_none_or (\<lambda>k. ir_seq k < ir_seq r) (pd_announced row)"
        using ix_okD(6) [OF ok] by (simp add: 2 split: if_splits)
    qed (simp_all add: 2)
  qed (simp add: a ok)
qed

lemma mark_announced_ok [ok_intros]: "ix_ok ix \<Longrightarrow> ix_ok (mark_announced ix)"
  by (auto simp: ix_ok_def mark_announced_def held_def)

lemma received_range_ok [ok_intros]: "ix_ok ix \<Longrightarrow> ix_ok (received_range p lo hi ix)"
  unfolding ix_ok_def received_range_def held_def by simp

lemma pending_changes_ok [ok_intros]: "ix_ok ix \<Longrightarrow> ix_ok (snd (pending_changes ix))"
  unfolding ix_ok_def pending_changes_def held_def by (simp add: changed_take_def)

lemma index_new_ok [ok_intros]: "ix_ok (index_new own host)"
  by (simp add: ix_ok_def index_new_def held_def)

inductive ix_step :: "index \<Rightarrow> index \<Rightarrow> bool" where
  local_change: "local_step ix ix' \<Longrightarrow> ix_step ix ix'"
| adopted: "adopt e ix = (res, ix') \<Longrightarrow> ix_step ix ix'"
| announced: "ix_step ix (mark_announced ix)"
| received: "ix_step ix (received_range peer lo hi ix)"
| drained: "pending_changes ix = (res, ix') \<Longrightarrow> ix_step ix ix'"
| reverted: "revert_pending ix = (res, ix') \<Longrightarrow> ix_step ix ix'"

lemma ix_step_ok:
  assumes "ix_step ix ix'" and "ix_ok ix"
  shows "ix_ok ix'"
  using assms(1)
proof cases
  case (adopted e res)
  then show ?thesis using adopt_ok [OF assms(2), of e] by simp
next
  case (drained res)
  then show ?thesis using pending_changes_ok [OF assms(2)] by simp
next
  case (reverted res)
  then show ?thesis using revert_pending_ok [OF assms(2)] by simp
qed (auto intro: assms(2) ok_intros local_step_ok)

end
