(* ===== verification/Samples.thy ===== *)
theory Samples
  imports Indexes
begin

text \<open>
  The concrete values the witnesses use: two machines, a path, what a scan sees there, and the index
  after it.
\<close>

definition here :: node_id where "here = NodeId [1]"
definition there :: node_id where "there = NodeId [2]"
definition host0 :: host_name where "host0 = HostName ''h''"
definition path_a :: rel_path where "path_a = RelPath ''a''"

definition seen :: "byte \<Rightarrow> observed" where
  "seen b = \<lparr>ob_kind = File, ob_size = 3, ob_mtime = 5, ob_exec = False, ob_hash = ContentHash [b]\<rparr>"

definition ix0 :: index where "ix0 = index_new here host0"

definition ix1 :: index where "ix1 = snd (observe path_a (seen 7) ix0)"

definition entry_of :: "node_id \<Rightarrow> byte \<Rightarrow> int \<Rightarrow> entry" where
  "entry_of n b stamp =
     \<lparr>e_path = path_a, e_kind = File, e_size = 3, e_mtime = 5, e_stamp = stamp, e_exec = False,
      e_hash = ContentHash [b], e_prev_hash = EMPTY, e_version = incremented version_empty n,
      e_deleted = False, e_by = n, e_host = host0\<rparr>"

lemmas [eval_simps] = here_def there_def host0_def path_a_def seen_def ix0_def ix1_def entry_of_def

lemma entry_of_fields [simp]:
  "e_path (entry_of n b s) = path_a" "e_stamp (entry_of n b s) = s" "e_by (entry_of n b s) = n"
  "e_kind (entry_of n b s) = File" "e_deleted (entry_of n b s) = False" "e_size (entry_of n b s) = 3"
  "e_version (entry_of n b s) = incremented version_empty n"
  by (simp_all add: entry_of_def)

lemma ix1_record: "bm_get (ix_records ix1) path_a = Some \<lparr>ir_entry = entry_of here 7 5, ir_seq = 1\<rparr>"
  by code_simp

end
