(* ===== verification/IndexViews.thy ===== *)
theory IndexViews
  imports IndexLaws Samples
begin

text \<open>
  The properties of the index: what its operations promise on every branch, what catch-up sends, and
  the watermarks as the set of sequence numbers received. The invariant and the shape of the
  operations are in \<open>IndexLaws\<close>.
\<close>

lemma ix1_step: "local_step ix0 ix1"
  unfolding ix1_def by (rule local_step.observe) (rule prod.collapse [symmetric])

lemma ix0_ok: "ix_ok ix0"
  by (simp add: ix0_def index_new_ok)

lemma ix1_run: "local_step\<^sup>*\<^sup>* ix0 ix1"
  using ix1_step by (rule r_into_rtranclp)

lemma ix1_ok: "ix_ok ix1"
  by (rule local_step_ok [OF ix1_step ix0_ok])

section \<open>Catch-up sends what peers have been told, in order\<close>

lemma distinct_map_filter:
  assumes "distinct xs" and "\<And>x y a b. x \<in> set xs \<Longrightarrow> y \<in> set xs \<Longrightarrow> f x = Some a \<Longrightarrow> f y = Some b \<Longrightarrow>
    g a = g b \<Longrightarrow> x = y"
  shows "distinct (map g (List.map_filter f xs))"
  using assms
proof (induction xs)
  case (Cons x xs)
  then have "distinct (map g (List.map_filter f xs))" by simp
  moreover have "g a \<noteq> g b" if "f x = Some a" "b \<in> set (List.map_filter f xs)" for a b
  proof -
    from that(2) obtain y where "y \<in> set xs" "f y = Some b" by (auto simp: List.map_filter_def)
    with Cons.prems that(1) show ?thesis by (metis distinct.simps(2) list.set_intros)
  qed
  ultimately show ?case by (auto simp: List.map_filter_simps split: option.splits)
qed (simp add: List.map_filter_simps)

lemma distinct_entries: "distinct (bm_entries m)"
  using bm.entries_distinct [of m] by (simp add: distinct_map)

lemma entries_eqI:
  "x \<in> set (bm_entries m) \<Longrightarrow> y \<in> set (bm_entries m) \<Longrightarrow> fst x = fst y \<Longrightarrow> x = y"
  by (cases x; cases y) (simp add: in_bm_entries)

lemma distinct_map_sort_key: "distinct (map f (sort_key f xs)) \<longleftrightarrow> distinct (map f xs)"
  by (simp add: distinct_map)

lemma map_filter_cong:
  "(\<And>x. x \<in> set xs \<Longrightarrow> f x = g x) \<Longrightarrow> List.map_filter f xs = List.map_filter g xs"
  by (induction xs) (simp_all add: List.map_filter_simps split: option.splits)

lemma in_map_filter: "y \<in> set (List.map_filter f xs) \<longleftrightarrow> (\<exists>x \<in> set xs. f x = Some y)"
  by (force simp: List.map_filter_def)

lemma announced_view_record:
  assumes "ix_ok ix" and "announced_view ix p = Some r"
  shows "\<exists>s. bm_get (ix_records ix) p = Some s"
  using assms ix_okD(6) [OF assms(1)] by (fastforce simp: announced_view_def split: option.splits)

lemma announced_since_props:
  assumes ok: "ix_ok ix"
  shows "set (announced_since ix after) =
      {r. (\<exists>p. announced_view ix p = Some r) \<and> after < ir_seq r \<and> ir_seq r \<le> ix_announced_seq ix}"
    and "sorted_wrt (<) (map ir_seq (announced_since ix after))"
proof -
  define Q where "Q = (\<lambda>r :: index_record. ir_seq r \<le> ix_announced_seq ix)"
  define f where "f = (\<lambda>(p, r :: index_record). opt_filter Q (announced_view ix p))"
  define out where "out = List.map_filter f (bm_entries (ix_records ix))"
  have "List.map_filter (\<lambda>(path, record). (case bm_get (ix_pending ix) path of
        Some kept \<Rightarrow> opt_filter Q (pd_announced kept)
      | None \<Rightarrow> opt_filter Q (Some record))) (bm_entries (ix_records ix)) = out"
    unfolding out_def
    by (rule map_filter_cong)
      (auto simp: f_def announced_view_def in_bm_entries split: option.splits)
  then have as: "announced_since ix after = sort_key ir_seq (filter (\<lambda>r. after < ir_seq r) out)"
    unfolding announced_since_def Let_def Q_def [symmetric] by simp
  have "set out = {r. (\<exists>p. announced_view ix p = Some r) \<and> Q r}"
    using announced_view_record [OF ok]
    by (auto simp: out_def f_def in_map_filter in_bm_entries Bex_def) blast
  then show "set (announced_since ix after) =
      {r. (\<exists>p. announced_view ix p = Some r) \<and> after < ir_seq r \<and> ir_seq r \<le> ix_announced_seq ix}"
    by (auto simp: as Q_def)
  have "distinct (map ir_seq out)"
    unfolding out_def
  proof (rule distinct_map_filter)
    show "distinct (bm_entries (ix_records ix))"
      by (rule distinct_entries)
    fix x y a b assume *: "x \<in> set (bm_entries (ix_records ix))" "y \<in> set (bm_entries (ix_records ix))"
      "f x = Some a" "f y = Some b" "ir_seq a = ir_seq b"
    then have "held ix (fst x) a" "held ix (fst y) b"
      by (auto simp: f_def intro: held_announced split: prod.splits)
    with * ix_okD(2,5) [OF ok] have "fst x = fst y" by metis
    then show "x = y" by (rule entries_eqI [OF *(1,2)])
  qed
  then show "sorted_wrt (<) (map ir_seq (announced_since ix after))"
    by (simp add: as strict_sorted_iff distinct_map inj_on_def)
qed

lemma sorted_by_seq_unique:
  assumes "sorted_wrt (<) (map ir_seq xs)" "sorted_wrt (<) (map ir_seq ys)" "set xs = set ys"
  shows "xs = (ys :: index_record list)"
proof -
  have "inj_on ir_seq (set xs \<union> set ys)"
    using assms by (simp add: strict_sorted_iff distinct_map)
  then show ?thesis
    using assms by (intro map_sorted_distinct_set_unique [of ir_seq]) (auto simp: strict_sorted_iff)
qed

text \<open>Catch-up sends exactly the records peers have been told of and not yet acknowledged, each
  once, in increasing \<open>seq\<close> order; for a path with an unannounced change that is the record the
  pending set keeps.\<close>

theorem catch_up_exact:
  assumes "ix_ok ix"
  shows "set (announced_since ix after) =
      {r. (\<exists>p. announced_view ix p = Some r) \<and> after < ir_seq r \<and> ir_seq r \<le> ix_announced_seq ix} \<and>
    sorted_wrt (<) (map ir_seq (announced_since ix after))"
  using announced_since_props [OF assms] by blast

lemma catch_up_exact_witness:
  "set (announced_since (mark_announced ix1) 0) = {\<lparr>ir_entry = entry_of here 7 5, ir_seq = 1\<rparr>} \<and>
   sorted_wrt (<) (map ir_seq (announced_since (mark_announced ix1) 0))"
proof
  show "set (announced_since (mark_announced ix1) 0) = {\<lparr>ir_entry = entry_of here 7 5, ir_seq = 1\<rparr>}"
    by code_simp
  show "sorted_wrt (<) (map ir_seq (announced_since (mark_announced ix1) 0))"
    using catch_up_exact [OF mark_announced_ok [OF ix1_ok]] by blast
qed

text \<open>Nothing a machine changes locally leaks before it is announced: a run of local changes of
  any kind leaves what catch-up would send to any peer, at any acknowledged position, unchanged.\<close>

theorem local_changes_do_not_leak:
  assumes "local_step\<^sup>*\<^sup>* ix ix'" and "ix_ok ix"
  shows "announced_since ix' after = announced_since ix after"
proof (rule sorted_by_seq_unique)
  have *: "ix_ok ix'" "announced_view ix' = announced_view ix"
      "ix_announced_seq ix' = ix_announced_seq ix"
    using local_run [OF assms] by auto
  then show "set (announced_since ix' after) = set (announced_since ix after)"
    by (simp add: announced_since_props [OF assms(2)] announced_since_props [OF *(1)])
qed (simp_all add: announced_since_props assms local_run [OF assms])

lemma local_changes_do_not_leak_witness: "announced_since ix1 0 = announced_since ix0 0"
  by (rule local_changes_do_not_leak [OF ix1_run ix0_ok])

text \<open>C18: \<open>revert\<close> after any run of local changes on an index with nothing pending restores every
  record exactly, \<open>seq\<close> included, and leaves nothing pending.\<close>

theorem revert_restores:
  assumes "local_step\<^sup>*\<^sup>* ix ix'" and "ix_ok ix" and "ix_pending ix = bm_empty"
  shows "ix_records (snd (revert_pending ix')) = ix_records ix \<and>
    ix_pending (snd (revert_pending ix')) = bm_empty"
proof -
  have "announced_view ix = bm_get (ix_records ix)"
    by (simp add: fun_eq_iff announced_view_def assms(3))
  then show ?thesis
    using local_run [OF assms(1,2)] by (auto simp: index_fields intro: bm_eqI)
qed

lemma revert_restores_witness:
  "ix_records ix1 \<noteq> ix_records ix0 \<and> ix_records (snd (revert_pending ix1)) = ix_records ix0"
proof
  show "ix_records ix1 \<noteq> ix_records ix0" by code_simp
  have "ix_pending ix0 = bm_empty" by code_simp
  then show "ix_records (snd (revert_pending ix1)) = ix_records ix0"
    using revert_restores [OF ix1_run ix0_ok] by blast
qed

text \<open>\<open>revert\<close> reports every pending path once, in path order, with the entry that was there
  and the record put back, and after it nothing is unannounced that was not before the changes.\<close>

theorem revert_report:
  assumes "ix_ok ix"
  shows "map rv_path (fst (revert_pending ix)) = bm_keys (ix_pending ix) \<and>
    (\<forall>rv. rv \<in> set (fst (revert_pending ix)) \<longrightarrow>
       (\<exists>r. bm_get (ix_records ix) (rv_path rv) = Some r \<and> rv_current rv = Some (ir_entry r)) \<and>
       rv_restored rv = announced_view ix (rv_path rv) \<and>
       bm_get (ix_records (snd (revert_pending ix))) (rv_path rv) = rv_restored rv)"
  using ix_okD(6) [OF assms]
  by (fastforce simp: revert_pending_result bm_keys_def announced_view_def in_bm_entries
      split: option.splits)

lemma revert_report_witness: "map rv_path (fst (revert_pending ix1)) = [path_a]"
proof -
  have "bm_keys (ix_pending ix1) = [path_a]" by code_simp
  then show ?thesis using revert_report [OF ix1_ok] by simp
qed

text \<open>Forming a batch announces everything: afterwards catch-up from any acknowledged position
  sends every record written after it, nothing is left unannounced, and nothing is pending.\<close>

theorem announcing_covers_all:
  assumes "ix_ok ix"
  shows "set (announced_since (mark_announced ix) after) =
      {r. (\<exists>p. bm_get (ix_records ix) p = Some r) \<and> after < ir_seq r} \<and>
    unannounced (mark_announced ix) = [] \<and> ix_pending_list (mark_announced ix) = []"
proof -
  have fields: "ix_records (mark_announced ix) = ix_records ix"
      "ix_pending (mark_announced ix) = bm_empty" "ix_announced_seq (mark_announced ix) = ix_seq ix"
    by (simp_all add: mark_announced_def)
  have seqs: "bm_get (ix_records ix) p = Some r \<Longrightarrow> ir_seq r \<le> ix_seq ix" for p r
    using ix_okD(4) [OF assms] held_record by blast
  then have "set (announced_since (mark_announced ix) after) =
      {r. (\<exists>p. bm_get (ix_records ix) p = Some r) \<and> after < ir_seq r}"
    by (auto simp: announced_since_props [OF mark_announced_ok [OF assms]] announced_view_def fields)
  moreover have "filter (\<lambda>(_, r). ix_seq ix < ir_seq r) (bm_entries (ix_records ix)) = []"
    using seqs by (fastforce simp: filter_empty_conv in_bm_entries not_less)
  ultimately show ?thesis
    by (simp add: unannounced_def ix_pending_list_def fields List.map_filter_simps)
qed

lemma announcing_covers_all_witness:
  "unannounced ix1 \<noteq> [] \<and> unannounced (mark_announced ix1) = []"
proof
  show "unannounced ix1 \<noteq> []" by code_simp
  show "unannounced (mark_announced ix1) = []" using announcing_covers_all [OF ix1_ok] by blast
qed

lemma unannounced_props:
  assumes ok: "ix_ok ix"
  shows "set (unannounced ix) =
      {(r, k). \<exists>p. bm_get (ix_records ix) p = Some r \<and> ix_announced_seq ix < ir_seq r \<and>
         k = (if is_some_and pd_exempt (bm_get (ix_pending ix) p) then None else pending_kind ix p)}"
    and "sorted_wrt (<) (map (ir_seq \<circ> fst) (unannounced ix))"
proof -
  let ?k = "\<lambda>p. if is_some_and pd_exempt (bm_get (ix_pending ix) p) then None else pending_kind ix p"
  let ?f = "\<lambda>(p, r). (r, ?k p)"
  let ?xs = "filter (\<lambda>(_, r). ix_announced_seq ix < ir_seq r) (bm_entries (ix_records ix))"
  have u: "unannounced ix = sort_key (\<lambda>(r, _). ir_seq r) (map ?f ?xs)"
    by (simp add: unannounced_def)
  show "set (unannounced ix) =
      {(r, k). \<exists>p. bm_get (ix_records ix) p = Some r \<and> ix_announced_seq ix < ir_seq r \<and> k = ?k p}"
    unfolding u by (force simp: in_bm_entries)
  have key: "ir_seq \<circ> fst = (\<lambda>(r, _). ir_seq r)" by (auto simp: fun_eq_iff)
  have "inj_on (\<lambda>x. ir_seq (snd x)) (set ?xs)"
  proof (rule inj_onI)
    fix x y assume *: "x \<in> set ?xs" "y \<in> set ?xs" "ir_seq (snd x) = ir_seq (snd y)"
    then have held: "held ix (fst x) (snd x)" "held ix (fst y) (snd y)"
      by (auto simp: in_bm_entries intro: held_record)
    with * ix_okD(5) [OF ok] have "snd x = snd y" by blast
    moreover have "fst x = fst y"
      using ix_okD(2) [OF ok held(1)] ix_okD(2) [OF ok held(2)] \<open>snd x = snd y\<close> by simp
    ultimately show "x = y" by (cases x; cases y) simp
  qed
  moreover have "distinct ?xs"
    using distinct_entries by (rule distinct_filter)
  ultimately have "distinct (map (\<lambda>(r, _). ir_seq r) (map ?f ?xs))"
    by (simp add: distinct_map split_def comp_def)
  then have "distinct (map (\<lambda>(r, _). ir_seq r) (unannounced ix))"
    unfolding u distinct_map_sort_key .
  then show "sorted_wrt (<) (map (ir_seq \<circ> fst) (unannounced ix))"
    unfolding key strict_sorted_iff by (simp add: u)
qed

text \<open>What the next batch carries: every record written since the last batch, once, in \<open>seq\<close>
  order, with the coalesced kind of the change for a local change and none for an adopted record or
  for a tombstone exempt from the brake.\<close>

theorem next_batch_records:
  assumes "ix_ok ix"
  shows "set (unannounced ix) =
      {(r, k). \<exists>p. bm_get (ix_records ix) p = Some r \<and> ix_announced_seq ix < ir_seq r \<and>
         k = (case bm_get (ix_pending ix) p of None \<Rightarrow> None
              | Some row \<Rightarrow> if pd_exempt row then None else
                 Some (change_between (is_live_record (announced_view ix p))
                                      (\<not> e_deleted (ir_entry r))))} \<and>
    sorted_wrt (<) (map (ir_seq \<circ> fst) (unannounced ix))"
proof -
  have "(if is_some_and pd_exempt (bm_get (ix_pending ix) p) then None else pending_kind ix p) =
    (case bm_get (ix_pending ix) p of None \<Rightarrow> None
     | Some row \<Rightarrow> if pd_exempt row then None else
        Some (change_between (is_live_record (announced_view ix p)) (\<not> e_deleted (ir_entry r))))"
    if "bm_get (ix_records ix) p = Some r" for p r
    using that
    by (auto simp: is_some_and_iff pending_kind_def announced_view_def split: option.splits)
  then show ?thesis
    unfolding unannounced_props(1) [OF assms] using unannounced_props(2) [OF assms]
    by (auto simp: set_eq_iff) metis+
qed

lemma next_batch_records_witness:
  "unannounced ix1 = [(\<lparr>ir_entry = entry_of here 7 5, ir_seq = 1\<rparr>, Some Add)] \<and>
   sorted_wrt (<) (map (ir_seq \<circ> fst) (unannounced ix1))"
proof
  show "unannounced ix1 = [(\<lparr>ir_entry = entry_of here 7 5, ir_seq = 1\<rparr>, Some Add)]" by code_simp
  show "sorted_wrt (<) (map (ir_seq \<circ> fst) (unannounced ix1))"
    using next_batch_records [OF ix1_ok] by blast
qed

section \<open>Local changes\<close>

lemma writes_at_record:
  assumes "writes_at p ix ix'"
  obtains e v where "bm_get (ix_records ix') p = Some \<lparr>ir_entry = e, ir_seq = Suc (ix_seq ix)\<rparr>"
    and "e_path e = p" "e_by e = ix_own ix" "e_host e = ix_host ix"
    and "e_prev_hash e = announced_hash ix p" "e_version e = incremented v (ix_own ix)"
    and "version_le (previous_version (bm_get (ix_records ix) p)) v"
    and "\<And>q. q \<noteq> p \<Longrightarrow> bm_get (ix_records ix') q = bm_get (ix_records ix) q"
proof -
  from assms obtain e v where "ix' = snd (ix_write e ix)" "e_path e = p" "e_by e = ix_own ix"
      "e_host e = ix_host ix" "e_prev_hash e = announced_hash ix p"
      "e_version e = incremented v (ix_own ix)"
      "version_le (previous_version (bm_get (ix_records ix) p)) v"
    unfolding writes_at_def by blast
  then show thesis using that [of e v] by simp
qed

text \<open>C20: Every local change, of whatever kind, either leaves the records alone or replaces the record
  of one path by one signed by this machine, numbered next, whose \<open>prev_hash\<close> is what peers last
  saw; its version dominates the replaced one unless this machine's counter is saturated, and every
  other path keeps its record.\<close>

theorem local_change_contract:
  assumes "local_step ix ix'" and "ix_ok ix"
  shows "ix_records ix' = ix_records ix \<or>
    (\<exists>p r. bm_get (ix_records ix') p = Some r \<and> ir_seq r = Suc (ix_seq ix) \<and>
       ix_seq ix' = Suc (ix_seq ix) \<and> e_path (ir_entry r) = p \<and> e_by (ir_entry r) = ix_own ix \<and>
       e_prev_hash (ir_entry r) = announced_hash ix p \<and>
       (let old = previous_version (bm_get (ix_records ix) p) in
          dominates_or_equals (e_version (ir_entry r)) old \<and>
          (counter old (ix_own ix) \<noteq> - 1 \<longrightarrow> dominates (e_version (ir_entry r)) old)) \<and>
       (\<forall>q. q \<noteq> p \<longrightarrow> bm_get (ix_records ix') q = bm_get (ix_records ix) q))"
proof -
  have version: "dominates_or_equals (incremented v n) old \<and>
      (counter old n \<noteq> - 1 \<longrightarrow> dominates (incremented v n) old)" if "version_le old v" for v old n
  proof -
    have le: "version_le old (incremented v n)"
      using that incremented_ge version_le_trans by blast
    have "incremented v n \<noteq> old" if "counter old n \<noteq> - 1"
    proof
      assume "incremented v n = old"
      then have c: "counter old n = u64_sat_inc (counter v n)" by auto
      have "counter old n \<le> counter v n" using \<open>version_le old v\<close> by (simp add: version_le_def)
      then show False using c that u64_sat_inc_gt [of "counter v n"]
        by (metis not_le u64_sat_inc_def)
    qed
    then show ?thesis using le by (simp add: relation_simps)
  qed
  consider "ix_records ix' = ix_records ix"
    | p ix1 where "writes_at p ix ix1" "ix_records ix' = ix_records ix1" "ix_seq ix' = ix_seq ix1"
    using local_step_shape [OF assms] by (auto simp: index_fields)
  then show ?thesis
  proof cases
    case 2
    from 2(1) show ?thesis
    proof (rule writes_at_record)
      fix e v
      assume *: "bm_get (ix_records ix1) p = Some \<lparr>ir_entry = e, ir_seq = Suc (ix_seq ix)\<rparr>"
        "e_path e = p" "e_by e = ix_own ix" "e_host e = ix_host ix"
        "e_prev_hash e = announced_hash ix p" "e_version e = incremented v (ix_own ix)"
        "version_le (previous_version (bm_get (ix_records ix) p)) v"
        "\<And>q. q \<noteq> p \<Longrightarrow> bm_get (ix_records ix1) q = bm_get (ix_records ix) q"
      show ?thesis
        using * version [OF *(7)] 2(2,3) writes_at_fields(3) [OF 2(1)]
        by (intro disjI2 exI [of _ p] exI [of _ "\<lparr>ir_entry = e, ir_seq = Suc (ix_seq ix)\<rparr>"])
          (simp add: Let_def)
    qed
  qed blast
qed

lemma local_change_contract_witness:
  "\<exists>p r. bm_get (ix_records ix1) p = Some r \<and> ir_seq r = Suc (ix_seq ix0)"
proof -
  have "ix_records ix1 \<noteq> ix_records ix0" by code_simp
  then show ?thesis using local_change_contract [OF ix1_step ix0_ok] by blast
qed

lemma observed_of_entry:
  "entry_observed \<lparr>e_path = p, e_kind = ob_kind ob, e_size = ob_size ob, e_mtime = ob_mtime ob,
     e_stamp = st, e_exec = ob_exec ob, e_hash = ob_hash ob, e_prev_hash = ph, e_version = v,
     e_deleted = d, e_by = n, e_host = h\<rparr> = ob"
  by (simp add: entry_observed_def)

text \<open>A scan report is recorded exactly if it differs from the live record, and what is recorded
  is what was seen (normalised), live; so reporting it again, right after, changes nothing.\<close>

theorem observe_records_what_was_seen:
  assumes "observe p ob ix = (res, ix')"
  shows "(res = None \<longleftrightarrow> map_option (entry_observed \<circ> ir_entry) (ix_live ix p) = Some (normalised ob)) \<and>
    (res = None \<longrightarrow> ix' = ix) \<and>
    map_option (entry_observed \<circ> ir_entry) (ix_live ix' p) = Some (normalised ob) \<and>
    observe p ob ix' = (None, ix')"
proof -
  have none: "observe p ob i = (None, i)"
    if "map_option (entry_observed \<circ> ir_entry) (ix_live i p) = Some (normalised ob)" for i
    using that by (auto simp: observe_def Let_def ix_live_def is_some_and_iff)
  show ?thesis
  proof (cases "map_option (entry_observed \<circ> ir_entry) (ix_live ix p) = Some (normalised ob)")
    case True
    then show ?thesis using none [OF True] assms by auto
  next
    case False
    have live: "map_option (entry_observed \<circ> ir_entry) (ix_live ix' p) = Some (normalised ob)"
      and "res \<noteq> None"
      using False assms
      by (auto simp: observe_def Let_def ix_live_def is_some_and_iff split_beta observed_of_entry
          simp del: normalised_kind split: if_splits)
    with False none [OF live] show ?thesis by auto
  qed
qed

lemma observe_records_what_was_seen_witness: "observe path_a (seen 7) ix1 = (None, ix1)"
  using observe_records_what_was_seen [of path_a "seen 7" ix0 "fst (observe path_a (seen 7) ix0)" ix1]
  by (simp add: ix1_def)

text \<open>A deletion is recorded only where something live was, as a tombstone of the same kind and
  with the empty hash, and reporting the absence again changes nothing.\<close>

theorem observe_absent_records_deletion:
  assumes "observe_absent p t ix = (res, ix')"
  shows "(res = None \<longleftrightarrow> ix_live ix p = None) \<and> (res = None \<longrightarrow> ix' = ix) \<and>
    (\<forall>c. res = Some c \<longrightarrow>
       (\<exists>r. ix_live ix p = Some r \<and> bm_get (ix_records ix') p = Some (lc_record c) \<and>
          e_deleted (ir_entry (lc_record c)) \<and> lc_kind c = Delete \<and>
          e_kind (ir_entry (lc_record c)) = e_kind (ir_entry r) \<and>
          e_hash (ir_entry (lc_record c)) = EMPTY \<and> e_mtime (ir_entry (lc_record c)) = t)) \<and>
    ix_live ix' p = None \<and> observe_absent p t ix' = (None, ix')"
proof (cases "ix_live ix p")
  case None
  with assms show ?thesis by (auto simp: observe_absent_def)
next
  case (Some r)
  obtain c where c: "res = Some c" "ix' = snd (ix_write (ir_entry (lc_record c)) ix)"
    and e: "c = fst (ix_write (ir_entry (lc_record c)) ix)"
      "ir_entry (lc_record c) = \<lparr>e_path = p, e_kind = e_kind (ir_entry r), e_size = 0, e_mtime = t,
             e_stamp = i64_add (e_stamp (ir_entry r)) 1, e_exec = False, e_hash = EMPTY,
             e_prev_hash = announced_hash ix p,
             e_version = incremented (e_version (ir_entry r)) (ix_own ix),
             e_deleted = True, e_by = ix_own ix, e_host = ix_host ix\<rparr>"
    using assms Some by (auto simp: observe_absent_def Let_def split_beta ix_write_record)
  have "lc_kind (fst (ix_write e i)) = change_between b (\<not> e_deleted e) \<Longrightarrow> e_deleted e \<Longrightarrow>
      lc_kind (fst (ix_write e i)) = Delete" for e i b
    by (simp add: change_between_def split: bool.splits)
  moreover have "\<exists>b. lc_kind (fst (ix_write e i)) = change_between b (\<not> e_deleted e)" for e i
    by (auto simp: ix_write_def Let_def)
  ultimately have kind: "e_deleted e \<Longrightarrow> lc_kind (fst (ix_write e i)) = Delete" for e i
    by blast
  have rec: "bm_get (ix_records ix') p = Some (lc_record c)"
    unfolding c(2) using e by (metis entry.select_convs(1) ix_write_get ix_write_record)
  have "e_deleted (ir_entry (lc_record c))" by (simp add: e(2))
  then have "ix_live ix' p = None" "lc_kind c = Delete"
    using kind e(1) by (auto simp: ix_live_def rec) metis
  then show ?thesis
    using Some c(1) rec by (auto simp: e(2) observe_absent_def)
qed

lemma observe_absent_records_deletion_witness:
  "ix_live ix1 path_a \<noteq> None \<and> ix_live (snd (observe_absent path_a 9 ix1)) path_a = None"
proof
  show "ix_live ix1 path_a \<noteq> None" by code_simp
  show "ix_live (snd (observe_absent path_a 9 ix1)) path_a = None"
    using observe_absent_records_deletion [of path_a 9 ix1, OF prod.collapse [symmetric]] by blast
qed

text \<open>The stamps.\<close>

lemma stamp_step:
  assumes "is_i64 s" "s < i64_max"
  shows "i64_add s 1 = s + 1"
  using assms by (intro i64_add_exact) (auto simp: is_i64_def)

text \<open>The stamp of a path rises with every local change by the scanner, as long as the replaced
  stamp is below the largest i64; a content change of a file is stamped no earlier than its
  modification time.\<close>

theorem stamps_rise:
  assumes "bm_get (ix_records ix) p = Some r"
    and "is_i64 (e_stamp (ir_entry r))" and "e_stamp (ir_entry r) < i64_max"
  shows "(observe p ob ix = (Some c, ix') \<longrightarrow>
       e_stamp (ir_entry r) < e_stamp (ir_entry (lc_record c)) \<and>
       (ob_kind ob = File \<and>
          e_hash (ir_entry (lc_record c)) \<noteq> e_prev_hash (ir_entry (lc_record c)) \<longrightarrow>
        ob_mtime ob \<le> e_stamp (ir_entry (lc_record c)))) \<and>
    (observe_absent p t ix = (Some c, ix') \<longrightarrow>
       e_stamp (ir_entry r) < e_stamp (ir_entry (lc_record c)))"
proof -
  have "e_stamp (ir_entry r) < stamp_for (Some r) k m ch" for k m ch
    using stamp_step [OF assms(2,3)] by (auto simp: stamp_for_def)
  moreover have "m \<le> stamp_for (Some r) File m True" for m
    by (simp add: stamp_for_def)
  ultimately show ?thesis
    using assms(1) stamp_step [OF assms(2,3)]
    by (auto simp: observe_def observe_absent_def Let_def split_beta ix_write_record ix_live_def
        normalised_def split: if_splits option.splits)
qed

lemma stamps_rise_witness:
  "5 < e_stamp (ir_entry (lc_record (the (fst (observe_absent path_a 9 ix1)))))"
proof -
  have "observe_absent path_a 9 ix1 =
      (Some (the (fst (observe_absent path_a 9 ix1))), snd (observe_absent path_a 9 ix1))"
    using ix1_record by (simp add: observe_absent_def ix_live_def entry_of_def split_beta Let_def)
  then show ?thesis
    using stamps_rise [OF ix1_record, where t = 9] by (simp add: entry_of_def is_i64_def i64_max_def i64_min_def)
qed

text \<open>C34: At the largest i64 the increment of the stamp wraps: deleting an entry stamped there gives a
  tombstone with the smallest stamp there is.\<close>

theorem stamp_wraps:
  assumes "ix_live ix p = Some r" and "e_stamp (ir_entry r) = i64_max"
  shows "\<exists>c ix'. observe_absent p t ix = (Some c, ix') \<and> e_stamp (ir_entry (lc_record c)) = i64_min"
  using assms
  by (auto simp: observe_absent_def Let_def split_beta ix_write_record i64_add_def i64_wrap_def
      i64_max_def i64_min_def)

lemma stamp_wraps_witness:
  "\<exists>c ix'. observe_absent path_a 9
      (snd (observe path_a ((seen 7)\<lparr>ob_mtime := i64_max\<rparr>) ix0)) = (Some c, ix') \<and>
    e_stamp (ir_entry (lc_record c)) = i64_min"
proof -
  have "ix_live (snd (observe path_a ((seen 7)\<lparr>ob_mtime := i64_max\<rparr>) ix0)) path_a =
      Some \<lparr>ir_entry = (entry_of here 7 i64_max)\<lparr>e_mtime := i64_max\<rparr>, ir_seq = 1\<rparr>" by code_simp
  from stamp_wraps [OF this] show ?thesis by (simp add: entry_of_def)
qed

text \<open>\<open>deny\<close>'s bump dominates the local version and every version it is bumped over, unless this
  machine's counter is saturated in their merge; it ranks above their stamps, keeps the content of
  a live or deleted local record, and is a tombstone where there is none.\<close>

theorem bump_over_dominates:
  assumes "bump_over p over st t ix = (c, ix')"
    and "old = previous_version (bm_get (ix_records ix) p)" and "v \<in> insert old (set over)"
    and "counter (foldl merge old over) (ix_own ix) \<noteq> - 1"
    and "\<forall>s. s \<in> set_option st \<union> (e_stamp \<circ> ir_entry) ` set_option (bm_get (ix_records ix) p) \<longrightarrow>
      is_i64 s \<and> s < i64_max"
  shows "dominates (e_version (ir_entry (lc_record c))) v \<and>
    (\<forall>s. s \<in> set_option st \<union> (e_stamp \<circ> ir_entry) ` set_option (bm_get (ix_records ix) p) \<longrightarrow>
      s < e_stamp (ir_entry (lc_record c))) \<and>
    (case bm_get (ix_records ix) p of
       Some r \<Rightarrow> entry_observed (ir_entry (lc_record c)) = entry_observed (ir_entry r) \<and>
         e_deleted (ir_entry (lc_record c)) = e_deleted (ir_entry r)
     | None \<Rightarrow> e_deleted (ir_entry (lc_record c)) \<and> e_hash (ir_entry (lc_record c)) = EMPTY)"
proof -
  let ?l = "bm_get (ix_records ix) p"
  have c: "c = fst (bump_over p over st t ix)" by (simp add: assms(1))
  have ver: "e_version (ir_entry (lc_record c)) = incremented (foldl merge old over) (ix_own ix)"
    unfolding c bump_over_def assms(2)
    by (cases ?l) (auto simp: Let_def ix_write_record previous_version_def)
  have "version_le v (foldl merge old over)"
    using assms(3) by (auto intro: ver.fold_lub_upper)
  then have "dominates (e_version (ir_entry (lc_record c))) v"
    unfolding ver using assms(4) by (rule incremented_dominates [rotated])
  moreover have "\<forall>s. s \<in> set_option st \<union> (e_stamp \<circ> ir_entry) ` set_option ?l \<longrightarrow>
      s < e_stamp (ir_entry (lc_record c))"
    using assms(5) stamp_step unfolding c bump_over_def
    by (cases ?l; cases st) (auto simp: Let_def ix_write_record max_def)
  moreover have "case ?l of
       Some r \<Rightarrow> entry_observed (ir_entry (lc_record c)) = entry_observed (ir_entry r) \<and>
         e_deleted (ir_entry (lc_record c)) = e_deleted (ir_entry r)
     | None \<Rightarrow> e_deleted (ir_entry (lc_record c)) \<and> e_hash (ir_entry (lc_record c)) = EMPTY"
    unfolding c bump_over_def by (cases ?l) (auto simp: Let_def ix_write_record entry_observed_def)
  ultimately show ?thesis by blast
qed

lemma bump_over_dominates_witness:
  "dominates (e_version (ir_entry (lc_record (fst (bump_over path_a [e_version (entry_of there 8 6)]
      (Some 6) 9 ix1))))) (e_version (entry_of there 8 6))"
proof -
  let ?over = "[e_version (entry_of there 8 6)]"
  let ?old = "previous_version (bm_get (ix_records ix1) path_a)"
  have "counter (foldl merge ?old ?over) (ix_own ix1) \<noteq> - 1" by code_simp
  moreover have "\<forall>s. s \<in> set_option (Some 6) \<union>
      (e_stamp \<circ> ir_entry) ` set_option (bm_get (ix_records ix1) path_a) \<longrightarrow> is_i64 s \<and> s < i64_max"
    by (simp add: ix1_record entry_of_def is_i64_def i64_max_def i64_min_def)
  ultimately show ?thesis
    using bump_over_dominates [of path_a ?over "Some 6" 9 ix1 _ _ ?old "e_version (entry_of there 8 6)",
        OF prod.collapse [symmetric]] by simp
qed

text \<open>A received version enters the index only if it dominates or equals the record: then it
  replaces it as it is, with the next number, and the path has no pending change any more; otherwise
  nothing changes.\<close>

theorem adopt_contract:
  shows "(case adopt e ix of
      (None, ix') \<Rightarrow> ix' = ix \<and>
        (\<exists>r. bm_get (ix_records ix) (e_path e) = Some r \<and>
             \<not> dominates_or_equals (e_version e) (e_version (ir_entry r)))
    | (Some r, ix') \<Rightarrow> ir_entry r = e \<and> ir_seq r = Suc (ix_seq ix) \<and> ix_seq ix' = ir_seq r \<and>
        (let old = bm_get (ix_records ix) (e_path e)
         in is_none_or (\<lambda>s. dominates_or_equals (e_version e) (e_version (ir_entry s))) old) \<and>
        bm_get (ix_records ix') (e_path e) = Some r \<and> \<not> is_pending ix' (e_path e) \<and>
        (\<forall>q. q \<noteq> e_path e \<longrightarrow> bm_get (ix_records ix') q = bm_get (ix_records ix) q \<and>
             bm_get (ix_pending ix') q = bm_get (ix_pending ix) q))"
  by (auto simp: adopt_def Let_def is_none_or_iff is_pending_def)

lemma adopt_contract_witness:
  "bm_get (ix_records (snd (adopt (entry_of there 8 6) ix0))) path_a =
     Some \<lparr>ir_entry = entry_of there 8 6, ir_seq = 1\<rparr> \<and>
   \<not> is_pending (snd (adopt (entry_of there 8 6) ix0)) path_a"
proof
  have a: "fst (adopt (entry_of there 8 6) ix0) = Some \<lparr>ir_entry = entry_of there 8 6, ir_seq = 1\<rparr>"
    by code_simp
  show "bm_get (ix_records (snd (adopt (entry_of there 8 6) ix0))) path_a =
     Some \<lparr>ir_entry = entry_of there 8 6, ir_seq = 1\<rparr>" by code_simp
  have "e_path (entry_of there 8 6) = path_a" by (simp add: entry_of_def)
  then show "\<not> is_pending (snd (adopt (entry_of there 8 6) ix0)) path_a"
    using adopt_contract [where e = "entry_of there 8 6" and ix = ix0] a
    by (simp add: split_beta split: option.splits)
qed

text \<open>C19: Over every run of an index, from its creation on, with local changes, adoptions,
  announcements, received ranges, drains and reverts in any order: each record sits at its path, the
  sequence numbers of all records held, current or kept for \<open>revert\<close>, are positive, within the
  counter and distinct, and a path is pending only above what was announced.\<close>

theorem index_invariant:
  assumes "ix_step\<^sup>*\<^sup>* (index_new own host) ix"
  shows "ix_ok ix"
  using assms by (induction rule: rtranclp_induct) (auto intro: ix_step_ok index_new_ok)

lemma index_invariant_witness: "ix_ok ix1"
  using index_invariant [of here host0 ix1] ix1_step
  by (simp add: r_into_rtranclp ix_step.local_change flip: ix0_def)

end
