(* ===== verification/Watermarks.thy ===== *)
theory Watermarks
  imports Indexes
begin

text \<open>
  The watermark a machine keeps of a peer's \<open>seq\<close> space (\<open>Watermark\<close> and \<open>Index::received_range\<close> of
  \<open>index.rs\<close>), refined against the plain set of sequence numbers received.
\<close>

section \<open>The abstraction\<close>

definition wm_set :: "watermark \<Rightarrow> nat set" where
  "wm_set w = {0<..wm_contiguous w} \<union>
     {n. \<exists>lo hi. bm_get (wm_ranges w) lo = Some hi \<and> lo < n \<and> n \<le> hi}"

definition wm_ok :: "watermark \<Rightarrow> bool" where
  "wm_ok w \<longleftrightarrow> (\<forall>lo hi. bm_get (wm_ranges w) lo = Some hi \<longrightarrow> wm_contiguous w < lo)"

text \<open>The contract: a set of numbers grows by the range received, and the mark is the first gap.\<close>

locale seq_tracker =
  fixes received :: "nat \<Rightarrow> nat \<Rightarrow> 's \<Rightarrow> 's"
    and start :: "'s" and mark :: "'s \<Rightarrow> nat" and seen :: "'s \<Rightarrow> nat set" and ok :: "'s \<Rightarrow> bool"
  assumes start_ok: "ok start" and start_seen: "seen start = {}"
    and received_ok: "ok s \<Longrightarrow> ok (received lo hi s)"
    and received_seen: "ok s \<Longrightarrow> seen (received lo hi s) = seen s \<union> {lo<..hi}"
    and mark_seen: "ok s \<Longrightarrow> {0<..mark s} \<subseteq> seen s"
    and mark_gap: "ok s \<Longrightarrow> Suc (mark s) \<notin> seen s"
begin

definition run :: "(nat \<times> nat) list \<Rightarrow> 's" where
  "run rs = foldl (\<lambda>s (lo, hi). received lo hi s) start rs"

lemma run_ok: "ok (run rs)"
  by (induction rs rule: rev_induct) (auto simp: run_def start_ok received_ok split: prod.splits)

lemma run_seen: "seen (run rs) = (\<Union>(lo, hi) \<in> set rs. {lo<..hi})"
proof (induction rs rule: rev_induct)
  case (snoc r rs)
  then show ?case using received_seen [OF run_ok, of "fst r" "snd r" rs]
    by (cases r) (simp add: run_def Un_commute)
qed (simp add: run_def start_seen)

text \<open>The mark is determined by the set: it is the largest number with nothing missing below it.\<close>

lemma mark_unique:
  assumes "ok s" "{0<..n} \<subseteq> seen s" "Suc n \<notin> seen s"
  shows "mark s = n"
proof (rule antisym)
  show "mark s \<le> n"
    using mark_seen [OF assms(1)] assms(3) by (metis greaterThanAtMost_iff not_less_eq_eq subsetD zero_less_Suc)
  show "n \<le> mark s"
    using mark_gap [OF assms(1)] assms(2) by (metis greaterThanAtMost_iff not_less_eq_eq subsetD zero_less_Suc)
qed

lemma order_irrelevant:
  assumes "set rs = set rs'"
  shows "mark (run rs) = mark (run rs')"
  by (rule mark_unique [OF run_ok])
    (use mark_seen [OF run_ok, of rs'] mark_gap [OF run_ok, of rs'] assms in \<open>simp_all add: run_seen\<close>)

end

section \<open>The code's watermark meets it\<close>

lemma wm_absorb_set: "wm_set (wm_absorb w) = wm_set w"
proof (induction w rule: wm_absorb.induct)
  case (1 w)
  show ?case
  proof (cases "bm_entries (wm_ranges w)")
    case (Cons e es)
    obtain low high where e: "e = (low, high)" by fastforce
    then have get: "bm_get (wm_ranges w) low = Some high"
      by (metis Cons in_bm_entries list.set_intros(1))
    show ?thesis
    proof (cases "low \<le> wm_contiguous w")
      case True
      let ?w = "w\<lparr>wm_ranges := bm_remove low (wm_ranges w), wm_contiguous := max (wm_contiguous w) high\<rparr>"
      have "wm_set ?w = wm_set w"
      proof (rule set_eqI)
        fix n
        have "n \<in> wm_set ?w \<longleftrightarrow> 0 < n \<and> (n \<le> wm_contiguous w \<or> n \<le> high) \<or>
            (\<exists>lo hi. lo \<noteq> low \<and> bm_get (wm_ranges w) lo = Some hi \<and> lo < n \<and> n \<le> hi)"
          by (auto simp: wm_set_def le_max_iff_disj)
        also have "\<dots> \<longleftrightarrow> n \<in> wm_set w"
          using True get unfolding wm_set_def
          by simp (metis leI le_less_trans less_le_trans option.inject order_refl zero_le)
        finally show "n \<in> wm_set ?w \<longleftrightarrow> n \<in> wm_set w" .
      qed
      then show ?thesis
        using 1 Cons e True by (simp add: wm_absorb.simps [of w])
    qed (simp add: wm_absorb.simps [of w] Cons e)
  qed (simp add: wm_absorb.simps [of w])
qed

lemma wm_absorb_ok: "wm_ok (wm_absorb w)"
proof (induction w rule: wm_absorb.induct)
  case (1 w)
  show ?case
  proof (cases "bm_entries (wm_ranges w)")
    case Nil
    then show ?thesis by (simp add: wm_absorb.simps [of w] wm_ok_def bm_get_def)
  next
    case (Cons e es)
    obtain low high where e: "e = (low, high)" by fastforce
    show ?thesis
    proof (cases "low \<le> wm_contiguous w")
      case False
      have "low \<le> lo" if "bm_get (wm_ranges w) lo = Some hi" for lo hi
        using that bm.sorted_entries [of "wm_ranges w"]
        by (fastforce simp: Cons e simp flip: in_bm_entries)
      with False show ?thesis
        by (fastforce simp: wm_absorb.simps [of w] Cons e wm_ok_def)
    qed (use 1 Cons e in \<open>simp add: wm_absorb.simps [of w]\<close>)
  qed
qed

lemma wm_received_set:
  assumes "wm_ok w"
  shows "wm_set (wm_received lo hi w) = wm_set w \<union> {lo<..hi}"
proof (cases "hi \<le> wm_contiguous w")
  case False
  show ?thesis
  proof (cases "lo \<le> wm_contiguous w")
    case True
    have "wm_set (w\<lparr>wm_contiguous := hi\<rparr>) = wm_set w \<union> {lo<..hi}"
      using True False by (auto simp: wm_set_def)
    with True False show ?thesis by (simp add: wm_received_def wm_absorb_set)
  next
    case lo: False
    let ?high = "case bm_get (wm_ranges w) lo of Some high \<Rightarrow> high | None \<Rightarrow> hi"
    have "wm_set (w\<lparr>wm_ranges := bm_insert lo (max ?high hi) (wm_ranges w)\<rparr>) = wm_set w \<union> {lo<..hi}"
      by (auto simp: wm_set_def max_def split: option.splits if_splits) 
    with False lo show ?thesis by (simp add: wm_received_def wm_absorb_set)
  qed
qed (auto simp: wm_received_def wm_set_def)

lemma wm_received_ok: "wm_ok w \<Longrightarrow> wm_ok (wm_received lo hi w)"
  by (simp add: wm_received_def wm_absorb_ok)

interpretation wm: seq_tracker wm_received wm_empty wm_contiguous wm_set wm_ok
  by unfold_locales
    (auto simp: wm_empty_def wm_ok_def [of wm_empty] wm_set_def [of wm_empty] wm_received_ok
      wm_received_set, auto simp: wm_ok_def wm_set_def)

section \<open>The index's marks\<close>

text \<open>A run of arriving ranges, of any peers.\<close>

definition receive_all :: "(node_id \<times> nat \<times> nat) list \<Rightarrow> index \<Rightarrow> index" where
  "receive_all arrivals ix = foldl (\<lambda>ix (peer, lo, hi). received_range peer lo hi ix) ix arrivals"

definition received_from :: "node_id \<Rightarrow> (node_id \<times> nat \<times> nat) list \<Rightarrow> nat set" where
  "received_from peer arrivals = (\<Union>(p, lo, hi) \<in> set arrivals. if p = peer then {lo<..hi} else {})"

lemma receive_all_watermark:
  assumes "ix_peer_seq ix = bm_empty"
  shows "ix_peer_watermark (receive_all arrivals ix) peer =
    wm.run (map snd (filter (\<lambda>(p, _). p = peer) arrivals))"
proof (induction arrivals rule: rev_induct)
  case Nil
  then show ?case by (simp add: receive_all_def ix_peer_watermark_def assms wm.run_def)
next
  case (snoc a as)
  obtain p lo hi where a: "a = (p, lo, hi)" by (cases a) auto
  have "ix_peer_watermark (received_range p lo hi ix') peer =
      (if p = peer then wm_received lo hi (ix_peer_watermark ix' peer) else ix_peer_watermark ix' peer)"
    for ix'
    by (simp add: ix_peer_watermark_def [of "received_range p lo hi ix'"] received_range_def)
      (simp add: ix_peer_watermark_def)
  with snoc show ?case by (simp add: a receive_all_def wm.run_def)
qed

lemma run_received_from:
  "wm_set (wm.run (map snd (filter (\<lambda>(p, _). p = peer) arrivals))) = received_from peer arrivals"
  by (auto simp: wm.run_seen received_from_def split: if_splits)

lemma peer_seq_watermark: "peer_seq ix peer = wm_contiguous (ix_peer_watermark ix peer)"
  by (simp add: peer_seq_def ix_peer_watermark_def wm_empty_def split: option.splits)

lemma peer_has_gap_watermark:
  "peer_has_gap ix peer \<longleftrightarrow> \<not> bm_is_empty (wm_ranges (ix_peer_watermark ix peer))"
  by (simp add: peer_has_gap_def ix_peer_watermark_def is_some_and_iff wm_empty_def bm_is_empty_iff
      split: option.splits)

lemma watermark_mark_exact:
  "{0<..peer_seq (receive_all arrivals (index_new own host)) peer} \<subseteq> received_from peer arrivals"
  "Suc (peer_seq (receive_all arrivals (index_new own host)) peer) \<notin> received_from peer arrivals"
  using wm.mark_seen [OF wm.run_ok] wm.mark_gap [OF wm.run_ok]
  by (simp_all add: peer_seq_watermark receive_all_watermark index_new_def flip: run_received_from)

text \<open>Ranges that are kept apart are non-empty if those that arrive are, so that no gap is left once
  the numbers received are contiguous.\<close>

lemma wm_absorb_ranges:
  "bm_get (wm_ranges (wm_absorb w)) lo = Some hi \<Longrightarrow> bm_get (wm_ranges w) lo = Some hi"
proof (induction w rule: wm_absorb.induct)
  case (1 w)
  show ?case
  proof (cases "bm_entries (wm_ranges w)")
    case (Cons e es)
    show ?thesis
    proof (cases "fst e \<le> wm_contiguous w")
      case True
      have "bm_get (bm_remove (fst e) (wm_ranges w)) lo = Some hi"
        using 1(1) [OF Cons prod.collapse True] 1(2) True
        by (simp add: wm_absorb.simps [of w] Cons split_beta)
      then show ?thesis by (simp split: if_splits)
    qed (use 1(2) in \<open>simp add: wm_absorb.simps [of w] Cons split_beta\<close>)
  qed (use 1 in \<open>simp add: wm_absorb.simps [of w]\<close>)
qed

lemma wm_received_ranges:
  assumes "\<And>lo hi. bm_get (wm_ranges w) lo = Some hi \<Longrightarrow> lo < hi" and "l < h"
    and "bm_get (wm_ranges (wm_received l h w)) lo = Some hi"
  shows "lo < hi"
proof (cases "h \<le> wm_contiguous w")
  case False
  define top where "top = max (case bm_get (wm_ranges w) l of Some high \<Rightarrow> high | None \<Rightarrow> h) h"
  have top: "h \<le> top" by (simp add: top_def)
  have "wm_received l h w = wm_absorb (if l \<le> wm_contiguous w then w\<lparr>wm_contiguous := h\<rparr>
      else w\<lparr>wm_ranges := bm_insert l top (wm_ranges w)\<rparr>)"
    using False by (simp add: wm_received_def top_def)
  note wm_absorb_ranges [OF assms(3) [unfolded this]]
  then have "bm_get (wm_ranges w) lo = Some hi \<or> lo = l \<and> h \<le> hi"
    using top by (cases "l \<le> wm_contiguous w"; cases "lo = l") simp_all
  then show ?thesis
  proof
    assume "bm_get (wm_ranges w) lo = Some hi"
    then show ?thesis by (rule assms(1))
  next
    assume "lo = l \<and> h \<le> hi"
    with assms(2) show ?thesis by linarith
  qed
qed (use assms(1,3) in \<open>simp add: wm_received_def\<close>)

lemma run_ranges:
  "\<forall>(lo, hi) \<in> set rs. lo < hi \<Longrightarrow> bm_get (wm_ranges (wm.run rs)) lo = Some hi \<Longrightarrow> lo < hi"
proof (induction rs arbitrary: lo hi rule: rev_induct)
  case (snoc r rs)
  have step: "wm.run (rs @ [r]) = wm_received (fst r) (snd r) (wm.run rs)"
    by (simp add: wm.run_def split: prod.split)
  show ?case
  proof (rule wm_received_ranges [of "wm.run rs" "fst r" "snd r"])
    show "lo < hi" if "bm_get (wm_ranges (wm.run rs)) lo = Some hi" for lo hi
      using snoc.IH [OF _ that] snoc.prems(1) by simp
  qed (use snoc.prems in \<open>auto simp: step\<close>)
next
  case Nil
  have "wm.run [] = wm_empty" by (simp add: wm.run_def)
  with Nil show ?case by (simp add: wm_empty_def)
qed

lemma contiguous_no_gap:
  assumes "\<forall>(p, lo, hi) \<in> set arrivals. lo < hi" and "received_from peer arrivals = {0<..n}"
  shows "\<not> peer_has_gap (receive_all arrivals (index_new own host)) peer"
proof
  let ?rs = "map snd (filter (\<lambda>(p, _). p = peer) arrivals)"
  assume "peer_has_gap (receive_all arrivals (index_new own host)) peer"
  then obtain lo hi where get: "bm_get (wm_ranges (wm.run ?rs)) lo = Some hi"
    by (auto simp: peer_has_gap_watermark receive_all_watermark index_new_def bm_is_empty_iff)
  moreover have "\<forall>(lo, hi) \<in> set ?rs. lo < hi" using assms(1) by auto
  ultimately have "lo < hi" by (rule run_ranges [rotated])
  with get have "hi \<in> wm_set (wm.run ?rs)" by (auto simp: wm_set_def)
  then have "hi \<le> n" by (simp add: run_received_from assms(2))
  moreover have "wm_contiguous (wm.run ?rs) < lo"
    using wm.run_ok [of ?rs] get by (simp add: wm_ok_def)
  moreover have "n \<le> wm_contiguous (wm.run ?rs)"
    using wm.mark_gap [OF wm.run_ok, of ?rs] by (simp add: run_received_from assms(2))
  ultimately show False using \<open>lo < hi\<close> by simp
qed

text \<open>C29: Whatever ranges arrive, from whatever peers and in whatever order, the acknowledged position
  of a peer is exact: every number of that peer up to it has arrived, and the next one has not.\<close>

theorem watermark_exact:
  "let ix = receive_all arrivals (index_new own host)
   in {0<..peer_seq ix peer} \<subseteq> received_from peer arrivals \<and>
      Suc (peer_seq ix peer) \<notin> received_from peer arrivals"
  using watermark_mark_exact by (simp add: Let_def)

text \<open>No gap is reported only if nothing has arrived above the acknowledged position, and the
  position does not depend on the order or the repetition of the ranges.\<close>

theorem watermark_order_and_gap:
  assumes "set arrivals = set arrivals'"
  shows "let ix = receive_all arrivals (index_new own host);
      ix' = receive_all arrivals' (index_new own host)
    in peer_seq ix peer = peer_seq ix' peer \<and>
       (\<not> peer_has_gap ix peer \<longrightarrow> received_from peer arrivals = {0<..peer_seq ix peer})"
proof -
  have marks: "ix_peer_watermark (receive_all as (index_new own host)) peer =
      wm.run (map snd (filter (\<lambda>(p, _). p = peer) as))" for as
    by (rule receive_all_watermark) (simp add: index_new_def)
  have "set (map snd (filter (\<lambda>(p, _). p = peer) arrivals)) =
      set (map snd (filter (\<lambda>(p, _). p = peer) arrivals'))"
    using assms by simp
  then show ?thesis
    using wm.order_irrelevant
    by (auto simp: Let_def peer_seq_watermark peer_has_gap_watermark marks bm_is_empty_iff wm_set_def
        simp flip: run_received_from)
qed

lemma watermark_order_and_gap_witness:
  "peer_seq (receive_all [(NodeId [1], 2, 5), (NodeId [1], 0, 2)]
       (index_new (NodeId [2]) (HostName ''a''))) (NodeId [1]) =
     peer_seq (receive_all [(NodeId [1], 0, 2), (NodeId [1], 2, 5)]
       (index_new (NodeId [2]) (HostName ''a''))) (NodeId [1])"
  using watermark_order_and_gap [of "[(NodeId [1], 2, 5), (NodeId [1], 0, 2)]"
      "[(NodeId [1], 0, 2), (NodeId [1], 2, 5)]"]
  by (auto simp: Let_def)

end
