(* ===== verification/Batches.thy ===== *)
theory Batches
  imports IndexViews Watermarks
begin

text \<open>
  \<open>crates/engine/src/batch.rs\<close>: batch formation, the sender's summary, and the apply set a receiver
  computes. The counts of a summary are \<open>u64\<close> words, since they add up sizes a peer chose; the
  estimated bytes of a batch are natural numbers, because they add up lengths of paths in memory.
\<close>

section \<open>Formation\<close>

definition MAX_BATCH_ENTRIES :: nat where
  "MAX_BATCH_ENTRIES = 10000"

definition MAX_BATCH_BYTES :: nat where
  "MAX_BATCH_BYTES = 4 * 1024 * 1024"

definition ENTRY_ALLOWANCE :: nat where
  "ENTRY_ALLOWANCE = 256"

definition estimated_bytes :: "entry \<Rightarrow> nat" where
  "estimated_bytes e = length (path_str (e_path e)) + ENTRY_ALLOWANCE"

record summary =
  sm_adds :: u64
  sm_mods :: u64
  sm_dels :: u64
  sm_bytes :: u64

definition summary_default :: summary where
  "summary_default = \<lparr>sm_adds = 0, sm_mods = 0, sm_dels = 0, sm_bytes = 0\<rparr>"

definition summary_count :: "entry \<Rightarrow> change_kind \<Rightarrow> summary \<Rightarrow> summary" where
  "summary_count e k s =
     (case k of
        Add \<Rightarrow> s\<lparr>sm_adds := sm_adds s + 1, sm_bytes := sm_bytes s + e_size e\<rparr>
      | Modify \<Rightarrow>
          if \<not> is_metadata_only e
          then s\<lparr>sm_mods := sm_mods s + 1, sm_bytes := sm_bytes s + e_size e\<rparr> else s
      | Delete \<Rightarrow> if \<not> is_metadata_only e then s\<lparr>sm_dels := sm_dels s + 1\<rparr> else s)"

definition destructive :: "summary \<Rightarrow> u64" where
  "destructive s = sm_dels s + sm_mods s"

record batch =
  bt_id :: batch_id
  bt_folder :: folder_id
  bt_source :: node_id
  bt_created :: timestamp
  bt_seq_low :: nat
  bt_seq_high :: nat
  bt_entries :: "entry list"
  bt_summary :: summary

datatype decision = Accepted | Held string

record batch_decision =
  bd_batch :: batch_id
  bd_folder :: folder_id
  bd_decision :: decision
  bd_seq_high :: nat

datatype batch_role = Sent | Received | Paused

type_synonym outgoing = "(index_record \<times> change_kind option) list"

fun batch_len_from :: "nat \<Rightarrow> nat \<Rightarrow> outgoing \<Rightarrow> nat" where
  "batch_len_from i bytes [] = i"
| "batch_len_from i bytes ((record, _) # rs) =
     (let bytes = bytes + estimated_bytes (ir_entry record) in
      if i = MAX_BATCH_ENTRIES \<or> (0 < i \<and> MAX_BATCH_BYTES < bytes) then i
      else batch_len_from (Suc i) bytes rs)"

definition batch_len :: "outgoing \<Rightarrow> nat" where
  "batch_len records = batch_len_from 0 0 records"

lemma batch_len_from_ge: "i \<le> batch_len_from i bytes rs"
  by (induction i bytes rs rule: batch_len_from.induct) (auto simp: Let_def)

lemma batch_len_pos: "rs \<noteq> [] \<Longrightarrow> 0 < batch_len rs"
proof (cases rs)
  case (Cons r rs')
  obtain x k where "r = (x, k)" by fastforce
  with Cons show ?thesis
    using batch_len_from_ge [of 1 _ rs']
    by (auto simp: batch_len_def Let_def MAX_BATCH_ENTRIES_def intro: less_le_trans [of 0 1])
qed simp

definition batch_summary :: "outgoing \<Rightarrow> summary" where
  "batch_summary chunk =
     foldl (\<lambda>s (record, k). case k of Some k \<Rightarrow> summary_count (ir_entry record) k s | None \<Rightarrow> s)
       summary_default chunk"

text \<open>The loop of \<open>form\<close>: \<open>made\<close> is the number of batches made so far.\<close>

function form_from ::
    "batch_id \<Rightarrow> folder_id \<Rightarrow> node_id \<Rightarrow> timestamp \<Rightarrow> nat \<Rightarrow> nat \<Rightarrow> outgoing \<Rightarrow> batch list" where
  "form_from base folder source now made low rest =
     (if rest = [] then []
      else
        let chunk = take (batch_len rest) rest;
            after = drop (batch_len rest) rest;
            high = (if chunk = [] then low else ir_seq (fst (last chunk)))
        in \<lparr>bt_id = batch_successor base made, bt_folder = folder, bt_source = source,
            bt_created = now, bt_seq_low = low, bt_seq_high = high,
            bt_entries = map (\<lambda>(record, _). ir_entry record) chunk,
            bt_summary = batch_summary chunk\<rparr>
           # form_from base folder source now (Suc made) high after)"
  by pat_completeness auto
termination
  by (relation "measure (\<lambda>(_, _, _, _, _, _, rest). length rest)") (auto simp: batch_len_pos)

declare form_from.simps [simp del]

definition form ::
    "batch_id \<Rightarrow> folder_id \<Rightarrow> node_id \<Rightarrow> timestamp \<Rightarrow> outgoing \<Rightarrow> nat \<Rightarrow> batch list" where
  "form base folder source now records seq_low = form_from base folder source now 0 seq_low records"

section \<open>The apply set\<close>

datatype apply_mode = Fetch | Direct | MetadataOnly | IndexOnly | Trash

record apply_item =
  ai_entry :: entry
  ai_mode :: apply_mode
  ai_conflict :: "conflict_copy option"

definition ai_path :: "apply_item \<Rightarrow> rel_path" where
  "ai_path item = e_path (ai_entry item)"

record apply_set =
  as_folder :: folder_id
  as_batch :: batch_id
  as_source :: node_id
  as_seq_high :: nat
  as_items :: "apply_item list"
  as_ignored :: nat
  as_duplicates :: nat
  as_fallbacks :: nat

definition mode_for :: "entry \<Rightarrow> entry option \<Rightarrow> apply_mode" where
  "mode_for incoming local =
     (if is_some_and (\<lambda>l. same_content l incoming) local
      then if e_kind incoming = File \<and> \<not> e_deleted incoming then MetadataOnly else IndexOnly
      else if e_deleted incoming \<or> e_kind incoming = Dir then Direct
      else Fetch)"

record classified =
  cl_item :: "apply_item option"
  cl_fallback :: bool

definition classify :: "index \<Rightarrow> entry \<Rightarrow> classified" where
  "classify ix incoming =
     (let local = map_option ir_entry (ix_get ix (e_path incoming));
          relation = (case local of Some l \<Rightarrow> compare (e_version incoming) (e_version l)
                      | None \<Rightarrow> Dominates);
          applied = (\<lambda>e mode copy fallback.
            \<lparr>cl_item = Some \<lparr>ai_entry = e, ai_mode = mode, ai_conflict = copy\<rparr>,
             cl_fallback = fallback\<rparr>);
          dropped = \<lparr>cl_item = None, cl_fallback = False\<rparr>
      in case relation of
        Dominates \<Rightarrow> applied incoming (mode_for incoming local) None False
      | Equal \<Rightarrow> dropped
      | Dominated \<Rightarrow> dropped
      | Concurrent \<Rightarrow>
          (case local of
             None \<Rightarrow> dropped
           | Some l \<Rightarrow>
               if same_content l incoming then
                 let (fields, other) = (case w_side (winner incoming l) of
                       First \<Rightarrow> (incoming, l) | Second \<Rightarrow> (l, incoming));
                     m = merged fields other;
                     mode = (if e_kind m = File \<and> \<not> e_deleted m \<and> e_mtime m \<noteq> e_mtime l
                             then MetadataOnly else IndexOnly)
                 in applied m mode None False
               else
                 let resolution = resolve incoming l
                 in case r_winner resolution of
                      Second \<Rightarrow> applied (r_merged resolution) IndexOnly None (r_fallback resolution)
                    | First \<Rightarrow>
                        let mode = (if e_deleted (r_merged resolution) \<or>
                                      e_kind (r_merged resolution) = Dir then Direct else Fetch);
                            copy = (if e_deleted l then None
                              else map_option (\<lambda>p. \<lparr>cc_path = p, cc_loser = l\<rparr>)
                                (opt_filter (\<lambda>p. ix_live ix p = None) (conflict_copy_name l)))
                        in applied (r_merged resolution) mode copy (r_fallback resolution)))"

definition last_by_path :: "entry list \<Rightarrow> (rel_path, entry) bmap \<times> nat" where
  "last_by_path es =
     foldl (\<lambda>(m, dups) e. (bm_insert (e_path e) e m, if bm_has m (e_path e) then Suc dups else dups))
       (bm_empty, 0) es"

definition classify_all ::
    "index \<Rightarrow> entry list \<Rightarrow> apply_item list \<times> nat \<times> nat" where
  "classify_all ix es =
     foldl (\<lambda>(items, ignored, fallbacks) incoming.
         let c = classify ix incoming;
             fallbacks = (if cl_fallback c then Suc fallbacks else fallbacks)
         in case cl_item c of
              Some item \<Rightarrow> (items @ [item], ignored, fallbacks)
            | None \<Rightarrow> (items, Suc ignored, fallbacks)) ([], 0, 0) es"

definition compute_apply_set :: "index \<Rightarrow> batch \<Rightarrow> apply_set" where
  "compute_apply_set ix b =
     (let (last, duplicates) = last_by_path (bt_entries b);
          (items, ignored, fallbacks) = classify_all ix (bm_values last)
      in \<lparr>as_folder = bt_folder b, as_batch = bt_id b, as_source = bt_source b,
          as_seq_high = bt_seq_high b, as_items = sort_key ai_path items, as_ignored = ignored,
          as_duplicates = duplicates, as_fallbacks = fallbacks\<rparr>)"

lemmas [eval_simps] =
  MAX_BATCH_ENTRIES_def MAX_BATCH_BYTES_def ENTRY_ALLOWANCE_def estimated_bytes_def
  summary_default_def summary_count_def destructive_def batch_len_def batch_summary_def
  form_from.simps form_def ai_path_def mode_for_def classify_def last_by_path_def classify_all_def
  compute_apply_set_def

end
