(* ===== verification/BatchLaws.thy ===== *)
theory BatchLaws
  imports Batches
begin

text \<open>
  What batch formation and classification promise: the batches of a run are the run, cut within the
  bounds into a chain; an apply set is sorted, dominating and complete; and the way an entry is
  applied agrees with what the disk holds.
\<close>

section \<open>Formation\<close>

lemma batch_len_le: "batch_len rs \<le> length rs"
proof -
  have "batch_len_from i bytes rs \<le> i + length rs" for i bytes
    by (induction i bytes rs rule: batch_len_from.induct) (auto simp: Let_def)
  from this [of 0 0] show ?thesis by (simp add: batch_len_def)
qed

lemma batch_len_entries: "batch_len rs \<le> MAX_BATCH_ENTRIES"
proof -
  have "i \<le> MAX_BATCH_ENTRIES \<Longrightarrow> batch_len_from i bytes rs \<le> MAX_BATCH_ENTRIES" for i bytes
    by (induction i bytes rs rule: batch_len_from.induct) (auto simp: Let_def)
  then show ?thesis by (simp add: batch_len_def)
qed

definition outgoing_bytes :: "outgoing \<Rightarrow> nat" where
  "outgoing_bytes rs = sum_list (map (\<lambda>(r, _). estimated_bytes (ir_entry r)) rs)"

text \<open>What a chunk takes fits the byte bound, unless it is a single entry; and one more entry would
  not fit.\<close>

lemma batch_len_from_bytes:
  "0 < i \<Longrightarrow> bytes \<le> MAX_BATCH_BYTES \<Longrightarrow>
     bytes + outgoing_bytes (take (batch_len_from i bytes rs - i) rs) \<le> MAX_BATCH_BYTES"
proof (induction i bytes rs rule: batch_len_from.induct)
  case (2 i bytes r k rs)
  let ?b = "bytes + estimated_bytes (ir_entry r)"
  show ?case
  proof (cases "i = MAX_BATCH_ENTRIES \<or> (0 < i \<and> MAX_BATCH_BYTES < ?b)")
    case True
    then show ?thesis using 2 by (auto simp: Let_def outgoing_bytes_def)
  next
    case False
    then have "batch_len_from (Suc i) ?b rs - i = Suc (batch_len_from (Suc i) ?b rs - Suc i)"
      using batch_len_from_ge [of "Suc i" ?b rs] by simp
    with False 2 show ?thesis by (auto simp: Let_def outgoing_bytes_def add.assoc)
  qed
qed (simp add: outgoing_bytes_def)

lemma batch_len_bytes:
  assumes "1 < batch_len rs"
  shows "outgoing_bytes (take (batch_len rs) rs) \<le> MAX_BATCH_BYTES"
proof (cases rs)
  case (Cons x rs')
  obtain r k where x: "x = (r, k)" by fastforce
  let ?b = "estimated_bytes (ir_entry r)"
  have len: "batch_len rs = batch_len_from 1 ?b rs'"
    by (simp add: batch_len_def Cons x Let_def MAX_BATCH_ENTRIES_def)
  have "?b \<le> MAX_BATCH_BYTES"
  proof (cases rs')
    case (Cons y ys)
    obtain r' k' where "y = (r', k')" by fastforce
    then show ?thesis using assms len Cons
      by (auto simp: Let_def MAX_BATCH_ENTRIES_def split: if_splits)
  qed (use assms len in simp)
  from batch_len_from_bytes [OF zero_less_one this, of rs']
  have "?b + outgoing_bytes (take (batch_len rs - 1) rs') \<le> MAX_BATCH_BYTES"
    by (simp add: len)
  moreover obtain n where "batch_len rs = Suc n"
    using assms by (cases "batch_len rs") simp_all
  ultimately show ?thesis by (simp add: outgoing_bytes_def Cons x)
qed (use assms in \<open>simp add: batch_len_def\<close>)

lemma batch_len_maximal_from:
  "batch_len_from i bytes rs < i + length rs \<Longrightarrow>
     batch_len_from i bytes rs = MAX_BATCH_ENTRIES \<or>
     MAX_BATCH_BYTES < bytes + outgoing_bytes (take (Suc (batch_len_from i bytes rs) - i) rs)"
proof (induction i bytes rs rule: batch_len_from.induct)
  case (2 i bytes r k rs)
  let ?b = "bytes + estimated_bytes (ir_entry r)"
  show ?case
  proof (cases "i = MAX_BATCH_ENTRIES \<or> (0 < i \<and> MAX_BATCH_BYTES < ?b)")
    case False
    then have "Suc (batch_len_from (Suc i) ?b rs) - i = Suc (Suc (batch_len_from (Suc i) ?b rs) - Suc i)"
      using batch_len_from_ge [of "Suc i" ?b rs] by simp
    with False 2 show ?thesis by (auto simp: Let_def outgoing_bytes_def add.assoc)
  qed (auto simp: Let_def outgoing_bytes_def)
qed simp

lemma batch_len_maximal:
  assumes "batch_len rs < length rs"
  shows "batch_len rs = MAX_BATCH_ENTRIES \<or>
    MAX_BATCH_BYTES < outgoing_bytes (take (Suc (batch_len rs)) rs)"
  using batch_len_maximal_from [of 0 0 rs] assms by (simp add: batch_len_def)

text \<open>A chain of batches from one \<open>seq\<close> to another.\<close>

fun chained :: "nat \<Rightarrow> batch list \<Rightarrow> nat \<Rightarrow> bool" where
  "chained low [] high \<longleftrightarrow> low = high"
| "chained low (b # bs) high \<longleftrightarrow> bt_seq_low b = low \<and> chained (bt_seq_high b) bs high"

lemma form_from_Nil [simp]: "form_from base folder source now made low [] = []"
  by (simp add: form_from.simps)

lemma form_from_step:
  assumes "rest \<noteq> []"
  defines "chunk \<equiv> take (batch_len rest) rest"
  shows "form_from base folder source now made low rest =
     \<lparr>bt_id = batch_successor base made, bt_folder = folder, bt_source = source, bt_created = now,
      bt_seq_low = low, bt_seq_high = ir_seq (fst (last chunk)),
      bt_entries = map (ir_entry \<circ> fst) chunk, bt_summary = batch_summary chunk\<rparr>
     # form_from base folder source now (Suc made) (ir_seq (fst (last chunk)))
         (drop (batch_len rest) rest)"
proof -
  have "(\<lambda>(r, _). ir_entry r) = ir_entry \<circ> fst" by (simp add: fun_eq_iff split_def)
  moreover have "chunk \<noteq> []" using batch_len_pos [OF assms(1)] assms(1) by (simp add: chunk_def)
  ultimately show ?thesis
    using assms(1) by (subst form_from.simps) (simp add: Let_def split_def del: take_eq_Nil flip: chunk_def)
qed

lemma form_from_cases:
  assumes "\<And>made low. P made low []"
    and "\<And>made low rest. rest \<noteq> [] \<Longrightarrow>
      P (Suc made) (ir_seq (fst (last (take (batch_len rest) rest)))) (drop (batch_len rest) rest) \<Longrightarrow>
      P made low rest"
  shows "P made low rest"
proof (induction rest arbitrary: made low rule: length_induct)
  case (1 rest)
  then show ?case
    using assms batch_len_pos [of rest] by (cases "rest = []") auto
qed

lemma form_from_entries:
  "concat (map bt_entries (form_from base folder source now made low rest)) =
     map (ir_entry \<circ> fst) rest"
proof (induction made low rest rule: form_from_cases)
  case (2 made low rest)
  have "map (ir_entry \<circ> fst) rest =
      map (ir_entry \<circ> fst) (take (batch_len rest) rest) @ map (ir_entry \<circ> fst) (drop (batch_len rest) rest)"
    by (simp flip: map_append)
  with 2 show ?case by (simp add: form_from_step comp_def)
qed simp

lemma form_from_chained:
  "chained low (form_from base folder source now made low rest)
     (if rest = [] then low else ir_seq (fst (last rest)))"
proof (induction made low rest rule: form_from_cases)
  case (2 made low rest)
  let ?chunk = "take (batch_len rest) rest" and ?after = "drop (batch_len rest) rest"
  let ?high = "ir_seq (fst (last ?chunk))"
  have "(if ?after = [] then ?high else ir_seq (fst (last ?after))) = ir_seq (fst (last rest))"
    by (cases "?after = []") (simp_all add: last_drop)
  with 2 show ?case by (simp add: form_from_step del: drop_eq_Nil)
qed simp

lemma form_from_parts:
  "b \<in> set (form_from base folder source now made low rest) \<Longrightarrow>
     bt_entries b \<noteq> [] \<and> length (bt_entries b) \<le> MAX_BATCH_ENTRIES \<and>
     (1 < length (bt_entries b) \<longrightarrow> sum_list (map estimated_bytes (bt_entries b)) \<le> MAX_BATCH_BYTES)"
proof (induction made low rest rule: form_from_cases)
  case (2 made low rest)
  let ?chunk = "take (batch_len rest) rest"
  have len: "length ?chunk = batch_len rest" using batch_len_le [of rest] by simp
  have "sum_list (map estimated_bytes (map (ir_entry \<circ> fst) ?chunk)) = outgoing_bytes ?chunk"
    by (simp add: outgoing_bytes_def comp_def split_def)
  with batch_len_bytes [of rest] have "1 < length ?chunk \<Longrightarrow>
      sum_list (map estimated_bytes (map (ir_entry \<circ> fst) ?chunk)) \<le> MAX_BATCH_BYTES"
    by (simp add: len)
  moreover have "?chunk \<noteq> []" using batch_len_pos [OF 2(1)] 2(1) by simp
  ultimately show ?case
    using 2 batch_len_entries [of rest] len
    by (auto simp: form_from_step simp del: take_eq_Nil map_map length_take)
qed simp

lemma form_from_ids:
  "map bt_id (form_from base folder source now made low rest) =
     map (batch_successor base)
       [made..<made + length (form_from base folder source now made low rest)]"
proof (induction made low rest rule: form_from_cases)
  case (2 made low rest)
  have "[made..<made + Suc n] = made # [Suc made..<Suc made + n]" for n
    by (simp add: upt_conv_Cons)
  with 2 show ?case by (simp add: form_from_step del: upt_Suc)
qed simp

lemma form_from_length: "length (form_from base folder source now made low rest) \<le> length rest"
proof (induction made low rest rule: form_from_cases)
  case (2 made low rest)
  have "0 < batch_len rest" "0 < length rest" using batch_len_pos [OF 2(1)] 2(1) by simp_all
  moreover have "length (drop (batch_len rest) rest) = length rest - batch_len rest" by simp
  ultimately show ?case using 2 unfolding form_from_step [OF 2(1)] list.size by linarith
qed simp

lemma form_from_ascends:
  "sorted_wrt (<) (map (ir_seq \<circ> fst) rest) \<Longrightarrow> \<forall>x \<in> set rest. low < ir_seq (fst x) \<Longrightarrow>
     b \<in> set (form_from base folder source now made low rest) \<Longrightarrow> bt_seq_low b < bt_seq_high b"
proof (induction made low rest rule: form_from_cases)
  case (2 made low rest)
  let ?chunk = "take (batch_len rest) rest" and ?after = "drop (batch_len rest) rest"
  have ne: "?chunk \<noteq> []" using batch_len_pos [OF 2(1)] 2(1) by simp
  then have mem: "last ?chunk \<in> set rest" by (rule in_set_takeD [OF last_in_set])
  have "sorted_wrt (<) (map (ir_seq \<circ> fst) ?chunk @ map (ir_seq \<circ> fst) ?after)"
    using 2(3) by (simp only: append_take_drop_id flip: map_append)
  then have sorted: "sorted_wrt (<) (map (ir_seq \<circ> fst) ?after)"
    and less: "\<forall>x \<in> set (map (ir_seq \<circ> fst) ?chunk). \<forall>y \<in> set (map (ir_seq \<circ> fst) ?after). x < y"
    unfolding sorted_wrt_append by blast+
  have "(ir_seq \<circ> fst) (last ?chunk) \<in> set (map (ir_seq \<circ> fst) ?chunk)"
    using last_in_set [OF ne] by (simp only: set_map imageI)
  from bspec [OF less this] have above: "\<forall>x \<in> set ?after. ir_seq (fst (last ?chunk)) < ir_seq (fst x)"
    by simp
  from 2(2) [OF sorted above] have "b \<in> set (form_from base folder source now (Suc made)
      (ir_seq (fst (last ?chunk))) ?after) \<Longrightarrow> bt_seq_low b < bt_seq_high b" .
  with 2(1,4,5) mem show ?case by (simp add: form_from_step) fastforce
qed simp

lemma chained_union:
  "chained low bs high \<Longrightarrow> \<forall>b \<in> set bs. bt_seq_low b < bt_seq_high b \<Longrightarrow>
     low \<le> high \<and> (\<Union>b \<in> set bs. {bt_seq_low b<..bt_seq_high b}) = {low<..high}"
proof (induction low bs high rule: chained.induct)
  case (2 low b bs high)
  then have "bt_seq_high b \<le> high" "low < bt_seq_high b"
    and "(\<Union>b \<in> set bs. {bt_seq_low b<..bt_seq_high b}) = {bt_seq_high b<..high}" by auto
  with 2 show ?case by auto
qed simp

definition outgoing_a :: outgoing where
  "outgoing_a = [(\<lparr>ir_entry = entry_of here 7 5, ir_seq = 1\<rparr>, Some Add),
     (\<lparr>ir_entry = (entry_of here 8 6)\<lparr>e_path := RelPath ''b''\<rparr>, ir_seq = 2\<rparr>, Some Modify)]"

text \<open>However many records are written since the last batch, the batches formed from them carry
  exactly those records, in the same order, each once.\<close>

theorem form_carries_the_run:
  "concat (map bt_entries (form base folder source now records low)) = map (ir_entry \<circ> fst) records"
  by (simp add: form_def form_from_entries)

text \<open>The batches of a run chain: the first starts at the previous batch's end, each starts where
  the one before it ended, and the last ends at the newest record.\<close>

theorem form_chains:
  "chained low (form base folder source now records low)
     (if records = [] then low else ir_seq (fst (last records)))"
  by (simp add: form_def form_from_chained)

text \<open>No batch is empty or carries more than \<open>MAX_BATCH_ENTRIES\<close> entries, nor more than
  \<open>MAX_BATCH_BYTES\<close> of estimated bytes unless a single entry does, and the identifiers of a run's
  batches are distinct.\<close>

theorem form_within_bounds:
  assumes "length records < 2 ^ 128"
  shows "(\<forall>b \<in> set (form base folder source now records low).
      bt_entries b \<noteq> [] \<and> length (bt_entries b) \<le> MAX_BATCH_ENTRIES \<and>
      (1 < length (bt_entries b) \<longrightarrow>
       sum_list (map estimated_bytes (bt_entries b)) \<le> MAX_BATCH_BYTES)) \<and>
    distinct (map bt_id (form base folder source now records low))"
proof -
  let ?bs = "form base folder source now records low"
  have "length ?bs < 2 ^ 128"
    using form_from_length [of base folder source now 0 low records] assms by (simp add: form_def)
  then have "inj_on (batch_successor base) (set [0..<length ?bs])"
    by (intro inj_onI) (rule batch_successor_inj; simp)
  then have "distinct (map bt_id ?bs)"
    using form_from_ids [of base folder source now 0 low records]
    by (simp add: form_def distinct_map)
  then show ?thesis using form_from_parts by (auto simp: form_def)
qed

lemma form_within_bounds_witness:
  "distinct (map bt_id (form (BatchId [0]) (FolderId [0]) here 0 outgoing_a 0))"
  using form_within_bounds [of outgoing_a] by (simp add: outgoing_a_def)

lemma prefix_unique: "{0<..m} \<subseteq> {0<..n} \<Longrightarrow> Suc m \<notin> {0<..n} \<Longrightarrow> m = (n::nat)"
  by (metis Suc_le_eq antisym greaterThanAtMost_iff linorder_not_less order_refl subsetD zero_less_Suc
      le_zero_eq not_gr_zero)

text \<open>C28: A receiver that gets the batches of a sender's run in any order and any number of times
  acknowledges the newest record of the run, and knows it has no gap.\<close>

theorem batches_in_any_order_acknowledged:
  assumes "sorted_wrt (<) (map (ir_seq \<circ> fst) records)" "\<forall>x \<in> set records. 0 < ir_seq (fst x)"
    and "records \<noteq> []"
    and "set arrivals = (\<lambda>b. (source, bt_seq_low b, bt_seq_high b)) `
      set (form base folder source now records 0)"
  shows "(let ix = receive_all arrivals (index_new own host)
    in peer_seq ix source = ir_seq (fst (last records)) \<and> \<not> peer_has_gap ix source)"
proof -
  let ?bs = "form base folder source now records 0"
  have "(\<Union>b \<in> set ?bs. {bt_seq_low b<..bt_seq_high b}) = {0<..ir_seq (fst (last records))}"
    using chained_union [OF form_from_chained [of 0 base folder source now 0 records]] form_from_ascends [OF assms(1,2)] assms(3)
    by (simp add: form_def)
  then have got: "received_from source arrivals = {0<..ir_seq (fst (last records))}"
    by (auto simp: received_from_def assms(4))
  have "\<forall>(p, lo, hi) \<in> set arrivals. lo < hi"
    using form_from_ascends [OF assms(1,2)] by (auto simp: assms(4) form_def)
  note gap = contiguous_no_gap [OF this got, of own host]
  have "peer_seq (receive_all arrivals (index_new own host)) source = ir_seq (fst (last records))"
    using watermark_mark_exact [of arrivals own host source] by (intro prefix_unique) (simp_all add: got)
  with gap show ?thesis by (simp add: Let_def)
qed

lemma batches_in_any_order_acknowledged_witness:
  "peer_seq (receive_all (map (\<lambda>b. (here, bt_seq_low b, bt_seq_high b))
     (rev (form (BatchId [0]) (FolderId [0]) here 0 outgoing_a 0))) (index_new there host0)) here = 2"
  using batches_in_any_order_acknowledged [of outgoing_a "map (\<lambda>b. (here, bt_seq_low b, bt_seq_high b))
     (rev (form (BatchId [0]) (FolderId [0]) here 0 outgoing_a 0))" here "BatchId [0]" "FolderId [0]" 0 there host0]
  by (simp add: Let_def) (simp add: outgoing_a_def)

end
