(* ===== verification/Receiving.thy ===== *)
theory Receiving
  imports BatchLaws
begin

text \<open>
  What receiving a batch promises (\<open>classify\<close> and \<open>apply_set\<close> of \<open>batch.rs\<close>, with \<open>adopt\<close> of
  \<open>index.rs\<close>): what is applied dominates, the mode agrees with the disk, a losing edit is copied, and
  machines that receive the same edits in any order end with the same record.
\<close>

abbreviation mine :: entry where "mine \<equiv> entry_of here 7 5"
abbreviation theirs :: entry where "theirs \<equiv> entry_of there 8 6"

lemma ix1_mine: "bm_get (ix_records ix1) (e_path theirs) = Some \<lparr>ir_entry = mine, ir_seq = 1\<rparr>"
  using ix1_record by (simp add: entry_of_def)

section \<open>The cases of \<open>classify\<close>\<close>

lemma classify_absent:
  "bm_get (ix_records ix) (e_path e) = None \<Longrightarrow>
     classify ix e = \<lparr>cl_item = Some \<lparr>ai_entry = e, ai_mode = mode_for e None, ai_conflict = None\<rparr>,
                      cl_fallback = False\<rparr>"
  by (simp add: classify_def ix_get_def)

lemma join_winner:
  "merged (case w_side (winner a b) of First \<Rightarrow> a | Second \<Rightarrow> b)
          (case w_side (winner a b) of First \<Rightarrow> b | Second \<Rightarrow> a) = reg.join a b"
  using resolve_is_join [of a b] by (simp add: resolve_def Let_def split: side.splits)

text \<open>One equation for each relation between the versions.\<close>

lemma classify_present:
  assumes "bm_get (ix_records ix) (e_path e) = Some r"
  shows "compare (e_version e) (e_version (ir_entry r)) = Dominates \<Longrightarrow>
      cl_item (classify ix e) =
        Some \<lparr>ai_entry = e, ai_mode = mode_for e (Some (ir_entry r)), ai_conflict = None\<rparr>"
    and "compare (e_version e) (e_version (ir_entry r)) \<in> {Equal, Dominated} \<Longrightarrow>
      cl_item (classify ix e) = None"
    and "compare (e_version e) (e_version (ir_entry r)) = Concurrent \<Longrightarrow>
      \<exists>mode copy. cl_item (classify ix e) =
        Some \<lparr>ai_entry = reg.join e (ir_entry r), ai_mode = mode, ai_conflict = copy\<rparr>"
  using assms join_winner [of e "ir_entry r"]
  by (auto simp: classify_def ix_get_def Let_def resolve_is_join split: side.splits)

lemma classify_concurrent:
  assumes "bm_get (ix_records ix) (e_path e) = Some r"
    and "compare (e_version e) (e_version (ir_entry r)) = Concurrent"
  defines "l \<equiv> ir_entry r"
  shows "same_content l e \<Longrightarrow>
      \<exists>m mode. cl_item (classify ix e) = Some \<lparr>ai_entry = m, ai_mode = mode, ai_conflict = None\<rparr> \<and>
        (m = merged e l \<or> m = merged l e) \<and>
        mode = (if e_kind m = File \<and> \<not> e_deleted m \<and> e_mtime m \<noteq> e_mtime l
                then MetadataOnly else IndexOnly)"
    and "\<not> same_content l e \<Longrightarrow> w_side (winner e l) = Second \<Longrightarrow>
      cl_item (classify ix e) =
        Some \<lparr>ai_entry = merged l e, ai_mode = IndexOnly, ai_conflict = None\<rparr>"
    and "\<not> same_content l e \<Longrightarrow> w_side (winner e l) = First \<Longrightarrow>
      cl_item (classify ix e) =
        Some \<lparr>ai_entry = merged e l,
              ai_mode = (if e_deleted e \<or> e_kind e = Dir then Direct else Fetch),
              ai_conflict = (if e_deleted l then None else
                map_option (\<lambda>p. \<lparr>cc_path = p, cc_loser = l\<rparr>)
                  (opt_filter (\<lambda>p. ix_live ix p = None) (conflict_copy_name l)))\<rparr>"
  using assms(1,2)
  by (cases "w_side (winner e l)";
      simp add: classify_def ix_get_def Let_def resolve_def merged_def l_def)+

text \<open>The entry a path is left with.\<close>

definition settled :: "index \<Rightarrow> entry \<Rightarrow> entry option" where
  "settled ix incoming =
     (case cl_item (classify ix incoming) of
        Some item \<Rightarrow> Some (ai_entry item)
      | None \<Rightarrow> map_option ir_entry (bm_get (ix_records ix) (e_path incoming)))"

text \<open>What a received entry would replace the record with is at the same path and dominates the
  record, and dominates or equals the entry received; nothing is applied exactly if the record
  already dominates or equals the entry.\<close>

theorem classify_dominates:
  assumes "bm_get (ix_records ix) (e_path e) = Some r"
    and "e_path (ir_entry r) = e_path e"
  shows "(case cl_item (classify ix e) of
      Some item \<Rightarrow> ai_path item = e_path e \<and>
        dominates (e_version (ai_entry item)) (e_version (ir_entry r)) \<and>
        dominates_or_equals (e_version (ai_entry item)) (e_version e)
    | None \<Rightarrow> dominates_or_equals (e_version (ir_entry r)) (e_version e))"
proof (cases "compare (e_version e) (e_version (ir_entry r))")
  case Concurrent
  then obtain mode copy where "cl_item (classify ix e) =
      Some \<lparr>ai_entry = reg.join e (ir_entry r), ai_mode = mode, ai_conflict = copy\<rparr>"
    using classify_present(3) [OF assms(1)] by blast
  moreover have "\<not> version_le (e_version e) (e_version (ir_entry r))"
    using Concurrent by (simp add: relation_simps)
  moreover have "version_le (e_version e) (merge (e_version e) (e_version (ir_entry r)))"
    and "version_le (e_version (ir_entry r)) (merge (e_version e) (e_version (ir_entry r)))"
    by (simp_all add: version_le_def)
  moreover have "e_path (reg.join e (ir_entry r)) = e_path e"
    using assms(2) by (simp add: reg.join_place)
  ultimately show ?thesis
    by (auto simp: ai_path_def reg.join_ver dominates_iff dominates_or_equals_iff)
qed (use assms in \<open>auto simp: classify_present ai_path_def relation_simps\<close>)

lemma classify_dominates_witness:
  "(case cl_item (classify ix1 theirs) of
      Some item \<Rightarrow> ai_path item = path_a \<and>
        dominates (e_version (ai_entry item)) (e_version mine) \<and>
        dominates_or_equals (e_version (ai_entry item)) (e_version theirs)
    | None \<Rightarrow> dominates_or_equals (e_version mine) (e_version theirs))"
  using classify_dominates [OF ix1_mine] by (simp split: option.splits)

section \<open>The mode tells the truth about the disk\<close>

lemma same_content_version [simp]:
  "same_content (e\<lparr>e_version := v\<rparr>) f = same_content e f"
  "same_content e (f\<lparr>e_version := v\<rparr>) = same_content e f"
  by (simp_all add: same_content_def)

lemma same_content_file:
  "same_content l m \<Longrightarrow> e_kind l = File \<Longrightarrow> \<not> e_deleted l \<Longrightarrow> \<not> e_deleted m \<and> e_kind m = File"
  by (auto simp: same_content_def split: if_splits)

text \<open>An entry is applied without touching content only if the record has its content already, and
  without touching the disk at all only if the modification time is right too; content is fetched
  only for a live file or symlink whose content differs.\<close>

theorem mode_agrees_with_disk:
  assumes "cl_item (classify ix e) = Some item"
  shows "(case map_option ir_entry (bm_get (ix_records ix) (e_path e)) of
      Some l \<Rightarrow>
        (ai_mode item \<in> {MetadataOnly, IndexOnly} \<longleftrightarrow> same_content l (ai_entry item)) \<and>
        (ai_mode item = IndexOnly \<and> e_kind l = File \<and> \<not> e_deleted l \<longrightarrow>
           e_mtime l = e_mtime (ai_entry item))
    | None \<Rightarrow> ai_mode item \<in> {Fetch, Direct}) \<and>
    (ai_mode item = Fetch \<longrightarrow>
       \<not> e_deleted (ai_entry item) \<and> e_kind (ai_entry item) \<noteq> Dir) \<and>
    (ai_mode item = MetadataOnly \<longrightarrow>
       \<not> e_deleted (ai_entry item) \<and> e_kind (ai_entry item) = File) \<and>
    ai_mode item \<noteq> Trash"
proof (cases "bm_get (ix_records ix) (e_path e)")
  case None
  with assms show ?thesis by (auto simp: classify_absent mode_for_def is_some_and_iff split: if_splits)
next
  case (Some r)
  show ?thesis
  proof (cases "compare (e_version e) (e_version (ir_entry r))")
    case Dominates
    then have "item = \<lparr>ai_entry = e, ai_mode = mode_for e (Some (ir_entry r)), ai_conflict = None\<rparr>"
      using assms classify_present(1) [OF Some] by simp
    then show ?thesis
      by (cases "same_content (ir_entry r) e"; cases "e_kind e"; cases "e_deleted e";
          cases "e_kind (ir_entry r)"; cases "e_deleted (ir_entry r)")
        (simp_all add: Some mode_for_def is_some_and_iff same_content_def)
  next
    case Concurrent
    note con = classify_concurrent [OF Some Concurrent]
    show ?thesis
    proof (cases "same_content (ir_entry r) e")
      case True
      then obtain m mode where
        "item = \<lparr>ai_entry = m, ai_mode = mode, ai_conflict = None\<rparr>"
        "m = merged e (ir_entry r) \<or> m = merged (ir_entry r) e"
        "mode = (if e_kind m = File \<and> \<not> e_deleted m \<and> e_mtime m \<noteq> e_mtime (ir_entry r)
                 then MetadataOnly else IndexOnly)"
        using con(1) assms by auto
      moreover have "same_content (ir_entry r) (merged e (ir_entry r))"
        "same_content (ir_entry r) (merged (ir_entry r) e)" using True by (simp_all add: merged_def)
      ultimately show ?thesis using same_content_file [of "ir_entry r" m] by (auto simp: Some)
    next
      case False
      have "same_content (ir_entry r) (merged (ir_entry r) e)"
        "\<not> same_content (ir_entry r) (merged e (ir_entry r))" using False by (simp_all add: merged_def)
      then show ?thesis
        using con(2,3) [OF False] assms
        by (cases "w_side (winner e (ir_entry r))") (auto simp: Some merged_def)
    qed
  qed (use assms Some in \<open>auto simp: classify_present\<close>)
qed

lemma mode_agrees_with_disk_witness:
  "\<not> same_content mine (ai_entry (the (cl_item (classify ix1 theirs)))) \<and>
   ai_mode (the (cl_item (classify ix1 theirs))) = Fetch"
proof -
  have "cl_item (classify ix1 theirs) = Some (the (cl_item (classify ix1 theirs)))"
    and mode: "ai_mode (the (cl_item (classify ix1 theirs))) = Fetch" by code_simp+
  from mode_agrees_with_disk [OF this(1)] mode show ?thesis by (simp add: ix1_record)
qed

text \<open>C22: No edit is lost to a conflict: when a concurrent entry with other content wins over a live
  local one, the item carries the conflict copy of the local entry at its conflict name, unless a
  live record is there already (or the name is not a valid path).\<close>

theorem losing_edit_is_copied:
  assumes "bm_get (ix_records ix) (e_path e) = Some r" and "l = ir_entry r"
    and "\<not> e_deleted l" and "compare (e_version e) (e_version l) = Concurrent"
    and "\<not> same_content l e" and "w_side (winner e l) = First"
    and "conflict_copy_name l = Some p" and "ix_live ix p = None"
  shows "\<exists>item. cl_item (classify ix e) = Some item \<and>
    ai_conflict item = Some \<lparr>cc_path = p, cc_loser = l\<rparr> \<and> ai_mode item \<in> {Fetch, Direct} \<and>
    same_content (ai_entry item) e"
  using assms by (simp add: classify_def ix_get_def Let_def resolve_def merged_def)

lemma losing_edit_is_copied_witness:
  "\<exists>item. cl_item (classify ix1 theirs) = Some item \<and>
     ai_conflict item = Some \<lparr>cc_path = the (conflict_copy_name mine), cc_loser = mine\<rparr>"
proof -
  have "\<not> e_deleted mine" "compare (e_version theirs) (e_version mine) = Concurrent"
    "\<not> same_content mine theirs" "w_side (winner theirs mine) = First"
    "conflict_copy_name mine = Some (the (conflict_copy_name mine))"
    "ix_live ix1 (the (conflict_copy_name mine)) = None" by code_simp+
  from losing_edit_is_copied [OF ix1_mine _ this] show ?thesis by simp blast
qed

text \<open>A conflict copy is only ever made of the live local entry that lost, under its own conflict
  name, where nothing live is.\<close>

theorem copy_is_of_the_loser:
  assumes "cl_item (classify ix e) = Some item" and "ai_conflict item = Some c"
  shows "\<exists>r. bm_get (ix_records ix) (e_path e) = Some r \<and> cc_loser c = ir_entry r \<and>
    \<not> e_deleted (ir_entry r) \<and> conflict_copy_name (ir_entry r) = Some (cc_path c) \<and>
    ix_live ix (cc_path c) = None \<and> w_side (winner e (ir_entry r)) = First \<and>
    compare (e_version e) (e_version (ir_entry r)) = Concurrent \<and> \<not> same_content (ir_entry r) e"
proof (cases "bm_get (ix_records ix) (e_path e)")
  case None
  with assms show ?thesis by (auto simp: classify_absent)
next
  case (Some r)
  note con = classify_concurrent [OF Some]
  show ?thesis
  proof (cases "compare (e_version e) (e_version (ir_entry r))")
    case Concurrent
    then show ?thesis
      using assms con [OF Concurrent]
      by (cases "same_content (ir_entry r) e"; cases "w_side (winner e (ir_entry r))")
        (auto simp: Some split: if_splits)
  qed (use assms Some in \<open>auto simp: classify_present\<close>)
qed

lemma copy_is_of_the_loser_witness:
  "\<exists>r. bm_get (ix_records ix1) (e_path theirs) = Some r \<and>
     cc_loser (the (ai_conflict (the (cl_item (classify ix1 theirs))))) = ir_entry r"
proof -
  have "cl_item (classify ix1 theirs) = Some (the (cl_item (classify ix1 theirs)))"
    "ai_conflict (the (cl_item (classify ix1 theirs))) =
       Some (the (ai_conflict (the (cl_item (classify ix1 theirs)))))" by code_simp+
  from copy_is_of_the_loser [OF this] show ?thesis by blast
qed

section \<open>The apply set\<close>

lemma last_by_path_props:
  "bm_get (fst (last_by_path es)) p = find (\<lambda>e. e_path e = p) (rev es)"
  "bm_len (fst (last_by_path es)) + snd (last_by_path es) = length es"
proof -
  have len: "bm_len (bm_insert k v m) = (if bm_has m k then bm_len m else Suc (bm_len m))"
    for k :: rel_path and v :: entry and m
  proof -
    have "bm_len m' = card {k. bm_has m' k}" for m' :: "(rel_path, entry) bmap"
    proof -
      have "{k. bm_has m' k} = set (bm_keys m')" using in_bm_keys by blast
      then show ?thesis
        using distinct_card [OF bm_keys_distinct [of m']] by (simp add: bm_len_def bm_keys_def)
    qed
    moreover have "{k'. bm_has (bm_insert k v m) k'} = insert k {k'. bm_has m k'}" by auto
    moreover have "finite {k'. bm_has m k'}"
    proof -
      have "{k'. bm_has m k'} = set (bm_keys m)" using in_bm_keys by blast
      then show ?thesis by simp
    qed
    ultimately show ?thesis by (simp add: card_insert_if)
  qed
  show "bm_get (fst (last_by_path es)) p = find (\<lambda>e. e_path e = p) (rev es)"
    by (induction es rule: rev_induct) (auto simp: last_by_path_def split_def)
  have "bm_len (fst (last_by_path es)) + snd (last_by_path es) = length es"
  proof (induction es rule: rev_induct)
    case Nil
    show ?case by (simp add: last_by_path_def bm_len_def)
  next
    case (snoc e es)
    have "last_by_path (es @ [e]) = (bm_insert (e_path e) e (fst (last_by_path es)),
        if bm_has (fst (last_by_path es)) (e_path e) then Suc (snd (last_by_path es))
        else snd (last_by_path es))"
      by (simp add: last_by_path_def split_def)
    with snoc show ?case by (simp add: len del: bm_has_iff)
  qed
  then show "bm_len (fst (last_by_path es)) + snd (last_by_path es) = length es" .
qed

lemma classify_all_eq:
  "classify_all ix es =
     (List.map_filter (cl_item \<circ> classify ix) es,
      length (filter (\<lambda>e. cl_item (classify ix e) = None) es),
      length (filter (cl_fallback \<circ> classify ix) es))"
  by (induction es rule: rev_induct)
    (auto simp: classify_all_def Let_def List.map_filter_def split: option.splits)

lemma classify_path:
  assumes "ix_ok ix" and "cl_item (classify ix e) = Some item"
  shows "ai_path item = e_path e"
proof (cases "bm_get (ix_records ix) (e_path e)")
  case None
  with assms(2) show ?thesis by (auto simp: classify_absent ai_path_def)
next
  case (Some r)
  then have "e_path (ir_entry r) = e_path e"
    using ix_okD(2) [OF assms(1)] held_record by blast
  from classify_dominates [OF Some this] show ?thesis by (simp add: assms(2))
qed

lemma map_filter_sorted:
  assumes "sorted_wrt (<) (map f xs)" and "\<And>x y. x \<in> set xs \<Longrightarrow> g x = Some y \<Longrightarrow> h y = f x"
  shows "sorted_wrt (<) (map h (List.map_filter g xs))"
  using assms
proof (induction xs)
  case (Cons x xs)
  have "f x < h y" if "y \<in> set (List.map_filter g xs)" for y
  proof -
    obtain z where "z \<in> set xs" "g z = Some y" using \<open>y \<in> _\<close> by (auto simp: in_map_filter)
    then have "h y = f z" "f x < f z" using Cons.prems by simp_all
    then show ?thesis by simp
  qed
  moreover have "h y = f x" if "g x = Some y" for y using Cons.prems(2) [OF _ that] by simp
  moreover have "sorted_wrt (<) (map h (List.map_filter g xs))" using Cons by simp
  ultimately show ?case by (auto simp: List.map_filter_simps split: option.splits)
qed (simp add: List.map_filter_simps)

lemma map_filter_length:
  "length (List.map_filter f xs) + length (filter (\<lambda>x. f x = None) xs) = length xs"
  by (induction xs) (auto simp: List.map_filter_simps split: option.splits)

text \<open>C21: The apply set of a batch: for each path of the batch its last entry decides, the items are in
  strictly increasing path order (so parents come before children), and every entry of the batch is
  accounted for, as an item, as ignored or as a duplicate.\<close>

theorem apply_set_complete:
  assumes ok: "ix_ok ix"
  shows "sorted_wrt (<) (map ai_path (as_items (compute_apply_set ix b))) \<and>
    set (as_items (compute_apply_set ix b)) =
      {item. \<exists>p e. find (\<lambda>e. e_path e = p) (rev (bt_entries b)) = Some e \<and>
                   cl_item (classify ix e) = Some item} \<and>
    length (as_items (compute_apply_set ix b)) + as_ignored (compute_apply_set ix b) +
      as_duplicates (compute_apply_set ix b) = length (bt_entries b)"
proof -
  let ?last = "fst (last_by_path (bt_entries b))"
  let ?items = "List.map_filter (cl_item \<circ> classify ix) (bm_values ?last)"
  have set: "as_items (compute_apply_set ix b) = sort_key ai_path ?items"
    "as_ignored (compute_apply_set ix b) =
       length (filter (\<lambda>e. (cl_item \<circ> classify ix) e = None) (bm_values ?last))"
    "as_duplicates (compute_apply_set ix b) = snd (last_by_path (bt_entries b))"
    by (simp_all add: compute_apply_set_def Let_def split_def classify_all_eq)
  have path: "e_path e = p" if "bm_get ?last p = Some e" for p e
    using that unfolding last_by_path_props by (auto simp: find_Some_iff)
  then have "map e_path (bm_values ?last) = bm_keys ?last"
    by (auto simp: bm_values_def bm_keys_def in_bm_entries)
  then have sorted: "sorted_wrt (<) (map ai_path ?items)"
    by (intro map_filter_sorted [where f = e_path])
      (simp_all add: bm_keys_sorted classify_path [OF ok])
  then have "sort_key ai_path ?items = ?items"
    by (intro sort_key_id_if_sorted) (simp add: strict_sorted_iff)
  moreover have "set ?items = {item. \<exists>p e. find (\<lambda>e. e_path e = p) (rev (bt_entries b)) = Some e \<and>
      cl_item (classify ix e) = Some item}"
    by (simp add: in_map_filter Bex_def in_bm_values last_by_path_props set_eq_iff) blast
  moreover have "length ?items +
      length (filter (\<lambda>e. (cl_item \<circ> classify ix) e = None) (bm_values ?last)) +
      snd (last_by_path (bt_entries b)) = length (bt_entries b)"
    unfolding map_filter_length using last_by_path_props(2) [of "bt_entries b"]
    by (simp add: bm_len_def bm_values_def)
  ultimately show ?thesis using sorted unfolding set by simp
qed

definition batch_b :: batch where
  "batch_b = \<lparr>bt_id = BatchId [0], bt_folder = FolderId [0], bt_source = there, bt_created = 0,
     bt_seq_low = 0, bt_seq_high = 2, bt_entries = [entry_of there 9 4, theirs],
     bt_summary = summary_default\<rparr>"

lemma apply_set_complete_witness:
  "as_duplicates (compute_apply_set ix1 batch_b) = 1 \<and>
   length (as_items (compute_apply_set ix1 batch_b)) + as_ignored (compute_apply_set ix1 batch_b) + 1 = 2"
proof -
  have "as_duplicates (compute_apply_set ix1 batch_b) = 1" "length (bt_entries batch_b) = 2"
    by code_simp+
  then show ?thesis using apply_set_complete [OF ix1_ok, of batch_b] by simp
qed

section \<open>Convergence\<close>

text \<open>The edits made at one path: each was written at its author's next counter, which every version
  that has seen the edit carries; and an edit made over another ranks above it (\<open>stamps_rise\<close>).\<close>

definition causal :: "rel_path \<Rightarrow> entry list \<Rightarrow> bool" where
  "causal p edits \<longleftrightarrow>
     (\<forall>x \<in> set edits. e_path x = p \<and> counter (e_version x) (e_by x) \<noteq> 0 \<and>
       (\<forall>y \<in> set edits.
         (counter (e_version x) (e_by x) \<le> counter (e_version y) (e_by x) \<longrightarrow>
            dominates_or_equals (e_version y) (e_version x)) \<and>
         (dominates_or_equals (e_version y) (e_version x) \<longrightarrow> content_key x \<le> content_key y)))"

text \<open>What a machine that has seen some of the edits holds, and hands on.\<close>

definition joined :: "entry list \<Rightarrow> entry" where
  "joined es = foldl reg.join (hd es) (tl es)"

text \<open>Receiving an entry: it is classified and, where it applies, committed and adopted.\<close>

definition receive_entry :: "index \<Rightarrow> entry \<Rightarrow> index" where
  "receive_entry ix e =
     (case cl_item (classify ix e) of
        Some item \<Rightarrow> snd (adopt (ai_entry item) ix) | None \<Rightarrow> ix)"

lemma counter_fold_attained:
  "\<exists>w \<in> insert v (set vs). counter (foldl merge v vs) n = counter w n"
proof (induction vs rule: rev_induct)
  case (snoc x vs)
  then show ?case by (auto simp: max_def)
qed simp

lemma joined_props:
  assumes "causal p edits" "S \<noteq> []" "set S \<subseteq> set edits"
  shows "e_path (joined S) = p" and "x \<in> set S \<Longrightarrow> version_le (e_version x) (e_version (joined S))"
    and "\<exists>x \<in> set S. counter (e_version (joined S)) n = counter (e_version x) n"
    and "content_key (joined S) = Max (content_key ` set S)"
proof -
  obtain a es where S: "S = a # es" using assms(2) by (cases S) auto
  have place: "\<forall>e \<in> set es. e_path e = e_path a" "e_path a = p"
    using assms(1,3) by (auto simp: causal_def S)
  note fold = reg.fold_join [OF place(1)]
  show "e_path (joined S) = p" using fold(1) place(2) by (simp add: joined_def S)
  show "x \<in> set S \<Longrightarrow> version_le (e_version x) (e_version (joined S))"
    using fold(2) by (auto simp: joined_def S intro!: ver.fold_lub_upper)
  show "\<exists>x \<in> set S. counter (e_version (joined S)) n = counter (e_version x) n"
    using counter_fold_attained [of "e_version a" "map e_version es" n] fold(2)
    by (auto simp: joined_def S)
  show "content_key (joined S) = Max (content_key ` set S)"
    using fold(3) foldl_max_set [of "content_key a" "map content_key es"] by (simp add: joined_def S)
qed

lemma joined_set:
  assumes "xs \<noteq> []" "ys \<noteq> []" "\<forall>e \<in> set xs. e_path e = p" "set xs = set ys"
  shows "joined xs = joined ys"
proof -
  obtain a as b bs where "xs = a # as" "ys = b # bs" using assms(1,2) by (cases xs; cases ys) auto
  then show ?thesis
    using reg.fold_join_set [OF assms(3,4) [unfolded \<open>xs = a # as\<close> \<open>ys = b # bs\<close>]]
    by (simp add: joined_def)
qed

lemma joined_prime:
  assumes c: "causal p edits" and S: "S \<noteq> []" "set S \<subseteq> set edits" and x: "x \<in> set edits"
    and le: "version_le (e_version x) (e_version (joined S))"
  shows "\<exists>s \<in> set S. version_le (e_version x) (e_version s)"
proof -
  obtain s where s: "s \<in> set S"
    "counter (e_version (joined S)) (e_by x) = counter (e_version s) (e_by x)"
    using joined_props(3) [OF c S] by blast
  then have "counter (e_version x) (e_by x) \<le> counter (e_version s) (e_by x)"
    using le by (metis version_le_def)
  with c x s(1) S(2) have "dominates_or_equals (e_version s) (e_version x)"
    unfolding causal_def by blast
  with s(1) show ?thesis by (auto simp: relation_simps)
qed

lemma joined_key_mono:
  assumes c: "causal p edits" and S: "S \<noteq> []" "set S \<subseteq> set edits" and T: "T \<noteq> []" "set T \<subseteq> set edits"
    and le: "version_le (e_version (joined S)) (e_version (joined T))"
  shows "content_key (joined S) \<le> content_key (joined T)"
proof -
  have "content_key x \<le> Max (content_key ` set T)" if x: "x \<in> set S" for x
  proof -
    have "version_le (e_version x) (e_version (joined T))"
      using joined_props(2) [OF c S x] le version_le_trans by blast
    then obtain t where t: "t \<in> set T" "version_le (e_version x) (e_version t)"
      using joined_prime [OF c T] x S(2) by blast
    then have "content_key x \<le> content_key t"
      using c S(2) T(2) x unfolding causal_def by (auto simp: relation_simps)
    also have "\<dots> \<le> Max (content_key ` set T)" using t(1) by simp
    finally show ?thesis .
  qed
  then show ?thesis using S(1) by (simp add: joined_props(4) [OF c S] joined_props(4) [OF c T])
qed

lemma joined_append:
  assumes "causal p edits" "S \<noteq> []" "T \<noteq> []" "set S \<subseteq> set edits" "set T \<subseteq> set edits"
  shows "reg.join (joined T) (joined S) = joined (S @ T)"
proof -
  obtain a es b fs where *: "S = a # es" "T = b # fs"
    using assms(2,3) by (cases S; cases T) auto
  have "foldl reg.join (reg.join a b) gs = reg.join a (foldl reg.join b gs)"
    if "\<forall>g \<in> set gs. e_path g = p" "e_path a = p" "e_path b = p" for gs a b
    using that
  proof (induction gs arbitrary: b)
    case (Cons g gs)
    then have "reg.join (reg.join a b) g = reg.join a (reg.join b g)"
      by (intro reg.join_assoc) auto
    moreover have "e_path (reg.join b g) = p" using Cons.prems by (simp add: reg.join_place)
    ultimately show ?case using Cons by simp
  qed simp
  moreover have "\<forall>g \<in> set fs. e_path g = p" "e_path b = p"
    using assms(1,5) by (auto simp: causal_def *)
  moreover have "e_path (joined S) = p" using joined_props(1) [OF assms(1,2,4)] .
  ultimately have "joined (S @ T) = reg.join (joined S) (joined T)"
    by (simp add: joined_def *)
  then show ?thesis
    using joined_props(1) [OF assms(1,2,4)] joined_props(1) [OF assms(1,3,5)]
    by (simp add: reg.join_comm)
qed

lemma receive_joined:
  assumes c: "causal p edits" and S: "S \<noteq> []" "set S \<subseteq> set edits" and T: "T \<noteq> []" "set T \<subseteq> set edits"
    and rec: "map_option ir_entry (bm_get (ix_records ix) p) = Some (joined S)"
  shows "map_option ir_entry (bm_get (ix_records (receive_entry ix (joined T))) p) =
    Some (joined (S @ T))"
proof -
  obtain r where r: "bm_get (ix_records ix) (e_path (joined T)) = Some r" "ir_entry r = joined S"
    using rec joined_props(1) [OF c T] by auto
  have paths: "e_path (joined S) = p" "e_path (joined T) = p"
    using joined_props(1) [OF c S] joined_props(1) [OF c T] .
  note dom = classify_dominates [OF r(1)]
  have app: "joined (S @ T) = reg.join (joined T) (joined S)"
    using joined_append [OF c S(1) T(1) S(2) T(2)] by simp
  have dominated: "joined (S @ T) = joined S" if "version_le (e_version (joined T)) (e_version (joined S))"
    using joined_key_mono [OF c T S that] that paths
    unfolding app by (intro reg.join_below) (simp_all add: paths)
  show ?thesis
  proof (cases "compare (e_version (joined T)) (e_version (joined S))")
    case Dominates
    then have le: "version_le (e_version (joined S)) (e_version (joined T))"
      by (simp add: relation_simps)
    then have "joined (S @ T) = joined T"
      using joined_key_mono [OF c S T le] by (simp add: app reg.join_def ver.lub_absorb)
    with Dominates le r paths show ?thesis
      by (simp add: receive_entry_def classify_present adopt_def Let_def is_none_or_iff
          dominates_or_equals_iff)
  next
    case Concurrent
    then obtain mode copy where cl: "cl_item (classify ix (joined T)) =
        Some \<lparr>ai_entry = reg.join (joined T) (joined S), ai_mode = mode, ai_conflict = copy\<rparr>"
      using classify_present(3) [OF r(1)] r(2) by auto
    have "version_le (e_version (joined S)) (e_version (reg.join (joined T) (joined S)))"
      by (simp add: reg.join_ver version_le_def)
    moreover have "e_path (reg.join (joined T) (joined S)) = p"
      using paths by (simp add: reg.join_place)
    ultimately show ?thesis
      using r paths cl by (simp add: receive_entry_def adopt_def Let_def is_none_or_iff
          dominates_or_equals_iff app)
  qed (use rec r dominated in \<open>auto simp: receive_entry_def classify_present relation_simps\<close>)
qed

lemma receive_first:
  assumes "bm_get (ix_records ix) p = None" "e_path e = p"
  shows "map_option ir_entry (bm_get (ix_records (receive_entry ix e)) p) = Some e"
  using assms by (simp add: receive_entry_def classify_absent adopt_def Let_def is_none_or_iff)

lemma receive_run:
  assumes c: "causal p edits" and "\<forall>S \<in> set Ss. S \<noteq> [] \<and> set S \<subseteq> set edits" and "Ss \<noteq> []"
    and none: "bm_get (ix_records ix) p = None"
  shows "map_option ir_entry (bm_get (ix_records (foldl receive_entry ix (map joined Ss))) p) =
    Some (joined (concat Ss))"
  using assms(2,3)
proof (induction Ss rule: rev_induct)
  case (snoc S Ss)
  show ?case
  proof (cases "Ss = []")
    case True
    then show ?thesis
      using receive_first [OF none joined_props(1) [OF c, of S]] snoc.prems by simp
  next
    case False
    have "set (concat Ss) \<subseteq> set edits" "concat Ss \<noteq> []"
      using snoc.prems(1) False by auto
    with receive_joined [OF c] snoc False show ?thesis by simp
  qed
qed simp

text \<open>C17: Strong convergence. Machines that start without a record of a path and receive any merges of
  the edits made to it, in any order and grouping, end with the same entry as soon as the edits they
  have received are the same.\<close>

theorem convergence:
  assumes "causal p edits"
    and "\<forall>S \<in> set Ss \<union> set Ts. S \<noteq> [] \<and> set S \<subseteq> set edits"
    and "set (concat Ss) = set (concat Ts)"
    and "bm_get (ix_records ix) p = None" and "bm_get (ix_records ix') p = None"
  shows "map_option ir_entry (bm_get (ix_records (foldl receive_entry ix (map joined Ss))) p) =
    map_option ir_entry (bm_get (ix_records (foldl receive_entry ix' (map joined Ts))) p)"
proof (cases "Ss = []")
  case True
  then have "Ts = []" using assms(2,3) by (cases Ts) auto
  with True assms(4,5) show ?thesis by simp
next
  case False
  then obtain S Ss' where "Ss = S # Ss'" by (cases Ss) auto
  then have ne: "concat Ss \<noteq> []" using assms(2) by simp
  moreover have "concat Ts \<noteq> []"
    using ne by (simp only: set_empty [symmetric] assms(3) not_False_eq_True)
  moreover from this have "Ts \<noteq> []" by (cases Ts) simp_all
  ultimately have ne: "concat Ss \<noteq> []" "Ts \<noteq> []" "concat Ts \<noteq> []" by blast+
  have "joined (concat Ss) = joined (concat Ts)"
  proof -
    have "\<forall>e \<in> set (concat Ss). e_path e = p"
    proof
      fix e assume "e \<in> set (concat Ss)"
      then obtain S where "S \<in> set Ss" "e \<in> set S" by auto
      then have "e \<in> set edits" using assms(2) by blast
      then show "e_path e = p" using assms(1) unfolding causal_def by blast
    qed
    then show ?thesis by (rule joined_set [OF ne(1,3) _ assms(3)])
  qed
  then show ?thesis
    using receive_run [OF assms(1) _ False assms(4)] receive_run [OF assms(1) _ ne(2) assms(5)] assms(2)
    by auto
qed

lemma convergence_witness:
  "map_option ir_entry (bm_get (ix_records
     (foldl receive_entry ix0 (map joined [[mine], [theirs]]))) path_a) =
   map_option ir_entry (bm_get (ix_records
     (foldl receive_entry ix0 (map joined [[theirs, mine], [mine]]))) path_a)"
proof (rule convergence [where edits = "[mine, theirs]"])
  show "causal path_a [mine, theirs]" by code_simp
  show "bm_get (ix_records ix0) path_a = None" "bm_get (ix_records ix0) path_a = None" by code_simp+
qed auto

end
