(* ===== verification/Brakes.thy ===== *)
theory Brakes
  imports Receiving
begin

text \<open>
  \<open>crates/engine/src/rules.rs\<close> and \<open>brake.rs\<close>: the per-folder thresholds, the brake's rules H1 and
  H2, and the summary a receiver holds an apply set against.
\<close>

section \<open>The rules\<close>

definition GIB :: u64 where "GIB = 1024 * 1024 * 1024"
definition MIB :: u64 where "MIB = 1024 * 1024"

record rules =
  hold_count :: u64
  hold_pct :: byte
  hold_size :: u64
  direct_limit :: u64
  relay_limit :: u64
  max_fetches_per_peer :: "32 word"
  max_fetches_per_folder :: "32 word"

definition rules_default :: rules where
  "rules_default =
     \<lparr>hold_count = 50, hold_pct = 25, hold_size = 20 * GIB, direct_limit = GIB,
      relay_limit = 50 * MIB, max_fetches_per_peer = 4, max_fetches_per_folder = 16\<rparr>"

section \<open>The brake\<close>

datatype hold_reason = Count u64 nat | Size u64

definition hold_reason_display :: "hold_reason \<Rightarrow> string" where
  "hold_reason_display r = (case r of
     Count d tracked \<Rightarrow>
       (let pct = (if tracked = 0 then 100 else (d * 100) div of_nat tracked)
        in ''count: '' @ dec_digits (unat d) @ '' deletes and modifies = '' @
           dec_digits (unat pct) @ ''% of '' @ dec_digits tracked @ '' tracked'')
   | Size b \<Rightarrow> ''size: '' @ dec_digits (unat b) @ '' bytes of adds and modifies'')"

datatype verdict = Pass | Hold hold_reason

definition is_hold :: "verdict \<Rightarrow> bool" where
  "is_hold v = (case v of Hold _ \<Rightarrow> True | Pass \<Rightarrow> False)"

definition evaluate :: "rules \<Rightarrow> summary \<Rightarrow> nat \<Rightarrow> verdict" where
  "evaluate rs s tracked_before =
     (let d = destructive s;
          h1 = (0 < hold_count rs \<and> 0 < tracked_before \<and> hold_count rs \<le> d \<and>
                u64_sat_mul (ucast (hold_pct rs)) (of_nat tracked_before) \<le> u64_sat_mul d 100)
      in if h1 then Hold (Count d tracked_before)
         else if hold_size rs < sm_bytes s then Hold (Size (sm_bytes s))
         else Pass)"

definition receiver_count :: "index \<Rightarrow> apply_item \<Rightarrow> summary \<Rightarrow> summary" where
  "receiver_count ix item s =
     (if ai_mode item = MetadataOnly \<or> ai_mode item = IndexOnly then s
      else
        case (map_option ir_entry (ix_live ix (e_path (ai_entry item))), e_deleted (ai_entry item)) of
          (Some l, True) \<Rightarrow> if e_kind l \<noteq> Dir then s\<lparr>sm_dels := sm_dels s + 1\<rparr> else s
        | (None, True) \<Rightarrow> s
        | (None, False) \<Rightarrow>
            s\<lparr>sm_adds := sm_adds s + 1, sm_bytes := sm_bytes s + e_size (ai_entry item)\<rparr>
        | (Some l, False) \<Rightarrow>
            s\<lparr>sm_mods := sm_mods s + 1, sm_bytes := sm_bytes s + e_size (ai_entry item)\<rparr>)"

definition receiver_summary :: "index \<Rightarrow> apply_set \<Rightarrow> summary" where
  "receiver_summary ix aset =
     foldl (\<lambda>s item. receiver_count ix item s) summary_default (as_items aset)"

lemmas [eval_simps] =
  GIB_def MIB_def rules_default_def hold_reason_display_def is_hold_def evaluate_def
  receiver_count_def receiver_summary_def

section \<open>H1 and H2 are what they say\<close>

lemma unat_sat_mul: "unat (u64_sat_mul a b) = min (unat a * unat b) (2 ^ 64 - 1)"
proof (cases "2 ^ 64 \<le> unat a * unat b")
  case True
  then show ?thesis by (simp add: u64_sat_mul_def unsigned_minus_1_eq_mask mask_eq_exp_minus_1)
next
  case False
  then have "unat (a * b) = unat a * unat b"
    by (subst unat_word_ariths(2)) simp
  with False show ?thesis by (simp add: u64_sat_mul_def)
qed

lemma evaluate_exact:
  assumes "tracked < 2 ^ 56"
  shows "evaluate rs s tracked =
    (if 0 < unat (hold_count rs) \<and> 0 < tracked \<and> unat (hold_count rs) \<le> unat (destructive s) \<and>
        unat (hold_pct rs) * tracked \<le> 100 * unat (destructive s)
     then Hold (Count (destructive s) tracked)
     else if unat (hold_size rs) < unat (sm_bytes s) then Hold (Size (sm_bytes s))
     else Pass)"
proof -
  have "unat (hold_pct rs) * tracked < 2 ^ 8 * 2 ^ 56"
    using byte_lt [of "hold_pct rs"] assms by (intro mult_strict_mono) simp_all
  moreover have "unat (ucast (hold_pct rs) :: u64) = unat (hold_pct rs)"
    by (simp add: unsigned_ucast_eq take_bit_nat_def mod_less [OF less_trans [OF byte_lt]])
  moreover have "unat (of_nat tracked :: u64) = tracked"
    using assms by (simp add: unat_of_nat)
  ultimately have "unat (u64_sat_mul (ucast (hold_pct rs)) (of_nat tracked)) = unat (hold_pct rs) * tracked"
    by (simp add: unat_sat_mul)
  moreover have "unat (u64_sat_mul (destructive s) 100) =
      min (unat (destructive s) * 100) (2 ^ 64 - 1)"
    by (simp add: unat_sat_mul)
  ultimately have "u64_sat_mul (ucast (hold_pct rs)) (of_nat tracked) \<le> u64_sat_mul (destructive s) 100 \<longleftrightarrow>
      unat (hold_pct rs) * tracked \<le> 100 * unat (destructive s)"
    using \<open>_ < 2 ^ 8 * 2 ^ 56\<close> by (simp add: word_le_nat_alt) linarith
  then show ?thesis
    by (simp add: evaluate_def Let_def word_le_nat_alt word_less_nat_alt)
qed

text \<open>The brake holds a batch by count exactly if the number of deletes and modifies reaches both
  the count and the percentage of the tracked entries, as numbers, whatever saturates; otherwise by
  size exactly if the bytes exceed the limit.\<close>

theorem evaluate_spec:
  assumes "tracked < 2 ^ 56"
  shows "evaluate rs s tracked =
    (if 0 < unat (hold_count rs) \<and> 0 < tracked \<and> unat (hold_count rs) \<le> unat (destructive s) \<and>
        unat (hold_pct rs) * tracked \<le> 100 * unat (destructive s)
     then Hold (Count (destructive s) tracked)
     else if unat (hold_size rs) < unat (sm_bytes s) then Hold (Size (sm_bytes s))
     else Pass)"
  using assms by (rule evaluate_exact)

lemma evaluate_spec_witness:
  "evaluate rules_default \<lparr>sm_adds = 0, sm_mods = 30, sm_dels = 30, sm_bytes = 0\<rparr> 100 =
     Hold (Count 60 100)"
  by (subst evaluate_spec) (simp_all add: rules_default_def destructive_def)

section \<open>What the receiver counts\<close>

text \<open>The apply items \<section>8.1 calls a delete, a modify and an add.\<close>

definition touches_content :: "apply_item \<Rightarrow> bool" where
  "touches_content item \<longleftrightarrow> ai_mode item \<noteq> MetadataOnly \<and> ai_mode item \<noteq> IndexOnly"

definition is_del :: "index \<Rightarrow> apply_item \<Rightarrow> bool" where
  "is_del ix item \<longleftrightarrow> touches_content item \<and> e_deleted (ai_entry item) \<and>
     is_some_and (\<lambda>r. e_kind (ir_entry r) \<noteq> Dir) (ix_live ix (ai_path item))"

definition is_mod :: "index \<Rightarrow> apply_item \<Rightarrow> bool" where
  "is_mod ix item \<longleftrightarrow> touches_content item \<and> \<not> e_deleted (ai_entry item) \<and>
     ix_live ix (ai_path item) \<noteq> None"

definition is_add :: "index \<Rightarrow> apply_item \<Rightarrow> bool" where
  "is_add ix item \<longleftrightarrow> touches_content item \<and> \<not> e_deleted (ai_entry item) \<and>
     ix_live ix (ai_path item) = None"

definition count_if :: "('a \<Rightarrow> bool) \<Rightarrow> 'a list \<Rightarrow> nat" where
  "count_if P xs = length (filter P xs)"

definition counted_bytes :: "index \<Rightarrow> apply_item list \<Rightarrow> nat" where
  "counted_bytes ix items =
     sum_list (map (\<lambda>i. unat (e_size (ai_entry i))) (filter (\<lambda>i. is_mod ix i \<or> is_add ix i) items))"

lemma receiver_count_step:
  "receiver_count ix item s =
     \<lparr>sm_adds = sm_adds s + of_bool (is_add ix item), sm_mods = sm_mods s + of_bool (is_mod ix item),
      sm_dels = sm_dels s + of_bool (is_del ix item),
      sm_bytes = sm_bytes s +
        (if is_mod ix item \<or> is_add ix item then e_size (ai_entry item) else 0)\<rparr>"
  by (cases "ix_live ix (e_path (ai_entry item))"; cases "e_deleted (ai_entry item)")
    (auto simp: receiver_count_def is_add_def is_mod_def is_del_def touches_content_def ai_path_def
      is_some_and_iff)

lemma receiver_fold:
  "foldl (\<lambda>s item. receiver_count ix item s) summary_default items =
     \<lparr>sm_adds = of_nat (count_if (is_add ix) items), sm_mods = of_nat (count_if (is_mod ix) items),
      sm_dels = of_nat (count_if (is_del ix) items),
      sm_bytes = of_nat (counted_bytes ix items)\<rparr>"
  by (induction items rule: rev_induct)
    (auto simp: summary_default_def count_if_def counted_bytes_def receiver_count_step)

lemma disjoint_counts: "count_if (is_mod ix) items + count_if (is_del ix) items \<le> length items"
  by (induction items) (auto simp: count_if_def is_mod_def is_del_def)

lemma receiver_counts:
  assumes "length (as_items aset) < 2 ^ 64"
  shows "unat (sm_adds (receiver_summary ix aset)) = count_if (is_add ix) (as_items aset)"
    "unat (sm_mods (receiver_summary ix aset)) = count_if (is_mod ix) (as_items aset)"
    "unat (sm_dels (receiver_summary ix aset)) = count_if (is_del ix) (as_items aset)"
    "unat (destructive (receiver_summary ix aset)) =
      count_if (is_del ix) (as_items aset) + count_if (is_mod ix) (as_items aset)"
    "unat (sm_bytes (receiver_summary ix aset)) = counted_bytes ix (as_items aset) mod 2 ^ 64"
proof -
  have le: "count_if P (as_items aset) < 2 ^ 64" for P
    using assms by (simp add: count_if_def le_less_trans [OF length_filter_le])
  have "of_nat (count_if (is_del ix) (as_items aset)) + of_nat (count_if (is_mod ix) (as_items aset)) =
      (of_nat (count_if (is_del ix) (as_items aset) + count_if (is_mod ix) (as_items aset)) :: u64)"
    by simp
  moreover have "count_if (is_del ix) (as_items aset) + count_if (is_mod ix) (as_items aset) < 2 ^ 64"
    using disjoint_counts [of ix "as_items aset"] assms by linarith
  ultimately show "unat (sm_adds (receiver_summary ix aset)) = count_if (is_add ix) (as_items aset)"
    "unat (sm_mods (receiver_summary ix aset)) = count_if (is_mod ix) (as_items aset)"
    "unat (sm_dels (receiver_summary ix aset)) = count_if (is_del ix) (as_items aset)"
    "unat (destructive (receiver_summary ix aset)) =
      count_if (is_del ix) (as_items aset) + count_if (is_mod ix) (as_items aset)"
    "unat (sm_bytes (receiver_summary ix aset)) = counted_bytes ix (as_items aset) mod 2 ^ 64"
    using le by (simp_all add: receiver_summary_def receiver_fold destructive_def unat_of_nat
        del: of_nat_add)
qed

text \<open>The receiver's summary of an apply set counts its deletes, modifies and adds exactly, and its
  bytes modulo \<open>2 ^ 64\<close>.\<close>

theorem receiver_summary_counts:
  assumes "length (as_items aset) < 2 ^ 64"
  shows "unat (sm_adds (receiver_summary ix aset)) = count_if (is_add ix) (as_items aset) \<and>
    unat (sm_mods (receiver_summary ix aset)) = count_if (is_mod ix) (as_items aset) \<and>
    unat (sm_dels (receiver_summary ix aset)) = count_if (is_del ix) (as_items aset) \<and>
    unat (destructive (receiver_summary ix aset)) =
      count_if (is_del ix) (as_items aset) + count_if (is_mod ix) (as_items aset) \<and>
    unat (sm_bytes (receiver_summary ix aset)) = counted_bytes ix (as_items aset) mod 2 ^ 64"
  using receiver_counts [OF assms] by blast

lemma receiver_summary_counts_witness:
  "unat (sm_mods (receiver_summary ix1 (compute_apply_set ix1 batch_b))) = 1"
proof -
  have "count_if (is_mod ix1) (as_items (compute_apply_set ix1 batch_b)) = 1"
    "length (as_items (compute_apply_set ix1 batch_b)) = 1" by code_simp+
  then show ?thesis using receiver_summary_counts [of "compute_apply_set ix1 batch_b" ix1] by simp
qed

text \<open>C32: What passes the brake is bounded: an apply set that is not held deletes or overwrites fewer
  files than the count, or a smaller part of the tracked entries than the percentage, when H1 is
  enabled and the folder tracks anything.\<close>

theorem passing_bounds_damage:
  assumes "evaluate rs (receiver_summary ix aset) tracked = Pass"
    and "length (as_items aset) < 2 ^ 64" and "tracked < 2 ^ 56"
    and "0 < unat (hold_count rs)" and "0 < tracked"
  shows "count_if (is_del ix) (as_items aset) + count_if (is_mod ix) (as_items aset)
      < unat (hold_count rs) \<or>
    100 * (count_if (is_del ix) (as_items aset) + count_if (is_mod ix) (as_items aset))
      < unat (hold_pct rs) * tracked"
proof -
  have "evaluate rs s tracked = Pass \<Longrightarrow> unat (destructive s) < unat (hold_count rs) \<or>
      100 * unat (destructive s) < unat (hold_pct rs) * tracked" for s
    using evaluate_exact [OF assms(3), of rs s] assms(4,5) by (auto split: if_splits)
  then show ?thesis
    using assms(1) receiver_counts [OF assms(2), of ix] by metis
qed

lemma passing_bounds_damage_witness:
  "count_if (is_del ix1) (as_items (compute_apply_set ix1 batch_b)) +
     count_if (is_mod ix1) (as_items (compute_apply_set ix1 batch_b)) < 50 \<or>
   100 * (count_if (is_del ix1) (as_items (compute_apply_set ix1 batch_b)) +
     count_if (is_mod ix1) (as_items (compute_apply_set ix1 batch_b))) < 25 * tracked_count ix1"
proof -
  have "evaluate rules_default (receiver_summary ix1 (compute_apply_set ix1 batch_b)) (tracked_count ix1) = Pass"
    and len: "length (as_items (compute_apply_set ix1 batch_b)) = 1" "tracked_count ix1 = 1"
    by code_simp+
  from passing_bounds_damage [OF this(1)] len show ?thesis by (simp add: rules_default_def)
qed


definition huge :: "string \<Rightarrow> apply_item" where
  "huge p = \<lparr>ai_entry = theirs\<lparr>e_path := RelPath p, e_size := 2 ^ 63\<rparr>, ai_mode = Fetch, ai_conflict = None\<rparr>"

definition huge_set :: apply_set where
  "huge_set = (compute_apply_set ix0 batch_b)\<lparr>as_items := [huge ''x'', huge ''y'']\<rparr>"


end
