(* ===== verification/Quarantines.thy ===== *)
theory Quarantines
  imports Brakes
begin

text \<open>
  \<open>crates/engine/src/quarantine.rs\<close>: held batches, the versions they hold, and the items a \<open>deny\<close>
  took out until its bumps are announced. Arrival numbers are natural numbers (one per recorded
  version). Methods that mutate the quarantine take it last.
\<close>

section \<open>The data\<close>

record held_item =
  hi_batch :: batch_id
  hi_source :: node_id
  hi_seq_high :: nat
  hi_held_at :: timestamp
  hi_reason :: hold_reason
  hi_entries :: "(rel_path, entry) bmap"

record quarantined =
  qd_version :: version
  qd_stamp :: int
  qd_arrival :: nat

record held_row =
  hr_item :: held_item
  hr_versions :: "(rel_path, quarantined list) bmap"

datatype held_state = HsHeld | HsDenied nat

text \<open>The derived order: \<open>Held\<close> first, then the denied ones by number.\<close>

fun state_rank :: "held_state \<Rightarrow> nat" where
  "state_rank HsHeld = 0"
| "state_rank (HsDenied at) = Suc at"

instantiation held_state :: linorder
begin

definition less_eq_held_state :: "held_state \<Rightarrow> held_state \<Rightarrow> bool" where
  "less_eq_held_state a b \<longleftrightarrow> state_rank a \<le> state_rank b"

definition less_held_state :: "held_state \<Rightarrow> held_state \<Rightarrow> bool" where
  "less_held_state a b \<longleftrightarrow> state_rank a < state_rank b"

lemma state_rank_inj: "state_rank a = state_rank b \<Longrightarrow> a = b"
  by (cases a; cases b) simp_all

instance
  by standard (auto simp: less_eq_held_state_def less_held_state_def intro: state_rank_inj)

end

lemmas [eval_simps] = less_eq_held_state_def less_held_state_def

record quarantine =
  q_items :: "(batch_id, held_item) bmap"
  q_versions :: "(rel_path, (batch_id \<times> quarantined) list) bmap"
  q_denied :: "(nat, held_row) bmap"
  q_arrivals :: nat
  q_changed :: "(batch_id \<times> held_state) bset"

definition q_default :: quarantine where
  "q_default =
     \<lparr>q_items = bm_empty, q_versions = bm_empty, q_denied = bm_empty, q_arrivals = 0,
      q_changed = bm_empty\<rparr>"

section \<open>Reading\<close>

definition q_list :: "quarantine \<Rightarrow> rel_path \<Rightarrow> (batch_id \<times> quarantined) list" where
  "q_list q p = (case bm_get (q_versions q) p of Some l \<Rightarrow> l | None \<Rightarrow> [])"

definition q_matching :: "quarantine \<Rightarrow> entry \<Rightarrow> batch_id option" where
  "q_matching q e =
     map_option fst
       (find (\<lambda>(_, v). dominates_or_equals (e_version e) (qd_version v)) (q_list q (e_path e)))"

definition max_stamp_at :: "quarantine \<Rightarrow> rel_path \<Rightarrow> int option" where
  "max_stamp_at q p =
     (case map (\<lambda>(_, v). qd_stamp v) (q_list q p) of [] \<Rightarrow> None | s # ss \<Rightarrow> Some (foldl max s ss))"

definition versions_at :: "quarantine \<Rightarrow> rel_path \<Rightarrow> version list" where
  "versions_at q p = map (\<lambda>(_, v). qd_version v) (q_list q p)"

definition q_row :: "quarantine \<Rightarrow> batch_id \<Rightarrow> held_row option" where
  "q_row q b =
     map_option (\<lambda>item.
       \<lparr>hr_item = item,
        hr_versions = bm_of_list (map (\<lambda>p.
          (p, map snd (filter (\<lambda>(i, _). i = b) (q_list q p)))) (bm_keys (hi_entries item)))\<rparr>)
       (bm_get (q_items q) b)"

definition q_rows :: "quarantine \<Rightarrow> (batch_id \<times> held_state, held_row) bmap" where
  "q_rows q =
     bm_of_list
       (List.map_filter (\<lambda>b. map_option (\<lambda>row. ((b, HsHeld), row)) (q_row q b)) (bm_keys (q_items q)) @
        map (\<lambda>(at, row). ((hi_batch (hr_item row), HsDenied at), row)) (bm_entries (q_denied q)))"

definition place_row :: "quarantine \<Rightarrow> (batch_id \<times> held_state) \<times> held_row \<Rightarrow> quarantine" where
  "place_row q kr =
     (let ((b, state), row) = kr in
      case state of
        HsHeld \<Rightarrow>
          q\<lparr>q_versions := foldl (\<lambda>vs (p, held).
               bm_insert p ((case bm_get vs p of Some l \<Rightarrow> l | None \<Rightarrow> []) @ map (\<lambda>v. (b, v)) held) vs)
               (q_versions q) (bm_entries (hr_versions row)),
            q_items := bm_insert b (hr_item row) (q_items q)\<rparr>
      | HsDenied at \<Rightarrow> q\<lparr>q_denied := bm_insert at row (q_denied q)\<rparr>)"

definition from_rows :: "(batch_id \<times> held_state, held_row) bmap \<Rightarrow> nat \<Rightarrow> quarantine" where
  "from_rows rows arrivals =
     (let q = foldl place_row (q_default\<lparr>q_arrivals := arrivals\<rparr>) (bm_entries rows)
      in q\<lparr>q_versions := bm_map (\<lambda>_ l. sort_key (\<lambda>(_, v). qd_arrival v) l) (q_versions q)\<rparr>)"

section \<open>Holding and releasing\<close>

definition q_record :: "rel_path \<Rightarrow> version \<Rightarrow> int \<Rightarrow> batch_id \<Rightarrow> quarantine \<Rightarrow> quarantine" where
  "q_record p version stamp b q =
     (let l = q_list q p in
      if \<not> list_ex (\<lambda>(i, v). qd_version v = version \<and> i = b) l
      then q\<lparr>q_arrivals := q_arrivals q + 1,
             q_versions := bm_insert p
               (l @ [(b, \<lparr>qd_version = version, qd_stamp = stamp, qd_arrival = q_arrivals q + 1\<rparr>)])
               (q_versions q)\<rparr>
      else q\<lparr>q_versions := bm_insert p l (q_versions q)\<rparr>)"

definition q_note :: "batch_id \<times> held_state \<Rightarrow> quarantine \<Rightarrow> quarantine" where
  "q_note k q = q\<lparr>q_changed := changed_note k (q_changed q)\<rparr>"

definition q_join :: "batch_id \<Rightarrow> entry \<Rightarrow> quarantine \<Rightarrow> bool \<times> quarantine" where
  "q_join b e q =
     (if \<not> bm_has (q_items q) b then (False, q)
      else
        let q = q_note (b, HsHeld) (q_record (e_path e) (e_version e) (e_stamp e) b q)
        in (True,
            case bm_get (q_items q) b of
              Some item \<Rightarrow>
                if is_none_or (\<lambda>stored. dominates_or_equals (e_version e) (e_version stored))
                     (bm_get (hi_entries item) (e_path e))
                then q\<lparr>q_items := bm_insert b
                   (item\<lparr>hi_entries := bm_insert (e_path e) e (hi_entries item)\<rparr>) (q_items q)\<rparr>
                else q
            | None \<Rightarrow> q))"

definition q_hold :: "held_item \<Rightarrow> quarantine \<Rightarrow> quarantine" where
  "q_hold item q =
     (if bm_has (q_items q) (hi_batch item)
      then foldl (\<lambda>q e. snd (q_join (hi_batch item) e q)) q (bm_values (hi_entries item))
      else
        let q = foldl (\<lambda>q e. q_record (e_path e) (e_version e) (e_stamp e) (hi_batch item) q) q
              (bm_values (hi_entries item));
            q = q_note (hi_batch item, HsHeld) q
        in q\<lparr>q_items := bm_insert (hi_batch item) item (q_items q)\<rparr>)"

definition drop_versions ::
    "batch_id \<Rightarrow> (rel_path, (batch_id \<times> quarantined) list) bmap \<Rightarrow> rel_path \<Rightarrow>
     (rel_path, (batch_id \<times> quarantined) list) bmap" where
  "drop_versions b vs p =
     (case bm_get vs p of
        Some l \<Rightarrow>
          let l = filter (\<lambda>(i, _). i \<noteq> b) l in if l = [] then bm_remove p vs else bm_insert p l vs
      | None \<Rightarrow> vs)"

definition q_release :: "batch_id \<Rightarrow> quarantine \<Rightarrow> held_item option \<times> quarantine" where
  "q_release b q =
     (case bm_get (q_items q) b of
        None \<Rightarrow> (None, q)
      | Some item \<Rightarrow>
          (Some item,
           (q_note (b, HsHeld) q)\<lparr>q_items := bm_remove b (q_items q),
             q_versions := foldl (drop_versions b) (q_versions q) (bm_keys (hi_entries item))\<rparr>))"

definition q_deny :: "batch_id \<Rightarrow> quarantine \<Rightarrow> bool \<times> quarantine" where
  "q_deny b q =
     (case q_row q b of
        None \<Rightarrow> (False, q)
      | Some row \<Rightarrow>
          let q = snd (q_release b q);
              at = q_arrivals q + 1;
              q = q_note (b, HsDenied at) (q\<lparr>q_arrivals := at\<rparr>)
          in (True, q\<lparr>q_denied := bm_insert at row (q_denied q)\<rparr>))"

definition forget_denied :: "quarantine \<Rightarrow> quarantine" where
  "forget_denied q =
     foldl (\<lambda>q (at, row). q_note (hi_batch (hr_item row), HsDenied at) q) (q\<lparr>q_denied := bm_empty\<rparr>)
       (bm_entries (q_denied q))"

definition reinstate :: "held_row \<Rightarrow> quarantine \<Rightarrow> quarantine" where
  "reinstate row q =
     q_hold (hr_item row)
       (foldl (\<lambda>q (p, held).
          foldl (\<lambda>q v. q_record p (qd_version v) (qd_stamp v) (hi_batch (hr_item row)) q) q held)
        q (bm_entries (hr_versions row)))"

definition return_step ::
    "(batch_id \<times> nat) list \<times> quarantine \<Rightarrow> nat \<times> held_row \<Rightarrow> (batch_id \<times> nat) list \<times> quarantine" where
  "return_step st ar =
     (let (returned, q) = st; (at, row) = ar; b = hi_batch (hr_item row)
      in (returned @ [(b, bm_len (hi_entries (hr_item row)))],
          reinstate row (q_note (b, HsDenied at) q)))"

definition return_denied :: "quarantine \<Rightarrow> (batch_id \<times> nat) list \<times> quarantine" where
  "return_denied q = foldl return_step ([], q\<lparr>q_denied := bm_empty\<rparr>) (bm_entries (q_denied q))"

definition drain_changes ::
    "quarantine \<Rightarrow> (batch_id \<times> held_state \<times> held_row option) list \<times> quarantine" where
  "drain_changes q =
     (let (keys, c) = changed_take (q_changed q); q = q\<lparr>q_changed := c\<rparr>
      in (map (\<lambda>(b, state). (b, state,
            case state of HsHeld \<Rightarrow> q_row q b | HsDenied at \<Rightarrow> bm_get (q_denied q) at)) keys, q))"

lemmas [eval_simps] =
  q_default_def q_list_def q_matching_def max_stamp_at_def versions_at_def q_row_def q_rows_def
  place_row_def from_rows_def q_record_def q_note_def q_join_def q_hold_def drop_versions_def
  q_release_def q_deny_def forget_denied_def reinstate_def return_step_def return_denied_def
  drain_changes_def

end
