(* ===== verification/QuarantineLaws.thy ===== *)
theory QuarantineLaws
  imports Quarantines
begin

text \<open>
  What the quarantine promises: every version it holds belongs to a held item that shows its path
  and every stored entry is a held version (\<open>q_ok\<close>), so that no version is lost by joining,
  denying or returning; and its rows rebuild it.
\<close>

section \<open>The invariant\<close>

text \<open>The versions held at a path, with the item each belongs to.\<close>

definition quar :: "quarantine \<Rightarrow> rel_path \<Rightarrow> (batch_id \<times> version) set" where
  "quar q p = (\<lambda>(b, v). (b, qd_version v)) ` set (q_list q p)"

definition shows_path :: "quarantine \<Rightarrow> batch_id \<Rightarrow> rel_path \<Rightarrow> bool" where
  "shows_path q b p \<longleftrightarrow> is_some_and (\<lambda>item. bm_has (hi_entries item) p) (bm_get (q_items q) b)"

definition list_ok :: "nat \<Rightarrow> (batch_id \<times> quarantined) list \<Rightarrow> bool" where
  "list_ok n l \<longleftrightarrow> l \<noteq> [] \<and> sorted_wrt (<) (map (qd_arrival \<circ> snd) l) \<and>
     (\<forall>x \<in> set l. qd_arrival (snd x) \<le> n)"

definition item_ok :: "held_item \<Rightarrow> bool" where
  "item_ok item \<longleftrightarrow> (\<forall>p e. bm_get (hi_entries item) p = Some e \<longrightarrow> e_path e = p)"

definition row_ok :: "held_row \<Rightarrow> bool" where
  "row_ok row \<longleftrightarrow> item_ok (hr_item row) \<and>
     (\<forall>p. bm_has (hr_versions row) p \<longrightarrow> bm_has (hi_entries (hr_item row)) p)"

definition lists_ok :: "quarantine \<Rightarrow> bool" where
  "lists_ok q \<longleftrightarrow> (\<forall>p l. bm_get (q_versions q) p = Some l \<longrightarrow> list_ok (q_arrivals q) l)"

definition items_ok :: "quarantine \<Rightarrow> bool" where
  "items_ok q \<longleftrightarrow> (\<forall>b item. bm_get (q_items q) b = Some item \<longrightarrow>
     hi_batch item = b \<and> item_ok item \<and>
     (\<forall>p e. bm_get (hi_entries item) p = Some e \<longrightarrow> (b, e_version e) \<in> quar q p))"

definition denied_ok :: "quarantine \<Rightarrow> bool" where
  "denied_ok q \<longleftrightarrow> (\<forall>at row. bm_get (q_denied q) at = Some row \<longrightarrow> at \<le> q_arrivals q \<and> row_ok row)"

definition owned :: "quarantine \<Rightarrow> bool" where
  "owned q \<longleftrightarrow> (\<forall>p b v. (b, v) \<in> quar q p \<longrightarrow> shows_path q b p)"

definition q_ok :: "quarantine \<Rightarrow> bool" where
  "q_ok q \<longleftrightarrow> lists_ok q \<and> items_ok q \<and> denied_ok q \<and> owned q"

named_theorems q_fields \<open>what the operations leave alone\<close>

section \<open>\<open>record\<close>\<close>

lemma q_list_insert:
  "q_list (q\<lparr>q_versions := bm_insert p l vs\<rparr>) p' =
     (if p' = p then l else q_list (q\<lparr>q_versions := vs\<rparr>) p')"
  by (simp add: q_list_def)

lemma q_record_fields [q_fields]:
  "q_items (q_record p v s b q) = q_items q" "q_denied (q_record p v s b q) = q_denied q"
  "q_changed (q_record p v s b q) = q_changed q" "q_arrivals q \<le> q_arrivals (q_record p v s b q)"
  by (simp_all add: q_record_def Let_def)

lemma q_note_fields [simp]:
  "q_items (q_note k q) = q_items q" "q_denied (q_note k q) = q_denied q"
  "q_versions (q_note k q) = q_versions q" "q_arrivals (q_note k q) = q_arrivals q"
  "q_list (q_note k q) p = q_list q p" "quar (q_note k q) p = quar q p"
  by (simp_all add: q_note_def q_list_def quar_def)

lemma quar_record [simp]:
  "quar (q_record p v s b q) p' = (if p' = p then insert (b, v) (quar q p) else quar q p')"
proof -
  have l: "q_list (q_record p v s b q) p' =
      (if p' = p \<and> \<not> list_ex (\<lambda>(i, w). qd_version w = v \<and> i = b) (q_list q p)
       then q_list q p @ [(b, \<lparr>qd_version = v, qd_stamp = s, qd_arrival = q_arrivals q + 1\<rparr>)]
       else q_list q p')"
    by (auto simp: q_record_def Let_def q_list_def)
  show ?thesis
    unfolding quar_def l by (force simp: list_ex_iff)
qed

lemma lists_ok_record [intro]: "lists_ok q \<Longrightarrow> lists_ok (q_record p v s b q)"
proof (cases "list_ex (\<lambda>(i, w). qd_version w = v \<and> i = b) (q_list q p)")
  case True
  assume ok: "lists_ok q"
  from True have "bm_get (q_versions q) p = Some (q_list q p)"
    by (auto simp: q_list_def split: option.splits)
  with True ok show ?thesis
    by (auto simp: q_record_def lists_ok_def Let_def split: if_splits)
next
  case False
  assume ok: "lists_ok q"
  have "list_ok (q_arrivals q) (q_list q p) \<or> q_list q p = []"
    using ok by (auto simp: lists_ok_def q_list_def split: option.splits)
  then have "list_ok (Suc (q_arrivals q))
      (q_list q p @ [(b, \<lparr>qd_version = v, qd_stamp = s, qd_arrival = Suc (q_arrivals q)\<rparr>)])"
    by (auto simp: list_ok_def sorted_wrt_append le_imp_less_Suc le_SucI)
  moreover have "list_ok (q_arrivals q) l \<Longrightarrow> list_ok (Suc (q_arrivals q)) l" for l
    by (auto simp: list_ok_def le_SucI)
  ultimately show ?thesis
    using ok False by (auto simp: q_record_def lists_ok_def Let_def)
qed

lemma denied_ok_mono:
  "denied_ok q \<Longrightarrow> q_denied q' = q_denied q \<Longrightarrow> q_arrivals q \<le> q_arrivals q' \<Longrightarrow> denied_ok q'"
  by (auto simp: denied_ok_def intro: le_trans)

lemma items_ok_mono:
  "items_ok q \<Longrightarrow> q_items q' = q_items q \<Longrightarrow> (\<And>p. quar q p \<subseteq> quar q' p) \<Longrightarrow> items_ok q'"
  unfolding items_ok_def by (metis subsetD)

lemma shows_path_items: "q_items q' = q_items q \<Longrightarrow> shows_path q' = shows_path q"
  by (simp add: shows_path_def fun_eq_iff)

lemma lists_ok_cong: "lists_ok q \<Longrightarrow> q_versions q' = q_versions q \<Longrightarrow> q_arrivals q' = q_arrivals q \<Longrightarrow> lists_ok q'"
  by (simp add: lists_ok_def)

section \<open>\<open>join\<close> and \<open>hold\<close>\<close>

text \<open>Owned but for versions already recorded for an item about to be held.\<close>

definition owned_but :: "batch_id \<Rightarrow> rel_path set \<Rightarrow> quarantine \<Rightarrow> bool" where
  "owned_but b ps q \<longleftrightarrow> (\<forall>p i v. (i, v) \<in> quar q p \<longrightarrow> shows_path q i p \<or> i = b \<and> p \<in> ps)"

lemma owned_but_empty: "owned q \<longleftrightarrow> owned_but b {} q"
  by (simp add: owned_def owned_but_def)

lemma q_join_absent: "bm_get (q_items q) b = None \<Longrightarrow> q_join b e q = (False, q)"
  by (simp add: q_join_def)

lemma q_join_held:
  assumes "bm_get (q_items q) b = Some item"
  shows "fst (q_join b e q)"
    and "quar (snd (q_join b e q)) p =
      (if p = e_path e then insert (b, e_version e) (quar q p) else quar q p)"
    and "bm_get (q_items (snd (q_join b e q))) i =
      (if i = b then Some (if is_none_or (\<lambda>s. dominates_or_equals (e_version e) (e_version s))
            (bm_get (hi_entries item) (e_path e))
          then item\<lparr>hi_entries := bm_insert (e_path e) e (hi_entries item)\<rparr> else item)
       else bm_get (q_items q) i)"
    and "q_denied (snd (q_join b e q)) = q_denied q"
    and "q_arrivals q \<le> q_arrivals (snd (q_join b e q))"
    and "lists_ok q \<Longrightarrow> lists_ok (snd (q_join b e q))"
proof -
  have q: "quar (q\<lparr>q_items := x\<rparr>) p' = quar q p'" for q x p'
    by (simp add: quar_def q_list_def)
  have l: "lists_ok (q\<lparr>q_items := x\<rparr>) = lists_ok q" "lists_ok (q_note k q) = lists_ok q" for q x k
    by (simp_all add: lists_ok_def)
  show "fst (q_join b e q)"
    and "quar (snd (q_join b e q)) p =
      (if p = e_path e then insert (b, e_version e) (quar q p) else quar q p)"
    and "q_denied (snd (q_join b e q)) = q_denied q"
    and "q_arrivals q \<le> q_arrivals (snd (q_join b e q))"
    and "lists_ok q \<Longrightarrow> lists_ok (snd (q_join b e q))"
    using assms by (simp_all add: q_join_def Let_def q q_fields l lists_ok_record)
  show "bm_get (q_items (snd (q_join b e q))) i =
      (if i = b then Some (if is_none_or (\<lambda>s. dominates_or_equals (e_version e) (e_version s))
            (bm_get (hi_entries item) (e_path e))
          then item\<lparr>hi_entries := bm_insert (e_path e) e (hi_entries item)\<rparr> else item)
       else bm_get (q_items q) i)"
    using assms by (simp add: q_join_def Let_def q_fields)
qed

lemma q_join_items_ok:
  assumes ok: "items_ok q" and b: "bm_get (q_items q) b = Some item"
  shows "items_ok (snd (q_join b e q))"
proof -
  have mono: "quar q p \<subseteq> quar (snd (q_join b e q)) p" for p
    using q_join_held(2) [OF b] by auto
  show ?thesis
    unfolding items_ok_def
  proof (intro allI impI)
    fix i it assume it: "bm_get (q_items (snd (q_join b e q))) i = Some it"
    show "hi_batch it = i \<and> item_ok it \<and>
      (\<forall>p e'. bm_get (hi_entries it) p = Some e' \<longrightarrow> (i, e_version e') \<in> quar (snd (q_join b e q)) p)"
    proof (cases "i = b")
      case False
      with it have "bm_get (q_items q) i = Some it" by (simp add: q_join_held(3) [OF b])
      with ok mono show ?thesis unfolding items_ok_def by blast
    next
      case True
      have old: "hi_batch item = b" "item_ok item"
        "\<And>p e'. bm_get (hi_entries item) p = Some e' \<Longrightarrow> (b, e_version e') \<in> quar (snd (q_join b e q)) p"
        using ok b mono unfolding items_ok_def by blast+
      have new: "(b, e_version e) \<in> quar (snd (q_join b e q)) (e_path e)"
        by (simp add: q_join_held(2) [OF b])
      from it True have "it = item \<or>
          it = item\<lparr>hi_entries := bm_insert (e_path e) e (hi_entries item)\<rparr>"
        by (auto simp: q_join_held(3) [OF b] split: if_splits)
      then show ?thesis
        using old new True by (auto simp: item_ok_def split: if_splits)
    qed
  qed
qed

lemma q_join_shows:
  assumes b: "bm_get (q_items q) b = Some item"
  shows "shows_path (snd (q_join b e q)) i p \<longleftrightarrow> shows_path q i p \<or> i = b \<and> p = e_path e"
  using b by (auto simp: shows_path_def q_join_held(3) [OF b] is_some_and_iff is_none_or_iff)

lemma q_join_owned_but:
  assumes "owned_but c ps q" and b: "bm_get (q_items q) b = Some item"
  shows "owned_but c ps (snd (q_join b e q))"
  using assms(1) unfolding owned_but_def q_join_shows [OF b]
  by (auto simp: q_join_held(2) [OF b] split: if_splits)

text \<open>Joining a list of entries.\<close>

lemma q_joins:
  fixes q :: quarantine and es :: "entry list"
  assumes "bm_get (q_items q) b = Some item" and "items_ok q" "lists_ok q" "denied_ok q"
    and "owned_but b ps q"
  defines "q' \<equiv> foldl (\<lambda>q e. snd (q_join b e q)) q es"
  shows "items_ok q' \<and> lists_ok q' \<and> denied_ok q' \<and> owned_but b (ps - set (map e_path es)) q' \<and>
    (\<exists>item. bm_get (q_items q') b = Some item) \<and> (\<forall>p. quar q p \<subseteq> quar q' p) \<and>
    (\<forall>e \<in> set es. (b, e_version e) \<in> quar q' (e_path e) \<and> shows_path q' b (e_path e))"
  unfolding q'_def
proof (induction es rule: rev_induct)
  case Nil
  then show ?case using assms by simp
next
  case (snoc e es)
  let ?q = "foldl (\<lambda>q e. snd (q_join b e q)) q es"
  from snoc obtain item where item: "bm_get (q_items ?q) b = Some item" by blast
  note j = q_join_held [OF item, of e]
  have "owned_but b (ps - set (map e_path es)) (snd (q_join b e ?q))"
    using q_join_owned_but [OF _ item] snoc by blast
  then have "owned_but b (ps - set (map e_path (es @ [e]))) (snd (q_join b e ?q))"
    unfolding owned_but_def q_join_shows [OF item] by auto
  moreover have "items_ok (snd (q_join b e ?q))" "lists_ok (snd (q_join b e ?q))"
    "denied_ok (snd (q_join b e ?q))"
    using snoc q_join_items_ok [OF _ item] j(4-6) denied_ok_mono by blast+
  moreover have "\<exists>item. bm_get (q_items (snd (q_join b e ?q))) b = Some item" by (simp add: j(3))
  moreover have "\<forall>p. quar q p \<subseteq> quar (snd (q_join b e ?q)) p" using snoc by (auto simp: j(2))
  moreover have "\<forall>e' \<in> set (es @ [e]). (b, e_version e') \<in> quar (snd (q_join b e ?q)) (e_path e') \<and>
      shows_path (snd (q_join b e ?q)) b (e_path e')"
    using snoc by (auto simp: j(2) q_join_shows [OF item])
  ultimately show ?case by simp
qed

lemma q_records:
  fixes q :: quarantine and es :: "entry list" and b :: batch_id
  defines "q' \<equiv> foldl (\<lambda>q e. q_record (e_path e) (e_version e) (e_stamp e) b q) q es"
  shows "q_items q' = q_items q" "q_denied q' = q_denied q" "q_arrivals q \<le> q_arrivals q'"
    "lists_ok q \<Longrightarrow> lists_ok q'"
    "quar q' p = quar q p \<union> {(b, e_version e) | e. e \<in> set es \<and> e_path e = p}"
  unfolding q'_def
  by (induction es rule: rev_induct) (auto simp: q_fields intro: le_trans)

lemma q_hold_laws:
  assumes ok: "items_ok q" "lists_ok q" "denied_ok q"
    and item: "item_ok item"
    and owned: "owned_but (hi_batch item) {p. bm_has (hi_entries item) p} q"
  shows "q_ok (q_hold item q)" and "quar q p \<subseteq> quar (q_hold item q) p"
    and "bm_get (hi_entries item) p = Some e \<Longrightarrow>
      (hi_batch item, e_version e) \<in> quar (q_hold item q) p \<and> shows_path (q_hold item q) (hi_batch item) p"
proof -
  let ?b = "hi_batch item" and ?es = "bm_values (hi_entries item)"
  have path: "bm_get (hi_entries item) p = Some e \<Longrightarrow> e \<in> set ?es \<and> e_path e = p" for p e
    using item by (auto simp: item_ok_def in_bm_values)
  have paths: "{p. bm_has (hi_entries item) p} - set (map e_path ?es) = {}"
    using path by force
  have all: "q_ok (q_hold item q) \<and> (\<forall>p. quar q p \<subseteq> quar (q_hold item q) p) \<and>
    (\<forall>e \<in> set ?es. (?b, e_version e) \<in> quar (q_hold item q) (e_path e) \<and>
      shows_path (q_hold item q) ?b (e_path e))"
  proof (cases "bm_get (q_items q) ?b")
    case (Some old)
    have "q_hold item q = foldl (\<lambda>q e. snd (q_join ?b e q)) q ?es"
      by (simp add: q_hold_def Some)
    then show ?thesis
      using q_joins [OF Some ok owned, of ?es, unfolded paths] by (simp add: q_ok_def owned_but_empty [of _ ?b])
  next
    case None
    let ?q = "foldl (\<lambda>q e. q_record (e_path e) (e_version e) (e_stamp e) ?b q) q ?es"
    note r = q_records [where q = q and b = ?b and es = ?es]
    have hold: "q_hold item q = (q_note (?b, HsHeld) ?q)\<lparr>q_items := bm_insert ?b item (q_items q)\<rparr>"
      by (simp add: q_hold_def None r(1))
    have fields: "q_items (q_hold item q) = bm_insert ?b item (q_items q)"
      "q_denied (q_hold item q) = q_denied q" "q_arrivals (q_hold item q) = q_arrivals ?q"
      "q_versions (q_hold item q) = q_versions ?q"
      by (simp_all add: hold r(2))
    have quar: "quar (q_hold item q) p = quar ?q p" for p
      by (simp add: quar_def q_list_def fields)
    have shown: "shows_path (q_hold item q) i p \<longleftrightarrow>
        (if i = ?b then bm_has (hi_entries item) p else shows_path q i p)" for i p
      by (simp add: shows_path_def fields is_some_and_iff)
    have "lists_ok (q_hold item q)" using r(4) ok(2) by (simp add: lists_ok_def fields)
    moreover have "denied_ok (q_hold item q)"
      using denied_ok_mono [OF ok(3)] fields r(3) by simp
    moreover have "items_ok (q_hold item q)"
      using ok(1) item path by (fastforce simp: items_ok_def fields quar r(5) split: if_splits)
    moreover have "owned (q_hold item q)"
    proof -
      have "\<not> shows_path q ?b p" for p by (simp add: shows_path_def None is_some_and_iff)
      then show ?thesis
        using owned path unfolding owned_def owned_but_def quar r(5) shown
        by (auto simp: in_bm_values) (metis item item_ok_def)+
    qed
    moreover have "\<forall>e \<in> set ?es. bm_has (hi_entries item) (e_path e)"
      using item by (auto simp: in_bm_values item_ok_def)
    ultimately show ?thesis by (auto simp: q_ok_def quar r(5) shown)
  qed
  then show "q_ok (q_hold item q)" and "quar q p \<subseteq> quar (q_hold item q) p" by blast+
  show "bm_get (hi_entries item) p = Some e \<Longrightarrow>
      (?b, e_version e) \<in> quar (q_hold item q) p \<and> shows_path (q_hold item q) ?b p"
    using all path by blast
qed

section \<open>\<open>release\<close> and \<open>deny\<close>\<close>

definition dropped :: "batch_id \<Rightarrow> (batch_id \<times> quarantined) list option \<Rightarrow> (batch_id \<times> quarantined) list option" where
  "dropped b l = opt_filter (\<lambda>l. l \<noteq> []) (map_option (filter (\<lambda>(i, _). i \<noteq> b)) l)"

lemma dropped_idem [simp]: "dropped b (dropped b l) = dropped b l"
  by (cases l) (simp_all add: dropped_def opt_filter_def)

lemma drop_versions_get:
  "bm_get (drop_versions b vs x) p = (if p = x then dropped b (bm_get vs p) else bm_get vs p)"
  by (auto simp: drop_versions_def Let_def dropped_def opt_filter_def split: option.splits)

lemma drop_versions_fold:
  "bm_get (foldl (drop_versions b) vs ps) p =
     (if p \<in> set ps then dropped b (bm_get vs p) else bm_get vs p)"
  by (induction ps arbitrary: vs) (auto simp: drop_versions_get)

lemma q_release_held:
  assumes "bm_get (q_items q) b = Some item" and "owned q"
  shows "fst (q_release b q) = Some item"
    and "q_items (snd (q_release b q)) = bm_remove b (q_items q)"
    and "q_denied (snd (q_release b q)) = q_denied q"
    and "q_arrivals (snd (q_release b q)) = q_arrivals q"
    and "q_list (snd (q_release b q)) p = filter (\<lambda>(i, _). i \<noteq> b) (q_list q p)"
    and "bm_get (q_versions (snd (q_release b q))) p =
      (if filter (\<lambda>(i, _). i \<noteq> b) (q_list q p) = [] \<and> bm_has (hi_entries item) p then None
       else map_option (filter (\<lambda>(i, _). i \<noteq> b)) (bm_get (q_versions q) p))"
proof -
  show "fst (q_release b q) = Some item" "q_items (snd (q_release b q)) = bm_remove b (q_items q)"
    "q_denied (snd (q_release b q)) = q_denied q" "q_arrivals (snd (q_release b q)) = q_arrivals q"
    by (simp_all add: q_release_def assms(1))
  have gone: "(i, v) \<in> set (q_list q p) \<Longrightarrow> \<not> bm_has (hi_entries item) p \<Longrightarrow> i \<noteq> b" for i v p
    using assms unfolding owned_def quar_def shows_path_def is_some_and_iff by force
  have all: "filter (\<lambda>(i, _). i \<noteq> b) l = l"
    if "\<not> bm_has (hi_entries item) p" "bm_get (q_versions q) p = Some l" for l p
  proof -
    have "q_list q p = l" using that(2) by (simp add: q_list_def)
    then have "\<forall>x \<in> set l. fst x \<noteq> b" using gone [OF _ that(1)] by force
    then show ?thesis by (auto simp: filter_id_conv)
  qed
  then show list: "q_list (snd (q_release b q)) p = filter (\<lambda>(i, _). i \<noteq> b) (q_list q p)"
    by (auto simp: q_release_def assms(1) q_list_def drop_versions_fold in_bm_keys dropped_def opt_filter_def
        split: option.splits)
  show "bm_get (q_versions (snd (q_release b q))) p =
      (if filter (\<lambda>(i, _). i \<noteq> b) (q_list q p) = [] \<and> bm_has (hi_entries item) p then None
       else map_option (filter (\<lambda>(i, _). i \<noteq> b)) (bm_get (q_versions q) p))"
    using all [of p]
    by (auto simp: q_release_def assms(1) q_list_def drop_versions_fold in_bm_keys dropped_def opt_filter_def
        split: option.splits)
qed

lemma quar_release:
  assumes "bm_get (q_items q) b = Some item" and "owned q"
  shows "quar (snd (q_release b q)) p = {x \<in> quar q p. fst x \<noteq> b}"
  unfolding quar_def q_release_held(5) [OF assms] by force

lemma q_release_ok:
  assumes ok: "q_ok q"
  shows "q_ok (snd (q_release b q))"
proof (cases "bm_get (q_items q) b")
  case None
  then show ?thesis using ok by (simp add: q_release_def)
next
  case (Some item)
  have own: "owned q" using ok by (simp add: q_ok_def)
  note r = q_release_held [OF Some own] and quar = quar_release [OF Some own]
  have filtered: "list_ok n (filter P l)" if "list_ok n l" "filter P l \<noteq> []" for n P and l :: "(batch_id \<times> quarantined) list"
    using that by (auto simp: list_ok_def sorted_wrt_map intro: sorted_wrt_filter)
  have "lists_ok (snd (q_release b q))"
    unfolding lists_ok_def
  proof (intro allI impI)
    fix p l assume l: "bm_get (q_versions (snd (q_release b q))) p = Some l"
    then obtain l0 where l0: "bm_get (q_versions q) p = Some l0" "l = filter (\<lambda>(i, _). i \<noteq> b) l0"
      "l \<noteq> [] \<or> \<not> bm_has (hi_entries item) p"
      by (auto simp: r(6) q_list_def split: if_splits)
    have ok0: "list_ok (q_arrivals q) l0" using ok l0(1) by (simp add: q_ok_def lists_ok_def)
    have "l \<noteq> []"
    proof
      assume "l = []"
      with l0 have none: "\<not> bm_has (hi_entries item) p" by simp
      from ok0 obtain i v l1 where "l0 = (i, v) # l1" by (cases l0) (auto simp: list_ok_def)
      with l0 \<open>l = []\<close> have "(b, qd_version v) \<in> quar q p"
        by (auto simp: quar_def q_list_def split: if_splits)
      with own have "shows_path q b p" unfolding owned_def by blast
      with Some none show False by (simp add: shows_path_def is_some_and_iff)
    qed
    with filtered [OF ok0] show "list_ok (q_arrivals (snd (q_release b q))) l" by (simp add: l0(2) r(4))
  qed
  moreover have "items_ok (snd (q_release b q))"
    using ok by (auto simp: q_ok_def items_ok_def r(2) quar split: if_splits)
  moreover have "denied_ok (snd (q_release b q))"
    using ok by (auto simp: q_ok_def denied_ok_def r(3,4))
  moreover have "owned (snd (q_release b q))"
    using own by (auto simp: owned_def shows_path_def r(2) quar is_some_and_iff)
  ultimately show ?thesis by (simp add: q_ok_def)
qed

lemma q_row_Some:
  "q_row q b = Some row \<longleftrightarrow>
     (\<exists>item. bm_get (q_items q) b = Some item \<and>
       row = \<lparr>hr_item = item, hr_versions = bm_of_list (map (\<lambda>p.
          (p, map snd (filter (\<lambda>(i, _). i = b) (q_list q p)))) (bm_keys (hi_entries item)))\<rparr>)"
  by (auto simp: q_row_def)

lemma row_versions_get:
  "bm_get (bm_of_list (map (\<lambda>p. (p, f p)) (bm_keys m))) p = (if bm_has m p then Some (f p) else None)"
proof -
  have "map_of (rev (map (\<lambda>p. (p, f p)) ks)) p = (if p \<in> set ks then Some (f p) else None)" for ks
    by (induction ks rule: rev_induct) auto
  then show ?thesis by (simp add: bm_get_of_list in_bm_keys)
qed

lemma q_row_ok: "q_ok q \<Longrightarrow> q_row q b = Some row \<Longrightarrow> row_ok row \<and> hi_batch (hr_item row) = b"
  by (auto simp: q_row_Some row_ok_def row_versions_get q_ok_def items_ok_def split: if_splits)

lemma q_note_ok [simp]: "q_ok (q_note k q) = q_ok q"
  by (simp add: q_ok_def lists_ok_def items_ok_def denied_ok_def owned_def shows_path_def)

lemma q_deny_ok:
  assumes "q_ok q"
  shows "q_ok (snd (q_deny b q))"
proof (cases "q_row q b")
  case None
  then show ?thesis using assms by (simp add: q_deny_def)
next
  case (Some row)
  let ?r = "snd (q_release b q)"
  let ?at = "Suc (q_arrivals ?r)"
  have ok: "q_ok ?r" using assms by (rule q_release_ok)
  have row: "row_ok row" using q_row_ok [OF assms Some] by blast
  have deny: "snd (q_deny b q) = (q_note (b, HsDenied ?at) (?r\<lparr>q_arrivals := ?at\<rparr>))
      \<lparr>q_denied := bm_insert ?at row (q_denied ?r)\<rparr>"
    by (simp add: q_deny_def Some Let_def q_note_def)
  have quar: "quar (snd (q_deny b q)) p = quar ?r p" for p
    by (simp add: deny quar_def q_list_def q_note_def)
  have "lists_ok (snd (q_deny b q))"
    using ok by (auto simp: q_ok_def lists_ok_def deny list_ok_def le_SucI)
  moreover have "items_ok (snd (q_deny b q))" "owned (snd (q_deny b q))"
    using ok by (simp_all add: q_ok_def items_ok_def owned_def shows_path_def quar) (simp_all add: deny)
  moreover have "denied_ok (snd (q_deny b q))"
    using ok row by (auto simp: q_ok_def denied_ok_def deny le_SucI split: if_splits)
  ultimately show ?thesis by (simp add: q_ok_def)
qed

lemma record_list:
  fixes q :: quarantine and held :: "quarantined list" and b :: batch_id and p :: rel_path
  defines "q' \<equiv> foldl (\<lambda>q v. q_record p (qd_version v) (qd_stamp v) b q) q held"
  shows "q_items q' = q_items q" "q_denied q' = q_denied q" "q_arrivals q \<le> q_arrivals q'"
    "lists_ok q \<Longrightarrow> lists_ok q'"
    "quar q' p' = quar q p' \<union> (if p = p' then Pair b ` qd_version ` set held else {})"
  unfolding q'_def
  by (induction held rule: rev_induct) (auto simp: q_fields intro: le_trans)

lemma record_lists:
  fixes q :: quarantine and rows :: "(rel_path \<times> quarantined list) list" and b :: batch_id
  defines "q' \<equiv> foldl (\<lambda>q (p, held).
     foldl (\<lambda>q v. q_record p (qd_version v) (qd_stamp v) b q) q held) q rows"
  shows "q_items q' = q_items q" "q_denied q' = q_denied q" "q_arrivals q \<le> q_arrivals q'"
    "lists_ok q \<Longrightarrow> lists_ok q'"
    "quar q' p' = quar q p' \<union>
       (\<Union>(p, held) \<in> set rows. if p = p' then Pair b ` qd_version ` set held else {})"
  unfolding q'_def
  by (induction rows rule: rev_induct)
    (auto simp: record_list split_def intro: le_trans [OF _ record_list(3)])

lemma reinstate_laws:
  assumes ok: "q_ok q" and row: "row_ok row"
  shows "q_ok (reinstate row q)" and "quar q p \<subseteq> quar (reinstate row q) p"
    and "v \<in> set vs \<Longrightarrow> bm_get (hr_versions row) p = Some vs \<Longrightarrow>
      (hi_batch (hr_item row), qd_version v) \<in> quar (reinstate row q) p"
    and "bm_get (hi_entries (hr_item row)) p = Some e \<Longrightarrow>
      (hi_batch (hr_item row), e_version e) \<in> quar (reinstate row q) p \<and>
      shows_path (reinstate row q) (hi_batch (hr_item row)) p"
proof -
  let ?b = "hi_batch (hr_item row)"
  define q1 where "q1 = foldl (\<lambda>q (p, held).
     foldl (\<lambda>q v. q_record p (qd_version v) (qd_stamp v) ?b q) q held) q (bm_entries (hr_versions row))"
  note r = record_lists [where q = q and b = ?b and rows = "bm_entries (hr_versions row)", folded q1_def]
  have re: "reinstate row q = q_hold (hr_item row) q1" by (simp add: reinstate_def q1_def)
  have "items_ok q1" using items_ok_mono [of q q1] r(1,5) ok by (auto simp: q_ok_def)
  moreover have "lists_ok q1" "denied_ok q1"
    using r(4) denied_ok_mono [OF _ r(2,3)] ok by (auto simp: q_ok_def)
  moreover have "owned_but ?b {p. bm_has (hi_entries (hr_item row)) p} q1"
  proof -
    have "(i, v) \<in> quar q p \<Longrightarrow> shows_path q i p" for i v p
      using ok unfolding q_ok_def owned_def by blast
    then show ?thesis
      using row unfolding owned_but_def shows_path_items [OF r(1)]
      by (auto simp: r(5) row_ok_def in_bm_entries split: if_splits)
  qed
  moreover have "item_ok (hr_item row)" using row by (simp add: row_ok_def)
  ultimately have hold: "q_ok (q_hold (hr_item row) q1)" "\<And>p. quar q1 p \<subseteq> quar (q_hold (hr_item row) q1) p"
    "\<And>p e. bm_get (hi_entries (hr_item row)) p = Some e \<Longrightarrow>
      (?b, e_version e) \<in> quar (q_hold (hr_item row) q1) p \<and> shows_path (q_hold (hr_item row) q1) ?b p"
    using q_hold_laws [of q1 "hr_item row"] by blast+
  show "q_ok (reinstate row q)" "quar q p \<subseteq> quar (reinstate row q) p"
    using hold(1,2) r(5) unfolding re by blast+
  show "(?b, qd_version v) \<in> quar (reinstate row q) p"
    if "v \<in> set vs" "bm_get (hr_versions row) p = Some vs"
  proof -
    have "(?b, qd_version v) \<in> quar q1 p"
      using that unfolding r(5) by (force simp: in_bm_entries)
    then show ?thesis using hold(2) unfolding re by blast
  qed
  show "bm_get (hi_entries (hr_item row)) p = Some e \<Longrightarrow>
      (?b, e_version e) \<in> quar (reinstate row q) p \<and> shows_path (reinstate row q) ?b p"
    using hold(3) unfolding re by blast
qed

lemma hold_denied: "q_denied (q_hold item q) = q_denied q"
proof -
  have j: "q_denied (snd (q_join b e q)) = q_denied q" for b e q
    by (cases "bm_get (q_items q) b") (simp_all add: q_join_absent q_join_held(4))
  have js: "q_denied (foldl (\<lambda>q e. snd (q_join b e q)) q es) = q_denied q" for b es q
    by (induction es arbitrary: q) (simp_all add: j)
  show ?thesis by (simp add: q_hold_def js q_records(2) Let_def)
qed

lemma reinstate_denied: "q_denied (reinstate row q) = q_denied q"
  by (simp add: reinstate_def hold_denied record_lists(2))

lemma return_fold:
  fixes q :: quarantine and out :: "(batch_id \<times> nat) list" and rows :: "(nat \<times> held_row) list"
  assumes "q_ok q" and "\<forall>(at, row) \<in> set rows. row_ok row"
  defines "st \<equiv> foldl return_step (out, q) rows"
  shows "q_ok (snd st) \<and> (\<forall>p. quar q p \<subseteq> quar (snd st) p) \<and>
    q_denied (snd st) = q_denied q \<and>
    fst st = out @ map (\<lambda>(at, row). (hi_batch (hr_item row), bm_len (hi_entries (hr_item row)))) rows \<and>
    (\<forall>(at, row) \<in> set rows. \<forall>p.
       (\<forall>held v. bm_get (hr_versions row) p = Some held \<longrightarrow> v \<in> set held \<longrightarrow>
          (hi_batch (hr_item row), qd_version v) \<in> quar (snd st) p))"
  unfolding st_def using assms(2)
proof (induction rows rule: rev_induct)
  case Nil
  then show ?case using assms(1) by simp
next
  case (snoc x rows)
  obtain at row where x: "x = (at, row)" by fastforce
  define s where "s = foldl return_step (out, q) rows"
  have row: "row_ok row" using snoc.prems by (simp add: x)
  have IH: "q_ok (snd s)" "\<And>p. quar q p \<subseteq> quar (snd s) p" "q_denied (snd s) = q_denied q"
    "fst s = out @ map (\<lambda>(at, row). (hi_batch (hr_item row), bm_len (hi_entries (hr_item row)))) rows"
    "\<forall>(at, row) \<in> set rows. \<forall>p.
       (\<forall>held v. bm_get (hr_versions row) p = Some held \<longrightarrow> v \<in> set held \<longrightarrow>
          (hi_batch (hr_item row), qd_version v) \<in> quar (snd s) p)"
    using snoc unfolding s_def by auto
  define s1 where "s1 = q_note (hi_batch (hr_item row), HsDenied at) (snd s)"
  have step: "foldl return_step (out, q) (rows @ [x]) =
      (fst s @ [(hi_batch (hr_item row), bm_len (hi_entries (hr_item row)))], reinstate row s1)"
    by (simp add: x return_step_def Let_def s_def s1_def split_def)
  have "q_ok s1" using IH(1) by (simp add: s1_def)
  note re = reinstate_laws [OF this row]
  have mono: "quar (snd s) p \<subseteq> quar (reinstate row s1) p" for p
    using re(2) by (simp add: s1_def)
  show ?case
    unfolding step using IH re mono
    by (auto simp: x reinstate_denied s1_def) blast+
qed

end
