(* ===== verification/QuarantineViews.thy ===== *)
theory QuarantineViews
  imports QuarantineLaws
begin

text \<open>
  The properties of the quarantine: its invariant over every run, that no matching version is lost,
  that a \<open>deny\<close> undone by \<open>revert\<close> is undone exactly, and that its rows rebuild it.
\<close>

definition item_a :: held_item where
  "item_a = \<lparr>hi_batch = BatchId [1], hi_source = there, hi_seq_high = 2, hi_held_at = 0,
     hi_reason = Size 9, hi_entries = bm_insert path_a theirs bm_empty\<rparr>"

definition q1 :: quarantine where
  "q1 = q_hold item_a q_default"

section \<open>Every run\<close>

inductive q_step :: "quarantine \<Rightarrow> quarantine \<Rightarrow> bool" where
  hold: "item_ok item \<Longrightarrow> q_step q (q_hold item q)"
| join: "q_step q (snd (q_join b e q))"
| release: "q_step q (snd (q_release b q))"
| deny: "q_step q (snd (q_deny b q))"
| forget: "q_step q (forget_denied q)"
| return: "q_step q (snd (return_denied q))"
| drain: "q_step q (snd (drain_changes q))"

lemma q_ok_owned: "q_ok q \<Longrightarrow> (b, v) \<in> quar q p \<Longrightarrow> shows_path q b p"
  unfolding q_ok_def owned_def by blast

lemma forget_denied_fields:
  "q_items (forget_denied q) = q_items q \<and> q_versions (forget_denied q) = q_versions q \<and>
   q_denied (forget_denied q) = bm_empty \<and> q_arrivals (forget_denied q) = q_arrivals q"
proof -
  have "q_items (foldl f q xs) = q_items q \<and> q_versions (foldl f q xs) = q_versions q \<and>
      q_denied (foldl f q xs) = q_denied q \<and> q_arrivals (foldl f q xs) = q_arrivals q"
    if "f = (\<lambda>q (at, row). q_note (hi_batch (hr_item row), HsDenied at) q)"
    for f q and xs :: "(nat \<times> held_row) list"
    unfolding that by (induction xs arbitrary: q) auto
  then show ?thesis by (simp add: forget_denied_def)
qed

lemma q_ok_cong:
  assumes "q_ok q" "q_items q' = q_items q" "q_versions q' = q_versions q" "q_arrivals q' = q_arrivals q"
    "q_denied q' = q_denied q \<or> q_denied q' = bm_empty"
  shows "q_ok q'"
proof -
  have "quar q' p = quar q p" for p using assms(3) by (simp add: quar_def q_list_def)
  with assms show ?thesis
    by (auto simp: q_ok_def lists_ok_def items_ok_def denied_ok_def owned_def shows_path_def)
qed

lemma q_step_ok:
  assumes "q_step q q'" and "q_ok q"
  shows "q_ok q'"
  using assms(1)
proof cases
  case (hold item)
  have "owned_but (hi_batch item) {p. bm_has (hi_entries item) p} q"
    using q_ok_owned [OF assms(2)] by (auto simp: owned_but_def)
  then show ?thesis using hold q_hold_laws(1) assms(2) by (simp add: q_ok_def)
next
  case (join b e)
  show ?thesis
  proof (cases "bm_get (q_items q) b")
    case None
    then show ?thesis using join assms(2) by (simp add: q_join_absent)
  next
    case (Some item)
    have "owned_but b {} q" using assms(2) by (simp add: q_ok_def flip: owned_but_empty)
    from q_join_owned_but [OF this Some, of e] have "owned q'"
      by (simp add: join flip: owned_but_empty)
    then show ?thesis
      using q_join_items_ok [OF _ Some, of e] q_join_held(4-6) [OF Some, of e] assms(2)
        denied_ok_mono [of q q'] by (simp add: join q_ok_def)
  qed
next
  case (return)
  have q: "q_ok (q\<lparr>q_denied := bm_empty\<rparr>)" by (rule q_ok_cong [OF assms(2)]) simp_all
  have "\<forall>(at, row) \<in> set (bm_entries (q_denied q)). row_ok row"
    using assms(2) by (auto simp: q_ok_def denied_ok_def in_bm_entries)
  from return_fold [OF q this, of "[]"] show ?thesis by (simp add: return return_denied_def)
next
  case (drain)
  show ?thesis
    by (rule q_ok_cong [OF assms(2)]) (simp_all add: drain drain_changes_def changed_take_def Let_def)
next
  case (forget)
  then show ?thesis using forget_denied_fields by (intro q_ok_cong [OF assms(2)]) auto
qed (simp_all add: assms(2) q_release_ok q_deny_ok)

lemma q_default_ok: "q_ok q_default"
  by (simp add: q_ok_def q_default_def lists_ok_def items_ok_def denied_ok_def owned_def quar_def
      q_list_def)

lemma item_a_ok: "item_ok item_a"
  by (simp add: item_ok_def item_a_def entry_of_def)

lemma q1_step: "q_step q_default q1"
  unfolding q1_def by (rule q_step.hold [OF item_a_ok])

lemma q1_ok: "q_ok q1"
  by (rule q_step_ok [OF q1_step q_default_ok])

lemma q1_item: "bm_get (q_items q1) (BatchId [1]) = Some item_a"
  by code_simp

text \<open>C31: Over every run of its operations the quarantine stays sound: each path's versions are in
  arrival order, each belongs to a held item that shows the path, and each stored entry is held as a
  version under its item.\<close>

theorem quarantine_invariant:
  assumes "q_step\<^sup>*\<^sup>* q_default q"
  shows "q_ok q"
  using assms by (induction rule: rtranclp_induct) (auto intro: q_step_ok q_default_ok)

lemma quarantine_invariant_witness: "q_ok q1"
  using quarantine_invariant q1_step by (simp add: r_into_rtranclp)

section \<open>Nothing is lost\<close>

lemma versions_at_quar: "set (versions_at q p) = snd ` quar q p"
  by (force simp: versions_at_def quar_def)

text \<open>A version that equals or dominates a quarantined one at its path is always matched to a held
  item, and joining that item succeeds and quarantines the version too.\<close>

theorem matching_joins:
  assumes "q_ok q" and "v \<in> set (versions_at q (e_path e))"
    and "dominates_or_equals (e_version e) v"
  shows "\<exists>b. q_matching q e = Some b \<and> bm_has (q_items q) b \<and> fst (q_join b e q) \<and>
    (b, e_version e) \<in> quar (snd (q_join b e q)) (e_path e) \<and>
    shows_path (snd (q_join b e q)) b (e_path e)"
proof -
  obtain x where "x \<in> set (q_list q (e_path e))" "dominates_or_equals (e_version e) (qd_version (snd x))"
    using assms(2,3) by (auto simp: versions_at_def)
  then have "find (\<lambda>(_, v). dominates_or_equals (e_version e) (qd_version v)) (q_list q (e_path e)) \<noteq> None"
    unfolding find_None_iff split_def by blast
  then obtain b w where f: "find (\<lambda>(_, v). dominates_or_equals (e_version e) (qd_version v))
      (q_list q (e_path e)) = Some (b, w)" by auto
  then have "(b, w) \<in> set (q_list q (e_path e))" by (auto simp: find_Some_iff) (metis nth_mem)
  then have "(b, qd_version w) \<in> quar q (e_path e)" by (force simp: quar_def)
  from q_ok_owned [OF assms(1) this] obtain item where "bm_get (q_items q) b = Some item"
    by (auto simp: shows_path_def is_some_and_iff)
  then show ?thesis
    using f q_join_held(1,2) q_join_shows by (auto simp: q_matching_def)
qed

lemma matching_joins_witness:
  "\<exists>b. q_matching q1 theirs = Some b \<and> bm_has (q_items q1) b \<and> fst (q_join b theirs q1)"
proof -
  have "e_version theirs \<in> set (versions_at q1 (e_path theirs))" by code_simp
  then show ?thesis
    using matching_joins [OF q1_ok, of "e_version theirs" theirs]
    by (auto simp: dominates_or_equals_iff)
qed

text \<open>Releasing an item takes out exactly the versions held under it, at every path, and leaves
  every other item and version held.\<close>

theorem release_exact:
  assumes "q_ok q" and "bm_get (q_items q) b = Some item"
  shows "q_items (snd (q_release b q)) = bm_remove b (q_items q) \<and>
    (\<forall>p. quar (snd (q_release b q)) p = {x \<in> quar q p. fst x \<noteq> b})"
  using q_release_held(2) quar_release assms by (simp add: q_ok_def)

lemma release_exact_witness:
  "quar q1 path_a \<noteq> {} \<and> (\<forall>p. quar (snd (q_release (BatchId [1]) q1)) p =
     {x \<in> quar q1 p. fst x \<noteq> BatchId [1]})"
proof
  have "q_list q1 path_a \<noteq> []" by code_simp
  then show "quar q1 path_a \<noteq> {}" by (simp add: quar_def)
  show "\<forall>p. quar (snd (q_release (BatchId [1]) q1)) p = {x \<in> quar q1 p. fst x \<noteq> BatchId [1]}"
    using release_exact [OF q1_ok q1_item] by blast
qed

lemma quar_of_row:
  assumes "q_ok q" and "q_row q b = Some row"
  shows "{(b, qd_version v) | v. \<exists>vs. bm_get (hr_versions row) p = Some vs \<and> v \<in> set vs} =
    {x \<in> quar q p. fst x = b}"
proof -
  obtain item where item: "bm_get (q_items q) b = Some item"
    and row: "row = \<lparr>hr_item = item, hr_versions = bm_of_list (map (\<lambda>p.
          (p, map snd (filter (\<lambda>(i, _). i = b) (q_list q p)))) (bm_keys (hi_entries item)))\<rparr>"
    using assms(2) by (auto simp: q_row_Some)
  have "(b, v) \<in> quar q p \<Longrightarrow> bm_has (hi_entries item) p" for v
    using q_ok_owned [OF assms(1)] item by (force simp: shows_path_def is_some_and_iff)
  then show ?thesis
    by (force simp: row row_versions_get quar_def split: if_splits)
qed

text \<open>C30: A \<open>revert\<close> that discards a deny undoes it exactly: the same items are held with the same
  entries, the same versions are quarantined at every path, and nothing is denied any more.\<close>

theorem deny_undone:
  assumes ok: "q_ok q" and item: "bm_get (q_items q) b = Some item" and none: "q_denied q = bm_empty"
  shows "(let q' = snd (return_denied (snd (q_deny b q)))
    in q_items q' = q_items q \<and> (\<forall>p. quar q' p = quar q p) \<and> q_denied q' = bm_empty) \<and>
    fst (return_denied (snd (q_deny b q))) = [(b, bm_len (hi_entries item))]"
proof -
  obtain row where row: "q_row q b = Some row" "hr_item row = item"
    using item by (auto simp: q_row_Some)
  have own: "owned q" and hb: "hi_batch item = b" and iok: "item_ok item"
    and stored: "bm_get (hi_entries item) p = Some e \<Longrightarrow> (b, e_version e) \<in> quar q p" for p e
    using ok item unfolding q_ok_def items_ok_def by blast+
  define r where "r = snd (q_release b q)"
  define d where "d = snd (q_deny b q)"
  let ?at = "Suc (q_arrivals r)"
  have d: "q_items d = bm_remove b (q_items q)" "q_denied d = bm_insert ?at row bm_empty"
    "quar d p = {x \<in> quar q p. fst x \<noteq> b}" for p
    using q_release_held(2,3) [OF item own] quar_release [OF item own, of p] none
    by (simp_all add: d_def q_deny_def row Let_def quar_def q_list_def q_note_def flip: r_def)
  define s where "s = q_note (b, HsDenied ?at) (d\<lparr>q_denied := bm_empty\<rparr>)"
  have ret: "return_denied d = ([(b, bm_len (hi_entries item))], reinstate row s)"
    by (simp add: return_denied_def d(2) return_step_def row(2) hb s_def Let_def)
  have s: "q_items s = bm_remove b (q_items q)" "q_denied s = bm_empty"
    "quar s p = {x \<in> quar q p. fst x \<noteq> b}" for p
    using d(1) d(3) [of p] by (simp_all add: s_def quar_def q_list_def)
  define q1 where "q1 = foldl (\<lambda>q (p, held).
     foldl (\<lambda>q v. q_record p (qd_version v) (qd_stamp v) b q) q held) s (bm_entries (hr_versions row))"
  note rl = record_lists [where q = s and b = b and rows = "bm_entries (hr_versions row)", folded q1_def]
  have q1: "quar q1 p = quar q p" for p
  proof -
    have "(\<Union>(p', held) \<in> set (bm_entries (hr_versions row)).
        if p' = p then Pair b ` qd_version ` set held else {}) =
      {(b, qd_version v) | v. \<exists>vs. bm_get (hr_versions row) p = Some vs \<and> v \<in> set vs}"
    proof (cases "bm_get (hr_versions row) p")
      case (Some vs)
      then have "(\<Union>(p', held) \<in> set (bm_entries (hr_versions row)).
          if p' = p then Pair b ` qd_version ` set held else {}) = Pair b ` qd_version ` set vs"
        by (intro equalityI subsetI)
          (auto simp: in_bm_entries split: if_splits intro!: bexI [of _ "(p, vs)"])
      then show ?thesis using Some by auto
    qed (auto simp: in_bm_entries split: if_splits)
    then show ?thesis unfolding rl(5) quar_of_row [OF ok row(1)] s(3) by auto
  qed
  have re: "reinstate row s = q_hold item q1" by (simp add: reinstate_def row(2) hb q1_def)
  define q2 where "q2 = foldl (\<lambda>q e. q_record (e_path e) (e_version e) (e_stamp e) b q) q1
     (bm_values (hi_entries item))"
  note qr = q_records [where q = q1 and b = b and es = "bm_values (hi_entries item)", folded q2_def]
  have hold: "q_hold item q1 = (q_note (b, HsHeld) q2)\<lparr>q_items := bm_insert b item (q_items q2)\<rparr>"
    by (simp add: q_hold_def hb rl(1) s(1) q2_def Let_def)
  have "quar q2 p = quar q p" for p
    using stored iok unfolding qr(5) q1 by (auto simp: in_bm_values item_ok_def)
  then have "quar (q_hold item q1) p = quar q p" for p
    by (simp add: hold quar_def q_list_def q_note_def)
  moreover have "q_items (q_hold item q1) = q_items q"
    using bm.reinsert [OF item] by (simp add: hold qr(1) rl(1) s(1))
  moreover have "q_denied (q_hold item q1) = bm_empty"
    by (simp add: hold_denied rl(2) s(2))
  ultimately show ?thesis by (simp add: ret re Let_def flip: d_def)
qed

lemma deny_undone_witness:
  "q_items (snd (return_denied (snd (q_deny (BatchId [1]) q1)))) = q_items q1"
proof -
  have "q_denied q1 = bm_empty" by code_simp
  then show ?thesis using deny_undone [OF q1_ok q1_item] by (simp add: Let_def)
qed

section \<open>The rows rebuild it\<close>

lemma bm_get_of_distinct:
  "distinct (map fst xs) \<Longrightarrow> bm_get (bm_of_list xs) k = Some v \<longleftrightarrow> (k, v) \<in> set xs"
proof -
  assume d: "distinct (map fst xs)"
  then have "distinct (map fst (rev xs))" by (metis distinct_rev rev_map)
  then show ?thesis by (simp add: bm_get_of_list)
qed

lemma q_rows_get:
  "bm_get (q_rows q) (b, state) =
     (case state of
        HsHeld \<Rightarrow> q_row q b
      | HsDenied at \<Rightarrow> opt_filter (\<lambda>row. hi_batch (hr_item row) = b) (bm_get (q_denied q) at))"
proof -
  let ?held = "List.map_filter (\<lambda>b. map_option (\<lambda>row. ((b, HsHeld), row)) (q_row q b)) (bm_keys (q_items q))"
  let ?denied = "map (\<lambda>(at, row). ((hi_batch (hr_item row), HsDenied at), row)) (bm_entries (q_denied q))"
  have held: "(k, row) \<in> set ?held \<longleftrightarrow> snd k = HsHeld \<and> q_row q (fst k) = Some row" for k row
    by (cases k) (auto simp: in_map_filter in_bm_keys q_row_def)
  have den: "(k, row) \<in> set ?denied \<longleftrightarrow>
      (\<exists>at. k = (hi_batch (hr_item row), HsDenied at) \<and> bm_get (q_denied q) at = Some row)" for k row
    by (auto simp: in_bm_entries)
  have "distinct (map (fst \<circ> fst) ?held)"
    by (rule distinct_map_filter [of _ _ "fst \<circ> fst"]) (auto simp: map_option_case split: option.splits)
  then have "distinct (map fst ?held)" by (auto simp: distinct_map inj_on_def)
  moreover have "distinct (map fst ?denied)"
  proof -
    have "distinct (map ((\<lambda>s. case s of HsDenied at \<Rightarrow> at | HsHeld \<Rightarrow> 0) \<circ> snd) (map fst ?denied))"
      using bm.entries_distinct [of "q_denied q"] by (simp add: comp_def split_def)
    then show ?thesis unfolding distinct_map by blast
  qed
  moreover have "set (map fst ?held) \<inter> set (map fst ?denied) = {}"
    using held by (force simp: in_bm_entries)
  ultimately have "distinct (map fst (?held @ ?denied))" by simp
  from bm_get_of_distinct [OF this]
  have "bm_get (q_rows q) (b, state) = Some row \<longleftrightarrow>
      ((b, state), row) \<in> set ?held \<or> ((b, state), row) \<in> set ?denied" for row
    by (simp add: q_rows_def)
  then have "bm_get (q_rows q) (b, state) = Some row \<longleftrightarrow> (case state of
        HsHeld \<Rightarrow> q_row q b
      | HsDenied at \<Rightarrow> opt_filter (\<lambda>row. hi_batch (hr_item row) = b) (bm_get (q_denied q) at)) = Some row"
    for row
    unfolding held den by (cases state) auto
  then show ?thesis by (metis option.exhaust)
qed

text \<open>What a list of rows puts at a path.\<close>

definition rows_list :: "((batch_id \<times> held_state) \<times> held_row) list \<Rightarrow> rel_path \<Rightarrow> (batch_id \<times> quarantined) list" where
  "rows_list krs p = concat (map (\<lambda>((b, state), row).
     case state of HsHeld \<Rightarrow>
         (case bm_get (hr_versions row) p of Some vs \<Rightarrow> map (Pair b) vs | None \<Rightarrow> [])
       | HsDenied _ \<Rightarrow> []) krs)"

definition rows_have :: "((batch_id \<times> held_state) \<times> held_row) list \<Rightarrow> rel_path \<Rightarrow> bool" where
  "rows_have krs p \<longleftrightarrow> (\<exists>b row. ((b, HsHeld), row) \<in> set krs \<and> bm_has (hr_versions row) p)"

lemma place_versions:
  fixes vs :: "(rel_path, (batch_id \<times> quarantined) list) bmap"
  assumes "distinct (map fst rows)"
  shows "bm_get (foldl (\<lambda>vs (p, held).
       bm_insert p ((case bm_get vs p of Some l \<Rightarrow> l | None \<Rightarrow> []) @ map (\<lambda>v. (b, v)) held) vs) vs rows) p =
     (case map_of rows p of
        Some hs \<Rightarrow> Some ((case bm_get vs p of Some l \<Rightarrow> l | None \<Rightarrow> []) @ map (Pair b) hs)
      | None \<Rightarrow> bm_get vs p)"
  using assms
proof (induction rows arbitrary: vs)
  case (Cons r rows)
  then have "map_of rows (fst r) = None" by (simp add: map_of_eq_None_iff)
  with Cons show ?case by (cases r) (auto split: option.splits)
qed simp

lemma rows_list_Cons:
  "rows_list (((b, HsHeld), row) # krs) p =
     (case bm_get (hr_versions row) p of Some vs \<Rightarrow> map (Pair b) vs | None \<Rightarrow> []) @ rows_list krs p"
  "rows_list (((b, HsDenied at), row) # krs) p = rows_list krs p"
  by (simp_all add: rows_list_def)

lemma in_rows_list:
  "(b, v) \<in> set (rows_list krs p) \<longleftrightarrow>
     (\<exists>row vs. ((b, HsHeld), row) \<in> set krs \<and> bm_get (hr_versions row) p = Some vs \<and> v \<in> set vs)"
proof (induction krs)
  case (Cons kr krs)
  obtain i state row where kr: "kr = ((i, state), row)" by (metis prod.exhaust)
  show ?case
    by (cases state; cases "bm_get (hr_versions row) p") (auto simp: kr rows_list_Cons Cons)
qed (simp add: rows_list_def)

lemma rows_list_none: "\<not> rows_have krs p \<Longrightarrow> rows_list krs p = []"
proof (rule ccontr)
  assume none: "\<not> rows_have krs p" and "rows_list krs p \<noteq> []"
  then obtain b v where "(b, v) \<in> set (rows_list krs p)" by (cases "rows_list krs p") auto
  with none show False by (auto simp: in_rows_list rows_have_def)
qed

lemma place_row_held:
  "place_row q ((b, HsHeld), row) = q\<lparr>q_versions := foldl (\<lambda>vs (p, held).
       bm_insert p ((case bm_get vs p of Some l \<Rightarrow> l | None \<Rightarrow> []) @ map (\<lambda>v. (b, v)) held) vs)
       (q_versions q) (bm_entries (hr_versions row)), q_items := bm_insert b (hr_item row) (q_items q)\<rparr>"
  by (simp add: place_row_def)

lemma place_row_held_versions:
  "bm_get (q_versions (place_row q ((b, HsHeld), row))) p =
     (case bm_get (hr_versions row) p of
        Some hs \<Rightarrow> Some (q_list q p @ map (Pair b) hs) | None \<Rightarrow> bm_get (q_versions q) p)"
  using place_versions [OF bm.entries_distinct [of "hr_versions row"], of b "q_versions q" p]
  by (simp add: place_row_held q_list_def bm_get_def [of "hr_versions row"] split: option.splits)

lemma place_rows_versions:
  "bm_get (q_versions (foldl place_row q krs)) p =
     (if rows_have krs p then Some (q_list q p @ rows_list krs p) else bm_get (q_versions q) p)"
proof (induction krs arbitrary: q)
  case Nil
  then show ?case by (simp add: rows_have_def)
next
  case (Cons kr krs)
  obtain b state row where kr: "kr = ((b, state), row)" by (metis prod.exhaust)
  show ?case
  proof (cases state)
    case HsHeld
    let ?q = "place_row q kr"
    have v: "bm_get (q_versions ?q) p = (case bm_get (hr_versions row) p of
        Some hs \<Rightarrow> Some (q_list q p @ map (Pair b) hs) | None \<Rightarrow> bm_get (q_versions q) p)"
      unfolding kr HsHeld by (rule place_row_held_versions)
    have "rows_have (kr # krs) p \<longleftrightarrow> bm_has (hr_versions row) p \<or> rows_have krs p"
      by (auto simp: rows_have_def kr HsHeld)
    then show ?thesis
      using Cons.IH [of ?q] v rows_list_none [of krs p]
      by (cases "bm_get (hr_versions row) p") (auto simp: q_list_def kr HsHeld rows_list_Cons)
  next
    case (HsDenied at)
    have "q_versions (place_row q kr) = q_versions q" by (simp add: kr HsDenied place_row_def)
    moreover have "rows_have (kr # krs) p = rows_have krs p" "rows_list (kr # krs) p = rows_list krs p"
      by (auto simp: rows_have_def rows_list_Cons kr HsDenied)
    ultimately show ?thesis using Cons.IH [of "place_row q kr"] by (simp add: q_list_def)
  qed
qed

lemma place_rows_counters:
  "q_arrivals (foldl place_row q krs) = q_arrivals q \<and> q_changed (foldl place_row q krs) = q_changed q"
proof (induction krs arbitrary: q)
  case (Cons kr krs)
  have "q_arrivals (place_row q kr) = q_arrivals q \<and> q_changed (place_row q kr) = q_changed q"
    by (auto simp: place_row_def Let_def split: prod.splits held_state.splits)
  with Cons show ?case by simp
qed simp

lemma place_rows_items:
  assumes "\<forall>b row. ((b, HsHeld), row) \<in> set krs \<longrightarrow> its b = Some (hr_item row)"
  shows "bm_get (q_items (foldl place_row q krs)) b =
    (if \<exists>row. ((b, HsHeld), row) \<in> set krs then its b else bm_get (q_items q) b)"
  using assms
proof (induction krs arbitrary: q)
  case (Cons kr krs)
  obtain i state row where kr: "kr = ((i, state), row)" by (metis prod.exhaust)
  have "bm_get (q_items (place_row q kr)) b =
      (if state = HsHeld \<and> i = b then Some (hr_item row) else bm_get (q_items q) b)"
    by (auto simp: kr place_row_def Let_def split: held_state.splits)
  with Cons show ?case by (auto simp: kr)
qed simp

lemma place_rows_denied:
  assumes "\<forall>b at row. ((b, HsDenied at), row) \<in> set krs \<longrightarrow> den at = Some row"
  shows "bm_get (q_denied (foldl place_row q krs)) at =
    (if \<exists>b row. ((b, HsDenied at), row) \<in> set krs then den at else bm_get (q_denied q) at)"
  using assms
proof (induction krs arbitrary: q)
  case (Cons kr krs)
  obtain i state row where kr: "kr = ((i, state), row)" by (metis prod.exhaust)
  have "bm_get (q_denied (place_row q kr)) at =
      (if state = HsDenied at then Some row else bm_get (q_denied q) at)"
    by (auto simp: kr place_row_def Let_def split: held_state.splits)
  with Cons show ?case by (auto simp: kr)
qed simp

lemma rows_list_distinct:
  assumes "distinct (map fst krs)"
    and "\<forall>b row vs. ((b, HsHeld), row) \<in> set krs \<longrightarrow> bm_get (hr_versions row) p = Some vs \<longrightarrow> distinct vs"
  shows "distinct (rows_list krs p)"
  using assms
proof (induction krs)
  case (Cons kr krs)
  obtain i state row where kr: "kr = ((i, state), row)" by (metis prod.exhaust)
  have IH: "distinct (rows_list krs p)" using Cons by auto
  have from_key: "\<exists>row. ((b, HsHeld), row) \<in> set krs" if "(b, v) \<in> set (rows_list krs p)" for b v
    using that by (auto simp: in_rows_list)
  show ?case
  proof (cases state)
    case HsHeld
    have "(i, HsHeld) \<notin> fst ` set krs" using Cons.prems(1) by (simp add: kr HsHeld)
    then have "\<not> (\<exists>row. ((i, HsHeld), row) \<in> set krs)" by force
    then have "(i, v) \<notin> set (rows_list krs p)" for v using from_key by blast
    moreover have "bm_get (hr_versions row) p = Some vs \<Longrightarrow> distinct vs" for vs
      using Cons.prems(2) by (simp add: kr HsHeld)
    ultimately show ?thesis
      using IH by (auto simp: rows_list_Cons kr HsHeld distinct_map inj_on_def split: option.splits)
  qed (use IH in \<open>simp add: rows_list_Cons kr\<close>)
qed (simp add: rows_list_def)

lemma in_map_snd_filter: "v \<in> set (map snd (filter (\<lambda>(i, _). i = b) l)) \<longleftrightarrow> (b, v) \<in> set l"
  by force

text \<open>The rows of a sound quarantine rebuild it: read back with its arrival counter they give the
  same items, the same versions in the same arrival order at every path, and the same denied items;
  only the log of changed rows starts empty.\<close>

theorem rows_round_trip:
  assumes ok: "q_ok q"
  shows "from_rows (q_rows q) (q_arrivals q) = q\<lparr>q_changed := bm_empty\<rparr>"
proof -
  define krs where "krs = bm_entries (q_rows q)"
  define q1 where "q1 = foldl place_row (q_default\<lparr>q_arrivals := q_arrivals q\<rparr>) krs"
  have in_krs: "((b, state), row) \<in> set krs \<longleftrightarrow> (case state of HsHeld \<Rightarrow> q_row q b
      | HsDenied at \<Rightarrow> opt_filter (\<lambda>row. hi_batch (hr_item row) = b) (bm_get (q_denied q) at)) = Some row"
    for b state row
    by (simp add: krs_def in_bm_entries q_rows_get)
  have held_iff: "((b, HsHeld), row) \<in> set krs \<longleftrightarrow> q_row q b = Some row" for b row
    by (simp add: in_krs)
  have items: "q_items q1 = q_items q"
  proof (rule bm_eqI)
    fix b
    have "\<forall>b row. ((b, HsHeld), row) \<in> set krs \<longrightarrow> bm_get (q_items q) b = Some (hr_item row)"
      by (auto simp: held_iff q_row_Some)
    from place_rows_items [OF this] show "bm_get (q_items q1) b = bm_get (q_items q) b"
      by (cases "bm_get (q_items q) b") (auto simp: q1_def held_iff q_default_def q_row_def)
  qed
  have denied: "q_denied q1 = q_denied q"
  proof (rule bm_eqI)
    fix at
    have "\<forall>b at row. ((b, HsDenied at), row) \<in> set krs \<longrightarrow> bm_get (q_denied q) at = Some row"
      by (simp add: in_krs)
    from place_rows_denied [OF this] show "bm_get (q_denied q1) at = bm_get (q_denied q) at"
      by (cases "bm_get (q_denied q) at") (auto simp: q1_def in_krs q_default_def)
  qed
  have row_at: "(\<exists>vs. bm_get (hr_versions row) p = Some vs \<and> v \<in> set vs) \<longleftrightarrow> (b, v) \<in> set (q_list q p)"
    if "q_row q b = Some row" for b row p v
  proof -
    have "(b, v) \<in> set (q_list q p) \<Longrightarrow> shows_path q b p"
      by (rule q_ok_owned [OF ok, of b "qd_version v"]) (force simp: quar_def)
    then show ?thesis
      using that
      by (auto simp: q_row_Some row_versions_get shows_path_def is_some_and_iff in_map_snd_filter
          simp del: set_map set_filter split: if_splits)
  qed
  have set: "set (rows_list krs p) = set (q_list q p)" for p
  proof -
    have "(b, v) \<in> set (rows_list krs p) \<longleftrightarrow> (b, v) \<in> set (q_list q p)" for b v
    proof
      assume "(b, v) \<in> set (rows_list krs p)"
      then show "(b, v) \<in> set (q_list q p)" using row_at unfolding in_rows_list held_iff by blast
    next
      assume v: "(b, v) \<in> set (q_list q p)"
      then have "shows_path q b p"
        by (intro q_ok_owned [OF ok, of b "qd_version v"]) (force simp: quar_def)
      then obtain row where "q_row q b = Some row"
        by (auto simp: shows_path_def is_some_and_iff q_row_def)
      then show "(b, v) \<in> set (rows_list krs p)"
        using row_at v unfolding in_rows_list held_iff by blast
    qed
    then show ?thesis by auto
  qed
  have list: "q_list q p = [] \<or> list_ok (q_arrivals q) (q_list q p)" for p
    using ok by (auto simp: q_ok_def lists_ok_def q_list_def split: option.splits)
  have sorted: "sorted_wrt (<) (map (qd_arrival \<circ> snd) (q_list q p))" for p
    using list [of p] by (auto simp: list_ok_def)
  have key: "(\<lambda>(_, v). qd_arrival v) = qd_arrival \<circ> snd" by auto
  have sort: "sort_key (\<lambda>(_, v). qd_arrival v) (rows_list krs p) = q_list q p" for p
    unfolding key
  proof (rule map_sorted_distinct_set_unique [where f = "qd_arrival \<circ> snd"])
    have dl: "distinct (map (qd_arrival \<circ> snd) (q_list q p))" "sorted (map (qd_arrival \<circ> snd) (q_list q p))"
      using sorted [of p] by (simp_all add: strict_sorted_iff)
    then have inj: "inj_on (qd_arrival \<circ> snd) (set (q_list q p))" by (simp add: distinct_map)
    then show "inj_on (qd_arrival \<circ> snd) (set (sort_key (qd_arrival \<circ> snd) (rows_list krs p)) \<union> set (q_list q p))"
      by (simp add: set)
    have "distinct (rows_list krs p)"
    proof (rule rows_list_distinct)
      show "distinct (map fst krs)" unfolding krs_def by (rule bm.entries_distinct)
      have "distinct (q_list q p)" using dl(1) by (simp add: distinct_map)
      moreover have "distinct (map snd (filter (\<lambda>(i, _). i = b) l))" if "distinct l"
        for b and l :: "(batch_id \<times> quarantined) list"
        using that by (induction l) auto
      ultimately show "\<forall>b row vs. ((b, HsHeld), row) \<in> set krs \<longrightarrow>
          bm_get (hr_versions row) p = Some vs \<longrightarrow> distinct vs"
        by (auto simp: held_iff q_row_Some row_versions_get split: if_splits)
    qed
    then show "distinct (map (qd_arrival \<circ> snd) (sort_key (qd_arrival \<circ> snd) (rows_list krs p)))"
      using inj by (simp add: distinct_map set)
  qed (use sorted [of p] in \<open>simp_all add: strict_sorted_iff set\<close>)
  have have_iff: "rows_have krs p \<longleftrightarrow> bm_get (q_versions q) p \<noteq> None" for p
  proof
    assume "rows_have krs p"
    then obtain b row where "q_row q b = Some row" "bm_has (hr_versions row) p"
      by (auto simp: rows_have_def held_iff)
    then obtain item e where "bm_get (q_items q) b = Some item" "bm_get (hi_entries item) p = Some e"
      by (auto simp: q_row_Some row_versions_get split: if_splits)
    then have "(b, e_version e) \<in> quar q p" using ok by (simp add: q_ok_def items_ok_def)
    then have "q_list q p \<noteq> []" by (auto simp: quar_def)
    then show "bm_get (q_versions q) p \<noteq> None" by (cases "bm_get (q_versions q) p") (simp_all add: q_list_def)
  next
    assume "bm_get (q_versions q) p \<noteq> None"
    then have "q_list q p \<noteq> []"
      using ok by (auto simp: q_ok_def lists_ok_def list_ok_def q_list_def)
    then show "rows_have krs p" using set [of p] rows_list_none [of krs p] by (metis set_empty)
  qed
  have "bm_map (\<lambda>_ l. sort_key (\<lambda>(_, v). qd_arrival v) l) (q_versions q1) = q_versions q"
  proof (rule bm_eqI)
    fix p
    show "bm_get (bm_map (\<lambda>_ l. sort_key (\<lambda>(_, v). qd_arrival v) l) (q_versions q1)) p =
        bm_get (q_versions q) p"
      using sort [of p] have_iff [of p]
      by (auto simp: q1_def place_rows_versions q_default_def q_list_def)
  qed
  then show ?thesis
    using items denied place_rows_counters [of "q_default\<lparr>q_arrivals := q_arrivals q\<rparr>" krs]
    by (simp add: from_rows_def Let_def q1_def [unfolded krs_def] krs_def q_default_def)
qed

lemma rows_round_trip_witness: "from_rows (q_rows q1) (q_arrivals q1) = q1\<lparr>q_changed := bm_empty\<rparr>"
  by (rule rows_round_trip [OF q1_ok])

end
