(* ===== verification/Wants.thy ===== *)
theory Wants
  imports Brakes
begin

text \<open>
  \<open>crates/engine/src/want.rs\<close>: the want-list. Methods that mutate the list take it last. The
  counters the code keeps in \<open>u8\<close> and \<open>u32\<close> with saturation are natural numbers with the bound
  written out; deadlines are \<open>i64\<close> nanoseconds as in \<open>Times\<close>.
\<close>

section \<open>Tiers\<close>

datatype tier = TLan | TDirect | TRelay

fun tier_rank :: "tier \<Rightarrow> nat" where
  "tier_rank TLan = 0"
| "tier_rank TDirect = 1"
| "tier_rank TRelay = 2"

instantiation tier :: linorder
begin

definition less_eq_tier :: "tier \<Rightarrow> tier \<Rightarrow> bool" where
  "less_eq_tier a b \<longleftrightarrow> tier_rank a \<le> tier_rank b"

definition less_tier :: "tier \<Rightarrow> tier \<Rightarrow> bool" where
  "less_tier a b \<longleftrightarrow> tier_rank a < tier_rank b"

lemma tier_rank_inj: "tier_rank a = tier_rank b \<Longrightarrow> a = b"
  by (cases a; cases b) simp_all

instance
  by standard (auto simp: less_eq_tier_def less_tier_def intro: tier_rank_inj)

end

definition tier_limit :: "tier \<Rightarrow> rules \<Rightarrow> u64 option" where
  "tier_limit t rs = (case t of
     TLan \<Rightarrow> None | TDirect \<Rightarrow> Some (direct_limit rs) | TRelay \<Rightarrow> Some (relay_limit rs))"

definition tier_allows :: "tier \<Rightarrow> rules \<Rightarrow> u64 \<Rightarrow> bool" where
  "tier_allows t rs sz = is_none_or (\<lambda>limit. sz \<le> limit) (tier_limit t rs)"

section \<open>Wants\<close>

datatype want_state =
    Wanted
  | Blocked
  | Deferred tier
  | NoSource
  | Fetching (fetch_from: node_id) (fetch_deadline: timestamp)
  | Committing (commit_deadline: timestamp) (commit_overdue: bool)
  | GaveUp
  | LocalRetry timestamp
  | DiskFull
  | Collides rel_path nat
  | WaitingFor rel_path
  | HoldsIgnored

definition state_in_flight :: "want_state \<Rightarrow> bool" where
  "state_in_flight s = (case s of
     Wanted \<Rightarrow> True | Blocked \<Rightarrow> True | Fetching _ _ \<Rightarrow> True | Committing _ _ \<Rightarrow> True | _ \<Rightarrow> False)"

record want =
  w_entry :: entry
  w_received :: entry
  w_mode :: apply_mode
  w_conflict :: "conflict_copy option"
  w_batch :: batch_id
  w_source :: node_id
  w_seq_high :: nat
  w_sources :: "node_id bset"
  w_refused :: "(node_id, timestamp) bmap"
  w_excluded :: "(node_id, timestamp) bmap"
  w_strikes :: "(node_id, nat) bmap"
  w_mismatches :: nat
  w_local_retries :: nat
  w_fetched :: bool
  w_restoring :: bool
  w_trashed :: "observed option"
  w_answered :: "node_id bset"
  w_reset :: "observed option"
  w_state :: want_state

definition w_path :: "want \<Rightarrow> rel_path" where
  "w_path w = e_path (w_entry w)"

definition w_version :: "want \<Rightarrow> version" where
  "w_version w = e_version (w_entry w)"

definition w_in_flight :: "want \<Rightarrow> bool" where
  "w_in_flight w = state_in_flight (w_state w)"

definition needs_fetch :: "want \<Rightarrow> bool" where
  "needs_fetch w \<longleftrightarrow> w_mode w = Fetch \<and> \<not> w_fetched w"

definition is_delete :: "want \<Rightarrow> bool" where
  "is_delete w \<longleftrightarrow> e_deleted (w_entry w) \<or> w_mode w = Trash"

definition is_dir_create :: "want \<Rightarrow> bool" where
  "is_dir_create w \<longleftrightarrow> \<not> is_delete w \<and> e_kind (w_entry w) = Dir"

definition is_trash :: "want \<Rightarrow> bool" where
  "is_trash w \<longleftrightarrow> w_mode w = Trash"

definition want_trash :: "entry \<Rightarrow> batch_id \<Rightarrow> node_id \<Rightarrow> want" where
  "want_trash current b own =
     \<lparr>w_entry = current, w_received = current, w_mode = Trash, w_conflict = None, w_batch = b,
      w_source = own, w_seq_high = 0, w_sources = bm_empty, w_refused = bm_empty,
      w_excluded = bm_empty, w_strikes = bm_empty, w_mismatches = 0, w_local_retries = 0,
      w_fetched = False, w_restoring = False, w_trashed = None, w_answered = bm_empty,
      w_reset = None, w_state = Wanted\<rparr>"

definition want_from_item :: "apply_item \<Rightarrow> entry \<Rightarrow> batch_id \<Rightarrow> node_id \<Rightarrow> nat \<Rightarrow> want" where
  "want_from_item item received b source seq_high =
     \<lparr>w_entry = ai_entry item, w_received = received, w_mode = ai_mode item,
      w_conflict = ai_conflict item, w_batch = b, w_source = source, w_seq_high = seq_high,
      w_sources = bs_of_list [source, e_by (ai_entry item)], w_refused = bm_empty,
      w_excluded = bm_empty, w_strikes = bm_empty, w_mismatches = 0, w_local_retries = 0,
      w_fetched = False, w_restoring = False, w_trashed = None, w_answered = bm_empty,
      w_reset = None, w_state = Wanted\<rparr>"

definition is_committing :: "want_state \<Rightarrow> bool" where
  "is_committing s = (case s of Committing _ _ \<Rightarrow> True | _ \<Rightarrow> False)"

definition is_fetching :: "want_state \<Rightarrow> bool" where
  "is_fetching s = (case s of Fetching _ _ \<Rightarrow> True | _ \<Rightarrow> False)"

definition w_committing :: "want \<Rightarrow> bool" where
  "w_committing w \<longleftrightarrow> is_committing (w_state w) \<or> w_reset w \<noteq> None \<or> is_trash w"

datatype want_step = WFetch rel_path version node_id | WCommit want | WAdopt want

datatype local_error = EIo | EDiskFull | ECaseCollision rel_path | EHoldsIgnored

datatype fetch_report = FOk | FNotAvailable | FHashMismatch | FFailed local_error

record expired =
  ex_stalled :: "rel_path list"
  ex_overdue :: "rel_path list"

record want_list =
  wl_wants :: "(rel_path, want) bmap"
  wl_changed :: "rel_path list"
  wl_released :: "(rel_path, version) bmap"

definition wl_default :: want_list where
  "wl_default = \<lparr>wl_wants = bm_empty, wl_changed = [], wl_released = bm_empty\<rparr>"

definition wl_get :: "want_list \<Rightarrow> rel_path \<Rightarrow> want option" where
  "wl_get wl p = bm_get (wl_wants wl) p"

definition wl_in_flight :: "want_list \<Rightarrow> rel_path \<Rightarrow> bool" where
  "wl_in_flight wl p \<longleftrightarrow> is_some_and w_in_flight (wl_get wl p) \<or> bm_has (wl_released wl) p"

definition held_by_released :: "want_list \<Rightarrow> rel_path \<Rightarrow> bool" where
  "held_by_released wl p = bm_has (wl_released wl) p"

definition wl_note :: "rel_path \<Rightarrow> want_list \<Rightarrow> want_list" where
  "wl_note p wl =
     (if wl_changed wl \<noteq> [] \<and> last (wl_changed wl) = p then wl
      else wl\<lparr>wl_changed := wl_changed wl @ [p]\<rparr>)"

text \<open>Writing back a want reached through \<open>get_mut\<close>.\<close>

definition wl_put :: "rel_path \<Rightarrow> want \<Rightarrow> want_list \<Rightarrow> want_list" where
  "wl_put p w wl = wl\<lparr>wl_wants := bm_insert p w (wl_wants wl)\<rparr>"

definition wl_remove :: "rel_path \<Rightarrow> want_list \<Rightarrow> want option \<times> want_list" where
  "wl_remove p wl =
     (let want = wl_get wl p; wl = wl\<lparr>wl_wants := bm_remove p (wl_wants wl)\<rparr>
      in (want, if want \<noteq> None then wl_note p wl else wl))"

definition wl_take :: "rel_path \<Rightarrow> want_list \<Rightarrow> want option \<times> want_list" where
  "wl_take p wl =
     (case wl_remove p wl of
        (None, wl) \<Rightarrow> (None, wl)
      | (Some want, wl) \<Rightarrow>
          (Some want,
           if is_committing (w_state want)
           then wl\<lparr>wl_released := bm_insert p (w_version want) (wl_released wl)\<rparr> else wl))"

definition released_reported :: "rel_path \<Rightarrow> version \<Rightarrow> want_list \<Rightarrow> bool \<times> want_list" where
  "released_reported p v wl =
     (if bm_get (wl_released wl) p \<noteq> Some v then (False, wl)
      else (True, wl\<lparr>wl_released := bm_remove p (wl_released wl)\<rparr>))"

definition wl_restoring :: "want_list \<Rightarrow> rel_path \<Rightarrow> bool" where
  "wl_restoring wl p = is_some_and w_restoring (wl_get wl p)"

definition clear_restoring :: "rel_path \<Rightarrow> want_list \<Rightarrow> want_list" where
  "clear_restoring p wl =
     (case wl_get wl p of
        Some want \<Rightarrow>
          if w_restoring want
          then wl_note p (wl_put p (want\<lparr>w_restoring := False, w_trashed := None\<rparr>) wl)
          else wl
      | None \<Rightarrow> wl)"

definition wl_fetching :: "want_list \<Rightarrow> nat" where
  "wl_fetching wl = length (filter (\<lambda>w. is_fetching (w_state w)) (bm_values (wl_wants wl)))"

text \<open>\<open>filter(|p| seen.insert(p))\<close>: each path at its first place.\<close>

fun first_seen :: "'a bset \<Rightarrow> 'a::linorder list \<Rightarrow> 'a list" where
  "first_seen s [] = []"
| "first_seen s (p # ps) = (if bm_has s p then first_seen s ps else p # first_seen (bs_insert p s) ps)"

definition wl_drain_changes :: "want_list \<Rightarrow> (rel_path \<times> want option) list \<times> want_list" where
  "wl_drain_changes wl =
     (map (\<lambda>p. (p, wl_get wl p)) (first_seen bm_empty (wl_changed wl)), wl\<lparr>wl_changed := []\<rparr>)"

section \<open>Arriving items and announcements\<close>

definition wl_insert ::
    "apply_item \<Rightarrow> entry \<Rightarrow> batch_id \<Rightarrow> node_id \<Rightarrow> nat \<Rightarrow> node_id bset option \<Rightarrow> want_list \<Rightarrow>
     apply_item option \<times> want_list" where
  "wl_insert item received b source seq_high marked wl =
     (let path = ai_path item;
          incoming = e_version (ai_entry item);
          fresh = (\<lambda>restoring trashed.
            let want = (want_from_item item received b source seq_high)
                  \<lparr>w_restoring := restoring, w_trashed := trashed\<rparr>;
                want = (case marked of
                    Some others \<Rightarrow> want\<lparr>w_sources := bs_union (w_sources want) others\<rparr>
                  | None \<Rightarrow> want)
            in (None, wl_note path (wl_put path want wl)))
      in case wl_get wl path of
           Some existing \<Rightarrow>
             if incoming = w_version existing then
               let existing = existing\<lparr>w_sources := bs_insert source (w_sources existing)\<rparr>;
                   existing = (case marked of
                       Some others \<Rightarrow>
                         existing\<lparr>w_restoring := True, w_sources := bs_union (w_sources existing) others\<rparr>
                     | None \<Rightarrow> existing)
               in (None, wl_note path (wl_put path existing wl))
             else if \<not> dominates incoming (w_version existing) \<or> w_committing existing
             then (Some item, wl)
             else fresh (marked \<noteq> None \<or> w_restoring existing)
                    (if w_restoring existing then w_trashed existing else None)
         | None \<Rightarrow> fresh (marked \<noteq> None) None)"

definition wl_release :: "rel_path \<Rightarrow> node_id option \<Rightarrow> want_list \<Rightarrow> want_list" where
  "wl_release p only wl =
     (case wl_get wl p of
        None \<Rightarrow> wl
      | Some want \<Rightarrow>
          let (lifted, excluded) = (case only of
                Some peer \<Rightarrow> (bm_has (w_excluded want) peer, bm_remove peer (w_excluded want))
              | None \<Rightarrow> (\<not> bm_is_empty (w_excluded want), bm_empty));
              want' = want\<lparr>w_excluded := excluded\<rparr>
          in if \<not> lifted \<and> w_state want \<noteq> GaveUp then wl_put p want' wl
             else
               let mismatches = min (bm_len excluded) 255;
                   want' = want'\<lparr>w_mismatches := mismatches,
                     w_state := (if w_state want = GaveUp \<and> mismatches < 2 then Wanted
                                 else w_state want)\<rparr>
               in wl_note p (wl_put p want' wl))"

definition note_announced :: "rel_path \<Rightarrow> content_hash \<Rightarrow> node_id \<Rightarrow> want_list \<Rightarrow> want_list" where
  "note_announced p hash by_node wl =
     (if hash = EMPTY then wl
      else case wl_get wl p of
        None \<Rightarrow> wl
      | Some want \<Rightarrow>
          if e_hash (w_entry want) \<noteq> hash then wl
          else
            let added = (\<not> bm_has (w_sources want) by_node);
                unrefused = bm_has (w_refused want) by_node;
                wl = wl_put p (want\<lparr>w_sources := bs_insert by_node (w_sources want),
                                    w_refused := bm_remove by_node (w_refused want)\<rparr>) wl
            in wl_release p None (if added \<or> unrefused then wl_note p wl else wl))"

definition keep_refusals ::
    "rel_path \<Rightarrow> content_hash \<Rightarrow> (node_id, timestamp) bmap \<Rightarrow> want_list \<Rightarrow> want_list" where
  "keep_refusals p hash refused wl =
     (case wl_get wl p of
        None \<Rightarrow> wl
      | Some want \<Rightarrow>
          if e_hash (w_entry want) \<noteq> hash \<or> bm_is_empty refused then wl
          else wl_note p (wl_put p
            (want\<lparr>w_refused := bm_extend (w_refused want) (bm_entries refused)\<rparr>) wl))"

text \<open>The paths of the wants a condition picks, in path order.\<close>

definition paths_where :: "(want \<Rightarrow> bool) \<Rightarrow> want_list \<Rightarrow> rel_path list" where
  "paths_where P wl = map fst (filter (\<lambda>(_, w). P w) (bm_entries (wl_wants wl)))"

definition reconnected :: "node_id \<Rightarrow> want_list \<Rightarrow> want_list" where
  "reconnected peer wl =
     foldl (\<lambda>wl p. wl_release p (Some peer) wl) wl (paths_where (\<lambda>w. bm_has (w_excluded w) peer) wl)"

definition insert_reverted :: "want \<Rightarrow> want_list \<Rightarrow> want_list" where
  "insert_reverted want wl = wl_note (w_path want) (wl_put (w_path want) want wl)"

definition remember_trashed :: "rel_path \<Rightarrow> observed option \<Rightarrow> want_list \<Rightarrow> want_list" where
  "remember_trashed p trashed wl =
     (case trashed of
        None \<Rightarrow> wl
      | Some t \<Rightarrow>
        (case wl_get wl p of
           Some want \<Rightarrow>
             if w_restoring want \<and> w_trashed want = None
             then wl_note p (wl_put p (want\<lparr>w_trashed := Some t\<rparr>) wl) else wl
         | None \<Rightarrow> wl))"

definition wl_restore :: "want \<Rightarrow> want_list \<Rightarrow> want_list" where
  "wl_restore want wl =
     (let want = (if is_fetching (w_state want) \<or> is_committing (w_state want) \<or> w_state want = Blocked
                  then want\<lparr>w_state := Wanted\<rparr> else want);
          want = want\<lparr>w_fetched := False\<rparr>
      in wl_note (w_path want) (wl_put (w_path want) want wl))"

definition restarted :: "want_list \<Rightarrow> want_list" where
  "restarted wl =
     foldl (\<lambda>wl p. case wl_get wl p of
           Some w \<Rightarrow> wl_restore w (wl\<lparr>wl_wants := bm_remove p (wl_wants wl)\<rparr>)
         | None \<Rightarrow> wl)
       (wl\<lparr>wl_released := bm_empty\<rparr>) (bm_keys (wl_wants wl))"

definition from_wants :: "want list \<Rightarrow> want_list" where
  "from_wants wants =
     \<lparr>wl_wants = bm_of_list (map (\<lambda>w. (w_path w, w)) wants), wl_changed = [], wl_released = bm_empty\<rparr>"

definition set_state :: "rel_path \<Rightarrow> want_state \<Rightarrow> want_list \<Rightarrow> want_list" where
  "set_state p s wl =
     (case wl_get wl p of
        Some want \<Rightarrow>
          if w_state want \<noteq> s then wl_note p (wl_put p (want\<lparr>w_state := s\<rparr>) wl) else wl
      | None \<Rightarrow> wl)"

definition set_states :: "want_state \<Rightarrow> rel_path list \<Rightarrow> want_list \<Rightarrow> want_list" where
  "set_states s ps wl = foldl (\<lambda>wl p. set_state p s wl) wl ps"

section \<open>Reports\<close>

definition exclusion_backoff :: "nat \<Rightarrow> int" where
  "exclusion_backoff strikes =
     min (i64_sat_mul EXCLUSION_NANOS (2 ^ min (strikes - 1) 16)) EXCLUSION_CAP_NANOS"

definition wl_failed ::
    "timestamp \<Rightarrow> rel_path \<Rightarrow> version \<Rightarrow> local_error \<Rightarrow> nat option \<Rightarrow> want_list \<Rightarrow> want option \<times> want_list" where
  "wl_failed now p v err with_seq wl =
     (case wl_get wl p of
        None \<Rightarrow> (None, wl)
      | Some want \<Rightarrow>
          if w_version want \<noteq> v then (None, wl)
          else
            let want = (if err = EIo \<or> err = EDiskFull then want\<lparr>w_fetched := False\<rparr> else want);
                want = (case err of
                    EIo \<Rightarrow>
                      let retries = u32_sat_inc (w_local_retries want)
                      in want\<lparr>w_local_retries := retries,
                              w_state := LocalRetry (plus_nanos now (exclusion_backoff retries))\<rparr>
                  | EDiskFull \<Rightarrow> want\<lparr>w_state := DiskFull\<rparr>
                  | ECaseCollision other \<Rightarrow>
                      want\<lparr>w_state := (case with_seq of Some seq \<Rightarrow> Collides other seq | None \<Rightarrow> Wanted)\<rparr>
                  | EHoldsIgnored \<Rightarrow> want\<lparr>w_state := HoldsIgnored\<rparr>)
            in (Some want, wl_note p (wl_put p want wl)))"

definition fetch_failed ::
    "timestamp \<Rightarrow> rel_path \<Rightarrow> version \<Rightarrow> local_error \<Rightarrow> nat option \<Rightarrow> want_list \<Rightarrow> want option \<times> want_list" where
  "fetch_failed now p v err with_seq wl =
     (if \<not> is_some_and (\<lambda>w. w_version w = v \<and> is_fetching (w_state w)) (wl_get wl p)
      then (None, wl) else wl_failed now p v err with_seq wl)"

definition fetched ::
    "timestamp \<Rightarrow> rel_path \<Rightarrow> version \<Rightarrow> fetch_report \<Rightarrow> want_list \<Rightarrow> want option \<times> want_list" where
  "fetched now p v outcome wl =
     (case wl_get wl p of
        None \<Rightarrow> (None, wl)
      | Some want \<Rightarrow>
        (case w_state want of
           Fetching from _ \<Rightarrow>
             if w_version want \<noteq> v then (None, wl)
             else
               (case outcome of
                  FOk \<Rightarrow>
                    let want = want\<lparr>w_fetched := True, w_state := Wanted\<rparr>
                    in (Some want, wl_note p (wl_put p want wl))
                | FNotAvailable \<Rightarrow>
                    let want = want\<lparr>w_refused := bm_insert from (plus_nanos now REFUSAL_NANOS) (w_refused want),
                                   w_answered := bs_insert from (w_answered want), w_state := Wanted\<rparr>
                    in (Some want, wl_note p (wl_put p want wl))
                | FHashMismatch \<Rightarrow>
                    let strikes = u32_sat_inc
                          (case bm_get (w_strikes want) from of Some n \<Rightarrow> n | None \<Rightarrow> 0);
                        excluded = bm_insert from (plus_nanos now (exclusion_backoff strikes))
                          (w_excluded want);
                        mismatches = min (bm_len excluded) 255;
                        want = want\<lparr>w_strikes := bm_insert from strikes (w_strikes want),
                          w_excluded := excluded, w_mismatches := mismatches,
                          w_state := (if 2 \<le> mismatches then GaveUp else Wanted)\<rparr>
                    in (Some want, wl_note p (wl_put p want wl))
                | FFailed err \<Rightarrow> fetch_failed now p v err None wl)
         | _ \<Rightarrow> (None, wl)))"

definition wl_observed :: "rel_path \<Rightarrow> want_list \<Rightarrow> want_list" where
  "wl_observed p wl =
     (if is_some_and (\<lambda>w. w_state w = HoldsIgnored) (wl_get wl p) then set_state p Wanted wl else wl)"

definition pause_inbound :: "want_list \<Rightarrow> want_list" where
  "pause_inbound wl = set_states DiskFull (paths_where (\<lambda>w. case w_state w of
     Wanted \<Rightarrow> True | Blocked \<Rightarrow> True | Deferred _ \<Rightarrow> True | NoSource \<Rightarrow> True | _ \<Rightarrow> False) wl) wl"

definition resume_inbound :: "want_list \<Rightarrow> want_list" where
  "resume_inbound wl = set_states Wanted (paths_where (\<lambda>w. w_state w = DiskFull) wl) wl"

definition release_collisions :: "(rel_path \<Rightarrow> nat option) \<Rightarrow> want_list \<Rightarrow> want_list" where
  "release_collisions live_seq_at wl =
     set_states Wanted (paths_where (\<lambda>w. case w_state w of
         Collides other seq \<Rightarrow> live_seq_at other \<noteq> Some seq | _ \<Rightarrow> False) wl) wl"

definition progress :: "timestamp \<Rightarrow> rel_path \<Rightarrow> version \<Rightarrow> want_list \<Rightarrow> want_list" where
  "progress now p v wl =
     (case wl_get wl p of
        None \<Rightarrow> wl
      | Some want \<Rightarrow>
          if w_version want = v then
            (case w_state want of
               Fetching from _ \<Rightarrow>
                 wl_note p (wl_put p
                   (want\<lparr>w_state := Fetching from (plus_nanos now FETCH_STALL_NANOS)\<rparr>) wl)
             | _ \<Rightarrow> wl)
          else wl)"

definition expire_exclusions :: "timestamp \<Rightarrow> want_list \<Rightarrow> want_list" where
  "expire_exclusions now wl =
     foldl (\<lambda>wl (p, n). wl_release p (Some n) wl) wl
       (concat (map (\<lambda>(p, w). map (\<lambda>(n, _). (p, n))
          (filter (\<lambda>(_, until). until \<le> now) (bm_entries (w_excluded w)))) (bm_entries (wl_wants wl))))"

definition expire_refusals :: "timestamp \<Rightarrow> want_list \<Rightarrow> want_list" where
  "expire_refusals now wl =
     (let keep = bm_filter (\<lambda>_ until. now < until);
          unrefused = paths_where (\<lambda>w. bm_len (keep (w_refused w)) \<noteq> bm_len (w_refused w)) wl;
          wl = wl\<lparr>wl_wants := bm_map (\<lambda>_ w. w\<lparr>w_refused := keep (w_refused w)\<rparr>) (wl_wants wl)\<rparr>
      in foldl (\<lambda>wl p. wl_note p wl) wl unrefused)"

definition expire :: "timestamp \<Rightarrow> want_list \<Rightarrow> expired \<times> want_list" where
  "expire now wl =
     (let wl = expire_exclusions now wl;
          wl = expire_refusals now wl;
          stalled = paths_where (\<lambda>w. case w_state w of Fetching _ d \<Rightarrow> d \<le> now | _ \<Rightarrow> False) wl;
          overdue = paths_where (\<lambda>w. case w_state w of
            Committing d o' \<Rightarrow> \<not> o' \<and> d \<le> now | _ \<Rightarrow> False) wl;
          wl = set_states Wanted stalled wl;
          retried = paths_where (\<lambda>w. case w_state w of LocalRetry until \<Rightarrow> until \<le> now | _ \<Rightarrow> False) wl;
          wl = set_states Wanted retried wl;
          wl = foldl (\<lambda>wl p. case wl_get wl p of
                 Some want \<Rightarrow> (case w_state want of
                     Committing d _ \<Rightarrow> set_state p (Committing d True) wl | _ \<Rightarrow> wl)
               | None \<Rightarrow> wl) wl overdue
      in (\<lparr>ex_stalled = stalled, ex_overdue = overdue\<rparr>, wl))"

definition peer_gone :: "node_id \<Rightarrow> want_list \<Rightarrow> want_list" where
  "peer_gone peer wl =
     set_states Wanted (paths_where (\<lambda>w. case w_state w of
         Fetching from _ \<Rightarrow> from = peer | _ \<Rightarrow> False) wl) wl"

definition next_deadline :: "want_list \<Rightarrow> timestamp option" where
  "next_deadline wl =
     (let deadlines = List.map_filter (\<lambda>w. case w_state w of
            Fetching _ d \<Rightarrow> Some d
          | Committing d o' \<Rightarrow> (if o' then None else Some d)
          | LocalRetry until \<Rightarrow> Some until
          | _ \<Rightarrow> None) (bm_values (wl_wants wl));
          expiries = concat (map (\<lambda>w. bm_values (w_excluded w) @ bm_values (w_refused w))
            (bm_values (wl_wants wl)))
      in case deadlines @ expiries of [] \<Rightarrow> None | d # ds \<Rightarrow> Some (foldl min d ds))"

section \<open>The ordering gate\<close>

definition gates :: "want \<Rightarrow> want \<Rightarrow> bool" where
  "gates want other \<longleftrightarrow>
     (if is_delete want
      then e_kind (w_entry want) = Dir \<and> is_delete other \<and> is_ancestor_of (w_path want) (w_path other)
      else is_ancestor_of (w_path other) (w_path want) \<and> (is_dir_create other \<or> is_trash other))"

text \<open>\<open>min_by_key\<close> keeps the first of several least elements, \<open>max_by_key\<close> the last of several
  greatest.\<close>

definition min_by_key :: "('a \<Rightarrow> nat) \<Rightarrow> 'a list \<Rightarrow> 'a option" where
  "min_by_key f xs =
     foldl (\<lambda>acc x. case acc of None \<Rightarrow> Some x | Some y \<Rightarrow> if f x < f y then Some x else Some y) None xs"

definition max_by_key :: "('a \<Rightarrow> nat) \<Rightarrow> 'a list \<Rightarrow> 'a option" where
  "max_by_key f xs =
     foldl (\<lambda>acc x. case acc of None \<Rightarrow> Some x | Some y \<Rightarrow> if f y \<le> f x then Some x else Some y) None xs"

definition waits_for :: "want_list \<Rightarrow> want \<Rightarrow> rel_path option" where
  "waits_for wl want =
     (let waiting_on = map w_path (filter (\<lambda>other. gates want other \<and> \<not> w_in_flight other)
            (bm_values (wl_wants wl)))
      in if is_delete want then min_by_key (\<lambda>p. length (path_str p)) waiting_on
         else max_by_key (\<lambda>p. length (path_str p)) waiting_on)"

definition release_waiting :: "want_list \<Rightarrow> want_list" where
  "release_waiting wl =
     set_states Wanted (paths_where (\<lambda>w. case w_state w of
         WaitingFor p \<Rightarrow> \<not> is_some_and (\<lambda>other. gates w other) (wl_get wl p) | _ \<Rightarrow> False) wl) wl"

definition gated :: "want_list \<Rightarrow> want \<Rightarrow> bool" where
  "gated wl want = list_ex (gates want) (bm_values (wl_wants wl))"

section \<open>Dispatch\<close>

datatype selection = Sources "(tier \<times> node_id) list" | SelNoSource | SelDeferred tier

definition wl_select :: "want \<Rightarrow> rules \<Rightarrow> (node_id, tier) bmap \<Rightarrow> selection" where
  "wl_select want rs peers =
     (let candidates = List.map_filter (\<lambda>n. map_option (\<lambda>t. (t, n)) (bm_get peers n))
            (filter (\<lambda>n. \<not> bm_has (w_excluded want) n \<and> \<not> bm_has (w_refused want) n)
              (bm_keys (w_sources want)))
      in if candidates = [] then SelNoSource
         else
           let sz = e_size (w_entry want);
               allowed = filter (\<lambda>(t, _). tier_allows t rs sz) (sort candidates)
           in if allowed = []
              then SelDeferred (case find (\<lambda>t. tier_allows t rs sz) [TRelay, TDirect, TLan] of
                  Some t \<Rightarrow> t | None \<Rightarrow> TLan)
              else Sources allowed)"

type_synonym fetchable = "tier \<times> node_id \<times> rel_path \<times> (tier \<times> node_id) list"

type_synonym slots = "(node_id, nat) bmap \<times> nat"

definition slot_of :: "(node_id, nat) bmap \<Rightarrow> node_id \<Rightarrow> nat" where
  "slot_of per_peer n = (case bm_get per_peer n of Some k \<Rightarrow> k | None \<Rightarrow> 0)"

definition count_slots :: "want_list \<Rightarrow> slots" where
  "count_slots wl =
     foldl (\<lambda>(per_peer, total) w. case w_state w of
         Fetching from _ \<Rightarrow> (bm_insert from (slot_of per_peer from + 1) per_peer, total + 1)
       | _ \<Rightarrow> (per_peer, total)) (bm_empty, 0) (bm_values (wl_wants wl))"

definition select_fetches ::
    "rules \<Rightarrow> (node_id, tier) bmap \<Rightarrow> want_list \<Rightarrow> fetchable list \<times> (rel_path \<times> want_state) list" where
  "select_fetches rs peers wl =
     foldl (\<lambda>(fetchable, reselected) (p, want).
         if \<not> needs_fetch want then (fetchable, reselected)
         else if \<not> (case w_state want of Wanted \<Rightarrow> True | Deferred _ \<Rightarrow> True | NoSource \<Rightarrow> True | _ \<Rightarrow> False)
         then (fetchable, reselected)
         else case wl_select want rs peers of
             Sources allowed \<Rightarrow>
               (fetchable @ [(fst (hd allowed), snd (hd allowed), p, allowed)], reselected)
           | SelNoSource \<Rightarrow> (fetchable, reselected @ [(p, NoSource)])
           | SelDeferred need \<Rightarrow> (fetchable, reselected @ [(p, Deferred need)]))
       ([], []) (bm_entries (wl_wants wl))"

definition assign_fetch ::
    "timestamp \<Rightarrow> rules \<Rightarrow> want_step list \<times> slots \<times> want_list \<Rightarrow> fetchable \<Rightarrow>
     want_step list \<times> slots \<times> want_list" where
  "assign_fetch now rs st f =
     (let (steps, (per_peer, total), wl) = st; (_, _, p, allowed) = f in
      if unat (max_fetches_per_folder rs) \<le> total then (steps, (per_peer, total), set_state p Wanted wl)
      else case find (\<lambda>n. slot_of per_peer n < unat (max_fetches_per_peer rs)) (map snd allowed) of
          None \<Rightarrow> (steps, (per_peer, total), set_state p Wanted wl)
        | Some n \<Rightarrow>
            let slots = (bm_insert n (slot_of per_peer n + 1) per_peer, total + 1)
            in case wl_get wl p of
                None \<Rightarrow> (steps, slots, wl)
              | Some want \<Rightarrow>
                  (steps @ [WFetch p (w_version want) n], slots,
                   set_state p (Fetching n (plus_nanos now FETCH_STALL_NANOS)) wl))"

definition dispatch_fetches ::
    "timestamp \<Rightarrow> rules \<Rightarrow> (node_id, tier) bmap \<Rightarrow> want_list \<Rightarrow> want_step list \<times> slots \<times> want_list" where
  "dispatch_fetches now rs peers wl =
     (let slots = count_slots wl;
          (fetchable, reselected) = select_fetches rs peers wl;
          wl = foldl (\<lambda>wl (p, s). set_state p s wl) wl reselected
      in foldl (assign_fetch now rs) ([], slots, wl)
           (sort_key (\<lambda>(t, n, p, _). (t, n, p)) fetchable))"

definition ready_paths :: "want_list \<Rightarrow> rel_path list" where
  "ready_paths wl = paths_where (\<lambda>w. \<not> needs_fetch w \<and> (case w_state w of
     Wanted \<Rightarrow> True | Blocked \<Rightarrow> True | Deferred _ \<Rightarrow> True | NoSource \<Rightarrow> True | _ \<Rightarrow> False)) wl"

definition commit_step ::
    "timestamp \<Rightarrow> want_step list \<times> want_list \<Rightarrow> rel_path \<Rightarrow> want_step list \<times> want_list" where
  "commit_step now st p =
     (let (steps, wl) = st in
      case wl_get wl p of
        None \<Rightarrow> (steps, wl)
      | Some want \<Rightarrow>
        (case waits_for wl want of
           Some on \<Rightarrow> (steps, set_state p (WaitingFor on) wl)
         | None \<Rightarrow>
             if gated wl want then (steps, set_state p Blocked wl)
             else if bm_has (wl_released wl) p then (steps, set_state p Blocked wl)
             else if w_mode want = IndexOnly
             then (steps @ [WAdopt want], snd (wl_remove p wl))
             else (steps @ [WCommit want],
                   set_state p (Committing (plus_nanos now COMMIT_DEADLINE_NANOS) False) wl)))"

definition dispatch_commits :: "timestamp \<Rightarrow> want_step list \<times> want_list \<Rightarrow> want_step list \<times> want_list" where
  "dispatch_commits now st =
     (let wl = snd st;
          del = (\<lambda>p. is_some_and is_delete (wl_get wl p));
          creates = sort (filter (\<lambda>p. \<not> del p) (ready_paths wl));
          deletes = rev (sort (filter del (ready_paths wl)))
      in foldl (commit_step now) st (creates @ deletes))"

definition dispatch ::
    "timestamp \<Rightarrow> rules \<Rightarrow> (node_id, tier) bmap \<Rightarrow> want_list \<Rightarrow> want_step list \<times> want_list" where
  "dispatch now rs peers wl =
     (let (steps, _, wl) = dispatch_fetches now rs peers (release_waiting wl)
      in dispatch_commits now (steps, wl))"

lemmas [eval_simps] =
  less_eq_tier_def less_tier_def tier_limit_def tier_allows_def state_in_flight_def w_path_def
  w_version_def w_in_flight_def needs_fetch_def is_delete_def is_dir_create_def is_trash_def
  want_trash_def want_from_item_def is_committing_def is_fetching_def w_committing_def wl_default_def
  wl_get_def wl_in_flight_def held_by_released_def wl_note_def wl_put_def wl_remove_def wl_take_def
  released_reported_def wl_restoring_def clear_restoring_def wl_fetching_def wl_drain_changes_def
  wl_insert_def wl_release_def note_announced_def keep_refusals_def paths_where_def reconnected_def
  insert_reverted_def remember_trashed_def wl_restore_def restarted_def from_wants_def set_state_def
  set_states_def exclusion_backoff_def wl_failed_def fetch_failed_def fetched_def wl_observed_def
  pause_inbound_def resume_inbound_def release_collisions_def progress_def expire_exclusions_def
  expire_refusals_def expire_def peer_gone_def next_deadline_def gates_def min_by_key_def
  max_by_key_def waits_for_def release_waiting_def gated_def wl_select_def slot_of_def
  count_slots_def select_fetches_def assign_fetch_def dispatch_fetches_def ready_paths_def
  commit_step_def dispatch_commits_def dispatch_def

end
