(* ===== verification/WantLaws.thy ===== *)
theory WantLaws
  imports Wants
begin

text \<open>
  The want-list's operations seen path by path, its invariant \<open>wl_ok\<close>, and the commit each path has in
  flight. The steps of the list are the inductive relation \<open>want_step\<close>.
\<close>

section \<open>Looking up after writing\<close>

lemma wl_note_simps [simp]:
  "wl_get (wl_note p wl) q = wl_get wl q" "wl_wants (wl_note p wl) = wl_wants wl"
  "wl_released (wl_note p wl) = wl_released wl"
  by (simp_all add: wl_note_def wl_get_def)

lemma wl_put_simps [simp]:
  "wl_get (wl_put p w wl) q = (if q = p then Some w else wl_get wl q)"
  "wl_released (wl_put p w wl) = wl_released wl"
  by (simp_all add: wl_put_def wl_get_def)

lemma set_state_simps [simp]:
  "wl_get (set_state p s wl) q =
     (if q = p then map_option (w_state_update (\<lambda>_. s)) (wl_get wl p) else wl_get wl q)"
  "wl_released (set_state p s wl) = wl_released wl"
  by (auto simp: set_state_def split: option.split)

lemma set_states_Nil [simp]: "set_states s [] wl = wl"
  by (simp add: set_states_def)

lemma set_states_Cons [simp]: "set_states s (p # ps) wl = set_states s ps (set_state p s wl)"
  by (simp add: set_states_def)

lemma set_states_simps [simp]:
  "wl_get (set_states s ps wl) q =
     (if q \<in> set ps then map_option (w_state_update (\<lambda>_. s)) (wl_get wl q) else wl_get wl q)"
  "wl_released (set_states s ps wl) = wl_released wl"
proof (induction ps arbitrary: wl)
  case (Cons p ps)
  { case 1 then show ?case by (auto simp: Cons option.map_comp comp_def) }
  { case 2 then show ?case by (simp add: Cons) }
qed simp_all

lemma in_paths_where [simp]:
  "p \<in> set (paths_where P wl) \<longleftrightarrow> (\<exists>w. wl_get wl p = Some w \<and> P w)"
  by (force simp: paths_where_def wl_get_def image_iff in_bm_entries)

lemma wl_remove_simps [simp]:
  "fst (wl_remove p wl) = wl_get wl p"
  "wl_get (snd (wl_remove p wl)) q = (if q = p then None else wl_get wl q)"
  "wl_released (snd (wl_remove p wl)) = wl_released wl"
  by (simp_all add: wl_remove_def Let_def wl_get_def)

lemma wl_take_simps [simp]:
  "fst (wl_take p wl) = wl_get wl p"
  "wl_get (snd (wl_take p wl)) q = (if q = p then None else wl_get wl q)"
  "bm_get (wl_released (snd (wl_take p wl))) q =
     (case wl_get wl p of
        Some w \<Rightarrow> if q = p \<and> is_committing (w_state w) then Some (w_version w)
                  else bm_get (wl_released wl) q
      | None \<Rightarrow> bm_get (wl_released wl) q)"
  using wl_remove_simps [of p wl]
  by (cases "wl_remove p wl"; simp add: wl_take_def wl_get_def split: option.splits)+

lemma released_reported_simps [simp]:
  "wl_get (snd (released_reported p v wl)) q = wl_get wl q"
  "bm_get (wl_released (snd (released_reported p v wl))) q =
     (if q = p \<and> bm_get (wl_released wl) p = Some v then None else bm_get (wl_released wl) q)"
  by (auto simp: released_reported_def wl_get_def)

lemma clear_restoring_simps [simp]:
  "wl_released (clear_restoring p wl) = wl_released wl"
  by (auto simp: clear_restoring_def split: option.split)

lemma wl_drain_simps [simp]:
  "wl_get (snd (wl_drain_changes wl)) q = wl_get wl q"
  "wl_released (snd (wl_drain_changes wl)) = wl_released wl"
  by (simp_all add: wl_drain_changes_def wl_get_def)

section \<open>The invariant\<close>

text \<open>A want sits under its own path, its mismatch count is the number of sources it excludes, and it
  has given up only while two or more are excluded. A path has a commit in flight at most once: as
  its want's or as a released one.\<close>

definition want_ok :: "rel_path \<Rightarrow> want \<Rightarrow> bool" where
  "want_ok p w \<longleftrightarrow> w_path w = p \<and> e_path (w_received w) = p \<and> w_mismatches w = min (bm_len (w_excluded w)) 255 \<and>
     (w_state w = GaveUp \<longrightarrow> 2 \<le> w_mismatches w)"

definition wl_ok :: "want_list \<Rightarrow> bool" where
  "wl_ok wl \<longleftrightarrow> (\<forall>p w. wl_get wl p = Some w \<longrightarrow> want_ok p w \<and>
     (is_committing (w_state w) \<longrightarrow> bm_get (wl_released wl) p = None))"

definition commit_at :: "want_list \<Rightarrow> rel_path \<Rightarrow> version option" where
  "commit_at wl p = (case bm_get (wl_released wl) p of Some v \<Rightarrow> Some v
     | None \<Rightarrow> (case wl_get wl p of
         Some w \<Rightarrow> if is_committing (w_state w) then Some (w_version w) else None
       | None \<Rightarrow> None))"

lemma commit_at_cong:
  "wl_get wl' p = wl_get wl p \<Longrightarrow> wl_released wl' = wl_released wl \<Longrightarrow> commit_at wl' p = commit_at wl p"
  by (simp add: commit_at_def split: option.split)

lemma wl_okD: "wl_ok wl \<Longrightarrow> wl_get wl p = Some w \<Longrightarrow> want_ok p w"
  by (simp add: wl_ok_def)

text \<open>A list all of whose wants are sound, and whose commits at each path are those it had.\<close>

definition keeps_commits :: "want_list \<Rightarrow> want_list \<Rightarrow> bool" where
  "keeps_commits wl wl' \<longleftrightarrow> wl_ok wl' \<and> (\<forall>p. commit_at wl' p = commit_at wl p)"

lemma keeps_commits_refl: "wl_ok wl \<Longrightarrow> keeps_commits wl wl"
  by (simp add: keeps_commits_def)

lemma keeps_commits_trans: "keeps_commits a b \<Longrightarrow> keeps_commits b c \<Longrightarrow> keeps_commits a c"
  by (simp add: keeps_commits_def)

lemma keeps_commits_fold:
  assumes "\<And>wl x. wl_ok wl \<Longrightarrow> keeps_commits wl (f wl x)" and "wl_ok wl"
  shows "keeps_commits wl (foldl f wl xs)"
  using assms(2)
proof (induction xs arbitrary: wl)
  case (Cons x xs)
  have "keeps_commits wl (f wl x)" using assms(1) Cons.prems by simp
  moreover from this have "keeps_commits (f wl x) (foldl f (f wl x) xs)"
    by (intro Cons.IH) (simp add: keeps_commits_def)
  ultimately show ?case by (auto intro: keeps_commits_trans)
qed (simp add: keeps_commits_refl)

text \<open>Rewriting one want keeps the commits if neither the old nor the new one is committing, or both
  are with the same version.\<close>

definition same_commit :: "want option \<Rightarrow> want \<Rightarrow> bool" where
  "same_commit old w \<longleftrightarrow>
     (case old of
        Some o' \<Rightarrow> is_committing (w_state o') = is_committing (w_state w) \<and>
          (is_committing (w_state w) \<longrightarrow> w_version o' = w_version w)
      | None \<Rightarrow> \<not> is_committing (w_state w))"

lemma keeps_commits_put:
  assumes "wl_ok wl" and "want_ok p w" and "same_commit (wl_get wl p) w"
  shows "keeps_commits wl (wl_put p w wl)"
  using assms
  by (auto simp: keeps_commits_def wl_ok_def commit_at_def same_commit_def split: option.splits)

lemma wl_note_ok [simp]: "wl_ok (wl_note p wl) = wl_ok wl"
  by (simp add: wl_ok_def)

lemma wl_note_commit_at [simp]: "commit_at (wl_note p wl) q = commit_at wl q"
  by (simp add: commit_at_def split: option.split)

lemma keeps_commits_note [simp]: "keeps_commits wl (wl_note p wl') = keeps_commits wl wl'"
  by (simp add: keeps_commits_def)

lemma keeps_commits_set_state:
  assumes ok: "wl_ok wl" and s: "s \<noteq> GaveUp"
    and c: "\<And>w. wl_get wl p = Some w \<Longrightarrow> is_committing (w_state w) = is_committing s"
  shows "keeps_commits wl (set_state p s wl)"
proof (cases "wl_get wl p")
  case (Some w)
  have "want_ok p (w\<lparr>w_state := s\<rparr>)"
    using wl_okD [OF ok Some] s by (simp add: want_ok_def w_path_def)
  moreover have "same_commit (wl_get wl p) (w\<lparr>w_state := s\<rparr>)"
    using c [OF Some] by (simp add: Some same_commit_def w_version_def)
  ultimately show ?thesis
    using keeps_commits_put [OF ok] by (auto simp: set_state_def Some keeps_commits_refl [OF ok])
qed (simp add: set_state_def keeps_commits_refl [OF ok])

lemma keeps_commits_set_states:
  assumes ok: "wl_ok wl" and s: "s \<noteq> GaveUp" "\<not> is_committing s"
    and c: "\<And>p w. p \<in> set ps \<Longrightarrow> wl_get wl p = Some w \<Longrightarrow> \<not> is_committing (w_state w)"
  shows "keeps_commits wl (set_states s ps wl)"
  using ok c
proof (induction ps arbitrary: wl)
  case (Cons p ps)
  have step: "keeps_commits wl (set_state p s wl)"
    using Cons.prems s by (intro keeps_commits_set_state) auto
  moreover have "keeps_commits (set_state p s wl) (set_states s ps (set_state p s wl))"
    using Cons.prems step s by (intro Cons.IH) (auto simp: keeps_commits_def split: if_splits)
  ultimately show ?case by (auto intro: keeps_commits_trans)
qed (simp add: keeps_commits_refl)

section \<open>The operations that leave commits alone\<close>

lemmas want_path_simps = want_ok_def w_path_def w_version_def

lemma bm_len_empty [simp]: "bm_len bm_empty = 0"
  by (simp add: bm_len_def)

lemma bm_is_empty_eq: "bm_is_empty m \<Longrightarrow> m = bm_empty"
  by (rule bm_eqI) (simp add: bm_is_empty_iff)

text \<open>The common case: the want at a path is rewritten without touching state, entry or exclusions.\<close>

lemma keeps_commits_edit:
  assumes "wl_ok wl" and "wl_get wl p = Some w" and "w_state w' = w_state w" "w_entry w' = w_entry w"
    and "w_received w' = w_received w"
    and "w_mismatches w' = w_mismatches w" "w_excluded w' = w_excluded w"
  shows "keeps_commits wl (wl_put p w' wl)"
  using assms wl_okD [OF assms(1,2)]
  by (intro keeps_commits_put) (auto simp: want_path_simps same_commit_def)

text \<open>And: a want that is not committing gets a state that is neither committing nor a give-up.\<close>

lemma keeps_commits_restate:
  assumes "wl_ok wl" and "wl_get wl p = Some w" and "\<not> is_committing (w_state w)"
    and "\<not> is_committing (w_state w')" "w_state w' \<noteq> GaveUp" "w_entry w' = w_entry w"
    and "w_received w' = w_received w"
    and "w_mismatches w' = w_mismatches w" "w_excluded w' = w_excluded w"
  shows "keeps_commits wl (wl_put p w' wl)"
  using assms wl_okD [OF assms(1,2)]
  by (intro keeps_commits_put) (auto simp: want_path_simps same_commit_def)

lemma is_committing_simps [simp]:
  "\<not> is_committing Wanted" "\<not> is_committing Blocked" "\<not> is_committing (Deferred t)"
  "\<not> is_committing NoSource" "\<not> is_committing (Fetching n d)" "is_committing (Committing d b)"
  "\<not> is_committing GaveUp" "\<not> is_committing (LocalRetry d)" "\<not> is_committing DiskFull"
  "\<not> is_committing (Collides p k)" "\<not> is_committing (WaitingFor p)" "\<not> is_committing HoldsIgnored"
  by (simp_all add: is_committing_def)

lemma fresh_want_fields [simp]:
  "w_path (want_from_item item received b source hi) = ai_path item"
  "w_state (want_from_item item received b source hi) = Wanted"
  "w_mismatches (want_from_item item received b source hi) = 0"
  "w_excluded (want_from_item item received b source hi) = bm_empty"
  by (simp_all add: want_from_item_def w_path_def ai_path_def)

lemma wl_insert_keeps:
  assumes ok: "wl_ok wl" and rec: "e_path received = ai_path item"
  shows "keeps_commits wl (snd (wl_insert item received b source hi marked wl))"
proof -
  define fresh where "fresh r t = (case marked of
      Some others \<Rightarrow> (want_from_item item received b source hi)\<lparr>w_restoring := r, w_trashed := t,
        w_sources := bs_union (w_sources (want_from_item item received b source hi)) others\<rparr>
    | None \<Rightarrow> (want_from_item item received b source hi)\<lparr>w_restoring := r, w_trashed := t\<rparr>)" for r t
  have put: "keeps_commits wl (wl_put (ai_path item) (fresh r t) wl)"
    if "\<And>w. wl_get wl (ai_path item) = Some w \<Longrightarrow> \<not> is_committing (w_state w)" for r t
  proof (rule keeps_commits_put [OF ok])
    show "want_ok (ai_path item) (fresh r t)"
      using rec by (simp add: fresh_def want_ok_def w_path_def ai_path_def want_from_item_def split: option.split)
    show "same_commit (wl_get wl (ai_path item)) (fresh r t)"
      using that by (simp add: fresh_def same_commit_def want_from_item_def split: option.split)
  qed
  show ?thesis
  proof (cases "wl_get wl (ai_path item)")
    case None
    then show ?thesis
      using put by (cases marked) (simp_all add: wl_insert_def Let_def fresh_def)
  next
    case (Some w)
    have edit: "keeps_commits wl (wl_put (ai_path item) (w\<lparr>w_sources := x\<rparr>) wl)"
      "keeps_commits wl (wl_put (ai_path item) (w\<lparr>w_restoring := y, w_sources := x\<rparr>) wl)" for x y
      by (rule keeps_commits_edit [OF ok Some]; simp)+
    show ?thesis
      using put edit Some keeps_commits_refl [OF ok]
      by (cases marked) (simp_all add: wl_insert_def Let_def fresh_def w_committing_def)
  qed
qed

lemma wl_release_keeps:
  assumes ok: "wl_ok wl"
  shows "keeps_commits wl (wl_release p only wl)"
proof (cases "wl_get wl p")
  case (Some w)
  note wok = wl_okD [OF ok Some]
  define lifted where "lifted = (case only of Some peer \<Rightarrow> bm_has (w_excluded w) peer
    | None \<Rightarrow> \<not> bm_is_empty (w_excluded w))"
  define ex where "ex = (case only of Some peer \<Rightarrow> bm_remove peer (w_excluded w) | None \<Rightarrow> bm_empty)"
  have same: "ex = w_excluded w" if "\<not> lifted"
    using that bm_is_empty_eq [of "w_excluded w"]
    by (auto simp: lifted_def ex_def bm.remove_absent split: option.splits)
  have "keeps_commits wl (wl_put p (w\<lparr>w_excluded := ex\<rparr>) wl)" if "\<not> lifted"
    by (rule keeps_commits_edit [OF ok Some]) (simp_all add: same [OF that])
  moreover have "keeps_commits wl (wl_put p (w\<lparr>w_excluded := ex, w_mismatches := min (bm_len ex) 255,
      w_state := if w_state w = GaveUp \<and> min (bm_len ex) 255 < 2 then Wanted else w_state w\<rparr>) wl)"
    using wok Some by (intro keeps_commits_put [OF ok]) (auto simp: want_path_simps same_commit_def)
  ultimately show ?thesis
    by (cases only) (simp_all add: wl_release_def Some Let_def lifted_def ex_def)
qed (simp add: wl_release_def keeps_commits_refl [OF ok])

lemma note_announced_keeps:
  assumes ok: "wl_ok wl"
  shows "keeps_commits wl (note_announced p h n wl)"
proof (cases "wl_get wl p")
  case (Some w)
  have put: "keeps_commits wl (wl_put p (w\<lparr>w_sources := a, w_refused := b\<rparr>) wl)" for a b
    by (rule keeps_commits_edit [OF ok Some]) simp_all
  have "keeps_commits wl (wl_release p None wl')" if "keeps_commits wl wl'" for wl'
    using that wl_release_keeps by (auto simp: keeps_commits_def intro: keeps_commits_trans)
  then show ?thesis
    using put keeps_commits_refl [OF ok] by (auto simp: note_announced_def Some Let_def)
qed (simp add: note_announced_def keeps_commits_refl [OF ok])

lemma keep_refusals_keeps:
  assumes ok: "wl_ok wl"
  shows "keeps_commits wl (keep_refusals p h r wl)"
proof (cases "wl_get wl p")
  case (Some w)
  have "keeps_commits wl (wl_put p (w\<lparr>w_refused := b\<rparr>) wl)" for b
    by (rule keeps_commits_edit [OF ok Some]) simp_all
  then show ?thesis using keeps_commits_refl [OF ok] by (simp add: keep_refusals_def Some)
qed (simp add: keep_refusals_def keeps_commits_refl [OF ok])

lemma reconnected_keeps: "wl_ok wl \<Longrightarrow> keeps_commits wl (reconnected n wl)"
  unfolding reconnected_def by (rule keeps_commits_fold [OF wl_release_keeps])

lemma remember_trashed_keeps:
  assumes ok: "wl_ok wl"
  shows "keeps_commits wl (remember_trashed p t wl)"
proof (cases "wl_get wl p")
  case (Some w)
  have "keeps_commits wl (wl_put p (w\<lparr>w_trashed := b\<rparr>) wl)" for b
    by (rule keeps_commits_edit [OF ok Some]) simp_all
  then show ?thesis
    using keeps_commits_refl [OF ok] by (simp add: remember_trashed_def Some split: option.split)
qed (simp add: remember_trashed_def keeps_commits_refl [OF ok] split: option.split)

lemma clear_restoring_keeps:
  assumes ok: "wl_ok wl"
  shows "keeps_commits wl (clear_restoring p wl)"
proof (cases "wl_get wl p")
  case (Some w)
  have "keeps_commits wl (wl_put p (w\<lparr>w_restoring := a, w_trashed := b\<rparr>) wl)" for a b
    by (rule keeps_commits_edit [OF ok Some]) simp_all
  then show ?thesis using keeps_commits_refl [OF ok] by (simp add: clear_restoring_def Some)
qed (simp add: clear_restoring_def keeps_commits_refl [OF ok])

lemma wl_take_keeps:
  assumes ok: "wl_ok wl"
  shows "keeps_commits wl (snd (wl_take p wl))"
  using ok
  by (auto simp: keeps_commits_def wl_ok_def commit_at_def split: option.splits if_splits)

section \<open>Reports and deadlines\<close>

lemma wl_failed_keeps:
  assumes ok: "wl_ok wl" and c: "\<And>w. wl_get wl p = Some w \<Longrightarrow> \<not> is_committing (w_state w)"
  shows "keeps_commits wl (snd (wl_failed now p v err seq wl))"
proof (cases "wl_get wl p")
  case (Some w)
  have "keeps_commits wl (wl_put p (w\<lparr>w_state := s\<rparr>) wl)"
    "keeps_commits wl (wl_put p (w\<lparr>w_fetched := False, w_state := s\<rparr>) wl)"
    "keeps_commits wl (wl_put p (w\<lparr>w_fetched := False, w_local_retries := k, w_state := s\<rparr>) wl)"
    if "\<not> is_committing s" "s \<noteq> GaveUp" for s k
    by (rule keeps_commits_restate [OF ok Some c [OF Some]]; simp add: that)+
  then show ?thesis
    using keeps_commits_refl [OF ok]
    by (cases err) (simp_all add: wl_failed_def Some Let_def split: option.split)
qed (simp add: wl_failed_def keeps_commits_refl [OF ok])

lemma fetch_failed_keeps:
  assumes ok: "wl_ok wl"
  shows "keeps_commits wl (snd (fetch_failed now p v err seq wl))"
proof (cases "is_some_and (\<lambda>w. w_version w = v \<and> is_fetching (w_state w)) (wl_get wl p)")
  case True
  then have "\<not> is_committing (w_state w)" if "wl_get wl p = Some w" for w
    using that by (auto simp: is_fetching_def split: want_state.splits)
  from wl_failed_keeps [OF ok this] True show ?thesis by (simp add: fetch_failed_def)
qed (simp add: fetch_failed_def keeps_commits_refl [OF ok])

lemma fetched_keeps:
  assumes ok: "wl_ok wl"
  shows "keeps_commits wl (snd (fetched now p v outcome wl))"
proof (cases "\<exists>w n d. wl_get wl p = Some w \<and> w_state w = Fetching n d \<and> w_version w = v")
  case True
  then obtain w n d where w: "wl_get wl p = Some w" "w_state w = Fetching n d" "w_version w = v" by blast
  have ncom: "\<not> is_committing (w_state w)" by (simp add: w)
  note r = keeps_commits_restate [OF ok w(1) ncom]
  have "keeps_commits wl (wl_put p (w\<lparr>w_fetched := True, w_state := Wanted\<rparr>) wl)"
    "keeps_commits wl (wl_put p (w\<lparr>w_refused := a, w_answered := b, w_state := Wanted\<rparr>) wl)" for a b
    by (rule r; simp)+
  moreover have "keeps_commits wl (wl_put p (w\<lparr>w_strikes := k, w_excluded := ex,
      w_mismatches := min (bm_len ex) 255,
      w_state := (if 2 \<le> min (bm_len ex) 255 then GaveUp else Wanted)\<rparr>) wl)" for k ex
    using wl_okD [OF ok w(1)] w(1,2)
    by (intro keeps_commits_put [OF ok]) (auto simp: want_path_simps same_commit_def)
  ultimately show ?thesis
    using fetch_failed_keeps [OF ok] w by (cases outcome) (simp_all add: fetched_def Let_def)
next
  case False
  then have "snd (fetched now p v outcome wl) = wl"
    by (auto simp: fetched_def split: option.split want_state.split)
  then show ?thesis by (simp add: keeps_commits_refl [OF ok])
qed

lemma wl_observed_keeps: "wl_ok wl \<Longrightarrow> keeps_commits wl (wl_observed p wl)"
  by (auto simp: wl_observed_def is_some_and_iff keeps_commits_refl intro: keeps_commits_set_state)

lemma pause_inbound_keeps: "wl_ok wl \<Longrightarrow> keeps_commits wl (pause_inbound wl)"
  unfolding pause_inbound_def
  by (rule keeps_commits_set_states) (auto split: want_state.splits)

lemma resume_inbound_keeps: "wl_ok wl \<Longrightarrow> keeps_commits wl (resume_inbound wl)"
  unfolding resume_inbound_def by (rule keeps_commits_set_states) auto

lemma release_collisions_keeps: "wl_ok wl \<Longrightarrow> keeps_commits wl (release_collisions f wl)"
  unfolding release_collisions_def by (rule keeps_commits_set_states) (auto split: want_state.splits)

lemma release_waiting_keeps: "wl_ok wl \<Longrightarrow> keeps_commits wl (release_waiting wl)"
  unfolding release_waiting_def by (rule keeps_commits_set_states) (auto split: want_state.splits)

lemma peer_gone_keeps: "wl_ok wl \<Longrightarrow> keeps_commits wl (peer_gone n wl)"
  unfolding peer_gone_def by (rule keeps_commits_set_states) (auto split: want_state.splits)

lemma progress_keeps:
  assumes ok: "wl_ok wl"
  shows "keeps_commits wl (progress now p v wl)"
proof (cases "\<exists>w n d. wl_get wl p = Some w \<and> w_state w = Fetching n d \<and> w_version w = v")
  case True
  then obtain w n d where w: "wl_get wl p = Some w" "w_state w = Fetching n d" "w_version w = v" by blast
  have "keeps_commits wl (wl_put p (w\<lparr>w_state := Fetching n d'\<rparr>) wl)" for d'
    by (rule keeps_commits_restate [OF ok w(1)]) (simp_all add: w)
  then show ?thesis using w by (simp add: progress_def)
next
  case False
  then have "progress now p v wl = wl"
    by (auto simp: progress_def split: option.split want_state.split)
  then show ?thesis by (simp add: keeps_commits_refl [OF ok])
qed

lemma expire_exclusions_keeps: "wl_ok wl \<Longrightarrow> keeps_commits wl (expire_exclusions now wl)"
  unfolding expire_exclusions_def
  by (rule keeps_commits_fold) (auto intro: wl_release_keeps split: prod.split)

lemma foldl_note_simps [simp]:
  "wl_get (foldl (\<lambda>wl p. wl_note p wl) wl ps) q = wl_get wl q"
  "wl_released (foldl (\<lambda>wl p. wl_note p wl) wl ps) = wl_released wl"
  by (induction ps arbitrary: wl) simp_all

lemma expire_refusals_get:
  "wl_get (expire_refusals now wl) p =
     map_option (\<lambda>w. w\<lparr>w_refused := bm_filter (\<lambda>_ until. now < until) (w_refused w)\<rparr>) (wl_get wl p)"
  "wl_released (expire_refusals now wl) = wl_released wl"
  by (simp_all add: expire_refusals_def Let_def) (simp add: wl_get_def)

lemma want_ok_refused: "want_ok p (w\<lparr>w_refused := r\<rparr>) = want_ok p w"
  by (simp add: want_path_simps)

lemma expire_refusals_keeps: "wl_ok wl \<Longrightarrow> keeps_commits wl (expire_refusals now wl)"
  by (auto simp: keeps_commits_def wl_ok_def commit_at_def expire_refusals_get w_version_def
      want_ok_refused split: option.split)

lemma overdue_keeps:
  assumes "wl_ok wl"
  shows "keeps_commits wl (foldl (\<lambda>wl p. case wl_get wl p of
     Some want \<Rightarrow> (case w_state want of Committing d _ \<Rightarrow> set_state p (Committing d True) wl | _ \<Rightarrow> wl)
   | None \<Rightarrow> wl) wl ps)"
  using assms
  by (intro keeps_commits_fold)
    (auto split: option.split want_state.split intro: keeps_commits_refl keeps_commits_set_state)

lemma expire_keeps:
  assumes ok: "wl_ok wl"
  shows "keeps_commits wl (snd (expire now wl))"
proof -
  define w1 where "w1 = expire_refusals now (expire_exclusions now wl)"
  define w2 where "w2 = set_states Wanted
    (paths_where (\<lambda>w. case w_state w of Fetching _ d \<Rightarrow> d \<le> now | _ \<Rightarrow> False) w1) w1"
  define w3 where "w3 = set_states Wanted
    (paths_where (\<lambda>w. case w_state w of LocalRetry until \<Rightarrow> until \<le> now | _ \<Rightarrow> False) w2) w2"
  have k1: "keeps_commits wl w1"
    using expire_exclusions_keeps [OF ok] expire_refusals_keeps unfolding w1_def
    by (auto simp: keeps_commits_def)
  then have k2: "keeps_commits w1 w2"
    unfolding w2_def by (intro keeps_commits_set_states) (auto simp: keeps_commits_def split: want_state.splits)
  then have k3: "keeps_commits w2 w3"
    unfolding w3_def by (intro keeps_commits_set_states) (auto simp: keeps_commits_def split: want_state.splits)
  then have "wl_ok w3" by (simp add: keeps_commits_def)
  from overdue_keeps [OF this] k1 k2 k3 show ?thesis
    unfolding expire_def Let_def snd_conv
    by (fold w1_def, fold w2_def, fold w3_def) (blast intro: keeps_commits_trans)
qed

lemma wl_drain_keeps: "wl_ok wl \<Longrightarrow> keeps_commits wl (snd (wl_drain_changes wl))"
  unfolding keeps_commits_def by (auto simp: wl_ok_def intro!: commit_at_cong)

lemmas commit_keeps = wl_insert_keeps note_announced_keeps keep_refusals_keeps reconnected_keeps
  remember_trashed_keeps clear_restoring_keeps wl_take_keeps fetched_keeps fetch_failed_keeps
  wl_observed_keeps pause_inbound_keeps resume_inbound_keeps release_collisions_keeps progress_keeps
  expire_keeps peer_gone_keeps wl_drain_keeps

lemma keeps_commits_holds:
  "keeps_commits wl wl' \<Longrightarrow> wl_ok wl' \<and> (\<forall>p v. commit_at wl p = Some v \<longrightarrow> commit_at wl' p = Some v)"
  by (simp add: keeps_commits_def)

section \<open>The operations that end commits\<close>

lemma wl_remove_ok: "wl_ok wl \<Longrightarrow> wl_ok (snd (wl_remove p wl))"
  by (simp add: wl_ok_def)

lemma released_reported_ok: "wl_ok wl \<Longrightarrow> wl_ok (snd (released_reported p v wl))"
  by (auto simp: wl_ok_def)

lemma wl_put_ok:
  "wl_ok wl \<Longrightarrow> want_ok p w \<Longrightarrow> \<not> is_committing (w_state w) \<Longrightarrow> wl_ok (wl_put p w wl)"
  by (simp add: wl_ok_def)

lemma wl_failed_ok:
  assumes ok: "wl_ok wl"
  shows "wl_ok (snd (wl_failed now p v err seq wl))"
proof (cases "wl_get wl p")
  case (Some w)
  have put: "wl_ok (wl_put p w' wl)" if "\<not> is_committing (w_state w')" "w_state w' \<noteq> GaveUp"
    "w_entry w' = w_entry w" "w_received w' = w_received w" "w_mismatches w' = w_mismatches w"
    "w_excluded w' = w_excluded w" for w'
    using wl_okD [OF ok Some] that by (intro wl_put_ok [OF ok]) (simp_all add: want_path_simps)
  show ?thesis
    by (cases err) (simp_all add: wl_failed_def Some Let_def put ok split: option.split)
qed (simp add: wl_failed_def ok)

lemma insert_reverted_ok:
  assumes "wl_ok wl" and "e_path (w_received w) = w_path w" "w_mismatches w = 0" "w_excluded w = bm_empty"
    "w_state w = Wanted"
  shows "wl_ok (insert_reverted w wl)"
  using assms by (auto simp: insert_reverted_def want_ok_def w_path_def intro!: wl_put_ok)

lemma wl_get_removed [simp]:
  "wl_get (wl\<lparr>wl_wants := bm_remove p (wl_wants wl)\<rparr>) q = (if q = p then None else wl_get wl q)"
  by (simp add: wl_get_def)

lemma restart_get:
  assumes "wl_ok wl"
  shows "wl_get (restarted wl) p = map_option (\<lambda>w. w\<lparr>w_fetched := False, w_state :=
      (if is_fetching (w_state w) \<or> is_committing (w_state w) \<or> w_state w = Blocked then Wanted
       else w_state w)\<rparr>) (wl_get wl p)" (is "_ = map_option ?r _")
    and "wl_released (restarted wl) = bm_empty"
proof -
  define step where "step = (\<lambda>wl p. case wl_get wl p of
      Some w \<Rightarrow> wl_restore w (wl\<lparr>wl_wants := bm_remove p (wl_wants wl)\<rparr>) | None \<Rightarrow> wl)"
  have one: "wl_get (step wl p) q = (if q = p then map_option ?r (wl_get wl p) else wl_get wl q) \<and>
      wl_released (step wl p) = wl_released wl"
    if "\<forall>w. wl_get wl p = Some w \<longrightarrow> w_path w = p" for wl p q
  proof (cases "wl_get wl p")
    case (Some w)
    with that have "e_path (w_entry w) = p" by (simp add: w_path_def)
    with Some show ?thesis by (auto simp: step_def wl_restore_def Let_def w_path_def)
  qed (simp add: step_def)
  have fold: "wl_get (foldl step wl ps) q = (if q \<in> set ps then map_option ?r (wl_get wl q) else wl_get wl q) \<and>
      wl_released (foldl step wl ps) = wl_released wl"
    if "distinct ps" "\<forall>p w. wl_get wl p = Some w \<longrightarrow> w_path w = p" for ps wl q
    using that
  proof (induction ps arbitrary: wl)
    case (Cons p ps)
    have keyed: "\<forall>w. wl_get wl p = Some w \<longrightarrow> w_path w = p" using Cons.prems(2) by simp
    have get: "wl_get (step wl p) r = (if r = p then map_option ?r (wl_get wl p) else wl_get wl r)" for r
      using one [OF keyed] by blast
    have "\<forall>r w. wl_get (step wl p) r = Some w \<longrightarrow> w_path w = r"
    proof (intro allI impI)
      fix r w assume w: "wl_get (step wl p) r = Some w"
      show "w_path w = r"
      proof (cases "r = p")
        case True
        with w obtain w0 where "wl_get wl p = Some w0" "w_entry w = w_entry w0" by (auto simp: get)
        with keyed True show ?thesis by (simp add: w_path_def)
      next
        case False
        with w Cons.prems(2) show ?thesis by (simp add: get)
      qed
    qed
    then have "wl_get (foldl step (step wl p) ps) q =
        (if q \<in> set ps then map_option ?r (wl_get (step wl p) q) else wl_get (step wl p) q) \<and>
        wl_released (foldl step (step wl p) ps) = wl_released (step wl p)"
      using Cons.prems(1) by (intro Cons.IH) simp_all
    then show ?case using Cons.prems(1) one [OF keyed] by (simp add: get)
  qed simp
  have keyed: "\<forall>p w. wl_get wl p = Some w \<longrightarrow> w_path w = p"
    using assms by (simp add: wl_ok_def want_ok_def)
  have "restarted wl = foldl step (wl\<lparr>wl_released := bm_empty\<rparr>) (bm_keys (wl_wants wl))"
    by (simp add: restarted_def step_def)
  moreover have "wl_get (wl\<lparr>wl_released := bm_empty\<rparr>) q = wl_get wl q" for q by (simp add: wl_get_def)
  ultimately show "wl_get (restarted wl) p = map_option ?r (wl_get wl p)"
    and "wl_released (restarted wl) = bm_empty"
    using fold [of "bm_keys (wl_wants wl)" "wl\<lparr>wl_released := bm_empty\<rparr>"] keyed
    by (auto simp: in_bm_keys wl_get_def split: option.split)
qed

lemma restarted_ok:
  assumes "wl_ok wl"
  shows "wl_ok (restarted wl)"
  unfolding wl_ok_def restart_get [OF assms]
proof (intro allI impI)
  fix p w'
  assume "map_option (\<lambda>w. w\<lparr>w_fetched := False, w_state :=
      (if is_fetching (w_state w) \<or> is_committing (w_state w) \<or> w_state w = Blocked then Wanted
       else w_state w)\<rparr>) (wl_get wl p) = Some w'"
  then obtain w where w: "wl_get wl p = Some w" "w' = w\<lparr>w_fetched := False, w_state :=
      (if is_fetching (w_state w) \<or> is_committing (w_state w) \<or> w_state w = Blocked then Wanted
       else w_state w)\<rparr>" by blast
  from wl_okD [OF assms w(1)] show "want_ok p w' \<and> (is_committing (w_state w') \<longrightarrow>
      bm_get bm_empty p = (None :: version option))"
    by (auto simp: want_path_simps w(2))
qed

end
