(* ===== verification/Dispatching.thy ===== *)
theory Dispatching
  imports WantLaws "HOL-Library.Sublist"
begin

text \<open>
  \<open>WantList::dispatch\<close>: which fetches and commits it starts, the limits it keeps, and the ordering gate.
\<close>

section \<open>Counting fetches\<close>

definition fetches_from :: "want_list \<Rightarrow> node_id \<Rightarrow> rel_path set" where
  "fetches_from wl n = {p. \<exists>w. wl_get wl p = Some w \<and> (\<exists>d. w_state w = Fetching n d)}"

definition fetching_paths :: "want_list \<Rightarrow> rel_path set" where
  "fetching_paths wl = {p. \<exists>w. wl_get wl p = Some w \<and> is_fetching (w_state w)}"

lemma finite_fetches [simp]: "finite (fetches_from wl n)" "finite (fetching_paths wl)"
  by (simp_all add: fetches_from_def fetching_paths_def wl_get_def finite_bm_dom)

text \<open>Slots that count the fetches of a list.\<close>

definition slots_count :: "slots \<Rightarrow> want_list \<Rightarrow> bool" where
  "slots_count slots wl \<longleftrightarrow> snd slots = card (fetching_paths wl) \<and>
     (\<forall>n. slot_of (fst slots) n = card (fetches_from wl n))"

lemma slot_of_insert [simp]: "slot_of (bm_insert n k pp) m = (if m = n then k else slot_of pp m)"
  by (simp add: slot_of_def)

lemma count_slots_fold:
  "let st = foldl (\<lambda>(per_peer, total) w. case w_state w of
         Fetching from' _ \<Rightarrow> (bm_insert from' (slot_of per_peer from' + 1) per_peer, total + 1)
       | _ \<Rightarrow> (per_peer, total)) (pp, t) ws
   in snd st = t + length (filter (\<lambda>w. is_fetching (w_state w)) ws) \<and>
      (\<forall>n. slot_of (fst st) n = slot_of pp n + length (filter (\<lambda>w. \<exists>d. w_state w = Fetching n d) ws))"
proof (induction ws arbitrary: pp t)
  case (Cons w ws)
  then show ?case by (cases "w_state w") (simp_all add: Let_def is_fetching_def)
qed simp

lemma count_slots_count: "slots_count (count_slots wl) wl"
  using count_slots_fold [of bm_empty 0 "bm_values (wl_wants wl)"]
  by (simp add: slots_count_def count_slots_def Let_def length_filter_values fetches_from_def
      fetching_paths_def wl_get_def) (simp add: slot_of_def)

lemma wl_fetching_card: "wl_fetching wl = card (fetching_paths wl)"
  by (simp add: wl_fetching_def length_filter_values fetching_paths_def wl_get_def)

section \<open>Selecting\<close>

text \<open>A want that looks for a source: its content is still to be fetched and nothing else holds it.\<close>

definition seeking :: "want \<Rightarrow> bool" where
  "seeking w \<longleftrightarrow> needs_fetch w \<and>
     (case w_state w of Wanted \<Rightarrow> True | Deferred _ \<Rightarrow> True | NoSource \<Rightarrow> True | _ \<Rightarrow> False)"

lemma seeking_state:
  "seeking w \<Longrightarrow> \<not> is_committing (w_state w)" "seeking w \<Longrightarrow> \<not> is_fetching (w_state w)"
  "seeking w \<Longrightarrow> w_state w \<noteq> GaveUp"
  by (auto simp: seeking_def is_committing_def is_fetching_def split: want_state.splits)

definition fetchable_of :: "rules \<Rightarrow> (node_id, tier) bmap \<Rightarrow> rel_path \<times> want \<Rightarrow> fetchable option" where
  "fetchable_of rs peers e = (let (p, w) = e in
     if seeking w then (case wl_select w rs peers of
         Sources allowed \<Rightarrow> Some (fst (hd allowed), snd (hd allowed), p, allowed) | _ \<Rightarrow> None)
     else None)"

definition reselected_of :: "rules \<Rightarrow> (node_id, tier) bmap \<Rightarrow> rel_path \<times> want \<Rightarrow> (rel_path \<times> want_state) option" where
  "reselected_of rs peers e = (let (p, w) = e in
     if seeking w then (case wl_select w rs peers of
         Sources allowed \<Rightarrow> None | SelNoSource \<Rightarrow> Some (p, NoSource) | SelDeferred t \<Rightarrow> Some (p, Deferred t))
     else None)"

lemma fetchable_of_Some:
  "fetchable_of rs peers (p, w) = Some f \<longleftrightarrow> seeking w \<and> (\<exists>allowed. wl_select w rs peers = Sources allowed \<and>
     f = (fst (hd allowed), snd (hd allowed), p, allowed))"
  by (cases "wl_select w rs peers") (auto simp: fetchable_of_def)

lemma reselected_of_Some:
  "reselected_of rs peers (p, w) = Some y \<longleftrightarrow> seeking w \<and>
     (wl_select w rs peers = SelNoSource \<and> y = (p, NoSource) \<or>
      (\<exists>t. wl_select w rs peers = SelDeferred t \<and> y = (p, Deferred t)))"
  by (cases "wl_select w rs peers") (auto simp: reselected_of_def)

lemma reselected_of_None:
  "reselected_of rs peers (p, w) = None \<longleftrightarrow> \<not> seeking w \<or> (\<exists>a. wl_select w rs peers = Sources a)"
  by (cases "wl_select w rs peers") (auto simp: reselected_of_def)

lemma select_fetches_eq:
  "select_fetches rs peers wl =
     (List.map_filter (fetchable_of rs peers) (bm_entries (wl_wants wl)),
      List.map_filter (reselected_of rs peers) (bm_entries (wl_wants wl)))"
proof -
  have "foldl (\<lambda>(fetchable, reselected) (p, want).
         if \<not> needs_fetch want then (fetchable, reselected)
         else if \<not> (case w_state want of Wanted \<Rightarrow> True | Deferred _ \<Rightarrow> True | NoSource \<Rightarrow> True | _ \<Rightarrow> False)
         then (fetchable, reselected)
         else case wl_select want rs peers of
             Sources allowed \<Rightarrow>
               (fetchable @ [(fst (hd allowed), snd (hd allowed), p, allowed)], reselected)
           | SelNoSource \<Rightarrow> (fetchable, reselected @ [(p, NoSource)])
           | SelDeferred need \<Rightarrow> (fetchable, reselected @ [(p, Deferred need)])) (fs, rsel) es =
     (fs @ List.map_filter (fetchable_of rs peers) es, rsel @ List.map_filter (reselected_of rs peers) es)"
    for fs rsel es
  proof (induction es arbitrary: fs rsel)
    case (Cons e es)
    obtain p w where e: "e = (p, w)" by fastforce
    show ?case
    proof (cases "seeking w")
      case True
      then show ?thesis
        using Cons by (cases "wl_select w rs peers")
          (simp_all add: e seeking_def fetchable_of_def reselected_of_def List.map_filter_simps)
    next
      case False
      then have "\<not> needs_fetch w \<or>
          \<not> (case w_state w of Wanted \<Rightarrow> True | Deferred _ \<Rightarrow> True | NoSource \<Rightarrow> True | _ \<Rightarrow> False)"
        by (simp add: seeking_def)
      with Cons False show ?thesis
        by (auto simp: e fetchable_of_def reselected_of_def List.map_filter_simps)
    qed
  qed (simp add: List.map_filter_simps)
  from this [of "[]" "[]"] show ?thesis unfolding select_fetches_def by simp
qed

text \<open>What a source that was selected is: known to have the content, connected, neither excluded nor
  refusing, and on a tier the file fits.\<close>

definition may_fetch :: "rules \<Rightarrow> (node_id, tier) bmap \<Rightarrow> want \<Rightarrow> node_id \<Rightarrow> bool" where
  "may_fetch rs peers w n \<longleftrightarrow> bm_has (w_sources w) n \<and> \<not> bm_has (w_excluded w) n \<and>
     \<not> bm_has (w_refused w) n \<and> (\<exists>t. bm_get peers n = Some t \<and> tier_allows t rs (e_size (w_entry w)))"

lemma wl_select_Sources:
  "wl_select w rs peers = Sources allowed \<Longrightarrow> snd ` set allowed = {n. may_fetch rs peers w n} \<and> allowed \<noteq> []"
  by (force simp: wl_select_def Let_def may_fetch_def in_bm_keys List.map_filter_def image_iff
      split: if_splits)

lemma wl_select_none:
  "\<nexists>allowed. wl_select w rs peers = Sources allowed \<Longrightarrow> \<not> may_fetch rs peers w n"
  by (force simp: wl_select_def Let_def may_fetch_def in_bm_keys List.map_filter_def filter_empty_conv
      split: if_splits)

section \<open>Assigning slots\<close>

definition fpath :: "fetchable \<Rightarrow> rel_path" where
  "fpath f = fst (snd (snd f))"

definition fallowed :: "fetchable \<Rightarrow> node_id set" where
  "fallowed f = snd ` set (snd (snd (snd f)))"

text \<open>What assigning a slot to one want does: it is fetched from a source with a free slot, or there
  is none and it stays wanted.\<close>

definition full :: "rules \<Rightarrow> slots \<Rightarrow> node_id set \<Rightarrow> bool" where
  "full rs slots ns \<longleftrightarrow> unat (max_fetches_per_folder rs) \<le> snd slots \<or>
     (\<forall>n \<in> ns. unat (max_fetches_per_peer rs) \<le> slot_of (fst slots) n)"

lemma find_Some_set: "find P xs = Some x \<Longrightarrow> x \<in> set xs \<and> P x"
  by (auto simp: find_Some_iff)

lemma assign_fetch_cases:
  assumes get: "wl_get wl (fpath f) = Some w"
    and step: "assign_fetch now rs (steps, slots, wl) f = (steps', slots', wl')"
  obtains (none) "full rs slots (fallowed f)" "steps' = steps" "slots' = slots"
      "wl' = set_state (fpath f) Wanted wl"
    | (fetch) n where "n \<in> fallowed f" "snd slots < unat (max_fetches_per_folder rs)"
      "slot_of (fst slots) n < unat (max_fetches_per_peer rs)"
      "steps' = steps @ [WFetch (fpath f) (w_version w) n]"
      "slots' = (bm_insert n (slot_of (fst slots) n + 1) (fst slots), snd slots + 1)"
      "wl' = set_state (fpath f) (Fetching n (plus_nanos now FETCH_STALL_NANOS)) wl"
proof (cases "unat (max_fetches_per_folder rs) \<le> snd slots")
  case True
  with step show thesis
    by (intro none) (auto simp: assign_fetch_def full_def fpath_def split_beta)
next
  case False
  define found where "found = find (\<lambda>n. slot_of (fst slots) n < unat (max_fetches_per_peer rs))
    (map snd (snd (snd (snd f))))"
  show thesis
  proof (cases found)
    case None
    then have "full rs slots (fallowed f)"
      by (auto simp: found_def find_None_iff full_def fallowed_def not_less)
    moreover have "steps' = steps \<and> slots' = slots \<and> wl' = set_state (fpath f) Wanted wl"
      using step False None by (auto simp: assign_fetch_def found_def fpath_def split_beta)
    ultimately show thesis by (intro none) simp_all
  next
    case (Some n)
    then have n: "n \<in> fallowed f" "slot_of (fst slots) n < unat (max_fetches_per_peer rs)"
      using find_Some_set [OF Some [unfolded found_def]] by (auto simp: fallowed_def)
    moreover have "steps' = steps @ [WFetch (fpath f) (w_version w) n] \<and>
      slots' = (bm_insert n (slot_of (fst slots) n + 1) (fst slots), snd slots + 1) \<and>
      wl' = set_state (fpath f) (Fetching n (plus_nanos now FETCH_STALL_NANOS)) wl"
      using step False Some get by (auto simp: assign_fetch_def found_def fpath_def split_beta)
    ultimately show thesis using False by (intro fetch) simp_all
  qed
qed

lemma in_fetches:
  "p \<in> fetches_from wl n \<longleftrightarrow> (\<exists>w d. wl_get wl p = Some w \<and> w_state w = Fetching n d)"
  "p \<in> fetching_paths wl \<longleftrightarrow> (\<exists>w. wl_get wl p = Some w \<and> is_fetching (w_state w))"
  by (auto simp: fetches_from_def fetching_paths_def)

lemma not_fetching:
  assumes "wl_get wl p = Some w" and "\<not> is_fetching (w_state w)"
  shows "p \<notin> fetches_from wl m" "p \<notin> fetching_paths wl"
  using assms by (auto simp: in_fetches is_fetching_def)

lemma fetches_fetch:
  assumes "wl_get wl p = Some w" and "\<not> is_fetching (w_state w)"
  shows "fetches_from (set_state p (Fetching n d) wl) m =
      (if m = n then insert p (fetches_from wl m) else fetches_from wl m)"
    "fetching_paths (set_state p (Fetching n d) wl) = insert p (fetching_paths wl)"
  using assms not_fetching [OF assms]
  by (auto simp: in_fetches is_fetching_def split: if_splits intro!: set_eqI)

lemma fetches_idle:
  assumes "wl_get wl p = Some w" and "\<not> is_fetching (w_state w)" and "\<not> is_fetching s"
  shows "fetches_from (set_state p s wl) m = fetches_from wl m"
    "fetching_paths (set_state p s wl) = fetching_paths wl"
  using not_fetching [OF assms(1,2)] assms
  by (auto simp: in_fetches split: if_splits) (auto simp: is_fetching_def)

lemma slots_count_fetch:
  assumes "slots_count slots wl" and "wl_get wl p = Some w" and "\<not> is_fetching (w_state w)"
  shows "slots_count (bm_insert n (Suc (slot_of (fst slots) n)) (fst slots), Suc (snd slots))
      (set_state p (Fetching n d) wl)"
  using assms(1) not_fetching [OF assms(2,3)]
  by (simp add: slots_count_def fetches_fetch [OF assms(2,3)])

lemma slots_count_idle:
  assumes "slots_count slots wl" and "wl_get wl p = Some w" and "\<not> is_fetching (w_state w)"
    and "\<not> is_fetching s"
  shows "slots_count slots (set_state p s wl)"
  using assms(1) by (simp add: slots_count_def fetches_idle [OF assms(2-)])

text \<open>The fold over all of them: slots stay exact and within their limits, and each want is either
  fetched from one of its sources, or everything it could use is full.\<close>

definition fetched_from :: "timestamp \<Rightarrow> want \<Rightarrow> node_id \<Rightarrow> want" where
  "fetched_from now w n = w\<lparr>w_state := Fetching n (plus_nanos now FETCH_STALL_NANOS)\<rparr>"

definition within :: "rules \<Rightarrow> slots \<Rightarrow> slots \<Rightarrow> bool" where
  "within rs old new \<longleftrightarrow>
     snd old \<le> snd new \<and> snd new \<le> max (snd old) (unat (max_fetches_per_folder rs)) \<and>
     (\<forall>n. slot_of (fst old) n \<le> slot_of (fst new) n \<and>
        slot_of (fst new) n \<le> max (slot_of (fst old) n) (unat (max_fetches_per_peer rs)))"

lemma within_refl: "within rs s s"
  by (simp add: within_def)

lemma within_trans: "within rs a b \<Longrightarrow> within rs b c \<Longrightarrow> within rs a c"
  unfolding within_def by (meson max.bounded_iff max.cobounded1 max.cobounded2 max_def order_trans)

lemma full_within: "full rs a ns \<Longrightarrow> within rs a b \<Longrightarrow> full rs b ns"
  unfolding full_def within_def by (meson order_trans)

definition assigned ::
    "timestamp \<Rightarrow> rules \<Rightarrow> slots \<Rightarrow> want_list \<Rightarrow> want_step list \<Rightarrow> want_list \<Rightarrow> fetchable \<Rightarrow> bool" where
  "assigned now rs slots wl steps wl' f \<longleftrightarrow> (\<exists>w. wl_get wl (fpath f) = Some w \<and>
     ((\<exists>n \<in> fallowed f. wl_get wl' (fpath f) = Some (fetched_from now w n) \<and>
         WFetch (fpath f) (w_version w) n \<in> set steps) \<or>
      wl_get wl' (fpath f) = Some (w\<lparr>w_state := Wanted\<rparr>) \<and> full rs slots (fallowed f)))"

lemma assign_fold:
  assumes "foldl (assign_fetch now rs) (steps, slots, wl) fs = (steps', slots', wl')"
    and "distinct (map fpath fs)"
    and "\<forall>f \<in> set fs. \<exists>w. wl_get wl (fpath f) = Some w \<and> \<not> is_fetching (w_state w)"
    and "slots_count slots wl"
  shows "slots_count slots' wl' \<and> within rs slots slots' \<and>
    (\<forall>f \<in> set fs. assigned now rs slots' wl steps' wl' f) \<and>
    (\<forall>p. p \<notin> fpath ` set fs \<longrightarrow> wl_get wl' p = wl_get wl p) \<and> wl_released wl' = wl_released wl \<and>
    set steps \<subseteq> set steps' \<and>
    (\<forall>st \<in> set steps' - set steps. \<exists>f \<in> set fs. \<exists>w n. wl_get wl (fpath f) = Some w \<and>
       n \<in> fallowed f \<and> st = WFetch (fpath f) (w_version w) n)"
  using assms
proof (induction fs arbitrary: steps slots wl)
  case Nil
  then show ?case by (simp add: within_refl)
next
  case (Cons f fs)
  obtain steps1 slots1 wl1 where one: "assign_fetch now rs (steps, slots, wl) f = (steps1, slots1, wl1)"
    by (cases "assign_fetch now rs (steps, slots, wl) f")
  obtain w where w: "wl_get wl (fpath f) = Some w" "\<not> is_fetching (w_state w)"
    using Cons.prems(3) by auto
  have other: "wl_get wl1 p = wl_get wl p" if "p \<noteq> fpath f" for p
    using one by (rule assign_fetch_cases [OF w(1)]) (simp_all add: that)
  have rel: "wl_released wl1 = wl_released wl"
    using one by (rule assign_fetch_cases [OF w(1)]) simp_all
  have count: "slots_count slots1 wl1"
    using one by (rule assign_fetch_cases [OF w(1)])
      (simp_all add: slots_count_idle [OF Cons.prems(4) w] slots_count_fetch [OF Cons.prems(4) w]
        is_fetching_def)
  have lim: "within rs slots slots1"
    using one by (rule assign_fetch_cases [OF w(1)]) (auto simp: within_def)
  have new: "set steps \<subseteq> set steps1" "st \<in> set steps1 - set steps \<Longrightarrow>
      \<exists>n. n \<in> fallowed f \<and> st = WFetch (fpath f) (w_version w) n" for st
    using one by (rule assign_fetch_cases [OF w(1)]; auto)+
  have fresh: "fpath f \<notin> fpath ` set fs" using Cons.prems(2) by auto
  have rest: "foldl (assign_fetch now rs) (steps1, slots1, wl1) fs = (steps', slots', wl')"
    using Cons.prems(1) one by simp
  have "\<forall>g \<in> set fs. \<exists>w. wl_get wl1 (fpath g) = Some w \<and> \<not> is_fetching (w_state w)"
    using Cons.prems(3) fresh other by (metis image_eqI list.set_intros(2))
  with Cons.prems(2) rest count have IH: "slots_count slots' wl' \<and> within rs slots1 slots' \<and>
    (\<forall>f \<in> set fs. assigned now rs slots' wl1 steps' wl' f) \<and>
    (\<forall>p. p \<notin> fpath ` set fs \<longrightarrow> wl_get wl' p = wl_get wl1 p) \<and> wl_released wl' = wl_released wl1 \<and>
    set steps1 \<subseteq> set steps' \<and>
    (\<forall>st \<in> set steps' - set steps1. \<exists>f \<in> set fs. \<exists>w n. wl_get wl1 (fpath f) = Some w \<and>
       n \<in> fallowed f \<and> st = WFetch (fpath f) (w_version w) n)"
    by (intro Cons.IH) simp_all
  have "within rs slots slots'" using lim IH by (blast intro: within_trans)
  moreover have "assigned now rs slots' wl steps' wl' f"
    using one
  proof (rule assign_fetch_cases [OF w(1)])
    assume "full rs slots (fallowed f)" "wl1 = set_state (fpath f) Wanted wl"
    with w IH fresh full_within [OF _ \<open>within rs slots slots'\<close>] show ?thesis by (simp add: assigned_def)
  next
    fix n
    assume "n \<in> fallowed f" "steps1 = steps @ [WFetch (fpath f) (w_version w) n]"
      "wl1 = set_state (fpath f) (Fetching n (plus_nanos now FETCH_STALL_NANOS)) wl"
    with w IH fresh show ?thesis by (auto simp: assigned_def fetched_from_def)
  qed
  moreover have "assigned now rs slots' wl steps' wl' g" if g: "g \<in> set fs" for g
  proof -
    have "wl_get wl1 (fpath g) = wl_get wl (fpath g)" using other fresh g by (metis image_eqI)
    moreover have "assigned now rs slots' wl1 steps' wl' g" using IH g by blast
    ultimately show ?thesis by (simp add: assigned_def)
  qed
  moreover have "\<exists>f' \<in> set (f # fs). \<exists>w n. wl_get wl (fpath f') = Some w \<and> n \<in> fallowed f' \<and>
      st = WFetch (fpath f') (w_version w) n" if st: "st \<in> set steps' - set steps" for st
  proof (cases "st \<in> set steps1")
    case True
    with new(2) st w show ?thesis by (metis DiffD2 DiffI list.set_intros(1))
  next
    case False
    with IH st obtain g w' n where g: "g \<in> set fs" "wl_get wl1 (fpath g) = Some w'"
      "n \<in> fallowed g" "st = WFetch (fpath g) (w_version w') n" by blast
    with other fresh show ?thesis by (metis image_eqI list.set_intros(2))
  qed
  ultimately show ?case using IH rel new(1) other by auto
qed

section \<open>The fetches of one dispatch\<close>

lemma restate_fold:
  "distinct (map fst xs) \<Longrightarrow> wl_get (foldl (\<lambda>wl (p, s). set_state p s wl) wl xs) q =
     (case map_of xs q of Some s \<Rightarrow> map_option (w_state_update (\<lambda>_. s)) (wl_get wl q) | None \<Rightarrow> wl_get wl q)"
  "wl_released (foldl (\<lambda>wl (p, s). set_state p s wl) wl xs) = wl_released wl"
proof (induction xs arbitrary: wl)
  case (Cons x xs)
  obtain p s where x: "x = (p, s)" by fastforce
  { case 1
    then have "map_of xs p = None" by (auto simp: x map_of_eq_None_iff)
    with 1 show ?case by (auto simp: x Cons split: option.split) }
  { case 2 then show ?case by (simp add: x Cons) }
qed simp_all

lemma in_map_filter_entries:
  "y \<in> set (List.map_filter f (bm_entries m)) \<longleftrightarrow> (\<exists>k v. bm_get m k = Some v \<and> f (k, v) = Some y)"
  by (force simp: List.map_filter_def in_bm_entries)

lemma distinct_keyed_map_filter:
  assumes "distinct (map fst es)" and "\<And>k v y. f (k, v) = Some y \<Longrightarrow> g y = k"
  shows "distinct (map g (List.map_filter f es))"
  using assms(1)
proof (induction es)
  case (Cons e es)
  obtain k v where e: "e = (k, v)" by fastforce
  have "g y \<noteq> k" if y: "y \<in> set (List.map_filter f es)" for y
  proof -
    from y obtain k' v' where "(k', v') \<in> set es" "f (k', v') = Some y"
      by (auto simp: List.map_filter_def)
    with assms(2) Cons.prems show ?thesis by (force simp: e)
  qed
  with Cons assms(2) [of k v] show ?case
    by (auto simp: e List.map_filter_simps split: option.split)
qed (simp add: List.map_filter_simps)

definition reselect :: "rules \<Rightarrow> (node_id, tier) bmap \<Rightarrow> want \<Rightarrow> want" where
  "reselect rs peers w = (case wl_select w rs peers of
     Sources _ \<Rightarrow> w | SelNoSource \<Rightarrow> w\<lparr>w_state := NoSource\<rparr> | SelDeferred t \<Rightarrow> w\<lparr>w_state := Deferred t\<rparr>)"

lemma is_fetching_iff: "is_fetching s \<longleftrightarrow> (\<exists>n d. s = Fetching n d)"
  by (cases s) (simp_all add: is_fetching_def)

lemma reselect_idle: "seeking w \<Longrightarrow> \<not> is_fetching (w_state (reselect rs peers w))"
  using seeking_state(2) [of w] by (auto simp: reselect_def is_fetching_def split: selection.split)

lemma reselected_get:
  "wl_get (foldl (\<lambda>wl (p, s). set_state p s wl) wl
     (List.map_filter (reselected_of rs peers) (bm_entries (wl_wants wl)))) p =
   map_option (\<lambda>w. if seeking w then reselect rs peers w else w) (wl_get wl p)"
proof -
  let ?xs = "List.map_filter (reselected_of rs peers) (bm_entries (wl_wants wl))"
  have d: "distinct (map fst ?xs)"
    by (rule distinct_keyed_map_filter [OF bm.entries_distinct])
      (auto simp: reselected_of_Some)
  have in_xs: "(q, s) \<in> set ?xs \<longleftrightarrow> (\<exists>w. wl_get wl q = Some w \<and> reselected_of rs peers (q, w) = Some (q, s))"
    for q s
    by (auto simp: in_map_filter_entries wl_get_def reselected_of_Some)
  show ?thesis
  proof (cases "wl_get wl p")
    case (Some w)
    show ?thesis
    proof (cases "reselected_of rs peers (p, w)")
      case None
      then have "map_of ?xs p = None"
        using in_xs Some by (force simp: map_of_eq_None_iff)
      with None Some show ?thesis
        by (auto simp: restate_fold(1) [OF d] reselected_of_None reselect_def)
    next
      case (Some y)
      then obtain s where y: "y = (p, s)" by (auto simp: reselected_of_Some)
      then have "map_of ?xs p = Some s"
        using in_xs Some \<open>wl_get wl p = Some w\<close> d by (simp add: map_of_eq_Some_iff)
      with Some y \<open>wl_get wl p = Some w\<close> show ?thesis
        by (auto simp: restate_fold(1) [OF d] reselected_of_Some reselect_def)
    qed
  qed (simp add: restate_fold(1) [OF d] split: option.split)
qed

lemma sorted_fetchables:
  "distinct (map fpath (List.map_filter (fetchable_of rs peers) (bm_entries (wl_wants wl))))"
  by (rule distinct_keyed_map_filter [OF bm.entries_distinct])
    (auto simp: fetchable_of_Some fpath_def)

lemma in_fetchables:
  "f \<in> set (List.map_filter (fetchable_of rs peers) (bm_entries (wl_wants wl))) \<longleftrightarrow>
    (\<exists>w allowed. wl_get wl (fpath f) = Some w \<and> seeking w \<and> wl_select w rs peers = Sources allowed \<and>
       f = (fst (hd allowed), snd (hd allowed), fpath f, allowed))"
  by (auto simp: in_map_filter_entries wl_get_def fetchable_of_Some fpath_def)

text \<open>What dispatching does to the fetch of one want.\<close>

definition fetch_outcome ::
    "timestamp \<Rightarrow> rules \<Rightarrow> (node_id, tier) bmap \<Rightarrow> slots \<Rightarrow> want_step list \<Rightarrow> rel_path \<Rightarrow> want \<Rightarrow> want \<Rightarrow> bool" where
  "fetch_outcome now rs peers slots steps p w w' \<longleftrightarrow>
     (if \<not> seeking w then w' = w
      else if \<exists>n. may_fetch rs peers w n
      then (\<exists>n. may_fetch rs peers w n \<and> w' = fetched_from now w n \<and> WFetch p (w_version w) n \<in> set steps) \<or>
           w' = w\<lparr>w_state := Wanted\<rparr> \<and> full rs slots {n. may_fetch rs peers w n}
      else w' = w\<lparr>w_state := NoSource\<rparr> \<or> (\<exists>t. w' = w\<lparr>w_state := Deferred t\<rparr>))"

lemma dispatch_fetches_spec:
  assumes "dispatch_fetches now rs peers wl = (steps, slots, wl')"
  shows "slots_count slots wl' \<and> within rs (count_slots wl) slots \<and> wl_released wl' = wl_released wl \<and>
    (\<forall>p. rel_option (fetch_outcome now rs peers slots steps p) (wl_get wl p) (wl_get wl' p)) \<and>
    (\<forall>st \<in> set steps. \<exists>p w n. st = WFetch p (w_version w) n \<and> wl_get wl p = Some w \<and> seeking w \<and>
       may_fetch rs peers w n)"
proof -
  define fs where "fs = List.map_filter (fetchable_of rs peers) (bm_entries (wl_wants wl))"
  define xs where "xs = List.map_filter (reselected_of rs peers) (bm_entries (wl_wants wl))"
  define wl1 where "wl1 = foldl (\<lambda>wl (p, s). set_state p s wl) wl xs"
  define gs where "gs = sort_key (\<lambda>(t, n, p, _). (t, n, p)) fs"
  have gs: "distinct (map fpath gs)" "set gs = set fs"
    using sorted_fetchables [of rs peers wl] distinct_map_sort_key
    by (auto simp: gs_def fs_def distinct_map)
  have get1: "wl_get wl1 p = map_option (\<lambda>w. if seeking w then reselect rs peers w else w) (wl_get wl p)" for p
    unfolding wl1_def xs_def by (rule reselected_get)
  have in_gs: "\<exists>w. wl_get wl (fpath f) = Some w \<and> seeking w \<and> wl_get wl1 (fpath f) = Some w \<and>
      fallowed f = {n. may_fetch rs peers w n} \<and> fallowed f \<noteq> {}" if "f \<in> set gs" for f
  proof -
    from that obtain w allowed where f: "wl_get wl (fpath f) = Some w" "seeking w"
      "wl_select w rs peers = Sources allowed" "f = (fst (hd allowed), snd (hd allowed), fpath f, allowed)"
      unfolding gs(2) fs_def in_fetchables by blast
    then have "fallowed f = snd ` set allowed" by (metis fallowed_def snd_conv)
    with f wl_select_Sources [OF f(3)] show ?thesis by (auto simp: get1 reselect_def)
  qed
  have "(\<exists>w. wl_get wl1 p = Some w \<and> w_state w = Fetching n d) \<longleftrightarrow>
      (\<exists>w. wl_get wl p = Some w \<and> w_state w = Fetching n d)" for p n d
  proof (cases "wl_get wl p")
    case (Some w)
    then show ?thesis
      using reselect_idle [of w rs peers] seeking_state(2) [of w]
      by (cases "seeking w") (auto simp: get1 is_fetching_iff)
  qed (simp add: get1)
  then have same_fetches: "fetches_from wl1 n = fetches_from wl n" "fetching_paths wl1 = fetching_paths wl" for n
    by (intro set_eqI; simp only: in_fetches is_fetching_iff; metis)+
  have fold: "foldl (assign_fetch now rs) ([], count_slots wl, wl1) gs = (steps, slots, wl')"
    using assms by (simp add: dispatch_fetches_def select_fetches_eq fs_def xs_def wl1_def gs_def Let_def)
  have count: "slots_count (count_slots wl) wl1"
    using count_slots_count [of wl] by (simp add: slots_count_def same_fetches)
  have pre: "\<forall>f \<in> set gs. \<exists>w. wl_get wl1 (fpath f) = Some w \<and> \<not> is_fetching (w_state w)"
    using in_gs seeking_state(2) by blast
  from assign_fold [OF fold gs(1) pre count] have all: "slots_count slots wl' \<and> within rs (count_slots wl) slots \<and>
    (\<forall>f \<in> set gs. assigned now rs slots wl1 steps wl' f) \<and>
    (\<forall>p. p \<notin> fpath ` set gs \<longrightarrow> wl_get wl' p = wl_get wl1 p) \<and> wl_released wl' = wl_released wl1 \<and>
    (\<forall>st \<in> set steps. \<exists>f \<in> set gs. \<exists>w n. wl_get wl1 (fpath f) = Some w \<and> n \<in> fallowed f \<and>
       st = WFetch (fpath f) (w_version w) n)"
    by simp
  have "rel_option (fetch_outcome now rs peers slots steps p) (wl_get wl p) (wl_get wl' p)" for p
  proof (cases "p \<in> fpath ` set gs")
    case True
    then obtain f where f: "f \<in> set gs" "p = fpath f" by blast
    obtain w where w: "wl_get wl p = Some w" "seeking w" "wl_get wl1 p = Some w"
      "fallowed f = {n. may_fetch rs peers w n}" "fallowed f \<noteq> {}" using in_gs f by blast
    have "assigned now rs slots wl1 steps wl' f" using all f by blast
    then show ?thesis using w by (auto simp: assigned_def fetch_outcome_def f(2))
  next
    case False
    then have same: "wl_get wl' p = wl_get wl1 p" using all by blast
    show ?thesis
    proof (cases "wl_get wl p")
      case (Some w)
      have "\<nexists>allowed. wl_select w rs peers = Sources allowed" if "seeking w"
      proof
        assume "\<exists>allowed. wl_select w rs peers = Sources allowed"
        then obtain allowed where a: "wl_select w rs peers = Sources allowed" ..
        let ?f = "(fst (hd allowed), snd (hd allowed), p, allowed)"
        have "fpath ?f = p" by (simp add: fpath_def)
        then have "?f \<in> set gs" unfolding gs(2) fs_def in_fetchables using Some that a by auto
        with False \<open>fpath ?f = p\<close> show False by (metis image_eqI)
      qed
      with wl_select_none [of w rs peers] Some show ?thesis
        by (auto simp: same get1 fetch_outcome_def reselect_def split: selection.split)
    qed (simp add: same get1)
  qed
  moreover have "\<exists>p w n. st = WFetch p (w_version w) n \<and> wl_get wl p = Some w \<and> seeking w \<and>
       may_fetch rs peers w n" if "st \<in> set steps" for st
    using all that in_gs by fastforce
  moreover have "wl_released wl1 = wl_released wl" by (simp add: wl1_def restate_fold(2))
  ultimately show ?thesis using all by auto
qed

section \<open>Commits\<close>

lemma gates_state [simp]:
  "gates w (other\<lparr>w_state := s\<rparr>) = gates w other" "gates (w\<lparr>w_state := s\<rparr>) other = gates w other"
  by (simp_all add: gates_def is_delete_def is_dir_create_def is_trash_def w_path_def)

lemma gated_iff: "gated wl w \<longleftrightarrow> (\<exists>q other. wl_get wl q = Some other \<and> gates w other)"
  unfolding gated_def list_ex_iff Bex_def in_bm_values wl_get_def by blast

text \<open>What one step of the loop does to the want of its path.\<close>

lemma commit_step_cases:
  assumes get: "wl_get wl p = Some w" and step: "commit_step now (steps, wl) p = (steps', wl')"
  obtains (wait) s where "\<not> is_committing s" "s \<noteq> GaveUp" "\<not> is_fetching s" "steps' = steps"
      "wl' = set_state p s wl"
    | (adopt) "\<not> gated wl w" "bm_get (wl_released wl) p = None" "w_mode w = IndexOnly"
      "steps' = steps @ [WAdopt w]" "wl' = snd (wl_remove p wl)"
    | (commit) "\<not> gated wl w" "bm_get (wl_released wl) p = None" "w_mode w \<noteq> IndexOnly"
      "steps' = steps @ [WCommit w]"
      "wl' = set_state p (Committing (plus_nanos now COMMIT_DEADLINE_NANOS) False) wl"
proof (cases "waits_for wl w")
  case (Some on)
  with get step show thesis
    by (intro wait [of "WaitingFor on"]) (simp_all add: commit_step_def is_fetching_def)
next
  case None
  show thesis
  proof (cases "gated wl w \<or> bm_has (wl_released wl) p")
    case True
    with get step None show thesis
      by (intro wait [of Blocked]) (auto simp: commit_step_def is_fetching_def split: if_splits)
  next
    case False
    then have free: "\<not> gated wl w" "bm_get (wl_released wl) p = None" by auto
    show thesis
    proof (cases "w_mode w = IndexOnly")
      case True
      with free get step None show thesis by (intro adopt) (simp_all add: commit_step_def)
    next
      case mode: False
      with free get step None show thesis by (intro commit) (simp_all add: commit_step_def)
    qed
  qed
qed

fun step_path :: "want_step \<Rightarrow> rel_path" where
  "step_path (WFetch p _ _) = p"
| "step_path (WCommit w) = w_path w"
| "step_path (WAdopt w) = w_path w"

text \<open>What the whole loop does to the want of one path it visits.\<close>

definition commit_outcome :: "timestamp \<Rightarrow> want_list \<Rightarrow> want_step list \<Rightarrow> rel_path \<Rightarrow> want \<Rightarrow> want option \<Rightarrow> bool" where
  "commit_outcome now wl steps p w w' \<longleftrightarrow>
     (\<exists>s. w' = Some (w\<lparr>w_state := s\<rparr>) \<and> \<not> is_committing s \<and> s \<noteq> GaveUp \<and> \<not> is_fetching s) \<or>
     bm_get (wl_released wl) p = None \<and>
       (WAdopt w \<in> set steps \<and> w_mode w = IndexOnly \<and> w' = None \<or>
        WCommit w \<in> set steps \<and> w_mode w \<noteq> IndexOnly \<and>
        w' = Some (w\<lparr>w_state := Committing (plus_nanos now COMMIT_DEADLINE_NANOS) False\<rparr>))"

text \<open>What holds of the steps the loop starts: each is of a want it visits, at a path no released
  commit holds, and nothing left in the list gates it.\<close>

definition started_ok ::
    "timestamp \<Rightarrow> want_list \<Rightarrow> want_list \<Rightarrow> rel_path list \<Rightarrow> want_step \<Rightarrow> bool" where
  "started_ok now wl wl' ps st \<longleftrightarrow> (\<exists>p \<in> set ps. \<exists>w. wl_get wl p = Some w \<and>
     bm_get (wl_released wl) p = None \<and> \<not> gated wl' w \<and>
     (st = WCommit w \<and> w_mode w \<noteq> IndexOnly \<and>
        wl_get wl' p = Some (w\<lparr>w_state := Committing (plus_nanos now COMMIT_DEADLINE_NANOS) False\<rparr>) \<or>
      st = WAdopt w \<and> w_mode w = IndexOnly \<and> wl_get wl' p = None))"

lemma gated_mono:
  assumes "gated wl' w" and "\<And>q w'. wl_get wl' q = Some w' \<Longrightarrow> \<exists>o' s. wl_get wl q = Some o' \<and> w' = o'\<lparr>w_state := s\<rparr>"
  shows "gated wl w"
  using assms by (fastforce simp: gated_iff)

lemma commit_fold:
  assumes "foldl (commit_step now) (steps, wl) ps = (steps', wl')" and "distinct ps"
    and "\<forall>p w. wl_get wl p = Some w \<longrightarrow> w_path w = p"
    and "\<forall>p \<in> set ps. wl_get wl p \<noteq> None"
  shows "\<exists>new. steps' = steps @ new \<and> subseq (map step_path new) ps \<and> wl_released wl' = wl_released wl \<and>
    (\<forall>p. p \<notin> set ps \<longrightarrow> wl_get wl' p = wl_get wl p) \<and>
    (\<forall>p \<in> set ps. \<forall>w. wl_get wl p = Some w \<longrightarrow> commit_outcome now wl new p w (wl_get wl' p)) \<and>
    (\<forall>q w'. wl_get wl' q = Some w' \<longrightarrow> (\<exists>w s. wl_get wl q = Some w \<and> w' = w\<lparr>w_state := s\<rparr>)) \<and>
    (\<forall>st \<in> set new. started_ok now wl wl' ps st)"
  using assms
proof (induction ps arbitrary: steps wl)
  case Nil
  then have "steps' = steps" "wl' = wl" by simp_all
  moreover have "\<exists>s. w = w\<lparr>w_state := s\<rparr>" for w :: want
    by (rule exI [of _ "w_state w"]) simp
  ultimately show ?case by (intro exI [of _ "[]"]) simp
next
  case (Cons p ps)
  obtain steps1 wl1 where one: "commit_step now (steps, wl) p = (steps1, wl1)"
    by (cases "commit_step now (steps, wl) p")
  obtain w where w: "wl_get wl p = Some w" using Cons.prems(4) by auto
  have wp: "w_path w = p" using Cons.prems(3) w by simp
  have fresh: "p \<notin> set ps" using Cons.prems(2) by simp
  have other: "wl_get wl1 q = wl_get wl q" if "q \<noteq> p" for q
    using one by (rule commit_step_cases [OF w]) (simp_all add: that)
  have rel: "wl_released wl1 = wl_released wl"
    using one by (rule commit_step_cases [OF w]) simp_all
  have stated: "\<exists>v s. wl_get wl q = Some v \<and> w' = v\<lparr>w_state := s\<rparr>" if "wl_get wl1 q = Some w'" for q w'
  proof (cases "q = p")
    case True
    show ?thesis using one
      by (rule commit_step_cases [OF w]) (use that True w in \<open>auto split: if_splits\<close>)
  next
    case False
    with that other show ?thesis by (intro exI [of _ w'] exI [of _ "w_state w'"]) simp
  qed
  have rest: "foldl (commit_step now) (steps1, wl1) ps = (steps', wl')"
    using Cons.prems(1) one by simp
  have keyed: "\<forall>q v. wl_get wl1 q = Some v \<longrightarrow> w_path v = q"
  proof (intro allI impI)
    fix q v assume "wl_get wl1 q = Some v"
    then obtain v' s where "wl_get wl q = Some v'" "v = v'\<lparr>w_state := s\<rparr>" using stated by blast
    with Cons.prems(3) show "w_path v = q" by (simp add: w_path_def)
  qed
  have "\<forall>q \<in> set ps. wl_get wl1 q \<noteq> None" using Cons.prems(4) other fresh by (metis list.set_intros(2))
  with rest keyed Cons.prems(2) obtain new where new: "steps' = steps1 @ new"
    "subseq (map step_path new) ps" "wl_released wl' = wl_released wl1"
    "\<forall>q. q \<notin> set ps \<longrightarrow> wl_get wl' q = wl_get wl1 q"
    "\<forall>q \<in> set ps. \<forall>v. wl_get wl1 q = Some v \<longrightarrow> commit_outcome now wl1 new q v (wl_get wl' q)"
    "\<forall>q w'. wl_get wl' q = Some w' \<longrightarrow> (\<exists>v s. wl_get wl1 q = Some v \<and> w' = v\<lparr>w_state := s\<rparr>)"
    "\<forall>st \<in> set new. started_ok now wl1 wl' ps st"
    using Cons.IH [of steps1 wl1] by auto
  have all_stated: "\<exists>v s. wl_get wl q = Some v \<and> w' = v\<lparr>w_state := s\<rparr>" if "wl_get wl' q = Some w'" for q w'
    using new(6) that stated by fastforce
  have ungated: "\<not> gated wl' w" if "\<not> gated wl w"
    using gated_mono [OF _ all_stated] that by blast
  have last: "wl_get wl' p = wl_get wl1 p" using new(4) fresh by simp
  define now1 where "now1 = drop (length steps) steps1"
  have now1: "steps1 = steps @ now1" "subseq (map step_path now1) [p]"
      "commit_outcome now wl now1 p w (wl_get wl1 p)" "\<forall>st \<in> set now1. started_ok now wl wl' [p] st"
    using one
    by (rule commit_step_cases [OF w];
      use w wp ungated last in \<open>auto simp: now1_def commit_outcome_def started_ok_def\<close>)+
  show ?case
  proof (intro exI [of _ "now1 @ new"] conjI ballI allI impI)
    show "steps' = steps @ now1 @ new" using new(1) now1(1) by simp
    show "subseq (map step_path (now1 @ new)) (p # ps)"
      using list_emb_append_mono [OF now1(2) new(2)] by simp
    show "wl_released wl' = wl_released wl" using new(3) rel by simp
    show "wl_get wl' q = wl_get wl q" if "q \<notin> set (p # ps)" for q
      using that new(4) other by simp
    show "commit_outcome now wl (now1 @ new) q v (wl_get wl' q)"
      if q: "q \<in> set (p # ps)" "wl_get wl q = Some v" for q v
    proof (cases "q = p")
      case True
      with q w now1(3) new(4) fresh show ?thesis by (auto simp: commit_outcome_def)
    next
      case False
      with q other have "commit_outcome now wl1 new q v (wl_get wl' q)" using new(5) by simp
      then show ?thesis by (auto simp: commit_outcome_def rel)
    qed
    show "\<exists>v s. wl_get wl q = Some v \<and> w' = v\<lparr>w_state := s\<rparr>" if "wl_get wl' q = Some w'" for q w'
      by (rule all_stated [OF that])
    show "started_ok now wl wl' (p # ps) st" if "st \<in> set (now1 @ new)" for st
    proof (cases "st \<in> set now1")
      case True
      with now1(4) show ?thesis by (auto simp: started_ok_def)
    next
      case False
      with that new(7) have "started_ok now wl1 wl' ps st" by simp
      with fresh other rel show ?thesis unfolding started_ok_def by (metis list.set_intros(2))
    qed
  qed
qed

section \<open>The whole dispatch\<close>

lemma in_ready_paths:
  "p \<in> set (ready_paths wl) \<longleftrightarrow> (\<exists>w. wl_get wl p = Some w \<and> \<not> needs_fetch w \<and> (case w_state w of
     Wanted \<Rightarrow> True | Blocked \<Rightarrow> True | Deferred _ \<Rightarrow> True | NoSource \<Rightarrow> True | _ \<Rightarrow> False))"
  by (simp add: ready_paths_def)

lemma distinct_paths_where [simp]: "distinct (paths_where P wl)"
  using bm.entries_distinct [of "wl_wants wl"]
  by (simp add: paths_where_def List.distinct_map_filter)

lemma release_waiting_get:
  "wl_released (release_waiting wl) = wl_released wl"
  "rel_option (\<lambda>w w'. w' = w \<or> (\<exists>on. w_state w = WaitingFor on) \<and> w' = w\<lparr>w_state := Wanted\<rparr>)
     (wl_get wl p) (wl_get (release_waiting wl) p)"
  by (cases "wl_get wl p"; auto simp: release_waiting_def split: want_state.splits)+

text \<open>The three stages of a dispatch, and what each says of the list.\<close>

lemma dispatch_stages:
  assumes "dispatch now rs peers wl = (steps, wl')" and "wl_ok wl"
  obtains fsteps slots wl1 ps new where
    "dispatch_fetches now rs peers (release_waiting wl) = (fsteps, slots, wl1)"
    "steps = fsteps @ new" "distinct ps" "set ps = set (ready_paths wl1)" "subseq (map step_path new) ps"
    "wl_released wl' = wl_released wl1"
    "\<And>p. p \<notin> set ps \<Longrightarrow> wl_get wl' p = wl_get wl1 p"
    "\<And>p w. p \<in> set ps \<Longrightarrow> wl_get wl1 p = Some w \<Longrightarrow> commit_outcome now wl1 new p w (wl_get wl' p)"
    "\<And>st. st \<in> set new \<Longrightarrow> started_ok now wl1 wl' ps st"
    "\<And>p w. wl_get wl1 p = Some w \<Longrightarrow> w_path w = p"
proof -
  obtain fsteps slots wl1 where f: "dispatch_fetches now rs peers (release_waiting wl) = (fsteps, slots, wl1)"
    by (cases "dispatch_fetches now rs peers (release_waiting wl)")
  define ready where "ready = ready_paths wl1"
  define del where "del = (\<lambda>p. is_some_and is_delete (wl_get wl1 p))"
  define ps where "ps = sort (filter (\<lambda>p. \<not> del p) ready) @ rev (sort (filter del ready))"
  have run: "foldl (commit_step now) (fsteps, wl1) ps = (steps, wl')"
    using assms(1) f by (simp add: dispatch_def dispatch_commits_def Let_def ps_def ready_def del_def)
  have set: "set ps = set ready" by (auto simp: ps_def)
  have "distinct ready" by (simp add: ready_def ready_paths_def)
  then have dist: "distinct ps" by (auto simp: ps_def)
  have keyed: "w_path w = p" if "wl_get wl1 p = Some w" for p w
  proof -
    have "rel_option (fetch_outcome now rs peers slots fsteps p) (wl_get (release_waiting wl) p) (wl_get wl1 p)"
      using dispatch_fetches_spec [OF f] by blast
    with that obtain w1 where w1: "wl_get (release_waiting wl) p = Some w1"
      "fetch_outcome now rs peers slots fsteps p w1 w"
      by (cases "wl_get (release_waiting wl) p") auto
    then have "w_entry w = w_entry w1"
      by (auto simp: fetch_outcome_def fetched_from_def split: if_splits)
    moreover have "wl_ok (release_waiting wl)"
      using release_waiting_keeps [OF assms(2)] by (simp add: keeps_commits_def)
    ultimately show ?thesis using wl_okD [OF _ w1(1)] by (simp add: want_ok_def w_path_def)
  qed
  have "\<forall>p \<in> set ps. wl_get wl1 p \<noteq> None" unfolding set ready_def by (auto simp: in_ready_paths)
  then obtain new where "steps = fsteps @ new" "subseq (map step_path new) ps"
    "wl_released wl' = wl_released wl1" "\<forall>p. p \<notin> set ps \<longrightarrow> wl_get wl' p = wl_get wl1 p"
    "\<forall>p \<in> set ps. \<forall>w. wl_get wl1 p = Some w \<longrightarrow> commit_outcome now wl1 new p w (wl_get wl' p)"
    "\<forall>st \<in> set new. started_ok now wl1 wl' ps st"
    using commit_fold [OF run dist] keyed by blast
  with f dist set keyed show thesis by (intro that [of fsteps slots wl1 new ps]) (auto simp: ready_def)
qed

text \<open>The commits a dispatch starts, as the wants they are of.\<close>

definition commits_of :: "want_step list \<Rightarrow> want list" where
  "commits_of steps = List.map_filter (\<lambda>st. case st of WCommit w \<Rightarrow> Some w | _ \<Rightarrow> None) steps"

lemma in_commits_of: "w \<in> set (commits_of steps) \<longleftrightarrow> WCommit w \<in> set steps"
  by (force simp: commits_of_def List.map_filter_def split: want_step.splits)

lemma commits_of_append [simp]: "commits_of (xs @ ys) = commits_of xs @ commits_of ys"
  by (simp add: commits_of_def List.map_filter_def)

lemma commits_of_subseq: "subseq (map w_path (commits_of steps)) (map step_path steps)"
proof (induction steps)
  case (Cons st steps)
  then show ?case
    by (cases st) (auto simp: commits_of_def List.map_filter_simps)
qed (simp add: commits_of_def List.map_filter_simps)

lemma subseq_distinct: "subseq xs ys \<Longrightarrow> distinct ys \<Longrightarrow> distinct xs"
  by (metis subseq_conv_nths distinct_nthsI)

lemma fetch_outcome_commit:
  "fetch_outcome now rs peers slots steps p w w' \<Longrightarrow>
     is_committing (w_state w') = is_committing (w_state w) \<and> w_entry w' = w_entry w \<and>
     w_received w' = w_received w \<and> w_mismatches w' = w_mismatches w \<and> w_excluded w' = w_excluded w \<and>
     (w_state w' = GaveUp \<longrightarrow> w_state w = GaveUp)"
  using seeking_state(1) [of w]
  by (auto simp: fetch_outcome_def fetched_from_def split: if_splits)

lemma dispatch_fetches_keeps:
  assumes "dispatch_fetches now rs peers wl = (steps, slots, wl')" and "wl_ok wl"
  shows "keeps_commits wl wl'"
proof -
  note spec = dispatch_fetches_spec [OF assms(1)]
  have same: "rel_option (\<lambda>w w'. is_committing (w_state w') = is_committing (w_state w) \<and>
      w_entry w' = w_entry w \<and> w_received w' = w_received w \<and> w_mismatches w' = w_mismatches w \<and> w_excluded w' = w_excluded w \<and>
      (w_state w' = GaveUp \<longrightarrow> w_state w = GaveUp)) (wl_get wl p) (wl_get wl' p)" for p
  proof (rule option.rel_mono_strong)
    show "rel_option (fetch_outcome now rs peers slots steps p) (wl_get wl p) (wl_get wl' p)"
      using spec by blast
  qed (rule fetch_outcome_commit)
  have rel: "wl_released wl' = wl_released wl" using spec by blast
  have "wl_ok wl'"
    unfolding wl_ok_def
  proof (intro allI impI)
    fix p w' assume w': "wl_get wl' p = Some w'"
    with same [of p] obtain w where w: "wl_get wl p = Some w"
      "is_committing (w_state w') = is_committing (w_state w)" "w_entry w' = w_entry w"
      "w_received w' = w_received w" "w_mismatches w' = w_mismatches w" "w_excluded w' = w_excluded w"
      "w_state w' = GaveUp \<longrightarrow> w_state w = GaveUp"
      by (cases "wl_get wl p") auto
    have "want_ok p w \<and> (is_committing (w_state w) \<longrightarrow> bm_get (wl_released wl) p = None)"
      using assms(2) w(1) by (simp add: wl_ok_def)
    with w rel show "want_ok p w' \<and> (is_committing (w_state w') \<longrightarrow> bm_get (wl_released wl') p = None)"
      by (auto simp: want_path_simps)
  qed
  moreover have "commit_at wl' p = commit_at wl p" for p
    using same [of p] rel
    by (cases "wl_get wl p"; cases "wl_get wl' p") (auto simp: commit_at_def w_version_def split: option.split)
  ultimately show ?thesis by (simp add: keeps_commits_def)
qed

lemma ready_not_committing:
  "p \<in> set (ready_paths wl) \<Longrightarrow> wl_get wl p = Some w \<Longrightarrow>
     \<not> is_committing (w_state w) \<and> \<not> is_fetching (w_state w) \<and> w_state w \<noteq> GaveUp"
  by (auto simp: in_ready_paths is_committing_def is_fetching_def split: want_state.splits)

end
