(* ===== verification/WantViews.thy ===== *)
theory WantViews
  imports Dispatching Samples
begin

text \<open>
  The properties of the want-list: over every run its invariant holds and a commit keeps its path until
  its report; a dispatch keeps its limits, leaves no slot idle, fetches only from members that have
  the content, starts one commit per path and never past the ordering gate; deadlines that have passed
  are gone after \<open>expire\<close>; backoffs and restarts.
\<close>

section \<open>Steps\<close>

text \<open>What admitting, announcing and observing do: they end no commit and start none.\<close>

inductive calm_step :: "want_list \<Rightarrow> want_list \<Rightarrow> bool" where
  insert: "e_path received = ai_path item \<Longrightarrow> calm_step wl (snd (wl_insert item received b source hi marked wl))"
| announced: "calm_step wl (note_announced p h n wl)"
| refusals: "calm_step wl (keep_refusals p h r wl)"
| trashed: "calm_step wl (remember_trashed p t wl)"
| cleared: "calm_step wl (clear_restoring p wl)"
| taken: "calm_step wl (snd (wl_take p wl))"
| observed: "calm_step wl (wl_observed p wl)"

text \<open>The operations that end no commit: whatever a peer, a timer or the index does.\<close>

inductive quiet_step :: "want_list \<Rightarrow> want_list \<Rightarrow> bool" where
  calm: "calm_step wl wl' \<Longrightarrow> quiet_step wl wl'"
| reconnected: "quiet_step wl (reconnected n wl)"
| fetched: "quiet_step wl (snd (fetched now p v outcome wl))"
| fetch_failed: "quiet_step wl (snd (fetch_failed now p v err seq wl))"
| paused: "quiet_step wl (pause_inbound wl)"
| resumed: "quiet_step wl (resume_inbound wl)"
| collisions: "quiet_step wl (release_collisions f wl)"
| progress: "quiet_step wl (progress now p v wl)"
| expire: "quiet_step wl (snd (expire now wl))"
| gone: "quiet_step wl (peer_gone n wl)"
| drained: "quiet_step wl (snd (wl_drain_changes wl))"
| dispatch: "quiet_step wl (snd (dispatch now rs peers wl))"

text \<open>The others: a report of a commit, a want dropped or made by \<open>revert\<close>, a restart.\<close>

inductive want_step :: "want_list \<Rightarrow> want_list \<Rightarrow> bool" where
  quiet: "quiet_step wl wl' \<Longrightarrow> want_step wl wl'"
| removed: "want_step wl (snd (wl_remove p wl))"
| failed: "want_step wl (snd (wl_failed now p v err seq wl))"
| reported: "want_step wl (snd (released_reported p v wl))"
| reverted: "e_path (w_received w) = w_path w \<Longrightarrow> w_mismatches w = 0 \<Longrightarrow> w_excluded w = bm_empty \<Longrightarrow>
    w_state w = Wanted \<Longrightarrow>
    want_step wl (insert_reverted w wl)"
| restarted: "want_step wl (restarted wl)"

text \<open>What a dispatch does to the commits.\<close>

lemma dispatch_commit_at:
  assumes d: "dispatch now rs peers wl = (steps, wl')" and ok: "wl_ok wl"
  shows "wl_ok wl' \<and> (\<forall>p v. commit_at wl p = Some v \<longrightarrow> commit_at wl' p = Some v) \<and>
    (\<forall>w. WCommit w \<in> set steps \<longrightarrow>
       commit_at wl (w_path w) = None \<and> commit_at wl' (w_path w) = Some (w_version w)) \<and>
    (\<forall>w. WAdopt w \<in> set steps \<longrightarrow> commit_at wl (w_path w) = None) \<and>
    distinct (map w_path (commits_of steps))"
proof -
  obtain fsteps slots wl1 ps new where f:
    "dispatch_fetches now rs peers (release_waiting wl) = (fsteps, slots, wl1)"
    and new: "steps = fsteps @ new" "distinct ps" "set ps = set (ready_paths wl1)"
      "subseq (map step_path new) ps" "wl_released wl' = wl_released wl1"
      "\<And>p. p \<notin> set ps \<Longrightarrow> wl_get wl' p = wl_get wl1 p"
      "\<And>p w. p \<in> set ps \<Longrightarrow> wl_get wl1 p = Some w \<Longrightarrow> commit_outcome now wl1 new p w (wl_get wl' p)"
      "\<And>st. st \<in> set new \<Longrightarrow> started_ok now wl1 wl' ps st"
      "\<And>p w. wl_get wl1 p = Some w \<Longrightarrow> w_path w = p"
    by (rule dispatch_stages [OF d ok]) blast
  have k: "keeps_commits wl wl1"
    using release_waiting_keeps [OF ok] dispatch_fetches_keeps [OF f]
    by (auto simp: keeps_commits_def)
  then have ok1: "wl_ok wl1" and same: "commit_at wl1 p = commit_at wl p" for p
    by (simp_all add: keeps_commits_def)
  have ready: "\<exists>w. wl_get wl1 p = Some w \<and> \<not> is_committing (w_state w) \<and> w_path w = p \<and>
      commit_outcome now wl1 new p w (wl_get wl' p)" if "p \<in> set ps" for p
  proof -
    from that obtain w where "wl_get wl1 p = Some w" by (auto simp: new(3) in_ready_paths)
    with that new(3,7,9) ready_not_committing show ?thesis by blast
  qed
  have "wl_ok wl'"
    unfolding wl_ok_def
  proof (intro allI impI)
    fix p w' assume w': "wl_get wl' p = Some w'"
    show "want_ok p w' \<and> (is_committing (w_state w') \<longrightarrow> bm_get (wl_released wl') p = None)"
    proof (cases "p \<in> set ps")
      case False
      with w' new(5,6) ok1 show ?thesis by (simp add: wl_ok_def)
    next
      case True
      with ready w' obtain w where w: "wl_get wl1 p = Some w" "commit_outcome now wl1 new p w (Some w')"
        by metis
      have "want_ok p w" by (rule wl_okD [OF ok1 w(1)])
      with w(2) new(5) show ?thesis by (auto simp: commit_outcome_def want_path_simps)
    qed
  qed
  moreover have "commit_at wl' p = Some v" if c: "commit_at wl p = Some v" for p v
  proof (cases "p \<in> set ps")
    case True
    then obtain w where w: "wl_get wl1 p = Some w" "\<not> is_committing (w_state w)" using ready by blast
    with c have "bm_get (wl_released wl1) p = Some v"
      unfolding same [symmetric] by (simp add: commit_at_def split: option.splits)
    then show ?thesis by (simp add: commit_at_def new(5))
  next
    case False
    then have "commit_at wl' p = commit_at wl1 p" by (intro commit_at_cong new(5,6))
    with c show ?thesis by (simp add: same)
  qed
  moreover have "commit_at wl (w_path w) = None \<and>
      (st = WCommit w \<longrightarrow> commit_at wl' (w_path w) = Some (w_version w))"
    if st: "st \<in> set steps" "st = WCommit w \<or> st = WAdopt w" for st w
  proof -
    have "st \<in> set new"
      using st dispatch_fetches_spec [OF f] by (auto simp: new(1))
    with new(8) st(2) obtain p where p: "p \<in> set ps" "wl_get wl1 p = Some w"
      "bm_get (wl_released wl1) p = None" "st = WCommit w \<longrightarrow>
        wl_get wl' p = Some (w\<lparr>w_state := Committing (plus_nanos now COMMIT_DEADLINE_NANOS) False\<rparr>)"
      by (fastforce simp: started_ok_def)
    then have wp: "w_path w = p" using new(9) by blast
    have "\<not> is_committing (w_state w)" using ready [OF p(1)] p(2) by auto
    with p have none: "commit_at wl p = None" unfolding same [symmetric] by (simp add: commit_at_def)
    have "commit_at wl' p = Some (w_version w)" if "st = WCommit w"
      using p(3,4) that by (simp add: commit_at_def new(5) w_version_def)
    with none wp show ?thesis by simp
  qed
  moreover have "distinct (map w_path (commits_of steps))"
  proof -
    have "commits_of fsteps = []"
      using dispatch_fetches_spec [OF f] by (force simp: commits_of_def List.map_filter_def filter_empty_conv)
    then have "subseq (map w_path (commits_of steps)) (map step_path new)"
      using commits_of_subseq [of new] by (simp add: new(1))
    with new(2,4) show ?thesis by (meson subseq_distinct subseq_order.order_trans)
  qed
  ultimately show ?thesis by blast
qed

lemma calm_step_keeps:
  assumes "calm_step wl wl'" and ok: "wl_ok wl"
  shows "keeps_commits wl wl'"
  using assms(1) by cases (simp_all add: commit_keeps [OF ok])

text \<open>A calm step starts no commit, whatever a released one still holds.\<close>

lemma wl_release_no_commit [simp]: "wl_released (wl_release p n wl) = wl_released wl"
  by (simp add: wl_release_def Let_def split: option.split)

lemma calm_step_released:
  assumes "calm_step wl wl'" and "bm_get (wl_released wl) p = Some v"
  shows "bm_get (wl_released wl') p \<noteq> None"
  using assms(1)
proof cases
  case (taken q)
  then show ?thesis using assms(2) by (simp split: option.split)
qed (use assms(2) in \<open>simp_all add: wl_insert_def note_announced_def keep_refusals_def remember_trashed_def
  clear_restoring_def wl_observed_def Let_def split: option.split\<close>)

lemma calm_step_starts_none:
  assumes "calm_step wl wl'" and ok: "wl_ok wl"
    and "is_none_or (\<lambda>w. \<not> is_committing (w_state w)) (wl_get wl p)"
  shows "is_none_or (\<lambda>w. \<not> is_committing (w_state w)) (wl_get wl' p)"
proof (cases "bm_get (wl_released wl) p")
  case None
  with assms(3) have "commit_at wl p = None" by (cases "wl_get wl p") (simp_all add: commit_at_def)
  with calm_step_keeps [OF assms(1,2)] have "commit_at wl' p = None" by (simp add: keeps_commits_def)
  then show ?thesis by (auto simp: commit_at_def split: option.splits if_splits)
next
  case (Some v)
  have "wl_ok wl'" using calm_step_keeps [OF assms(1,2)] by (simp add: keeps_commits_def)
  with calm_step_released [OF assms(1) Some] show ?thesis
    by (cases "wl_get wl' p") (auto simp: wl_ok_def)
qed

lemma quiet_step_holds:
  assumes "quiet_step wl wl'" and ok: "wl_ok wl"
  shows "wl_ok wl' \<and> (\<forall>p v. commit_at wl p = Some v \<longrightarrow> commit_at wl' p = Some v)"
  using assms(1)
proof cases
  case (dispatch now rs peers)
  with dispatch_commit_at [OF prod.collapse [symmetric] ok] show ?thesis by blast
next
  case calm
  with calm_step_keeps [OF _ ok] keeps_commits_holds show ?thesis by blast
qed (rule keeps_commits_holds, simp add: commit_keeps [OF ok])+

lemma want_step_ok:
  assumes "want_step wl wl'" and "wl_ok wl"
  shows "wl_ok wl'"
  using assms(1)
proof cases
  case quiet
  with quiet_step_holds assms(2) show ?thesis by blast
qed (use assms(2) in \<open>simp_all add: wl_remove_ok wl_failed_ok released_reported_ok insert_reverted_ok restarted_ok\<close>)

lemma wl_default_ok: "wl_ok wl_default"
  by (simp add: wl_ok_def wl_default_def wl_get_def)

section \<open>What expires\<close>

text \<open>A deadline, exclusion, refusal or backoff of a want that has passed.\<close>

definition state_due :: "timestamp \<Rightarrow> want_state \<Rightarrow> bool" where
  "state_due now s = (case s of Fetching _ d \<Rightarrow> d \<le> now | Committing d o' \<Rightarrow> \<not> o' \<and> d \<le> now
     | LocalRetry d \<Rightarrow> d \<le> now | _ \<Rightarrow> False)"

definition something_due :: "timestamp \<Rightarrow> want \<Rightarrow> bool" where
  "something_due now w \<longleftrightarrow> state_due now (w_state w) \<or> (\<exists>n t. bm_get (w_excluded w) n = Some t \<and> t \<le> now) \<or>
     (\<exists>n t. bm_get (w_refused w) n = Some t \<and> t \<le> now)"

definition released :: "(node_id \<Rightarrow> bool) \<Rightarrow> want \<Rightarrow> want \<Rightarrow> bool" where
  "released gone w w' \<longleftrightarrow>
     (\<forall>n. bm_get (w_excluded w') n = (if gone n then None else bm_get (w_excluded w) n)) \<and>
     w_refused w' = w_refused w \<and> (w_state w' = w_state w \<or> w_state w = GaveUp \<and> w_state w' = Wanted) \<and>
     ((\<forall>n. \<not> gone n) \<longrightarrow> w' = w)"

lemma released_trans: "released g w w' \<Longrightarrow> released h w' w'' \<Longrightarrow> released (\<lambda>n. g n \<or> h n) w w''"
  by (auto simp: released_def)

lemma wl_release_released:
  "rel_option (released (\<lambda>m. q = p \<and> m = n)) (wl_get wl q) (wl_get (wl_release p (Some n) wl) q)"
proof (cases "q = p")
  case True
  then show ?thesis
    by (cases "wl_get wl p") (auto simp: wl_release_def released_def Let_def)
next
  case False
  then have "wl_get (wl_release p (Some n) wl) q = wl_get wl q"
    by (auto simp: wl_release_def Let_def split: option.split)
  with False show ?thesis by (cases "wl_get wl q") (auto simp: released_def)
qed

lemma wl_release_all_released:
  "rel_option (released (\<lambda>m. (q, m) \<in> set xs)) (wl_get wl q)
     (wl_get (foldl (\<lambda>wl (p, n). wl_release p (Some n) wl) wl xs) q)"
proof (induction xs arbitrary: wl)
  case Nil
  then show ?case by (cases "wl_get wl q") (auto simp: released_def)
next
  case (Cons x xs)
  obtain p n where x: "x = (p, n)" by fastforce
  define wl1 where "wl1 = wl_release p (Some n) wl"
  note first = wl_release_released [of q p n wl, folded wl1_def]
  note rest = Cons.IH [of wl1]
  have all: "(\<lambda>m. (q = p \<and> m = n) \<or> (q, m) \<in> set xs) = (\<lambda>m. (q, m) \<in> set (x # xs))" by (auto simp: x)
  have fold: "foldl (\<lambda>wl (p, n). wl_release p (Some n) wl) wl (x # xs) =
      foldl (\<lambda>wl (p, n). wl_release p (Some n) wl) wl1 xs" by (simp add: x wl1_def)
  show ?case
  proof (cases "wl_get wl q")
    case None
    with first have "wl_get wl1 q = None" by simp
    with rest None show ?thesis unfolding fold by simp
  next
    case (Some w)
    with first obtain w1 where w1: "wl_get wl1 q = Some w1" "released (\<lambda>m. q = p \<and> m = n) w w1"
      by (cases "wl_get wl1 q") auto
    with rest obtain w2 where w2: "wl_get (foldl (\<lambda>wl (p, n). wl_release p (Some n) wl) wl1 xs) q = Some w2"
      "released (\<lambda>m. (q, m) \<in> set xs) w1 w2"
      by (cases "wl_get (foldl (\<lambda>wl (p, n). wl_release p (Some n) wl) wl1 xs) q") auto
    from released_trans [OF w1(2) w2(2)] show ?thesis unfolding fold Some w2(1) all by simp
  qed
qed

lemma expire_exclusions_released:
  "rel_option (\<lambda>w. released (\<lambda>n. \<exists>t. bm_get (w_excluded w) n = Some t \<and> t \<le> now) w) (wl_get wl p)
     (wl_get (expire_exclusions now wl) p)"
proof -
  define xs where "xs = concat (map (\<lambda>(p, w). map (\<lambda>(n, _). (p, n))
      (filter (\<lambda>(_, until). until \<le> now) (bm_entries (w_excluded w)))) (bm_entries (wl_wants wl)))"
  have in_xs: "(p, n) \<in> set xs \<longleftrightarrow> (\<exists>t. bm_get (w_excluded w) n = Some t \<and> t \<le> now)"
    if "wl_get wl p = Some w" for w n
    using that by (force simp: xs_def wl_get_def in_bm_entries)
  have "rel_option (released (\<lambda>n. (p, n) \<in> set xs)) (wl_get wl p) (wl_get (expire_exclusions now wl) p)"
    unfolding expire_exclusions_def xs_def [symmetric] by (rule wl_release_all_released)
  then show ?thesis
    by (cases "wl_get wl p"; cases "wl_get (expire_exclusions now wl) p") (simp_all add: in_xs)
qed

definition overdue_want :: "want \<Rightarrow> want" where
  "overdue_want w = (case w_state w of Committing d _ \<Rightarrow> w\<lparr>w_state := Committing d True\<rparr> | _ \<Rightarrow> w)"

lemma overdue_fold_get:
  "wl_get (foldl (\<lambda>wl p. case wl_get wl p of
     Some want \<Rightarrow> (case w_state want of Committing d _ \<Rightarrow> set_state p (Committing d True) wl | _ \<Rightarrow> wl)
   | None \<Rightarrow> wl) wl ps) q = (if q \<in> set ps then map_option overdue_want (wl_get wl q) else wl_get wl q)"
proof (induction ps arbitrary: wl)
  case (Cons p ps)
  have "wl_get (case wl_get wl p of
       Some want \<Rightarrow> (case w_state want of Committing d _ \<Rightarrow> set_state p (Committing d True) wl | _ \<Rightarrow> wl)
     | None \<Rightarrow> wl) r = (if r = p then map_option overdue_want (wl_get wl p) else wl_get wl r)" for r
    by (cases "wl_get wl p"; auto simp: overdue_want_def split: want_state.split)
  moreover have "overdue_want (overdue_want w) = overdue_want w" for w
    by (simp add: overdue_want_def split: want_state.split)
  ultimately show ?case by (simp add: Cons option.map_comp comp_def)
qed simp

lemma expire_get:
  "rel_option (\<lambda>w w'. \<not> something_due now w' \<and> (\<not> something_due now w \<longrightarrow> w' = w)) (wl_get wl p)
     (wl_get (snd (expire now wl)) p)"
proof -
  define v0 where "v0 = expire_exclusions now wl"
  define v1 where "v1 = expire_refusals now v0"
  define stalled where "stalled = paths_where (\<lambda>w. case w_state w of Fetching _ d \<Rightarrow> d \<le> now | _ \<Rightarrow> False) v1"
  define overdue where "overdue = paths_where (\<lambda>w. case w_state w of
    Committing d o' \<Rightarrow> \<not> o' \<and> d \<le> now | _ \<Rightarrow> False) v1"
  define v2 where "v2 = set_states Wanted stalled v1"
  define retried where "retried = paths_where (\<lambda>w. case w_state w of LocalRetry until \<Rightarrow> until \<le> now | _ \<Rightarrow> False) v2"
  define v3 where "v3 = set_states Wanted retried v2"
  have final: "wl_get (snd (expire now wl)) p =
      (if p \<in> set overdue then map_option overdue_want (wl_get v3 p) else wl_get v3 p)"
    unfolding expire_def Let_def snd_conv
    by (fold v0_def, fold v1_def, fold stalled_def overdue_def, fold v2_def, fold retried_def, fold v3_def)
      (rule overdue_fold_get)
  have rel: "rel_option (\<lambda>w. released (\<lambda>n. \<exists>t. bm_get (w_excluded w) n = Some t \<and> t \<le> now) w)
      (wl_get wl p) (wl_get v0 p)"
    unfolding v0_def by (rule expire_exclusions_released)
  show ?thesis
  proof (cases "wl_get wl p")
    case None
    with rel have "wl_get v1 p = None" by (simp add: v1_def expire_refusals_get)
    then show ?thesis by (simp add: None final v3_def v2_def)
  next
    case (Some w)
    with rel obtain w0 where w0: "wl_get v0 p = Some w0"
      "released (\<lambda>n. \<exists>t. bm_get (w_excluded w) n = Some t \<and> t \<le> now) w w0"
      by (cases "wl_get v0 p") auto
    define w1 where "w1 = w0\<lparr>w_refused := bm_filter (\<lambda>_ until. now < until) (w_refused w0)\<rparr>"
    have v1: "wl_get v1 p = Some w1" by (simp add: v1_def expire_refusals_get w0(1) w1_def)
    have same: "w1 = w" if "\<not> something_due now w"
    proof -
      have "w0 = w" using that w0(2) by (auto simp: something_due_def released_def)
      moreover have "bm_filter (\<lambda>_ until. now < until) (w_refused w) = w_refused w"
        using that by (intro bm_eqI) (force simp: something_due_def opt_filter_def split: option.split)
      ultimately show ?thesis by (simp add: w1_def)
    qed
    define w2 where "w2 = (if state_due now (w_state w1)
      then (if is_committing (w_state w1) then overdue_want w1 else w1\<lparr>w_state := Wanted\<rparr>) else w1)"
    have "wl_get (snd (expire now wl)) p = Some w2"
      unfolding final v3_def w2_def
      by (cases "w_state w1")
        (auto simp: v1 v2_def stalled_def overdue_def retried_def state_due_def overdue_want_def is_committing_def)
    moreover have "bm_get (w_excluded w2) = bm_get (w_excluded w0)" "w_refused w2 = w_refused w1"
      by (auto simp: w2_def w1_def overdue_want_def split: want_state.split)
    then have "\<not> something_due now w2"
      using w0(2)
      by (auto simp: something_due_def released_def w1_def opt_filter_eq_Some not_le)
        (auto simp: w2_def state_due_def overdue_want_def is_committing_def split: want_state.splits if_splits)
    moreover have "w2 = w" if "\<not> something_due now w"
      using that same [OF that] by (simp add: w2_def something_due_def)
    ultimately show ?thesis by (simp add: Some)
  qed
qed

section \<open>A concrete list\<close>

text \<open>A file wanted from \<open>there\<close>; fetched; and its commit ordered.\<close>

definition peers_a :: "(node_id, tier) bmap" where "peers_a = bm_insert there TLan bm_empty"

definition wanting :: want_list where
  "wanting = snd (wl_insert \<lparr>ai_entry = entry_of there 7 5, ai_mode = Fetch, ai_conflict = None\<rparr>
     (entry_of there 7 5) (BatchId [1]) there 1 None wl_default)"

definition fetching_a :: want_list where "fetching_a = snd (dispatch 0 rules_default peers_a wanting)"

definition fetched_a :: want_list where
  "fetched_a = snd (fetched 1 path_a (incremented version_empty there) FOk fetching_a)"

definition committing_a :: want_list where
  "committing_a = snd (dispatch 2 rules_default peers_a fetched_a)"

lemmas [eval_simps] = peers_a_def wanting_def fetching_a_def fetched_a_def committing_a_def

lemma wanting_ok: "wl_ok wanting"
  unfolding wanting_def by (rule conjunct1 [OF quiet_step_holds [OF quiet_step.calm [OF calm_step.insert] wl_default_ok]])
    (simp add: ai_path_def)

lemma fetched_a_ok: "wl_ok fetched_a"
  unfolding fetched_a_def fetching_a_def
  using quiet_step_holds [OF quiet_step.dispatch wanting_ok] quiet_step_holds [OF quiet_step.fetched] by blast

lemma committing_a_ok: "wl_ok committing_a"
  unfolding committing_a_def using quiet_step_holds [OF quiet_step.dispatch fetched_a_ok] by blast

section \<open>Properties\<close>

text \<open>C27: Over every run of the want-list, from an empty one on, each want sits under its own path, counts
  as mismatches the sources it excludes, and has given up only while two sources or more are excluded;
  and no path has both a want being committed and a released commit.\<close>

theorem want_list_invariant:
  assumes "want_step\<^sup>*\<^sup>* wl_default wl"
  shows "wl_ok wl"
  using assms by (induction rule: rtranclp_induct) (auto intro: want_step_ok wl_default_ok)

lemma want_list_invariant_witness: "wl_ok (restarted committing_a)"
proof (rule want_list_invariant)
  have "want_step\<^sup>*\<^sup>* wl_default wanting"
    unfolding wanting_def by (intro r_into_rtranclp want_step.quiet quiet_step.calm calm_step.insert) (simp add: ai_path_def)
  also have "want_step wanting fetching_a"
    unfolding fetching_a_def by (intro want_step.quiet quiet_step.dispatch)
  also have "want_step fetching_a fetched_a"
    unfolding fetched_a_def by (intro want_step.quiet quiet_step.fetched)
  also have "want_step fetched_a committing_a"
    unfolding committing_a_def by (intro want_step.quiet quiet_step.dispatch)
  also have "want_step committing_a (restarted committing_a)" by (rule want_step.restarted)
  finally show "want_step\<^sup>*\<^sup>* wl_default (restarted committing_a)" .
qed

text \<open>A commit keeps its path until its own report or a restart: whatever arrives, expires, pauses or
  is taken off the list meanwhile, the path stays with the commit of the same version.\<close>

theorem commit_keeps_its_path:
  assumes "quiet_step\<^sup>*\<^sup>* wl wl'" and "wl_ok wl" and "commit_at wl p = Some v"
  shows "commit_at wl' p = Some v"
proof -
  from assms(1) have "wl_ok wl' \<and> commit_at wl' p = Some v"
    by (induction rule: rtranclp_induct) (use assms(2,3) quiet_step_holds in blast)+
  then show ?thesis ..
qed

lemma commit_keeps_its_path_witness:
  "commit_at (snd (wl_take path_a (snd (expire 99 committing_a)))) path_a =
     Some (incremented version_empty there)"
proof (rule commit_keeps_its_path [OF _ committing_a_ok])
  have "quiet_step\<^sup>*\<^sup>* committing_a (snd (expire 99 committing_a))"
    by (intro r_into_rtranclp quiet_step.expire)
  also have "quiet_step (snd (expire 99 committing_a)) (snd (wl_take path_a (snd (expire 99 committing_a))))"
    by (intro quiet_step.calm calm_step.taken)
  finally show "quiet_step\<^sup>*\<^sup>* committing_a (snd (wl_take path_a (snd (expire 99 committing_a))))" .
  show "commit_at committing_a path_a = Some (incremented version_empty there)" by code_simp
qed



lemma foldl_min_in: "foldl min d ds \<in> set (d # ds)" for d :: "'a::linorder"
  by (induction ds arbitrary: d) (force simp: min_def)+

lemma next_deadline_later:
  assumes "\<And>p w. wl_get wl p = Some w \<Longrightarrow> \<not> something_due now w" and "next_deadline wl = Some d"
  shows "now < d"
proof -
  define all where "all = List.map_filter (\<lambda>w. case w_state w of
        Fetching _ d \<Rightarrow> Some d | Committing d o' \<Rightarrow> (if o' then None else Some d)
      | LocalRetry until \<Rightarrow> Some until | _ \<Rightarrow> None) (bm_values (wl_wants wl)) @
    concat (map (\<lambda>w. bm_values (w_excluded w) @ bm_values (w_refused w)) (bm_values (wl_wants wl)))"
  have "next_deadline wl = (case all of [] \<Rightarrow> None | d # ds \<Rightarrow> Some (foldl min d ds))"
    by (simp add: next_deadline_def all_def Let_def)
  with assms(2) obtain e es where "all = e # es" "d = foldl min e es" by (auto split: list.splits)
  then have "d \<in> set all" using foldl_min_in by metis
  then obtain w where "w \<in> set (bm_values (wl_wants wl))"
    and due: "(case w_state w of Fetching _ d \<Rightarrow> Some d | Committing d o' \<Rightarrow> (if o' then None else Some d)
        | LocalRetry until \<Rightarrow> Some until | _ \<Rightarrow> None) = Some d \<or>
      (\<exists>n. bm_get (w_excluded w) n = Some d) \<or> (\<exists>n. bm_get (w_refused w) n = Some d)"
    unfolding all_def List.map_filter_def
    by (auto simp: in_bm_values [where m = "w_excluded _"] in_bm_values [where m = "w_refused _"])
  then obtain p where w: "wl_get wl p = Some w" by (auto simp: in_bm_values wl_get_def)
  with due assms(1) [OF w] show ?thesis
    by (force simp: something_due_def state_due_def not_le split: want_state.splits if_splits)
qed

text \<open>After \<open>expire\<close> nothing of the past is left: no deadline, exclusion, refusal or backoff of any want
  is due any more, so the next wake-up lies ahead; and a want with nothing due is left exactly as it is.\<close>

theorem nothing_due_after_expire:
  "(case next_deadline (snd (expire now wl)) of None \<Rightarrow> True | Some d \<Rightarrow> now < d) \<and>
   (\<forall>p w. wl_get wl p = Some w \<and> \<not> something_due now w \<longrightarrow> wl_get (snd (expire now wl)) p = Some w)"
proof
  have "\<not> something_due now w'" if "wl_get (snd (expire now wl)) p = Some w'" for p w'
    using expire_get [of now wl p] that by (cases "wl_get wl p") auto
  then show "case next_deadline (snd (expire now wl)) of None \<Rightarrow> True | Some d \<Rightarrow> now < d"
    using next_deadline_later [of "snd (expire now wl)" now] by (simp split: option.split)
  have "wl_get (snd (expire now wl)) p = Some w" if "wl_get wl p = Some w" "\<not> something_due now w" for p w
    using expire_get [of now wl p] that by (cases "wl_get (snd (expire now wl)) p") auto
  then show "\<forall>p w. wl_get wl p = Some w \<and> \<not> something_due now w \<longrightarrow> wl_get (snd (expire now wl)) p = Some w"
    by blast
qed

lemma nothing_due_after_expire_witness:
  "wl_get (snd (expire 5 fetching_a)) path_a = wl_get fetching_a path_a"
proof -
  have "is_some_and (\<lambda>w. \<not> state_due 5 (w_state w) \<and> bm_is_empty (w_excluded w) \<and> bm_is_empty (w_refused w))
      (wl_get fetching_a path_a)"
    by code_simp
  then obtain w where w: "wl_get fetching_a path_a = Some w" "\<not> something_due 5 w"
    by (auto simp: is_some_and_iff something_due_def bm_is_empty_iff)
  then show ?thesis using nothing_due_after_expire [of 5 fetching_a] by simp
qed

lemma release_waiting_fetches:
  "fetches_from (release_waiting wl) n = fetches_from wl n" "fetching_paths (release_waiting wl) = fetching_paths wl"
proof -
  have "(\<exists>w. wl_get (release_waiting wl) p = Some w \<and> w_state w = Fetching m d) \<longleftrightarrow>
      (\<exists>w. wl_get wl p = Some w \<and> w_state w = Fetching m d)" for p m d
    using release_waiting_get(2) [of wl p]
    by (cases "wl_get wl p"; cases "wl_get (release_waiting wl) p") auto
  then show "fetches_from (release_waiting wl) n = fetches_from wl n"
    "fetching_paths (release_waiting wl) = fetching_paths wl"
    by (intro set_eqI; simp only: in_fetches is_fetching_iff; metis)+
qed

text \<open>What a dispatch leaves of the fetches, path by path: the slots of the result are exact and within
  the limits, and each want that sought a source has its outcome.\<close>

lemma dispatch_fetch_outcomes:
  assumes d: "dispatch now rs peers wl = (steps, wl')" and ok: "wl_ok wl"
  obtains slots fsteps wl1 where "slots_count slots wl'" "within rs (count_slots wl) slots"
    "set fsteps \<subseteq> set steps" "dispatch_fetches now rs peers (release_waiting wl) = (fsteps, slots, wl1)"
    "\<And>p w1. wl_get wl1 p = Some w1 \<Longrightarrow> needs_fetch w1 \<Longrightarrow> wl_get wl' p = Some w1"
    "\<And>p v n. WFetch p v n \<in> set steps \<Longrightarrow> WFetch p v n \<in> set fsteps"
proof -
  obtain fsteps slots wl1 ps new where f:
    "dispatch_fetches now rs peers (release_waiting wl) = (fsteps, slots, wl1)"
    and new: "steps = fsteps @ new" "set ps = set (ready_paths wl1)"
      "\<And>p. p \<notin> set ps \<Longrightarrow> wl_get wl' p = wl_get wl1 p"
      "\<And>p w. p \<in> set ps \<Longrightarrow> wl_get wl1 p = Some w \<Longrightarrow> commit_outcome now wl1 new p w (wl_get wl' p)"
      "\<And>st. st \<in> set new \<Longrightarrow> started_ok now wl1 wl' ps st"
    by (rule dispatch_stages [OF d ok]) blast
  note spec = dispatch_fetches_spec [OF f]
  have "(\<exists>w. wl_get wl' p = Some w \<and> w_state w = Fetching m d) \<longleftrightarrow>
      (\<exists>w. wl_get wl1 p = Some w \<and> w_state w = Fetching m d)" for p m d
  proof (cases "p \<in> set ps")
    case True
    then obtain w where w: "wl_get wl1 p = Some w" by (auto simp: new(2) in_ready_paths)
    moreover have "\<not> is_fetching (w_state w)" using True w ready_not_committing by (auto simp: new(2))
    moreover have "commit_outcome now wl1 new p w (wl_get wl' p)" by (rule new(4) [OF True w])
    ultimately show ?thesis by (auto simp: commit_outcome_def is_fetching_iff)
  qed (simp add: new(3))
  then have same: "fetches_from wl' n = fetches_from wl1 n" "fetching_paths wl' = fetching_paths wl1" for n
    by (intro set_eqI; simp only: in_fetches is_fetching_iff; metis)+
  have "slots_count slots wl'" using spec by (simp add: slots_count_def same)
  moreover have "within rs (count_slots wl) slots"
  proof -
    have "snd (count_slots (release_waiting wl)) = snd (count_slots wl)"
      "slot_of (fst (count_slots (release_waiting wl))) n = slot_of (fst (count_slots wl)) n" for n
      using count_slots_count [of wl] count_slots_count [of "release_waiting wl"]
      by (simp_all add: slots_count_def release_waiting_fetches)
    moreover have "within rs (count_slots (release_waiting wl)) slots" using spec by blast
    ultimately show ?thesis by (simp add: within_def)
  qed
  moreover have "set fsteps \<subseteq> set steps" by (simp add: new(1))
  moreover note f
  moreover have "wl_get wl' p = Some w1" if "wl_get wl1 p = Some w1" "needs_fetch w1" for p w1
  proof -
    have "p \<notin> set ps" using that by (auto simp: new(2) in_ready_paths)
    with that new(3) show ?thesis by simp
  qed
  moreover have "WFetch p v n \<in> set fsteps" if "WFetch p v n \<in> set steps" for p v n
    using that new(5) by (auto simp: new(1) started_ok_def)
  ultimately show thesis by (rule that)
qed

text \<open>C25: A dispatch keeps the folder's limit and every peer's limit of fetches in progress: neither number
  rises above its limit, or above what it was.\<close>

theorem dispatch_within_limits:
  assumes "wl_ok wl" and "dispatch now rs peers wl = (steps, wl')"
  shows "wl_fetching wl' \<le> max (wl_fetching wl) (unat (max_fetches_per_folder rs)) \<and>
    card (fetches_from wl' n) \<le> max (card (fetches_from wl n)) (unat (max_fetches_per_peer rs))"
proof -
  obtain slots fsteps wl1 where "slots_count slots wl'" "within rs (count_slots wl) slots"
    by (rule dispatch_fetch_outcomes [OF assms(2,1)]) blast
  with count_slots_count [of wl] show ?thesis
    by (simp add: slots_count_def within_def wl_fetching_card)
qed

lemma dispatch_within_limits_witness: "wl_fetching fetching_a \<le> 16 \<and> wl_fetching fetching_a = 1"
proof
  have "wl_fetching wanting = 0" "unat (max_fetches_per_folder rules_default) = 16" by code_simp+
  then show "wl_fetching fetching_a \<le> 16"
    using dispatch_within_limits [OF wanting_ok prod.collapse [symmetric], of 0 rules_default peers_a]
    unfolding fetching_a_def by simp
  show "wl_fetching fetching_a = 1" by code_simp
qed

text \<open>C24: A dispatch leaves no slot idle: a want that seeks a source and has one it may fetch from is being
  fetched from such a source afterwards, with the fetch ordered from the host, unless the folder is at
  its limit or every source it may use is at the peer limit.\<close>

theorem no_slot_idle:
  assumes "wl_ok wl" and "dispatch now rs peers wl = (steps, wl')"
    and "wl_get wl p = Some w" and "seeking w" and "may_fetch rs peers w n"
  shows "(\<exists>m. may_fetch rs peers w m \<and> WFetch p (w_version w) m \<in> set steps \<and>
       wl_get wl' p = Some (w\<lparr>w_state := Fetching m (plus_nanos now FETCH_STALL_NANOS)\<rparr>)) \<or>
    unat (max_fetches_per_folder rs) \<le> wl_fetching wl' \<or>
    (\<forall>m. may_fetch rs peers w m \<longrightarrow> unat (max_fetches_per_peer rs) \<le> card (fetches_from wl' m))"
proof -
  obtain slots fsteps wl1 where c: "slots_count slots wl'" "set fsteps \<subseteq> set steps"
    and f: "dispatch_fetches now rs peers (release_waiting wl) = (fsteps, slots, wl1)"
    and kept: "\<And>p w1. wl_get wl1 p = Some w1 \<Longrightarrow> needs_fetch w1 \<Longrightarrow> wl_get wl' p = Some w1"
    by (rule dispatch_fetch_outcomes [OF assms(2,1)]) blast
  have "wl_get (release_waiting wl) p = Some w"
    using release_waiting_get(2) [of wl p] assms(3,4)
    by (cases "wl_get (release_waiting wl) p") (auto simp: seeking_def)
  moreover have "rel_option (fetch_outcome now rs peers slots fsteps p)
      (wl_get (release_waiting wl) p) (wl_get wl1 p)"
    using dispatch_fetches_spec [OF f] by blast
  ultimately obtain w1 where w1: "wl_get wl1 p = Some w1" "fetch_outcome now rs peers slots fsteps p w w1"
    by (cases "wl_get wl1 p") auto
  have "\<exists>n. may_fetch rs peers w n" using assms(5) by blast
  with w1(2) assms(4) have out: "(\<exists>n. may_fetch rs peers w n \<and> w1 = fetched_from now w n \<and>
        WFetch p (w_version w) n \<in> set fsteps) \<or>
      w1 = w\<lparr>w_state := Wanted\<rparr> \<and> full rs slots {n. may_fetch rs peers w n}"
    by (simp add: fetch_outcome_def)
  moreover have "needs_fetch w" using assms(4) by (simp add: seeking_def)
  ultimately have "needs_fetch w1" by (auto simp: fetched_from_def needs_fetch_def)
  with kept w1(1) have "wl_get wl' p = Some w1" by blast
  with out c show ?thesis
    by (auto simp: fetched_from_def full_def slots_count_def wl_fetching_card)
qed

lemma no_slot_idle_witness:
  "\<exists>w. wl_get wanting path_a = Some w \<and>
     (\<exists>m. WFetch path_a (w_version w) m \<in> set (fst (dispatch 0 rules_default peers_a wanting)))"
proof -
  have some: "is_some_and (\<lambda>w. seeking w \<and> bm_has (w_sources w) there \<and> \<not> bm_has (w_excluded w) there \<and>
      \<not> bm_has (w_refused w) there) (wl_get wanting path_a)"
    unfolding seeking_def by code_simp
  have tier: "bm_get peers_a there = Some TLan" by code_simp
  obtain w where w: "wl_get wanting path_a = Some w" "seeking w" "may_fetch rules_default peers_a w there"
    using some tier
    by (auto simp: is_some_and_iff may_fetch_def tier_allows_def tier_limit_def simp del: bm_has_iff)
  have "wl_fetching (snd (dispatch 0 rules_default peers_a wanting)) = 1"
    unfolding fetching_a_def [symmetric] by code_simp
  moreover have "card (fetches_from wl n) \<le> wl_fetching wl" for wl n
    unfolding wl_fetching_card by (intro card_mono) (auto simp: in_fetches is_fetching_def)
  ultimately show ?thesis
    using no_slot_idle [OF wanting_ok prod.collapse [symmetric] w] w(1,3)
    by (fastforce simp: rules_default_def dest: le_trans)
qed

text \<open>A fetch is ordered only of wanted content and only from a member that has it: the want is on the
  list with that version, not yet fetched, and the source is connected, known to have it, neither
  excluded nor refusing, and on a tier the file fits.\<close>

theorem fetches_ask_holders:
  assumes "wl_ok wl" and "dispatch now rs peers wl = (steps, wl')" and "WFetch p v n \<in> set steps"
  shows "\<exists>w. wl_get wl p = Some w \<and> v = w_version w \<and> needs_fetch w \<and> may_fetch rs peers w n"
proof -
  obtain slots fsteps wl1 where f: "dispatch_fetches now rs peers (release_waiting wl) = (fsteps, slots, wl1)"
    and "WFetch p v n \<in> set fsteps"
    by (rule dispatch_fetch_outcomes [OF assms(2,1)]) (use assms(3) in blast)
  then obtain w1 where w1: "wl_get (release_waiting wl) p = Some w1" "v = w_version w1" "seeking w1"
    "may_fetch rs peers w1 n"
    using dispatch_fetches_spec [OF f] by blast
  with release_waiting_get(2) [of wl p] obtain w where w: "wl_get wl p = Some w"
    "w1 = w \<or> w1 = w\<lparr>w_state := Wanted\<rparr>"
    by (cases "wl_get wl p") auto
  with w1 show ?thesis
    by (auto simp: seeking_def needs_fetch_def may_fetch_def w_version_def)
qed

lemma fetches_ask_holders_witness:
  "\<exists>w. wl_get wanting path_a = Some w \<and> needs_fetch w \<and> may_fetch rules_default peers_a w there"
proof -
  have "WFetch path_a (incremented version_empty there) there \<in>
      set (fst (dispatch 0 rules_default peers_a wanting))"
    by code_simp
  from fetches_ask_holders [OF wanting_ok prod.collapse [symmetric] this] show ?thesis by blast
qed

text \<open>C26: Commits keep the order of the tree: when a dispatch orders a commit or an index-only adoption, no want
  is left on the list that it must wait for - no ancestor directory still to be made or removed, no
  delete still inside the directory it deletes.\<close>

theorem ordering_gate:
  assumes "wl_ok wl" and "dispatch now rs peers wl = (steps, wl')"
    and "WCommit w \<in> set steps \<or> WAdopt w \<in> set steps" and "wl_get wl' q = Some other"
  shows "\<not> gates w other"
proof -
  obtain fsteps slots wl1 ps new where f:
    "dispatch_fetches now rs peers (release_waiting wl) = (fsteps, slots, wl1)"
    and new: "steps = fsteps @ new" "\<And>st. st \<in> set new \<Longrightarrow> started_ok now wl1 wl' ps st"
    by (rule dispatch_stages [OF assms(2,1)]) blast
  have "\<exists>st \<in> set new. st = WCommit w \<or> st = WAdopt w"
    using assms(3) dispatch_fetches_spec [OF f] by (auto simp: new(1))
  with new(2) have "\<not> gated wl' w" by (fastforce simp: started_ok_def)
  with assms(4) show ?thesis by (auto simp: gated_iff)
qed

lemma ordering_gate_witness:
  "\<exists>w other. w_path w = path_a \<and> wl_get committing_a path_a = Some other \<and> \<not> gates w other"
proof -
  have "map w_path (commits_of (fst (dispatch 2 rules_default peers_a fetched_a))) = [path_a]"
    "\<not> Option.is_none (wl_get committing_a path_a)" by code_simp+
  then obtain w other where "commits_of (fst (dispatch 2 rules_default peers_a fetched_a)) = [w]"
    "w_path w = path_a" and other: "wl_get committing_a path_a = Some other"
    by (auto simp: Option.is_none_def)
  moreover from this have "WCommit w \<in> set (fst (dispatch 2 rules_default peers_a fetched_a))"
    by (simp flip: in_commits_of)
  ultimately show ?thesis
    using ordering_gate [OF fetched_a_ok prod.collapse [symmetric]] unfolding committing_a_def by blast
qed

text \<open>A source that served wrong content sits out a minute, doubled by each further strike, an hour at
  most: the shift that is capped at sixteen and the saturating product compute exactly that.\<close>

theorem exclusion_backoff_doubles:
  "exclusion_backoff strikes = min (60000000000 * 2 ^ (strikes - 1)) 3600000000000"
proof (cases "strikes \<le> 7")
  case True
  then have "strikes - 1 \<in> {0, 1, 2, 3, 4, 5, 6}" by auto
  then show ?thesis
    by (auto simp: exclusion_backoff_def i64_sat_mul_def EXCLUSION_NANOS_def EXCLUSION_CAP_NANOS_def
        NANOS_PER_SECOND_def i64_clamp_def i64_max_def i64_min_def)
next
  case False
  have "2 ^ 6 \<le> (2::int) ^ (strikes - 1)" "2 ^ 6 \<le> (2::int) ^ min (strikes - 1) 16"
    "(2::int) ^ min (strikes - 1) 16 \<le> 2 ^ 16"
    using False by (intro power_increasing; simp)+
  then show ?thesis
    by (auto simp: exclusion_backoff_def i64_sat_mul_def EXCLUSION_NANOS_def EXCLUSION_CAP_NANOS_def
        NANOS_PER_SECOND_def i64_clamp_def i64_max_def i64_min_def)
qed

text \<open>A restart asks for everything again: every want is still wanted, with its sources, exclusions and
  batch, but nothing of it is fetched, being fetched or being committed, and no commit is waited for.\<close>

theorem restart_forgets:
  assumes "wl_ok wl"
  shows "rel_option (\<lambda>w w'. \<not> w_fetched w' \<and> \<not> is_fetching (w_state w') \<and> \<not> is_committing (w_state w') \<and>
      w_state w' \<noteq> Blocked \<and> w' = w\<lparr>w_fetched := False, w_state := w_state w'\<rparr>)
    (wl_get wl p) (wl_get (restarted wl) p) \<and> commit_at (restarted wl) p = None"
proof
  show "rel_option (\<lambda>w w'. \<not> w_fetched w' \<and> \<not> is_fetching (w_state w') \<and> \<not> is_committing (w_state w') \<and>
      w_state w' \<noteq> Blocked \<and> w' = w\<lparr>w_fetched := False, w_state := w_state w'\<rparr>)
    (wl_get wl p) (wl_get (restarted wl) p)"
    unfolding restart_get [OF assms] by (cases "wl_get wl p") (auto simp: is_fetching_def is_committing_def)
  show "commit_at (restarted wl) p = None"
    unfolding commit_at_def restart_get [OF assms]
    by (cases "wl_get wl p") (auto simp: is_fetching_def is_committing_def)
qed

lemma restart_forgets_witness: "commit_at (restarted committing_a) path_a = None"
  using restart_forgets [OF committing_a_ok] by blast

end
