(* ===== verification/FolderTypes.thy ===== *)
theory FolderTypes
  imports Wants
begin

text \<open>
  The data of \<open>crates/engine/src/folder.rs\<close> around the folder state: what the host reports, what waits
  to be classified again (\<open>DeferredSet\<close>), the pause and the queued decisions, the batch window, the
  scan bracket, and the results the folder's operations return. The constructors carry a prefix where
  Isabelle has the name already or several enums of the source share it.
\<close>

section \<open>What the host reports\<close>

datatype skip_reason = PermissionDenied | SkipIo | Unstable | CoincidingNames | Ignored

datatype scan_state = Absent | Unchanged | Observed observed | Skipped skip_reason

datatype apply_outcome =
    AOk
  | AChangedUnderneath scan_state
  | AFailed local_error scan_state

datatype observer = Scan | Guard

section \<open>The deferred entries\<close>

datatype deferred_reason = ChangedUnderneath | Frozen

record deferred =
  df_entry :: entry
  df_batch :: batch_id
  df_source :: node_id
  df_seq_high :: nat
  df_reason :: deferred_reason
  df_restoring :: "entry option"
  df_trashed :: "observed option"

record deferred_set =
  ds_rows :: "(rel_path, deferred list) bmap"
  ds_changed :: "rel_path bset"

definition ds_default :: deferred_set where
  "ds_default = \<lparr>ds_rows = bm_empty, ds_changed = bm_empty\<rparr>"

definition ds_get :: "deferred_set \<Rightarrow> rel_path \<Rightarrow> deferred list option" where
  "ds_get ds p = bm_get (ds_rows ds) p"

definition ds_iter :: "deferred_set \<Rightarrow> (rel_path \<times> deferred list) list" where
  "ds_iter ds = bm_entries (ds_rows ds)"

definition ds_paths :: "deferred_set \<Rightarrow> rel_path list" where
  "ds_paths ds = bm_keys (ds_rows ds)"

definition ds_entries :: "deferred_set \<Rightarrow> deferred list" where
  "ds_entries ds = concat (bm_values (ds_rows ds))"

definition ds_push :: "rel_path \<Rightarrow> deferred \<Rightarrow> deferred_set \<Rightarrow> deferred_set" where
  "ds_push p d ds =
     ds\<lparr>ds_changed := changed_note p (ds_changed ds),
        ds_rows := bm_insert p ((case bm_get (ds_rows ds) p of Some l \<Rightarrow> l | None \<Rightarrow> []) @ [d]) (ds_rows ds)\<rparr>"

definition ds_take_where :: "rel_path \<Rightarrow> (deferred \<Rightarrow> bool) \<Rightarrow> deferred_set \<Rightarrow> deferred list \<times> deferred_set" where
  "ds_take_where p pred ds =
     (case bm_get (ds_rows ds) p of
        None \<Rightarrow> ([], ds)
      | Some l \<Rightarrow>
          let (taken, keep) = partition pred l;
              rows = bm_remove p (ds_rows ds)
          in (taken,
              ds\<lparr>ds_changed := (if taken \<noteq> [] then changed_note p (ds_changed ds) else ds_changed ds),
                 ds_rows := (if keep \<noteq> [] then bm_insert p keep rows else rows)\<rparr>))"

definition ds_from_rows :: "(rel_path, deferred list) bmap \<Rightarrow> deferred_set" where
  "ds_from_rows rows = \<lparr>ds_rows = rows, ds_changed = bm_empty\<rparr>"

definition ds_clear_restoring :: "rel_path \<Rightarrow> deferred_set \<Rightarrow> deferred_set" where
  "ds_clear_restoring p ds =
     (case bm_get (ds_rows ds) p of
        None \<Rightarrow> ds
      | Some l \<Rightarrow>
          if list_ex (\<lambda>d. df_restoring d \<noteq> None) l
          then ds\<lparr>ds_rows := bm_insert p (map (\<lambda>d. d\<lparr>df_restoring := None, df_trashed := None\<rparr>) l) (ds_rows ds),
                  ds_changed := changed_note p (ds_changed ds)\<rparr>
          else ds)"

definition ds_drain_changes :: "deferred_set \<Rightarrow> (rel_path \<times> deferred list option) list \<times> deferred_set" where
  "ds_drain_changes ds =
     (let (paths, c) = changed_take (ds_changed ds)
      in (map (\<lambda>p. (p, bm_get (ds_rows ds) p)) paths, ds\<lparr>ds_changed := c\<rparr>))"

section \<open>The pause, the queue, the window\<close>

record paused =
  pz_batch :: batch_id
  pz_since :: timestamp
  pz_reason :: hold_reason
  pz_summary :: summary
  pz_would_pass :: bool

datatype user_decision = UDeny (decision_batch: batch_id) | URevert (decision_batch: batch_id)

datatype wait_reason =
    WrPaused batch_id
  | WrRestoring rel_path
  | WrCommitting rel_path
  | WrStartupScan
  | WrUnobserved rel_path
  | WrScanOpen

record queued =
  qu_decision :: user_decision
  qu_reason :: wait_reason

record window =
  wi_opened :: timestamp
  wi_last :: timestamp

definition window_due :: "window \<Rightarrow> timestamp" where
  "window_due w = min (plus_nanos (wi_opened w) WINDOW_NANOS) (plus_nanos (wi_last w) DEBOUNCE_NANOS)"

datatype displace = ToTrash | ToConflictCopy rel_path

datatype folder_status =
    StUnknownFolder
  | StAlreadyJoined
  | StUnchangedUnknownPath rel_path
  | StScanNotOpen
  | StDuplicatePaths batch_id nat
  | StWinnerFallback nat
  | StPaused batch_id hold_reason summary
  | StPausedRecheck batch_id bool summary
  | StHeld batch_id node_id hold_reason summary nat
  | StJoinedHeld batch_id nat
  | StReleased batch_id nat
  | StUnpaused batch_id
  | StDenied batch_id nat
  | StReverted batch_id nat nat nat
  | StNotPaused
  | StWaiting user_decision wait_reason
  | StDropped user_decision
  | StReturned batch_id nat
  | StUnknownBatch batch_id
  | StRulesRecheck batch_id bool
  | StGaveUp rel_path
  | StUnrecoverable rel_path
  | StStalled rel_path
  | StCommitOverdue rel_path
  | StLocalFailure rel_path local_error
  | StInboundPaused
  | StInboundResumed

section \<open>The scan bracket\<close>

text \<open>The directories above a path, the nearest first: the walk the source writes as
  \<open>while let Some(dir) = up { up = dir.parent(); ... }\<close>.\<close>

lemma rfind_on_less: "rfind_on c xs = Some i \<Longrightarrow> i < length xs"
  by (induction xs arbitrary: i) (auto split: option.splits if_splits)

lemma path_parent_shorter: "path_parent p = Some d \<Longrightarrow> length (path_str d) < length (path_str p)"
  by (auto simp: path_parent_def dest: rfind_on_less)

function path_above :: "rel_path \<Rightarrow> rel_path list" where
  "path_above p = (case path_parent p of None \<Rightarrow> [] | Some d \<Rightarrow> d # path_above d)"
  by pat_completeness auto
termination
  by (relation "measure (\<lambda>p. length (path_str p))") (auto dest: path_parent_shorter)

declare path_above.simps [simp del]

record bracket =
  br_seen :: "rel_path bset"
  br_skipped :: "rel_path bset"

definition bracket_default :: bracket where
  "bracket_default = \<lparr>br_seen = bm_empty, br_skipped = bm_empty\<rparr>"

definition br_report :: "rel_path \<Rightarrow> scan_state \<Rightarrow> bracket \<Rightarrow> bracket" where
  "br_report p s b =
     (let b = b\<lparr>br_seen := bs_insert p (br_seen b)\<rparr>
      in case s of Skipped _ \<Rightarrow> b\<lparr>br_skipped := bs_insert p (br_skipped b)\<rparr> | _ \<Rightarrow> b)"

definition br_committed :: "rel_path \<Rightarrow> bracket \<Rightarrow> bracket" where
  "br_committed p b = b\<lparr>br_seen := bs_insert p (br_seen b)\<rparr>"

definition br_saw :: "bracket \<Rightarrow> rel_path \<Rightarrow> bool" where
  "br_saw b p \<longleftrightarrow>
     bm_has (br_seen b) p \<or>
     (\<not> bm_is_empty (br_skipped b) \<and> list_ex (\<lambda>d. bm_has (br_skipped b) d) (path_above p))"

section \<open>Results\<close>

record scanned =
  sc_ancestors :: "index_record list"
  sc_change :: "local_change option"
  sc_status :: "folder_status option"
  sc_landed :: "index_record option"

definition scanned_default :: scanned where
  "scanned_default = \<lparr>sc_ancestors = [], sc_change = None, sc_status = None, sc_landed = None\<rparr>"

datatype ticked =
    TkNothing
  | TkSent "batch list"
  | TkPaused (tk_first: bool) (tk_snapshot: "batch list") (tk_status: folder_status)

record receipt =
  re_set :: apply_set
  re_decision :: decision
  re_summary :: summary
  re_joined :: nat
  re_frozen :: nat
  re_already_wanted :: nat
  re_held :: "hold_reason option"

record fetch_result =
  fr_state :: "want_state option"
  fr_unrecoverable :: "local_change option"

datatype approved = ApReleased "apply_set option" | ApSent "batch list" | ApUnknown

datatype requested = RqRun | RqQueued folder_status

datatype next_step = NxRun user_decision | NxDropped folder_status | NxWaiting folder_status

record revert_outcome =
  ro_batch :: batch_id
  ro_reverted :: "reverted list"
  ro_trash :: "rel_path list"
  ro_refetch :: nat
  ro_written :: "index_record list"
  ro_kept :: nat
  ro_returned :: "(batch_id \<times> nat) list"

datatype host_step =
    HFetch rel_path version content_hash u64 node_id
  | HWrite rel_path entry "observed option" displace
  | HRemove rel_path "observed option" displace
  | HSetMeta rel_path "observed option" int bool
  | HTrash rel_path version observed

definition as_the_reset_expects :: "observed \<Rightarrow> observed \<Rightarrow> bool" where
  "as_the_reset_expects expected obs \<longleftrightarrow>
     ob_kind expected = ob_kind obs \<and> ob_size expected = ob_size obs \<and>
     ob_mtime expected = ob_mtime obs \<and> ob_exec expected = ob_exec obs"

text \<open>A re-classified item on its way into the want-list, with the entry as it arrived.\<close>

record candidate =
  cd_item :: apply_item
  cd_raw :: entry
  cd_batch :: batch_id
  cd_source :: node_id
  cd_seq_high :: nat

definition neither_holder :: "apply_item \<Rightarrow> apply_item" where
  "neither_holder item =
     \<lparr>ai_entry = ai_entry item,
      ai_mode = (if e_deleted (ai_entry item) \<or> e_kind (ai_entry item) = Dir then Direct else Fetch),
      ai_conflict = None\<rparr>"

lemmas [eval_simps] =
  ds_default_def ds_get_def ds_iter_def ds_paths_def ds_entries_def ds_push_def ds_take_where_def
  ds_from_rows_def ds_clear_restoring_def ds_drain_changes_def window_due_def path_above.simps
  bracket_default_def br_report_def br_committed_def br_saw_def scanned_default_def
  as_the_reset_expects_def neither_holder_def

end
