(* ===== verification/Folders.thy ===== *)
theory Folders
  imports FolderTypes Quarantines
begin

text \<open>
  The state of one folder, \<open>FolderState\<close> of \<open>crates/engine/src/folder.rs\<close>, and its rebuild from the
  persisted parts of \<open>crates/engine/src/parts.rs\<close>: the readers, the small rest, the parts, and the
  diagnostics that name the first field two states differ in. Methods that mutate the folder take it
  last and return it updated.
\<close>

section \<open>The state\<close>

record folder =
  fo_id :: folder_id
  fo_rules :: rules
  fo_members :: "node_id bset"
  fo_index :: index
  fo_window :: "window option"
  fo_scan :: "bracket option"
  fo_wants :: want_list
  fo_acked :: "(node_id, nat) bmap"
  fo_catchup :: "node_id bset"
  fo_deferred :: deferred_set
  fo_winner_fallbacks :: nat
  fo_quarantine :: quarantine
  fo_paused :: "paused option"
  fo_queued :: "queued list"
  fo_startup_scan :: bool
  fo_unobserved :: "rel_path bset"
  fo_observing :: "rel_path bset"
  fo_reported :: "(rel_path, timestamp) bmap"
  fo_last_observed :: "(rel_path, timestamp) bmap"
  fo_record_written :: "(rel_path, timestamp) bmap"
  fo_disk_full :: bool
  fo_statuses :: "folder_status list"

definition folder_new :: "folder_id \<Rightarrow> rules \<Rightarrow> node_id list \<Rightarrow> node_id \<Rightarrow> host_name \<Rightarrow> folder" where
  "folder_new fid rules members own host =
     \<lparr>fo_id = fid, fo_rules = rules, fo_members = bs_of_list members, fo_index = index_new own host,
      fo_window = None, fo_scan = None, fo_wants = wl_default, fo_acked = bm_empty,
      fo_catchup = bm_empty, fo_deferred = ds_default, fo_winner_fallbacks = 0,
      fo_quarantine = q_default, fo_paused = None, fo_queued = [], fo_startup_scan = False,
      fo_unobserved = bm_empty, fo_observing = bm_empty, fo_reported = bm_empty,
      fo_last_observed = bm_empty, fo_record_written = bm_empty, fo_disk_full = False,
      fo_statuses = []\<rparr>"

section \<open>The persisted parts\<close>

record rest =
  rs_seq :: nat
  rs_announced_seq :: nat
  rs_announced_tracked :: nat
  rs_watermarks :: "(node_id, watermark) bmap"
  rs_acked :: "(node_id, nat) bmap"
  rs_paused :: "paused option"
  rs_queued :: "queued list"
  rs_arrivals :: nat
  rs_winner_fallbacks :: nat
  rs_disk_full :: bool

record folder_parts =
  fp_id :: folder_id
  fp_rules :: rules
  fp_members :: "node_id bset"
  fp_records :: "(rel_path, index_record) bmap"
  fp_wants :: "(rel_path, want) bmap"
  fp_pending :: "(rel_path, pending) bmap"
  fp_held :: "(batch_id \<times> held_state, held_row) bmap"
  fp_deferred :: "(rel_path, deferred list) bmap"
  fp_rest :: rest

definition index_from_parts ::
    "node_id \<Rightarrow> host_name \<Rightarrow> (rel_path, index_record) bmap \<Rightarrow> (rel_path, pending) bmap \<Rightarrow> rest \<Rightarrow> index" where
  "index_from_parts own host records pending r =
     \<lparr>ix_own = own, ix_host = host, ix_records = records, ix_seq = rs_seq r,
      ix_peer_seq = rs_watermarks r, ix_pending = pending, ix_pending_changed = bm_empty,
      ix_announced_seq = rs_announced_seq r, ix_announced_tracked = rs_announced_tracked r\<rparr>"

definition folder_from_parts :: "folder_parts \<Rightarrow> node_id \<Rightarrow> host_name \<Rightarrow> folder" where
  "folder_from_parts parts own host =
     \<lparr>fo_id = fp_id parts, fo_rules = fp_rules parts, fo_members = fp_members parts,
      fo_index = index_from_parts own host (fp_records parts) (fp_pending parts) (fp_rest parts),
      fo_window = None, fo_scan = None, fo_wants = from_wants (bm_values (fp_wants parts)),
      fo_acked = rs_acked (fp_rest parts), fo_catchup = bm_empty,
      fo_deferred = ds_from_rows (fp_deferred parts),
      fo_winner_fallbacks = rs_winner_fallbacks (fp_rest parts),
      fo_quarantine = from_rows (fp_held parts) (rs_arrivals (fp_rest parts)),
      fo_paused = rs_paused (fp_rest parts), fo_queued = rs_queued (fp_rest parts),
      fo_startup_scan = False, fo_unobserved = bm_empty, fo_observing = bm_empty,
      fo_reported = bm_empty, fo_last_observed = bm_empty, fo_record_written = bm_empty,
      fo_disk_full = rs_disk_full (fp_rest parts), fo_statuses = []\<rparr>"

definition folder_rest :: "folder \<Rightarrow> rest" where
  "folder_rest f =
     \<lparr>rs_seq = ix_seq (fo_index f), rs_announced_seq = ix_announced_seq (fo_index f),
      rs_announced_tracked = ix_announced_tracked (fo_index f),
      rs_watermarks = ix_peer_seq (fo_index f), rs_acked = fo_acked f, rs_paused = fo_paused f,
      rs_queued = fo_queued f, rs_arrivals = q_arrivals (fo_quarantine f),
      rs_winner_fallbacks = fo_winner_fallbacks f, rs_disk_full = fo_disk_full f\<rparr>"

definition folder_parts_of :: "folder \<Rightarrow> folder_parts" where
  "folder_parts_of f =
     \<lparr>fp_id = fo_id f, fp_rules = fo_rules f, fp_members = fo_members f,
      fp_records = bm_of_list (map (\<lambda>r. (e_path (ir_entry r), r)) (bm_values (ix_records (fo_index f)))),
      fp_wants = bm_of_list (map (\<lambda>w. (w_path w, w)) (bm_values (wl_wants (fo_wants f)))),
      fp_pending = ix_pending (fo_index f), fp_held = q_rows (fo_quarantine f),
      fp_deferred = bm_of_list (ds_iter (fo_deferred f)), fp_rest = folder_rest f\<rparr>"

section \<open>Naming the first difference\<close>

text \<open>\<open>differs\<close>, and the chain of \<open>or_else\<close>. What a \<open>Changed\<close> log holds compares equal.\<close>

definition differs :: "string \<Rightarrow> bool \<Rightarrow> string option" where
  "differs name same = (if \<not> same then Some name else None)"

fun first_some :: "'a option list \<Rightarrow> 'a option" where
  "first_some [] = None"
| "first_some (x # xs) = (case x of Some y \<Rightarrow> Some y | None \<Rightarrow> first_some xs)"

definition ix_first_difference :: "index \<Rightarrow> index \<Rightarrow> string option" where
  "ix_first_difference a b =
     first_some
       [differs ''index.own'' (ix_own a = ix_own b),
        differs ''index.host'' (ix_host a = ix_host b),
        differs ''index.records'' (ix_records a = ix_records b),
        differs ''index.seq'' (ix_seq a = ix_seq b),
        differs ''index.peer_seq'' (ix_peer_seq a = ix_peer_seq b),
        differs ''index.pending'' (ix_pending a = ix_pending b),
        differs ''index.announced_seq'' (ix_announced_seq a = ix_announced_seq b),
        differs ''index.announced_tracked'' (ix_announced_tracked a = ix_announced_tracked b)]"

definition q_first_difference :: "quarantine \<Rightarrow> quarantine \<Rightarrow> string option" where
  "q_first_difference a b =
     first_some
       [differs ''quarantine.items'' (q_items a = q_items b),
        differs ''quarantine.versions'' (q_versions a = q_versions b),
        differs ''quarantine.denied'' (q_denied a = q_denied b),
        differs ''quarantine.arrivals'' (q_arrivals a = q_arrivals b)]"

text \<open>The derived equality of \<open>WantList\<close> and \<open>DeferredSet\<close>. A want-list's own log of changes is a
  list the derived equality does compare.\<close>

definition ds_same :: "deferred_set \<Rightarrow> deferred_set \<Rightarrow> bool" where
  "ds_same a b \<longleftrightarrow> ds_rows a = ds_rows b"

definition folder_first_difference :: "folder \<Rightarrow> folder \<Rightarrow> string option" where
  "folder_first_difference a b =
     first_some
       [differs ''id'' (fo_id a = fo_id b),
        differs ''rules'' (fo_rules a = fo_rules b),
        differs ''members'' (fo_members a = fo_members b),
        ix_first_difference (fo_index a) (fo_index b),
        differs ''window'' (fo_window a = fo_window b),
        differs ''scan'' (fo_scan a = fo_scan b),
        differs ''wants'' (fo_wants a = fo_wants b),
        differs ''acked'' (fo_acked a = fo_acked b),
        differs ''catchup'' (fo_catchup a = fo_catchup b),
        differs ''deferred'' (ds_same (fo_deferred a) (fo_deferred b)),
        differs ''winner_fallbacks'' (fo_winner_fallbacks a = fo_winner_fallbacks b),
        q_first_difference (fo_quarantine a) (fo_quarantine b),
        differs ''paused'' (fo_paused a = fo_paused b),
        differs ''queued'' (fo_queued a = fo_queued b),
        differs ''startup_scan'' (fo_startup_scan a = fo_startup_scan b),
        differs ''unobserved'' (fo_unobserved a = fo_unobserved b),
        differs ''observing'' (fo_observing a = fo_observing b),
        differs ''reported'' (fo_reported a = fo_reported b),
        differs ''last_observed'' (fo_last_observed a = fo_last_observed b),
        differs ''record_written'' (fo_record_written a = fo_record_written b),
        differs ''disk_full'' (fo_disk_full a = fo_disk_full b),
        differs ''statuses'' (fo_statuses a = fo_statuses b)]"

section \<open>Reading\<close>

definition take_statuses :: "folder \<Rightarrow> folder_status list \<times> folder" where
  "take_statuses f = (fo_statuses f, f\<lparr>fo_statuses := []\<rparr>)"

definition is_member :: "folder \<Rightarrow> node_id \<Rightarrow> bool" where
  "is_member f n = bm_has (fo_members f) n"

definition fo_due :: "folder \<Rightarrow> timestamp option" where
  "fo_due f =
     (case (map_option window_due (fo_window f), next_deadline (fo_wants f)) of
        (Some a, Some b) \<Rightarrow> Some (min a b)
      | (Some a, None) \<Rightarrow> Some a
      | (None, b) \<Rightarrow> b)"

definition is_due :: "folder \<Rightarrow> timestamp \<Rightarrow> bool" where
  "is_due f now = is_some_and (\<lambda>w. window_due w \<le> now) (fo_window f)"

definition wake_now :: "folder \<Rightarrow> bool" where
  "wake_now f \<longleftrightarrow> \<not> bm_is_empty (fo_catchup f)"

definition scan_open :: "folder \<Rightarrow> bool" where
  "scan_open f \<longleftrightarrow> fo_scan f \<noteq> None"

definition acked_by :: "folder \<Rightarrow> node_id \<Rightarrow> nat" where
  "acked_by f peer = (case bm_get (fo_acked f) peer of Some s \<Rightarrow> s | None \<Rightarrow> 0)"

definition fo_deferred_entries :: "folder \<Rightarrow> deferred list" where
  "fo_deferred_entries f = ds_entries (fo_deferred f)"

definition fo_pending_changes :: "folder \<Rightarrow> (rel_path \<times> pending option) list \<times> folder" where
  "fo_pending_changes f =
     (let (rows, ix) = pending_changes (fo_index f) in (rows, f\<lparr>fo_index := ix\<rparr>))"

definition fo_held_changes :: "folder \<Rightarrow> (batch_id \<times> held_state \<times> held_row option) list \<times> folder" where
  "fo_held_changes f =
     (let (rows, q) = drain_changes (fo_quarantine f) in (rows, f\<lparr>fo_quarantine := q\<rparr>))"

definition fo_deferred_changes :: "folder \<Rightarrow> (rel_path \<times> deferred list option) list \<times> folder" where
  "fo_deferred_changes f =
     (let (rows, ds) = ds_drain_changes (fo_deferred f) in (rows, f\<lparr>fo_deferred := ds\<rparr>))"

definition fo_want_changes :: "folder \<Rightarrow> (rel_path \<times> want option) list \<times> folder" where
  "fo_want_changes f =
     (let (rows, wl) = wl_drain_changes (fo_wants f) in (rows, f\<lparr>fo_wants := wl\<rparr>))"

definition fo_in_flight :: "folder \<Rightarrow> rel_path \<Rightarrow> bool" where
  "fo_in_flight f p = wl_in_flight (fo_wants f) p"

definition fo_touched :: "timestamp \<Rightarrow> folder \<Rightarrow> folder" where
  "fo_touched now f =
     f\<lparr>fo_window := Some (case fo_window f of
          None \<Rightarrow> \<lparr>wi_opened = now, wi_last = now\<rparr>
        | Some w \<Rightarrow> \<lparr>wi_opened = wi_opened w, wi_last = max (wi_last w) now\<rparr>)\<rparr>"

definition fo_expected :: "folder \<Rightarrow> rel_path \<Rightarrow> observed option" where
  "fo_expected f p = map_option (\<lambda>r. entry_observed (ir_entry r)) (ix_live (fo_index f) p)"

definition is_stale :: "folder \<Rightarrow> rel_path \<Rightarrow> timestamp \<Rightarrow> bool" where
  "is_stale f p at \<longleftrightarrow>
     is_some_and (\<lambda>t. at < t) (bm_get (fo_reported f) p) \<or>
     is_some_and (\<lambda>t. at < t) (bm_get (fo_last_observed f) p)"

definition fo_wrote :: "rel_path \<Rightarrow> timestamp \<Rightarrow> folder \<Rightarrow> folder" where
  "fo_wrote p now f = f\<lparr>fo_record_written := bm_insert p now (fo_record_written f)\<rparr>"

text \<open>The path carries the restoring mark, and the file \<open>revert\<close> trashed there.\<close>

definition fo_marked :: "folder \<Rightarrow> rel_path \<Rightarrow> bool" where
  "fo_marked f p \<longleftrightarrow>
     wl_restoring (fo_wants f) p \<or>
     is_some_and (list_ex (\<lambda>d. df_restoring d \<noteq> None)) (ds_get (fo_deferred f) p)"

definition trashed_at :: "folder \<Rightarrow> rel_path \<Rightarrow> observed option" where
  "trashed_at f p =
     (case Option.bind (opt_filter w_restoring (wl_get (fo_wants f) p)) w_trashed of
        Some t \<Rightarrow> Some t
      | None \<Rightarrow>
          Option.bind (Option.bind (ds_get (fo_deferred f) p) (find (\<lambda>d. df_restoring d \<noteq> None)))
            df_trashed)"

definition fo_others :: "folder \<Rightarrow> node_id bset" where
  "fo_others f = bm_filter (\<lambda>m _. m \<noteq> ix_own (fo_index f)) (fo_members f)"

definition fo_committing :: "folder \<Rightarrow> rel_path \<Rightarrow> bool" where
  "fo_committing f p \<longleftrightarrow>
     is_some_and w_committing (wl_get (fo_wants f) p) \<or> held_by_released (fo_wants f) p"

lemmas [eval_simps] =
  folder_new_def index_from_parts_def folder_from_parts_def folder_rest_def folder_parts_of_def
  differs_def ix_first_difference_def q_first_difference_def ds_same_def folder_first_difference_def
  take_statuses_def is_member_def fo_due_def is_due_def wake_now_def scan_open_def acked_by_def
  fo_deferred_entries_def fo_pending_changes_def fo_held_changes_def fo_deferred_changes_def
  fo_want_changes_def fo_in_flight_def fo_touched_def fo_expected_def is_stale_def fo_wrote_def
  fo_marked_def trashed_at_def fo_others_def fo_committing_def

end
