(* ===== verification/Admission.thy ===== *)
theory Admission
  imports Folders
begin

text \<open>
  How an entry reaches the want-list in \<open>crates/engine/src/folder.rs\<close>: accepting an item (\<open>want\<close>),
  admitting re-classified ones through the quarantine and the brake (\<open>admit\<close>), re-deriving a want and
  the deferred entries against the index as it stands, and the restoring mark.
\<close>

section \<open>Wanting an item\<close>

definition fo_want_as ::
    "apply_item \<Rightarrow> entry \<Rightarrow> batch_id \<Rightarrow> node_id \<Rightarrow> nat \<Rightarrow> observed option option \<Rightarrow> folder \<Rightarrow> folder" where
  "fo_want_as item received b source seq_high mark f =
     (let path = ai_path item;
          (item, others, trashed) = (case mark of
              Some trashed \<Rightarrow> (neither_holder item, Some (fo_others f), trashed)
            | None \<Rightarrow> (item, None, None));
          (refused, wl) = wl_insert item received b source seq_high others (fo_wants f);
          f = f\<lparr>fo_wants := wl\<rparr>
      in case refused of
           Some item \<Rightarrow>
             f\<lparr>fo_deferred := ds_push (ai_path item)
                \<lparr>df_entry = received, df_batch = b, df_source = source, df_seq_high = seq_high,
                 df_reason = ChangedUnderneath, df_restoring = None, df_trashed = None\<rparr> (fo_deferred f)\<rparr>
         | None \<Rightarrow> f\<lparr>fo_wants := remember_trashed path trashed (fo_wants f)\<rparr>)"

definition fo_want :: "apply_item \<Rightarrow> entry \<Rightarrow> batch_id \<Rightarrow> node_id \<Rightarrow> nat \<Rightarrow> folder \<Rightarrow> folder" where
  "fo_want item received b source seq_high f =
     fo_want_as item received b source seq_high
       (if fo_marked f (ai_path item) then Some (trashed_at f (ai_path item)) else None) f"

section \<open>Admitting re-classified items\<close>

text \<open>An item whose version this machine already wants, or has superseded in its want-list.\<close>

definition already_wanted :: "folder \<Rightarrow> apply_item \<Rightarrow> bool" where
  "already_wanted f item \<longleftrightarrow>
     is_some_and (\<lambda>w. \<not> is_trash w \<and>
         (e_version (ai_entry item) = w_version w \<or> dominates (w_version w) (e_version (ai_entry item))))
       (wl_get (fo_wants f) (ai_path item))"

type_synonym groups = "(batch_id \<times> node_id \<times> nat, (apply_item \<times> entry) list) bmap"

definition count_up :: "batch_id \<Rightarrow> (batch_id, nat) bmap \<Rightarrow> (batch_id, nat) bmap" where
  "count_up b m = bm_insert b ((case bm_get m b of Some n \<Rightarrow> n | None \<Rightarrow> 0) + 1) m"

definition admit_one ::
    "bool \<Rightarrow> groups \<times> (batch_id, nat) bmap \<times> folder \<Rightarrow> candidate \<Rightarrow>
     groups \<times> (batch_id, nat) bmap \<times> folder" where
  "admit_one brake st c =
     (let (groups, joined, f) = st; q = fo_quarantine f in
      if already_wanted f (cd_item c)
      then (groups, joined, f\<lparr>fo_wants := note_announced (ai_path (cd_item c))
              (e_hash (ai_entry (cd_item c))) (cd_source c) (fo_wants f)\<rparr>)
      else case q_matching q (cd_raw c) of
          Some b \<Rightarrow> (groups, count_up b joined, f\<lparr>fo_quarantine := snd (q_join b (cd_raw c) q)\<rparr>)
        | None \<Rightarrow>
            if brake \<and> bm_has (q_items q) (cd_batch c)
            then (groups, count_up (cd_batch c) joined,
                  f\<lparr>fo_quarantine := snd (q_join (cd_batch c) (cd_raw c) q)\<rparr>)
            else
              let key = (cd_batch c, cd_source c, cd_seq_high c)
              in (bm_insert key ((case bm_get groups key of Some l \<Rightarrow> l | None \<Rightarrow> []) @ [(cd_item c, cd_raw c)])
                    groups, joined, f))"

definition want_all ::
    "batch_id \<Rightarrow> node_id \<Rightarrow> nat \<Rightarrow> (rel_path, entry) bmap \<Rightarrow> apply_item list \<Rightarrow> folder \<Rightarrow> folder" where
  "want_all b source seq_high raws items f =
     snd (foldl (\<lambda>(raws, f) item.
         let received = (case bm_get raws (ai_path item) of Some e \<Rightarrow> e | None \<Rightarrow> ai_entry item)
         in (bm_remove (ai_path item) raws, fo_want item received b source seq_high f)) (raws, f) items)"

definition push_status :: "folder_status \<Rightarrow> folder \<Rightarrow> folder" where
  "push_status st f = f\<lparr>fo_statuses := fo_statuses f @ [st]\<rparr>"

definition admit_group ::
    "timestamp \<Rightarrow> bool \<Rightarrow> folder \<Rightarrow> (batch_id \<times> node_id \<times> nat) \<times> (apply_item \<times> entry) list \<Rightarrow> folder" where
  "admit_group now brake f grp =
     (let ((b, source, seq_high), pairs) = grp;
          pairs = sort_key (\<lambda>(item, _). ai_path item) pairs;
          raws = bm_of_list (map (\<lambda>(item, raw). (ai_path item, raw)) pairs);
          aset = \<lparr>as_folder = fo_id f, as_batch = b, as_source = source, as_seq_high = seq_high,
                  as_items = map fst pairs, as_ignored = 0, as_duplicates = 0, as_fallbacks = 0\<rparr>;
          summary = receiver_summary (fo_index f) aset;
          verdict = (if brake then evaluate (fo_rules f) summary (tracked_count (fo_index f)) else Pass)
      in case verdict of
           Hold reason \<Rightarrow>
             let paths = length (as_items aset) in
             if bm_has (q_items (fo_quarantine f)) b
             then push_status (StJoinedHeld b paths)
               (f\<lparr>fo_quarantine := foldl (\<lambda>q raw. snd (q_join b raw q)) (fo_quarantine f) (bm_values raws)\<rparr>)
             else push_status (StHeld b source reason summary paths)
               (f\<lparr>fo_quarantine := q_hold
                  \<lparr>hi_batch = b, hi_source = source, hi_seq_high = seq_high, hi_held_at = now,
                   hi_reason = reason, hi_entries = raws\<rparr> (fo_quarantine f)\<rparr>)
         | Pass \<Rightarrow> want_all b source seq_high raws (as_items aset) f)"

definition admit :: "timestamp \<Rightarrow> candidate list \<Rightarrow> bool \<Rightarrow> folder \<Rightarrow> folder" where
  "admit now candidates brake f =
     (let (groups, joined, f) = foldl (admit_one brake) (bm_empty, bm_empty, f) candidates;
          f = foldl (\<lambda>f (b, count). push_status (StJoinedHeld b count) f) f (bm_entries joined)
      in foldl (admit_group now brake) f (bm_entries groups))"

section \<open>Classifying again\<close>

definition count_fallback :: "classified \<Rightarrow> folder \<Rightarrow> folder" where
  "count_fallback c f =
     (if cl_fallback c then f\<lparr>fo_winner_fallbacks := fo_winner_fallbacks f + 1\<rparr> else f)"

definition classify_deferred :: "deferred list \<Rightarrow> folder \<Rightarrow> candidate list \<times> folder" where
  "classify_deferred ds f =
     foldl (\<lambda>(out, f) d.
         let c = classify (fo_index f) (df_entry d); f = count_fallback c f
         in case cl_item c of
              Some item \<Rightarrow>
                (out @ [\<lparr>cd_item = item, cd_raw = df_entry d, cd_batch = df_batch d,
                         cd_source = df_source d, cd_seq_high = df_seq_high d\<rparr>], f)
            | None \<Rightarrow> (out, f)) ([], f) ds"

definition reconsider :: "timestamp \<Rightarrow> rel_path \<Rightarrow> deferred_reason \<Rightarrow> folder \<Rightarrow> folder" where
  "reconsider now path reason f =
     (if is_some_and is_trash (wl_get (fo_wants f) path) then f
      else
        let (taken, ds) = ds_take_where path (\<lambda>d. df_reason d = reason) (fo_deferred f);
            f = f\<lparr>fo_deferred := ds\<rparr>
        in if taken = [] then f
           else
             let (candidates, f) = classify_deferred taken f
             in admit now candidates True f)"

definition rederive :: "timestamp \<Rightarrow> want \<Rightarrow> folder \<Rightarrow> folder" where
  "rederive now old f =
     (if is_trash old then f
      else
        let path = w_path old;
            replaces = (wl_get (fo_wants f) path = None);
            c = classify (fo_index f) (w_received old);
            f = count_fallback c f
        in case cl_item c of
             None \<Rightarrow> f
           | Some item \<Rightarrow>
               let f = admit now
                     [\<lparr>cd_item = item, cd_raw = w_received old, cd_batch = w_batch old,
                       cd_source = w_source old, cd_seq_high = w_seq_high old\<rparr>] True f;
                   f = f\<lparr>fo_wants := foldl (\<lambda>wl src. note_announced path (e_hash (w_entry old)) src wl)
                        (fo_wants f) (bm_keys (w_sources old))\<rparr>
               in if replaces
                  then f\<lparr>fo_wants := keep_refusals path (e_hash (w_entry old)) (w_refused old) (fo_wants f)\<rparr>
                  else f)"

definition reclassify_want :: "timestamp \<Rightarrow> rel_path \<Rightarrow> folder \<Rightarrow> folder" where
  "reclassify_want now path f =
     (case wl_take path (fo_wants f) of
        (None, wl) \<Rightarrow> f\<lparr>fo_wants := wl\<rparr>
      | (Some old, wl) \<Rightarrow> rederive now old (f\<lparr>fo_wants := wl\<rparr>))"

definition unfreeze :: "timestamp \<Rightarrow> folder \<Rightarrow> folder" where
  "unfreeze now f =
     (let paths = ds_paths (fo_deferred f);
          (frozen, ds) = foldl (\<lambda>(frozen, ds) path.
              let (taken, ds) = ds_take_where path (\<lambda>d. df_reason d = Frozen) ds in (frozen @ taken, ds))
            ([], fo_deferred f) paths;
          (candidates, f) = classify_deferred frozen (f\<lparr>fo_deferred := ds\<rparr>)
      in admit now candidates True f)"

section \<open>The restoring mark\<close>

definition clear_carriers :: "rel_path \<Rightarrow> folder \<Rightarrow> folder" where
  "clear_carriers path f = f\<lparr>fo_deferred := ds_clear_restoring path (fo_deferred f)\<rparr>"

definition unmark :: "rel_path \<Rightarrow> folder \<Rightarrow> want option \<times> folder" where
  "unmark path f =
     (let f = clear_carriers path f in
      if wl_restoring (fo_wants f) path
      then let (w, wl) = wl_take path (fo_wants f) in (w, f\<lparr>fo_wants := wl\<rparr>)
      else (None, f))"

definition land :: "timestamp \<Rightarrow> rel_path \<Rightarrow> observed \<Rightarrow> folder \<Rightarrow> index_record option \<times> folder" where
  "land now path occupant f =
     (case ix_live (fo_index f) path of
        None \<Rightarrow> (None, f)
      | Some r \<Rightarrow>
          let wanted = (case opt_filter w_restoring (wl_get (fo_wants f) path) of
                  Some w \<Rightarrow> [w_entry w] | None \<Rightarrow> []);
              carried = List.map_filter df_restoring
                (case ds_get (fo_deferred f) path of Some l \<Rightarrow> l | None \<Rightarrow> [])
          in case find (\<lambda>e. \<not> e_deleted e \<and> dominates_or_equals (e_version e) (e_version (ir_entry r)) \<and>
                    normalised (entry_observed e) = occupant) (wanted @ carried) of
               None \<Rightarrow> (None, f)
             | Some landed \<Rightarrow>
                 let (old, f) = unmark path f;
                     (adopted, ix) = adopt landed (fo_index f);
                     f = f\<lparr>fo_index := ix\<rparr>
                 in case adopted of
                      None \<Rightarrow> (None, f)
                    | Some record \<Rightarrow>
                        let f = fo_touched now f;
                            f = (case old of Some w \<Rightarrow> rederive now w f | None \<Rightarrow> f)
                        in (Some record, f))"

definition rewant_carriers :: "rel_path \<Rightarrow> folder \<Rightarrow> folder" where
  "rewant_carriers path f =
     (if is_some_and is_trash (wl_get (fo_wants f) path) then f
      else
        let (carriers, ds) = ds_take_where path (\<lambda>d. df_restoring d \<noteq> None) (fo_deferred f)
        in foldl (\<lambda>f d. case df_restoring d of
               None \<Rightarrow> f
             | Some e \<Rightarrow>
                 fo_want_as \<lparr>ai_entry = e, ai_mode = Fetch, ai_conflict = None\<rparr> (df_entry d) (df_batch d)
                   (df_source d) (df_seq_high d) (Some (df_trashed d)) f)
             (f\<lparr>fo_deferred := ds\<rparr>) carriers)"

lemmas [eval_simps] =
  fo_want_as_def fo_want_def already_wanted_def count_up_def admit_one_def want_all_def
  push_status_def admit_group_def admit_def count_fallback_def classify_deferred_def reconsider_def
  rederive_def reclassify_want_def unfreeze_def clear_carriers_def unmark_def land_def
  rewant_carriers_def

end
