(* ===== verification/Observing.thy ===== *)
theory Observing
  imports Admission
begin

text \<open>
  Observations and scan brackets of \<open>crates/engine/src/folder.rs\<close>: what one report of a path does
  (\<open>take_one\<close>), the ancestors it implies, and the end of a full scan.
\<close>

section \<open>One observation\<close>

definition dir_observed :: observed where
  "dir_observed = \<lparr>ob_kind = Dir, ob_size = 0, ob_mtime = 0, ob_exec = False, ob_hash = EMPTY\<rparr>"

text \<open>What \<open>seen_as\<close> says of an \<open>Observed\<close> report; nothing of any other.\<close>

definition seen_as :: "(observed \<Rightarrow> bool) \<Rightarrow> scan_state \<Rightarrow> bool" where
  "seen_as P s = (case s of Observed ob \<Rightarrow> P ob | _ \<Rightarrow> False)"

text \<open>The end of \<open>take_one\<close>, once the report counts: the occupant of a marked path, the index write,
  the want at the path, and the entries deferred there.\<close>

definition take_write ::
    "timestamp \<Rightarrow> rel_path \<Rightarrow> scan_state \<Rightarrow> observer \<Rightarrow> bool \<Rightarrow> folder \<Rightarrow> scanned \<times> folder" where
  "take_write now path state observer marked f =
     (let (unmarked, f) = (if marked then unmark path f else (None, f));
          (change, ix) = (case state of
              Observed ob \<Rightarrow> observe path ob (fo_index f)
            | Absent \<Rightarrow> observe_absent path now (fo_index f)
            | _ \<Rightarrow> (None, fo_index f));
          f = f\<lparr>fo_index := ix\<rparr>;
          f = (if change \<noteq> None then fo_touched now f else f);
          f = (case unmarked of
              Some old \<Rightarrow> rederive now old f
            | None \<Rightarrow> if change \<noteq> None then reclassify_want now path f else f);
          f = (if observer = Scan then f\<lparr>fo_wants := wl_observed path (fo_wants f)\<rparr> else f)
      in (scanned_default\<lparr>sc_change := change\<rparr>, reconsider now path ChangedUnderneath f))"

definition take_settled ::
    "timestamp \<Rightarrow> rel_path \<Rightarrow> scan_state \<Rightarrow> observer \<Rightarrow> bool \<Rightarrow> folder \<Rightarrow> scanned \<times> folder" where
  "take_settled now path state observer marked f =
     (if seen_as (\<lambda>ob. is_some_and (\<lambda>w. is_trash w \<and> unchanged_by_stat (w_entry w) ob)
            (wl_get (fo_wants f) path)) state
      then (scanned_default, f)
      else if seen_as (\<lambda>ob. is_some_and (\<lambda>expected. as_the_reset_expects expected ob)
            (Option.bind (wl_get (fo_wants f) path) w_reset)) state
      then (scanned_default, f)
      else if state = Unchanged \<and> ix_live (fo_index f) path = None
      then (scanned_default\<lparr>sc_status := Some (StUnchangedUnknownPath path)\<rparr>, f)
      else
        let occupant = (if marked then (case state of
                Observed ob \<Rightarrow> Some (normalised ob)
              | Unchanged \<Rightarrow> map_option (\<lambda>r. entry_observed (ir_entry r)) (ix_live (fo_index f) path)
              | _ \<Rightarrow> None) else None);
            (landed, f) = (case occupant of Some ob \<Rightarrow> land now path ob f | None \<Rightarrow> (None, f))
        in case landed of
             Some record \<Rightarrow>
               (scanned_default\<lparr>sc_landed := Some record\<rparr>, reconsider now path ChangedUnderneath f)
           | None \<Rightarrow> take_write now path state observer marked f)"

definition take_one ::
    "timestamp \<Rightarrow> timestamp \<Rightarrow> rel_path \<Rightarrow> scan_state \<Rightarrow> observer \<Rightarrow> folder \<Rightarrow> scanned \<times> folder" where
  "take_one now at path state observer f =
     (let f = f\<lparr>fo_scan := map_option (br_report path state) (fo_scan f)\<rparr> in
      case state of Skipped _ \<Rightarrow> (scanned_default, f)
      | _ \<Rightarrow>
        let f = f\<lparr>fo_observing := bm_remove path (fo_observing f)\<rparr> in
        if is_stale f path at then (scanned_default, f)
        else if state = Unchanged \<and> is_some_and (\<lambda>written. at < written) (bm_get (fo_record_written f) path)
        then (scanned_default, f)
        else
          let latest = (case bm_get (fo_last_observed f) path of Some t \<Rightarrow> t | None \<Rightarrow> at);
              f = f\<lparr>fo_last_observed := bm_insert path (max latest at) (fo_last_observed f)\<rparr>;
              marked = fo_marked f path
          in if state = Absent \<and> marked
             then (scanned_default, f\<lparr>fo_unobserved := bm_remove path (fo_unobserved f)\<rparr>)
             else if marked \<and> observer = Scan \<and>
               seen_as (\<lambda>ob. is_some_and (\<lambda>t. ob_unchanged_by_stat t ob) (trashed_at f path)) state
             then (scanned_default, f)
             else
               let moving = is_some_and (\<lambda>w. is_trash w \<and> w_in_flight w) (wl_get (fo_wants f) path)
               in if wl_in_flight (fo_wants f) path \<and> (\<not> marked \<or> moving)
                  then (scanned_default, f\<lparr>fo_unobserved := bs_insert path (fo_unobserved f)\<rparr>)
                  else take_settled now path state observer marked
                    (f\<lparr>fo_unobserved := bm_remove path (fo_unobserved f)\<rparr>))"

section \<open>With the ancestors it implies\<close>

definition take_ancestor ::
    "timestamp \<Rightarrow> timestamp \<Rightarrow> observer \<Rightarrow> index_record list \<times> folder \<Rightarrow> rel_path \<Rightarrow> index_record list \<times> folder" where
  "take_ancestor now at observer st dir =
     (let (ancestors, f) = st in
      if is_some_and (\<lambda>r. e_kind (ir_entry r) = Dir) (ix_live (fo_index f) dir) then (ancestors, f)
      else
        let (implied, f) = take_one now at dir (Observed dir_observed) observer f
        in (ancestors @ (case sc_change implied of Some c \<Rightarrow> [lc_record c] | None \<Rightarrow> [])
              @ (case sc_landed implied of Some r \<Rightarrow> [r] | None \<Rightarrow> []), f))"

definition take_observation ::
    "timestamp \<Rightarrow> timestamp \<Rightarrow> rel_path \<Rightarrow> scan_state \<Rightarrow> observer \<Rightarrow> folder \<Rightarrow> scanned \<times> folder" where
  "take_observation now at path state observer f =
     (let present = (case state of Observed _ \<Rightarrow> True | Unchanged \<Rightarrow> True | _ \<Rightarrow> False);
          f = (if present
               then f\<lparr>fo_scan := map_option (\<lambda>b. b\<lparr>br_seen :=
                      foldl (\<lambda>s dir. bs_insert dir s) (br_seen b) (path_above path)\<rparr>) (fo_scan f)\<rparr>
               else f);
          (ancestors, f) = (if present
               then foldl (take_ancestor now at observer) ([], f) (rev (path_above path)) else ([], f));
          (scanned, f) = take_one now at path state observer f
      in (scanned\<lparr>sc_ancestors := ancestors\<rparr>, f))"

definition fo_observed_at ::
    "timestamp \<Rightarrow> timestamp \<Rightarrow> rel_path \<Rightarrow> scan_state \<Rightarrow> folder \<Rightarrow> scanned \<times> folder" where
  "fo_observed_at now at path state f = take_observation now at path state Scan f"

definition fo_scanned :: "timestamp \<Rightarrow> rel_path \<Rightarrow> scan_state \<Rightarrow> folder \<Rightarrow> scanned \<times> folder" where
  "fo_scanned now path state f = take_observation now now path state Scan f"

section \<open>The scan bracket\<close>

definition scan_started :: "folder \<Rightarrow> folder" where
  "scan_started f = f\<lparr>fo_scan := Some bracket_default\<rparr>"

text \<open>The paths a bracket's end takes for gone, and the deferred ones it has observed absent.\<close>

definition scan_gone :: "bracket \<Rightarrow> folder \<Rightarrow> rel_path list" where
  "scan_gone b f =
     filter (\<lambda>p. \<not> br_saw b p \<and> \<not> wl_in_flight (fo_wants f) p \<and> \<not> fo_marked f p)
       (map (\<lambda>r. e_path (ir_entry r)) (live_records (fo_index f)))"

definition scan_unseen :: "bracket \<Rightarrow> folder \<Rightarrow> rel_path list" where
  "scan_unseen b f =
     filter (\<lambda>p. \<not> br_saw b p \<and> ix_live (fo_index f) p = None \<and> \<not> wl_in_flight (fo_wants f) p)
       (ds_paths (fo_deferred f))"

definition scan_carried :: "bracket \<Rightarrow> folder \<Rightarrow> rel_path list" where
  "scan_carried b f =
     map fst (filter (\<lambda>(p, l). \<not> br_saw b p \<and> \<not> wl_in_flight (fo_wants f) p \<and>
         list_ex (\<lambda>d. df_restoring d \<noteq> None) l) (ds_iter (fo_deferred f)))"

definition tombstone_gone ::
    "timestamp \<Rightarrow> local_change list \<times> folder \<Rightarrow> rel_path \<Rightarrow> local_change list \<times> folder" where
  "tombstone_gone now st path =
     (let (changes, f) = st;
          (change, ix) = observe_absent path now (fo_index f);
          f = f\<lparr>fo_index := ix\<rparr>;
          (changes, f) = (case change of
              Some c \<Rightarrow> (changes @ [c], reclassify_want now path f) | None \<Rightarrow> (changes, f))
      in (changes, reconsider now path ChangedUnderneath f))"

definition scan_finished :: "timestamp \<Rightarrow> folder \<Rightarrow> (folder_status + local_change list) \<times> folder" where
  "scan_finished now f =
     (case fo_scan f of
        None \<Rightarrow> (Inl StScanNotOpen, f)
      | Some b \<Rightarrow>
          let f = f\<lparr>fo_scan := None\<rparr>;
              (changes, f) = foldl (tombstone_gone now) ([], f) (scan_gone b f);
              f = foldl (\<lambda>f path. reconsider now path ChangedUnderneath f) f (scan_unseen b f);
              f = foldl (\<lambda>f path. rewant_carriers path f) f (scan_carried b f);
              f = (if changes \<noteq> [] then fo_touched now f else f)
          in (Inr changes, f\<lparr>fo_startup_scan := False\<rparr>))"

definition scan_aborted :: "folder \<Rightarrow> folder_status option \<times> folder" where
  "scan_aborted f =
     (if fo_scan f = None then (Some StScanNotOpen, f) else (None, f\<lparr>fo_scan := None\<rparr>))"

lemmas [eval_simps] =
  dir_observed_def seen_as_def take_write_def take_settled_def take_one_def take_ancestor_def
  take_observation_def fo_observed_at_def fo_scanned_def scan_started_def scan_gone_def
  scan_unseen_def scan_carried_def tombstone_gone_def scan_finished_def scan_aborted_def

end
