(* ===== verification/Deciding.thy ===== *)
theory Deciding
  imports Observing
begin

text \<open>
  Sending, receiving and the user's decisions in \<open>crates/engine/src/folder.rs\<close>: the batch window with
  the sender pre-check, catch-up, \<open>receive\<close>, \<open>approve\<close>, the queue of \<open>deny\<close> and \<open>revert\<close> with what
  each waits for, and the two themselves.
\<close>

section \<open>Sending\<close>

definition precheck :: "folder \<Rightarrow> summary \<times> verdict" where
  "precheck f =
     (let summary = foldl (\<lambda>s (record, k). case k of
              Some k \<Rightarrow> summary_count (ir_entry record) k s | None \<Rightarrow> s)
            summary_default (unannounced (fo_index f))
      in (summary, evaluate (fo_rules f) summary (ix_announced_tracked (fo_index f))))"

definition form_now :: "timestamp \<Rightarrow> batch_id \<Rightarrow> folder \<Rightarrow> batch list" where
  "form_now now base f =
     form base (fo_id f) (ix_own (fo_index f)) now (unannounced (fo_index f)) (ix_announced_seq (fo_index f))"

definition form_batches :: "timestamp \<Rightarrow> batch_id \<Rightarrow> folder \<Rightarrow> batch list \<times> folder" where
  "form_batches now base f =
     (form_now now base f,
      f\<lparr>fo_index := mark_announced (fo_index f), fo_quarantine := forget_denied (fo_quarantine f),
        fo_window := None\<rparr>)"

definition recheck_paused :: "summary \<Rightarrow> verdict \<Rightarrow> paused \<Rightarrow> paused" where
  "recheck_paused summary verdict p = p\<lparr>pz_would_pass := \<not> is_hold verdict, pz_summary := summary\<rparr>"

definition fo_tick :: "timestamp \<Rightarrow> batch_id \<Rightarrow> folder \<Rightarrow> ticked \<times> folder" where
  "fo_tick now base f =
     (if \<not> is_due f now then (TkNothing, f)
      else
        let (summary, verdict) = precheck f; f = f\<lparr>fo_window := None\<rparr>
        in case fo_paused f of
             Some p \<Rightarrow>
               let p = recheck_paused summary verdict p
               in (TkPaused False [] (StPausedRecheck (pz_batch p) (pz_would_pass p) summary),
                   f\<lparr>fo_paused := Some p\<rparr>)
           | None \<Rightarrow>
               (case verdict of
                  Pass \<Rightarrow>
                    let (batches, f) = form_batches now base f
                    in (if batches = [] then TkNothing else TkSent batches, f)
                | Hold reason \<Rightarrow>
                    (TkPaused True (form_now now base f) (StPaused base reason summary),
                     f\<lparr>fo_paused := Some \<lparr>pz_batch = base, pz_since = now, pz_reason = reason,
                         pz_summary = summary, pz_would_pass = False\<rparr>\<rparr>)))"

definition fo_expire :: "timestamp \<Rightarrow> folder \<Rightarrow> expired \<times> folder" where
  "fo_expire now f = (let (ex, wl) = expire now (fo_wants f) in (ex, f\<lparr>fo_wants := wl\<rparr>))"

definition have_up_to :: "node_id \<Rightarrow> nat \<Rightarrow> folder \<Rightarrow> folder" where
  "have_up_to peer s f =
     f\<lparr>fo_acked := bm_insert peer s (fo_acked f), fo_catchup := bs_insert peer (fo_catchup f)\<rparr>"

definition catchup_batches ::
    "timestamp \<Rightarrow> batch_id \<Rightarrow> folder \<Rightarrow> ((node_id \<times> batch list) list \<times> nat) \<times> folder" where
  "catchup_batches now base f =
     (foldl (\<lambda>(out, used) peer.
         let after = acked_by f peer;
             records = map (\<lambda>r. (r, None)) (announced_since (fo_index f) after);
             batches = form (batch_successor base used) (fo_id f) (ix_own (fo_index f)) now records after
         in (if batches \<noteq> [] then out @ [(peer, batches)] else out, used + length batches))
       ([], 0) (bm_keys (fo_catchup f)),
      f\<lparr>fo_catchup := bm_empty\<rparr>)"

definition acknowledged :: "node_id \<Rightarrow> nat \<Rightarrow> folder \<Rightarrow> folder" where
  "acknowledged peer mark f =
     (let f = f\<lparr>fo_acked := bm_insert peer mark (fo_acked f)\<rparr>
      in if mark < ix_announced_seq (fo_index f)
         then f\<lparr>fo_catchup := bs_insert peer (fo_catchup f)\<rparr> else f)"

definition fo_peer_gone :: "node_id \<Rightarrow> folder \<Rightarrow> folder" where
  "fo_peer_gone peer f = f\<lparr>fo_wants := peer_gone peer (fo_wants f)\<rparr>"

definition fo_peer_connected :: "node_id \<Rightarrow> folder \<Rightarrow> folder" where
  "fo_peer_connected peer f = f\<lparr>fo_wants := reconnected peer (fo_wants f)\<rparr>"

section \<open>Receiving\<close>

text \<open>The counters of \<open>receive\<close>: items kept, joined, frozen and already wanted.\<close>

record sorting =
  so_kept :: "apply_item list"
  so_joined :: nat
  so_frozen :: nat
  so_already :: nat

definition receive_one ::
    "batch \<Rightarrow> (rel_path, entry) bmap \<Rightarrow> sorting \<times> folder \<Rightarrow> apply_item \<Rightarrow> sorting \<times> folder" where
  "receive_one b raw st item =
     (let (so, f) = st in
      case bm_get raw (ai_path item) of
        None \<Rightarrow> (so\<lparr>so_kept := so_kept so @ [item]\<rparr>, f)
      | Some incoming \<Rightarrow>
          if already_wanted f item then (so\<lparr>so_already := so_already so + 1\<rparr>, f)
          else case q_matching (fo_quarantine f) incoming of
              Some hb \<Rightarrow>
                (so\<lparr>so_joined := so_joined so + 1\<rparr>,
                 f\<lparr>fo_quarantine := snd (q_join hb incoming (fo_quarantine f))\<rparr>)
            | None \<Rightarrow>
                if fo_paused f \<noteq> None \<and> is_pending (fo_index f) (ai_path item)
                then (so\<lparr>so_frozen := so_frozen so + 1\<rparr>,
                      f\<lparr>fo_deferred := ds_push (ai_path item)
                         \<lparr>df_entry = incoming, df_batch = bt_id b, df_source = bt_source b,
                          df_seq_high = bt_seq_high b, df_reason = Frozen, df_restoring = None,
                          df_trashed = None\<rparr> (fo_deferred f)\<rparr>)
                else (so\<lparr>so_kept := so_kept so @ [item]\<rparr>, f))"

definition sorting_start :: sorting where
  "sorting_start = \<lparr>so_kept = [], so_joined = 0, so_frozen = 0, so_already = 0\<rparr>"

definition fo_receive :: "timestamp \<Rightarrow> batch \<Rightarrow> folder \<Rightarrow> receipt \<times> folder" where
  "fo_receive now b f =
     (let f = f\<lparr>fo_index := received_range (bt_source b) (bt_seq_low b) (bt_seq_high b) (fo_index f)\<rparr>;
          aset = compute_apply_set (fo_index f) b;
          f = f\<lparr>fo_winner_fallbacks := fo_winner_fallbacks f + as_fallbacks aset\<rparr>;
          raw = bm_of_list (map (\<lambda>e. (e_path e, e)) (bt_entries b));
          f = f\<lparr>fo_wants := foldl (\<lambda>wl (path, e). note_announced path (e_hash e) (bt_source b) wl)
                 (fo_wants f) (bm_entries raw)\<rparr>;
          (so, f) = foldl (receive_one b raw) (sorting_start, f) (as_items aset);
          aset = aset\<lparr>as_items := so_kept so\<rparr>;
          summary = receiver_summary (fo_index f) aset;
          receipt = (\<lambda>decision reason.
            \<lparr>re_set = aset, re_decision = decision, re_summary = summary, re_joined = so_joined so,
             re_frozen = so_frozen so, re_already_wanted = so_already so, re_held = reason\<rparr>)
      in case evaluate (fo_rules f) summary (tracked_count (fo_index f)) of
           Hold reason \<Rightarrow>
             (receipt (Held (hold_reason_display reason)) (Some reason),
              f\<lparr>fo_quarantine := q_hold
                 \<lparr>hi_batch = bt_id b, hi_source = bt_source b, hi_seq_high = bt_seq_high b,
                  hi_held_at = now, hi_reason = reason,
                  hi_entries = bm_of_list (List.map_filter (\<lambda>item.
                    map_option (\<lambda>e. (ai_path item, e)) (bm_get raw (ai_path item))) (as_items aset))\<rparr>
                 (fo_quarantine f)\<rparr>)
         | Pass \<Rightarrow>
             (receipt Accepted None,
              foldl (\<lambda>f item.
                  fo_want item (case bm_get raw (ai_path item) of Some e \<Rightarrow> e | None \<Rightarrow> ai_entry item)
                    (bt_id b) (bt_source b) (bt_seq_high b) f) f (as_items aset)))"

section \<open>Approving\<close>

definition approve_items :: "held_item \<Rightarrow> folder \<Rightarrow> apply_item list \<times> nat \<times> folder" where
  "approve_items item f =
     foldl (\<lambda>(items, fallbacks, f) e.
         let c = classify (fo_index f) e
         in (items @ (case cl_item c of Some it \<Rightarrow> [it] | None \<Rightarrow> []),
             if cl_fallback c then Suc fallbacks else fallbacks, count_fallback c f))
       ([], 0, f) (bm_values (hi_entries item))"

definition fo_approve :: "timestamp \<Rightarrow> batch_id \<Rightarrow> folder \<Rightarrow> approved \<times> folder" where
  "fo_approve now b f =
     (case q_release b (fo_quarantine f) of
        (Some item, q) \<Rightarrow>
          let (items, fallbacks, f) = approve_items item (f\<lparr>fo_quarantine := q\<rparr>);
              items = sort_key ai_path items
          in if items = [] then (ApReleased None, f)
             else
               let aset = \<lparr>as_folder = fo_id f, as_batch = hi_batch item, as_source = hi_source item,
                      as_seq_high = hi_seq_high item, as_items = items, as_ignored = 0,
                      as_duplicates = 0, as_fallbacks = fallbacks\<rparr>;
                   candidates = map (\<lambda>it.
                      \<lparr>cd_item = it,
                       cd_raw = (case bm_get (hi_entries item) (ai_path it) of
                           Some e \<Rightarrow> e | None \<Rightarrow> ai_entry it),
                       cd_batch = hi_batch item, cd_source = hi_source item,
                       cd_seq_high = hi_seq_high item\<rparr>) items
               in (ApReleased (Some aset), admit now candidates False f)
      | (None, q) \<Rightarrow>
          (case fo_paused f of
             Some p \<Rightarrow>
               if pz_batch p = b
               then let (batches, f) = form_batches now b f
                    in (ApSent batches, unfreeze now (f\<lparr>fo_paused := None\<rparr>))
               else (ApUnknown, f)
           | None \<Rightarrow> (ApUnknown, f)))"

section \<open>Decisions that wait\<close>

definition decision_exists :: "folder \<Rightarrow> user_decision \<Rightarrow> bool" where
  "decision_exists f d =
     (case d of
        UDeny b \<Rightarrow> bm_has (q_items (fo_quarantine f)) b
      | URevert b \<Rightarrow> is_some_and (\<lambda>p. pz_batch p = b) (fo_paused f))"

text \<open>\<open>find_map\<close>.\<close>

fun find_map :: "('a \<Rightarrow> 'b option) \<Rightarrow> 'a list \<Rightarrow> 'b option" where
  "find_map g [] = None"
| "find_map g (x # xs) = (case g x of Some y \<Rightarrow> Some y | None \<Rightarrow> find_map g xs)"

definition released_paths :: "want_list \<Rightarrow> rel_path list" where
  "released_paths wl = bm_keys (wl_released wl)"

definition unsettled :: "folder \<Rightarrow> user_decision \<Rightarrow> wait_reason option" where
  "unsettled f d =
     (case d of
        UDeny b \<Rightarrow>
          (case fo_paused f of
             Some p \<Rightarrow> Some (WrPaused (pz_batch p))
           | None \<Rightarrow>
               if fo_scan f \<noteq> None then Some WrScanOpen
               else case bm_get (q_items (fo_quarantine f)) b of
                   None \<Rightarrow> None
                 | Some item \<Rightarrow>
                     find_map (\<lambda>p. if fo_marked f p then Some (WrRestoring p)
                         else if fo_committing f p then Some (WrCommitting p) else None)
                       (bm_keys (hi_entries item)))
      | URevert _ \<Rightarrow>
          if fo_startup_scan f then Some WrStartupScan
          else if fo_scan f \<noteq> None then Some WrScanOpen
          else case map w_path (filter w_committing (bm_values (wl_wants (fo_wants f)))) @
                 released_paths (fo_wants f) of
              p # _ \<Rightarrow> Some (WrCommitting p)
            | [] \<Rightarrow> map_option WrUnobserved
                (find (\<lambda>p. is_pending (fo_index f) p) (bm_keys (fo_unobserved f))))"

fun requeue :: "user_decision \<Rightarrow> wait_reason \<Rightarrow> queued list \<Rightarrow> queued list" where
  "requeue d r [] = [\<lparr>qu_decision = d, qu_reason = r\<rparr>]"
| "requeue d r (q # qs) = (if qu_decision q = d then q\<lparr>qu_reason := r\<rparr> # qs else q # requeue d r qs)"

definition fo_request :: "user_decision \<Rightarrow> folder \<Rightarrow> requested \<times> folder" where
  "fo_request d f =
     (case unsettled f d of
        None \<Rightarrow> (RqRun, f\<lparr>fo_queued := filter (\<lambda>q. qu_decision q \<noteq> d) (fo_queued f)\<rparr>)
      | Some reason \<Rightarrow>
          (RqQueued (StWaiting d reason), f\<lparr>fo_queued := requeue d reason (fo_queued f)\<rparr>))"

text \<open>The loop of \<open>next_queued\<close>: \<open>pre\<close> is what it has passed.\<close>

fun next_in :: "folder \<Rightarrow> queued list \<Rightarrow> queued list \<Rightarrow> (next_step \<times> queued list) option" where
  "next_in f pre [] = None"
| "next_in f pre (q # qs) =
     (let d = qu_decision q in
      if \<not> decision_exists f d then Some (NxDropped (StDropped d), pre @ qs)
      else case unsettled f d of
          None \<Rightarrow> Some (NxRun d, pre @ qs)
        | Some reason \<Rightarrow>
            if reason \<noteq> qu_reason q
            then Some (NxWaiting (StWaiting d reason), pre @ q\<lparr>qu_reason := reason\<rparr> # qs)
            else next_in f (pre @ [q]) qs)"

definition next_queued :: "folder \<Rightarrow> next_step option \<times> folder" where
  "next_queued f =
     (case next_in f [] (fo_queued f) of
        None \<Rightarrow> (None, f)
      | Some (step, qs) \<Rightarrow> (Some step, f\<lparr>fo_queued := qs\<rparr>))"

definition observe_requests :: "folder \<Rightarrow> rel_path list \<times> folder" where
  "observe_requests f =
     (if \<not> list_ex (\<lambda>q. (case qu_decision q of URevert _ \<Rightarrow> True | _ \<Rightarrow> False) \<and>
            (case qu_reason q of WrUnobserved _ \<Rightarrow> True | _ \<Rightarrow> False)) (fo_queued f)
      then ([], f)
      else
        let asks = filter (\<lambda>p. is_pending (fo_index f) p \<and> \<not> wl_in_flight (fo_wants f) p \<and>
              \<not> bm_has (fo_observing f) p) (bm_keys (fo_unobserved f))
        in (asks, f\<lparr>fo_observing := foldl (\<lambda>s p. bs_insert p s) (fo_observing f) asks\<rparr>))"

section \<open>Denying\<close>

definition deny_path ::
    "timestamp \<Rightarrow> quarantine \<Rightarrow> local_change list \<times> index \<Rightarrow> rel_path \<Rightarrow> local_change list \<times> index" where
  "deny_path now q st path =
     (let (changes, ix) = st;
          (c, ix) = bump_over path (versions_at q path) (max_stamp_at q path) now ix
      in (changes @ [c], ix))"

definition fo_deny :: "timestamp \<Rightarrow> batch_id \<Rightarrow> folder \<Rightarrow> local_change list option \<times> folder" where
  "fo_deny now b f =
     (case bm_get (q_items (fo_quarantine f)) b of
        None \<Rightarrow> (None, f)
      | Some item \<Rightarrow>
          let paths = bm_keys (hi_entries item);
              (changes, ix) = foldl (deny_path now (fo_quarantine f)) ([], fo_index f) paths;
              f = f\<lparr>fo_index := ix, fo_quarantine := snd (q_deny b (fo_quarantine f))\<rparr>;
              f = (if changes \<noteq> [] then fo_touched now f else f)
          in (Some changes, foldl (\<lambda>f path. reclassify_want now path f) f paths))"

section \<open>Reverting\<close>

definition revert_want ::
    "entry \<Rightarrow> apply_mode \<Rightarrow> batch_id \<Rightarrow> node_id \<Rightarrow> node_id bset \<Rightarrow> bool \<Rightarrow> observed option \<Rightarrow> want" where
  "revert_want e mode b own sources restoring reset =
     \<lparr>w_entry = e, w_received = e, w_mode = mode, w_conflict = None, w_batch = b, w_source = own,
      w_seq_high = 0, w_sources = sources, w_refused = bm_empty, w_excluded = bm_empty,
      w_strikes = bm_empty, w_mismatches = 0, w_local_retries = 0, w_fetched = False,
      w_restoring = restoring, w_trashed = None, w_answered = bm_empty, w_reset = reset,
      w_state = Wanted\<rparr>"

definition insert_want :: "want \<Rightarrow> folder \<Rightarrow> folder" where
  "insert_want w f = f\<lparr>fo_wants := insert_reverted w (fo_wants f)\<rparr>"

record reverting =
  rg_trash :: "rel_path list"
  rg_refetch :: nat
  rg_kept :: nat
  rg_written :: "index_record list"

definition revert_one ::
    "batch_id \<Rightarrow> node_id bset \<Rightarrow> reverting \<times> folder \<Rightarrow> reverted \<Rightarrow> reverting \<times> folder" where
  "revert_one b others st rv =
     (let (rg, f) = st;
          own = ix_own (fo_index f);
          path = rv_path rv;
          current = opt_filter (\<lambda>e. \<not> e_deleted e) (rv_current rv);
          restored = opt_filter (\<lambda>e. \<not> e_deleted e) (map_option ir_entry (rv_restored rv));
          same = (case (current, restored) of
              (Some c, Some r) \<Rightarrow> e_kind c = e_kind r \<and> e_hash c = e_hash r | _ \<Rightarrow> False);
          keeps_dir = is_some_and (\<lambda>c. e_kind c = Dir) current \<and>
            is_none_or (\<lambda>r. e_kind r \<noteq> Dir) restored \<and>
            list_ex (\<lambda>r. is_ancestor_of path (e_path (ir_entry r))) (live_records (fo_index f))
      in if same
         then (rg\<lparr>rg_kept := rg_kept rg + 1\<rparr>,
               (case (current, restored) of
                  (Some c, Some r) \<Rightarrow>
                    if e_kind r = File \<and> entry_observed c \<noteq> entry_observed r
                    then insert_want (revert_want r MetadataOnly b own bm_empty False
                           (Some (entry_observed c))) f
                    else f
                | _ \<Rightarrow> f))
         else if keeps_dir
         then let (change, ix) = observe path dir_observed (fo_index f)
              in (rg\<lparr>rg_written := rg_written rg @ (case change of Some c \<Rightarrow> [lc_record c] | None \<Rightarrow> []),
                     rg_kept := rg_kept rg + 1\<rparr>, f\<lparr>fo_index := ix\<rparr>)
         else case current of
             Some c \<Rightarrow>
               let rg = rg\<lparr>rg_trash := rg_trash rg @ [path]\<rparr>;
                   f = insert_want (want_trash c b own) f
               in (case restored of
                     Some r \<Rightarrow>
                       (rg\<lparr>rg_refetch := rg_refetch rg + 1\<rparr>,
                        f\<lparr>fo_deferred := ds_push path
                           \<lparr>df_entry = r, df_batch = b, df_source = own, df_seq_high = 0,
                            df_reason = ChangedUnderneath, df_restoring = Some r,
                            df_trashed = Some (entry_observed c)\<rparr> (fo_deferred f)\<rparr>)
                   | None \<Rightarrow> (rg, f))
           | None \<Rightarrow>
               (case restored of
                  Some r \<Rightarrow>
                    (rg\<lparr>rg_refetch := rg_refetch rg + 1\<rparr>,
                     insert_want (revert_want r (if e_kind r = Dir then Direct else Fetch) b own others
                       True None) f)
                | None \<Rightarrow> (rg, f)))"

text \<open>The wants at reverted paths come off the list before the restoring ones go in.\<close>

definition take_stale :: "want list \<times> want_list \<Rightarrow> reverted \<Rightarrow> want list \<times> want_list" where
  "take_stale st rv =
     (let (stale, wl) = st; (w, wl) = wl_remove (rv_path rv) wl
      in (stale @ (case w of Some w \<Rightarrow> [w] | None \<Rightarrow> []), wl))"

definition fo_revert :: "timestamp \<Rightarrow> folder \<Rightarrow> revert_outcome option \<times> folder" where
  "fo_revert now f =
     (case fo_paused f of
        None \<Rightarrow> (None, f)
      | Some p \<Rightarrow>
          let (revs, ix) = revert_pending (fo_index f);
              (returned, q) = return_denied (fo_quarantine f);
              (stale, wl) = foldl take_stale ([], fo_wants f) revs;
              others = fo_others f;
              f = f\<lparr>fo_paused := None, fo_index := ix, fo_quarantine := q, fo_wants := wl\<rparr>;
              (rg, f) = foldl (revert_one (pz_batch p) others)
                (\<lparr>rg_trash = [], rg_refetch = 0, rg_kept = 0, rg_written = []\<rparr>, f) revs;
              f = f\<lparr>fo_window := None\<rparr>;
              f = (if rg_written rg \<noteq> [] then fo_touched now f else f);
              f = unfreeze now (foldl (\<lambda>f old. rederive now old f) f stale)
          in (Some \<lparr>ro_batch = pz_batch p, ro_reverted = revs, ro_trash = rg_trash rg,
                ro_refetch = rg_refetch rg, ro_written = rg_written rg, ro_kept = rg_kept rg,
                ro_returned = returned\<rparr>, f))"

section \<open>New rules\<close>

definition recheck_item :: "folder \<Rightarrow> held_item \<Rightarrow> folder_status" where
  "recheck_item f item =
     (let probe = \<lparr>as_folder = fo_id f, as_batch = hi_batch item, as_source = hi_source item,
            as_seq_high = hi_seq_high item,
            as_items = List.map_filter (\<lambda>e. cl_item (classify (fo_index f) e)) (bm_values (hi_entries item)),
            as_ignored = 0, as_duplicates = 0, as_fallbacks = 0\<rparr>;
          verdict = evaluate (fo_rules f) (receiver_summary (fo_index f) probe)
            (tracked_count (fo_index f))
      in StRulesRecheck (hi_batch item) (\<not> is_hold verdict))"

definition rules_changed :: "rules \<Rightarrow> folder \<Rightarrow> folder_status list \<times> folder" where
  "rules_changed rs f =
     (let f = f\<lparr>fo_rules := rs\<rparr>;
          out = map (recheck_item f) (bm_values (q_items (fo_quarantine f)))
      in case fo_paused f of
           None \<Rightarrow> (out, f)
         | Some p \<Rightarrow>
             let (summary, verdict) = precheck f; p = recheck_paused summary verdict p
             in (out @ [StRulesRecheck (pz_batch p) (pz_would_pass p)], f\<lparr>fo_paused := Some p\<rparr>))"

lemmas [eval_simps] =
  precheck_def form_now_def form_batches_def recheck_paused_def fo_tick_def fo_expire_def
  have_up_to_def catchup_batches_def acknowledged_def fo_peer_gone_def fo_peer_connected_def
  receive_one_def sorting_start_def fo_receive_def approve_items_def fo_approve_def
  decision_exists_def released_paths_def unsettled_def fo_request_def next_queued_def
  observe_requests_def deny_path_def fo_deny_def revert_want_def insert_want_def revert_one_def
  take_stale_def fo_revert_def recheck_item_def rules_changed_def

end
