(* ===== verification/Committing.thy ===== *)
theory Committing
  imports Deciding
begin

text \<open>
  The host's part in \<open>crates/engine/src/folder.rs\<close>: the reports of fetches, commits and moves to the
  trash, what they leave in the index and the want-list, the restart, and the dispatch of the next
  host steps.
\<close>

section \<open>Reports of fetches\<close>

definition collision_seq :: "local_error \<Rightarrow> folder \<Rightarrow> nat option" where
  "collision_seq err f =
     (case err of ECaseCollision other \<Rightarrow> map_option ir_seq (ix_live (fo_index f) other) | _ \<Rightarrow> None)"

definition fo_failed :: "timestamp \<Rightarrow> rel_path \<Rightarrow> local_error \<Rightarrow> folder \<Rightarrow> folder" where
  "fo_failed now path err f =
     (let f = (if err = EDiskFull \<and> \<not> fo_disk_full f
               then push_status StInboundPaused (f\<lparr>fo_disk_full := True\<rparr>) else f);
          f = push_status (StLocalFailure path err) f
      in reconsider now path ChangedUnderneath f)"

definition fo_fetched ::
    "timestamp \<Rightarrow> rel_path \<Rightarrow> version \<Rightarrow> fetch_report \<Rightarrow> folder \<Rightarrow> fetch_result \<times> folder" where
  "fo_fetched now path v report f =
     (case report of
        FFailed err \<Rightarrow>
          let (w, wl) = fetch_failed now path v err (collision_seq err f) (fo_wants f);
              f = f\<lparr>fo_wants := wl\<rparr>
          in (\<lparr>fr_state = map_option w_state w, fr_unrecoverable = None\<rparr>,
              if w \<noteq> None then fo_failed now path err f else f)
      | _ \<Rightarrow>
          let (w, wl) = fetched now path v report (fo_wants f); f = f\<lparr>fo_wants := wl\<rparr>
          in case w of
               None \<Rightarrow> (\<lparr>fr_state = None, fr_unrecoverable = None\<rparr>, f)
             | Some want \<Rightarrow>
                 if \<not> (w_restoring want \<and> report = FNotAvailable \<and>
                        list_all (\<lambda>m. m = ix_own (fo_index f) \<or> bm_has (w_answered want) m)
                          (bm_keys (fo_members f)))
                 then (\<lparr>fr_state = Some (w_state want), fr_unrecoverable = None\<rparr>, f)
                 else
                   let f = clear_carriers path (f\<lparr>fo_wants := snd (wl_remove path (fo_wants f))\<rparr>);
                       (change, ix) = observe_absent_unrecoverable path now (fo_index f);
                       f = f\<lparr>fo_index := ix\<rparr>
                   in (\<lparr>fr_state = None, fr_unrecoverable = change\<rparr>,
                       if change \<noteq> None then fo_touched now f else f))"

definition space_recovered :: "folder \<Rightarrow> folder_status option \<times> folder" where
  "space_recovered f =
     (if \<not> fo_disk_full f then (None, f)
      else (Some StInboundResumed, f\<lparr>fo_disk_full := False, fo_wants := resume_inbound (fo_wants f)\<rparr>))"

definition fo_progress :: "timestamp \<Rightarrow> rel_path \<Rightarrow> version \<Rightarrow> folder \<Rightarrow> folder" where
  "fo_progress now path v f = f\<lparr>fo_wants := progress now path v (fo_wants f)\<rparr>"

definition fo_restarted :: "timestamp \<Rightarrow> folder \<Rightarrow> folder" where
  "fo_restarted now f =
     (let f = f\<lparr>fo_wants := restarted (fo_wants f), fo_scan := None, fo_catchup := bm_empty,
                fo_window := None\<rparr>;
          f = (if records_since (fo_index f) (ix_announced_seq (fo_index f)) \<noteq> []
               then fo_touched now f else f)
      in f\<lparr>fo_startup_scan := True, fo_unobserved := bm_empty, fo_observing := bm_empty,
           fo_reported := bm_empty, fo_last_observed := bm_empty, fo_record_written := bm_empty\<rparr>)"

section \<open>Taking a commit into the index\<close>

definition fo_adopt :: "timestamp \<Rightarrow> entry \<Rightarrow> folder \<Rightarrow> index_record option \<times> folder" where
  "fo_adopt now e f =
     (let (record, ix) = adopt e (fo_index f); f = f\<lparr>fo_index := ix\<rparr>
      in (record, if record \<noteq> None then fo_touched now f else f))"

definition defer_changed_underneath :: "want \<Rightarrow> folder \<Rightarrow> folder" where
  "defer_changed_underneath w f =
     f\<lparr>fo_deferred := ds_push (w_path w)
        \<lparr>df_entry = w_received w, df_batch = w_batch w, df_source = w_source w,
         df_seq_high = w_seq_high w, df_reason = ChangedUnderneath,
         df_restoring = (if w_restoring w then Some (w_entry w) else None),
         df_trashed = (if w_restoring w then w_trashed w else None)\<rparr> (fo_deferred f)\<rparr>"

definition would_have_left :: "folder \<Rightarrow> rel_path \<Rightarrow> scan_state \<Rightarrow> bool" where
  "would_have_left f path found \<longleftrightarrow>
     is_some_and (\<lambda>w.
         (case found of
            Observed ob \<Rightarrow> unchanged_by_stat (w_entry w) ob
          | Absent \<Rightarrow> e_deleted (w_entry w)
          | Unchanged \<Rightarrow> is_some_and (\<lambda>r. unchanged_by_stat (w_entry w) (entry_observed (ir_entry r)))
              (ix_live (fo_index f) path)
          | Skipped _ \<Rightarrow> False))
       (opt_filter (\<lambda>w. w_conflict w = None) (wl_get (fo_wants f) path))"

definition observe_found ::
    "timestamp \<Rightarrow> timestamp \<Rightarrow> rel_path \<Rightarrow> scan_state \<Rightarrow> folder \<Rightarrow> index_record list \<times> folder" where
  "observe_found now at path found f =
     (let news = (case found of
              Skipped _ \<Rightarrow> False
            | Unchanged \<Rightarrow> False
            | Absent \<Rightarrow> ix_live (fo_index f) path \<noteq> None \<and> \<not> fo_marked f path
            | Observed ob \<Rightarrow> fo_marked f path \<or>
                \<not> is_some_and (\<lambda>r. unchanged_by_stat (ir_entry r) ob) (ix_live (fo_index f) path))
      in if \<not> news then ([], f)
         else
           let (sc, f) = take_observation now at path found Guard f
           in (sc_ancestors sc @ (case sc_change sc of Some c \<Rightarrow> [lc_record c] | None \<Rightarrow> [])
                 @ (case sc_landed sc of Some r \<Rightarrow> [r] | None \<Rightarrow> []), f))"

text \<open>What a report carries of the path, and what it says before anything else: the bracket has seen the
  path, and unless the host could not look it is a fresh observation.\<close>

fun outcome_found :: "apply_outcome \<Rightarrow> scan_state option" where
  "outcome_found AOk = None"
| "outcome_found (AChangedUnderneath found) = Some found"
| "outcome_found (AFailed err found) = Some found"

definition looked :: "apply_outcome \<Rightarrow> bool" where
  "looked out \<longleftrightarrow> (case outcome_found out of Some (Skipped _) \<Rightarrow> False | _ \<Rightarrow> True)"

definition bracket_committed :: "rel_path \<Rightarrow> folder \<Rightarrow> folder" where
  "bracket_committed path f = f\<lparr>fo_scan := map_option (br_committed path) (fo_scan f)\<rparr>"

definition report_at :: "rel_path \<Rightarrow> timestamp \<Rightarrow> folder \<Rightarrow> folder" where
  "report_at path at f = f\<lparr>fo_reported := bm_insert path at (fo_reported f)\<rparr>"

section \<open>Reports of commits\<close>

text \<open>The end of \<open>applied_at\<close> for a commit that landed.\<close>

definition land_commit ::
    "timestamp \<Rightarrow> timestamp \<Rightarrow> rel_path \<Rightarrow> want \<Rightarrow> folder \<Rightarrow> index_record list \<times> folder" where
  "land_commit now at path want f =
     (let (record, f) = fo_adopt now (w_entry want) f in
      case record of
        None \<Rightarrow> ([], defer_changed_underneath want f)
      | Some record \<Rightarrow>
          let (written, f) = (case w_conflict want of
                None \<Rightarrow> ([record], f)
              | Some copy \<Rightarrow>
                  let f = report_at (cc_path copy) at (bracket_committed (cc_path copy) f);
                      (change, ix) = record_conflict_copy (cc_path copy) (cc_loser copy) (fo_index f);
                      f = fo_touched now (f\<lparr>fo_index := ix\<rparr>)
                  in ([record, lc_record change], reclassify_want now (cc_path copy) f));
              f = clear_carriers path f
          in (written, reconsider now path ChangedUnderneath f))"

definition applied_at ::
    "timestamp \<Rightarrow> rel_path \<Rightarrow> version \<Rightarrow> timestamp \<Rightarrow> apply_outcome \<Rightarrow> folder \<Rightarrow> index_record list \<times> folder" where
  "applied_at now path v at out f =
     (let f = bracket_committed path f;
          (was_released, wl) = released_reported path v (fo_wants f);
          f = f\<lparr>fo_wants := wl\<rparr>
      in if was_released then ([], report_at path at f)
         else if is_none_or (\<lambda>w. w_version w \<noteq> v) (wl_get (fo_wants f) path) then ([], f)
         else
           let f = report_at path at f;
               f = (if looked out then f\<lparr>fo_unobserved := bm_remove path (fo_unobserved f)\<rparr> else f);
               out = (case outcome_found out of
                   Some found \<Rightarrow> if would_have_left f path found then AOk else out
                 | None \<Rightarrow> out)
           in case out of
                AFailed err found \<Rightarrow>
                  let wl = snd (wl_failed now path v err (collision_seq err f) (fo_wants f))
                  in observe_found now at path found (fo_failed now path err (f\<lparr>fo_wants := wl\<rparr>))
              | _ \<Rightarrow>
                  let (want, wl) = wl_remove path (fo_wants f); f = f\<lparr>fo_wants := wl\<rparr>
                  in case want of
                       None \<Rightarrow> ([], f)
                     | Some want \<Rightarrow>
                         (case (w_reset want \<noteq> None, out) of
                            (True, AChangedUnderneath found) \<Rightarrow> observe_found now at path found f
                          | (True, _) \<Rightarrow>
                              let (record, f) = fo_adopt now (w_entry want) f
                              in (case record of Some r \<Rightarrow> [r] | None \<Rightarrow> [],
                                  reconsider now path ChangedUnderneath f)
                          | (False, AChangedUnderneath found) \<Rightarrow>
                              observe_found now at path found (defer_changed_underneath want f)
                          | (False, _) \<Rightarrow> land_commit now at path want f))"

definition fo_applied ::
    "timestamp \<Rightarrow> rel_path \<Rightarrow> version \<Rightarrow> apply_outcome \<Rightarrow> folder \<Rightarrow> index_record list \<times> folder" where
  "fo_applied now path v out f = applied_at now path v now out f"

definition fo_trashed ::
    "timestamp \<Rightarrow> rel_path \<Rightarrow> version \<Rightarrow> timestamp \<Rightarrow> apply_outcome \<Rightarrow> folder \<Rightarrow> index_record list \<times> folder" where
  "fo_trashed now path v at out f =
     (let f = bracket_committed path f in
      if \<not> is_some_and (\<lambda>w. is_trash w \<and> w_version w = v) (wl_get (fo_wants f) path) then ([], f)
      else
        let f = report_at path at f;
            f = (if looked out then f\<lparr>fo_unobserved := bm_remove path (fo_unobserved f)\<rparr> else f);
            give_up = (\<lambda>found.
              let (records, f) = observe_found now at path found
                    (f\<lparr>fo_wants := snd (wl_remove path (fo_wants f))\<rparr>)
              in (records, reconsider now path ChangedUnderneath f))
        in case out of
             AOk \<Rightarrow>
               ([], reconsider now path ChangedUnderneath (rewant_carriers path
                      (f\<lparr>fo_wants := snd (wl_remove path (fo_wants f))\<rparr>)))
           | AChangedUnderneath found \<Rightarrow> give_up found
           | AFailed err found \<Rightarrow>
               if err = EHoldsIgnored then give_up found
               else
                 let wl = snd (wl_failed now path v err (collision_seq err f) (fo_wants f))
                 in observe_found now at path found (fo_failed now path err (f\<lparr>fo_wants := wl\<rparr>)))"

section \<open>Dispatch\<close>

definition live_beneath :: "folder \<Rightarrow> rel_path \<Rightarrow> bool" where
  "live_beneath f dir \<longleftrightarrow>
     list_ex (\<lambda>r. is_ancestor_of dir (e_path (ir_entry r))) (live_records (fo_index f)) \<or>
     list_ex (\<lambda>w. \<not> is_delete w \<and> is_ancestor_of dir (w_path w)) (bm_values (wl_wants (fo_wants f)))"

definition keep_directory ::
    "timestamp \<Rightarrow> index_record list \<times> folder \<Rightarrow> rel_path \<Rightarrow> index_record list \<times> folder" where
  "keep_directory now st path =
     (let (written, f) = st;
          f = f\<lparr>fo_wants := snd (wl_remove path (fo_wants f))\<rparr>;
          (change, ix) = observe path dir_observed (fo_index f)
      in (written @ (case change of Some c \<Rightarrow> [lc_record c] | None \<Rightarrow> []),
          reconsider now path ChangedUnderneath (f\<lparr>fo_index := ix\<rparr>)))"

definition keep_directories :: "timestamp \<Rightarrow> folder \<Rightarrow> index_record list \<times> folder" where
  "keep_directories now f =
     (let kept = filter (live_beneath f) (map w_path (filter (\<lambda>w. is_trash w \<and>
            e_kind (w_entry w) = Dir \<and> \<not> is_committing (w_state w)) (bm_values (wl_wants (fo_wants f)))));
          (written, f) = foldl (keep_directory now) ([], f) kept
      in (written, if written \<noteq> [] then fo_touched now f else f))"

definition commit_order :: "folder \<Rightarrow> want \<Rightarrow> host_step" where
  "commit_order f want =
     (let path = w_path want;
          expected = (case w_reset want of
              Some last_observed \<Rightarrow> Some last_observed
            | None \<Rightarrow> if w_restoring want then None else fo_expected f path);
          displace = (case w_conflict want of
              Some copy \<Rightarrow> ToConflictCopy (cc_path copy) | None \<Rightarrow> ToTrash)
      in if w_mode want = Trash
         then HTrash path (e_version (w_entry want)) (entry_observed (w_entry want))
         else if w_mode want = MetadataOnly
         then HSetMeta path expected (e_mtime (w_entry want)) (e_exec (w_entry want))
         else if e_deleted (w_entry want) then HRemove path expected displace
         else HWrite path (w_entry want) expected displace)"

definition host_order ::
    "timestamp \<Rightarrow> host_step list \<times> index_record list \<times> folder \<Rightarrow> want_step \<Rightarrow>
     host_step list \<times> index_record list \<times> folder" where
  "host_order now st step =
     (let (host, adopted, f) = st in
      case step of
        WFetch path v from \<Rightarrow>
          let (h, sz) = (case wl_get (fo_wants f) path of
                Some w \<Rightarrow> (e_hash (w_entry w), e_size (w_entry w)) | None \<Rightarrow> (EMPTY, 0))
          in (host @ [HFetch path v h sz from], adopted, f)
      | WCommit want \<Rightarrow> (host @ [commit_order f want], adopted, f)
      | WAdopt want \<Rightarrow>
          let (record, f) = fo_adopt now (w_entry want) f;
              (adopted, f) = (case record of
                  Some r \<Rightarrow> (adopted @ [r], f)
                | None \<Rightarrow> (adopted, defer_changed_underneath want f))
          in (host, adopted, reconsider now (w_path want) ChangedUnderneath f))"

definition fo_dispatch ::
    "timestamp \<Rightarrow> (node_id, tier) bmap \<Rightarrow> folder \<Rightarrow> (host_step list \<times> index_record list) \<times> folder" where
  "fo_dispatch now peers f =
     (let f = f\<lparr>fo_wants := release_collisions (\<lambda>path. map_option ir_seq (ix_live (fo_index f) path))
                (fo_wants f)\<rparr>
      in if fo_disk_full f then (([], []), f\<lparr>fo_wants := pause_inbound (fo_wants f)\<rparr>)
         else
           let (adopted, f) = keep_directories now f;
               (steps, wl) = dispatch now (fo_rules f) peers (fo_wants f);
               (host, adopted, f) = foldl (host_order now) ([], adopted, f\<lparr>fo_wants := wl\<rparr>) steps
           in ((host, adopted), f))"

lemmas [eval_simps] =
  collision_seq_def fo_failed_def fo_fetched_def space_recovered_def fo_progress_def
  fo_restarted_def fo_adopt_def defer_changed_underneath_def would_have_left_def observe_found_def
  looked_def bracket_committed_def report_at_def land_commit_def applied_at_def fo_applied_def
  fo_trashed_def live_beneath_def keep_directory_def keep_directories_def commit_order_def
  host_order_def fo_dispatch_def

end
