(* ===== verification/FolderFrames.thy ===== *)
theory FolderFrames
  imports Committing
begin

text \<open>
  What no admission, \<open>deny\<close> or \<open>revert\<close> of a folder touches, whatever state it is in: its id, its members
  and the queue of decisions. The loop of \<open>crates/engine/src/engine.rs\<close> that runs the queued decisions
  ends because of it.
\<close>

named_theorems frames \<open>what leaves the id, the members and the queue alone\<close>

definition fixed_of :: "folder \<Rightarrow> folder_id \<times> node_id bset \<times> queued list" where
  "fixed_of f = (fo_id f, fo_members f, fo_queued f)"

lemma fixed_of_updates [simp]:
  "fixed_of (f\<lparr>fo_rules := rs\<rparr>) = fixed_of f" "fixed_of (f\<lparr>fo_index := ix\<rparr>) = fixed_of f"
  "fixed_of (f\<lparr>fo_window := w\<rparr>) = fixed_of f" "fixed_of (f\<lparr>fo_scan := sc\<rparr>) = fixed_of f"
  "fixed_of (f\<lparr>fo_wants := wl\<rparr>) = fixed_of f" "fixed_of (f\<lparr>fo_acked := a\<rparr>) = fixed_of f"
  "fixed_of (f\<lparr>fo_catchup := c\<rparr>) = fixed_of f" "fixed_of (f\<lparr>fo_deferred := ds\<rparr>) = fixed_of f"
  "fixed_of (f\<lparr>fo_winner_fallbacks := n\<rparr>) = fixed_of f" "fixed_of (f\<lparr>fo_quarantine := q\<rparr>) = fixed_of f"
  "fixed_of (f\<lparr>fo_paused := p\<rparr>) = fixed_of f" "fixed_of (f\<lparr>fo_statuses := st\<rparr>) = fixed_of f"
  "fixed_of (f\<lparr>fo_startup_scan := b\<rparr>) = fixed_of f" "fixed_of (f\<lparr>fo_unobserved := u\<rparr>) = fixed_of f"
  "fixed_of (f\<lparr>fo_observing := u\<rparr>) = fixed_of f" "fixed_of (f\<lparr>fo_reported := r\<rparr>) = fixed_of f"
  "fixed_of (f\<lparr>fo_last_observed := r\<rparr>) = fixed_of f" "fixed_of (f\<lparr>fo_record_written := r\<rparr>) = fixed_of f"
  "fixed_of (f\<lparr>fo_disk_full := b\<rparr>) = fixed_of f"
  by (simp_all add: fixed_of_def)

lemma foldl_frame:
  assumes "\<And>s x. h (g s x) = h s"
  shows "h (foldl g s xs) = h s"
  using assms by (induction xs arbitrary: s) auto

lemma fixed_touched [simp]: "fixed_of (fo_touched now f) = fixed_of f"
  by (simp add: fo_touched_def)

lemma fixed_push_status [simp]: "fixed_of (push_status st f) = fixed_of f"
  by (simp add: push_status_def)

lemma fixed_count_fallback [simp]: "fixed_of (count_fallback c f) = fixed_of f"
  by (simp add: count_fallback_def)

lemma fixed_want [simp]: "fixed_of (fo_want_as item received b src sh mark f) = fixed_of f"
  "fixed_of (fo_want item received b src sh f) = fixed_of f"
  by (simp_all add: fo_want_def fo_want_as_def Let_def case_prod_unfold split: option.split prod.split)

lemma fixed_admit_one: "fixed_of (snd (snd (admit_one brake st c))) = fixed_of (snd (snd st))"
  by (simp add: admit_one_def Let_def case_prod_unfold split: option.split)

lemma fixed_want_all [simp]: "fixed_of (want_all b src sh raws items f) = fixed_of f"
  unfolding want_all_def
  by (subst foldl_frame [where h = "\<lambda>st. fixed_of (snd st)"]) (auto simp: Let_def split: prod.split)

lemma fixed_admit_group: "fixed_of (admit_group now brake f grp) = fixed_of f"
  by (simp add: admit_group_def Let_def case_prod_unfold split: verdict.split)

lemma fixed_admit [simp]: "fixed_of (admit now cs brake f) = fixed_of f"
proof -
  have "fixed_of (foldl (\<lambda>f (b, n). push_status (StJoinedHeld b n) f) g xs) = fixed_of g" for g xs
    by (rule foldl_frame) (simp split: prod.split)
  moreover have "fixed_of (foldl (admit_group now brake) g xs) = fixed_of g" for g xs
    by (rule foldl_frame [where h = fixed_of]) (rule fixed_admit_group)
  moreover have "fixed_of (snd (snd (foldl (admit_one brake) st xs))) = fixed_of (snd (snd st))" for st xs
    by (rule foldl_frame [where h = "\<lambda>st. fixed_of (snd (snd st))"]) (rule fixed_admit_one)
  ultimately show ?thesis by (simp add: admit_def Let_def case_prod_unfold)
qed

lemma fixed_classify_deferred [simp]: "fixed_of (snd (classify_deferred ds f)) = fixed_of f"
  unfolding classify_deferred_def
  by (subst foldl_frame [where h = "\<lambda>st. fixed_of (snd st)"])
    (auto simp: Let_def split: prod.split option.split)

lemma fixed_reconsider [simp]: "fixed_of (reconsider now p r f) = fixed_of f"
  by (simp add: reconsider_def Let_def case_prod_unfold)

lemma fixed_rederive [simp]: "fixed_of (rederive now old f) = fixed_of f"
  by (simp add: rederive_def Let_def split: option.split)

lemma fixed_reclassify [simp]: "fixed_of (reclassify_want now p f) = fixed_of f"
  by (simp add: reclassify_want_def split: option.split prod.split)

lemma fixed_unfreeze [simp]: "fixed_of (unfreeze now f) = fixed_of f"
  by (simp add: unfreeze_def Let_def case_prod_unfold)

text \<open>The two decisions.\<close>

lemma fo_deny_frame [frames]: "fixed_of (snd (fo_deny now b f)) = fixed_of f"
proof -
  have "fixed_of (foldl (\<lambda>f p. reclassify_want now p f) g ps) = fixed_of g" for g ps
    by (rule foldl_frame) simp
  then show ?thesis by (simp add: fo_deny_def Let_def case_prod_unfold split: option.split)
qed

lemma fixed_insert_want [simp]: "fixed_of (insert_want w f) = fixed_of f"
  by (simp add: insert_want_def)

lemma fixed_revert_one: "fixed_of (snd (revert_one b others st rv)) = fixed_of (snd st)"
  by (simp add: revert_one_def Let_def case_prod_unfold split: option.split)

lemma fo_revert_frame [frames]: "fixed_of (snd (fo_revert now f)) = fixed_of f"
proof -
  have "fixed_of (foldl (\<lambda>f old. rederive now old f) g ws) = fixed_of g" for g ws
    by (rule foldl_frame) simp
  moreover have "fixed_of (snd (foldl (revert_one b others) st rvs)) = fixed_of (snd st)" for b others st rvs
    by (rule foldl_frame [where h = "\<lambda>st. fixed_of (snd st)"]) (rule fixed_revert_one)
  ultimately show ?thesis
    by (simp add: fo_revert_def Let_def case_prod_unfold split: option.split)
qed

section \<open>Observations\<close>

lemma fixed_rewant_carriers [simp]: "fixed_of (rewant_carriers p f) = fixed_of f"
proof -
  have "fixed_of (foldl (\<lambda>f d. case df_restoring d of None \<Rightarrow> f
      | Some e \<Rightarrow> fo_want_as \<lparr>ai_entry = e, ai_mode = Fetch, ai_conflict = None\<rparr> (df_entry d) (df_batch d)
            (df_source d) (df_seq_high d) (Some (df_trashed d)) f) g ds) = fixed_of g" for g and ds :: "deferred list"
    by (rule foldl_frame) (simp split: option.split)
  then show ?thesis by (simp add: rewant_carriers_def Let_def case_prod_unfold)
qed

lemma fixed_mark [simp]: "fixed_of (clear_carriers p f) = fixed_of f"
  "fixed_of (snd (unmark p f)) = fixed_of f"
  by (simp_all add: clear_carriers_def unmark_def Let_def case_prod_unfold)

lemma fixed_land [simp]: "fixed_of (snd (land now p ob f)) = fixed_of f"
  by (simp add: land_def Let_def case_prod_unfold split: option.split)

lemma fixed_take_write [simp]: "fixed_of (snd (take_write now p s ob marked f)) = fixed_of f"
  by (simp add: take_write_def Let_def case_prod_unfold split: option.split)

lemma fixed_take_settled [simp]: "fixed_of (snd (take_settled now p s ob marked f)) = fixed_of f"
  by (simp add: take_settled_def Let_def case_prod_unfold split: option.split)

lemma fixed_take_one [simp]: "fixed_of (snd (take_one now at p s ob f)) = fixed_of f"
  by (simp add: take_one_def Let_def split: scan_state.split)

lemma fixed_take_ancestor: "fixed_of (snd (take_ancestor now at ob st d)) = fixed_of (snd st)"
  by (simp add: take_ancestor_def Let_def case_prod_unfold)

lemma fixed_take_observation [simp, frames]: "fixed_of (snd (take_observation now at p s ob f)) = fixed_of f"
proof -
  have "fixed_of (snd (foldl (take_ancestor now at ob) st ds)) = fixed_of (snd st)" for st ds
    by (rule foldl_frame [where h = "\<lambda>st. fixed_of (snd st)"]) (rule fixed_take_ancestor)
  then show ?thesis by (simp add: take_observation_def Let_def case_prod_unfold)
qed

lemma fixed_tombstone_gone: "fixed_of (snd (tombstone_gone now st p)) = fixed_of (snd st)"
  by (simp add: tombstone_gone_def Let_def case_prod_unfold split: option.split)

lemma scan_frame [frames]: "fixed_of (scan_started f) = fixed_of f"
  "fixed_of (snd (scan_aborted f)) = fixed_of f" "fixed_of (snd (scan_finished now f)) = fixed_of f"
proof -
  have "fixed_of (snd (foldl (tombstone_gone now) st ps)) = fixed_of (snd st)" for st ps
    by (rule foldl_frame [where h = "\<lambda>st. fixed_of (snd st)"]) (rule fixed_tombstone_gone)
  moreover have "fixed_of (foldl (\<lambda>f p. reconsider now p ChangedUnderneath f) g ps) = fixed_of g" for g ps
    by (rule foldl_frame) simp
  moreover have "fixed_of (foldl (\<lambda>f p. rewant_carriers p f) g ps) = fixed_of g" for g ps
    by (rule foldl_frame) simp
  ultimately show "fixed_of (snd (scan_finished now f)) = fixed_of f"
    by (simp add: scan_finished_def Let_def case_prod_unfold split: option.split)
qed (simp_all add: scan_started_def scan_aborted_def)

section \<open>Sending, receiving and approving\<close>

lemma send_frame [frames]: "fixed_of (snd (form_batches now b f)) = fixed_of f"
  "fixed_of (snd (fo_expire now f)) = fixed_of f" "fixed_of (have_up_to n s f) = fixed_of f"
  "fixed_of (snd (catchup_batches now b f)) = fixed_of f" "fixed_of (acknowledged n s f) = fixed_of f"
  "fixed_of (fo_peer_gone n f) = fixed_of f" "fixed_of (fo_peer_connected n f) = fixed_of f"
  by (simp_all add: form_batches_def fo_expire_def have_up_to_def catchup_batches_def acknowledged_def
      fo_peer_gone_def fo_peer_connected_def Let_def case_prod_unfold)

lemma fo_tick_frame [frames]: "fixed_of (snd (fo_tick now b f)) = fixed_of f"
  by (simp add: fo_tick_def Let_def case_prod_unfold send_frame split: option.split verdict.split)

lemma fixed_receive_one: "fixed_of (snd (receive_one b raw st item)) = fixed_of (snd st)"
  by (simp add: receive_one_def Let_def case_prod_unfold split: option.split)

lemma fo_receive_frame [frames]: "fixed_of (snd (fo_receive now b f)) = fixed_of f"
proof -
  have "fixed_of (snd (foldl (receive_one b raw) st items)) = fixed_of (snd st)" for raw st items
    by (rule foldl_frame [where h = "\<lambda>st. fixed_of (snd st)"]) (rule fixed_receive_one)
  moreover have "fixed_of (foldl (\<lambda>f item. fo_want item (raw item) i src sh f) g items) = fixed_of g"
    for g raw i src sh items
    by (rule foldl_frame) simp
  ultimately show ?thesis
    by (simp add: fo_receive_def Let_def case_prod_unfold split: verdict.split)
qed

lemma fixed_approve_items: "fixed_of (snd (snd (approve_items item f))) = fixed_of f"
  unfolding approve_items_def
  by (subst foldl_frame [where h = "\<lambda>st. fixed_of (snd (snd st))"])
    (auto simp: Let_def split: prod.split)

lemma fo_approve_frame [frames]: "fixed_of (snd (fo_approve now b f)) = fixed_of f"
  by (simp add: fo_approve_def Let_def case_prod_unfold fixed_approve_items send_frame split: option.split)

lemma decide_frame [frames]: "fixed_of (snd (rules_changed rs f)) = fixed_of f"
  "fixed_of (snd (observe_requests f)) = fixed_of f"
  by (simp_all add: rules_changed_def observe_requests_def Let_def case_prod_unfold split: option.split)

section \<open>Reports and dispatch\<close>

lemma fixed_failed [simp]: "fixed_of (fo_failed now p err f) = fixed_of f"
  by (simp add: fo_failed_def Let_def)

lemma fetch_frame [frames]: "fixed_of (snd (fo_fetched now p v report f)) = fixed_of f"
  "fixed_of (snd (space_recovered f)) = fixed_of f" "fixed_of (fo_progress now p v f) = fixed_of f"
  by (simp_all add: fo_fetched_def space_recovered_def fo_progress_def Let_def case_prod_unfold
      split: fetch_report.split option.split)

lemma fixed_commit [simp]: "fixed_of (snd (fo_adopt now e f)) = fixed_of f"
  "fixed_of (defer_changed_underneath w f) = fixed_of f"
  "fixed_of (snd (observe_found now at p found f)) = fixed_of f"
  "fixed_of (bracket_committed p f) = fixed_of f" "fixed_of (report_at p at f) = fixed_of f"
  by (simp_all add: fo_adopt_def defer_changed_underneath_def observe_found_def bracket_committed_def
      report_at_def Let_def case_prod_unfold)

lemma fixed_land_commit [simp]: "fixed_of (snd (land_commit now at p w f)) = fixed_of f"
  by (simp add: land_commit_def Let_def case_prod_unfold split: option.split)

lemma report_frame [frames]: "fixed_of (snd (applied_at now p v at out f)) = fixed_of f"
  "fixed_of (snd (fo_trashed now p v at out f)) = fixed_of f"
  by (simp_all add: applied_at_def fo_trashed_def Let_def case_prod_unfold
      split: option.split apply_outcome.split bool.split)

lemma fixed_keep_directory: "fixed_of (snd (keep_directory now st p)) = fixed_of (snd st)"
  by (simp add: keep_directory_def Let_def case_prod_unfold)

lemma fixed_keep_directories [simp]: "fixed_of (snd (keep_directories now f)) = fixed_of f"
proof -
  have "fixed_of (snd (foldl (keep_directory now) st ps)) = fixed_of (snd st)" for st ps
    by (rule foldl_frame [where h = "\<lambda>st. fixed_of (snd st)"]) (rule fixed_keep_directory)
  then show ?thesis by (simp add: keep_directories_def Let_def case_prod_unfold)
qed

lemma fixed_host_order: "fixed_of (snd (snd (host_order now st step))) = fixed_of (snd (snd st))"
  by (simp add: host_order_def Let_def case_prod_unfold split: want_step.split option.split)

lemma fo_dispatch_frame [frames]: "fixed_of (snd (fo_dispatch now peers f)) = fixed_of f"
proof -
  have "fixed_of (snd (snd (foldl (host_order now) st steps))) = fixed_of (snd (snd st))" for st steps
    by (rule foldl_frame [where h = "\<lambda>st. fixed_of (snd (snd st))"]) (rule fixed_host_order)
  then show ?thesis by (simp add: fo_dispatch_def Let_def case_prod_unfold)
qed

lemma drain_frame [frames]: "fixed_of (snd (fo_pending_changes f)) = fixed_of f"
  "fixed_of (snd (fo_held_changes f)) = fixed_of f" "fixed_of (snd (fo_deferred_changes f)) = fixed_of f"
  "fixed_of (snd (fo_want_changes f)) = fixed_of f" "fixed_of (snd (take_statuses f)) = fixed_of f"
  "fixed_of (fo_wrote p now f) = fixed_of f"
  by (simp_all add: fo_pending_changes_def fo_held_changes_def fo_deferred_changes_def fo_want_changes_def
      take_statuses_def fo_wrote_def Let_def case_prod_unfold)

end
