(* ===== verification/Engines.thy ===== *)
theory Engines
  imports FolderFrames
begin

text \<open>
  \<open>crates/engine/src/engine.rs\<close>: one engine per node, which takes the host's events and returns its
  actions. \<open>handle\<close> is the whole interface; after the event itself it runs the decisions that have
  settled, drives the want-lists, asks for observations and wake-ups, and reports what changed.
  A method that mutates the engine takes it last and returns the actions it pushed with the engine
  updated.
\<close>

section \<open>Events and actions\<close>

record node_config =
  nc_node_id :: node_id
  nc_author_host :: host_name

datatype outbound =
    OBatch batch
  | ODecision batch_decision
  | OHaveUpTo folder_id nat

datatype event =
    EvTick batch_id
  | EvFolderJoined folder_id rules "node_id list"
  | EvRulesChanged folder_id rules
  | EvScanned folder_id rel_path scan_state timestamp
  | EvScanStarted folder_id
  | EvScanFinished folder_id
  | EvScanAborted folder_id
  | EvPeerConnected node_id tier
  | EvPeerTierChanged node_id tier
  | EvPeerDisconnected node_id
  | EvBatchReceived node_id batch
  | EvDecisionReceived node_id batch_decision
  | EvHaveUpToReceived node_id folder_id nat
  | EvFetched folder_id rel_path content_hash version fetch_report
  | EvFetchProgress folder_id rel_path content_hash version
  | EvApplied folder_id rel_path version timestamp apply_outcome
  | EvTrashed folder_id rel_path version timestamp apply_outcome
  | EvApprove folder_id batch_id
  | EvDeny folder_id batch_id
  | EvRevert folder_id
  | EvSpaceRecovered folder_id

datatype action =
    AcWakeAt timestamp
  | AcSend node_id outbound
  | AcFetch folder_id rel_path version content_hash u64 node_id
  | AcWrite folder_id rel_path entry "observed option" displace
  | AcRemove folder_id rel_path "observed option" displace
  | AcSetMeta folder_id rel_path "observed option" int bool
  | AcMoveToTrash folder_id rel_path version observed
  | AcObserve folder_id rel_path
  | AcRecordBatch batch batch_role "decision option"
  | AcIndexChanged folder_id index_record
  | AcIndexRemoved folder_id rel_path
  | AcWantChanged folder_id rel_path "want option"
  | AcPendingChanged folder_id rel_path "pending option"
  | AcHeldChanged folder_id batch_id held_state "held_row option"
  | AcDeferredChanged folder_id rel_path "deferred list option"
  | AcRestChanged folder_id rest
  | AcStatusChanged folder_id folder_status

section \<open>The state\<close>

record engine =
  en_config :: node_config
  en_folders :: "(folder_id, folder) bmap"
  en_peers :: "(node_id, tier) bmap"
  en_woke :: "(folder_id, timestamp) bmap"
  en_rested :: "(folder_id, rest) bmap"
  en_now :: timestamp

definition engine_new :: "node_config \<Rightarrow> engine" where
  "engine_new config =
     \<lparr>en_config = config, en_folders = bm_empty, en_peers = bm_empty, en_woke = bm_empty,
      en_rested = bm_empty, en_now = 0\<rparr>"

definition restore_one :: "timestamp \<Rightarrow> engine \<Rightarrow> folder_parts \<Rightarrow> engine" where
  "restore_one now e parts =
     (let f = fo_restarted now (folder_from_parts parts (nc_node_id (en_config e))
                (nc_author_host (en_config e)))
      in e\<lparr>en_rested := bm_insert (fo_id f) (folder_rest f) (en_rested e),
           en_folders := bm_insert (fo_id f) f (en_folders e)\<rparr>)"

definition engine_restore :: "node_config \<Rightarrow> folder_parts list \<Rightarrow> timestamp \<Rightarrow> engine" where
  "engine_restore config folders now = foldl (restore_one now) (engine_new config) folders"

definition en_folder :: "engine \<Rightarrow> folder_id \<Rightarrow> folder option" where
  "en_folder e fid = bm_get (en_folders e) fid"

definition unknown_folder :: "folder_id \<Rightarrow> action" where
  "unknown_folder fid = AcStatusChanged fid StUnknownFolder"

text \<open>\<open>match self.folders.get_mut(&folder)\<close>, with the status for a folder this node has not joined.\<close>

definition on_folder ::
    "folder_id \<Rightarrow> (folder \<Rightarrow> action list \<times> folder) \<Rightarrow> engine \<Rightarrow> action list \<times> engine" where
  "on_folder fid g e =
     (case bm_get (en_folders e) fid of
        Some f \<Rightarrow> let (out, f) = g f in (out, e\<lparr>en_folders := bm_insert fid f (en_folders e)\<rparr>)
      | None \<Rightarrow> ([unknown_folder fid], e))"

text \<open>\<open>for (id, folder) in &mut self.folders\<close>, the actions of each folder after those of the one before.\<close>

definition each_folder ::
    "(folder_id \<Rightarrow> folder \<Rightarrow> action list \<times> folder) \<Rightarrow> engine \<Rightarrow> action list \<times> engine" where
  "each_folder g e =
     (concat (map (\<lambda>(fid, f). fst (g fid f)) (bm_entries (en_folders e))),
      e\<lparr>en_folders := bm_map (\<lambda>fid f. snd (g fid f)) (en_folders e)\<rparr>)"

section \<open>Running a decision\<close>

definition index_write :: "folder_id \<Rightarrow> reverted \<Rightarrow> action" where
  "index_write fid w =
     (case rv_restored w of
        Some record \<Rightarrow> AcIndexChanged fid record
      | None \<Rightarrow> AcIndexRemoved fid (rv_path w))"

definition decide :: "folder_id \<Rightarrow> timestamp \<Rightarrow> user_decision \<Rightarrow> folder \<Rightarrow> action list \<times> folder" where
  "decide fid now d f =
     (case d of
        UDeny b \<Rightarrow>
          (case fo_deny now b f of
             (Some changes, f) \<Rightarrow>
               (map (\<lambda>c. AcIndexChanged fid (lc_record c)) changes @
                  [AcStatusChanged fid (StDenied b (length changes))], f)
           | (None, f) \<Rightarrow> ([AcStatusChanged fid (StUnknownBatch b)], f))
      | URevert _ \<Rightarrow>
          (case fo_revert now f of
             (Some r, f) \<Rightarrow>
               (map (index_write fid) (ro_reverted r) @
                map (AcIndexChanged fid) (ro_written r) @
                [AcStatusChanged fid
                  (StReverted (ro_batch r) (length (ro_trash r)) (ro_refetch r) (ro_kept r))] @
                map (\<lambda>(b, paths). AcStatusChanged fid (StReturned b paths)) (ro_returned r), f)
           | (None, f) \<Rightarrow> ([AcStatusChanged fid StNotPaused], f)))"

definition run_next :: "folder_id \<Rightarrow> timestamp \<Rightarrow> next_step \<Rightarrow> folder \<Rightarrow> action list \<times> folder" where
  "run_next fid now step f =
     (case step of
        NxRun d \<Rightarrow> decide fid now d f
      | NxDropped status \<Rightarrow> ([AcStatusChanged fid status], f)
      | NxWaiting status \<Rightarrow> ([AcStatusChanged fid status], f))"

text \<open>
  The loop \<open>while let Some(next) = folder.next_queued()\<close> of \<open>settle\<close>. It ends: a decision that runs or
  is dropped leaves the queue, and one that now waits for something else changes nothing the others
  wait for, so each round shortens the queue or the list of the decisions whose reason is out of date.
\<close>

definition out_of_date :: "folder \<Rightarrow> queued \<Rightarrow> bool" where
  "out_of_date f q \<longleftrightarrow> unsettled f (qu_decision q) \<noteq> Some (qu_reason q)"

lemma fixed_decide: "fixed_of (snd (decide fid now d f)) = fixed_of f"
proof (cases d)
  case (UDeny b)
  obtain c g where deny: "fo_deny now b f = (c, g)" by fastforce
  then have "fixed_of g = fixed_of f" using fo_deny_frame [of now b f] by simp
  then show ?thesis by (simp add: decide_def UDeny deny split: option.split)
next
  case (URevert b)
  obtain r g where revert: "fo_revert now f = (r, g)" by fastforce
  then have "fixed_of g = fixed_of f" using fo_revert_frame [of now f] by simp
  then show ?thesis by (simp add: decide_def URevert revert split: option.split)
qed

lemma fixed_run_next: "fixed_of (snd (run_next fid now step f)) = fixed_of f"
  by (simp add: run_next_def fixed_decide split: next_step.split)

lemma unsettled_queue [simp]: "unsettled (f\<lparr>fo_queued := qs\<rparr>) d = unsettled f d"
  by (simp add: unsettled_def fo_marked_def fo_committing_def
      cong: user_decision.case_cong option.case_cong list.case_cong if_cong)

lemma next_in_measure:
  assumes "next_in f pre qs = Some (step, qs')"
  shows "length qs' < length (pre @ qs) \<or>
    (\<exists>st. step = NxWaiting st) \<and> length qs' = length (pre @ qs) \<and>
      length (filter (out_of_date f) qs') < length (filter (out_of_date f) (pre @ qs))"
  using assms
proof (induction f pre qs rule: next_in.induct)
  case (2 f pre q qs)
  show ?case
  proof (cases "decision_exists f (qu_decision q) \<and>
      (\<exists>r. unsettled f (qu_decision q) = Some r \<and> r = qu_reason q)")
    case True
    with 2 show ?thesis by (simp add: Let_def)
  next
    case False
    with 2(2) show ?thesis
      by (auto simp: Let_def out_of_date_def split: if_splits option.splits)
  qed
qed simp

function (sequential) settle_folder :: "folder_id \<Rightarrow> timestamp \<Rightarrow> folder \<Rightarrow> action list \<times> folder" where
  "settle_folder fid now f =
     (case next_queued f of
        (None, f) \<Rightarrow> ([], f)
      | (Some step, f) \<Rightarrow>
          let (out, f) = run_next fid now step f;
              (more, f) = settle_folder fid now f
          in (out @ more, f))"
  by pat_completeness auto

termination
proof (relation "measures [\<lambda>(fid, now, f). length (fo_queued f),
    \<lambda>(fid, now, f). length (filter (out_of_date f) (fo_queued f))]", goal_cases)
  case (2 fid now f x g step y out h)
  then obtain qs where step: "next_in f [] (fo_queued f) = Some (step, qs)" and g: "g = f\<lparr>fo_queued := qs\<rparr>"
    by (auto simp: next_queued_def split: option.splits prod.splits)
  have h: "h = snd (run_next fid now step g)" using 2 by (metis snd_conv)
  have queued: "fo_queued h = qs"
    using fixed_run_next [of fid now step g] by (simp add: h g fixed_of_def)
  from next_in_measure [OF step] show ?case
  proof
    assume "length qs < length ([] @ fo_queued f)"
    then show ?thesis by (simp add: queued)
  next
    assume w: "(\<exists>st. step = NxWaiting st) \<and> length qs = length ([] @ fo_queued f) \<and>
      length (filter (out_of_date f) qs) < length (filter (out_of_date f) ([] @ fo_queued f))"
    then have "h = g" by (auto simp: h run_next_def)
    moreover have "out_of_date g = out_of_date f" by (rule ext) (simp add: out_of_date_def g)
    moreover have "fo_queued g = qs" by (simp add: g)
    ultimately show ?thesis using w by simp
  qed
qed simp

declare settle_folder.simps [simp del]

definition settle :: "timestamp \<Rightarrow> engine \<Rightarrow> action list \<times> engine" where
  "settle now e = each_folder (\<lambda>fid f. settle_folder fid now f) e"

section \<open>Sending and receiving\<close>

definition send_batches :: "folder_id \<Rightarrow> batch list \<Rightarrow> engine \<Rightarrow> action list" where
  "send_batches fid batches e =
     (case bm_get (en_folders e) fid of
        None \<Rightarrow> []
      | Some f \<Rightarrow>
          let recipients = filter (\<lambda>m. m \<noteq> nc_node_id (en_config e) \<and> bm_has (en_peers e) m)
                (bm_keys (fo_members f))
          in concat (map (\<lambda>b. map (\<lambda>to. AcSend to (OBatch b)) recipients @
               [AcRecordBatch b Sent None]) batches))"

text \<open>One folder of \<open>tick\<close>; \<open>used\<close> counts the successors of the fresh id already spent.\<close>

definition tick_folder ::
    "timestamp \<Rightarrow> batch_id \<Rightarrow> action list \<times> nat \<times> engine \<Rightarrow> folder_id \<Rightarrow> action list \<times> nat \<times> engine" where
  "tick_folder now fresh st fid =
     (let (out, used, e) = st in
      case bm_get (en_folders e) fid of
        None \<Rightarrow> st
      | Some f \<Rightarrow>
          let (ex, f) = fo_expire now f;
              out = out @ map (\<lambda>p. AcStatusChanged fid (StStalled p)) (ex_stalled ex) @
                map (\<lambda>p. AcStatusChanged fid (StCommitOverdue p)) (ex_overdue ex);
              ((catchup, spent), f) = catchup_batches now (batch_successor fresh used) f;
              used = used + spent;
              out = out @ concat (map (\<lambda>(peer, batches).
                concat (map (\<lambda>b. [AcSend peer (OBatch b), AcRecordBatch b Sent None]) batches)) catchup);
              (ticked, f) = fo_tick now (batch_successor fresh used) f;
              e = e\<lparr>en_folders := bm_insert fid f (en_folders e)\<rparr>
          in case ticked of
               TkNothing \<Rightarrow> (out, used, e)
             | TkSent batches \<Rightarrow> (out @ send_batches fid batches e, used + length batches, e)
             | TkPaused first snapshot status \<Rightarrow>
                 (out @ (if first then map (\<lambda>b. AcRecordBatch b Paused None) snapshot else []) @
                    [AcStatusChanged fid status], if first then used + 1 else used, e))"

definition en_tick :: "timestamp \<Rightarrow> batch_id \<Rightarrow> engine \<Rightarrow> action list \<times> engine" where
  "en_tick now fresh e =
     (let (out, used, e) = foldl (tick_folder now fresh) ([], 0, e\<lparr>en_woke := bm_empty\<rparr>)
            (bm_keys (en_folders e))
      in (out, e))"

definition receive_folder :: "timestamp \<Rightarrow> node_id \<Rightarrow> batch \<Rightarrow> folder \<Rightarrow> action list \<times> folder" where
  "receive_folder now peer b f =
     (let (r, f) = fo_receive now b f; aset = re_set r; fid = bt_folder b;
          status = AcStatusChanged fid
      in ((if 0 < as_fallbacks aset then [status (StWinnerFallback (fo_winner_fallbacks f))] else []) @
          (if 0 < as_duplicates aset then [status (StDuplicatePaths (bt_id b) (as_duplicates aset))] else []) @
          (if 0 < re_joined r then [status (StJoinedHeld (bt_id b) (re_joined r))] else []) @
          (case re_held r of
             Some reason \<Rightarrow>
               [status (StHeld (bt_id b) (bt_source b) reason (re_summary r) (length (as_items aset)))]
           | None \<Rightarrow> []) @
          [AcSend peer (ODecision \<lparr>bd_batch = bt_id b, bd_folder = fid, bd_decision = re_decision r,
             bd_seq_high = peer_seq (fo_index f) peer\<rparr>),
           AcRecordBatch b Received (Some (re_decision r))], f))"

section \<open>One event\<close>

definition scanned_folder ::
    "folder_id \<Rightarrow> timestamp \<Rightarrow> timestamp \<Rightarrow> rel_path \<Rightarrow> scan_state \<Rightarrow> folder \<Rightarrow> action list \<times> folder" where
  "scanned_folder fid now at path s f =
     (let earlier = fo_winner_fallbacks f;
          (sc, f) = fo_observed_at now at path s f
      in (map (AcIndexChanged fid) (sc_ancestors sc) @
          (case sc_change sc of Some c \<Rightarrow> [AcIndexChanged fid (lc_record c)] | None \<Rightarrow> []) @
          (case sc_landed sc of Some r \<Rightarrow> [AcIndexChanged fid r] | None \<Rightarrow> []) @
          (case sc_status sc of Some st \<Rightarrow> [AcStatusChanged fid st] | None \<Rightarrow> []) @
          (if earlier < fo_winner_fallbacks f
           then [AcStatusChanged fid (StWinnerFallback (fo_winner_fallbacks f))] else []), f))"

definition scan_finished_folder :: "folder_id \<Rightarrow> timestamp \<Rightarrow> folder \<Rightarrow> action list \<times> folder" where
  "scan_finished_folder fid now f =
     (case scan_finished now f of
        (Inr changes, f) \<Rightarrow> (map (\<lambda>c. AcIndexChanged fid (lc_record c)) changes, f)
      | (Inl status, f) \<Rightarrow> ([AcStatusChanged fid status], f))"

definition fetched_folder ::
    "folder_id \<Rightarrow> timestamp \<Rightarrow> rel_path \<Rightarrow> version \<Rightarrow> fetch_report \<Rightarrow> folder \<Rightarrow> action list \<times> folder" where
  "fetched_folder fid now path v report f =
     (let (r, f) = fo_fetched now path v report f
      in ((if fr_state r = Some GaveUp then [AcStatusChanged fid (StGaveUp path)] else []) @
          (case fr_unrecoverable r of
             Some c \<Rightarrow> [AcIndexChanged fid (lc_record c), AcStatusChanged fid (StUnrecoverable path)]
           | None \<Rightarrow> []), f))"

text \<open>Asking for a decision: it runs at once on a settled folder, and is queued otherwise.\<close>

definition request_folder :: "folder_id \<Rightarrow> timestamp \<Rightarrow> user_decision \<Rightarrow> folder \<Rightarrow> action list \<times> folder" where
  "request_folder fid now d f =
     (case fo_request d f of
        (RqRun, f) \<Rightarrow> decide fid now d f
      | (RqQueued status, f) \<Rightarrow> ([AcStatusChanged fid status], f))"

definition en_approve :: "timestamp \<Rightarrow> folder_id \<Rightarrow> batch_id \<Rightarrow> engine \<Rightarrow> action list \<times> engine" where
  "en_approve now fid b e =
     (case bm_get (en_folders e) fid of
        None \<Rightarrow> ([unknown_folder fid], e)
      | Some f \<Rightarrow>
          let (res, f) = fo_approve now b f;
              e = e\<lparr>en_folders := bm_insert fid f (en_folders e)\<rparr>
          in ((case res of
                 ApReleased aset \<Rightarrow>
                   [AcStatusChanged fid (StReleased b
                      (case aset of None \<Rightarrow> 0 | Some aset \<Rightarrow> length (as_items aset)))]
               | ApSent batches \<Rightarrow> send_batches fid batches e @ [AcStatusChanged fid (StUnpaused b)]
               | ApUnknown \<Rightarrow> [AcStatusChanged fid (StUnknownBatch b)]), e))"

definition peer_connected :: "node_id \<Rightarrow> tier \<Rightarrow> engine \<Rightarrow> action list \<times> engine" where
  "peer_connected peer t e =
     (let e = e\<lparr>en_peers := bm_insert peer t (en_peers e)\<rparr>;
          e = snd (each_folder (\<lambda>_ f. ([], fo_peer_connected peer f)) e)
      in (List.map_filter (\<lambda>(fid, f).
            if is_member f peer then Some (AcSend peer (OHaveUpTo fid (peer_seq (fo_index f) peer))) else None)
            (bm_entries (en_folders e)), e))"

definition silently :: "(folder \<Rightarrow> folder) \<Rightarrow> folder \<Rightarrow> action list \<times> folder" where
  "silently g f = ([], g f)"

text \<open>The match of \<open>handle\<close>.\<close>

fun take_event :: "timestamp \<Rightarrow> event \<Rightarrow> engine \<Rightarrow> action list \<times> engine" where
  "take_event now (EvTick fresh) e = en_tick now fresh e"
| "take_event now (EvFolderJoined fid rs members) e =
     (if bm_has (en_folders e) fid then ([AcStatusChanged fid StAlreadyJoined], e)
      else ([], e\<lparr>en_folders := bm_insert fid (folder_new fid rs members (nc_node_id (en_config e))
                   (nc_author_host (en_config e))) (en_folders e)\<rparr>))"
| "take_event now (EvRulesChanged fid rs) e =
     on_folder fid (\<lambda>f. let (out, f) = rules_changed rs f in (map (AcStatusChanged fid) out, f)) e"
| "take_event now (EvScanned fid path s at) e = on_folder fid (scanned_folder fid now at path s) e"
| "take_event now (EvScanStarted fid) e = on_folder fid (silently scan_started) e"
| "take_event now (EvScanFinished fid) e = on_folder fid (scan_finished_folder fid now) e"
| "take_event now (EvScanAborted fid) e =
     on_folder fid (\<lambda>f. case scan_aborted f of
         (Some status, f) \<Rightarrow> ([AcStatusChanged fid status], f) | (None, f) \<Rightarrow> ([], f)) e"
| "take_event now (EvPeerConnected peer t) e = peer_connected peer t e"
| "take_event now (EvPeerTierChanged peer t) e = ([], e\<lparr>en_peers := bm_insert peer t (en_peers e)\<rparr>)"
| "take_event now (EvPeerDisconnected peer) e =
     ([], snd (each_folder (\<lambda>_ f. ([], fo_peer_gone peer f)) (e\<lparr>en_peers := bm_remove peer (en_peers e)\<rparr>)))"
| "take_event now (EvHaveUpToReceived peer fid s) e = on_folder fid (silently (have_up_to peer s)) e"
| "take_event now (EvBatchReceived peer b) e = on_folder (bt_folder b) (receive_folder now peer b) e"
| "take_event now (EvDecisionReceived peer d) e =
     on_folder (bd_folder d) (silently (acknowledged peer (bd_seq_high d))) e"
| "take_event now (EvApplied fid path v at out) e =
     on_folder fid (\<lambda>f. let (rs, f) = applied_at now path v at out f in (map (AcIndexChanged fid) rs, f)) e"
| "take_event now (EvTrashed fid path v at out) e =
     on_folder fid (\<lambda>f. let (rs, f) = fo_trashed now path v at out f in (map (AcIndexChanged fid) rs, f)) e"
| "take_event now (EvFetched fid path h v report) e = on_folder fid (fetched_folder fid now path v report) e"
| "take_event now (EvFetchProgress fid path h v) e = on_folder fid (silently (fo_progress now path v)) e"
| "take_event now (EvApprove fid b) e = en_approve now fid b e"
| "take_event now (EvDeny fid b) e =
     on_folder fid (\<lambda>f. if bm_has (q_items (fo_quarantine f)) b then request_folder fid now (UDeny b) f
       else ([AcStatusChanged fid (StUnknownBatch b)], f)) e"
| "take_event now (EvSpaceRecovered fid) e =
     on_folder fid (\<lambda>f. case space_recovered f of
         (Some status, f) \<Rightarrow> ([AcStatusChanged fid status], f) | (None, f) \<Rightarrow> ([], f)) e"
| "take_event now (EvRevert fid) e =
     on_folder fid (\<lambda>f. case fo_paused f of
         Some p \<Rightarrow> request_folder fid now (URevert (pz_batch p)) f
       | None \<Rightarrow> ([AcStatusChanged fid StNotPaused], f)) e"

section \<open>After the event\<close>

definition host_action :: "folder_id \<Rightarrow> host_step \<Rightarrow> action" where
  "host_action fid step =
     (case step of
        HFetch path v h sz peer \<Rightarrow> AcFetch fid path v h sz peer
      | HWrite path en expected displace \<Rightarrow> AcWrite fid path en expected displace
      | HRemove path expected displace \<Rightarrow> AcRemove fid path expected displace
      | HSetMeta path expected mtime exec \<Rightarrow> AcSetMeta fid path expected mtime exec
      | HTrash path v expected \<Rightarrow> AcMoveToTrash fid path v expected)"

definition pump_folder ::
    "timestamp \<Rightarrow> (node_id, tier) bmap \<Rightarrow> folder_id \<Rightarrow> folder \<Rightarrow> action list \<times> folder" where
  "pump_folder now peers fid f =
     (let ((steps, adopted), f) = fo_dispatch now peers f;
          (wants, f) = fo_want_changes f;
          (statuses, f) = take_statuses f
      in (map (host_action fid) steps @ map (AcIndexChanged fid) adopted @
          map (\<lambda>(path, w). AcWantChanged fid path w) wants @ map (AcStatusChanged fid) statuses, f))"

definition pump :: "timestamp \<Rightarrow> engine \<Rightarrow> action list \<times> engine" where
  "pump now e = each_folder (pump_folder now (en_peers e)) e"

definition observe_folder :: "folder_id \<Rightarrow> folder \<Rightarrow> action list \<times> folder" where
  "observe_folder fid f = (let (paths, f) = observe_requests f in (map (AcObserve fid) paths, f))"

definition en_observe :: "engine \<Rightarrow> action list \<times> engine" where
  "en_observe e = each_folder observe_folder e"

definition schedule_folder :: "action list \<times> engine \<Rightarrow> folder_id \<times> folder \<Rightarrow> action list \<times> engine" where
  "schedule_folder st row =
     (let (out, e) = st; (fid, f) = row in
      if wake_now f
      then (out @ [AcWakeAt (en_now e)], e\<lparr>en_woke := bm_remove fid (en_woke e)\<rparr>)
      else case fo_due f of
          Some due \<Rightarrow>
            if bm_get (en_woke e) fid \<noteq> Some due
            then (out @ [AcWakeAt due], e\<lparr>en_woke := bm_insert fid due (en_woke e)\<rparr>)
            else (out, e)
        | None \<Rightarrow> (out, e\<lparr>en_woke := bm_remove fid (en_woke e)\<rparr>))"

definition schedule :: "engine \<Rightarrow> action list \<times> engine" where
  "schedule e = foldl schedule_folder ([], e) (bm_entries (en_folders e))"

definition drain_folder :: "folder_id \<Rightarrow> folder \<Rightarrow> action list \<times> folder" where
  "drain_folder fid f =
     (let (pending, f) = fo_pending_changes f;
          (holds, f) = fo_held_changes f;
          (waits, f) = fo_deferred_changes f
      in (map (\<lambda>(path, row). AcPendingChanged fid path row) pending @
          map (\<lambda>(b, state, row). AcHeldChanged fid b state row) holds @
          map (\<lambda>(path, entries). AcDeferredChanged fid path entries) waits, f))"

definition persist_folder :: "action list \<times> engine \<Rightarrow> folder_id \<times> folder \<Rightarrow> action list \<times> engine" where
  "persist_folder st row =
     (let (out, e) = st; (fid, f) = row;
          r = folder_rest f;
          (out, e) = (if bm_get (en_rested e) fid \<noteq> Some r
             then (out @ [AcRestChanged fid r], e\<lparr>en_rested := bm_insert fid r (en_rested e)\<rparr>)
             else (out, e));
          (changes, f) = drain_folder fid f
      in (out @ changes, e\<lparr>en_folders := bm_insert fid f (en_folders e)\<rparr>))"

definition persist :: "engine \<Rightarrow> action list \<times> engine" where
  "persist e = foldl persist_folder ([], e) (bm_entries (en_folders e))"

text \<open>When each record was last written: every write the engine makes is one of its actions.\<close>

definition note_write :: "timestamp \<Rightarrow> engine \<Rightarrow> action \<Rightarrow> engine" where
  "note_write now e a =
     (let wrote = (\<lambda>fid path. case bm_get (en_folders e) fid of
            Some f \<Rightarrow> e\<lparr>en_folders := bm_insert fid (fo_wrote path now f) (en_folders e)\<rparr>
          | None \<Rightarrow> e)
      in case a of
           AcIndexChanged fid record \<Rightarrow> wrote fid (e_path (ir_entry record))
         | AcIndexRemoved fid path \<Rightarrow> wrote fid path
         | _ \<Rightarrow> e)"

definition handle :: "timestamp \<Rightarrow> event \<Rightarrow> engine \<Rightarrow> action list \<times> engine" where
  "handle now event e =
     (let (out, e) = take_event now event (e\<lparr>en_now := now\<rparr>);
          (settled, e) = settle now e;
          (pumped, e) = pump now e;
          (observed, e) = en_observe e;
          (woken, e) = schedule e;
          (persisted, e) = persist e;
          out = out @ settled @ pumped @ observed @ woken @ persisted
      in (out, foldl (note_write now) e out))"

text \<open>A run of the engine: its events, each at its time.\<close>

fun run_events :: "(timestamp \<times> event) list \<Rightarrow> engine \<Rightarrow> action list \<times> engine" where
  "run_events [] e = ([], e)"
| "run_events ((now, event) # evs) e =
     (let (out, e) = handle now event e; (more, e) = run_events evs e in (out @ more, e))"

lemmas [eval_simps] =
  engine_new_def restore_one_def engine_restore_def en_folder_def unknown_folder_def on_folder_def
  each_folder_def index_write_def decide_def run_next_def settle_def send_batches_def tick_folder_def
  en_tick_def receive_folder_def scanned_folder_def scan_finished_folder_def fetched_folder_def
  request_folder_def en_approve_def peer_connected_def silently_def host_action_def pump_folder_def
  pump_def observe_folder_def en_observe_def schedule_folder_def schedule_def drain_folder_def
  persist_folder_def persist_def note_write_def handle_def

end
