(* ===== verification/FolderLaws.thy ===== *)
theory FolderLaws
  imports Committing WantViews QuarantineViews
begin

text \<open>
  What the folder's operations do to the parts they share. \<open>inbound\<close> is what re-classifying and
  admitting does: it moves the want-list by quiet steps and the quarantine by its own operations, it
  freezes nothing, and it leaves every other field alone. \<open>moves\<close> is what any operation does:
  each part by its own steps, so that the parts' invariants hold of the folder.
\<close>

section \<open>The deferred entries, path by path\<close>

definition ds_list :: "deferred_set \<Rightarrow> rel_path \<Rightarrow> deferred list" where
  "ds_list ds p = (case bm_get (ds_rows ds) p of Some l \<Rightarrow> l | None \<Rightarrow> [])"

lemma ds_list_default [simp]: "ds_list ds_default p = []"
  by (simp add: ds_list_def ds_default_def)

lemma ds_list_push [simp]: "ds_list (ds_push p d ds) q = (if q = p then ds_list ds p @ [d] else ds_list ds q)"
  by (simp add: ds_list_def ds_push_def)

lemma ds_take_where_simps [simp]:
  "fst (ds_take_where p P ds) = filter P (ds_list ds p)"
  "ds_list (snd (ds_take_where p P ds)) q =
     (if q = p then filter (\<lambda>d. \<not> P d) (ds_list ds p) else ds_list ds q)"
  by (auto simp: ds_take_where_def ds_list_def Let_def comp_def split: option.split)

lemma ds_clear_restoring_list [simp]:
  "ds_list (ds_clear_restoring p ds) q =
     (if q = p then map (\<lambda>d. d\<lparr>df_restoring := None, df_trashed := None\<rparr>) (ds_list ds p) else ds_list ds q) \<or>
   ds_clear_restoring p ds = ds"
  by (auto simp: ds_clear_restoring_def ds_list_def split: option.split)

lemma ds_drain_list [simp]: "ds_list (snd (ds_drain_changes ds)) p = ds_list ds p"
  by (simp add: ds_drain_changes_def ds_list_def changed_take_def)

text \<open>Every entry waits at its own path.\<close>

definition waits_at :: "rel_path \<Rightarrow> deferred \<Rightarrow> bool" where
  "waits_at p d \<longleftrightarrow> e_path (df_entry d) = p \<and> (\<forall>e. df_restoring d = Some e \<longrightarrow> e_path e = p)"

definition ds_ok :: "deferred_set \<Rightarrow> bool" where
  "ds_ok ds \<longleftrightarrow> (\<forall>p. \<forall>d \<in> set (ds_list ds p). waits_at p d)"

definition frozen_at :: "deferred_set \<Rightarrow> rel_path \<Rightarrow> entry set" where
  "frozen_at ds p = df_entry ` {d \<in> set (ds_list ds p). df_reason d = Frozen}"

definition thaws :: "deferred_set \<Rightarrow> deferred_set \<Rightarrow> bool" where
  "thaws ds ds' \<longleftrightarrow> (ds_ok ds \<longrightarrow> ds_ok ds') \<and> (\<forall>p. frozen_at ds' p \<subseteq> frozen_at ds p)"

lemma thaws_refl [simp]: "thaws ds ds"
  by (simp add: thaws_def)

lemma thaws_trans: "thaws a b \<Longrightarrow> thaws b c \<Longrightarrow> thaws a c"
  unfolding thaws_def by blast

lemma thaws_push: "waits_at p d \<Longrightarrow> df_reason d \<noteq> Frozen \<Longrightarrow> thaws ds (ds_push p d ds)"
  by (auto simp: thaws_def ds_ok_def frozen_at_def)

lemma thaws_take: "thaws ds (snd (ds_take_where p P ds))"
  by (auto simp: thaws_def ds_ok_def frozen_at_def)

lemma thaws_clear: "thaws ds (ds_clear_restoring p ds)"
proof (cases "ds_clear_restoring p ds = ds")
  case False
  then have "ds_list (ds_clear_restoring p ds) q =
      (if q = p then map (\<lambda>d. d\<lparr>df_restoring := None, df_trashed := None\<rparr>) (ds_list ds p) else ds_list ds q)" for q
    using ds_clear_restoring_list [of p ds q] by blast
  then show ?thesis by (force simp: thaws_def ds_ok_def waits_at_def frozen_at_def)
qed simp

section \<open>What admitting moves\<close>

definition others_of :: "folder \<Rightarrow> folder" where
  "others_of f = f\<lparr>fo_wants := wl_default, fo_deferred := ds_default, fo_quarantine := q_default,
     fo_statuses := [], fo_winner_fallbacks := 0\<rparr>"

definition inbound :: "folder \<Rightarrow> folder \<Rightarrow> bool" where
  "inbound f f' \<longleftrightarrow> others_of f' = others_of f \<and> calm_step\<^sup>*\<^sup>* (fo_wants f) (fo_wants f') \<and>
     q_step\<^sup>*\<^sup>* (fo_quarantine f) (fo_quarantine f') \<and> thaws (fo_deferred f) (fo_deferred f')"

named_theorems inbounds \<open>what leaves all but the inbound parts alone\<close>

lemma others_ofD:
  assumes "others_of f' = others_of f"
  shows "fo_id f' = fo_id f" "fo_rules f' = fo_rules f" "fo_members f' = fo_members f"
    "fo_index f' = fo_index f" "fo_window f' = fo_window f" "fo_scan f' = fo_scan f"
    "fo_acked f' = fo_acked f" "fo_catchup f' = fo_catchup f" "fo_paused f' = fo_paused f"
    "fo_queued f' = fo_queued f" "fo_startup_scan f' = fo_startup_scan f"
    "fo_unobserved f' = fo_unobserved f" "fo_observing f' = fo_observing f"
    "fo_reported f' = fo_reported f" "fo_last_observed f' = fo_last_observed f"
    "fo_record_written f' = fo_record_written f" "fo_disk_full f' = fo_disk_full f"
  using assms by (cases f; cases f'; simp add: others_of_def)+

lemma inbound_fields:
  assumes "inbound f f'"
  shows "fo_id f' = fo_id f" "fo_rules f' = fo_rules f" "fo_members f' = fo_members f"
    "fo_index f' = fo_index f" "fo_window f' = fo_window f" "fo_scan f' = fo_scan f"
    "fo_acked f' = fo_acked f" "fo_catchup f' = fo_catchup f" "fo_paused f' = fo_paused f"
    "fo_queued f' = fo_queued f" "fo_startup_scan f' = fo_startup_scan f"
    "fo_unobserved f' = fo_unobserved f" "fo_observing f' = fo_observing f"
    "fo_reported f' = fo_reported f" "fo_last_observed f' = fo_last_observed f"
    "fo_record_written f' = fo_record_written f" "fo_disk_full f' = fo_disk_full f"
  using assms others_ofD [of f' f] by (simp_all add: inbound_def)

lemma inbound_refl [simp, inbounds]: "inbound f f"
  by (simp add: inbound_def)

lemma inbound_trans [trans]: "inbound f g \<Longrightarrow> inbound g h \<Longrightarrow> inbound f h"
  unfolding inbound_def by (metis rtranclp_trans thaws_trans)

lemma inbound_fold:
  fixes f0 :: folder
  assumes "\<And>f x. x \<in> set xs \<Longrightarrow> fo_index f = fo_index f0 \<Longrightarrow> inbound f (g f x)"
    and "fo_index f = fo_index f0"
  shows "inbound f (foldl g f xs)"
  using assms
proof (induction xs arbitrary: f)
  case (Cons x xs)
  then have step: "inbound f (g f x)" by simp
  have "fo_index (g f x) = fo_index f0" using inbound_fields(4) [OF step] Cons.prems(2) by simp
  then have "inbound (g f x) (foldl g (g f x) xs)" using Cons by simp
  with step show ?case by (auto intro: inbound_trans)
qed simp

lemma inbound_wants:
  "calm_step\<^sup>*\<^sup>* (fo_wants f) wl \<Longrightarrow> inbound f (f\<lparr>fo_wants := wl\<rparr>)"
  by (simp add: inbound_def others_of_def)

lemma inbound_calm [inbounds]: "calm_step (fo_wants f) wl \<Longrightarrow> inbound f (f\<lparr>fo_wants := wl\<rparr>)"
  by (intro inbound_wants r_into_rtranclp)

lemma inbound_quarantine [inbounds]:
  "q_step\<^sup>*\<^sup>* (fo_quarantine f) q \<Longrightarrow> inbound f (f\<lparr>fo_quarantine := q\<rparr>)"
  by (simp add: inbound_def others_of_def)

lemma inbound_deferred [inbounds]: "thaws (fo_deferred f) ds \<Longrightarrow> inbound f (f\<lparr>fo_deferred := ds\<rparr>)"
  by (simp add: inbound_def others_of_def)

lemma push_status_inbound [inbounds]: "inbound f (push_status st f)"
  by (simp add: inbound_def others_of_def push_status_def)

lemma count_fallback_inbound [inbounds]: "inbound f (count_fallback c f)"
  by (simp add: inbound_def others_of_def count_fallback_def)

lemma calm_fold: "(\<And>wl x. x \<in> set xs \<Longrightarrow> calm_step wl (g wl x)) \<Longrightarrow> calm_step\<^sup>*\<^sup>* wl (foldl g wl xs)"
  by (induction xs arbitrary: wl) (auto intro: converse_rtranclp_into_rtranclp)

lemma q_join_fold: "q_step\<^sup>*\<^sup>* q (foldl (\<lambda>q e. snd (q_join b e q)) q es)"
  by (induction es arbitrary: q) (auto intro: converse_rtranclp_into_rtranclp q_step.join)

section \<open>Admitting\<close>

lemma ai_path_neither_holder [simp]: "ai_path (neither_holder item) = ai_path item"
  by (simp add: neither_holder_def ai_path_def)

lemma refused_item: "fst (wl_insert item e b s h m wl) = Some item' \<Longrightarrow> item' = item"
  by (auto simp: wl_insert_def Let_def split: option.splits if_splits)

lemma fo_want_as_cases:
  assumes rec: "e_path received = ai_path item"
  obtains wl where "calm_step (fo_wants f) wl"
    "fo_want_as item received b source h mark f =
       f\<lparr>fo_wants := remember_trashed (ai_path item) (Option.bind mark (\<lambda>t. t)) wl\<rparr>"
  | wl d where "calm_step (fo_wants f) wl"
    "fo_want_as item received b source h mark f =
       f\<lparr>fo_wants := wl, fo_deferred := ds_push (ai_path item) d (fo_deferred f)\<rparr>"
    "df_entry d = received" "df_reason d = ChangedUnderneath" "df_restoring d = None"
proof -
  define it where "it = (case mark of None \<Rightarrow> item | Some _ \<Rightarrow> neither_holder item)"
  define oth where "oth = (case mark of None \<Rightarrow> None | Some _ \<Rightarrow> Some (fo_others f))"
  obtain refused wl where ins: "wl_insert it received b source h oth (fo_wants f) = (refused, wl)" by fastforce
  have same: "ai_path it = ai_path item" by (simp add: it_def split: option.split)
  then have step: "calm_step (fo_wants f) wl"
    using calm_step.insert [of received it "fo_wants f" b source h oth] rec by (simp add: ins)
  have def: "fo_want_as item received b source h mark f =
     (case refused of Some item \<Rightarrow> f\<lparr>fo_wants := wl, fo_deferred := ds_push (ai_path item)
          \<lparr>df_entry = received, df_batch = b, df_source = source, df_seq_high = h,
           df_reason = ChangedUnderneath, df_restoring = None, df_trashed = None\<rparr> (fo_deferred f)\<rparr>
      | None \<Rightarrow> f\<lparr>fo_wants := remember_trashed (ai_path item) (Option.bind mark (\<lambda>t. t)) wl\<rparr>)"
    using ins by (cases mark; cases refused) (simp_all add: fo_want_as_def it_def oth_def Let_def)
  show thesis
  proof (cases refused)
    case None
    with that(1) [OF step] def show ?thesis by simp
  next
    case (Some x)
    then have "x = it" using refused_item [of it received b source h oth "fo_wants f" x] ins by simp
    with that(2) [OF step] def Some same show ?thesis by simp
  qed
qed

lemma fo_want_as_inbound:
  assumes "e_path received = ai_path item"
  shows "inbound f (fo_want_as item received b source h mark f)"
proof (rule fo_want_as_cases [OF assms, of f b source h mark])
  fix wl
  assume "calm_step (fo_wants f) wl" and "fo_want_as item received b source h mark f =
       f\<lparr>fo_wants := remember_trashed (ai_path item) (Option.bind mark (\<lambda>t. t)) wl\<rparr>"
  moreover from this(1) have "calm_step\<^sup>*\<^sup>* (fo_wants f)
      (remember_trashed (ai_path item) (Option.bind mark (\<lambda>t. t)) wl)"
    by (rule r_into_rtranclp [THEN rtranclp.rtrancl_into_rtrancl]) (rule calm_step.trashed)
  ultimately show ?thesis by (simp add: inbound_wants)
next
  fix wl d
  assume d: "fo_want_as item received b source h mark f =
       f\<lparr>fo_wants := wl, fo_deferred := ds_push (ai_path item) d (fo_deferred f)\<rparr>"
    "df_entry d = received" "df_reason d = ChangedUnderneath" "df_restoring d = None" and "calm_step (fo_wants f) wl"
  then have "inbound f (f\<lparr>fo_wants := wl\<rparr>)" by (simp add: inbound_calm)
  also have "inbound (f\<lparr>fo_wants := wl\<rparr>) (f\<lparr>fo_wants := wl, fo_deferred := ds_push (ai_path item) d (fo_deferred f)\<rparr>)"
    using inbound_deferred [of "f\<lparr>fo_wants := wl\<rparr>", OF thaws_push [of "ai_path item" d]] d assms
    by (simp add: waits_at_def)
  finally show ?thesis unfolding d(1) .
qed

lemma fo_want_inbound: "e_path received = ai_path item \<Longrightarrow> inbound f (fo_want item received b source h f)"
  unfolding fo_want_def by (rule fo_want_as_inbound)

definition cand_ok :: "candidate \<Rightarrow> bool" where
  "cand_ok c \<longleftrightarrow> e_path (cd_raw c) = ai_path (cd_item c)"

definition groups_ok :: "groups \<Rightarrow> bool" where
  "groups_ok g \<longleftrightarrow> (\<forall>k l item raw. bm_get g k = Some l \<longrightarrow> (item, raw) \<in> set l \<longrightarrow> e_path raw = ai_path item)"

lemma groups_ok_push:
  assumes "groups_ok g" and "e_path raw = ai_path item"
  shows "groups_ok (bm_insert k ((case bm_get g k of Some l \<Rightarrow> l | None \<Rightarrow> []) @ [(item, raw)]) g)"
  unfolding groups_ok_def
proof (intro allI impI)
  fix k' l i r
  assume "bm_get (bm_insert k ((case bm_get g k of Some l \<Rightarrow> l | None \<Rightarrow> []) @ [(item, raw)]) g) k' = Some l"
    and "(i, r) \<in> set l"
  then have "(i, r) = (item, raw) \<or> (\<exists>l'. bm_get g k' = Some l' \<and> (i, r) \<in> set l')"
    by (cases "k' = k"; cases "bm_get g k") auto
  then consider "(i, r) = (item, raw)" | l' where "bm_get g k' = Some l'" "(i, r) \<in> set l'" by blast
  then show "e_path r = ai_path i"
  proof cases
    case 2
    then show ?thesis using assms(1) unfolding groups_ok_def by blast
  qed (use assms(2) in simp)
qed

lemma admit_one_inbound:
  assumes "admit_one brake (g, j, f) c = (g', j', f')" and "cand_ok c" and "groups_ok g"
  shows "inbound f f' \<and> groups_ok g'"
proof (cases "already_wanted f (cd_item c)")
  case True
  with assms show ?thesis
    by (auto simp: admit_one_def Let_def intro: inbound_calm calm_step.announced)
next
  case False
  have q: "inbound f (f\<lparr>fo_quarantine := snd (q_join b e (fo_quarantine f))\<rparr>)" for b e
    by (intro inbound_quarantine r_into_rtranclp q_step.join)
  show ?thesis
  proof (cases "q_matching (fo_quarantine f) (cd_raw c)")
    case None
    with False assms q groups_ok_push [of g "cd_raw c" "cd_item c"] show ?thesis
      by (auto simp: admit_one_def Let_def cand_ok_def split: if_splits)
  next
    case (Some b)
    with False assms q show ?thesis by (auto simp: admit_one_def Let_def)
  qed
qed

lemma admit_fold_inbound:
  assumes "foldl (admit_one brake) (g, j, f) cs = (g', j', f')" and "\<forall>c \<in> set cs. cand_ok c"
    and "groups_ok g"
  shows "inbound f f' \<and> groups_ok g'"
  using assms
proof (induction cs arbitrary: g j f)
  case (Cons c cs)
  obtain g1 j1 f1 where one: "admit_one brake (g, j, f) c = (g1, j1, f1)" by (metis prod_cases3)
  with Cons.prems have "inbound f f1 \<and> groups_ok g1" by (intro admit_one_inbound) auto
  moreover from this Cons.prems one have "inbound f1 f' \<and> groups_ok g'" by (intro Cons.IH [of g1 j1 f1]) auto
  ultimately show ?case by (auto intro: inbound_trans)
qed simp

lemma keyed_of_list:
  assumes "\<forall>(p, e) \<in> set xs. e_path e = p"
  shows "bm_get (bm_of_list xs) p = Some e \<Longrightarrow> e_path e = p"
  using assms by (auto simp: bm_get_of_list dest!: map_of_SomeD)

lemma want_all_inbound:
  assumes "\<And>p e. bm_get raws p = Some e \<Longrightarrow> e_path e = p"
  shows "inbound f (want_all b s h raws items f)"
proof -
  have "inbound f (snd (foldl (\<lambda>(raws, f) item.
         let received = (case bm_get raws (ai_path item) of Some e \<Rightarrow> e | None \<Rightarrow> ai_entry item)
         in (bm_remove (ai_path item) raws, fo_want item received b s h f)) (raws, f) items))"
    using assms
  proof (induction items arbitrary: raws f)
    case (Cons item items)
    define e where "e = (case bm_get raws (ai_path item) of Some e \<Rightarrow> e | None \<Rightarrow> ai_entry item)"
    have "e_path e = ai_path item"
      using Cons.prems by (auto simp: e_def ai_path_def split: option.split)
    then have one: "inbound f (fo_want item e b s h f)" by (rule fo_want_inbound)
    moreover have "e_path e = p" if "bm_get (bm_remove (ai_path item) raws) p = Some e" for p e
      using Cons.prems that by (auto split: if_splits)
    note Cons.IH [of "bm_remove (ai_path item) raws" "fo_want item e b s h f", OF this]
    ultimately show ?case by (auto simp: Let_def e_def intro: inbound_trans)
  qed simp
  then show ?thesis by (simp add: want_all_def)
qed

lemma admit_group_inbound:
  assumes "\<forall>(item, raw) \<in> set pairs. e_path raw = ai_path item"
  shows "inbound f (admit_group now brake f (k, pairs))"
proof -
  obtain b s h where k: "k = (b, s, h)" by (metis prod_cases3)
  define raws where "raws = bm_of_list (map (\<lambda>(item, raw). (ai_path item, raw)) (sort_key (\<lambda>(item, _). ai_path item) pairs))"
  have raws: "bm_get raws p = Some e \<Longrightarrow> e_path e = p" for p e
    unfolding raws_def by (rule keyed_of_list) (use assms in auto)
  have hold: "inbound f (f\<lparr>fo_quarantine := q_hold \<lparr>hi_batch = b, hi_source = s, hi_seq_high = h,
      hi_held_at = now, hi_reason = r, hi_entries = raws\<rparr> (fo_quarantine f)\<rparr>)" for r
    by (intro inbound_quarantine r_into_rtranclp q_step.hold) (simp add: item_ok_def raws)
  have join: "inbound f (f\<lparr>fo_quarantine :=
      foldl (\<lambda>q raw. snd (q_join b raw q)) (fo_quarantine f) (bm_values raws)\<rparr>)"
    by (intro inbound_quarantine q_join_fold)
  note want = want_all_inbound [of raws f b s h, OF raws]
  show ?thesis
    unfolding k admit_group_def Let_def prod.case raws_def [symmetric]
    by (auto simp: want split: verdict.split intro: inbound_trans [OF hold push_status_inbound]
        inbound_trans [OF join push_status_inbound])
qed

lemma admit_inbound:
  assumes "\<forall>c \<in> set cs. cand_ok c"
  shows "inbound f (admit now cs brake f)"
proof -
  obtain g j f1 where one: "foldl (admit_one brake) (bm_empty, bm_empty, f) cs = (g, j, f1)"
    by (metis prod_cases3)
  then have f1: "inbound f f1" "groups_ok g"
    using admit_fold_inbound [OF one assms] by (simp_all add: groups_ok_def)
  define f2 where "f2 = foldl (\<lambda>f (b, count). push_status (StJoinedHeld b count) f) f1 (bm_entries j)"
  have "inbound f1 f2" unfolding f2_def
    by (rule inbound_fold [of _ f1]) (auto intro: push_status_inbound)
  moreover have "inbound f2 (foldl (admit_group now brake) f2 (bm_entries g))"
  proof (rule inbound_fold [of _ f2])
    show "inbound f (admit_group now brake f x)" if "x \<in> set (bm_entries g)" for f x
      using f1(2) that by (cases x) (auto simp: groups_ok_def in_bm_entries intro!: admit_group_inbound)
  qed simp
  ultimately show ?thesis
    using f1(1) one by (simp add: admit_def f2_def Let_def) (blast intro: inbound_trans)
qed

section \<open>Classifying again\<close>

lemma classify_deferred_inbound:
  assumes "classify_deferred ds f = (cs, f')" and "ix_ok (fo_index f)"
  shows "inbound f f' \<and> (\<forall>c \<in> set cs. cand_ok c)"
proof -
  have "foldl (\<lambda>(out, f) d.
         let c = classify (fo_index f) (df_entry d); f = count_fallback c f
         in case cl_item c of
              Some item \<Rightarrow>
                (out @ [\<lparr>cd_item = item, cd_raw = df_entry d, cd_batch = df_batch d,
                         cd_source = df_source d, cd_seq_high = df_seq_high d\<rparr>], f)
            | None \<Rightarrow> (out, f)) (out, f) ds = (cs, f') \<Longrightarrow> \<forall>c \<in> set out. cand_ok c \<Longrightarrow> ix_ok (fo_index f) \<Longrightarrow>
      inbound f f' \<and> (\<forall>c \<in> set cs. cand_ok c)" for out f
  proof (induction ds arbitrary: out f)
    case (Cons d ds)
    define c where "c = classify (fo_index f) (df_entry d)"
    define f1 where "f1 = count_fallback c f"
    have one: "inbound f f1" unfolding f1_def by (rule count_fallback_inbound)
    then have ix: "ix_ok (fo_index f1)" using Cons.prems(3) by (simp add: inbound_fields)
    have "\<exists>out1. (\<forall>c \<in> set out1. cand_ok c) \<and> foldl (\<lambda>(out, f) d.
         let c = classify (fo_index f) (df_entry d); f = count_fallback c f
         in case cl_item c of
              Some item \<Rightarrow>
                (out @ [\<lparr>cd_item = item, cd_raw = df_entry d, cd_batch = df_batch d,
                         cd_source = df_source d, cd_seq_high = df_seq_high d\<rparr>], f)
            | None \<Rightarrow> (out, f)) (out1, f1) ds = (cs, f')"
    proof (cases "cl_item c")
      case None
      with Cons.prems show ?thesis by (auto simp: Let_def c_def f1_def)
    next
      case (Some item)
      then have "cand_ok \<lparr>cd_item = item, cd_raw = df_entry d, cd_batch = df_batch d,
          cd_source = df_source d, cd_seq_high = df_seq_high d\<rparr>"
        using classify_path [OF Cons.prems(3)] by (simp add: cand_ok_def c_def)
      with Some Cons.prems show ?thesis
        by (intro exI [of _ "out @ [\<lparr>cd_item = item, cd_raw = df_entry d, cd_batch = df_batch d,
          cd_source = df_source d, cd_seq_high = df_seq_high d\<rparr>]"]) (simp add: Let_def c_def f1_def)
    qed
    then have "inbound f1 f' \<and> (\<forall>c \<in> set cs. cand_ok c)" using Cons.IH ix by blast
    with one show ?case by (blast intro: inbound_trans)
  qed simp
  with assms show ?thesis by (simp add: classify_deferred_def)
qed

lemma readmit_inbound:
  assumes "classify_deferred ds f = (cs, f')" and "ix_ok (fo_index f)"
  shows "inbound f (admit now cs brake f')"
  using classify_deferred_inbound [OF assms] admit_inbound [of cs f' now brake]
  by (blast intro: inbound_trans)

lemma reconsider_inbound [inbounds]:
  assumes "ix_ok (fo_index f)"
  shows "inbound f (reconsider now p r f)"
proof -
  define ds where "ds = ds_take_where p (\<lambda>d. df_reason d = r) (fo_deferred f)"
  define f1 where "f1 = f\<lparr>fo_deferred := snd ds\<rparr>"
  have one: "inbound f f1" unfolding f1_def ds_def by (intro inbound_deferred thaws_take)
  obtain cs f2 where two: "classify_deferred (fst ds) f1 = (cs, f2)" by fastforce
  have "inbound f1 (admit now cs True f2)"
    by (rule readmit_inbound [OF two]) (use assms in \<open>simp add: f1_def\<close>)
  with one have "inbound f (admit now cs True f2)" by (rule inbound_trans)
  with one two show ?thesis
    unfolding reconsider_def ds_def [symmetric] by (simp add: f1_def case_prod_unfold Let_def)
qed

lemma rederive_inbound [inbounds]:
  assumes "ix_ok (fo_index f)"
  shows "inbound f (rederive now old f)"
proof -
  define c where "c = classify (fo_index f) (w_received old)"
  define f1 where "f1 = count_fallback c f"
  have one: "inbound f f1" unfolding f1_def by (rule count_fallback_inbound)
  show ?thesis
  proof (cases "cl_item c")
    case None
    with one show ?thesis by (simp add: rederive_def Let_def c_def f1_def)
  next
    case (Some item)
    define f2 where "f2 = admit now [\<lparr>cd_item = item, cd_raw = w_received old, cd_batch = w_batch old,
      cd_source = w_source old, cd_seq_high = w_seq_high old\<rparr>] True f1"
    have two: "inbound f1 f2" unfolding f2_def
      by (rule admit_inbound) (use classify_path [OF assms] Some in \<open>simp add: cand_ok_def c_def\<close>)
    define f3 where "f3 = f2\<lparr>fo_wants := foldl (\<lambda>wl src.
      note_announced (w_path old) (e_hash (w_entry old)) src wl) (fo_wants f2) (bm_keys (w_sources old))\<rparr>"
    have three: "inbound f2 f3"
      unfolding f3_def by (intro inbound_wants calm_fold calm_step.announced)
    have "inbound f3 (f3\<lparr>fo_wants := keep_refusals (w_path old) (e_hash (w_entry old)) (w_refused old) (fo_wants f3)\<rparr>)"
      by (intro inbound_calm calm_step.refusals)
    with one two three Some show ?thesis
      unfolding rederive_def Let_def c_def [symmetric] f1_def [symmetric]
      by (simp add: f2_def [symmetric] f3_def [symmetric]) (blast intro: inbound_trans)
  qed
qed

lemma reclassify_want_inbound [inbounds]:
  assumes "ix_ok (fo_index f)"
  shows "inbound f (reclassify_want now p f)"
proof -
  obtain w wl where take: "wl_take p (fo_wants f) = (w, wl)" by fastforce
  then have one: "inbound f (f\<lparr>fo_wants := wl\<rparr>)"
    using calm_step.taken [of "fo_wants f" p] by (simp add: inbound_calm)
  show ?thesis
  proof (cases w)
    case None
    with one take show ?thesis by (simp add: reclassify_want_def)
  next
    case (Some old)
    have "inbound (f\<lparr>fo_wants := wl\<rparr>) (rederive now old (f\<lparr>fo_wants := wl\<rparr>))"
      using assms by (intro rederive_inbound) simp
    with one take Some show ?thesis by (auto simp: reclassify_want_def intro: inbound_trans)
  qed
qed

lemma clear_carriers_inbound [inbounds]: "inbound f (clear_carriers p f)"
  unfolding clear_carriers_def by (intro inbound_deferred thaws_clear)

lemma unmark_inbound [inbounds]: "inbound f (snd (unmark p f))"
proof -
  have "inbound (clear_carriers p f) ((clear_carriers p f)\<lparr>fo_wants := snd (wl_take p (fo_wants (clear_carriers p f)))\<rparr>)"
    by (intro inbound_calm calm_step.taken)
  then show ?thesis
    using clear_carriers_inbound [of f p]
    by (auto simp: unmark_def Let_def split: prod.split intro: inbound_trans)
qed

lemma unfreeze_inbound:
  assumes "ix_ok (fo_index f)"
  shows "inbound f (unfreeze now f)" and "frozen_at (fo_deferred (unfreeze now f)) p = {}"
proof -
  define g where "g = (\<lambda>(frozen, ds) path.
      let (taken, ds) = ds_take_where path (\<lambda>d. df_reason d = Frozen) ds in (frozen @ taken, ds))"
  have fold: "thaws ds (snd (foldl g (fr, ds) ps)) \<and>
      (p \<in> set ps \<longrightarrow> frozen_at (snd (foldl g (fr, ds) ps)) p = {})" for fr ds ps
  proof (induction ps arbitrary: fr ds)
    case (Cons q ps)
    define ds1 where "ds1 = snd (ds_take_where q (\<lambda>d. df_reason d = Frozen) ds)"
    have g: "foldl g (fr, ds) (q # ps) =
        foldl g (fr @ fst (ds_take_where q (\<lambda>d. df_reason d = Frozen) ds), ds1) ps"
      by (simp add: g_def ds1_def case_prod_unfold Let_def)
    have t: "thaws ds ds1" unfolding ds1_def by (rule thaws_take)
    have "frozen_at ds1 q = {}" by (auto simp: ds1_def frozen_at_def)
    moreover have "frozen_at (snd (foldl g (fr', ds1) ps)) p \<subseteq> frozen_at ds1 p" for fr'
      using Cons.IH [of ds1 fr'] by (auto simp: thaws_def)
    ultimately show ?case
      unfolding g using Cons.IH [of ds1] t by (auto intro: thaws_trans)
  qed simp
  obtain fr ds where fd: "foldl g ([], fo_deferred f) (ds_paths (fo_deferred f)) = (fr, ds)" by fastforce
  note ds = fold [of "fo_deferred f" "[]" "ds_paths (fo_deferred f)", unfolded fd snd_conv]
  define f1 where "f1 = f\<lparr>fo_deferred := ds\<rparr>"
  have one: "inbound f f1"
    unfolding f1_def using ds by (intro inbound_deferred) blast
  obtain cs f2 where two: "classify_deferred fr f1 = (cs, f2)" by fastforce
  have rest: "inbound f1 (admit now cs True f2)"
    by (rule readmit_inbound [OF two]) (use assms in \<open>simp add: f1_def\<close>)
  have def: "unfreeze now f = admit now cs True f2"
    using two unfolding unfreeze_def g_def [unfolded Let_def, symmetric] Let_def fd f1_def by simp
  show "inbound f (unfreeze now f)" unfolding def using one rest by (rule inbound_trans)
  have "frozen_at ds p = {}"
  proof (cases "p \<in> set (ds_paths (fo_deferred f))")
    case True
    with ds show ?thesis by blast
  next
    case False
    then have "ds_list (fo_deferred f) p = []"
      by (auto simp: ds_paths_def ds_list_def in_bm_keys bm_has_def split: option.split)
    then have "frozen_at (fo_deferred f) p = {}" by (simp add: frozen_at_def)
    with ds show ?thesis unfolding thaws_def by blast
  qed
  with rest show "frozen_at (fo_deferred (unfreeze now f)) p = {}"
    by (auto simp: def inbound_def thaws_def f1_def)
qed

lemma rewant_carriers_inbound:
  assumes "ds_ok (fo_deferred f)"
  shows "inbound f (rewant_carriers p f)"
proof (cases "is_some_and is_trash (wl_get (fo_wants f) p)")
  case False
  obtain ds' taken where take: "ds_take_where p (\<lambda>d. df_restoring d \<noteq> None) (fo_deferred f) = (taken, ds')"
    by fastforce
  have "taken = filter (\<lambda>d. df_restoring d \<noteq> None) (ds_list (fo_deferred f) p)"
    using arg_cong [OF take, of fst] by (simp del: not_None_eq)
  then have at: "waits_at p d" if "d \<in> set taken" for d
    using assms that by (simp add: ds_ok_def)
  have "thaws (fo_deferred f) ds'"
    using thaws_take [of "fo_deferred f" p "\<lambda>d. df_restoring d \<noteq> None"] unfolding take snd_conv .
  then have "inbound f (f\<lparr>fo_deferred := ds'\<rparr>)" by (rule inbound_deferred)
  also have "inbound (f\<lparr>fo_deferred := ds'\<rparr>) (foldl (\<lambda>f d. case df_restoring d of
       None \<Rightarrow> f
     | Some e \<Rightarrow> fo_want_as \<lparr>ai_entry = e, ai_mode = Fetch, ai_conflict = None\<rparr> (df_entry d) (df_batch d)
           (df_source d) (df_seq_high d) (Some (df_trashed d)) f) (f\<lparr>fo_deferred := ds'\<rparr>) taken)"
  proof (rule inbound_fold [of _ f])
    fix g d assume "d \<in> set taken"
    then have "waits_at p d" by (rule at)
    then show "inbound g (case df_restoring d of
       None \<Rightarrow> g
     | Some e \<Rightarrow> fo_want_as \<lparr>ai_entry = e, ai_mode = Fetch, ai_conflict = None\<rparr> (df_entry d) (df_batch d)
           (df_source d) (df_seq_high d) (Some (df_trashed d)) g)"
      by (auto simp: waits_at_def ai_path_def intro!: fo_want_as_inbound split: option.split)
  qed simp
  finally show ?thesis using False take by (simp add: rewant_carriers_def del: not_None_eq)
qed (simp add: rewant_carriers_def)

end
