(* ===== verification/FolderSteps.thy ===== *)
theory FolderSteps
  imports FolderLaws
begin

text \<open>
  The folder's invariant \<open>fo_ok\<close>, and what each operation keeps of it: \<open>keeps\<close> also says that the
  pause, what was announced, and the commits in flight stand.
\<close>

section \<open>The invariant\<close>

definition fo_ok :: "folder \<Rightarrow> bool" where
  "fo_ok f \<longleftrightarrow> ix_ok (fo_index f) \<and> q_ok (fo_quarantine f) \<and> wl_ok (fo_wants f) \<and> ds_ok (fo_deferred f) \<and>
     (fo_paused f = None \<longrightarrow> (\<forall>p. frozen_at (fo_deferred f) p = {})) \<and>
     distinct (map qu_decision (fo_queued f))"

definition still :: "rel_path set \<Rightarrow> folder \<Rightarrow> folder \<Rightarrow> bool" where
  "still C f f' \<longleftrightarrow> map_option pz_batch (fo_paused f') = map_option pz_batch (fo_paused f) \<and>
     ix_announced_seq (fo_index f') = ix_announced_seq (fo_index f) \<and>
     (\<forall>p v. p \<notin> C \<longrightarrow> commit_at (fo_wants f) p = Some v \<longrightarrow> commit_at (fo_wants f') p = Some v)"

definition keeps :: "rel_path set \<Rightarrow> folder \<Rightarrow> folder \<Rightarrow> bool" where
  "keeps C f f' \<longleftrightarrow> (fo_ok f \<longrightarrow> fo_ok f' \<and> still C f f')"

lemma keepsI: "(fo_ok f \<Longrightarrow> fo_ok f' \<and> still C f f') \<Longrightarrow> keeps C f f'"
  by (simp add: keeps_def)

lemma keepsD: "keeps C f f' \<Longrightarrow> fo_ok f \<Longrightarrow> fo_ok f'" "keeps C f f' \<Longrightarrow> fo_ok f \<Longrightarrow> still C f f'"
  by (simp_all add: keeps_def)

lemma still_refl [simp]: "still C f f"
  by (simp add: still_def)

lemma keeps_refl [simp]: "keeps C f f"
  by (simp add: keeps_def)

lemma keeps_trans [trans]: "keeps C f g \<Longrightarrow> keeps C g h \<Longrightarrow> keeps C f h"
  by (auto simp: keeps_def still_def)

lemma keeps_mono: "keeps {} f g \<Longrightarrow> keeps C f g"
  by (auto simp: keeps_def still_def)

lemma keeps_fold: "(\<And>f x. x \<in> set xs \<Longrightarrow> keeps C f (g f x)) \<Longrightarrow> keeps C f (foldl g f xs)"
  by (induction xs arbitrary: f) (auto intro: keeps_trans)

text \<open>Steps that carry a result along.\<close>

lemma keeps_fold_snd:
  assumes "\<And>a f x. x \<in> set xs \<Longrightarrow> keeps C f (snd (g (a, f) x))"
  shows "keeps C f (snd (foldl g (a, f) xs))"
  using assms
proof (induction xs arbitrary: a f)
  case (Cons x xs)
  obtain a' f' where g: "g (a, f) x = (a', f')" by fastforce
  have "keeps C f f'" using Cons.prems [of x f a] g by simp
  moreover have "keeps C f' (snd (foldl g (a', f') xs))" using Cons by simp
  ultimately show ?case by (auto simp: g intro: keeps_trans)
qed simp

lemma ix_ok_steps: "ix_step\<^sup>*\<^sup>* ix ix' \<Longrightarrow> ix_ok ix \<Longrightarrow> ix_ok ix'"
  by (induction rule: rtranclp_induct) (auto intro: ix_step_ok)

lemma q_ok_steps: "q_step\<^sup>*\<^sup>* q q' \<Longrightarrow> q_ok q \<Longrightarrow> q_ok q'"
  by (induction rule: rtranclp_induct) (auto intro: q_step_ok)

lemma calm_steps_hold:
  assumes "calm_step\<^sup>*\<^sup>* wl wl'" and "wl_ok wl"
  shows "wl_ok wl' \<and> (\<forall>p v. commit_at wl p = Some v \<longrightarrow> commit_at wl' p = Some v)"
  using assms(1) by (induction rule: rtranclp_induct) (use assms(2) quiet_step_holds quiet_step.calm in blast)+

lemma calm_steps_start_none:
  assumes "calm_step\<^sup>*\<^sup>* wl wl'" and "wl_ok wl"
    and "is_none_or (\<lambda>w. \<not> is_committing (w_state w)) (wl_get wl p)"
  shows "is_none_or (\<lambda>w. \<not> is_committing (w_state w)) (wl_get wl' p)"
  using assms(1)
proof (induction rule: rtranclp_induct)
  case (step w1 w2)
  moreover have "wl_ok w1" using calm_steps_hold [OF step.hyps(1) assms(2)] by simp
  ultimately show ?case using calm_step_starts_none by blast
qed (rule assms(3))

lemma inbound_keeps:
  assumes "ix_ok (fo_index f) \<Longrightarrow> ds_ok (fo_deferred f) \<Longrightarrow> inbound f f'"
  shows "keeps {} f f'"
proof (rule keepsI)
  assume ok: "fo_ok f"
  with assms have in': "inbound f f'" by (simp add: fo_ok_def)
  note fields = inbound_fields [OF in']
  have "frozen_at (fo_deferred f') p \<subseteq> frozen_at (fo_deferred f) p" for p
    using in' by (simp add: inbound_def thaws_def)
  then have "(\<forall>p. frozen_at (fo_deferred f) p = {}) \<Longrightarrow> (\<forall>p. frozen_at (fo_deferred f') p = {})" by blast
  moreover have "ds_ok (fo_deferred f')" "q_ok (fo_quarantine f')"
    using in' ok by (auto simp: inbound_def thaws_def fo_ok_def intro: q_ok_steps)
  moreover have "wl_ok (fo_wants f') \<and>
      (\<forall>p v. commit_at (fo_wants f) p = Some v \<longrightarrow> commit_at (fo_wants f') p = Some v)"
    using in' ok by (intro calm_steps_hold) (auto simp: inbound_def fo_ok_def)
  ultimately show "fo_ok f' \<and> still {} f f'"
    using ok by (simp add: fo_ok_def still_def fields)
qed

text \<open>The index moves by a step of its own that announces nothing.\<close>

lemma index_keeps:
  assumes "ix_ok (fo_index f) \<Longrightarrow> ix_ok ix \<and> ix_announced_seq ix = ix_announced_seq (fo_index f)"
  shows "keeps {} f (f\<lparr>fo_index := ix\<rparr>)"
  using assms by (auto simp: keeps_def fo_ok_def still_def)

lemma wants_keeps:
  assumes "wl_ok (fo_wants f) \<Longrightarrow> wl_ok wl"
    and "\<And>p v. p \<notin> C \<Longrightarrow> wl_ok (fo_wants f) \<Longrightarrow> commit_at (fo_wants f) p = Some v \<Longrightarrow> commit_at wl p = Some v"
  shows "keeps C f (f\<lparr>fo_wants := wl\<rparr>)"
  using assms by (auto simp: keeps_def fo_ok_def still_def)

text \<open>Fields no invariant looks at.\<close>

definition parts_of :: "folder \<Rightarrow> index \<times> want_list \<times> quarantine \<times> deferred_set \<times> paused option \<times> queued list" where
  "parts_of f = (fo_index f, fo_wants f, fo_quarantine f, fo_deferred f, fo_paused f, fo_queued f)"

lemma frame_keeps: "parts_of f' = parts_of f \<Longrightarrow> keeps C f f'"
  by (auto simp: keeps_def parts_of_def fo_ok_def still_def)

lemma frame_keeps_trans:
  "keeps C f g \<Longrightarrow> parts_of h = parts_of g \<Longrightarrow> keeps C f h" "parts_of g = parts_of f \<Longrightarrow> keeps C g h \<Longrightarrow> keeps C f h"
  by (blast intro: keeps_trans frame_keeps)+

lemma parts_of_simps [simp]:
  "parts_of (f\<lparr>fo_window := w\<rparr>) = parts_of f" "parts_of (f\<lparr>fo_scan := s\<rparr>) = parts_of f"
  "parts_of (f\<lparr>fo_acked := a\<rparr>) = parts_of f" "parts_of (f\<lparr>fo_catchup := c\<rparr>) = parts_of f"
  "parts_of (f\<lparr>fo_winner_fallbacks := n\<rparr>) = parts_of f" "parts_of (f\<lparr>fo_startup_scan := b\<rparr>) = parts_of f"
  "parts_of (f\<lparr>fo_unobserved := u\<rparr>) = parts_of f" "parts_of (f\<lparr>fo_observing := u\<rparr>) = parts_of f"
  "parts_of (f\<lparr>fo_reported := r\<rparr>) = parts_of f" "parts_of (f\<lparr>fo_last_observed := r\<rparr>) = parts_of f"
  "parts_of (f\<lparr>fo_record_written := r\<rparr>) = parts_of f" "parts_of (f\<lparr>fo_disk_full := b\<rparr>) = parts_of f"
  "parts_of (f\<lparr>fo_statuses := st\<rparr>) = parts_of f" "parts_of (f\<lparr>fo_rules := rs\<rparr>) = parts_of f"
  "parts_of (fo_touched now f) = parts_of f" "parts_of (push_status x f) = parts_of f"
  "parts_of (bracket_committed p f) = parts_of f" "parts_of (report_at p at f) = parts_of f"
  by (simp_all add: parts_of_def fo_touched_def push_status_def bracket_committed_def report_at_def)

named_theorems keeping \<open>what each operation keeps\<close>

section \<open>Observations\<close>

lemmas reconsider_keeps [keeping] = inbound_keeps [OF reconsider_inbound]
lemmas rederive_keeps [keeping] = inbound_keeps [OF rederive_inbound]
lemmas reclassify_want_keeps [keeping] = inbound_keeps [OF reclassify_want_inbound]
lemmas rewant_carriers_keeps [keeping] = inbound_keeps [OF rewant_carriers_inbound]
lemmas clear_carriers_keeps [keeping] = inbound_keeps [OF clear_carriers_inbound]
lemmas unmark_keeps [keeping] = inbound_keeps [OF unmark_inbound]

lemma local_step_keeps:
  assumes "local_step (fo_index f) ix"
  shows "keeps {} f (f\<lparr>fo_index := ix\<rparr>)"
  using assms local_step_ok local_step_announced_seq by (intro index_keeps) blast

lemma adopt_keeps: "keeps {} f (f\<lparr>fo_index := snd (adopt e (fo_index f))\<rparr>)"
proof (rule index_keeps)
  assume ok: "ix_ok (fo_index f)"
  obtain res ix where a: "adopt e (fo_index f) = (res, ix)" by fastforce
  then have "ix_announced_seq ix = ix_announced_seq (fo_index f)" by (cases rule: adopt_cases) simp_all
  with adopt_ok [OF ok, of e] a show "ix_ok (snd (adopt e (fo_index f))) \<and>
      ix_announced_seq (snd (adopt e (fo_index f))) = ix_announced_seq (fo_index f)" by simp
qed

lemma touched_keeps [keeping]: "keeps C f (fo_touched now f)"
  by (rule frame_keeps) simp

lemma land_keeps [keeping]: "keeps {} f (snd (land now p occupant f))"
proof (cases "ix_live (fo_index f) p")
  case (Some r)
  define found where "found = find (\<lambda>e. \<not> e_deleted e \<and> dominates_or_equals (e_version e) (e_version (ir_entry r)) \<and>
      normalised (entry_observed e) = occupant)
    ((case opt_filter w_restoring (wl_get (fo_wants f) p) of Some w \<Rightarrow> [w_entry w] | None \<Rightarrow> []) @
     List.map_filter df_restoring (case ds_get (fo_deferred f) p of Some l \<Rightarrow> l | None \<Rightarrow> []))"
  show ?thesis
  proof (cases found)
    case None
    with Some show ?thesis by (simp add: land_def found_def [symmetric])
  next
    case (Some e)
    obtain old f1 where un: "unmark p f = (old, f1)" by fastforce
    obtain res ix where ad: "adopt e (fo_index f1) = (res, ix)" by fastforce
    define f2 where "f2 = f1\<lparr>fo_index := ix\<rparr>"
    have "keeps {} f f1" using unmark_keeps [of f p] un by simp
    also have "keeps {} f1 f2" using adopt_keeps [of f1 e] ad by (simp add: f2_def)
    finally have k: "keeps {} f f2" .
    have "land now p occupant f = (case res of None \<Rightarrow> (None, f2)
       | Some record \<Rightarrow> (Some record, case old of Some w \<Rightarrow> rederive now w (fo_touched now f2) | None \<Rightarrow> fo_touched now f2))"
      unfolding land_def Let_def \<open>ix_live (fo_index f) p = Some r\<close> option.case found_def [symmetric] Some un
        prod.case ad f2_def ..
    moreover have "keeps {} f2 (case old of Some w \<Rightarrow> rederive now w (fo_touched now f2) | None \<Rightarrow> fo_touched now f2)"
      by (auto intro: keeps_trans [OF touched_keeps rederive_keeps] touched_keeps split: option.split)
    ultimately show ?thesis using k by (auto intro: keeps_trans split: option.split)
  qed
qed (simp add: land_def)

lemma observe_scan_keeps [keeping]:
  "keeps {} f (f\<lparr>fo_wants := wl_observed p (fo_wants f)\<rparr>)"
  by (intro inbound_keeps inbound_calm calm_step.observed)

lemma take_write_keeps [keeping]: "keeps {} f (snd (take_write now p s ob m f))"
proof -
  define um where "um = (if m then unmark p f else (None, f))"
  obtain unmarked f1 where f1: "um = (unmarked, f1)" by fastforce
  have k1: "keeps {} f f1"
    using unmark_keeps [of f p] f1 by (cases m) (auto simp: um_def)
  obtain change ix where c: "(case s of Observed ob \<Rightarrow> observe p ob (fo_index f1)
      | Absent \<Rightarrow> observe_absent p now (fo_index f1) | _ \<Rightarrow> (None, fo_index f1)) = (change, ix)" by fastforce
  have k2: "keeps {} f1 (f1\<lparr>fo_index := ix\<rparr>)"
    using c by (cases s)
      (auto intro: local_step_keeps local_step.observe local_step.absent)
  define f2 where "f2 = (if change \<noteq> None then fo_touched now (f1\<lparr>fo_index := ix\<rparr>) else f1\<lparr>fo_index := ix\<rparr>)"
  have k3: "keeps {} (f1\<lparr>fo_index := ix\<rparr>) f2" by (simp add: f2_def touched_keeps)
  define f3 where "f3 = (case unmarked of Some old \<Rightarrow> rederive now old f2
    | None \<Rightarrow> if change \<noteq> None then reclassify_want now p f2 else f2)"
  have k4: "keeps {} f2 f3" by (auto simp: f3_def keeping split: option.split)
  define f4 where "f4 = (if ob = Scan then f3\<lparr>fo_wants := wl_observed p (fo_wants f3)\<rparr> else f3)"
  have k5: "keeps {} f3 f4" by (simp add: f4_def keeping)
  have "snd (take_write now p s ob m f) = reconsider now p ChangedUnderneath f4"
    unfolding take_write_def um_def [symmetric] f1 Let_def prod.case c f4_def f3_def f2_def snd_conv ..
  with k1 k2 k3 k4 k5 reconsider_keeps [of f4 now p ChangedUnderneath] show ?thesis
    by (metis keeps_trans)
qed

lemma take_settled_keeps [keeping]: "keeps {} f (snd (take_settled now p s ob m f))"
proof -
  define rest where "rest = (\<lambda>occ. case (case occ of Some o' \<Rightarrow> land now p o' f | None \<Rightarrow> (None, f)) of (landed, f) \<Rightarrow>
    (case landed of
       Some record \<Rightarrow> (scanned_default\<lparr>sc_landed := Some record\<rparr>, reconsider now p ChangedUnderneath f)
     | None \<Rightarrow> take_write now p s ob m f))"
  have k: "keeps {} f (snd (rest occ))" for occ
  proof -
    obtain landed g where g: "(case occ of Some o' \<Rightarrow> land now p o' f | None \<Rightarrow> (None, f)) = (landed, g)" by fastforce
    have "keeps {} f (snd (case occ of Some o' \<Rightarrow> land now p o' f | None \<Rightarrow> (None, f)))"
      by (auto simp: keeping split: option.split)
    then have "keeps {} f g" unfolding g by simp
    then show ?thesis
      unfolding rest_def g by (auto intro: keeps_trans [OF _ reconsider_keeps] keeps_trans [OF _ take_write_keeps]
        split: option.split)
  qed
  show ?thesis
    unfolding take_settled_def Let_def rest_def [symmetric] by (simp add: k)
qed

lemma take_settled_frame: "parts_of g = parts_of f \<Longrightarrow> keeps {} f (snd (take_settled now p s ob m g))"
  by (rule frame_keeps_trans(2) [OF _ take_settled_keeps])

lemma take_one_keeps [keeping]: "keeps {} f (snd (take_one now at p s ob f))"
  unfolding take_one_def Let_def
  by (simp add: frame_keeps take_settled_frame split: scan_state.split)

lemma take_ancestor_keeps: "keeps {} f (snd (take_ancestor now at ob (a, f) d))"
  using take_one_keeps [of f now at d "Observed dir_observed" ob]
  by (simp add: take_ancestor_def case_prod_unfold Let_def)

lemma take_observation_keeps [keeping]: "keeps {} f (snd (take_observation now at p s ob f))"
proof -
  define present where "present \<longleftrightarrow> (case s of Observed _ \<Rightarrow> True | Unchanged \<Rightarrow> True | _ \<Rightarrow> False)"
  define f1 where "f1 = (if present then f\<lparr>fo_scan := map_option (\<lambda>b. b\<lparr>br_seen :=
      foldl (\<lambda>s dir. bs_insert dir s) (br_seen b) (path_above p)\<rparr>) (fo_scan f)\<rparr> else f)"
  define st where "st = (if present then foldl (take_ancestor now at ob) ([], f1) (rev (path_above p)) else ([], f1))"
  have "keeps {} f f1" by (simp add: f1_def frame_keeps)
  moreover have "keeps {} f1 (snd st)"
    by (auto simp: st_def intro: keeps_fold_snd take_ancestor_keeps)
  moreover have "snd (take_observation now at p s ob f) = snd (take_one now at p s ob (snd st))"
    unfolding take_observation_def present_def [symmetric] Let_def f1_def [symmetric] st_def [symmetric]
    by (simp add: case_prod_unfold)
  ultimately show ?thesis using take_one_keeps by (metis keeps_trans)
qed

lemma tombstone_gone_keeps: "keeps {} f (snd (tombstone_gone now (cs, f) p))"
proof -
  obtain change ix where c: "observe_absent p now (fo_index f) = (change, ix)" by fastforce
  have k: "keeps {} f (f\<lparr>fo_index := ix\<rparr>)"
    using c by (intro local_step_keeps local_step.absent)
  then show ?thesis
    unfolding tombstone_gone_def Let_def prod.case c
    by (cases change) (auto intro: keeps_trans [OF k] keeps_trans [OF _ reconsider_keeps] keeping)
qed

lemma scan_finished_keeps [keeping]: "keeps {} f (snd (scan_finished now f))"
proof (cases "fo_scan f")
  case (Some b)
  define f1 where "f1 = f\<lparr>fo_scan := None\<rparr>"
  obtain cs f2 where f2: "foldl (tombstone_gone now) ([], f1) (scan_gone b f1) = (cs, f2)" by fastforce
  define f3 where "f3 = foldl (\<lambda>f path. reconsider now path ChangedUnderneath f) f2 (scan_unseen b f2)"
  define f4 where "f4 = foldl (\<lambda>f path. rewant_carriers path f) f3 (scan_carried b f3)"
  have "keeps {} f f1" by (simp add: f1_def frame_keeps)
  also have "keeps {} f1 f2"
    using keeps_fold_snd [of _ "{}" "tombstone_gone now" f1 "[]", OF tombstone_gone_keeps] f2 by (metis snd_conv)
  also have "keeps {} f2 f3" unfolding f3_def by (intro keeps_fold reconsider_keeps)
  also have "keeps {} f3 f4" unfolding f4_def by (intro keeps_fold rewant_carriers_keeps)
  also have "keeps {} f4 (snd (scan_finished now f))"
    using Some by (intro frame_keeps)
      (simp add: scan_finished_def f1_def [symmetric] f2 f3_def [symmetric] f4_def [symmetric] Let_def)
  finally show ?thesis .
qed (simp add: scan_finished_def)

lemma scan_started_keeps [keeping]: "keeps {} f (scan_started f)"
  by (simp add: scan_started_def frame_keeps)

lemma scan_aborted_keeps [keeping]: "keeps {} f (snd (scan_aborted f))"
  by (simp add: scan_aborted_def frame_keeps)

section \<open>Sending and receiving\<close>

lemma quiet_keeps:
  assumes "quiet_step (fo_wants f) wl"
  shows "keeps {} f (f\<lparr>fo_wants := wl\<rparr>)"
  using quiet_step_holds [OF assms] by (intro wants_keeps) blast+

lemma fo_expire_keeps [keeping]: "keeps {} f (snd (fo_expire now f))"
  using quiet_keeps [OF quiet_step.expire] by (simp add: fo_expire_def case_prod_unfold Let_def)

lemma fo_peer_keeps [keeping]: "keeps {} f (fo_peer_gone n f)" "keeps {} f (fo_peer_connected n f)"
  unfolding fo_peer_gone_def fo_peer_connected_def
  by (intro quiet_keeps quiet_step.gone quiet_step.reconnected)+

lemma catchup_keeps [keeping]:
  "keeps {} f (have_up_to n s f)" "keeps {} f (acknowledged n s f)" "keeps {} f (snd (catchup_batches now b f))"
  by (simp_all add: have_up_to_def acknowledged_def catchup_batches_def Let_def frame_keeps)

text \<open>The raw entry of each path of a batch, the last one by \<open>seq\<close>.\<close>

definition raw_of :: "batch \<Rightarrow> (rel_path, entry) bmap" where
  "raw_of b = bm_of_list (map (\<lambda>e. (e_path e, e)) (bt_entries b))"

lemma raw_of_path: "bm_get (raw_of b) p = Some e \<Longrightarrow> e_path e = p"
  unfolding raw_of_def by (rule keyed_of_list) auto

lemma receive_one_keeps: "keeps {} f (snd (receive_one b (raw_of b) (so, f) item))"
proof (cases "bm_get (raw_of b) (ai_path item)")
  case (Some e)
  have q: "keeps {} f (f\<lparr>fo_quarantine := snd (q_join hb e (fo_quarantine f))\<rparr>)" for hb
    by (intro inbound_keeps inbound_quarantine r_into_rtranclp q_step.join)
  define d where "d = \<lparr>df_entry = e, df_batch = bt_id b, df_source = bt_source b, df_seq_high = bt_seq_high b,
    df_reason = Frozen, df_restoring = None, df_trashed = None\<rparr>"
  have "waits_at (ai_path item) d" using raw_of_path [OF Some] by (simp add: d_def waits_at_def)
  then have "keeps {} f (f\<lparr>fo_deferred := ds_push (ai_path item) d (fo_deferred f)\<rparr>)" if "fo_paused f \<noteq> None"
    using that by (auto simp: keeps_def fo_ok_def still_def ds_ok_def)
  with q show ?thesis
    by (auto simp: receive_one_def Some d_def [symmetric] split: option.split)
qed (simp add: receive_one_def)

lemma fo_want_fold_keeps:
  assumes "\<And>item. item \<in> set items \<Longrightarrow> e_path (raw item) = ai_path item"
  shows "keeps {} f (foldl (\<lambda>f item. fo_want item (raw item) b s h f) f items)"
  by (intro keeps_fold inbound_keeps fo_want_inbound assms)

lemma fo_receive_keeps [keeping]: "keeps {} f (snd (fo_receive now b f))"
proof -
  define f1 where "f1 = f\<lparr>fo_index := received_range (bt_source b) (bt_seq_low b) (bt_seq_high b) (fo_index f)\<rparr>"
  define aset where "aset = compute_apply_set (fo_index f1) b"
  define f2 where "f2 = f1\<lparr>fo_winner_fallbacks := fo_winner_fallbacks f1 + as_fallbacks aset\<rparr>"
  define f3 where "f3 = f2\<lparr>fo_wants := foldl (\<lambda>wl (path, e). note_announced path (e_hash e) (bt_source b) wl)
    (fo_wants f2) (bm_entries (raw_of b))\<rparr>"
  obtain so f4 where f4: "foldl (receive_one b (raw_of b)) (sorting_start, f3) (as_items aset) = (so, f4)" by fastforce
  have "keeps {} f f1" unfolding f1_def
    by (rule index_keeps) (use received_range_ok in \<open>simp add: received_range_def\<close>)
  also have "keeps {} f1 f2" by (simp add: f2_def frame_keeps)
  also have "keeps {} f2 f3" unfolding f3_def
    by (intro inbound_keeps inbound_wants calm_fold) (auto intro: calm_step.announced)
  also have "keeps {} f3 f4"
    using keeps_fold_snd [of _ "{}" "receive_one b (raw_of b)" f3 sorting_start, OF receive_one_keeps] f4
    by (metis snd_conv)
  finally have k: "keeps {} f f4" .
  define items where "items = so_kept so"
  define verdict where "verdict = evaluate (fo_rules f4)
    (receiver_summary (fo_index f4) (aset\<lparr>as_items := items\<rparr>)) (tracked_count (fo_index f4))"
  note def = fo_receive_def [of now b f, unfolded Let_def, folded f1_def, folded aset_def, folded f2_def,
    folded raw_of_def, folded f3_def, unfolded f4 prod.case, folded items_def, folded verdict_def]
  show ?thesis
  proof (cases verdict)
    case (Hold reason)
    have "item_ok \<lparr>hi_batch = bt_id b, hi_source = bt_source b, hi_seq_high = bt_seq_high b,
        hi_held_at = now, hi_reason = reason, hi_entries = bm_of_list (List.map_filter (\<lambda>item.
          map_option (\<lambda>e. (ai_path item, e)) (bm_get (raw_of b) (ai_path item))) items)\<rparr>"
      unfolding item_ok_def held_item.simps
      by (intro allI impI keyed_of_list) (auto simp: List.map_filter_def raw_of_path)
    then have "keeps {} f4 (snd (fo_receive now b f))"
      unfolding def Hold by (auto intro!: inbound_keeps inbound_quarantine r_into_rtranclp q_step.hold)
    with k show ?thesis by (rule keeps_trans)
  next
    case Pass
    have "e_path (case bm_get (raw_of b) (ai_path item) of Some e \<Rightarrow> e | None \<Rightarrow> ai_entry item) = ai_path item" for item
      by (auto simp: ai_path_def raw_of_path split: option.split)
    then have "keeps {} f4 (snd (fo_receive now b f))"
      unfolding def Pass by (auto intro!: fo_want_fold_keeps)
    with k show ?thesis by (rule keeps_trans)
  qed
qed

section \<open>Decisions\<close>

lemma distinct_requeue: "distinct (map qu_decision qs) \<Longrightarrow> distinct (map qu_decision (requeue d r qs))"
proof -
  have "set (map qu_decision (requeue d r qs)) = insert d (set (map qu_decision qs))" for qs
    by (induction qs) auto
  then show "distinct (map qu_decision qs) \<Longrightarrow> distinct (map qu_decision (requeue d r qs))"
    by (induction qs) (auto simp: image_iff)
qed

lemma next_in_decisions:
  assumes "next_in f pre qs = Some (step, qs')"
  shows "\<exists>as q bs. qs = as @ q # bs \<and>
    (qs' = pre @ as @ bs \<or> (\<exists>reason. qs' = pre @ as @ q\<lparr>qu_reason := reason\<rparr> # bs))"
  using assms
proof (induction qs arbitrary: pre)
  case (Cons q qs)
  show ?case
  proof (cases "next_in f (pre @ [q]) qs = Some (step, qs')")
    case True
    from Cons.IH [OF this] obtain as q' bs where "qs = as @ q' # bs"
      "qs' = (pre @ [q]) @ as @ bs \<or> (\<exists>reason. qs' = (pre @ [q]) @ as @ q'\<lparr>qu_reason := reason\<rparr> # bs)" by blast
    then show ?thesis by (intro exI [of _ "q # as"] exI [of _ q'] exI [of _ bs]) auto
  next
    case False
    with Cons.prems have "qs' = pre @ qs \<or> (\<exists>reason. qs' = pre @ q\<lparr>qu_reason := reason\<rparr> # qs)"
      by (auto simp: Let_def split: if_splits option.splits)
    then show ?thesis by (intro exI [of _ "[]"] exI [of _ q] exI [of _ qs]) auto
  qed
qed simp

lemma queue_keeps:
  assumes "distinct (map qu_decision (fo_queued f)) \<Longrightarrow> distinct (map qu_decision qs)"
  shows "keeps C f (f\<lparr>fo_queued := qs\<rparr>)"
  using assms
  by (auto simp: keeps_def fo_ok_def still_def)

lemma fo_request_keeps [keeping]: "keeps {} f (snd (fo_request d f))"
  by (cases "unsettled f d")
    (auto simp: fo_request_def intro!: queue_keeps distinct_requeue List.distinct_map_filter)

lemma next_queued_keeps [keeping]: "keeps {} f (snd (next_queued f))"
proof (cases "next_in f [] (fo_queued f)")
  case (Some x)
  obtain step qs where x: "x = (step, qs)" by fastforce
  have "distinct (map qu_decision (fo_queued f)) \<Longrightarrow> distinct (map qu_decision qs)"
    using next_in_decisions [OF Some [unfolded x]] by auto
  with Some x show ?thesis by (simp add: next_queued_def queue_keeps)
qed (simp add: next_queued_def)

lemma observe_requests_keeps [keeping]: "keeps {} f (snd (observe_requests f))"
  by (simp add: observe_requests_def Let_def frame_keeps)

lemma fo_deny_keeps [keeping]: "keeps {} f (snd (fo_deny now b f))"
proof (cases "bm_get (q_items (fo_quarantine f)) b")
  case (Some item)
  define paths where "paths = bm_keys (hi_entries item)"
  have ix: "ix_ok ix \<Longrightarrow> ix_ok (snd (foldl (deny_path now q) (cs, ix) ps)) \<and>
      ix_announced_seq (snd (foldl (deny_path now q) (cs, ix) ps)) = ix_announced_seq ix" for q cs ix ps
  proof (induction ps arbitrary: cs ix)
    case (Cons p ps)
    obtain c ix' where b: "bump_over p (versions_at q p) (max_stamp_at q p) now ix = (c, ix')" by fastforce
    then have "local_step ix ix'" by (rule local_step.bump)
    with Cons b show ?case
      using local_step_ok local_step_announced_seq by (simp add: deny_path_def)
  qed simp
  obtain cs ix where fold: "foldl (deny_path now (fo_quarantine f)) ([], fo_index f) paths = (cs, ix)" by fastforce
  define f1 where "f1 = f\<lparr>fo_index := ix\<rparr>"
  define f2 where "f2 = f\<lparr>fo_index := ix, fo_quarantine := snd (q_deny b (fo_quarantine f))\<rparr>"
  define f3 where "f3 = (if cs \<noteq> [] then fo_touched now f2 else f2)"
  have "keeps {} f f1" unfolding f1_def
    by (rule index_keeps) (use ix [of "fo_index f" "fo_quarantine f" "[]" paths] fold in simp)
  also have "keeps {} f1 f2"
  proof -
    have "keeps {} f1 (f1\<lparr>fo_quarantine := snd (q_deny b (fo_quarantine f1))\<rparr>)"
      by (intro inbound_keeps inbound_quarantine r_into_rtranclp q_step.deny)
    then show ?thesis by (simp add: f1_def f2_def)
  qed
  also have "keeps {} f2 f3" by (simp add: f3_def keeping)
  also have "keeps {} f3 (foldl (\<lambda>f path. reclassify_want now path f) f3 paths)"
    by (intro keeps_fold reclassify_want_keeps)
  finally show ?thesis
    unfolding fo_deny_def Some option.case Let_def paths_def [symmetric] fold prod.case f3_def f2_def snd_conv .
qed (simp add: fo_deny_def)

lemma rules_changed_keeps [keeping]: "keeps {} f (snd (rules_changed rs f))"
proof (cases "fo_paused f")
  case None
  then show ?thesis by (simp add: rules_changed_def Let_def frame_keeps)
next
  case (Some p)
  have pause: "keeps {} f (f\<lparr>fo_rules := rs, fo_paused := Some (recheck_paused s v p)\<rparr>)" for s v
    using Some by (simp add: keeps_def fo_ok_def still_def recheck_paused_def)
  obtain s v where "precheck (f\<lparr>fo_rules := rs\<rparr>) = (s, v)" by fastforce
  with Some pause show ?thesis by (simp add: rules_changed_def Let_def)
qed

section \<open>Ending a pause\<close>

definition base_ok :: "folder \<Rightarrow> bool" where
  "base_ok f \<longleftrightarrow> ix_ok (fo_index f) \<and> q_ok (fo_quarantine f) \<and> wl_ok (fo_wants f) \<and> ds_ok (fo_deferred f) \<and>
     distinct (map qu_decision (fo_queued f))"

lemma fo_ok_base: "fo_ok f \<Longrightarrow> base_ok f"
  by (simp add: fo_ok_def base_ok_def)

lemma inbound_base:
  assumes "ix_ok (fo_index f) \<Longrightarrow> ds_ok (fo_deferred f) \<Longrightarrow> inbound f f'" and "base_ok f"
  shows "base_ok f'"
proof -
  have in': "inbound f f'" using assms by (simp add: base_ok_def)
  with assms(2) have "ds_ok (fo_deferred f')" "q_ok (fo_quarantine f')"
    by (auto simp: inbound_def thaws_def base_ok_def intro: q_ok_steps)
  moreover have "wl_ok (fo_wants f')"
    by (rule conjunct1 [OF calm_steps_hold [of "fo_wants f"]]) (use in' assms(2) in \<open>simp_all add: inbound_def base_ok_def\<close>)
  ultimately show ?thesis using assms(2) by (simp add: base_ok_def inbound_fields [OF in'])
qed

lemma unfreeze_ok:
  assumes "base_ok f"
  shows "fo_ok (unfreeze now f)"
proof -
  have ix: "ix_ok (fo_index f)" using assms by (simp add: base_ok_def)
  have "base_ok (unfreeze now f)" by (rule inbound_base [OF unfreeze_inbound(1) assms]) (rule ix)
  then show ?thesis using unfreeze_inbound(2) [OF ix] by (simp add: fo_ok_def base_ok_def)
qed

lemma form_batches_ok: "fo_ok f \<Longrightarrow> fo_ok (snd (form_batches now b f))"
  using q_step_ok [OF q_step.forget]
  by (simp add: form_batches_def fo_ok_def mark_announced_ok)

text \<open>The cases of a tick.\<close>

lemma fo_tick_cases:
  obtains "\<not> is_due f now" "fo_tick now b f = (TkNothing, f)"
  | s v p where "is_due f now" "precheck f = (s, v)" "fo_paused f = Some p" "fo_tick now b f =
      (TkPaused False [] (StPausedRecheck (pz_batch p) (\<not> is_hold v) s),
       f\<lparr>fo_window := None, fo_paused := Some (recheck_paused s v p)\<rparr>)"
  | s batches where "is_due f now" "precheck f = (s, Pass)" "fo_paused f = None"
      "batches = form_now now b f" "fo_tick now b f =
      (if batches = [] then TkNothing else TkSent batches, snd (form_batches now b f))"
  | s reason where "is_due f now" "precheck f = (s, Hold reason)" "fo_paused f = None"
      "fo_tick now b f = (TkPaused True (form_now now b f) (StPaused b reason s),
       f\<lparr>fo_window := None, fo_paused := Some \<lparr>pz_batch = b, pz_since = now, pz_reason = reason,
         pz_summary = s, pz_would_pass = False\<rparr>\<rparr>)"
proof -
  obtain s v where pre: "precheck f = (s, v)" by fastforce
  have same: "form_now now b (f\<lparr>fo_window := None\<rparr>) = form_now now b f"
    "snd (form_batches now b (f\<lparr>fo_window := None\<rparr>)) = snd (form_batches now b f)"
    by (simp_all add: form_now_def form_batches_def)
  have fst: "fst (form_batches now b g) = form_now now b g" for g by (simp add: form_batches_def)
  show thesis
  proof (cases "is_due f now")
    case False
    then show ?thesis by (intro that(1)) (simp_all add: fo_tick_def)
  next
    case due: True
    show ?thesis
    proof (cases "fo_paused f")
      case (Some p)
      with due pre show ?thesis
        by (intro that(2) [of s v p]) (simp_all add: fo_tick_def Let_def recheck_paused_def)
    next
      case None
      with due pre show ?thesis
        by (cases v) (simp_all add: that(3) that(4) fo_tick_def Let_def case_prod_unfold fst same)
    qed
  qed
qed

lemma fo_tick_ok: "fo_ok f \<Longrightarrow> fo_ok (snd (fo_tick now b f))"
  by (rule fo_tick_cases [of f now b]) (simp_all add: form_batches_ok, simp_all add: fo_ok_def)

lemma fo_tick_paused: "fo_paused f = Some p \<Longrightarrow> keeps {} f (snd (fo_tick now b f))"
  by (rule fo_tick_cases [of f now b]) (simp_all add: keeps_def fo_ok_def still_def recheck_paused_def)

lemma fo_tick_wants: "fo_wants (snd (fo_tick now b f)) = fo_wants f"
  by (rule fo_tick_cases [of f now b]) (simp_all add: form_batches_def)

lemma approve_items_inbound:
  assumes "approve_items item f = (its, n, f')"
  shows "inbound f f'"
proof -
  have "foldl (\<lambda>(items, fallbacks, f) e.
         let c = classify (fo_index f) e
         in (items @ (case cl_item c of Some it \<Rightarrow> [it] | None \<Rightarrow> []),
             if cl_fallback c then Suc fallbacks else fallbacks, count_fallback c f)) (items, k, f) es = (its, n, f') \<Longrightarrow>
      inbound f f'" for items k f es
  proof (induction es arbitrary: items k f)
    case (Cons e es)
    define g where "g = count_fallback (classify (fo_index f) e) f"
    have "inbound f g" unfolding g_def by (rule count_fallback_inbound)
    moreover have "inbound g f'" using Cons by (auto simp: Let_def g_def)
    ultimately show ?case by (rule inbound_trans)
  qed simp
  with assms show ?thesis by (simp add: approve_items_def)
qed

lemma approve_held_keeps:
  assumes "bm_get (q_items (fo_quarantine f)) b = Some item"
  shows "keeps {} f (snd (fo_approve now b f))"
proof (rule keepsI)
  assume ok: "fo_ok f"
  then have "item_ok item" using assms by (simp add: fo_ok_def q_ok_def items_ok_def)
  then have raw: "e_path (case bm_get (hi_entries item) (ai_path it) of Some e \<Rightarrow> e | None \<Rightarrow> ai_entry it) = ai_path it" for it
    by (auto simp: item_ok_def ai_path_def split: option.split)
  define q where "q = snd (q_release b (fo_quarantine f))"
  have rel: "q_release b (fo_quarantine f) = (Some item, q)"
    using assms by (simp add: q_def q_release_def)
  define f1 where "f1 = f\<lparr>fo_quarantine := q\<rparr>"
  obtain its n f2 where its: "approve_items item f1 = (its, n, f2)" by (metis prod_cases3)
  have "inbound f f1"
    using inbound_quarantine [OF r_into_rtranclp, of f "snd (q_release b (fo_quarantine f))"] q_step.release
    by (simp add: f1_def q_def)
  also have "inbound f1 f2" by (rule approve_items_inbound [OF its])
  finally have k: "inbound f f2" .
  have "inbound f2 (snd (fo_approve now b f))"
    unfolding fo_approve_def rel prod.case option.case f1_def [symmetric] its Let_def
    by (auto intro!: admit_inbound simp: cand_ok_def raw)
  with k have "inbound f (snd (fo_approve now b f))" by (rule inbound_trans)
  with ok show "fo_ok (snd (fo_approve now b f)) \<and> still {} f (snd (fo_approve now b f))"
    using inbound_keeps [of f "snd (fo_approve now b f)"] by (simp add: keeps_def)
qed

lemma fo_approve_cases:
  assumes "bm_get (q_items (fo_quarantine f)) b = None"
  obtains p where "fo_paused f = Some p" "pz_batch p = b"
      "fo_approve now b f = (ApSent (form_now now b f), unfreeze now ((snd (form_batches now b f))\<lparr>fo_paused := None\<rparr>))"
  | "map_option pz_batch (fo_paused f) \<noteq> Some b" "fo_approve now b f = (ApUnknown, f)"
proof (cases "map_option pz_batch (fo_paused f) = Some b")
  case True
  then show ?thesis
    using that(1) assms by (auto simp: fo_approve_def q_release_def form_batches_def)
next
  case False
  then show ?thesis
    using that(2) assms by (auto simp: fo_approve_def q_release_def split: option.splits)
qed

lemma fo_approve_ok:
  assumes ok: "fo_ok f"
  shows "fo_ok (snd (fo_approve now b f))"
proof (cases "bm_get (q_items (fo_quarantine f)) b")
  case None
  then show ?thesis
  proof (cases rule: fo_approve_cases [where now = now])
    case (1 p)
    have "base_ok ((snd (form_batches now b f))\<lparr>fo_paused := None\<rparr>)"
      using form_batches_ok [OF ok, of now b] by (simp add: fo_ok_def base_ok_def)
    with 1 show ?thesis by (simp add: unfreeze_ok)
  qed (use ok in simp)
next
  case (Some item)
  then show ?thesis using approve_held_keeps ok by (simp add: keeps_def)
qed

lemma fo_approve_other:
  assumes "map_option pz_batch (fo_paused f) \<noteq> Some b"
  shows "keeps {} f (snd (fo_approve now b f))"
proof (cases "bm_get (q_items (fo_quarantine f)) b")
  case None
  with assms show ?thesis by (rule_tac fo_approve_cases [OF None, of now]) simp_all
qed (rule approve_held_keeps)

section \<open>Reverting\<close>

lemma insert_want_base:
  assumes "base_ok f" and "e_path (w_received w) = w_path w" "w_mismatches w = 0" "w_excluded w = bm_empty"
    "w_state w = Wanted"
  shows "base_ok (insert_want w f)"
  using assms insert_reverted_ok [of "fo_wants f" w] by (simp add: base_ok_def insert_want_def)

lemma push_base:
  assumes "base_ok f" and "waits_at p d"
  shows "base_ok (f\<lparr>fo_deferred := ds_push p d (fo_deferred f)\<rparr>)"
  using assms by (auto simp: base_ok_def ds_ok_def)

lemma local_base: "base_ok f \<Longrightarrow> local_step (fo_index f) ix \<Longrightarrow> base_ok (f\<lparr>fo_index := ix\<rparr>)"
  using local_step_ok by (auto simp: base_ok_def)

text \<open>The cases of reverting one path.\<close>

definition current_of :: "reverted \<Rightarrow> entry option" where
  "current_of rv = opt_filter (\<lambda>e. \<not> e_deleted e) (rv_current rv)"

definition restored_of :: "reverted \<Rightarrow> entry option" where
  "restored_of rv = opt_filter (\<lambda>e. \<not> e_deleted e) (map_option ir_entry (rv_restored rv))"

definition same_file :: "reverted \<Rightarrow> bool" where
  "same_file rv = (case (current_of rv, restored_of rv) of
     (Some c, Some r) \<Rightarrow> e_kind c = e_kind r \<and> e_hash c = e_hash r | _ \<Rightarrow> False)"

definition keeps_dir :: "index \<Rightarrow> reverted \<Rightarrow> bool" where
  "keeps_dir ix rv \<longleftrightarrow> is_some_and (\<lambda>c. e_kind c = Dir) (current_of rv) \<and>
     is_none_or (\<lambda>r. e_kind r \<noteq> Dir) (restored_of rv) \<and>
     list_ex (\<lambda>r. is_ancestor_of (rv_path rv) (e_path (ir_entry r))) (live_records ix)"

definition refetch_entry :: "batch_id \<Rightarrow> node_id \<Rightarrow> entry \<Rightarrow> entry \<Rightarrow> deferred" where
  "refetch_entry b own c r = \<lparr>df_entry = r, df_batch = b, df_source = own, df_seq_high = 0,
     df_reason = ChangedUnderneath, df_restoring = Some r, df_trashed = Some (entry_observed c)\<rparr>"

lemma revert_one_cases:
  obtains c r where "same_file rv" "current_of rv = Some c" "restored_of rv = Some r"
      "revert_one b oth (rg, f) rv = (rg\<lparr>rg_kept := rg_kept rg + 1\<rparr>,
         if e_kind r = File \<and> entry_observed c \<noteq> entry_observed r
         then insert_want (revert_want r MetadataOnly b (ix_own (fo_index f)) bm_empty False (Some (entry_observed c))) f
         else f)"
  | change ix where "\<not> same_file rv" "keeps_dir (fo_index f) rv"
      "observe (rv_path rv) dir_observed (fo_index f) = (change, ix)"
      "revert_one b oth (rg, f) rv =
         (rg\<lparr>rg_written := rg_written rg @ (case change of Some c \<Rightarrow> [lc_record c] | None \<Rightarrow> []),
             rg_kept := rg_kept rg + 1\<rparr>, f\<lparr>fo_index := ix\<rparr>)"
  | c where "\<not> same_file rv" "\<not> keeps_dir (fo_index f) rv" "current_of rv = Some c" "restored_of rv = None"
      "revert_one b oth (rg, f) rv = (rg\<lparr>rg_trash := rg_trash rg @ [rv_path rv]\<rparr>,
         insert_want (want_trash c b (ix_own (fo_index f))) f)"
  | c r g where "\<not> same_file rv" "\<not> keeps_dir (fo_index f) rv" "current_of rv = Some c" "restored_of rv = Some r"
      "g = insert_want (want_trash c b (ix_own (fo_index f))) f"
      "revert_one b oth (rg, f) rv =
         (rg\<lparr>rg_trash := rg_trash rg @ [rv_path rv], rg_refetch := rg_refetch rg + 1\<rparr>,
          g\<lparr>fo_deferred := ds_push (rv_path rv) (refetch_entry b (ix_own (fo_index f)) c r) (fo_deferred g)\<rparr>)"
  | r where "\<not> same_file rv" "\<not> keeps_dir (fo_index f) rv" "current_of rv = None" "restored_of rv = Some r"
      "revert_one b oth (rg, f) rv = (rg\<lparr>rg_refetch := rg_refetch rg + 1\<rparr>,
         insert_want (revert_want r (if e_kind r = Dir then Direct else Fetch) b (ix_own (fo_index f)) oth True None) f)"
  | "\<not> same_file rv" "\<not> keeps_dir (fo_index f) rv" "current_of rv = None" "restored_of rv = None"
      "revert_one b oth (rg, f) rv = (rg, f)"
proof -
  note def = revert_one_def [of b oth "(rg, f)" rv, unfolded prod.case Let_def, folded current_of_def,
    folded restored_of_def, folded same_file_def, folded keeps_dir_def]
  show thesis
  proof (cases "same_file rv")
    case True
    then obtain c r where "current_of rv = Some c" "restored_of rv = Some r"
      by (auto simp: same_file_def split: option.splits)
    moreover from this True have "e_kind c = e_kind r" "e_hash c = e_hash r" by (simp_all add: same_file_def)
    ultimately show ?thesis using True def by (intro that(1)) simp_all
  next
    case differs: False
    show ?thesis
    proof (cases "keeps_dir (fo_index f) rv")
      case True
      obtain change ix where "observe (rv_path rv) dir_observed (fo_index f) = (change, ix)" by fastforce
      with differs True def show ?thesis by (intro that(2)) (simp_all add: same_file_def)
    next
      case False
      note def = def [folded refetch_entry_def]
      consider (gone) c where "current_of rv = Some c" "restored_of rv = None"
        | (refetch) c r where "current_of rv = Some c" "restored_of rv = Some r"
        | (new) r where "current_of rv = None" "restored_of rv = Some r"
        | (none) "current_of rv = None" "restored_of rv = None"
        by (cases "current_of rv"; cases "restored_of rv") auto
      then show ?thesis
      proof cases
        case gone
        then show ?thesis using differs False def by (intro that(3)) simp_all
      next
        case refetch
        then show ?thesis using differs False def by (intro that(4) [OF _ _ _ _ refl]) (auto simp: same_file_def)
      next
        case new
        then show ?thesis using differs False def by (intro that(5)) simp_all
      next
        case none
        then show ?thesis using differs False def by (intro that(6)) simp_all
      qed
    qed
  qed
qed

lemma revert_one_base:
  assumes ok: "base_ok f" and at: "\<And>r. restored_of rv = Some r \<Longrightarrow> e_path r = rv_path rv"
  shows "base_ok (snd (revert_one b oth (rg, f) rv))"
proof (rule revert_one_cases [of rv b oth rg f])
  fix change ix
  assume "observe (rv_path rv) dir_observed (fo_index f) = (change, ix)"
    and "revert_one b oth (rg, f) rv =
         (rg\<lparr>rg_written := rg_written rg @ (case change of Some c \<Rightarrow> [lc_record c] | None \<Rightarrow> []),
             rg_kept := rg_kept rg + 1\<rparr>, f\<lparr>fo_index := ix\<rparr>)"
  then show ?thesis using ok by (auto intro: local_base local_step.observe)
next
  fix c r g
  assume r: "restored_of rv = Some r" and g: "g = insert_want (want_trash c b (ix_own (fo_index f))) f"
    and res: "revert_one b oth (rg, f) rv =
         (rg\<lparr>rg_trash := rg_trash rg @ [rv_path rv], rg_refetch := rg_refetch rg + 1\<rparr>,
          g\<lparr>fo_deferred := ds_push (rv_path rv) (refetch_entry b (ix_own (fo_index f)) c r) (fo_deferred g)\<rparr>)"
  have "base_ok g" unfolding g by (rule insert_want_base [OF ok]) (simp_all add: want_trash_def w_path_def)
  moreover have "waits_at (rv_path rv) (refetch_entry b (ix_own (fo_index f)) c r)"
    using at [OF r] by (simp add: waits_at_def refetch_entry_def)
  ultimately show ?thesis unfolding res snd_conv by (rule push_base)
qed (use ok in \<open>auto simp: revert_want_def want_trash_def w_path_def intro!: insert_want_base\<close>)

lemma restored_at:
  assumes "ix_ok ix" and "rv \<in> set (fst (revert_pending ix))" and "restored_of rv = Some r"
  shows "e_path r = rv_path rv"
proof -
  from assms(2) obtain p row where row: "bm_get (ix_pending ix) p = Some row" "rv_path rv = p"
    "rv_restored rv = pd_announced row"
    by (auto simp: revert_pending_result in_bm_entries)
  with assms(3) obtain k where "pd_announced row = Some k" "r = ir_entry k"
    by (auto simp: restored_of_def opt_filter_eq_Some)
  with row(1) have "held ix p k" by (auto simp: held_def)
  with ix_okD(2) [OF assms(1)] row(2) \<open>r = ir_entry k\<close> show ?thesis by simp
qed

lemma revert_all_base:
  assumes "base_ok f" and "\<And>rv r. rv \<in> set revs \<Longrightarrow> restored_of rv = Some r \<Longrightarrow> e_path r = rv_path rv"
  shows "base_ok (snd (foldl (revert_one b oth) (rg, f) revs))"
  using assms
proof (induction revs arbitrary: rg f)
  case (Cons rv revs)
  obtain rg1 f1 where one: "revert_one b oth (rg, f) rv = (rg1, f1)" by fastforce
  have "base_ok (snd (revert_one b oth (rg, f) rv))"
    by (rule revert_one_base) (use Cons.prems in auto)
  with one Cons show ?case by simp
qed simp

lemma take_stale_ok: "wl_ok wl \<Longrightarrow> wl_ok (snd (foldl take_stale (stale, wl) revs))"
proof (induction revs arbitrary: stale wl)
  case (Cons rv revs)
  obtain w wl1 where one: "wl_remove (rv_path rv) wl = (w, wl1)" by fastforce
  then have "wl_ok wl1" using wl_remove_ok [OF Cons.prems, of "rv_path rv"] by simp
  with Cons.IH one show ?case by (simp add: take_stale_def)
qed simp

lemma fo_revert_ok:
  assumes ok: "fo_ok f"
  shows "fo_ok (snd (fo_revert now f))"
proof (cases "fo_paused f")
  case (Some p)
  obtain revs ix where rp: "revert_pending (fo_index f) = (revs, ix)" by fastforce
  obtain ret q where rd: "return_denied (fo_quarantine f) = (ret, q)" by fastforce
  obtain stale wl where ts: "foldl take_stale ([], fo_wants f) revs = (stale, wl)" by fastforce
  define f1 where "f1 = f\<lparr>fo_paused := None, fo_index := ix, fo_quarantine := q, fo_wants := wl\<rparr>"
  define rg0 where "rg0 = \<lparr>rg_trash = [], rg_refetch = 0, rg_kept = 0, rg_written = []\<rparr>"
  obtain rg f2 where ro: "foldl (revert_one (pz_batch p) (fo_others f)) (rg0, f1) revs = (rg, f2)" by fastforce
  define f3 where "f3 = (if rg_written rg \<noteq> [] then fo_touched now (f2\<lparr>fo_window := None\<rparr>) else f2\<lparr>fo_window := None\<rparr>)"
  define f4 where "f4 = foldl (\<lambda>f old. rederive now old f) f3 stale"
  have ix: "ix_ok (fo_index f)" using ok by (simp add: fo_ok_def)
  then have "ix_ok ix" using revert_pending_ok [OF ix] rp by simp
  moreover have "q_ok q" using q_step_ok [OF q_step.return] ok rd by (metis fo_ok_def snd_conv)
  moreover have "wl_ok wl" using take_stale_ok [of "fo_wants f" "[]" revs] ok ts by (simp add: fo_ok_def)
  ultimately have "base_ok f1" using ok by (simp add: f1_def base_ok_def fo_ok_def)
  then have "base_ok f2"
    using revert_all_base [of f1 revs "pz_batch p" "fo_others f" rg0] restored_at [OF ix] ro rp by simp
  then have "base_ok f3" by (simp add: f3_def base_ok_def fo_touched_def)
  moreover have "base_ok g \<Longrightarrow> base_ok (foldl (\<lambda>f old. rederive now old f) g ws)" for g ws
    by (induction ws arbitrary: g) (auto intro: inbound_base [OF rederive_inbound])
  ultimately have "base_ok f4" unfolding f4_def by blast
  then have "fo_ok (unfreeze now f4)" by (rule unfreeze_ok)
  moreover have "snd (fo_revert now f) = unfreeze now f4"
    unfolding fo_revert_def Some option.case rp rd ts prod.case Let_def f1_def [symmetric] rg0_def [symmetric] ro
      f4_def f3_def by simp
  ultimately show ?thesis by simp
qed (simp add: fo_revert_def ok)

lemma fo_revert_unpaused: "fo_paused f = None \<Longrightarrow> snd (fo_revert now f) = f"
  by (simp add: fo_revert_def)

end
