(* ===== verification/FolderRuns.thy ===== *)
theory FolderRuns
  imports FolderSteps
begin

text \<open>
  What the host's reports, a restart and a dispatch keep, and the folder's operations as events: the
  invariant over every run, and what stands until it is decided or reported.
\<close>

section \<open>Reports\<close>

lemma commit_at_other:
  assumes "wl_get wl' q = wl_get wl q" and "bm_get (wl_released wl') q = bm_get (wl_released wl) q"
  shows "commit_at wl' q = commit_at wl q"
  using assms by (simp add: commit_at_def split: option.split)

lemma fo_failed_keeps [keeping]: "keeps {} f (fo_failed now p err f)"
  unfolding fo_failed_def Let_def
  by (rule keeps_trans [OF _ reconsider_keeps]) (simp add: frame_keeps)

lemma remove_keeps: "keeps {p} f (f\<lparr>fo_wants := snd (wl_remove p (fo_wants f))\<rparr>)"
proof (rule wants_keeps)
  show "commit_at (snd (wl_remove p (fo_wants f))) q = Some v"
    if "q \<notin> {p}" "commit_at (fo_wants f) q = Some v" for q v
    using that commit_at_other [of "snd (wl_remove p (fo_wants f))" q "fo_wants f"] by simp
qed (rule wl_remove_ok)

lemma remove_idle_keeps:
  assumes "is_none_or (\<lambda>w. \<not> is_committing (w_state w)) (wl_get (fo_wants f) p)"
  shows "keeps {} f (f\<lparr>fo_wants := snd (wl_remove p (fo_wants f))\<rparr>)"
proof (rule wants_keeps)
  fix q v assume "commit_at (fo_wants f) q = Some v"
  then show "commit_at (snd (wl_remove p (fo_wants f))) q = Some v"
    using assms by (cases "wl_get (fo_wants f) p") (auto simp: commit_at_def split: option.splits if_splits)
qed (rule wl_remove_ok)

lemma wl_failed_other:
  "q \<noteq> p \<Longrightarrow> wl_get (snd (wl_failed now p v err seq wl)) q = wl_get wl q"
  "wl_released (snd (wl_failed now p v err seq wl)) = wl_released wl"
  by (simp_all add: wl_failed_def Let_def split: option.split)

lemma wl_failed_keeps': "keeps {p} f (f\<lparr>fo_wants := snd (wl_failed now p v err seq (fo_wants f))\<rparr>)"
proof (rule wants_keeps)
  show "commit_at (snd (wl_failed now p v err seq (fo_wants f))) q = Some u"
    if "q \<notin> {p}" "commit_at (fo_wants f) q = Some u" for q u
    using that commit_at_other [of "snd (wl_failed now p v err seq (fo_wants f))" q "fo_wants f"]
    by (simp add: wl_failed_other)
qed (rule wl_failed_ok)

lemma unrecoverable_keeps:
  assumes "observe_absent_unrecoverable p now (fo_index f) = (change, ix)"
  shows "keeps {} f (f\<lparr>fo_index := ix\<rparr>)"
  using assms by (intro local_step_keeps local_step.unrecoverable)

lemma fetched_idle:
  assumes "fetched now p v report wl = (Some w, wl')"
  shows "is_none_or (\<lambda>w. \<not> is_committing (w_state w)) (wl_get wl' p)"
proof -
  obtain want n d where want: "wl_get wl p = Some want" "w_state want = Fetching n d" "w_version want = v"
    using assms by (auto simp: fetched_def split: option.splits want_state.splits if_splits)
  have "is_none_or (\<lambda>w. \<not> is_committing (w_state w)) (wl_get (snd (fetched now p v report wl)) p)"
    using want by (cases report)
      (auto simp: fetched_def fetch_failed_def wl_failed_def Let_def split: local_error.split option.split)
  with assms show ?thesis by simp
qed

lemma fo_fetched_keeps [keeping]: "keeps {} f (snd (fo_fetched now p v report f))"
proof (cases "\<exists>err. report = FFailed err")
  case True
  then obtain err where r: "report = FFailed err" by blast
  have "keeps {} f (f\<lparr>fo_wants := snd (fetch_failed now p v err (collision_seq err f) (fo_wants f))\<rparr>)"
    by (intro quiet_keeps quiet_step.fetch_failed)
  then show ?thesis
    unfolding r fo_fetched_def
    by (auto simp: Let_def case_prod_unfold intro: keeps_trans [OF _ fo_failed_keeps])
next
  case False
  obtain w wl where fe: "fetched now p v report (fo_wants f) = (w, wl)" by fastforce
  define f1 where "f1 = f\<lparr>fo_wants := wl\<rparr>"
  have k1: "keeps {} f f1"
    using quiet_keeps [OF quiet_step.fetched, of f now p v report] fe by (simp add: f1_def)
  show ?thesis
  proof (cases w)
    case None
    with False fe k1 show ?thesis by (cases report) (auto simp: fo_fetched_def f1_def)
  next
    case (Some want)
    define f2 where "f2 = clear_carriers p (f1\<lparr>fo_wants := snd (wl_remove p (fo_wants f1))\<rparr>)"
    have "is_none_or (\<lambda>w. \<not> is_committing (w_state w)) (wl_get (fo_wants f1) p)"
      using fetched_idle fe Some by (simp add: f1_def)
    then have k2: "keeps {} f1 f2"
      unfolding f2_def by (rule keeps_trans [OF remove_idle_keeps clear_carriers_keeps])
    obtain change ix where un: "observe_absent_unrecoverable p now (fo_index f2) = (change, ix)" by fastforce
    note k4 = keeps_trans [OF k1 keeps_trans [OF k2 unrecoverable_keeps [OF un]]]
    have "snd (fo_fetched now p v report f) \<in> {f1, f2\<lparr>fo_index := ix\<rparr>, fo_touched now (f2\<lparr>fo_index := ix\<rparr>)}"
      using False fe un unfolding f2_def f1_def
      by (cases report) (auto simp: fo_fetched_def Let_def split: option.split)
    then show ?thesis using k1 k4 keeps_trans [OF k4 touched_keeps] by auto
  qed
qed

lemma space_recovered_keeps [keeping]: "keeps {} f (snd (space_recovered f))"
proof -
  have "keeps {} f (f\<lparr>fo_wants := resume_inbound (fo_wants f)\<rparr>)"
    by (intro quiet_keeps quiet_step.resumed)
  then have "keeps {} f (f\<lparr>fo_disk_full := False, fo_wants := resume_inbound (fo_wants f)\<rparr>)"
    by (rule frame_keeps_trans(1)) (simp add: parts_of_def)
  then show ?thesis by (simp add: space_recovered_def)
qed

lemma fo_progress_keeps [keeping]: "keeps {} f (fo_progress now p v f)"
  unfolding fo_progress_def by (intro quiet_keeps quiet_step.progress)

lemma fo_restarted_keeps [keeping]: "keeps UNIV f (fo_restarted now f)"
proof -
  have "keeps UNIV f (f\<lparr>fo_wants := restarted (fo_wants f)\<rparr>)"
    by (rule wants_keeps) (simp_all add: restarted_ok)
  then show ?thesis
    by (rule frame_keeps_trans(1)) (simp add: fo_restarted_def parts_of_def Let_def fo_touched_def)
qed

section \<open>Commits\<close>

lemma fo_adopt_keeps [keeping]: "keeps {} f (snd (fo_adopt now e f))"
  using keeps_trans [OF adopt_keeps [of f e] touched_keeps [of "{}" _ now]] adopt_keeps [of f e]
  by (simp add: fo_adopt_def case_prod_unfold Let_def)

lemma defer_keeps:
  assumes "e_path (w_received w) = w_path w"
  shows "keeps {} f (defer_changed_underneath w f)"
proof -
  have "thaws (fo_deferred f) (ds_push (w_path w)
        \<lparr>df_entry = w_received w, df_batch = w_batch w, df_source = w_source w,
         df_seq_high = w_seq_high w, df_reason = ChangedUnderneath,
         df_restoring = (if w_restoring w then Some (w_entry w) else None),
         df_trashed = (if w_restoring w then w_trashed w else None)\<rparr> (fo_deferred f))"
    using assms by (intro thaws_push) (simp_all add: waits_at_def w_path_def)
  then show ?thesis
    unfolding defer_changed_underneath_def by (intro inbound_keeps inbound_deferred)
qed

lemma observe_found_keeps [keeping]: "keeps {} f (snd (observe_found now at p found f))"
  using take_observation_keeps by (simp add: observe_found_def Let_def case_prod_unfold)

lemma land_commit_keeps:
  assumes "e_path (w_received w) = w_path w"
  shows "keeps {} f (snd (land_commit now at p w f))"
proof -
  obtain res f1 where a: "fo_adopt now (w_entry w) f = (res, f1)" by fastforce
  have k1: "keeps {} f f1" using fo_adopt_keeps [of f now "w_entry w"] a by simp
  show ?thesis
  proof (cases res)
    case None
    with keeps_trans [OF k1 defer_keeps [OF assms]] show ?thesis by (simp add: land_commit_def a)
  next
    case (Some r)
    define rest where "rest = (\<lambda>f. reconsider now p ChangedUnderneath (clear_carriers p f))"
    have rest: "keeps {} g (rest g)" for g
      unfolding rest_def by (rule keeps_trans [OF clear_carriers_keeps reconsider_keeps])
    show ?thesis
    proof (cases "w_conflict w")
      case None
      with keeps_trans [OF k1 rest] Some show ?thesis by (simp add: land_commit_def a rest_def Let_def)
    next
      case (Some copy)
      define f2 where "f2 = report_at (cc_path copy) at (bracket_committed (cc_path copy) f1)"
      obtain change ix where c: "record_conflict_copy (cc_path copy) (cc_loser copy) (fo_index f2) = (change, ix)"
        by fastforce
      define f3 where "f3 = reclassify_want now (cc_path copy) (fo_touched now (f2\<lparr>fo_index := ix\<rparr>))"
      have "keeps {} f1 f2" by (simp add: f2_def frame_keeps)
      also have "keeps {} f2 (f2\<lparr>fo_index := ix\<rparr>)"
        using c by (intro local_step_keeps local_step.conflict_copy)
      also have "keeps {} (f2\<lparr>fo_index := ix\<rparr>) f3"
        unfolding f3_def by (rule keeps_trans [OF touched_keeps reclassify_want_keeps])
      finally have "keeps {} f (rest f3)" using k1 rest by (blast intro: keeps_trans)
      with Some \<open>res = Some r\<close> show ?thesis
        by (simp add: land_commit_def a rest_def Let_def f2_def [symmetric] c f3_def)
    qed
  qed
qed

lemma keeps_given: "(fo_ok f \<Longrightarrow> keeps C f g) \<Longrightarrow> keeps C f g"
  by (auto simp: keeps_def)

lemma received_path: "fo_ok f \<Longrightarrow> wl_get (fo_wants f) p = Some w \<Longrightarrow> w_path w = p \<and> e_path (w_received w) = w_path w"
  using wl_okD [of "fo_wants f" p w] by (simp add: fo_ok_def want_ok_def)

lemma failed_report_keeps:
  "keeps {p} f (snd (observe_found now at p found (fo_failed now p err
     (f\<lparr>fo_wants := snd (wl_failed now p v err seq (fo_wants f))\<rparr>))))"
  by (rule keeps_trans [OF keeps_trans [OF wl_failed_keeps' keeps_mono [OF fo_failed_keeps]]
        keeps_mono [OF observe_found_keeps]])

text \<open>The end of a commit that did not fail locally.\<close>

definition end_commit ::
    "timestamp \<Rightarrow> timestamp \<Rightarrow> rel_path \<Rightarrow> apply_outcome \<Rightarrow> folder \<Rightarrow> index_record list \<times> folder" where
  "end_commit now at p out f =
     (let (want, wl) = wl_remove p (fo_wants f); f = f\<lparr>fo_wants := wl\<rparr>
      in case want of
           None \<Rightarrow> ([], f)
         | Some want \<Rightarrow>
             (case (w_reset want \<noteq> None, out) of
                (True, AChangedUnderneath found) \<Rightarrow> observe_found now at p found f
              | (True, _) \<Rightarrow>
                  let (record, f) = fo_adopt now (w_entry want) f
                  in (case record of Some r \<Rightarrow> [r] | None \<Rightarrow> [], reconsider now p ChangedUnderneath f)
              | (False, AChangedUnderneath found) \<Rightarrow>
                  observe_found now at p found (defer_changed_underneath want f)
              | (False, _) \<Rightarrow> land_commit now at p want f))"

lemma end_commit_keeps: "keeps {p} f (snd (end_commit now at p out f))"
proof (rule keeps_given)
  assume ok: "fo_ok f"
  define f1 where "f1 = f\<lparr>fo_wants := snd (wl_remove p (fo_wants f))\<rparr>"
  have k: "keeps {p} f f1" unfolding f1_def by (rule remove_keeps)
  have "keeps {} f1 (snd (end_commit now at p out f))"
  proof (cases "wl_get (fo_wants f) p")
    case None
    then show ?thesis by (simp add: end_commit_def case_prod_unfold f1_def [symmetric] Let_def)
  next
    case (Some w)
    then have at: "e_path (w_received w) = w_path w" using received_path [OF ok] by simp
    obtain res g where ad: "fo_adopt now (w_entry w) f1 = (res, g)" by fastforce
    have "keeps {} f1 g" using fo_adopt_keeps [of f1 now "w_entry w"] ad by simp
    then have reset: "keeps {} f1 (reconsider now p ChangedUnderneath g)"
      by (rule keeps_trans [OF _ reconsider_keeps])
    have def: "keeps {} f1 (snd (observe_found now at p found (defer_changed_underneath w f1)))" for found
      by (rule keeps_trans [OF defer_keeps [OF at] observe_found_keeps])
    show ?thesis
      using reset def land_commit_keeps [OF at] observe_found_keeps
      by (cases "w_reset w"; cases out)
        (simp_all add: end_commit_def case_prod_unfold f1_def [symmetric] Let_def Some ad)
  qed
  then have "keeps {p} f1 (snd (end_commit now at p out f))" by (rule keeps_mono)
  with k show "keeps {p} f (snd (end_commit now at p out f))" by (rule keeps_trans)
qed

lemma applied_at_keeps [keeping]: "keeps {p} f (snd (applied_at now p v at out f))"
proof -
  define f1 where "f1 = bracket_committed p f"
  obtain was wl where rel: "released_reported p v (fo_wants f1) = (was, wl)" by fastforce
  define f2 where "f2 = f1\<lparr>fo_wants := wl\<rparr>"
  have "keeps {p} f f1" by (simp add: f1_def frame_keeps)
  also have "keeps {p} f1 f2"
    unfolding f2_def
  proof (rule wants_keeps)
    have wl: "wl = snd (released_reported p v (fo_wants f1))" by (simp add: rel)
    then show "wl_ok (fo_wants f1) \<Longrightarrow> wl_ok wl" by (simp add: released_reported_ok)
    show "commit_at wl q = Some u" if "q \<notin> {p}" "commit_at (fo_wants f1) q = Some u" for q u
      using that commit_at_other [of wl q "fo_wants f1"] by (simp add: wl)
  qed
  finally have k2: "keeps {p} f f2" .
  define f3 where "f3 = report_at p at f2"
  define f4 where "f4 = (if looked out then f3\<lparr>fo_unobserved := bm_remove p (fo_unobserved f3)\<rparr> else f3)"
  define out' where "out' = (case outcome_found out of
      Some found \<Rightarrow> if would_have_left f4 p found then AOk else out | None \<Rightarrow> out)"
  have k4: "keeps {p} f f4"
    by (rule frame_keeps_trans(1) [OF k2]) (simp add: f4_def f3_def)
  have def: "applied_at now p v at out f =
    (if was then ([], report_at p at f2)
     else if is_none_or (\<lambda>w. w_version w \<noteq> v) (wl_get (fo_wants f2) p) then ([], f2)
     else case out' of
        AFailed err found \<Rightarrow> observe_found now at p found (fo_failed now p err
          (f4\<lparr>fo_wants := snd (wl_failed now p v err (collision_seq err f4) (fo_wants f4))\<rparr>))
      | _ \<Rightarrow> end_commit now at p out' f4)"
    unfolding applied_at_def f1_def [symmetric] Let_def rel prod.case f2_def [symmetric] f3_def [symmetric]
      f4_def [symmetric] out'_def [symmetric]
    by (cases out') (simp_all add: end_commit_def Let_def split: option.split prod.split bool.split)
  have "keeps {p} f (report_at p at f2)" by (rule frame_keeps_trans(1) [OF k2]) simp
  moreover have "keeps {p} f (snd (end_commit now at p out' f4))"
    by (rule keeps_trans [OF k4 end_commit_keeps])
  moreover have "keeps {p} f (snd (observe_found now at p found (fo_failed now p err
          (f4\<lparr>fo_wants := snd (wl_failed now p v err seq (fo_wants f4))\<rparr>))))" for found err seq
    by (rule keeps_trans [OF k4 failed_report_keeps])
  ultimately show ?thesis using k2 by (cases out') (simp_all add: def)
qed

lemma fo_trashed_keeps [keeping]: "keeps {p} f (snd (fo_trashed now p v at out f))"
proof -
  define f1 where "f1 = bracket_committed p f"
  define f2 where "f2 = report_at p at f1"
  define f3 where "f3 = (if looked out then f2\<lparr>fo_unobserved := bm_remove p (fo_unobserved f2)\<rparr> else f2)"
  have k1: "keeps {p} f f1" and k3: "keeps {p} f f3"
    by (simp_all add: f1_def f2_def f3_def frame_keeps)
  define f4 where "f4 = f3\<lparr>fo_wants := snd (wl_remove p (fo_wants f3))\<rparr>"
  have k4: "keeps {p} f f4" unfolding f4_def by (rule keeps_trans [OF k3 remove_keeps])
  have moved: "keeps {p} f (reconsider now p ChangedUnderneath (rewant_carriers p f4))"
    by (rule keeps_trans [OF k4 keeps_mono [OF keeps_trans [OF rewant_carriers_keeps reconsider_keeps]]])
  have given: "keeps {p} f (reconsider now p ChangedUnderneath (snd (observe_found now at p found f4)))" for found
    by (rule keeps_trans [OF k4 keeps_mono [OF keeps_trans [OF observe_found_keeps reconsider_keeps]]])
  have fail: "keeps {p} f (snd (observe_found now at p found (fo_failed now p err
          (f3\<lparr>fo_wants := snd (wl_failed now p v err seq (fo_wants f3))\<rparr>))))" for found err seq
    by (rule keeps_trans [OF k3 failed_report_keeps])
  show ?thesis
    unfolding fo_trashed_def f1_def [symmetric] Let_def f2_def [symmetric] f3_def [symmetric] f4_def [symmetric]
    using k1 moved given fail by (cases out) (simp_all add: case_prod_unfold)
qed

section \<open>Dispatch\<close>

lemma dispatch_adopts:
  assumes "dispatch now rs peers wl = (steps, wl')" and "wl_ok wl" and "WAdopt w \<in> set steps"
  shows "e_path (w_received w) = w_path w"
proof -
  obtain fsteps slots wl1 ps new where f: "dispatch_fetches now rs peers (release_waiting wl) = (fsteps, slots, wl1)"
    and new: "steps = fsteps @ new" "\<And>st. st \<in> set new \<Longrightarrow> started_ok now wl1 wl' ps st"
    by (rule dispatch_stages [OF assms(1,2)]) blast
  have ok: "wl_ok wl1"
    using release_waiting_keeps [OF assms(2)] dispatch_fetches_keeps [OF f] by (auto simp: keeps_commits_def)
  have "WAdopt w \<in> set new"
    using assms(3) dispatch_fetches_spec [OF f] by (auto simp: new(1))
  from new(2) [OF this] obtain p where "wl_get wl1 p = Some w" by (auto simp: started_ok_def)
  with wl_okD [OF ok] show ?thesis by (force simp: want_ok_def)
qed

lemma keep_directory_keeps:
  assumes "is_none_or (\<lambda>w. \<not> is_committing (w_state w)) (wl_get (fo_wants f) p)"
  shows "keeps {} f (snd (keep_directory now (cs, f) p))"
proof -
  define g where "g = f\<lparr>fo_wants := snd (wl_remove p (fo_wants f))\<rparr>"
  obtain change ix where c: "observe p dir_observed (fo_index g) = (change, ix)" by fastforce
  have "keeps {} f g" unfolding g_def by (rule remove_idle_keeps [OF assms])
  also have "keeps {} g (g\<lparr>fo_index := ix\<rparr>)"
    using c by (intro local_step_keeps local_step.observe)
  also have "keeps {} (g\<lparr>fo_index := ix\<rparr>) (reconsider now p ChangedUnderneath (g\<lparr>fo_index := ix\<rparr>))"
    by (rule reconsider_keeps)
  finally show ?thesis
    unfolding keep_directory_def prod.case Let_def g_def [symmetric] c by (simp add: g_def)
qed

lemma keep_directory_idle:
  assumes "fo_ok f" and "is_none_or (\<lambda>w. \<not> is_committing (w_state w)) (wl_get (fo_wants f) q)"
  shows "is_none_or (\<lambda>w. \<not> is_committing (w_state w)) (wl_get (fo_wants (snd (keep_directory now (cs, f) p))) q)"
proof -
  define g where "g = f\<lparr>fo_wants := snd (wl_remove p (fo_wants f))\<rparr>"
  obtain change ix where c: "observe p dir_observed (fo_index g) = (change, ix)" by fastforce
  define h where "h = g\<lparr>fo_index := ix\<rparr>"
  have "local_step (fo_index f) ix" using c by (auto simp: g_def intro: local_step.observe)
  with assms(1) have ix: "ix_ok (fo_index h)" by (simp add: h_def fo_ok_def local_step_ok)
  have wl: "wl_ok (fo_wants h)" using assms(1) by (simp add: h_def g_def fo_ok_def wl_remove_ok)
  have "is_none_or (\<lambda>w. \<not> is_committing (w_state w)) (wl_get (fo_wants h) q)"
    using assms(2) by (simp add: h_def g_def)
  moreover have "calm_step\<^sup>*\<^sup>* (fo_wants h) (fo_wants (reconsider now p ChangedUnderneath h))"
    using reconsider_inbound [OF ix] by (simp add: inbound_def)
  ultimately have "is_none_or (\<lambda>w. \<not> is_committing (w_state w))
      (wl_get (fo_wants (reconsider now p ChangedUnderneath h)) q)"
    using calm_steps_start_none wl by blast
  then show ?thesis
    unfolding keep_directory_def prod.case Let_def g_def [symmetric] c h_def by (simp add: g_def)
qed

lemma keep_directory_fold_keeps:
  assumes "\<And>p. p \<in> set ps \<Longrightarrow> is_none_or (\<lambda>w. \<not> is_committing (w_state w)) (wl_get (fo_wants f) p)"
  shows "keeps {} f (snd (foldl (keep_directory now) (cs, f) ps))"
  using assms
proof (induction ps arbitrary: cs f)
  case (Cons p ps)
  obtain cs' f' where g: "keep_directory now (cs, f) p = (cs', f')" by fastforce
  show ?case
  proof (rule keeps_given)
    assume ok: "fo_ok f"
    have "keeps {} f f'" using keep_directory_keeps [of f p now cs] Cons.prems g by simp
    moreover have "is_none_or (\<lambda>w. \<not> is_committing (w_state w)) (wl_get (fo_wants f') q)" if "q \<in> set ps" for q
      using keep_directory_idle [OF ok, of q now cs p] Cons.prems g that by simp
    then have "keeps {} f' (snd (foldl (keep_directory now) (cs', f') ps))" by (rule Cons.IH)
    ultimately show "keeps {} f (snd (foldl (keep_directory now) (cs, f) (p # ps)))"
      by (auto simp: g intro: keeps_trans)
  qed
qed simp

lemma keep_directories_keeps: "keeps {} f (snd (keep_directories now f))"
proof (rule keeps_given)
  assume ok: "fo_ok f"
  define kept where "kept = filter (live_beneath f) (map w_path (filter (\<lambda>w. is_trash w \<and>
            e_kind (w_entry w) = Dir \<and> \<not> is_committing (w_state w)) (bm_values (wl_wants (fo_wants f)))))"
  have "is_none_or (\<lambda>w. \<not> is_committing (w_state w)) (wl_get (fo_wants f) p)" if "p \<in> set kept" for p
  proof -
    from that obtain q w where w: "wl_get (fo_wants f) q = Some w" "\<not> is_committing (w_state w)" "p = w_path w"
      by (auto simp: kept_def wl_get_def in_bm_values)
    then have "p = q" using received_path [OF ok w(1)] by simp
    with w show ?thesis by simp
  qed
  then have "keeps {} f (snd (foldl (keep_directory now) ([], f) kept))"
    by (rule keep_directory_fold_keeps)
  then show "keeps {} f (snd (keep_directories now f))"
    unfolding keep_directories_def Let_def kept_def [symmetric]
    using keeps_trans [OF _ touched_keeps] by (auto simp: case_prod_unfold)
qed


lemma host_order_keeps:
  assumes "\<And>w. step = WAdopt w \<Longrightarrow> e_path (w_received w) = w_path w"
  shows "keeps {} f (snd (snd (host_order now (h, a, f) step)))"
proof (cases step)
  case (WAdopt w)
  obtain res g where a: "fo_adopt now (w_entry w) f = (res, g)" by fastforce
  have k: "keeps {} f g" using fo_adopt_keeps [of f now "w_entry w"] a by simp
  note d = keeps_trans [OF k defer_keeps [OF assms [OF WAdopt]]]
  show ?thesis
    using keeps_trans [OF k reconsider_keeps] keeps_trans [OF d reconsider_keeps]
    by (cases res) (simp_all add: WAdopt host_order_def a Let_def)
qed (simp_all add: host_order_def case_prod_unfold Let_def)

lemma keeps_fold_host:
  assumes "\<And>w. WAdopt w \<in> set steps \<Longrightarrow> e_path (w_received w) = w_path w"
  shows "keeps {} f (snd (snd (foldl (host_order now) (h, a, f) steps)))"
  using assms
proof (induction steps arbitrary: h a f)
  case (Cons st steps)
  obtain h' a' f' where g: "host_order now (h, a, f) st = (h', a', f')" by (metis prod_cases3)
  have "keeps {} f f'" using host_order_keeps [of st f now h a] Cons.prems g by simp
  moreover have "keeps {} f' (snd (snd (foldl (host_order now) (h', a', f') steps)))" using Cons by simp
  ultimately show ?case by (auto simp: g intro: keeps_trans)
qed simp

lemma fo_dispatch_keeps [keeping]: "keeps {} f (snd (fo_dispatch now peers f))"
proof (rule keeps_given)
  assume ok: "fo_ok f"
  define f1 where "f1 = f\<lparr>fo_wants := release_collisions (\<lambda>path. map_option ir_seq (ix_live (fo_index f) path))
    (fo_wants f)\<rparr>"
  have k1: "keeps {} f f1" unfolding f1_def by (intro quiet_keeps quiet_step.collisions)
  obtain adopted f2 where f2: "keep_directories now f1 = (adopted, f2)" by fastforce
  have k2: "keeps {} f1 f2" using keep_directories_keeps [of f1 now] f2 by simp
  obtain steps wl where d: "dispatch now (fo_rules f2) peers (fo_wants f2) = (steps, wl)" by fastforce
  have "fo_ok f2" using keepsD(1) [OF keeps_trans [OF k1 k2] ok] .
  then have adopts: "e_path (w_received w) = w_path w" if "WAdopt w \<in> set steps" for w
    using dispatch_adopts [OF d _ that] by (simp add: fo_ok_def)
  have k3: "keeps {} f2 (f2\<lparr>fo_wants := wl\<rparr>)"
    using quiet_keeps [OF quiet_step.dispatch, of f2 now "fo_rules f2" peers] d by simp
  have k4: "keeps {} f (snd (snd (foldl (host_order now) ([], adopted, f2\<lparr>fo_wants := wl\<rparr>) steps)))"
    by (rule keeps_trans [OF k1 keeps_trans [OF k2 keeps_trans [OF k3 keeps_fold_host]]]) (rule adopts)
  have k5: "keeps {} f (f1\<lparr>fo_wants := pause_inbound (fo_wants f1)\<rparr>)"
    by (rule keeps_trans [OF k1]) (intro quiet_keeps quiet_step.paused)
  show "keeps {} f (snd (fo_dispatch now peers f))"
    unfolding fo_dispatch_def f1_def [symmetric] Let_def f2 prod.case d
    using k4 k5 by (simp add: case_prod_unfold)
qed

text \<open>Draining the change logs, and the statuses.\<close>

lemma drain_keeps [keeping]:
  "keeps {} f (snd (fo_pending_changes f))" "keeps {} f (snd (fo_held_changes f))"
  "keeps {} f (snd (fo_deferred_changes f))" "keeps {} f (snd (fo_want_changes f))"
  "keeps {} f (snd (take_statuses f))"
proof -
  obtain rows ix where ix: "pending_changes (fo_index f) = (rows, ix)" by fastforce
  then have "ix_announced_seq ix = ix_announced_seq (fo_index f)"
    by (auto simp: pending_changes_def Let_def split: prod.splits)
  moreover have "ix_ok (fo_index f) \<Longrightarrow> ix_ok ix" by (rule ix_step_ok [OF ix_step.drained [OF ix]])
  ultimately have "keeps {} f (f\<lparr>fo_index := ix\<rparr>)" by (intro index_keeps conjI)
  then show "keeps {} f (snd (fo_pending_changes f))" by (simp add: fo_pending_changes_def ix)
  show "keeps {} f (snd (fo_held_changes f))"
    unfolding fo_held_changes_def case_prod_unfold Let_def snd_conv
    by (intro inbound_keeps inbound_quarantine r_into_rtranclp q_step.drain)
  show "keeps {} f (snd (fo_deferred_changes f))"
    unfolding fo_deferred_changes_def case_prod_unfold Let_def snd_conv
    by (intro inbound_keeps inbound_deferred) (simp add: thaws_def ds_ok_def frozen_at_def)
  show "keeps {} f (snd (fo_want_changes f))"
    unfolding fo_want_changes_def case_prod_unfold Let_def snd_conv
    by (intro quiet_keeps quiet_step.drained)
  show "keeps {} f (snd (take_statuses f))" by (rule frame_keeps) (simp add: take_statuses_def)
qed

end
