(* ===== verification/EngineLaws.thy ===== *)
theory EngineLaws
  imports Engines FolderRuns
begin

text \<open>
  An invariant of a folder carried over the events of the engine: the interface it has to provide for the
  operations of a folder, and the fact that it then holds of every folder after every event. Three
  invariants of the model provide it: what every folder keeps, the pause of a folder nobody decides, and
  a commit whose report has not come.
\<close>

section \<open>Folder by folder\<close>

definition holds :: "(folder_id \<Rightarrow> folder \<Rightarrow> bool) \<Rightarrow> (folder_id \<Rightarrow> bool) \<Rightarrow> engine \<Rightarrow> bool" where
  "holds P absent e \<longleftrightarrow> (\<forall>fid. case bm_get (en_folders e) fid of Some f \<Rightarrow> P fid f | None \<Rightarrow> absent fid)"

lemma holds_frame: "en_folders e' = en_folders e \<Longrightarrow> holds P absent e' = holds P absent e"
  by (simp add: holds_def)

lemma holds_updates [simp]:
  "holds P absent (e\<lparr>en_peers := ps\<rparr>) = holds P absent e"
  "holds P absent (e\<lparr>en_woke := w\<rparr>) = holds P absent e"
  "holds P absent (e\<lparr>en_rested := r\<rparr>) = holds P absent e"
  "holds P absent (e\<lparr>en_now := t\<rparr>) = holds P absent e"
  by (simp_all add: holds_def)

lemma holdsD: "holds P absent e \<Longrightarrow> bm_get (en_folders e) fid = Some f \<Longrightarrow> P fid f"
  by (metis holds_def option.simps(5))

lemma holds_insert: "holds P absent e \<Longrightarrow> P fid f \<Longrightarrow> holds P absent (e\<lparr>en_folders := bm_insert fid f (en_folders e)\<rparr>)"
  by (simp add: holds_def)

lemma holds_on_folder:
  assumes "holds P absent e" and "\<And>f. P fid f \<Longrightarrow> P fid (snd (g f))"
  shows "holds P absent (snd (on_folder fid g e))"
proof (cases "bm_get (en_folders e) fid")
  case (Some f)
  with assms have "P fid (snd (g f))" by (blast dest: holdsD)
  with assms(1) show ?thesis by (simp add: on_folder_def Some case_prod_unfold Let_def holds_insert)
qed (simp add: on_folder_def assms(1))

lemma holds_each_folder:
  assumes "holds P absent e" and "\<And>fid f. P fid f \<Longrightarrow> P fid (snd (g fid f))"
  shows "holds P absent (snd (each_folder g e))"
  unfolding holds_def
proof
  fix fid
  show "case bm_get (en_folders (snd (each_folder g e))) fid of Some f \<Rightarrow> P fid f | None \<Rightarrow> absent fid"
    using assms(1) [unfolded holds_def, rule_format, of fid] assms(2)
    by (cases "bm_get (en_folders e) fid") (simp_all add: each_folder_def)
qed

text \<open>A loop over the folders that carries the engine along.\<close>

lemma holds_fold:
  assumes "holds P absent e" and "\<And>out e fid f. holds P absent e \<Longrightarrow> P fid f \<Longrightarrow> holds P absent (snd (g (out, e) (fid, f)))"
    and "\<And>fid f. (fid, f) \<in> set rows \<Longrightarrow> P fid f"
  shows "holds P absent (snd (foldl g (out, e) rows))"
  using assms(1,3)
proof (induction rows arbitrary: out e)
  case (Cons row rows)
  obtain fid f where row: "row = (fid, f)" by fastforce
  obtain out' e' where g: "g (out, e) row = (out', e')" by fastforce
  have "holds P absent e'" using assms(2) [OF Cons.prems(1), of fid f out] Cons.prems(2) g by (simp add: row)
  then show ?case using Cons.IH [of e' out'] Cons.prems(2) by (simp add: g)
qed simp

section \<open>The interface\<close>

locale folder_invariant =
  fixes P :: "folder_id \<Rightarrow> folder \<Rightarrow> bool" and absent :: "folder_id \<Rightarrow> bool" and allowed :: "event \<Rightarrow> bool"
  assumes joined: "absent fid \<Longrightarrow> P fid (folder_new fid rs ms own host)"
    and quiet: "P fid f \<Longrightarrow> keeps {} f g \<Longrightarrow> fixed_of g = fixed_of f \<Longrightarrow> P fid g"
    and tick: "P fid f \<Longrightarrow> P fid (snd (fo_tick now b f))"
    and applied: "P fid f \<Longrightarrow> allowed (EvApplied fid p v at out) \<Longrightarrow> P fid (snd (applied_at now p v at out f))"
    and trashed: "P fid f \<Longrightarrow> allowed (EvTrashed fid p v at out) \<Longrightarrow> P fid (snd (fo_trashed now p v at out f))"
    and approved: "P fid f \<Longrightarrow> allowed (EvApprove fid b) \<Longrightarrow> P fid (snd (fo_approve now b f))"
    and denied: "P fid f \<Longrightarrow> allowed (EvDeny fid b) \<Longrightarrow> fo_request (UDeny b) f = (res, g) \<Longrightarrow>
      P fid (if res = RqRun then snd (decide fid now (UDeny b) g) else g)"
    and reverted: "P fid f \<Longrightarrow> allowed (EvRevert fid) \<Longrightarrow> fo_request (URevert b) f = (res, g) \<Longrightarrow>
      P fid (if res = RqRun then snd (decide fid now (URevert b) g) else g)"
    and queued: "P fid f \<Longrightarrow> next_queued f = (Some step, g) \<Longrightarrow> P fid (snd (run_next fid now step g))"
begin

lemma settled: "P fid f \<Longrightarrow> P fid (snd (settle_folder fid now f))"
proof (induction fid now f rule: settle_folder.induct)
  case (1 fid now f)
  obtain nx g where nx: "next_queued f = (nx, g)" by fastforce
  show ?case
  proof (cases nx)
    case None
    then have "g = f" using nx by (auto simp: next_queued_def split: option.splits)
    with 1(2) show ?thesis by (simp add: settle_folder.simps [of fid now f] nx None)
  next
    case (Some step)
    obtain out h where run: "run_next fid now step g = (out, h)" by fastforce
    have "P fid h" using queued [OF 1(2), of step g now] nx Some run by simp
    then have "P fid (snd (settle_folder fid now h))" 
      by (rule 1(1) [OF nx [symmetric] Some refl run [symmetric]])
    then show ?thesis
      by (simp add: settle_folder.simps [of fid now f] nx Some run Let_def case_prod_unfold)
  qed
qed

lemma requested:
  assumes "P fid f" and "\<And>res g. fo_request d f = (res, g) \<Longrightarrow>
      P fid (if res = RqRun then snd (decide fid now d g) else g)"
  shows "P fid (snd (request_folder fid now d f))"
proof -
  obtain res g where r: "fo_request d f = (res, g)" by fastforce
  from assms(2) [OF r] show ?thesis by (cases res) (simp_all add: request_folder_def r)
qed

lemma fold_kept:
  assumes "holds P absent e"
    and "\<And>out e fid f. holds P absent e \<Longrightarrow> P fid f \<Longrightarrow> holds P absent (snd (g (out, e) (fid, f)))"
  shows "holds P absent (snd (foldl g (out, e) (bm_entries (en_folders e))))"
  using assms by (intro holds_fold) (auto simp: in_bm_entries dest: holdsD)

lemma tick_held:
  assumes "holds P absent e"
  shows "holds P absent (snd (snd (tick_folder now fresh (out, used, e) fid)))"
proof (cases "bm_get (en_folders e) fid")
  case (Some f)
  obtain ex f1 where f1: "fo_expire now f = (ex, f1)" by fastforce
  obtain c n f2 where f2: "catchup_batches now (batch_successor fresh used) f1 = ((c, n), f2)"
    by (metis surj_pair)
  obtain t f3 where f3: "fo_tick now (batch_successor fresh (used + n)) f2 = (t, f3)" by fastforce
  have "P fid f" using assms Some by (rule holdsD)
  then have "P fid (snd (fo_expire now f))" by (rule quiet [OF _ fo_expire_keeps send_frame(2)])
  then have "P fid (snd (catchup_batches now (batch_successor fresh used) f1))"
    unfolding f1 snd_conv by (rule quiet [OF _ catchup_keeps(3) send_frame(4)])
  then have "P fid f2" by (simp add: f2)
  then have "P fid f3" using tick [of fid f2 now "batch_successor fresh (used + n)"] f3 by simp
  with assms have "holds P absent (e\<lparr>en_folders := bm_insert fid f3 (en_folders e)\<rparr>)" by (rule holds_insert)
  then show ?thesis
    unfolding tick_folder_def prod.case Let_def Some option.case f1 f2 f3 by (cases t) simp_all
qed (simp add: tick_folder_def assms)

lemma en_tick_held:
  assumes "holds P absent e"
  shows "holds P absent (snd (en_tick now fresh e))"
proof -
  have fold: "holds P absent e1 \<Longrightarrow> foldl (tick_folder now fresh) (out, used, e1) ks = (out', used', e') \<Longrightarrow>
      holds P absent e'" for out used e1 ks out' used' e'
  proof (induction ks arbitrary: out used e1)
    case (Cons k ks)
    obtain o2 u2 e2 where t: "tick_folder now fresh (out, used, e1) k = (o2, u2, e2)"
      by (metis prod_cases3)
    have "holds P absent e2" using tick_held [OF Cons.prems(1), of now fresh out used k] t by simp
    then show ?case using Cons.IH [of e2 o2 u2] Cons.prems(2) t by simp
  qed simp
  define e1 where "e1 = e\<lparr>en_woke := bm_empty\<rparr>"
  obtain out used e' where f: "foldl (tick_folder now fresh) ([], 0, e1) (bm_keys (en_folders e1)) = (out, used, e')"
    by (rule prod_cases3)
  have "holds P absent e1" using assms by (simp add: e1_def)
  then have "holds P absent e'" using f by (rule fold)
  moreover have keys: "bm_keys (en_folders e) = bm_keys (en_folders e1)" by (simp add: e1_def)
  have "en_tick now fresh e = (out, e')"
    unfolding en_tick_def e1_def [symmetric] keys f Let_def prod.case ..
  ultimately show ?thesis by simp
qed

lemma en_approve_held:
  assumes "holds P absent e" and "allowed (EvApprove fid b)"
  shows "holds P absent (snd (en_approve now fid b e))"
proof (cases "bm_get (en_folders e) fid")
  case (Some f)
  with assms have "P fid (snd (fo_approve now b f))" by (blast intro: approved dest: holdsD)
  with assms(1) show ?thesis
    unfolding en_approve_def Some option.case case_prod_unfold Let_def snd_conv by (rule holds_insert)
qed (simp add: en_approve_def assms(1))

lemma peers_held:
  assumes "holds P absent e"
  shows "holds P absent (snd (peer_connected n t e))"
    and "holds P absent (snd (take_event now (EvPeerDisconnected n) e))"
proof -
  have each: "holds P absent (snd (each_folder (\<lambda>_ f. ([], g f)) (e\<lparr>en_peers := ps\<rparr>)))"
    if "\<And>f. keeps {} f (g f)" "\<And>f. fixed_of (g f) = fixed_of f" for g ps
    using assms quiet [OF _ that(1) that(2)] by (intro holds_each_folder) simp_all
  show "holds P absent (snd (peer_connected n t e))"
    unfolding peer_connected_def Let_def snd_conv by (rule each [OF fo_peer_keeps(2) send_frame(7)])
  show "holds P absent (snd (take_event now (EvPeerDisconnected n) e))"
    unfolding take_event.simps snd_conv by (rule each [OF fo_peer_keeps(1) send_frame(6)])
qed

lemma take_event_held:
  assumes H: "holds P absent e" and ok: "allowed ev"
  shows "holds P absent (snd (take_event now ev e))"
proof (cases ev)
  case (EvFolderJoined fid rs ms)
  have "P fid (folder_new fid rs ms own host)" if "bm_get (en_folders e) fid = None" for own host
    using H [unfolded holds_def, rule_format, of fid] that joined by simp
  with H show ?thesis by (auto simp: EvFolderJoined bm_has_def intro: holds_insert)
next
  case (EvFetched fid p h v report)
  have "P fid f \<Longrightarrow> P fid (snd (fetched_folder fid now p v report f))" for f
    using quiet [OF _ fo_fetched_keeps fetch_frame(1)] by (simp add: fetched_folder_def case_prod_unfold Let_def)
  with H show ?thesis by (simp add: EvFetched holds_on_folder)
next
  case (EvScanned fid p s at)
  have "P fid f \<Longrightarrow> P fid (snd (scanned_folder fid now at p s f))" for f
    using quiet [OF _ take_observation_keeps fixed_take_observation]
    by (simp add: scanned_folder_def fo_observed_at_def case_prod_unfold Let_def)
  with H show ?thesis by (simp add: EvScanned holds_on_folder)
next
  case (EvScanFinished fid)
  have "P fid f \<Longrightarrow> P fid (snd (scan_finished_folder fid now f))" for f
    using quiet [OF _ scan_finished_keeps scan_frame(3), of fid f now]
    by (simp add: scan_finished_folder_def case_prod_unfold Let_def split: sum.split)
  with H show ?thesis by (simp add: EvScanFinished holds_on_folder)
next
  case (EvScanAborted fid)
  have "P fid f \<Longrightarrow> P fid (snd (case scan_aborted f of
         (Some status, f) \<Rightarrow> ([AcStatusChanged fid status], f) | (None, f) \<Rightarrow> ([], f)))" for f
    using quiet [OF _ scan_aborted_keeps scan_frame(2), of fid f]
    by (simp add: case_prod_unfold split: option.split)
  with H show ?thesis by (simp add: EvScanAborted holds_on_folder)
next
  case (EvSpaceRecovered fid)
  have "P fid f \<Longrightarrow> P fid (snd (case space_recovered f of
         (Some status, f) \<Rightarrow> ([AcStatusChanged fid status], f) | (None, f) \<Rightarrow> ([], f)))" for f
    using quiet [OF _ space_recovered_keeps fetch_frame(2), of fid f]
    by (simp add: case_prod_unfold split: option.split)
  with H show ?thesis by (simp add: EvSpaceRecovered holds_on_folder)
next
  case (EvBatchReceived n b)
  have "P fid f \<Longrightarrow> P fid (snd (receive_folder now n b f))" for fid f
    using quiet [OF _ fo_receive_keeps fo_receive_frame, of fid f now b]
    by (simp add: receive_folder_def case_prod_unfold Let_def)
  with H show ?thesis by (simp add: EvBatchReceived holds_on_folder)
next
  case (EvDeny fid b)
  have "P fid f \<Longrightarrow> P fid (snd (request_folder fid now (UDeny b) f))" for f
    using denied ok EvDeny by (intro requested) blast+
  with H show ?thesis by (simp add: EvDeny holds_on_folder)
next
  case (EvRevert fid)
  have "P fid f \<Longrightarrow> P fid (snd (request_folder fid now (URevert b) f))" for f b
    using reverted ok EvRevert by (intro requested) blast+
  with H show ?thesis by (simp add: EvRevert holds_on_folder split: option.split)
next
  case (EvApplied fid p v at out)
  with H ok show ?thesis by (simp add: holds_on_folder applied case_prod_unfold Let_def)
next
  case (EvTrashed fid p v at out)
  with H ok show ?thesis by (simp add: holds_on_folder trashed case_prod_unfold Let_def)
next
  case (EvRulesChanged fid rs)
  have "P fid f \<Longrightarrow> P fid (snd (rules_changed rs f))" for f
    by (rule quiet [OF _ rules_changed_keeps decide_frame(1)])
  with H show ?thesis by (simp add: EvRulesChanged holds_on_folder case_prod_unfold Let_def)
next
  case (EvApprove fid b)
  with H ok show ?thesis by (simp add: en_approve_held)
next
  case (EvTick b)
  with H show ?thesis by (simp add: en_tick_held)
next
  case (EvPeerConnected n t)
  with H show ?thesis by (simp add: peers_held)
next
  case (EvPeerDisconnected n)
  with H show ?thesis by (simp only: peers_held)
qed (use H in \<open>simp_all\<close>,
    (rule holds_on_folder [OF H], simp add: silently_def,
      rule quiet, assumption, simp_all add: scan_started_keeps scan_frame catchup_keeps send_frame
        fo_progress_keeps fetch_frame)+)

text \<open>The rest of an event.\<close>

lemma pump_held:
  assumes "P fid f"
  shows "P fid (snd (pump_folder now peers fid f))"
proof -
  obtain o1 f1 where f1: "fo_dispatch now peers f = (o1, f1)" by fastforce
  obtain o2 f2 where f2: "fo_want_changes f1 = (o2, f2)" by fastforce
  have "P fid f1" using quiet [OF assms fo_dispatch_keeps fo_dispatch_frame, of now peers] f1 by simp
  then have "P fid f2" using quiet [OF _ drain_keeps(4) drain_frame(4), of fid f1] f2 by simp
  then have "P fid (snd (take_statuses f2))" by (rule quiet [OF _ drain_keeps(5) drain_frame(5)])
  then show ?thesis
    by (simp add: pump_folder_def f1 f2 case_prod_unfold Let_def)
qed

lemma schedule_folders:
  "en_folders (snd (schedule_folder (out, e) row)) = en_folders e"
  by (simp add: schedule_folder_def Let_def split: prod.split option.split)

lemma schedule_held: "holds P absent e \<Longrightarrow> holds P absent (snd (schedule e))"
  unfolding schedule_def
  by (rule fold_kept) (auto simp: holds_frame [OF schedule_folders])

lemma drain_held:
  assumes "P fid f"
  shows "P fid (snd (drain_folder fid f))"
proof -
  obtain o1 f1 where f1: "fo_pending_changes f = (o1, f1)" by fastforce
  obtain o2 f2 where f2: "fo_held_changes f1 = (o2, f2)" by fastforce
  have "P fid f1" using quiet [OF assms drain_keeps(1) drain_frame(1)] f1 by simp
  then have "P fid f2" using quiet [OF _ drain_keeps(2) drain_frame(2), of fid f1] f2 by simp
  then have "P fid (snd (fo_deferred_changes f2))" by (rule quiet [OF _ drain_keeps(3) drain_frame(3)])
  then show ?thesis
    by (simp add: drain_folder_def f1 f2 case_prod_unfold Let_def)
qed

lemma persist_held:
  assumes "holds P absent e"
  shows "holds P absent (snd (persist e))"
  unfolding persist_def
proof (rule fold_kept [OF assms])
  fix out e fid f assume H: "holds P absent e" and f: "P fid f"
  obtain changes g where d: "drain_folder fid f = (changes, g)" by fastforce
  have "P fid g" using drain_held [OF f] d by simp
  with H show "holds P absent (snd (persist_folder (out, e) (fid, f)))"
    by (simp add: persist_folder_def d Let_def) (simp add: holds_def)
qed

lemma note_write_held:
  assumes "holds P absent e"
  shows "holds P absent (note_write now e a)"
proof -
  have "P fid (fo_wrote p now f)" if "bm_get (en_folders e) fid = Some f" for fid p f
    by (rule quiet [OF holdsD [OF assms that] frame_keeps drain_frame(6)]) (simp add: fo_wrote_def)
  then have "holds P absent (case bm_get (en_folders e) fid of
      Some f \<Rightarrow> e\<lparr>en_folders := bm_insert fid (fo_wrote p now f) (en_folders e)\<rparr> | None \<Rightarrow> e)" for fid p
    using assms by (auto intro: holds_insert split: option.split)
  with assms show ?thesis by (cases a) (simp_all add: note_write_def Let_def)
qed

theorem handle_held:
  assumes "holds P absent e" and "allowed ev"
  shows "holds P absent (snd (handle now ev e))"
proof -
  obtain o1 e1 where 1: "take_event now ev (e\<lparr>en_now := now\<rparr>) = (o1, e1)" by fastforce
  obtain o2 e2 where 2: "settle now e1 = (o2, e2)" by fastforce
  obtain o3 e3 where 3: "pump now e2 = (o3, e3)" by fastforce
  obtain o4 e4 where 4: "en_observe e3 = (o4, e4)" by fastforce
  obtain o5 e5 where 5: "schedule e4 = (o5, e5)" by fastforce
  obtain o6 e6 where 6: "persist e5 = (o6, e6)" by fastforce
  have "holds P absent (e\<lparr>en_now := now\<rparr>)" using assms(1) by simp
  then have "holds P absent e1" 
    using take_event_held [OF _ assms(2), of "e\<lparr>en_now := now\<rparr>" now] by (simp add: 1)
  then have "holds P absent (snd (settle now e1))"
    unfolding settle_def by (rule holds_each_folder) (rule settled)
  then have "holds P absent (snd (pump now e2))"
    unfolding 2 snd_conv pump_def by (rule holds_each_folder) (rule pump_held)
  then have "holds P absent e3" by (simp add: 3)
  moreover have "P fid f \<Longrightarrow> P fid (snd (observe_folder fid f))" for fid f
    using quiet [OF _ observe_requests_keeps decide_frame(2), of fid f]
    by (simp add: observe_folder_def case_prod_unfold Let_def)
  ultimately have "holds P absent (snd (en_observe e3))"
    unfolding en_observe_def by (rule holds_each_folder)
  then have "holds P absent (snd (schedule e4))" unfolding 4 snd_conv by (rule schedule_held)
  then have "holds P absent (snd (persist e5))" unfolding 5 snd_conv by (rule persist_held)
  then have "holds P absent e6" by (simp add: 6)
  moreover have "holds P absent (foldl (note_write now) e' out)" if "holds P absent e'" for e' out
    using that by (induction out arbitrary: e') (simp_all add: note_write_held)
  ultimately show ?thesis by (simp add: handle_def 1 2 3 4 5 6 Let_def)
qed

theorem run_held:
  assumes "holds P absent e" and "\<forall>(t, ev) \<in> set evs. allowed ev"
  shows "holds P absent (snd (run_events evs e))"
  using assms
proof (induction evs arbitrary: e)
  case (Cons x evs)
  obtain t ev where x: "x = (t, ev)" by fastforce
  obtain out e1 where h: "handle t ev e = (out, e1)" by fastforce
  have "holds P absent e1" using handle_held [OF Cons.prems(1), of ev t] Cons.prems(2) h by (simp add: x)
  then have "holds P absent (snd (run_events evs e1))" using Cons by simp
  then show ?case by (simp add: x h case_prod_unfold Let_def)
qed simp

end

end
