(* ===== verification/EngineViews.thy ===== *)
theory EngineViews
  imports EngineLaws WantViews
begin

text \<open>
  What the engine keeps over every sequence of events: each folder's invariant, the pause of a folder
  until the user decides, and a commit until its report. Each is an invariant of a folder, shown to
  satisfy the interface of EngineLaws.
\<close>

section \<open>Each folder's invariant\<close>

lemma folder_new_ok: "fo_ok (folder_new fid rs ms own host)"
  by (simp add: fo_ok_def folder_new_def index_new_ok q_default_ok wl_default_ok frozen_at_def ds_ok_def)

lemma decide_ok: "fo_ok f \<Longrightarrow> fo_ok (snd (decide fid now d f))"
  using keepsD(1) [OF fo_deny_keeps [of f now]] fo_revert_ok [of f now]
  by (cases d) (auto simp: decide_def case_prod_unfold split: option.split)

lemma decide_deny_keeps: "keeps {} f (snd (decide fid now (UDeny b) f))"
  using fo_deny_keeps [of f now b] by (simp add: decide_def case_prod_unfold split: option.split)

lemma run_next_ok: "fo_ok f \<Longrightarrow> fo_ok (snd (run_next fid now step f))"
  by (cases step) (simp_all add: run_next_def decide_ok)

lemma next_queued_ok: "fo_ok f \<Longrightarrow> next_queued f = (nx, g) \<Longrightarrow> fo_ok g"
  using keepsD(1) [OF next_queued_keeps [of f]] by simp

lemma fo_request_ok: "fo_ok f \<Longrightarrow> fo_request d f = (res, g) \<Longrightarrow> fo_ok g"
  using keepsD(1) [OF fo_request_keeps [of f d]] by simp

definition sound :: "folder_id \<Rightarrow> folder \<Rightarrow> bool" where
  "sound fid f \<longleftrightarrow> fo_ok f"

interpretation sound_law: folder_invariant sound "\<lambda>_. True" "\<lambda>_. True"
proof unfold_locales
  show "sound fid g" if "sound fid f" "keeps {} f g" "fixed_of g = fixed_of f" for fid f g
    using that by (simp add: sound_def keepsD(1))
  show "sound fid (if res = RqRun then snd (decide fid now (UDeny b) g) else g)"
    if "sound fid f" "fo_request (UDeny b) f = (res, g)" for fid f now b res g
    using that fo_request_ok decide_ok by (auto simp: sound_def)
  show "sound fid (if res = RqRun then snd (decide fid now (URevert b) g) else g)"
    if "sound fid f" "fo_request (URevert b) f = (res, g)" for fid f now b res g
    using that fo_request_ok decide_ok by (auto simp: sound_def)
  show "sound fid (snd (run_next fid now step g))"
    if "sound fid f" "next_queued f = (Some step, g)" for fid f step g now
    using that next_queued_ok run_next_ok by (auto simp: sound_def)
qed (simp_all add: sound_def folder_new_ok fo_tick_ok fo_approve_ok keepsD(1) [OF applied_at_keeps]
      keepsD(1) [OF fo_trashed_keeps])

definition en_ok :: "engine \<Rightarrow> bool" where
  "en_ok e \<longleftrightarrow> (\<forall>fid f. bm_get (en_folders e) fid = Some f \<longrightarrow> fo_ok f)"

lemma en_ok_holds: "en_ok e \<longleftrightarrow> holds sound (\<lambda>_. True) e"
  by (auto simp: en_ok_def holds_def sound_def split: option.split)

lemma engine_new_ok: "en_ok (engine_new config)"
  by (simp add: en_ok_def engine_new_def)

lemma engine_run_ok: "en_ok e \<Longrightarrow> en_ok (snd (run_events evs e))"
  unfolding en_ok_holds by (rule sound_law.run_held) auto

section \<open>A pause lasts until it is decided\<close>

definition is_revert :: "user_decision \<Rightarrow> bool" where
  "is_revert d \<longleftrightarrow> (case d of URevert _ \<Rightarrow> True | UDeny _ \<Rightarrow> False)"

definition paused_at :: "batch_id \<Rightarrow> nat \<Rightarrow> folder \<Rightarrow> bool" where
  "paused_at b n f \<longleftrightarrow> map_option pz_batch (fo_paused f) = Some b \<and> ix_announced_seq (fo_index f) = n \<and>
     list_all (\<lambda>q. \<not> is_revert (qu_decision q)) (fo_queued f)"

definition stays_paused :: "folder_id \<Rightarrow> batch_id \<Rightarrow> nat \<Rightarrow> folder_id \<Rightarrow> folder \<Rightarrow> bool" where
  "stays_paused fid0 b n fid f \<longleftrightarrow> fo_ok f \<and> (fid = fid0 \<longrightarrow> paused_at b n f)"

definition undecided :: "folder_id \<Rightarrow> batch_id \<Rightarrow> event \<Rightarrow> bool" where
  "undecided fid b ev \<longleftrightarrow> ev \<noteq> EvApprove fid b \<and> ev \<noteq> EvRevert fid"

lemma paused_keeps:
  assumes "fo_ok f" and "keeps C f g" and "fo_queued g = fo_queued f"
  shows "paused_at b n g = paused_at b n f"
  using keepsD(2) [OF assms(2,1)] assms(3) by (simp add: paused_at_def still_def)

lemma fixed_queued: "fixed_of g = fixed_of f \<Longrightarrow> fo_queued g = fo_queued f"
  by (simp add: fixed_of_def)

lemma stays_paused_quiet:
  assumes "stays_paused fid0 b n fid f" and "keeps C f g" and "fixed_of g = fixed_of f"
  shows "stays_paused fid0 b n fid g"
  using assms(1) paused_keeps [OF _ assms(2) fixed_queued [OF assms(3)]] keepsD(1) [OF assms(2)]
  by (simp add: stays_paused_def)

text \<open>Whatever leaves the queue or changes its reason brings no new decision into it.\<close>

lemma paused_queue:
  assumes "paused_at b n f" and "qu_decision ` set qs \<subseteq> qu_decision ` set (fo_queued f)"
  shows "paused_at b n (f\<lparr>fo_queued := qs\<rparr>)"
  using assms by (fastforce simp: paused_at_def list_all_iff)

lemma next_in_run:
  assumes "next_in f pre qs = Some (NxRun d, qs')"
  shows "d \<in> qu_decision ` set qs \<and> unsettled f d = None \<and> decision_exists f d"
  using assms
  by (induction f pre qs rule: next_in.induct) (auto simp: Let_def split: if_splits option.splits)

lemma next_queued_shape:
  assumes "next_queued f = (Some step, g)"
  obtains qs where "g = f\<lparr>fo_queued := qs\<rparr>" "qu_decision ` set qs \<subseteq> qu_decision ` set (fo_queued f)"
    "\<And>d. step = NxRun d \<Longrightarrow> d \<in> qu_decision ` set (fo_queued f) \<and> unsettled f d = None \<and> decision_exists f d"
proof -
  obtain qs where qs: "next_in f [] (fo_queued f) = Some (step, qs)" "g = f\<lparr>fo_queued := qs\<rparr>"
    using assms by (auto simp: next_queued_def split: option.splits prod.splits)
  have "qu_decision ` set qs \<subseteq> qu_decision ` set (fo_queued f)"
    using next_in_decisions [OF qs(1)] by auto
  then show thesis
    by (rule that [OF qs(2)]) (use qs(1) next_in_run in blast)
qed

lemma fo_request_shape:
  assumes "fo_request d f = (res, g)"
  obtains qs where "g = f\<lparr>fo_queued := qs\<rparr>" "qu_decision ` set qs \<subseteq> insert d (qu_decision ` set (fo_queued f))"
    "res = RqRun \<Longrightarrow> unsettled f d = None"
proof -
  have "qu_decision ` set (requeue d r qs) \<subseteq> insert d (qu_decision ` set qs)" for r qs
    by (induction qs) auto
  note sub = this
  show thesis
  proof (cases "unsettled f d")
    case None
    with assms show thesis
      by (intro that [of "filter (\<lambda>q. qu_decision q \<noteq> d) (fo_queued f)"]) (auto simp: fo_request_def)
  next
    case (Some r)
    with assms sub show thesis by (intro that [of "requeue d r (fo_queued f)"]) (auto simp: fo_request_def)
  qed
qed

lemma request_deny_quiet:
  assumes "fo_request (UDeny b) f = (res, g)"
  shows "keeps {} f (if res = RqRun then snd (decide fid now (UDeny b) g) else g)"
proof -
  have "keeps {} f g" using fo_request_keeps [of f "UDeny b"] assms by simp
  with keeps_trans [OF this decide_deny_keeps] show ?thesis by simp
qed

lemma queued_decide: "fo_queued (snd (decide fid now d f)) = fo_queued f"
  using fixed_decide [of fid now d f] by (simp add: fixed_of_def)

lemma stays_paused_queue:
  assumes "stays_paused fid0 b n fid f" and "keeps {} f g" and "qs = fo_queued g"
    and "qu_decision ` set qs \<subseteq> D \<union> qu_decision ` set (fo_queued f)" and "\<forall>d \<in> D. \<not> is_revert d"
  shows "stays_paused fid0 b n fid g"
proof -
  have ok: "fo_ok f" using assms(1) by (simp add: stays_paused_def)
  have "list_all (\<lambda>q. \<not> is_revert (qu_decision q)) (fo_queued f) \<Longrightarrow>
      list_all (\<lambda>q. \<not> is_revert (qu_decision q)) (fo_queued g)"
    using assms(3,4,5) by (fastforce simp: list_all_iff)
  with assms(1) keepsD [OF assms(2) ok] show ?thesis
    by (auto simp: stays_paused_def paused_at_def still_def)
qed

interpretation paused_law: folder_invariant "stays_paused fid0 b n" "\<lambda>fid. fid \<noteq> fid0" "undecided fid0 b"
  for fid0 b n
proof unfold_locales
  show "stays_paused fid0 b n fid (folder_new fid rs ms own host)" if "fid \<noteq> fid0" for fid rs ms own host
    using that by (simp add: stays_paused_def folder_new_ok)
  show "stays_paused fid0 b n fid g"
    if "stays_paused fid0 b n fid f" "keeps {} f g" "fixed_of g = fixed_of f" for fid f g
    using that by (rule stays_paused_quiet)
  show "stays_paused fid0 b n fid (snd (fo_tick now b' f))" if "stays_paused fid0 b n fid f" for fid f now b'
  proof (cases "fo_paused f")
    case (Some p)
    show ?thesis by (rule stays_paused_quiet [OF that fo_tick_paused [OF Some] fo_tick_frame])
  next
    case None
    with that have "fid \<noteq> fid0" by (auto simp: stays_paused_def paused_at_def)
    with that show ?thesis by (simp add: stays_paused_def fo_tick_ok)
  qed
  show "stays_paused fid0 b n fid (snd (applied_at now p v at out f))"
    if "stays_paused fid0 b n fid f" for fid f now p v at out
    by (rule stays_paused_quiet [OF that applied_at_keeps report_frame(1)])
  show "stays_paused fid0 b n fid (snd (fo_trashed now p v at out f))"
    if "stays_paused fid0 b n fid f" for fid f now p v at out
    by (rule stays_paused_quiet [OF that fo_trashed_keeps report_frame(2)])
  show "stays_paused fid0 b n fid (snd (fo_approve now b' f))"
    if H: "stays_paused fid0 b n fid f" and "undecided fid0 b (EvApprove fid b')" for fid f now b'
  proof (cases "fid = fid0")
    case True
    with that have "map_option pz_batch (fo_paused f) \<noteq> Some b'"
      by (auto simp: undecided_def stays_paused_def paused_at_def)
    then show ?thesis by (intro stays_paused_quiet [OF H fo_approve_other fo_approve_frame])
  next
    case False
    with H show ?thesis by (simp add: stays_paused_def fo_approve_ok)
  qed
  show "stays_paused fid0 b n fid (if res = RqRun then snd (decide fid now (UDeny b') g) else g)"
    if H: "stays_paused fid0 b n fid f" and r: "fo_request (UDeny b') f = (res, g)" for fid f now b' res g
  proof (rule stays_paused_queue [OF H request_deny_quiet [OF r] refl, of _ _ "{UDeny b'}"])
    show "qu_decision ` set (fo_queued (if res = RqRun then snd (decide fid now (UDeny b') g) else g))
        \<subseteq> {UDeny b'} \<union> qu_decision ` set (fo_queued f)"
    proof -
      have "fo_queued (if res = RqRun then snd (decide fid now (UDeny b') g) else g) = fo_queued g"
        by (simp add: queued_decide)
      moreover have "qu_decision ` set (fo_queued g) \<subseteq> {UDeny b'} \<union> qu_decision ` set (fo_queued f)"
        by (rule fo_request_shape [OF r]) simp
      ultimately show ?thesis by simp
    qed
  qed (simp add: is_revert_def)
  show "stays_paused fid0 b n fid (if res = RqRun then snd (decide fid now (URevert b') g) else g)"
    if H: "stays_paused fid0 b n fid f" and "undecided fid0 b (EvRevert fid)"
      and r: "fo_request (URevert b') f = (res, g)" for fid f now b' res g
    using that fo_request_ok decide_ok by (auto simp: stays_paused_def undecided_def)
  show "stays_paused fid0 b n fid (snd (run_next fid now step g))"
    if H: "stays_paused fid0 b n fid f" and nx: "next_queued f = (Some step, g)" for fid f step g now
  proof (cases "fid = fid0")
    case False
    with H nx next_queued_ok run_next_ok show ?thesis by (auto simp: stays_paused_def)
  next
    case True
    obtain qs where qs: "g = f\<lparr>fo_queued := qs\<rparr>" "qu_decision ` set qs \<subseteq> qu_decision ` set (fo_queued f)"
      "\<And>d. step = NxRun d \<Longrightarrow> d \<in> qu_decision ` set (fo_queued f) \<and> unsettled f d = None \<and> decision_exists f d"
      using next_queued_shape [OF nx] by blast
    have "keeps {} f g" using next_queued_keeps [of f] nx by simp
    then have G: "stays_paused fid0 b n fid g"
      by (rule stays_paused_queue [OF H _ refl, of _ "{}"]) (use qs in simp_all)
    show ?thesis
    proof (cases step)
      case (NxRun d)
      have "\<not> is_revert d"
        using qs(3) [OF NxRun] H True by (auto simp: stays_paused_def paused_at_def list_all_iff)
      then obtain b' where d: "d = UDeny b'" by (cases d) (simp_all add: is_revert_def)
      show ?thesis
        unfolding NxRun run_next_def next_step.case d
        by (rule stays_paused_quiet [OF G decide_deny_keeps fixed_decide])
    qed (simp_all add: run_next_def G)
  qed
qed

section \<open>A commit waits for its report\<close>

definition commit_waits :: "folder_id \<Rightarrow> rel_path \<Rightarrow> version \<Rightarrow> folder_id \<Rightarrow> folder \<Rightarrow> bool" where
  "commit_waits fid0 p v fid f \<longleftrightarrow> fo_ok f \<and> (fid = fid0 \<longrightarrow> commit_at (fo_wants f) p = Some v)"

fun unreported :: "folder_id \<Rightarrow> rel_path \<Rightarrow> event \<Rightarrow> bool" where
  "unreported fid p (EvApplied fid' p' v at out) = (fid' \<noteq> fid \<or> p' \<noteq> p)"
| "unreported fid p (EvTrashed fid' p' v at out) = (fid' \<noteq> fid \<or> p' \<noteq> p)"
| "unreported fid p ev = True"

lemma commit_waits_kept:
  assumes "commit_waits fid0 p v fid f" and "keeps C f g" and "fid = fid0 \<Longrightarrow> p \<notin> C"
  shows "commit_waits fid0 p v fid g"
  using assms(1,3) keepsD [OF assms(2)] by (auto simp: commit_waits_def still_def)

text \<open>A \<open>revert\<close> never runs under a commit.\<close>

lemma commit_unsettles:
  assumes "commit_at (fo_wants f) p = Some v"
  shows "unsettled f (URevert b) \<noteq> None"
proof -
  have "bm_has (wl_released (fo_wants f)) p \<or> (\<exists>w \<in> set (bm_values (wl_wants (fo_wants f))). w_committing w)"
    using assms by (force simp: commit_at_def bm_has_def in_bm_values wl_get_def w_committing_def
      split: option.splits if_splits)
  then have "map w_path (filter w_committing (bm_values (wl_wants (fo_wants f)))) @
      released_paths (fo_wants f) \<noteq> []"
    using in_bm_keys [of p "wl_released (fo_wants f)"]
    by (fastforce simp: released_paths_def filter_empty_conv)
  then show ?thesis by (auto simp: unsettled_def split: list.split)
qed

lemma commit_waits_decide:
  assumes "commit_waits fid0 p v fid f" and "unsettled f d = None"
  shows "commit_waits fid0 p v fid (snd (decide fid now d f))"
proof (cases d)
  case (UDeny b)
  show ?thesis unfolding UDeny by (rule commit_waits_kept [OF assms(1) decide_deny_keeps]) simp
next
  case (URevert b)
  with assms commit_unsettles [of f p v b] have "fid \<noteq> fid0" by (auto simp: commit_waits_def)
  with assms(1) show ?thesis by (simp add: commit_waits_def decide_ok)
qed

lemma commit_waits_request:
  assumes "commit_waits fid0 p v fid f" and "fo_request d f = (res, g)"
  shows "commit_waits fid0 p v fid (if res = RqRun then snd (decide fid now d g) else g)"
proof -
  obtain qs where qs: "g = f\<lparr>fo_queued := qs\<rparr>" "res = RqRun \<Longrightarrow> unsettled f d = None"
    using fo_request_shape [OF assms(2)] by blast
  have "keeps {} f g" using fo_request_keeps [of f d] assms(2) by simp
  then have "commit_waits fid0 p v fid g" by (rule commit_waits_kept [OF assms(1)]) simp
  with qs show ?thesis by (simp add: commit_waits_decide)
qed

lemma approve_commits:
  assumes "fo_ok f" and "commit_at (fo_wants f) p = Some v"
  shows "commit_at (fo_wants (snd (fo_approve now b f))) p = Some v"
proof (cases "bm_get (q_items (fo_quarantine f)) b")
  case (Some item)
  then show ?thesis using keepsD(2) [OF approve_held_keeps assms(1)] assms(2) by (auto simp: still_def)
next
  case None
  then show ?thesis
  proof (cases rule: fo_approve_cases [where now = now])
    case (1 q)
    define g where "g = (snd (form_batches now b f))\<lparr>fo_paused := None\<rparr>"
    have "fo_ok (snd (form_batches now b f))" using form_batches_ok [OF assms(1)] .
    then have "ix_ok (fo_index g)" by (simp add: g_def fo_ok_def)
    then have "calm_step\<^sup>*\<^sup>* (fo_wants g) (fo_wants (unfreeze now g))"
      using unfreeze_inbound(1) by (simp add: inbound_def)
    moreover have "fo_wants g = fo_wants f" by (simp add: g_def form_batches_def)
    moreover have "wl_ok (fo_wants f)" using assms(1) by (simp add: fo_ok_def)
    ultimately have "commit_at (fo_wants (unfreeze now g)) p = Some v"
      using calm_steps_hold assms(2) by metis
    moreover have "snd (fo_approve now b f) = unfreeze now g" unfolding g_def 1(3) by simp
    ultimately show ?thesis by simp
  qed (use assms in simp)
qed

interpretation commit_law: folder_invariant "commit_waits fid0 p v" "\<lambda>fid. fid \<noteq> fid0" "unreported fid0 p"
  for fid0 p v
proof unfold_locales
  show "commit_waits fid0 p v fid (folder_new fid rs ms own host)" if "fid \<noteq> fid0" for fid rs ms own host
    using that by (simp add: commit_waits_def folder_new_ok)
  show "commit_waits fid0 p v fid g" if "commit_waits fid0 p v fid f" "keeps {} f g" for fid f g
    using that by (rule commit_waits_kept) simp
  show "commit_waits fid0 p v fid (snd (fo_tick now b f))" if "commit_waits fid0 p v fid f" for fid f now b
    using that by (simp add: commit_waits_def fo_tick_ok fo_tick_wants)
  show "commit_waits fid0 p v fid (snd (applied_at now p' v' at out f))"
    if "commit_waits fid0 p v fid f" "unreported fid0 p (EvApplied fid p' v' at out)" for fid f now p' v' at out
    using that by (intro commit_waits_kept [OF _ applied_at_keeps]) auto
  show "commit_waits fid0 p v fid (snd (fo_trashed now p' v' at out f))"
    if "commit_waits fid0 p v fid f" "unreported fid0 p (EvTrashed fid p' v' at out)" for fid f now p' v' at out
    using that by (intro commit_waits_kept [OF _ fo_trashed_keeps]) auto
  show "commit_waits fid0 p v fid (snd (fo_approve now b f))" if "commit_waits fid0 p v fid f" for fid f now b
    using that by (simp add: commit_waits_def fo_approve_ok approve_commits)
  show "commit_waits fid0 p v fid (snd (run_next fid now step g))"
    if H: "commit_waits fid0 p v fid f" and nx: "next_queued f = (Some step, g)" for fid f step g now
  proof -
    have "keeps {} f g" using next_queued_keeps [of f] nx by simp
    then have G: "commit_waits fid0 p v fid g" by (rule commit_waits_kept [OF H]) simp
    obtain qs where "g = f\<lparr>fo_queued := qs\<rparr>" "\<And>d. step = NxRun d \<Longrightarrow> unsettled f d = None"
      by (rule next_queued_shape [OF nx]) blast
    then have "step = NxRun d \<Longrightarrow> unsettled g d = None" for d by simp
    with commit_waits_decide [OF G] G show ?thesis by (cases step) (simp_all add: run_next_def)
  qed
qed (rule commit_waits_request; assumption)+

section \<open>Over every run\<close>

text \<open>An engine of one folder, to show the hypotheses below can hold.\<close>

definition folder_a :: folder_id where "folder_a = FolderId [9]"

definition calm_folder :: folder where "calm_folder = folder_new folder_a rules_default [here, there] here host0"

definition engine_of :: "folder \<Rightarrow> engine" where
  "engine_of f = (engine_new \<lparr>nc_node_id = here, nc_author_host = host0\<rparr>)
     \<lparr>en_folders := bm_insert folder_a f bm_empty\<rparr>"

lemma engine_of_folder [simp]: "bm_get (en_folders (engine_of f)) folder_a = Some f"
  by (simp add: engine_of_def)

lemma engine_of_ok: "fo_ok f \<Longrightarrow> en_ok (engine_of f)"
  by (auto simp: en_ok_def engine_of_def split: if_splits)

definition events_a :: "(timestamp \<times> event) list" where
  "events_a = [(1, EvScanned folder_a path_a (Observed (seen 7)) 1), (2, EvTick (BatchId [3])),
     (3, EvDeny folder_a (BatchId [4])), (4, EvSpaceRecovered folder_a), (5, EvPeerConnected there TLan)]"

text \<open>C14: Whatever events arrive, in whatever order and at whatever times, every folder of the engine keeps
  its invariant: the index's, the quarantine's and the want-list's, every deferred entry waits at its own
  path, nothing is frozen in a folder that is not paused, and no decision is queued twice.\<close>

theorem engine_invariant:
  "bm_get (en_folders (snd (run_events evs (engine_new config)))) fid = Some f \<longrightarrow> fo_ok f"
  using engine_run_ok [OF engine_new_ok] by (auto simp: en_ok_def)

lemma engine_invariant_witness:
  "\<exists>f. bm_get (en_folders (snd (run_events [(1, EvFolderJoined folder_a rules_default [here])]
      (engine_new \<lparr>nc_node_id = here, nc_author_host = host0\<rparr>)))) folder_a = Some f \<and> fo_ok f"
proof -
  have "\<not> Option.is_none (bm_get (en_folders (snd (run_events [(1, EvFolderJoined folder_a rules_default [here])]
      (engine_new \<lparr>nc_node_id = here, nc_author_host = host0\<rparr>)))) folder_a)" by code_simp
  then obtain f where "bm_get (en_folders (snd (run_events [(1, EvFolderJoined folder_a rules_default [here])]
      (engine_new \<lparr>nc_node_id = here, nc_author_host = host0\<rparr>)))) folder_a = Some f"
    by (auto simp: Option.is_none_def)
  with engine_invariant show ?thesis by blast
qed

text \<open>C12: A paused folder stays paused, under the same batch, and announces nothing, through every sequence of
  events in which the user neither approves that batch nor asks for a revert, if none is queued: not
  through scans, ticks, batches of peers, new rules, reports or denials.\<close>

theorem pause_holds:
  assumes "en_ok e" and "bm_get (en_folders e) fid = Some f" and "fo_paused f = Some p"
    and "\<forall>q \<in> set (fo_queued f). \<not> is_revert (qu_decision q)"
    and "\<forall>(t, ev) \<in> set evs. ev \<noteq> EvApprove fid (pz_batch p) \<and> ev \<noteq> EvRevert fid"
  shows "\<exists>f' p'. bm_get (en_folders (snd (run_events evs e))) fid = Some f' \<and> fo_paused f' = Some p' \<and>
    pz_batch p' = pz_batch p \<and> ix_announced_seq (fo_index f') = ix_announced_seq (fo_index f)"
proof -
  define n where "n = ix_announced_seq (fo_index f)"
  have "stays_paused fid (pz_batch p) n fid' g" if "bm_get (en_folders e) fid' = Some g" for fid' g
    using that assms(1-4) by (auto simp: stays_paused_def en_ok_def paused_at_def n_def list_all_iff)
  then have "holds (stays_paused fid (pz_batch p) n) (\<lambda>x. x \<noteq> fid) e"
    using assms(2) by (auto simp: holds_def split: option.split)
  then have after: "holds (stays_paused fid (pz_batch p) n) (\<lambda>x. x \<noteq> fid) (snd (run_events evs e))"
    by (rule paused_law.run_held) (use assms(5) in \<open>auto simp: undecided_def\<close>)
  then obtain f' where f': "bm_get (en_folders (snd (run_events evs e))) fid = Some f'"
    unfolding holds_def by (metis (mono_tags, lifting) option.case_eq_if option.collapse)
  with holdsD [OF after f'] show ?thesis by (auto simp: stays_paused_def paused_at_def n_def)
qed

definition pause_a :: paused where
  "pause_a = \<lparr>pz_batch = BatchId [4], pz_since = 0, pz_reason = Size 3, pz_summary = summary_default,
     pz_would_pass = False\<rparr>"

lemma pause_holds_witness:
  "\<exists>f' p'. bm_get (en_folders (snd (run_events events_a (engine_of (calm_folder\<lparr>fo_paused := Some pause_a\<rparr>)))))
      folder_a = Some f' \<and> fo_paused f' = Some p' \<and> pz_batch p' = BatchId [4] \<and>
      ix_announced_seq (fo_index f') = 0"
proof -
  let ?f = "calm_folder\<lparr>fo_paused := Some pause_a\<rparr>"
  have "fo_ok ?f" using folder_new_ok by (simp add: calm_folder_def fo_ok_def)
  then have ok: "en_ok (engine_of ?f)" by (rule engine_of_ok)
  show ?thesis
    using pause_holds [OF ok engine_of_folder, of pause_a events_a]
    by (simp add: calm_folder_def folder_new_def index_new_def events_a_def pause_a_def)
qed





definition queued_a :: folder where
  "queued_a = calm_folder\<lparr>fo_paused := Some pause_a,
     fo_queued := [\<lparr>qu_decision = URevert (BatchId [4]), qu_reason = WrStartupScan\<rparr>]\<rparr>"


end
