(* ===== verification/ChangeLogs.thy ===== *)
theory ChangeLogs
  imports FolderLaws
begin

text \<open>
  The change logs of \<open>crates/engine/src/parts.rs\<close>, as the index, the want-list and the deferred set keep
  them: every operation notes each row it changes, so that the rows an event reports (\<open>pending_changes\<close>,
  \<open>want_changes\<close>, \<open>deferred_changes\<close>) are all a host needs to keep its copy. \<open>logged\<close> is what an operation
  owes its log; the locale \<open>change_hook\<close> is what a drain owes the host.
\<close>

section \<open>What a log promises\<close>

definition logged :: "('s \<Rightarrow> 'k \<Rightarrow> 'v) \<Rightarrow> ('s \<Rightarrow> 'k \<Rightarrow> bool) \<Rightarrow> 's \<Rightarrow> 's \<Rightarrow> bool" where
  "logged rows noted s s' \<longleftrightarrow>
     (\<forall>k. noted s k \<longrightarrow> noted s' k) \<and> (\<forall>k. \<not> noted s' k \<longrightarrow> rows s' k = rows s k)"

lemma logged_refl [simp]: "logged rows noted s s"
  by (simp add: logged_def)

lemma logged_trans: "logged rows noted a b \<Longrightarrow> logged rows noted b c \<Longrightarrow> logged rows noted a c"
  by (auto simp: logged_def)

lemma logged_fold:
  "(\<And>s x. x \<in> set xs \<Longrightarrow> logged rows noted s (g s x)) \<Longrightarrow> logged rows noted s (foldl g s xs)"
  by (induction xs arbitrary: s) (auto intro: logged_trans)

text \<open>What a drained log reports, applied to the rows the host has.\<close>

definition replay :: "('k \<times> 'v) list \<Rightarrow> ('k \<Rightarrow> 'v) \<Rightarrow> 'k \<Rightarrow> 'v" where
  "replay out m = foldl (\<lambda>m (k, v). m(k := v)) m out"

lemma replay_simps [simp]: "replay [] m = m" "replay ((k, v) # out) m = replay out (m(k := v))"
  by (simp_all add: replay_def)

lemma replay_apply:
  assumes "\<And>k' v. (k', v) \<in> set out \<Longrightarrow> v = rows k'"
  shows "replay out m k = (if k \<in> fst ` set out then rows k else m k)"
  using assms
proof (induction out arbitrary: m)
  case (Cons x out)
  obtain k' v where x: "x = (k', v)" by fastforce
  have "replay out m' k = (if k \<in> fst ` set out then rows k else m' k)" for m'
    using Cons by simp
  with Cons.prems show ?case by (auto simp: x)
qed simp

locale change_hook =
  fixes rows :: "'s \<Rightarrow> 'k \<Rightarrow> 'v" and noted :: "'s \<Rightarrow> 'k \<Rightarrow> bool" and drain :: "'s \<Rightarrow> ('k \<times> 'v) list \<times> 's"
  assumes drain_keeps_rows: "drain s = (out, s') \<Longrightarrow> rows s' = rows s"
    and drain_empties: "drain s = (out, s') \<Longrightarrow> \<not> noted s' k"
    and drain_reports: "drain s = (out, s') \<Longrightarrow> (k, v) \<in> set out \<longleftrightarrow> noted s k \<and> v = rows s k"
begin

text \<open>A host that has the rows that are not noted, and applies what the drain reports, has them all.\<close>

lemma caught_up:
  assumes "\<And>k. \<not> noted s k \<Longrightarrow> m k = rows s k" and "drain s = (out, s')"
  shows "replay out m = rows s'"
proof
  fix k
  have rep: "(k', v) \<in> set out \<longleftrightarrow> noted s k' \<and> v = rows s k'" for k' v
    by (rule drain_reports [OF assms(2)])
  then have "k \<in> fst ` set out \<longleftrightarrow> noted s k" by force
  moreover have "replay out m k = (if k \<in> fst ` set out then rows s k else m k)"
    by (rule replay_apply) (simp add: rep)
  ultimately show "replay out m k = rows s' k"
    using assms(1) by (simp add: drain_keeps_rows [OF assms(2)])
qed

text \<open>So does one that has the rows as they stood when the log was empty.\<close>

lemma replayed: "logged rows noted s0 s \<Longrightarrow> drain s = (out, s') \<Longrightarrow> replay out (rows s0) = rows s'"
  by (rule caught_up) (auto simp: logged_def)

end

section \<open>The want-list\<close>

definition wl_noted :: "want_list \<Rightarrow> rel_path \<Rightarrow> bool" where
  "wl_noted wl p \<longleftrightarrow> p \<in> set (wl_changed wl)"

definition wl_logs :: "want_list \<Rightarrow> want_list \<Rightarrow> bool" where
  "wl_logs = logged wl_get wl_noted"

lemma wl_logs_refl [simp]: "wl_logs wl wl"
  by (simp add: wl_logs_def)

lemma wl_logs_trans: "wl_logs a b \<Longrightarrow> wl_logs b c \<Longrightarrow> wl_logs a c"
  unfolding wl_logs_def by (rule logged_trans)

lemma wl_logs_fold: "(\<And>wl x. x \<in> set xs \<Longrightarrow> wl_logs wl (g wl x)) \<Longrightarrow> wl_logs wl (foldl g wl xs)"
  unfolding wl_logs_def by (rule logged_fold)

lemma first_seen_set: "set (first_seen s ps) = {p \<in> set ps. \<not> bm_has s p}"
  by (induction ps arbitrary: s) (auto simp: bm_has_iff)

interpretation want_hook: change_hook wl_get wl_noted wl_drain_changes
  by unfold_locales
    (auto simp: wl_drain_changes_def wl_noted_def wl_get_def fun_eq_iff image_iff first_seen_set bm_has_iff)

lemma wl_note_changed [simp]: "set (wl_changed (wl_note p wl)) = insert p (set (wl_changed wl))"
  by (auto simp: wl_note_def)

lemma wl_put_changed [simp]: "wl_changed (wl_put p w wl) = wl_changed wl"
  by (simp add: wl_put_def)

lemma wl_logs_iff:
  "wl_logs wl wl' \<longleftrightarrow> set (wl_changed wl) \<subseteq> set (wl_changed wl') \<and>
     (\<forall>p. p \<notin> set (wl_changed wl') \<longrightarrow> wl_get wl' p = wl_get wl p)"
  by (auto simp: wl_logs_def logged_def wl_noted_def)

lemma wl_logs_note [simp]: "wl_logs wl (wl_note p wl)"
  by (auto simp: wl_logs_iff)

lemma wl_logs_put [simp]: "wl_logs wl (wl_note p (wl_put p w wl))"
  by (auto simp: wl_logs_iff)

lemma wl_logs_same: "wl_get wl p = Some w \<Longrightarrow> wl_logs wl (wl_put p w wl)"
  by (auto simp: wl_logs_iff)

lemma wl_logs_released [simp]: "wl_logs wl (wl'\<lparr>wl_released := r\<rparr>) = wl_logs wl wl'"
  by (simp add: wl_logs_iff wl_get_def)

lemma set_state_logs [simp]: "wl_logs wl (set_state p s wl)"
  by (simp add: set_state_def split: option.split)

lemma set_states_logs [simp]: "wl_logs wl (set_states s ps wl)"
  unfolding set_states_def by (rule wl_logs_fold) simp

lemma wl_remove_logs [simp]: "wl_logs wl (snd (wl_remove p wl))"
  by (auto simp: wl_remove_def Let_def wl_logs_iff wl_get_def)

lemma wl_take_logs [simp]: "wl_logs wl (snd (wl_take p wl))"
  using wl_remove_logs [of wl p] by (cases "wl_remove p wl") (auto simp: wl_take_def split: option.split)

lemma bm_remove_absent: "\<not> bm_has m k \<Longrightarrow> bm_remove k m = m"
  by (rule bm_eqI) (auto simp: bm_has_iff)

lemma bs_insert_present: "bm_has m k \<Longrightarrow> bs_insert k m = m"
  using changed_note_eq [of k m] by (simp add: changed_note_def)

lemma wl_release_logs [simp]: "wl_logs wl (wl_release p n wl)"
proof (cases "wl_get wl p")
  case (Some w)
  have "wl_logs wl (wl_put p (w\<lparr>w_excluded := ex\<rparr>) wl)" if "w_excluded w = ex" for ex
  proof -
    have "w\<lparr>w_excluded := ex\<rparr> = w" using that by (cases w) simp
    then show ?thesis using wl_logs_same [OF Some] by simp
  qed
  moreover from this have "wl_logs wl (wl_put p (w\<lparr>w_excluded := bm_empty\<rparr>) wl)" if "bm_is_empty (w_excluded w)"
    using bm_is_empty_eq [OF that] by blast
  ultimately show ?thesis
    by (auto simp: wl_release_def Some Let_def bm_remove_absent split: option.split)
qed (simp add: wl_release_def)

lemma note_announced_logs [simp]: "wl_logs wl (note_announced p h n wl)"
proof (cases "wl_get wl p")
  case (Some w)
  define w' where "w' = w\<lparr>w_sources := bs_insert n (w_sources w), w_refused := bm_remove n (w_refused w)\<rparr>"
  define moved where "moved \<longleftrightarrow> \<not> bm_has (w_sources w) n \<or> bm_has (w_refused w) n"
  have "wl_logs wl (if moved then wl_note p (wl_put p w' wl) else wl_put p w' wl)"
    using wl_logs_same [OF Some] by (auto simp: moved_def w'_def bs_insert_present bm_remove_absent)
  then have "wl_logs wl (wl_release p None (if moved then wl_note p (wl_put p w' wl) else wl_put p w' wl))"
    by (rule wl_logs_trans) simp
  then show ?thesis
    by (cases moved) (auto simp: note_announced_def Some Let_def w'_def moved_def)
qed (simp add: note_announced_def)

lemma want_edits_log [simp]:
  "wl_logs wl (snd (wl_insert item received b src sh marked wl))"
  "wl_logs wl (keep_refusals p h r wl)" "wl_logs wl (remember_trashed p t wl)"
  "wl_logs wl (clear_restoring p wl)" "wl_logs wl (insert_reverted w wl)"
  "wl_logs wl (snd (wl_failed now p v err seq wl))" "wl_logs wl (wl_observed p wl)"
  "wl_logs wl (progress now p v wl)" "wl_logs wl (snd (released_reported p v wl))"
  by (auto simp: wl_insert_def keep_refusals_def remember_trashed_def clear_restoring_def insert_reverted_def
      wl_failed_def wl_observed_def progress_def released_reported_def Let_def
      split: option.split want_state.split)

lemma fetch_logs [simp]: "wl_logs wl (snd (fetch_failed now p v err seq wl))"
  "wl_logs wl (snd (fetched now p v report wl))"
  by (auto simp: fetch_failed_def fetched_def Let_def split: option.split want_state.split fetch_report.split)

lemma want_timers_log [simp]: "wl_logs wl (reconnected n wl)" "wl_logs wl (pause_inbound wl)"
  "wl_logs wl (resume_inbound wl)" "wl_logs wl (release_collisions f wl)" "wl_logs wl (peer_gone n wl)"
  "wl_logs wl (release_waiting wl)" "wl_logs wl (expire_exclusions now wl)"
  by (auto simp: reconnected_def pause_inbound_def resume_inbound_def release_collisions_def peer_gone_def
      release_waiting_def expire_exclusions_def intro!: wl_logs_fold split: prod.split)

text \<open>A filter that drops nothing leaves the map as it is.\<close>

lemma bm_filter_len: "bm_len (bm_filter P m) = bm_len m \<Longrightarrow> bm_filter P m = m"
proof (rule bm_eqI)
  fix k
  assume len: "bm_len (bm_filter P m) = bm_len m"
  have all: "\<forall>kv \<in> set (bm_entries m). P (fst kv) (snd kv)"
  proof (rule ccontr)
    assume "\<not> ?thesis"
    then have "length (filter (\<lambda>kv. P (fst kv) (snd kv)) (bm_entries m)) < length (bm_entries m)"
      by (auto intro: length_filter_less)
    with len show False by (simp add: bm_len_def bm_entries_filter case_prod_unfold)
  qed
  show "bm_get (bm_filter P m) k = bm_get m k"
  proof (cases "bm_get m k")
    case (Some v)
    then have "(k, v) \<in> set (bm_entries m)" by (simp add: in_bm_entries)
    with all Some show ?thesis by auto
  qed simp
qed

lemma expire_refusals_logs [simp]: "wl_logs wl (expire_refusals now wl)"
proof -
  let ?keep = "bm_filter (\<lambda>_ until. now < until)"
  define ps where "ps = paths_where (\<lambda>w. bm_len (?keep (w_refused w)) \<noteq> bm_len (w_refused w)) wl"
  define wl1 where "wl1 = wl\<lparr>wl_wants := bm_map (\<lambda>_ w. w\<lparr>w_refused := ?keep (w_refused w)\<rparr>) (wl_wants wl)\<rparr>"
  have changed: "set (wl_changed (foldl (\<lambda>wl p. wl_note p wl) wl0 qs)) = set (wl_changed wl0) \<union> set qs" for wl0 qs
    by (induction qs arbitrary: wl0) auto
  have "wl_get wl1 p = wl_get wl p" if "p \<notin> set ps" for p
    using that by (cases "wl_get wl p") (auto simp: wl1_def ps_def wl_get_def dest: bm_filter_len)
  then show ?thesis
    unfolding expire_refusals_def Let_def ps_def [symmetric] wl1_def [symmetric]
    by (auto simp: wl_logs_iff changed) (simp add: wl1_def)
qed

lemma expire_logs [simp]: "wl_logs wl (snd (expire now wl))"
proof -
  define wl1 where "wl1 = expire_refusals now (expire_exclusions now wl)"
  have "wl_logs wl wl1" unfolding wl1_def by (rule wl_logs_trans [of _ "expire_exclusions now wl"]) simp_all
  moreover have "wl_logs w (foldl (\<lambda>wl p. case wl_get wl p of
       Some want \<Rightarrow> (case w_state want of Committing d _ \<Rightarrow> set_state p (Committing d True) wl | _ \<Rightarrow> wl)
     | None \<Rightarrow> wl) w ps)" for w ps
    by (rule wl_logs_fold) (simp split: option.split want_state.split)
  ultimately show ?thesis
    unfolding expire_def Let_def snd_conv wl1_def [symmetric]
    by (meson set_states_logs wl_logs_trans)
qed

lemma assign_fetch_logs: "wl_logs (snd (snd st)) (snd (snd (assign_fetch now rs st x)))"
  by (cases st rule: prod_cases3) (auto simp: assign_fetch_def Let_def split: prod.split option.split)

lemma commit_step_logs: "wl_logs (snd st) (snd (commit_step now st p))"
  by (auto simp: commit_step_def split: prod.split option.split)

lemma dispatch_logs [simp]: "wl_logs wl (snd (dispatch now rs peers wl))"
proof -
  have fetch: "wl_logs (snd (snd st)) (snd (snd (foldl (assign_fetch now rs) st xs)))" for st xs
    by (induction xs arbitrary: st) (simp, simp, meson assign_fetch_logs wl_logs_trans)
  have commit: "wl_logs (snd st) (snd (foldl (commit_step now) st ps))" for st ps
    by (induction ps arbitrary: st) (simp, simp, meson commit_step_logs wl_logs_trans)
  obtain xs rows where sel: "select_fetches rs peers (release_waiting wl) = (xs, rows)" by fastforce
  define w1 where "w1 = foldl (\<lambda>wl (p, s). set_state p s wl) (release_waiting wl) rows"
  have "wl_logs (release_waiting wl) w1"
    unfolding w1_def by (rule wl_logs_fold) (simp split: prod.split)
  then have k1: "wl_logs wl w1" by (rule wl_logs_trans [rotated]) simp
  obtain st sl w2 where d: "dispatch_fetches now rs peers (release_waiting wl) = (st, sl, w2)"
    by (rule prod_cases3)
  then have "wl_logs w1 w2"
    using fetch [of "([], count_slots (release_waiting wl), w1)"]
    by (auto simp: dispatch_fetches_def sel Let_def w1_def) (metis snd_conv)
  with k1 have "wl_logs wl w2" by (rule wl_logs_trans)
  moreover have "wl_logs w2 (snd (dispatch_commits now (st, w2)))"
    unfolding dispatch_commits_def Let_def snd_conv foldl_append
    by (rule wl_logs_trans) (rule commit [of "(st, w2)", unfolded snd_conv], rule commit)
  ultimately show ?thesis by (auto simp: dispatch_def d intro: wl_logs_trans)
qed

section \<open>The deferred entries\<close>

definition ds_noted :: "deferred_set \<Rightarrow> rel_path \<Rightarrow> bool" where
  "ds_noted ds p \<longleftrightarrow> bm_has (ds_changed ds) p"

text \<open>No row is empty: the last entry taken takes its row out.\<close>

definition ds_full :: "deferred_set \<Rightarrow> bool" where
  "ds_full ds \<longleftrightarrow> (\<forall>p. bm_get (ds_rows ds) p \<noteq> Some [])"

definition ds_logs :: "deferred_set \<Rightarrow> deferred_set \<Rightarrow> bool" where
  "ds_logs ds ds' \<longleftrightarrow> (ds_full ds \<longrightarrow> ds_full ds' \<and> logged ds_get ds_noted ds ds')"

interpretation deferred_hook: change_hook ds_get ds_noted ds_drain_changes
  by unfold_locales
    (auto simp: ds_drain_changes_def changed_take_def ds_noted_def ds_get_def fun_eq_iff image_iff in_bm_keys)

lemma ds_logs_refl [simp]: "ds_logs ds ds"
  by (simp add: ds_logs_def)

lemma ds_logs_trans: "ds_logs a b \<Longrightarrow> ds_logs b c \<Longrightarrow> ds_logs a c"
  by (auto simp: ds_logs_def intro: logged_trans)

lemma deferred_log [simp]: "ds_logs ds (ds_push p d ds)" "ds_logs ds (ds_clear_restoring p ds)"
  "ds_logs ds (snd (ds_take_where p P ds))"
  by (auto simp: ds_logs_def ds_full_def logged_def ds_noted_def ds_get_def ds_push_def ds_clear_restoring_def
      ds_take_where_def Let_def changed_note_eq bm_has_iff comp_def filter_id_conv filter_empty_conv
      split: option.splits)

section \<open>What the index has pending\<close>

definition ix_row :: "index \<Rightarrow> rel_path \<Rightarrow> pending option" where
  "ix_row ix p = bm_get (ix_pending ix) p"

definition ix_noted :: "index \<Rightarrow> rel_path \<Rightarrow> bool" where
  "ix_noted ix p \<longleftrightarrow> bm_has (ix_pending_changed ix) p"

definition ix_logs :: "index \<Rightarrow> index \<Rightarrow> bool" where
  "ix_logs = logged ix_row ix_noted"

interpretation pending_hook: change_hook ix_row ix_noted pending_changes
  by unfold_locales
    (auto simp: pending_changes_def changed_take_def ix_noted_def ix_row_def fun_eq_iff image_iff in_bm_keys)

lemma ix_logs_refl [simp]: "ix_logs ix ix"
  by (simp add: ix_logs_def)

lemma ix_logs_trans: "ix_logs a b \<Longrightarrow> ix_logs b c \<Longrightarrow> ix_logs a c"
  unfolding ix_logs_def by (rule logged_trans)

lemma ix_logs_iff:
  "ix_logs ix ix' \<longleftrightarrow> (\<forall>p. bm_has (ix_pending_changed ix) p \<longrightarrow> bm_has (ix_pending_changed ix') p) \<and>
     (\<forall>p. \<not> bm_has (ix_pending_changed ix') p \<longrightarrow> bm_get (ix_pending ix') p = bm_get (ix_pending ix) p)"
  by (simp add: ix_logs_def logged_def ix_noted_def ix_row_def)

lemma changed_notes:
  "bm_get (foldl (\<lambda>c p. changed_note p c) c ps) q = Some () \<longleftrightarrow> bm_get c q = Some () \<or> q \<in> set ps"
  by (induction ps arbitrary: c) (auto simp: changed_note_eq bm_has_iff)

lemma ix_write_logs [simp]: "ix_logs ix (snd (ix_write e ix))"
  by (auto simp: ix_write_def Let_def ix_logs_iff changed_note_eq bm_has_iff)

lemma adopt_logs [simp]: "ix_logs ix (snd (adopt e ix))"
  by (auto simp: adopt_def Let_def ix_logs_iff changed_note_eq)

lemma index_writes_log [simp]: "ix_logs ix (snd (observe p ob ix))" "ix_logs ix (snd (observe_absent p at ix))"
  "ix_logs ix (snd (record_conflict_copy p e ix))"
  "ix_logs ix (snd (bump_over p over s at ix))"
  by (auto simp: observe_def observe_absent_def record_conflict_copy_def bump_over_def Let_def
      case_prod_unfold split: option.split)

lemma observe_absent_unrecoverable_logs [simp]: "ix_logs ix (snd (observe_absent_unrecoverable p at ix))"
proof -
  obtain c ix1 where o: "observe_absent p at ix = (c, ix1)" by fastforce
  have "ix_logs ix ix1" using index_writes_log(2) [of ix p at] by (simp add: o)
  moreover have "ix_logs ix1 (snd (observe_absent_unrecoverable p at ix))"
    by (auto simp: observe_absent_unrecoverable_def o ix_logs_iff changed_note_eq bm_has_iff split: option.split)
  ultimately show ?thesis by (rule ix_logs_trans)
qed

lemma received_range_logs [simp]: "ix_logs ix (received_range n low high ix)"
  by (simp add: received_range_def ix_logs_iff)

lemma mark_announced_logs [simp]: "ix_logs ix (mark_announced ix)"
  by (auto simp: mark_announced_def ix_logs_iff changed_notes in_bm_keys bm_has_iff)

lemma revert_pending_logs [simp]: "ix_logs ix (snd (revert_pending ix))"
proof -
  have rows: "ix_pending (snd (foldl (\<lambda>st pr. revert_row pr st) st prs)) = ix_pending (snd st) \<and>
      (\<forall>p. bm_get (ix_pending_changed (snd (foldl (\<lambda>st pr. revert_row pr st) st prs))) p = Some () \<longleftrightarrow>
         bm_get (ix_pending_changed (snd st)) p = Some () \<or> p \<in> fst ` set prs)" for st prs
    by (induction prs arbitrary: st)
      (auto simp: revert_row_def Let_def changed_note_eq bm_has_iff split: prod.split)
  have "bm_get (ix_pending ix) p = None" if "p \<notin> fst ` set (bm_entries (ix_pending ix))" for p
    using that by (cases "bm_get (ix_pending ix) p") (auto simp: in_bm_entries [symmetric] image_iff)
  then show ?thesis by (simp add: revert_pending_def ix_logs_iff rows)
qed

end
