(* ===== verification/QuarantineLogs.thy ===== *)
theory QuarantineLogs
  imports ChangeLogs QuarantineLaws
begin

text \<open>
  The change log of \<open>crates/engine/src/quarantine.rs\<close>: the rows of held and denied batches that
  \<open>held_changes\<close> reports are all a host needs to keep its copy, as the rows of the other parts are.
\<close>

section \<open>The rows\<close>

definition q_at :: "quarantine \<Rightarrow> batch_id \<times> held_state \<Rightarrow> held_row option" where
  "q_at q k = (case k of
     (b, HsHeld) \<Rightarrow> q_row q b
   | (b, HsDenied at) \<Rightarrow> opt_filter (\<lambda>row. hi_batch (hr_item row) = b) (bm_get (q_denied q) at))"

definition q_noted :: "quarantine \<Rightarrow> batch_id \<times> held_state \<Rightarrow> bool" where
  "q_noted q k \<longleftrightarrow> bm_has (q_changed q) k"

text \<open>Every row is under the id of its batch, and a number that was ever given to a denied row is not
  given to another. A row keeps versions only of what its batch holds.\<close>

definition row_covers :: "held_row \<Rightarrow> bool" where
  "row_covers row \<longleftrightarrow> (\<forall>p. bm_has (hr_versions row) p \<longrightarrow> bm_has (hi_entries (hr_item row)) p)"

definition items_keyed :: "quarantine \<Rightarrow> bool" where
  "items_keyed q \<longleftrightarrow> (\<forall>b item. bm_get (q_items q) b = Some item \<longrightarrow> hi_batch item = b)"

definition denied_keyed :: "quarantine \<Rightarrow> bool" where
  "denied_keyed q \<longleftrightarrow> (\<forall>at row. bm_get (q_denied q) at = Some row \<longrightarrow> at \<le> q_arrivals q \<and> row_covers row) \<and>
     (\<forall>b at. bm_get (q_changed q) (b, HsDenied at) = Some () \<longrightarrow> at \<le> q_arrivals q \<and>
        (\<forall>row. bm_get (q_denied q) at = Some row \<longrightarrow> hi_batch (hr_item row) = b))"

definition q_keyed :: "quarantine \<Rightarrow> bool" where
  "q_keyed q \<longleftrightarrow> items_keyed q \<and> denied_keyed q"

definition q_logs :: "quarantine \<Rightarrow> quarantine \<Rightarrow> bool" where
  "q_logs q q' \<longleftrightarrow> (q_keyed q \<longrightarrow> q_keyed q' \<and> logged q_at q_noted q q')"

lemma q_logs_refl [simp]: "q_logs q q"
  by (simp add: q_logs_def)

lemma q_logs_trans: "q_logs a b \<Longrightarrow> q_logs b c \<Longrightarrow> q_logs a c"
  by (auto simp: q_logs_def intro: logged_trans)

lemma q_logs_fold: "(\<And>q x. x \<in> set xs \<Longrightarrow> q_logs q (g q x)) \<Longrightarrow> q_logs q (foldl g q xs)"
  by (induction xs arbitrary: q) (auto intro: q_logs_trans)

text \<open>The operations on one batch.\<close>

definition of_batch :: "batch_id \<Rightarrow> (batch_id \<times> quarantined) list \<Rightarrow> (batch_id \<times> quarantined) list" where
  "of_batch b l = filter (\<lambda>(i, _). i = b) l"

definition touches :: "batch_id \<Rightarrow> quarantine \<Rightarrow> quarantine \<Rightarrow> bool" where
  "touches b q q' \<longleftrightarrow>
     (\<forall>i. i \<noteq> b \<longrightarrow> bm_get (q_items q') i = bm_get (q_items q) i \<and>
        (\<forall>p. of_batch i (q_list q' p) = of_batch i (q_list q p))) \<and>
     q_denied q' = q_denied q \<and> q_arrivals q \<le> q_arrivals q' \<and> (items_keyed q \<longrightarrow> items_keyed q') \<and>
     (q_changed q' = q_changed q \<or> q_changed q' = bs_insert (b, HsHeld) (q_changed q))"

lemma touches_refl [simp]: "touches b q q"
  by (simp add: touches_def)

lemma touches_trans: "touches b qa qb \<Longrightarrow> touches b qb qc \<Longrightarrow> touches b qa qc"
  by (auto simp: touches_def bm.insert_insert)

lemma touches_fold: "(\<And>q x. x \<in> set xs \<Longrightarrow> touches b q (g q x)) \<Longrightarrow> touches b q (foldl g q xs)"
  by (induction xs arbitrary: q) (auto intro: touches_trans)

lemma q_row_cong:
  assumes "bm_get (q_items q') b = bm_get (q_items q) b" and "\<And>p. of_batch b (q_list q' p) = of_batch b (q_list q p)"
  shows "q_row q' b = q_row q b"
  using assms by (simp add: q_row_def of_batch_def cong: option.map_cong)

lemma touches_logs:
  assumes "touches b q q'" and "bm_get (q_changed q') (b, HsHeld) = Some ()"
  shows "q_logs q q'"
proof -
  have "q_row q' i = q_row q i" if "bm_get (q_changed q') (i, HsHeld) \<noteq> Some ()" for i
    using assms that by (intro q_row_cong) (auto simp: touches_def)
  then have "logged q_at q_noted q q'"
    using assms(1) by (auto simp: logged_def q_noted_def q_at_def touches_def split: held_state.split)
  moreover have "denied_keyed q \<longrightarrow> denied_keyed q'"
  proof -
    have "bm_get (q_changed q') (i, HsDenied at) = bm_get (q_changed q) (i, HsDenied at)" for i at
      using assms(1) by (auto simp: touches_def)
    moreover have "q_denied q' = q_denied q" and le: "q_arrivals q \<le> q_arrivals q'"
      using assms(1) by (simp_all add: touches_def)
    ultimately show ?thesis by (auto simp: denied_keyed_def intro: order_trans [OF _ le])
  qed
  ultimately show ?thesis using assms(1) by (simp add: q_logs_def q_keyed_def touches_def)
qed

lemma of_batch_simps [simp]: "of_batch b (l @ l') = of_batch b l @ of_batch b l'" "of_batch b [] = []"
  "of_batch i (filter (\<lambda>(i, _). i \<noteq> b) l) = (if i = b then [] else of_batch i l)"
  by (auto simp: of_batch_def filter_empty_conv intro!: filter_cong)

lemma q_record_step [simp]: "touches b q (q_record p v s b q)"
  by (auto simp: touches_def q_record_def Let_def q_list_def items_keyed_def of_batch_def)

lemma q_note_step [simp]: "touches b q (q_note (b, HsHeld) q)"
  by (simp add: touches_def q_note_def q_list_def changed_note_eq items_keyed_def)

lemma q_insert_step: "hi_batch item = b \<Longrightarrow> touches b q (q\<lparr>q_items := bm_insert b item (q_items q)\<rparr>)"
  by (auto simp: touches_def q_list_def items_keyed_def)

lemma q_join_step: "touches b q (snd (q_join b e q))"
proof (cases "bm_get (q_items q) b")
  case (Some item)
  define qa where "qa = q_note (b, HsHeld) (q_record (e_path e) (e_version e) (e_stamp e) b q)"
  have 1: "touches b q qa" unfolding qa_def by (rule touches_trans [OF q_record_step q_note_step])
  have item: "bm_get (q_items qa) b = Some item" using Some by (simp add: qa_def q_fields)
  then have "touches b qa (qa\<lparr>q_items := bm_insert b (item\<lparr>hi_entries := m\<rparr>) (q_items qa)\<rparr>)" for m
    by (auto simp: touches_def q_list_def items_keyed_def)
  with 1 item show ?thesis
    by (auto simp: q_join_def Some Let_def qa_def [symmetric] split: option.split intro: touches_trans)
qed (simp add: q_join_def)

lemma q_join_changed: "bm_has (q_items q) b \<Longrightarrow> bm_get (q_changed (snd (q_join b e q))) (b, HsHeld) = Some ()"
  by (auto simp: q_join_def Let_def q_note_def changed_note_eq split: option.split)

lemma q_join_logs [simp]: "q_logs q (snd (q_join b e q))"
proof (cases "bm_has (q_items q) b")
  case True
  then show ?thesis by (intro touches_logs [OF q_join_step] q_join_changed)
qed (simp add: q_join_def)

lemma q_new_step:
  assumes "its = q_items q"
  shows "touches (hi_batch item) q
    ((q_note (hi_batch item, HsHeld) q)\<lparr>q_items := bm_insert (hi_batch item) item its\<rparr>)"
  using assms by (auto simp: touches_def q_list_def items_keyed_def q_note_def changed_note_eq)

lemma q_hold_logs [simp]: "q_logs q (q_hold item q)"
proof (cases "bm_has (q_items q) (hi_batch item)")
  case True
  then show ?thesis by (simp only: q_hold_def if_True) (rule q_logs_fold, simp)
next
  case False
  let ?b = "hi_batch item"
  define qa where "qa = foldl (\<lambda>q e. q_record (e_path e) (e_version e) (e_stamp e) ?b q) q (bm_values (hi_entries item))"
  define qb where "qb = (q_note (?b, HsHeld) qa)\<lparr>q_items := bm_insert ?b item (q_items qa)\<rparr>"
  have "touches ?b q qa" unfolding qa_def by (rule touches_fold) simp
  then have "touches ?b q qb" unfolding qb_def by (rule touches_trans) (simp add: q_new_step)
  moreover have "bm_get (q_changed qb) (?b, HsHeld) = Some ()" by (simp add: qb_def q_note_def changed_note_eq)
  moreover have "q_hold item q = qb" using False by (simp add: q_hold_def qa_def qb_def Let_def q_records(1))
  ultimately show ?thesis by (simp add: touches_logs)
qed

lemma of_batch_dropped:
  assumes "i \<noteq> b"
  shows "of_batch i (case dropped b m of Some l \<Rightarrow> l | None \<Rightarrow> []) = of_batch i (case m of Some l \<Rightarrow> l | None \<Rightarrow> [])"
proof (cases m)
  case (Some l)
  then show ?thesis
    using assms of_batch_simps(3) [of i b l]
    by (cases "filter (\<lambda>(i, _). i \<noteq> b) l = []") (simp_all add: dropped_def opt_filter_def)
qed (simp add: dropped_def)

lemma q_release_logs [simp]: "q_logs q (snd (q_release b q))"
proof (cases "bm_get (q_items q) b")
  case (Some item)
  have "of_batch i (q_list (snd (q_release b q)) p) = of_batch i (q_list q p)" if "i \<noteq> b" for i p
    using that by (simp add: q_release_def Some q_list_def drop_versions_fold of_batch_dropped)
  moreover have "items_keyed q \<Longrightarrow> items_keyed (snd (q_release b q))"
    by (simp add: q_release_def Some items_keyed_def)
  ultimately have "touches b q (snd (q_release b q))"
    by (simp add: touches_def) (simp add: q_release_def Some q_note_def changed_note_eq)
  then show ?thesis by (rule touches_logs) (simp add: q_release_def Some q_note_def changed_note_eq)
qed (simp add: q_release_def)

text \<open>Denying and what undoes it.\<close>

lemma denied_keyed_insert:
  assumes keyed: "denied_keyed q" and b: "hi_batch (hr_item row) = b" and n: "n = Suc (q_arrivals q)"
    and covers: "row_covers row"
  shows "denied_keyed (q_note (b, HsDenied n) (q\<lparr>q_arrivals := n, q_denied := bm_insert n row (q_denied q)\<rparr>))"
    (is "denied_keyed ?q")
proof -
  have le: "at \<le> q_arrivals q" "bm_get (q_denied q) at = Some row' \<Longrightarrow> hi_batch (hr_item row') = i"
    if "bm_get (q_changed q) (i, HsDenied at) = Some ()" for i at row'
    using keyed that by (auto simp: denied_keyed_def)
  have d: "at \<le> q_arrivals q" "row_covers row'" if "bm_get (q_denied q) at = Some row'" for at row'
    using keyed that by (auto simp: denied_keyed_def)
  have "at \<le> n \<and> (\<forall>row'. bm_get (q_denied ?q) at = Some row' \<longrightarrow> hi_batch (hr_item row') = i)"
    if "bm_get (q_changed ?q) (i, HsDenied at) = Some ()" for i at
  proof (cases "at = n")
    case True
    then have "bm_get (q_changed q) (i, HsDenied at) \<noteq> Some ()" using le(1) [of i at] n by auto
    then have "i = b" using that by (simp add: q_note_def changed_note_eq split: if_splits)
    with True b show ?thesis by simp
  next
    case False
    then have noted: "bm_get (q_changed q) (i, HsDenied at) = Some ()"
      using that by (simp add: q_note_def changed_note_eq)
    from le(1) [OF this] False le(2) [OF noted] show ?thesis by (simp add: n)
  qed
  moreover have "at \<le> n \<and> row_covers row'" if "bm_get (q_denied ?q) at = Some row'" for at row'
    using d that n covers by (cases "at = n") (simp_all add: le_SucI)
  ultimately show ?thesis by (simp add: denied_keyed_def q_note_def)
qed

lemma q_deny_logs [simp]: "q_logs q (snd (q_deny b q))"
proof (cases "q_row q b")
  case (Some row)
  let ?r = "snd (q_release b q)"
  have deny: "snd (q_deny b q) = q_note (b, HsDenied (Suc (q_arrivals ?r)))
      (?r\<lparr>q_arrivals := Suc (q_arrivals ?r), q_denied := bm_insert (Suc (q_arrivals ?r)) row (q_denied ?r)\<rparr>)"
    by (simp add: q_deny_def Some Let_def q_note_def)
  have covers: "row_covers row" using Some by (auto simp: q_row_Some row_covers_def row_versions_get split: if_splits)
  have "hi_batch (hr_item row) = b" if "q_keyed q"
    using that Some by (auto simp: q_keyed_def items_keyed_def q_row_Some)
  moreover have "q_logs q ?r" by simp
  moreover have "q_keyed (snd (q_deny b q)) \<and> logged q_at q_noted ?r (snd (q_deny b q))"
    if b: "hi_batch (hr_item row) = b" and r: "q_keyed ?r"
  proof
    have "items_keyed (snd (q_deny b q))" using r by (simp add: deny q_keyed_def items_keyed_def)
    moreover have "denied_keyed (snd (q_deny b q))"
      unfolding deny by (rule denied_keyed_insert) (use r b covers in \<open>simp_all add: q_keyed_def\<close>)
    ultimately show "q_keyed (snd (q_deny b q))" by (simp add: q_keyed_def)
    have "bm_get (q_denied ?r) (Suc (q_arrivals ?r)) = None"
      using r Suc_n_not_le_n [of "q_arrivals ?r"]
      by (cases "bm_get (q_denied ?r) (Suc (q_arrivals ?r))") (auto simp: q_keyed_def denied_keyed_def)
    moreover have "q_row (snd (q_deny b q)) i = q_row ?r i" for i
      by (rule q_row_cong) (simp_all add: deny q_list_def)
    ultimately show "logged q_at q_noted ?r (snd (q_deny b q))"
      by (auto simp: logged_def q_noted_def q_at_def b split: held_state.split)
        (auto simp: deny q_note_def changed_note_eq b opt_filter_def)
  qed
  ultimately show ?thesis by (auto simp: q_logs_def intro: logged_trans)
qed (simp add: q_deny_def)

lemma q_note_denied_logs: "q_logs q (q_note (b, HsDenied at) q)"
  if "q_denied q = bm_empty" "at \<le> q_arrivals q"
proof -
  have "q_row (q_note (b, HsDenied at) q) i = q_row q i" for i
    by (rule q_row_cong) simp_all
  then show ?thesis
    using that by (auto simp: q_logs_def q_keyed_def items_keyed_def denied_keyed_def logged_def q_noted_def q_at_def
        q_note_def changed_note_eq opt_filter_def split: held_state.split)
qed

text \<open>Taking every denied row out is logged once each of them is noted.\<close>

lemma denied_out:
  assumes logs: "q_keyed q \<Longrightarrow> q_logs (q\<lparr>q_denied := bm_empty\<rparr>) q'"
    and noted: "\<And>at row. q_keyed q \<Longrightarrow> bm_get (q_denied q) at = Some row \<Longrightarrow>
      bm_get (q_changed q') (hi_batch (hr_item row), HsDenied at) = Some ()"
  shows "q_logs q q'"
proof -
  let ?q0 = "q\<lparr>q_denied := bm_empty\<rparr>"
  have row: "q_row ?q0 i = q_row q i" for i
    by (rule q_row_cong) (simp_all add: q_list_def)
  have "q_keyed q' \<and> logged q_at q_noted q q'" if q: "q_keyed q"
  proof -
    have "q_keyed ?q0" using q by (simp add: q_keyed_def items_keyed_def denied_keyed_def)
    then have k: "q_keyed q'" and l: "logged q_at q_noted ?q0 q'" using logs [OF q] by (simp_all add: q_logs_def)
    have "q_at ?q0 k = q_at q k" if "\<not> q_noted q' k" for k
      using that noted [OF q] row
      by (auto simp: q_at_def q_noted_def opt_filter_def split: prod.split held_state.split option.split)
    with l k show ?thesis by (auto simp: logged_def) (simp add: q_noted_def)
  qed
  then show ?thesis by (simp add: q_logs_def)
qed

lemma denied_fold:
  fixes h :: "'st \<Rightarrow> quarantine" and g :: "'st \<Rightarrow> nat \<times> held_row \<Rightarrow> 'st"
  assumes g: "\<And>st at row. row_covers row \<Longrightarrow>
      touches (hi_batch (hr_item row)) (q_note (hi_batch (hr_item row), HsDenied at) (h st)) (h (g st (at, row))) \<and>
      q_logs (q_note (hi_batch (hr_item row), HsDenied at) (h st)) (h (g st (at, row)))"
    and start: "h st = q\<lparr>q_denied := bm_empty\<rparr>"
  shows "q_logs q (h (foldl g st (bm_entries (q_denied q))))"
proof -
  have fold: "q_logs (h s) (h (foldl g s rows)) \<and>
      (\<forall>k. bm_get (q_changed (h s)) k = Some () \<longrightarrow> bm_get (q_changed (h (foldl g s rows))) k = Some ()) \<and>
      (\<forall>(at, row) \<in> set rows. bm_get (q_changed (h (foldl g s rows))) (hi_batch (hr_item row), HsDenied at) = Some ())"
    if "q_denied (h s) = bm_empty" and "\<forall>(at, row) \<in> set rows. at \<le> q_arrivals (h s) \<and> row_covers row" for s rows
    using that
  proof (induction rows arbitrary: s)
    case (Cons x rows)
    obtain at row where x: "x = (at, row)" by fastforce
    define k where "k = (hi_batch (hr_item row), HsDenied at)"
    let ?s1 = "q_note k (h s)" and ?s2 = "h (g s x)"
    have at: "at \<le> q_arrivals (h s)" and covers: "row_covers row" using Cons.prems(2) by (simp_all add: x)
    have 1: "q_logs (h s) ?s1" unfolding k_def using Cons.prems(1) at by (rule q_note_denied_logs)
    have 2: "q_logs ?s1 ?s2" and step: "touches (hi_batch (hr_item row)) ?s1 ?s2"
      using g [OF covers] by (simp_all add: k_def x)
    have 3: "bm_get (q_changed ?s2) j = Some ()" if "j = k \<or> bm_get (q_changed (h s)) j = Some ()" for j
      using step that by (auto simp: touches_def q_note_def changed_note_eq)
    have d: "q_denied ?s2 = bm_empty" and le: "q_arrivals (h s) \<le> q_arrivals ?s2"
      using step Cons.prems(1) by (simp_all add: touches_def)
    have "\<forall>(at, row) \<in> set rows. at \<le> q_arrivals ?s2 \<and> row_covers row"
      using Cons.prems(2) le by fastforce
    note IH = Cons.IH [OF d this]
    have IH: "q_logs ?s2 (h (foldl g (g s x) rows))"
      "\<And>j. bm_get (q_changed ?s2) j = Some () \<Longrightarrow> bm_get (q_changed (h (foldl g (g s x) rows))) j = Some ()"
      "\<forall>(at, row) \<in> set rows. bm_get (q_changed (h (foldl g (g s x) rows))) (hi_batch (hr_item row), HsDenied at) = Some ()"
      using IH by blast+
    have "q_logs (h s) (h (foldl g (g s x) rows))" by (rule q_logs_trans [OF 1 q_logs_trans [OF 2 IH(1)]])
    moreover have "bm_get (q_changed (h (foldl g (g s x) rows))) (hi_batch (hr_item row), HsDenied at) = Some ()"
      by (rule IH(2) [OF 3]) (simp add: k_def)
    moreover have "bm_get (q_changed (h (foldl g (g s x) rows))) j = Some ()" if "bm_get (q_changed (h s)) j = Some ()" for j
      by (rule IH(2) [OF 3]) (simp add: that)
    ultimately show ?case using IH(3) by (simp add: x)
  qed simp
  have all: "\<forall>(at, row) \<in> set (bm_entries (q_denied q)). at \<le> q_arrivals (h st) \<and> row_covers row" if "q_keyed q"
    using that by (auto simp: start in_bm_entries q_keyed_def denied_keyed_def)
  show ?thesis
    by (rule denied_out) (use fold [OF _ all] in \<open>auto simp: start in_bm_entries\<close>)
qed

lemma forget_denied_logs [simp]: "q_logs q (forget_denied q)"
  unfolding forget_denied_def by (rule denied_fold [where h = "\<lambda>q. q"]) auto

lemma q_hold_step: "touches (hi_batch item) q (q_hold item q)"
proof (cases "bm_has (q_items q) (hi_batch item)")
  case True
  then show ?thesis
    by (simp only: q_hold_def if_True) (rule touches_fold, rule q_join_step)
next
  case False
  let ?b = "hi_batch item"
  define qa where "qa = foldl (\<lambda>q e. q_record (e_path e) (e_version e) (e_stamp e) ?b q) q (bm_values (hi_entries item))"
  have "touches ?b q qa" unfolding qa_def by (rule touches_fold) simp
  then have "touches ?b q ((q_note (?b, HsHeld) qa)\<lparr>q_items := bm_insert ?b item (q_items qa)\<rparr>)"
    by (rule touches_trans) (rule q_new_step, simp)
  then show ?thesis using False by (simp add: q_hold_def qa_def Let_def)
qed

lemma q_hold_changed:
  assumes "bm_has (q_items q) (hi_batch item) \<Longrightarrow> bm_values (hi_entries item) \<noteq> []"
  shows "bm_get (q_changed (q_hold item q)) (hi_batch item, HsHeld) = Some ()"
proof (cases "bm_has (q_items q) (hi_batch item)")
  case True
  then obtain e es where es: "bm_values (hi_entries item) = e # es" using assms by (meson list.exhaust)
  let ?b = "hi_batch item"
  have "touches ?b (snd (q_join ?b e q)) (foldl (\<lambda>q e. snd (q_join ?b e q)) (snd (q_join ?b e q)) es)"
    by (rule touches_fold) (rule q_join_step)
  then show ?thesis using q_join_changed [OF True, of e] True by (auto simp: q_hold_def es touches_def)
qed (simp add: q_hold_def Let_def q_note_def changed_note_eq)

lemma reinstate_step: "touches (hi_batch (hr_item row)) q (reinstate row q)"
  unfolding reinstate_def
  by (rule touches_trans [OF _ q_hold_step], rule touches_fold) (auto intro!: touches_fold split: prod.split)

lemma reinstate_logs:
  assumes "row_covers row"
  shows "q_logs q (reinstate row q)"
proof (cases "bm_values (hi_entries (hr_item row)) = []")
  case True
  then have "\<not> bm_has (hr_versions row) p" for p
    using assms by (auto simp: row_covers_def in_bm_values bm_values_def in_bm_entries [symmetric])
  then have "bm_entries (hr_versions row) = []"
    using bm_is_empty_iff [of "hr_versions row"] by (auto simp: bm_is_empty_def)
  then show ?thesis by (simp add: reinstate_def)
next
  case False
  then show ?thesis
    by (intro touches_logs [OF reinstate_step]) (simp add: reinstate_def q_hold_changed)
qed

lemma return_denied_logs [simp]: "q_logs q (snd (return_denied q))"
  unfolding return_denied_def
  by (rule denied_fold [where h = snd])
    (simp_all add: return_step_def Let_def reinstate_step reinstate_logs split: prod.split)

text \<open>What \<open>held_changes\<close> reports: a denied row that is noted is reported under the id of its batch.\<close>

lemma drain_reports:
  assumes "q_keyed q"
  shows "fst (drain_changes q) = map (\<lambda>(b, s). (b, s, q_at q (b, s))) (bm_keys (q_changed q))"
proof -
  have "(case s of HsHeld \<Rightarrow> q_row q b | HsDenied at \<Rightarrow> bm_get (q_denied q) at) = q_at q (b, s)"
    if "(b, s) \<in> set (bm_keys (q_changed q))" for b s
    using that assms
    by (cases s) (auto simp: q_at_def q_keyed_def denied_keyed_def opt_filter_def in_bm_keys split: option.split)
  moreover have "q_row (q\<lparr>q_changed := c\<rparr>) b = q_row q b" for c b
    by (rule q_row_cong) (simp_all add: q_list_def)
  ultimately show ?thesis
    by (auto simp: drain_changes_def changed_take_def Let_def cong: held_state.case_cong)
qed

text \<open>The log seen by a host that reads each row under its key.\<close>

definition q_report :: "quarantine \<Rightarrow> ((batch_id \<times> held_state) \<times> held_row option) list \<times> quarantine" where
  "q_report q = (map (\<lambda>k. (k, q_at q k)) (bm_keys (q_changed q)), snd (drain_changes q))"

interpretation held_hook: change_hook q_at q_noted q_report
proof
  fix q out q' k v assume "q_report q = (out, q')"
  then have out: "out = map (\<lambda>k. (k, q_at q k)) (bm_keys (q_changed q))" and q': "q' = q\<lparr>q_changed := bm_empty\<rparr>"
    by (auto simp: q_report_def drain_changes_def changed_take_def Let_def)
  have "q_row q' b = q_row q b" for b unfolding q' by (rule q_row_cong) (simp_all add: q_list_def)
  then show "q_at q' = q_at q" by (auto simp: q_at_def q' split: prod.split held_state.split)
  show "\<not> q_noted q' k" by (simp add: q_noted_def q')
  show "(k, v) \<in> set out \<longleftrightarrow> q_noted q k \<and> v = q_at q k"
    by (auto simp: out q_noted_def in_bm_keys)
qed

lemma q_report_eq:
  "q_keyed q \<Longrightarrow> drain_changes q = (map (\<lambda>((b, s), row). (b, s, row)) (fst (q_report q)), snd (q_report q))"
  by (rule prod_eqI) (auto simp: drain_reports q_report_def)

end
