(* ===== verification/FolderLogs.thy ===== *)
theory FolderLogs
  imports QuarantineLogs
begin

text \<open>
  The change logs of a folder (\<open>crates/engine/src/folder.rs\<close>): whatever an operation does to the rows of
  the index that are pending, the want-list, the deferred set or the quarantine, it notes it in their logs.
  The facts are stated for a folder on the way, so that they apply to what an operation does first and then.
\<close>

definition fo_logs :: "folder \<Rightarrow> folder \<Rightarrow> bool" where
  "fo_logs f g \<longleftrightarrow> ix_logs (fo_index f) (fo_index g) \<and> wl_logs (fo_wants f) (fo_wants g) \<and>
     ds_logs (fo_deferred f) (fo_deferred g) \<and> q_logs (fo_quarantine f) (fo_quarantine g)"

lemma fo_logs_refl [simp]: "fo_logs f f"
  by (simp add: fo_logs_def)

lemma fo_logs_trans: "fo_logs f g \<Longrightarrow> fo_logs g h \<Longrightarrow> fo_logs f h"
  by (auto simp: fo_logs_def intro: ix_logs_trans wl_logs_trans ds_logs_trans q_logs_trans)

lemma fo_logs_fold:
  assumes "\<And>s x. x \<in> set xs \<Longrightarrow> fo_logs f (h s) \<Longrightarrow> fo_logs f (h (g s x))" and "fo_logs f (h s)"
  shows "fo_logs f (h (foldl g s xs))"
  using assms by (induction xs arbitrary: s) auto

lemmas ix_later [simp] = ix_write_logs [THEN ix_logs_trans [rotated]] index_writes_log [THEN ix_logs_trans [rotated]]
  adopt_logs [THEN ix_logs_trans [rotated]] observe_absent_unrecoverable_logs [THEN ix_logs_trans [rotated]]
  received_range_logs [THEN ix_logs_trans [rotated]] mark_announced_logs [THEN ix_logs_trans [rotated]]
  revert_pending_logs [THEN ix_logs_trans [rotated]]

lemmas wl_later [simp] = wl_logs_note [THEN wl_logs_trans [rotated]] set_state_logs [THEN wl_logs_trans [rotated]]
  set_states_logs [THEN wl_logs_trans [rotated]] wl_remove_logs [THEN wl_logs_trans [rotated]]
  wl_take_logs [THEN wl_logs_trans [rotated]] wl_release_logs [THEN wl_logs_trans [rotated]]
  note_announced_logs [THEN wl_logs_trans [rotated]] want_edits_log [THEN wl_logs_trans [rotated]]
  fetch_logs [THEN wl_logs_trans [rotated]] want_timers_log [THEN wl_logs_trans [rotated]]
  expire_logs [THEN wl_logs_trans [rotated]] dispatch_logs [THEN wl_logs_trans [rotated]]

lemmas ds_later [simp] = deferred_log [THEN ds_logs_trans [rotated]]

lemmas q_later [simp] = q_join_logs [THEN q_logs_trans [rotated]] q_hold_logs [THEN q_logs_trans [rotated]]
  q_release_logs [THEN q_logs_trans [rotated]] q_deny_logs [THEN q_logs_trans [rotated]]
  forget_denied_logs [THEN q_logs_trans [rotated]] return_denied_logs [THEN q_logs_trans [rotated]]

lemma fo_logs_updates [simp]:
  "fo_logs f (g\<lparr>fo_rules := rs\<rparr>) = fo_logs f g" "fo_logs f (g\<lparr>fo_window := w\<rparr>) = fo_logs f g"
  "fo_logs f (g\<lparr>fo_scan := sc\<rparr>) = fo_logs f g" "fo_logs f (g\<lparr>fo_acked := a\<rparr>) = fo_logs f g"
  "fo_logs f (g\<lparr>fo_catchup := c\<rparr>) = fo_logs f g" "fo_logs f (g\<lparr>fo_winner_fallbacks := n\<rparr>) = fo_logs f g"
  "fo_logs f (g\<lparr>fo_paused := p\<rparr>) = fo_logs f g" "fo_logs f (g\<lparr>fo_statuses := st\<rparr>) = fo_logs f g"
  "fo_logs f (g\<lparr>fo_startup_scan := b\<rparr>) = fo_logs f g" "fo_logs f (g\<lparr>fo_unobserved := u\<rparr>) = fo_logs f g"
  "fo_logs f (g\<lparr>fo_observing := u\<rparr>) = fo_logs f g" "fo_logs f (g\<lparr>fo_reported := r\<rparr>) = fo_logs f g"
  "fo_logs f (g\<lparr>fo_last_observed := r\<rparr>) = fo_logs f g" "fo_logs f (g\<lparr>fo_record_written := r\<rparr>) = fo_logs f g"
  "fo_logs f (g\<lparr>fo_disk_full := b\<rparr>) = fo_logs f g" "fo_logs f (g\<lparr>fo_queued := qs\<rparr>) = fo_logs f g"
  by (simp_all add: fo_logs_def)

lemma fo_logs_parts [simp]:
  "fo_logs f g \<Longrightarrow> ix_logs (fo_index g) ix \<Longrightarrow> fo_logs f (g\<lparr>fo_index := ix\<rparr>)"
  "fo_logs f g \<Longrightarrow> wl_logs (fo_wants g) wl \<Longrightarrow> fo_logs f (g\<lparr>fo_wants := wl\<rparr>)"
  "fo_logs f g \<Longrightarrow> ds_logs (fo_deferred g) ds \<Longrightarrow> fo_logs f (g\<lparr>fo_deferred := ds\<rparr>)"
  "fo_logs f g \<Longrightarrow> q_logs (fo_quarantine g) q \<Longrightarrow> fo_logs f (g\<lparr>fo_quarantine := q\<rparr>)"
  by (auto simp: fo_logs_def intro: ix_logs_trans wl_logs_trans ds_logs_trans q_logs_trans)

section \<open>Admitting\<close>

lemma admit_logs [simp]: "fo_logs f g \<Longrightarrow> fo_logs f (fo_touched now g)"
  "fo_logs f g \<Longrightarrow> fo_logs f (push_status st g)"
  "fo_logs f g \<Longrightarrow> fo_logs f (count_fallback c g)"
  by (simp_all add: fo_touched_def push_status_def count_fallback_def)

lemma want_logs [simp]: "fo_logs f g \<Longrightarrow> fo_logs f (fo_want_as item received b src sh mark g)"
  "fo_logs f g \<Longrightarrow> fo_logs f (fo_want item received b src sh g)"
  by (simp_all add: fo_want_def fo_want_as_def Let_def case_prod_unfold split: option.split prod.split)

lemma admit_one_logs:
  "fo_logs f (snd (snd st)) \<Longrightarrow> fo_logs f (snd (snd (admit_one brake st c)))"
  by (cases st rule: prod_cases3) (simp add: admit_one_def Let_def split: option.split)

lemma want_all_logs [simp]: "fo_logs f g \<Longrightarrow> fo_logs f (want_all b src sh raws items g)"
  unfolding want_all_def
  by (rule fo_logs_fold [where h = snd]) (auto simp: Let_def split: prod.split)

lemma q_joins_logs [simp]: "q_logs q q' \<Longrightarrow> q_logs q (foldl (\<lambda>q e. snd (q_join b e q)) q' es)"
  by (rule q_logs_trans, assumption, rule q_logs_fold) simp

lemma admit_group_logs: "fo_logs f g \<Longrightarrow> fo_logs f (admit_group now brake g grp)"
  by (simp add: admit_group_def Let_def case_prod_unfold split: verdict.split)

lemma admitted_logs [simp]:
  assumes "fo_logs f g"
  shows "fo_logs f (admit now cs brake g)"
proof -
  obtain groups joined h where one: "foldl (admit_one brake) (bm_empty, bm_empty, g) cs = (groups, joined, h)"
    by (rule prod_cases3)
  have "fo_logs f (snd (snd (foldl (admit_one brake) (bm_empty, bm_empty, g) cs)))"
    by (rule fo_logs_fold [where h = "\<lambda>st. snd (snd st)"]) (simp_all add: admit_one_logs assms)
  then have "fo_logs f h" by (simp add: one)
  then have "fo_logs f (foldl (\<lambda>f (b, n). push_status (StJoinedHeld b n) f) h (bm_entries joined))"
    by (intro fo_logs_fold [where h = "\<lambda>f. f"]) (auto split: prod.split)
  then show ?thesis
    unfolding admit_def one Let_def prod.case
    by (rule fo_logs_fold [where h = "\<lambda>f. f", rotated]) (rule admit_group_logs)
qed

lemma classify_deferred_logs [simp]: "fo_logs f g \<Longrightarrow> fo_logs f (snd (classify_deferred ds g))"
  unfolding classify_deferred_def
  by (rule fo_logs_fold [where h = snd]) (auto simp: Let_def split: prod.split option.split)

lemma reconsider_logs [simp]: "fo_logs f g \<Longrightarrow> fo_logs f (reconsider now p r g)"
  by (simp add: reconsider_def Let_def case_prod_unfold)

lemma announced_all_logs [simp]: "wl_logs wl wl' \<Longrightarrow> wl_logs wl (foldl (\<lambda>wl src. note_announced p h src wl) wl' srcs)"
  by (rule wl_logs_trans, assumption, rule wl_logs_fold) simp

lemma rederive_logs [simp]: "fo_logs f g \<Longrightarrow> fo_logs f (rederive now old g)"
  by (simp add: rederive_def Let_def split: option.split)

lemma reclassify_logs [simp]: "fo_logs f g \<Longrightarrow> fo_logs f (reclassify_want now p g)"
proof -
  assume "fo_logs f g"
  moreover obtain w wl where t: "wl_take p (fo_wants g) = (w, wl)" by fastforce
  moreover have "wl_logs (fo_wants g) wl" using wl_take_logs [of "fo_wants g" p] by (simp add: t)
  ultimately show ?thesis by (simp add: reclassify_want_def split: option.split)
qed

lemma unfreeze_logs [simp]:
  assumes "fo_logs f g"
  shows "fo_logs f (unfreeze now g)"
proof -
  have "ds_logs ds (snd st) \<Longrightarrow> ds_logs ds (snd (foldl (\<lambda>(frozen, ds) path.
      let (taken, ds) = ds_take_where path (\<lambda>d. df_reason d = Frozen) ds in (frozen @ taken, ds)) st ps))" for ds st ps
    by (induction ps arbitrary: st) (auto simp: Let_def case_prod_unfold)
  from this [of "fo_deferred g" "([], fo_deferred g)"] show ?thesis
    using assms by (simp add: unfreeze_def Let_def case_prod_unfold)
qed

text \<open>The two decisions.\<close>

lemma deny_paths_logs [simp]: "ix_logs ix (snd st) \<Longrightarrow> ix_logs ix (snd (foldl (deny_path now q) st ps))"
  by (induction ps arbitrary: st) (simp_all add: deny_path_def Let_def case_prod_unfold split: option.split)

lemma fo_deny_logs [simp]: "fo_logs f g \<Longrightarrow> fo_logs f (snd (fo_deny now b g))"
proof -
  assume g: "fo_logs f g"
  have "fo_logs f h \<Longrightarrow> fo_logs f (foldl (\<lambda>f p. reclassify_want now p f) h ps)" for h ps
    by (rule fo_logs_fold [where h = "\<lambda>f. f"]) simp_all
  with g show ?thesis by (simp add: fo_deny_def Let_def case_prod_unfold split: option.split)
qed

lemma insert_want_logs [simp]: "fo_logs f g \<Longrightarrow> fo_logs f (insert_want w g)"
  by (simp add: insert_want_def)

lemma take_stale_logs [simp]: "wl_logs wl (snd st) \<Longrightarrow> wl_logs wl (snd (foldl take_stale st rvs))"
  by (induction rvs arbitrary: st) (simp_all add: take_stale_def Let_def case_prod_unfold split: option.split)

lemma revert_one_logs: "fo_logs f (snd st) \<Longrightarrow> fo_logs f (snd (revert_one b others st rv))"
  by (simp add: revert_one_def Let_def case_prod_unfold split: option.split)

lemma fo_revert_logs [simp]: "fo_logs f g \<Longrightarrow> fo_logs f (snd (fo_revert now g))"
proof -
  assume g: "fo_logs f g"
  have "fo_logs f h \<Longrightarrow> fo_logs f (foldl (\<lambda>f old. rederive now old f) h ws)" for h ws
    by (rule fo_logs_fold [where h = "\<lambda>f. f"]) simp_all
  moreover have "fo_logs f (snd st) \<Longrightarrow> fo_logs f (snd (foldl (revert_one b others) st rvs))" for b others st rvs
    by (rule fo_logs_fold [where h = snd]) (simp_all add: revert_one_logs)
  ultimately show ?thesis
    using g by (simp add: fo_revert_def Let_def case_prod_unfold split: option.split)
qed

section \<open>Observations\<close>

lemma rewant_carriers_logs [simp]: "fo_logs f g \<Longrightarrow> fo_logs f (rewant_carriers p g)"
proof -
  assume g: "fo_logs f g"
  have "fo_logs f h \<Longrightarrow> fo_logs f (foldl (\<lambda>f d. case df_restoring d of None \<Rightarrow> f
      | Some e \<Rightarrow> fo_want_as \<lparr>ai_entry = e, ai_mode = Fetch, ai_conflict = None\<rparr> (df_entry d) (df_batch d)
            (df_source d) (df_seq_high d) (Some (df_trashed d)) f) h ds)" for h and ds :: "deferred list"
    by (rule fo_logs_fold [where h = "\<lambda>f. f"]) (simp_all split: option.split)
  with g show ?thesis by (simp add: rewant_carriers_def Let_def case_prod_unfold)
qed

lemma mark_logs [simp]: "fo_logs f g \<Longrightarrow> fo_logs f (clear_carriers p g)"
  "fo_logs f g \<Longrightarrow> fo_logs f (snd (unmark p g))"
  by (simp_all add: clear_carriers_def unmark_def Let_def case_prod_unfold)

lemma land_logs [simp]: "fo_logs f g \<Longrightarrow> fo_logs f (snd (land now p ob g))"
  by (simp add: land_def Let_def case_prod_unfold split: option.split)

lemma take_write_logs [simp]: "fo_logs f g \<Longrightarrow> fo_logs f (snd (take_write now p s ob marked g))"
  by (simp add: take_write_def Let_def case_prod_unfold split: option.split scan_state.split)

lemma take_settled_logs [simp]: "fo_logs f g \<Longrightarrow> fo_logs f (snd (take_settled now p s ob marked g))"
  by (simp add: take_settled_def Let_def case_prod_unfold split: option.split)

lemma take_one_logs [simp]: "fo_logs f g \<Longrightarrow> fo_logs f (snd (take_one now at p s ob g))"
  by (simp add: take_one_def Let_def split: scan_state.split)

lemma take_ancestor_logs: "fo_logs f (snd st) \<Longrightarrow> fo_logs f (snd (take_ancestor now at ob st d))"
  by (simp add: take_ancestor_def Let_def case_prod_unfold)

lemma take_observation_logs [simp]: "fo_logs f g \<Longrightarrow> fo_logs f (snd (take_observation now at p s ob g))"
proof -
  assume g: "fo_logs f g"
  have "fo_logs f (snd st) \<Longrightarrow> fo_logs f (snd (foldl (take_ancestor now at ob) st ds))" for st ds
    by (rule fo_logs_fold [where h = snd]) (simp_all add: take_ancestor_logs)
  with g show ?thesis by (simp add: take_observation_def Let_def case_prod_unfold)
qed

lemma tombstone_gone_logs: "fo_logs f (snd st) \<Longrightarrow> fo_logs f (snd (tombstone_gone now st p))"
  by (simp add: tombstone_gone_def Let_def case_prod_unfold split: option.split)

lemma scan_logs [simp]: "fo_logs f g \<Longrightarrow> fo_logs f (scan_started g)"
  "fo_logs f g \<Longrightarrow> fo_logs f (snd (scan_aborted g))" "fo_logs f g \<Longrightarrow> fo_logs f (snd (scan_finished now g))"
proof -
  have "fo_logs f (snd st) \<Longrightarrow> fo_logs f (snd (foldl (tombstone_gone now) st ps))" for st ps
    by (rule fo_logs_fold [where h = snd]) (simp_all add: tombstone_gone_logs)
  moreover have "fo_logs f h \<Longrightarrow> fo_logs f (foldl (\<lambda>f p. reconsider now p ChangedUnderneath f) h ps)" for h ps
    by (rule fo_logs_fold [where h = "\<lambda>f. f"]) simp_all
  moreover have "fo_logs f h \<Longrightarrow> fo_logs f (foldl (\<lambda>f p. rewant_carriers p f) h ps)" for h ps
    by (rule fo_logs_fold [where h = "\<lambda>f. f"]) simp_all
  ultimately show "fo_logs f g \<Longrightarrow> fo_logs f (snd (scan_finished now g))"
    by (simp add: scan_finished_def Let_def case_prod_unfold split: option.split)
qed (simp_all add: scan_started_def scan_aborted_def)

section \<open>Sending, receiving and approving\<close>

lemma send_logs [simp]: "fo_logs f g \<Longrightarrow> fo_logs f (snd (form_batches now b g))"
  "fo_logs f g \<Longrightarrow> fo_logs f (snd (fo_expire now g))" "fo_logs f g \<Longrightarrow> fo_logs f (have_up_to n s g)"
  "fo_logs f g \<Longrightarrow> fo_logs f (snd (catchup_batches now b g))" "fo_logs f g \<Longrightarrow> fo_logs f (acknowledged n s g)"
  "fo_logs f g \<Longrightarrow> fo_logs f (fo_peer_gone n g)" "fo_logs f g \<Longrightarrow> fo_logs f (fo_peer_connected n g)"
  by (simp_all add: form_batches_def fo_expire_def have_up_to_def catchup_batches_def acknowledged_def
      fo_peer_gone_def fo_peer_connected_def Let_def case_prod_unfold)

lemma fo_tick_logs [simp]: "fo_logs f g \<Longrightarrow> fo_logs f (snd (fo_tick now b g))"
  by (simp add: fo_tick_def Let_def case_prod_unfold split: option.split verdict.split)

lemma receive_one_logs: "fo_logs f (snd st) \<Longrightarrow> fo_logs f (snd (receive_one b raw st item))"
  by (simp add: receive_one_def Let_def case_prod_unfold split: option.split)

lemma announced_batch_logs [simp]:
  "wl_logs wl wl' \<Longrightarrow> wl_logs wl (foldl (\<lambda>wl row. note_announced (fst row) (h (snd row)) src wl) wl' rows)"
  by (rule wl_logs_trans, assumption, rule wl_logs_fold) simp

lemma fo_receive_logs [simp]: "fo_logs f g \<Longrightarrow> fo_logs f (snd (fo_receive now b g))"
proof -
  assume g: "fo_logs f g"
  have "fo_logs f (snd st) \<Longrightarrow> fo_logs f (snd (foldl (receive_one b raw) st items))" for raw st items
    by (rule fo_logs_fold [where h = snd]) (simp_all add: receive_one_logs)
  moreover have "fo_logs f h \<Longrightarrow> fo_logs f (foldl (\<lambda>f item. fo_want item (raw item) i src sh f) h items)"
    for h raw i src sh items
    by (rule fo_logs_fold [where h = "\<lambda>f. f"]) simp_all
  ultimately show ?thesis
    using g by (simp add: fo_receive_def Let_def case_prod_unfold split: verdict.split)
qed

lemma approve_items_logs [simp]: "fo_logs f g \<Longrightarrow> fo_logs f (snd (snd (approve_items item g)))"
  unfolding approve_items_def
  by (rule fo_logs_fold [where h = "\<lambda>st. snd (snd st)"]) (auto simp: Let_def split: prod.split)

lemma fo_approve_logs [simp]: "fo_logs f g \<Longrightarrow> fo_logs f (snd (fo_approve now b g))"
  by (simp add: fo_approve_def Let_def case_prod_unfold split: option.split)

lemma decide_logs [simp]: "fo_logs f g \<Longrightarrow> fo_logs f (snd (rules_changed rs g))"
  "fo_logs f g \<Longrightarrow> fo_logs f (snd (observe_requests g))"
  by (simp_all add: rules_changed_def observe_requests_def Let_def case_prod_unfold split: option.split)

section \<open>Reports and dispatch\<close>

lemma fo_failed_logs [simp]: "fo_logs f g \<Longrightarrow> fo_logs f (fo_failed now p err g)"
  by (simp add: fo_failed_def Let_def)

lemma fetched_logs [simp]: "fo_logs f g \<Longrightarrow> fo_logs f (snd (fo_fetched now p v report g))"
  "fo_logs f g \<Longrightarrow> fo_logs f (snd (space_recovered g))" "fo_logs f g \<Longrightarrow> fo_logs f (fo_progress now p v g)"
  by (simp_all add: fo_fetched_def space_recovered_def fo_progress_def Let_def case_prod_unfold
      split: fetch_report.split option.split)

lemma commit_logs [simp]: "fo_logs f g \<Longrightarrow> fo_logs f (snd (fo_adopt now e g))"
  "fo_logs f g \<Longrightarrow> fo_logs f (defer_changed_underneath w g)"
  "fo_logs f g \<Longrightarrow> fo_logs f (snd (observe_found now at p found g))"
  "fo_logs f g \<Longrightarrow> fo_logs f (bracket_committed p g)" "fo_logs f g \<Longrightarrow> fo_logs f (report_at p at g)"
  by (simp_all add: fo_adopt_def defer_changed_underneath_def observe_found_def bracket_committed_def
      report_at_def Let_def case_prod_unfold)

lemma land_commit_logs [simp]: "fo_logs f g \<Longrightarrow> fo_logs f (snd (land_commit now at p w g))"
  by (simp add: land_commit_def Let_def case_prod_unfold split: option.split)

lemma report_logs [simp]: "fo_logs f g \<Longrightarrow> fo_logs f (snd (applied_at now p v at out g))"
  "fo_logs f g \<Longrightarrow> fo_logs f (snd (fo_trashed now p v at out g))"
  by (simp_all add: applied_at_def fo_trashed_def Let_def case_prod_unfold
      split: option.split apply_outcome.split bool.split)

lemma keep_directory_logs: "fo_logs f (snd st) \<Longrightarrow> fo_logs f (snd (keep_directory now st p))"
  by (simp add: keep_directory_def Let_def case_prod_unfold)

lemma keep_directories_logs [simp]: "fo_logs f g \<Longrightarrow> fo_logs f (snd (keep_directories now g))"
proof -
  assume g: "fo_logs f g"
  have "fo_logs f (snd st) \<Longrightarrow> fo_logs f (snd (foldl (keep_directory now) st ps))" for st ps
    by (rule fo_logs_fold [where h = snd]) (simp_all add: keep_directory_logs)
  with g show ?thesis by (simp add: keep_directories_def Let_def case_prod_unfold)
qed

lemma host_order_logs: "fo_logs f (snd (snd st)) \<Longrightarrow> fo_logs f (snd (snd (host_order now st step)))"
  by (simp add: host_order_def Let_def case_prod_unfold split: want_step.split option.split)

lemma fo_dispatch_logs [simp]: "fo_logs f g \<Longrightarrow> fo_logs f (snd (fo_dispatch now peers g))"
proof -
  assume g: "fo_logs f g"
  have "fo_logs f (snd (snd st)) \<Longrightarrow> fo_logs f (snd (snd (foldl (host_order now) st steps)))" for st steps
    by (rule fo_logs_fold [where h = "\<lambda>st. snd (snd st)"]) (simp_all add: host_order_logs)
  with g show ?thesis by (simp add: fo_dispatch_def Let_def case_prod_unfold)
qed

end
