(* ===== verification/FolderWrites.thy ===== *)
theory FolderWrites
  imports ChangeLogs
begin

text \<open>
  The records of the index, operation by operation (\<open>crates/engine/src/folder.rs\<close>): an operation returns
  every record it wrote, in the order of the writes, and touches no other. \<open>files f\<close> are the records of a
  folder by path; \<open>filed rs m\<close> are the records \<open>m\<close> after the writes \<open>rs\<close>.
\<close>

definition ix_at :: "index \<Rightarrow> rel_path \<Rightarrow> index_record option" where
  "ix_at ix p = bm_get (ix_records ix) p"

definition files :: "folder \<Rightarrow> rel_path \<Rightarrow> index_record option" where
  "files f = ix_at (fo_index f)"

definition filed :: "index_record list \<Rightarrow> (rel_path \<Rightarrow> index_record option) \<Rightarrow> rel_path \<Rightarrow> index_record option" where
  "filed rs m = foldl (\<lambda>m r. m(e_path (ir_entry r) := Some r)) m rs"

lemma filed_simps [simp]: "filed [] m = m" "filed (r # rs) m = filed rs (m(e_path (ir_entry r) := Some r))"
  "filed (rs @ qs) m = filed qs (filed rs m)"
  by (simp_all add: filed_def)

definition changed_records :: "local_change option \<Rightarrow> index_record list" where
  "changed_records c = (case c of Some c \<Rightarrow> [lc_record c] | None \<Rightarrow> [])"

definition found_records :: "index_record option \<Rightarrow> index_record list" where
  "found_records r = (case r of Some r \<Rightarrow> [r] | None \<Rightarrow> [])"

lemma opt_records [simp]: "changed_records None = []" "changed_records (Some c) = [lc_record c]"
  "found_records None = []" "found_records (Some r) = [r]"
  by (simp_all add: changed_records_def found_records_def)

lemmas records_fold = changed_records_def [symmetric] found_records_def [symmetric]

section \<open>The index\<close>

lemma ix_at_updates [simp]: "ix_at (ix\<lparr>ix_pending := m\<rparr>) = ix_at ix" "ix_at (ix\<lparr>ix_pending_changed := c\<rparr>) = ix_at ix"
  "ix_at (ix\<lparr>ix_peer_seq := s\<rparr>) = ix_at ix" "ix_at (ix\<lparr>ix_announced_seq := n\<rparr>) = ix_at ix"
  "ix_at (ix\<lparr>ix_announced_tracked := n\<rparr>) = ix_at ix"
  by (simp_all add: ix_at_def fun_eq_iff)

lemma ix_write_files: "ix_at (snd (ix_write e ix)) = filed [lc_record (fst (ix_write e ix))] (ix_at ix)"
  by (auto simp: ix_write_def Let_def ix_at_def)

lemma observe_files: "ix_at (snd (observe p ob ix)) = filed (changed_records (fst (observe p ob ix))) (ix_at ix)"
  by (simp add: observe_def Let_def case_prod_unfold ix_write_files)

lemma observe_absent_files:
  "ix_at (snd (observe_absent p at ix)) = filed (changed_records (fst (observe_absent p at ix))) (ix_at ix)"
  by (simp add: observe_absent_def Let_def case_prod_unfold ix_write_files split: option.split)

lemma observe_absent_unrecoverable_files:
  "ix_at (snd (observe_absent_unrecoverable p at ix)) =
     filed (changed_records (fst (observe_absent_unrecoverable p at ix))) (ix_at ix)"
  using observe_absent_files [of p at ix]
  by (auto simp: observe_absent_unrecoverable_def split: prod.split option.split)

lemma conflict_copy_files:
  "ix_at (snd (record_conflict_copy p e ix)) = filed [lc_record (fst (record_conflict_copy p e ix))] (ix_at ix)"
  by (simp only: record_conflict_copy_def Let_def ix_write_files)

lemma bump_files: "ix_at (snd (bump_over p vs s at ix)) = filed [lc_record (fst (bump_over p vs s at ix))] (ix_at ix)"
  by (simp only: bump_over_def Let_def ix_write_files)

lemma adopt_files: "ix_at (snd (adopt e ix)) = filed (found_records (fst (adopt e ix))) (ix_at ix)"
  by (auto simp: adopt_def Let_def ix_at_def)

lemma index_still [simp]: "ix_at (mark_announced ix) = ix_at ix" "ix_at (received_range n l h ix) = ix_at ix"
  by (simp_all add: mark_announced_def received_range_def)

lemmas index_files = observe_files observe_absent_files observe_absent_unrecoverable_files conflict_copy_files
  bump_files adopt_files

text \<open>What \<open>revert_pending\<close> puts back.\<close>

definition unfiled :: "reverted list \<Rightarrow> (rel_path \<Rightarrow> index_record option) \<Rightarrow> rel_path \<Rightarrow> index_record option" where
  "unfiled rvs m = foldl (\<lambda>m rv. m(rv_path rv := rv_restored rv)) m rvs"

lemma revert_row_files:
  "ix_at (snd (foldl (\<lambda>st pr. revert_row pr st) st prs)) = foldl (\<lambda>m pr. m(fst pr := pd_announced (snd pr))) (ix_at (snd st)) prs"
proof (induction prs arbitrary: st)
  case (Cons pr prs)
  have "ix_at (snd (revert_row pr st)) = (ix_at (snd st))(fst pr := pd_announced (snd pr))"
    by (auto simp: ix_at_def revert_row_state)
  with Cons show ?case by simp
qed simp

lemma revert_files: "ix_at (snd (revert_pending ix)) = unfiled (fst (revert_pending ix)) (ix_at ix)"
proof -
  define undo where "undo = (\<lambda>pr :: rel_path \<times> pending. \<lparr>rv_path = fst pr,
     rv_current = map_option ir_entry (bm_get (ix_records ix) (fst pr)), rv_restored = pd_announced (snd pr)\<rparr>)"
  have "foldl (\<lambda>m pr. m(fst pr := pd_announced (snd pr))) m prs = unfiled (map undo prs) m" for m prs
    by (induction prs arbitrary: m) (simp_all add: unfiled_def undo_def)
  moreover have "fst (revert_pending ix) = map undo (bm_entries (ix_pending ix))"
    by (simp add: revert_pending_result undo_def case_prod_unfold)
  ultimately show ?thesis by (simp add: revert_pending_def revert_row_files)
qed

section \<open>Admitting writes no record\<close>

lemma files_updates [simp]:
  "files (f\<lparr>fo_rules := rs\<rparr>) = files f" "files (f\<lparr>fo_index := ix\<rparr>) = ix_at ix"
  "files (f\<lparr>fo_window := w\<rparr>) = files f" "files (f\<lparr>fo_scan := sc\<rparr>) = files f"
  "files (f\<lparr>fo_wants := wl\<rparr>) = files f" "files (f\<lparr>fo_acked := a\<rparr>) = files f"
  "files (f\<lparr>fo_catchup := c\<rparr>) = files f" "files (f\<lparr>fo_deferred := ds\<rparr>) = files f"
  "files (f\<lparr>fo_winner_fallbacks := n\<rparr>) = files f" "files (f\<lparr>fo_quarantine := q\<rparr>) = files f"
  "files (f\<lparr>fo_paused := p\<rparr>) = files f" "files (f\<lparr>fo_statuses := st\<rparr>) = files f"
  "files (f\<lparr>fo_startup_scan := b\<rparr>) = files f" "files (f\<lparr>fo_unobserved := u\<rparr>) = files f"
  "files (f\<lparr>fo_observing := u\<rparr>) = files f" "files (f\<lparr>fo_reported := r\<rparr>) = files f"
  "files (f\<lparr>fo_last_observed := r\<rparr>) = files f" "files (f\<lparr>fo_record_written := r\<rparr>) = files f"
  "files (f\<lparr>fo_disk_full := b\<rparr>) = files f" "files (f\<lparr>fo_queued := qs\<rparr>) = files f"
  by (simp_all add: files_def)

lemma files_touched [simp]: "files (fo_touched now f) = files f" "files (push_status st f) = files f"
  "files (count_fallback c f) = files f" "files (insert_want w f) = files f"
  by (simp_all add: fo_touched_def push_status_def count_fallback_def insert_want_def)

lemma files_want [simp]: "files (fo_want_as item received b src sh mark f) = files f"
  "files (fo_want item received b src sh f) = files f"
  by (simp_all add: fo_want_def fo_want_as_def Let_def case_prod_unfold split: option.split prod.split)

lemma files_admit_one: "files (snd (snd (admit_one brake st c))) = files (snd (snd st))"
  by (simp add: admit_one_def Let_def case_prod_unfold split: option.split)

lemma files_fold:
  assumes "\<And>s x. files (h (g s x)) = files (h s)"
  shows "files (h (foldl g s xs)) = files (h s)"
  using assms by (induction xs arbitrary: s) auto

lemma files_want_all [simp]: "files (want_all b src sh raws items f) = files f"
  unfolding want_all_def by (subst files_fold [where h = snd]) (auto simp: Let_def split: prod.split)

lemma files_admit_group: "files (admit_group now brake f grp) = files f"
  by (simp add: admit_group_def Let_def case_prod_unfold split: verdict.split)

lemma files_admit [simp]: "files (admit now cs brake f) = files f"
proof -
  have "files (foldl (\<lambda>f (b, n). push_status (StJoinedHeld b n) f) g xs) = files g" for g xs
    by (rule files_fold [where h = "\<lambda>f. f"]) (simp split: prod.split)
  moreover have "files (foldl (admit_group now brake) g xs) = files g" for g xs
    by (rule files_fold [where h = "\<lambda>f. f"]) (rule files_admit_group)
  moreover have "files (snd (snd (foldl (admit_one brake) st xs))) = files (snd (snd st))" for st xs
    by (rule files_fold [where h = "\<lambda>st. snd (snd st)"]) (rule files_admit_one)
  ultimately show ?thesis by (simp add: admit_def Let_def case_prod_unfold)
qed

lemma files_classify_deferred [simp]: "files (snd (classify_deferred ds f)) = files f"
  unfolding classify_deferred_def
  by (subst files_fold [where h = snd]) (auto simp: Let_def split: prod.split option.split)

lemma files_reconsider [simp]: "files (reconsider now p r f) = files f" "files (rederive now old f) = files f"
  "files (reclassify_want now p f) = files f" "files (unfreeze now f) = files f"
  by (simp_all add: reconsider_def rederive_def reclassify_want_def unfreeze_def Let_def case_prod_unfold
      split: option.split prod.split)

lemma files_carriers [simp]: "files (rewant_carriers p f) = files f" "files (clear_carriers p f) = files f"
  "files (snd (unmark p f)) = files f"
proof -
  have "files (foldl (\<lambda>f d. case df_restoring d of None \<Rightarrow> f
      | Some e \<Rightarrow> fo_want_as \<lparr>ai_entry = e, ai_mode = Fetch, ai_conflict = None\<rparr> (df_entry d) (df_batch d)
            (df_source d) (df_seq_high d) (Some (df_trashed d)) f) g ds) = files g" for g and ds :: "deferred list"
    by (rule files_fold [where h = "\<lambda>f. f"]) (simp split: option.split)
  then show "files (rewant_carriers p f) = files f" by (simp add: rewant_carriers_def Let_def case_prod_unfold)
qed (simp_all add: clear_carriers_def unmark_def Let_def case_prod_unfold)

lemma ix_files: "ix_at (fo_index f) = files f"
  by (simp add: files_def)

section \<open>Observations\<close>

lemma land_files: "files (snd (land now p ob f)) = filed (found_records (fst (land now p ob f))) (files f)"
proof (cases "ix_live (fo_index f) p")
  case (Some r)
  have still: "ix_at (snd (adopt e ix)) = ix_at ix" if "fst (adopt e ix) = None" for e ix
    by (simp add: adopt_files that)
  have new: "ix_at (snd (adopt e ix)) = (ix_at ix)(e_path (ir_entry r) := Some r)" if "fst (adopt e ix) = Some r" for e ix r
    by (simp add: adopt_files that)
  show ?thesis
    by (auto simp: land_def Some Let_def case_prod_unfold still new ix_files split: option.split)
qed (simp add: land_def)

text \<open>The records of a scan's report, in the order the engine hands them on.\<close>

definition scan_records :: "scanned \<Rightarrow> index_record list" where
  "scan_records sc = sc_ancestors sc @ changed_records (sc_change sc) @ found_records (sc_landed sc)"

lemma scan_records_default [simp]: "scan_records scanned_default = []"
  "scan_records (scanned_default\<lparr>sc_status := st\<rparr>) = []"
  "scan_records (scanned_default\<lparr>sc_landed := r\<rparr>) = found_records r"
  "scan_records (scanned_default\<lparr>sc_change := c\<rparr>) = changed_records c"
  by (simp_all add: scan_records_def scanned_default_def)

lemma take_write_files:
  "files (snd (take_write now p s ob marked f)) = filed (scan_records (fst (take_write now p s ob marked f))) (files f)"
  by (simp add: take_write_def Let_def case_prod_unfold index_files ix_files split: option.split scan_state.split)

lemma take_settled_files:
  "files (snd (take_settled now p s ob marked f)) = filed (scan_records (fst (take_settled now p s ob marked f))) (files f)"
  using land_files [of now p _ f]
  by (simp add: take_settled_def Let_def case_prod_unfold take_write_files split: option.split)

lemma take_one_files:
  "files (snd (take_one now at p s ob f)) = filed (scan_records (fst (take_one now at p s ob f))) (files f)"
  by (simp add: take_one_def Let_def take_settled_files split: scan_state.split)

lemma default_sole [simp]: "sc_ancestors scanned_default = []"
  by (simp add: scanned_default_def)

lemma take_one_sole: "sc_ancestors (fst (take_one now at p s ob f)) = []"
proof -
  have w: "sc_ancestors (fst (take_write now p s ob marked g)) = []" for s marked g
    by (simp add: take_write_def Let_def case_prod_unfold)
  have t: "sc_ancestors (fst (take_settled now p s ob marked g)) = []" for s marked g
    by (simp add: take_settled_def Let_def case_prod_unfold w split: option.split)
  show ?thesis
    by (cases s) (simp_all add: take_one_def Let_def t)
qed

lemma take_ancestor_files:
  assumes "files (snd st) = filed (fst st) m"
  shows "files (snd (take_ancestor now at ob st d)) = filed (fst (take_ancestor now at ob st d)) m"
proof -
  obtain rs f where st: "st = (rs, f)" by fastforce
  obtain sc g where one: "take_one now at d (Observed dir_observed) ob f = (sc, g)" by fastforce
  have sole: "sc_ancestors sc = []" using take_one_sole [of now at d _ ob f] by (metis one fst_conv)
  have "files g = filed (scan_records sc) (files f)" using take_one_files [of now at d _ ob f] by (metis one fst_conv snd_conv)
  then show ?thesis
    using assms sole
    by (simp add: take_ancestor_def Let_def st one records_fold scan_records_def)
qed

lemma take_observation_files:
  "files (snd (take_observation now at p s ob f)) =
     filed (scan_records (fst (take_observation now at p s ob f))) (files f)"
proof -
  have up: "files (snd (foldl (take_ancestor now at ob) st ds)) = filed (fst (foldl (take_ancestor now at ob) st ds)) m"
    if "files (snd st) = filed (fst st) m" for st ds m
    using that by (induction ds arbitrary: st) (simp_all add: take_ancestor_files)
  have "scan_records (sc\<lparr>sc_ancestors := rs\<rparr>) = rs @ scan_records sc" if "sc_ancestors sc = []" for sc rs
    using that by (simp add: scan_records_def)
  with take_one_sole show ?thesis
    using up [of "([], _)"] by (simp add: take_observation_def Let_def case_prod_unfold take_one_files)
qed

lemma observe_found_files:
  "files (snd (observe_found now at p found f)) = filed (fst (observe_found now at p found f)) (files f)"
  using take_observation_files [of now at p found Guard f]
  by (simp add: observe_found_def Let_def case_prod_unfold records_fold scan_records_def)

definition change_records :: "local_change list \<Rightarrow> index_record list" where
  "change_records cs = map lc_record cs"

lemma change_records_simps [simp]: "change_records [] = []" "change_records (cs @ ds) = change_records cs @ change_records ds"
  "change_records [c] = [lc_record c]"
  by (simp_all add: change_records_def)

lemma tombstone_gone_files:
  assumes "files (snd st) = filed (change_records (fst st)) m"
  shows "files (snd (tombstone_gone now st p)) = filed (change_records (fst (tombstone_gone now st p))) m"
  using assms
  by (simp add: tombstone_gone_def Let_def case_prod_unfold index_files ix_files split: option.split)

lemma scan_finished_files:
  "files (snd (scan_finished now f)) = (case fst (scan_finished now f) of
     Inr cs \<Rightarrow> filed (change_records cs) (files f) | Inl _ \<Rightarrow> files f)"
proof (cases "fo_scan f")
  case (Some b)
  have gone: "files (snd (foldl (tombstone_gone now) st ps)) = filed (change_records (fst (foldl (tombstone_gone now) st ps))) m"
    if "files (snd st) = filed (change_records (fst st)) m" for st ps m
    using that by (induction ps arbitrary: st) (simp_all add: tombstone_gone_files)
  have "files (foldl (\<lambda>f p. reconsider now p ChangedUnderneath f) g ps) = files g"
    "files (foldl (\<lambda>f p. rewant_carriers p f) g ps) = files g" for g ps
    by (rule files_fold [where h = "\<lambda>f. f"], simp)+
  then show ?thesis
    using gone [of "([], f\<lparr>fo_scan := None\<rparr>)"]
    by (simp add: scan_finished_def Some Let_def case_prod_unfold)
qed (simp add: scan_finished_def)

lemma scan_still [simp]: "files (scan_started f) = files f" "files (snd (scan_aborted f)) = files f"
  by (simp_all add: scan_started_def scan_aborted_def)

section \<open>Sending, receiving and approving write no record\<close>

lemma files_send [simp]: "files (snd (form_batches now b f)) = files f"
  "files (snd (fo_expire now f)) = files f" "files (have_up_to n s f) = files f"
  "files (snd (catchup_batches now b f)) = files f" "files (acknowledged n s f) = files f"
  "files (fo_peer_gone n f) = files f" "files (fo_peer_connected n f) = files f"
  by (simp_all add: form_batches_def fo_expire_def have_up_to_def catchup_batches_def acknowledged_def
      fo_peer_gone_def fo_peer_connected_def ix_files Let_def case_prod_unfold)

lemma files_tick [simp]: "files (snd (fo_tick now b f)) = files f"
  by (simp add: fo_tick_def Let_def case_prod_unfold split: option.split verdict.split)

lemma files_receive [simp]: "files (snd (fo_receive now b f)) = files f"
proof -
  have "files (snd (receive_one b raw st item)) = files (snd st)" for raw st item
    by (simp add: receive_one_def Let_def case_prod_unfold split: option.split)
  then have "files (snd (foldl (receive_one b raw) st items)) = files (snd st)" for raw st items
    by (rule files_fold)
  moreover have "files (foldl (\<lambda>f item. fo_want item (raw item) i src sh f) g items) = files g"
    for g raw i src sh items
    by (rule files_fold [where h = "\<lambda>f. f"]) simp
  ultimately show ?thesis
    by (simp add: fo_receive_def Let_def case_prod_unfold ix_files split: verdict.split)
qed

lemma files_approve [simp]: "files (snd (fo_approve now b f)) = files f"
proof -
  have "files (snd (snd (approve_items item g))) = files g" for item g
    unfolding approve_items_def
    by (subst files_fold [where h = "\<lambda>st. snd (snd st)"]) (auto simp: Let_def split: prod.split)
  then show ?thesis by (simp add: fo_approve_def Let_def case_prod_unfold split: option.split)
qed

lemma files_decide [simp]: "files (snd (rules_changed rs f)) = files f" "files (snd (observe_requests f)) = files f"
  by (simp_all add: rules_changed_def observe_requests_def Let_def case_prod_unfold split: option.split)

section \<open>The two decisions\<close>

lemma deny_files:
  "files (snd (fo_deny now b f)) = (case fst (fo_deny now b f) of
     Some cs \<Rightarrow> filed (change_records cs) (files f) | None \<Rightarrow> files f)"
proof -
  have "ix_at (snd (foldl (deny_path now q) st ps)) = filed (change_records (fst (foldl (deny_path now q) st ps))) m"
    if "ix_at (snd st) = filed (change_records (fst st)) m" for q st ps m
    using that
    by (induction ps arbitrary: st) (simp_all add: deny_path_def Let_def case_prod_unfold bump_files)
  moreover have "files (foldl (\<lambda>f p. reclassify_want now p f) g ps) = files g" for g ps
    by (rule files_fold [where h = "\<lambda>f. f"]) simp
  ultimately show ?thesis
    by (simp add: fo_deny_def Let_def case_prod_unfold ix_files split: option.split)
qed

lemma revert_one_files:
  assumes "files (snd st) = filed (rg_written (fst st)) m"
  shows "files (snd (revert_one b others st rv)) = filed (rg_written (fst (revert_one b others st rv))) m"
  using assms
  by (simp add: revert_one_def Let_def case_prod_unfold index_files ix_files records_fold split: option.split)

lemma fo_revert_files:
  "files (snd (fo_revert now f)) = (case fst (fo_revert now f) of
     Some r \<Rightarrow> filed (ro_written r) (unfiled (ro_reverted r) (files f)) | None \<Rightarrow> files f)"
proof -
  have "files (snd (foldl (revert_one b others) st rvs)) = filed (rg_written (fst (foldl (revert_one b others) st rvs))) m"
    if "files (snd st) = filed (rg_written (fst st)) m" for b others st rvs m
    using that by (induction rvs arbitrary: st) (simp_all add: revert_one_files)
  moreover have "files (foldl (\<lambda>f old. rederive now old f) g ws) = files g" for g ws
    by (rule files_fold [where h = "\<lambda>f. f"]) simp
  ultimately show ?thesis
    by (simp add: fo_revert_def Let_def case_prod_unfold revert_files ix_files split: option.split)
qed

section \<open>Reports and dispatch\<close>

lemma files_failed [simp]: "files (fo_failed now p err f) = files f" "files (fo_progress now p v f) = files f"
  "files (snd (space_recovered f)) = files f"
  by (simp_all add: fo_failed_def fo_progress_def space_recovered_def Let_def)

lemma fetched_files:
  "files (snd (fo_fetched now p v report f)) = filed (changed_records (fr_unrecoverable (fst (fo_fetched now p v report f)))) (files f)"
  by (simp add: fo_fetched_def Let_def case_prod_unfold index_files ix_files split: fetch_report.split option.split)

lemma fo_adopt_files: "files (snd (fo_adopt now e f)) = filed (found_records (fst (fo_adopt now e f))) (files f)"
  by (simp add: fo_adopt_def Let_def case_prod_unfold adopt_files ix_files)

lemma files_report [simp]: "files (defer_changed_underneath w f) = files f" "files (bracket_committed p f) = files f"
  "files (report_at p at f) = files f"
  by (simp_all add: defer_changed_underneath_def bracket_committed_def report_at_def)

lemma land_commit_files:
  "files (snd (land_commit now at p w f)) = filed (fst (land_commit now at p w f)) (files f)"
  using fo_adopt_files [of now "w_entry w" f]
  by (auto simp: land_commit_def Let_def case_prod_unfold index_files ix_files split: option.split)

lemma applied_files: "files (snd (applied_at now p v at out f)) = filed (fst (applied_at now p v at out f)) (files f)"
  by (simp add: applied_at_def Let_def case_prod_unfold observe_found_files land_commit_files fo_adopt_files
      records_fold split: option.split apply_outcome.split bool.split)

lemma trashed_files: "files (snd (fo_trashed now p v at out f)) = filed (fst (fo_trashed now p v at out f)) (files f)"
  by (simp add: fo_trashed_def Let_def case_prod_unfold observe_found_files split: apply_outcome.split)

lemma keep_directories_files:
  "files (snd (keep_directories now f)) = filed (fst (keep_directories now f)) (files f)"
proof -
  have one: "files (snd (keep_directory now st p)) = filed (fst (keep_directory now st p)) m"
    if "files (snd st) = filed (fst st) m" for st p m
    using that by (simp add: keep_directory_def Let_def case_prod_unfold index_files ix_files records_fold)
  have "files (snd (foldl (keep_directory now) st ps)) = filed (fst (foldl (keep_directory now) st ps)) m"
    if "files (snd st) = filed (fst st) m" for st ps m
    using that by (induction ps arbitrary: st) (simp_all add: one)
  from this [of "([], f)" "files f"] show ?thesis by (simp add: keep_directories_def Let_def case_prod_unfold)
qed

lemma host_order_files:
  assumes "files (snd (snd st)) = filed (fst (snd st)) m"
  shows "files (snd (snd (host_order now st step))) = filed (fst (snd (host_order now st step))) m"
  using assms fo_adopt_files [of now _ "snd (snd st)"]
  by (auto simp: host_order_def Let_def case_prod_unfold split: want_step.split option.split)

lemma dispatch_files:
  "files (snd (fo_dispatch now peers f)) = filed (snd (fst (fo_dispatch now peers f))) (files f)"
proof -
  have "files (snd (snd (foldl (host_order now) st steps))) = filed (fst (snd (foldl (host_order now) st steps))) m"
    if "files (snd (snd st)) = filed (fst (snd st)) m" for st steps m
    using that by (induction steps arbitrary: st) (simp_all add: host_order_files)
  then show ?thesis by (simp add: fo_dispatch_def Let_def case_prod_unfold keep_directories_files)
qed

lemma files_drain [simp]: "files (snd (fo_pending_changes f)) = files f" "files (snd (fo_held_changes f)) = files f"
  "files (snd (fo_deferred_changes f)) = files f" "files (snd (fo_want_changes f)) = files f"
  "files (snd (take_statuses f)) = files f" "files (fo_wrote p now f) = files f"
  by (simp_all add: fo_pending_changes_def pending_changes_def changed_take_def fo_held_changes_def
      fo_deferred_changes_def fo_want_changes_def take_statuses_def fo_wrote_def ix_files Let_def case_prod_unfold)

end
