(* ===== verification/HostMirror.thy ===== *)
theory HostMirror
  imports FolderLogs FolderWrites EngineViews
begin

text \<open>
  The contract between the engine and the host's store (\<open>crates/engine/src/engine.rs\<close>, the \<open>...Changed\<close>
  actions; \<open>crates/engine/src/parts.rs\<close>): a host that applies the row actions of each event to the rows it
  has, in their order, always has the rows of every folder as they stand in the engine.
\<close>

section \<open>The host's rows\<close>

record host_rows =
  hr_files :: "rel_path \<Rightarrow> index_record option"
  hr_pending :: "rel_path \<Rightarrow> pending option"
  hr_wants :: "rel_path \<Rightarrow> want option"
  hr_deferred :: "rel_path \<Rightarrow> deferred list option"
  hr_held :: "batch_id \<times> held_state \<Rightarrow> held_row option"
  hr_rest :: "rest option"

definition no_rows :: host_rows where
  "no_rows = \<lparr>hr_files = \<lambda>_. None, hr_pending = \<lambda>_. None, hr_wants = \<lambda>_. None, hr_deferred = \<lambda>_. None,
     hr_held = \<lambda>_. None, hr_rest = None\<rparr>"

text \<open>What an action does to the rows of one folder.\<close>

fun host_take :: "folder_id \<Rightarrow> host_rows \<Rightarrow> action \<Rightarrow> host_rows" where
  "host_take fid h (AcIndexChanged fid' r) =
     (if fid' = fid then h\<lparr>hr_files := (hr_files h)(e_path (ir_entry r) := Some r)\<rparr> else h)"
| "host_take fid h (AcIndexRemoved fid' p) =
     (if fid' = fid then h\<lparr>hr_files := (hr_files h)(p := None)\<rparr> else h)"
| "host_take fid h (AcPendingChanged fid' p row) =
     (if fid' = fid then h\<lparr>hr_pending := (hr_pending h)(p := row)\<rparr> else h)"
| "host_take fid h (AcWantChanged fid' p w) =
     (if fid' = fid then h\<lparr>hr_wants := (hr_wants h)(p := w)\<rparr> else h)"
| "host_take fid h (AcDeferredChanged fid' p ds) =
     (if fid' = fid then h\<lparr>hr_deferred := (hr_deferred h)(p := ds)\<rparr> else h)"
| "host_take fid h (AcHeldChanged fid' b s row) =
     (if fid' = fid then h\<lparr>hr_held := (hr_held h)((b, s) := row)\<rparr> else h)"
| "host_take fid h (AcRestChanged fid' r) = (if fid' = fid then h\<lparr>hr_rest := Some r\<rparr> else h)"
| "host_take fid h _ = h"

definition host_takes :: "folder_id \<Rightarrow> host_rows \<Rightarrow> action list \<Rightarrow> host_rows" where
  "host_takes fid h out = foldl (host_take fid) h out"

lemma host_takes_append [simp]: "host_takes fid h (xs @ ys) = host_takes fid (host_takes fid h xs) ys"
  "host_takes fid h [] = h" "host_takes fid h (a # ys) = host_takes fid (host_take fid h a) ys"
  by (simp_all add: host_takes_def)

text \<open>The folder whose rows an action writes.\<close>

fun row_of :: "action \<Rightarrow> folder_id option" where
  "row_of (AcIndexChanged fid r) = Some fid"
| "row_of (AcIndexRemoved fid p) = Some fid"
| "row_of (AcPendingChanged fid p row) = Some fid"
| "row_of (AcWantChanged fid p w) = Some fid"
| "row_of (AcDeferredChanged fid p ds) = Some fid"
| "row_of (AcHeldChanged fid b s row) = Some fid"
| "row_of (AcRestChanged fid r) = Some fid"
| "row_of _ = None"

definition rows_for :: "folder_id \<Rightarrow> action list \<Rightarrow> bool" where
  "rows_for fid out \<longleftrightarrow> row_of ` set out \<subseteq> {None, Some fid}"

definition rowless :: "action list \<Rightarrow> bool" where
  "rowless out \<longleftrightarrow> row_of ` set out \<subseteq> {None}"

lemma host_take_other: "row_of a \<noteq> Some fid \<Longrightarrow> host_take fid h a = h"
  by (cases a) auto

lemma host_takes_other: "(\<And>a. a \<in> set out \<Longrightarrow> row_of a \<noteq> Some fid) \<Longrightarrow> host_takes fid h out = h"
  by (induction out) (auto simp: host_take_other)

lemma host_takes_rowless [simp]: "rowless out \<Longrightarrow> host_takes fid h out = h"
  by (rule host_takes_other) (force simp: rowless_def)

lemma host_takes_elsewhere: "rows_for fid' out \<Longrightarrow> fid' \<noteq> fid \<Longrightarrow> host_takes fid h out = h"
  by (rule host_takes_other) (force simp: rows_for_def)

lemma rowless_simps [simp]: "rowless []" "rowless (xs @ ys) \<longleftrightarrow> rowless xs \<and> rowless ys"
  "rowless (a # ys) \<longleftrightarrow> row_of a = None \<and> rowless ys"
  "rowless (map f zs) \<longleftrightarrow> (\<forall>z \<in> set zs. row_of (f z) = None)"
  "rowless (concat outs) \<longleftrightarrow> (\<forall>out \<in> set outs. rowless out)"
  by (auto simp: rowless_def)

lemma rows_for_simps [simp]: "rows_for fid []" "rows_for fid (xs @ ys) \<longleftrightarrow> rows_for fid xs \<and> rows_for fid ys"
  "rows_for fid (a # ys) \<longleftrightarrow> (row_of a = None \<or> row_of a = Some fid) \<and> rows_for fid ys"
  "rows_for fid (map f zs) \<longleftrightarrow> (\<forall>z \<in> set zs. row_of (f z) = None \<or> row_of (f z) = Some fid)"
  by (auto simp: rows_for_def)

lemma rowless_rows_for: "rowless out \<Longrightarrow> rows_for fid out"
  by (auto simp: rowless_def rows_for_def)

section \<open>What the host has while an event is being handled\<close>

text \<open>The host has every record as it stands, and of the other rows those that are not noted in a log.\<close>

definition behind :: "host_rows \<Rightarrow> folder \<Rightarrow> bool" where
  "behind h f \<longleftrightarrow> q_keyed (fo_quarantine f) \<and> ds_full (fo_deferred f) \<and> hr_files h = files f \<and>
     (\<forall>p. \<not> ix_noted (fo_index f) p \<longrightarrow> hr_pending h p = ix_row (fo_index f) p) \<and>
     (\<forall>p. \<not> wl_noted (fo_wants f) p \<longrightarrow> hr_wants h p = wl_get (fo_wants f) p) \<and>
     (\<forall>p. \<not> ds_noted (fo_deferred f) p \<longrightarrow> hr_deferred h p = ds_get (fo_deferred f) p) \<and>
     (\<forall>k. \<not> q_noted (fo_quarantine f) k \<longrightarrow> hr_held h k = q_at (fo_quarantine f) k)"

text \<open>What handling a part of an event does: it notes what it changes, hands on the records it writes, and
  writes no other folder's rows.\<close>

definition hands_on :: "folder_id \<Rightarrow> folder \<Rightarrow> action list \<times> folder \<Rightarrow> bool" where
  "hands_on fid f res \<longleftrightarrow> fo_logs f (snd res) \<and> rows_for fid (fst res) \<and>
     (\<forall>h. hr_files h = files f \<longrightarrow> host_takes fid h (fst res) = h\<lparr>hr_files := files (snd res)\<rparr>)"

lemma hands_on_behind:
  assumes "hands_on fid f (out, g)" and "behind h f"
  shows "behind (host_takes fid h out) g"
proof -
  have logs: "fo_logs f g" and h: "host_takes fid h out = h\<lparr>hr_files := files g\<rparr>"
    using assms by (auto simp: hands_on_def behind_def)
  from logs have "q_keyed (fo_quarantine f) \<Longrightarrow> q_keyed (fo_quarantine g) \<and> logged q_at q_noted (fo_quarantine f) (fo_quarantine g)"
    "logged ix_row ix_noted (fo_index f) (fo_index g)" "logged wl_get wl_noted (fo_wants f) (fo_wants g)"
    "ds_full (fo_deferred f) \<Longrightarrow> ds_full (fo_deferred g) \<and> logged ds_get ds_noted (fo_deferred f) (fo_deferred g)"
    by (simp_all add: fo_logs_def q_logs_def ix_logs_def wl_logs_def ds_logs_def)
  with assms(2) show ?thesis unfolding behind_def h logged_def by simp metis
qed

lemma hands_on_trans:
  assumes "hands_on fid f (out, g)" and "hands_on fid g (out2, k)"
  shows "hands_on fid f (out @ out2, k)"
  using assms fo_logs_trans by (auto simp: hands_on_def)

lemma hands_on_rowless: "rowless out \<Longrightarrow> fo_logs f g \<Longrightarrow> files g = files f \<Longrightarrow> hands_on fid f (out, g)"
  by (simp add: hands_on_def rowless_rows_for)

lemma host_takes_map:
  assumes "\<And>h z. host_take fid h (f z) = h\<lparr>hr_files := g z (hr_files h)\<rparr>"
  shows "host_takes fid h (map f zs) = h\<lparr>hr_files := foldl (\<lambda>m z. g z m) (hr_files h) zs\<rparr>"
  by (induction zs arbitrary: h) (simp_all add: assms)

lemma host_takes_records [simp]:
  "host_takes fid h (map (AcIndexChanged fid) rs) = h\<lparr>hr_files := filed rs (hr_files h)\<rparr>"
  "host_takes fid h (map (\<lambda>c. AcIndexChanged fid (lc_record c)) cs) = h\<lparr>hr_files := filed (change_records cs) (hr_files h)\<rparr>"
  by (simp_all add: host_takes_map [where g = "\<lambda>r m. m(e_path (ir_entry r) := Some r)"]
      host_takes_map [where g = "\<lambda>c m. m(e_path (ir_entry (lc_record c)) := Some (lc_record c))"]
      filed_def change_records_def foldl_map)

text \<open>A record is reverted to one of its own path, so the action writes where the engine did.\<close>

lemma host_takes_reverted:
  assumes "ix_ok ix"
  shows "host_takes fid h (map (index_write fid) (fst (revert_pending ix))) =
    h\<lparr>hr_files := unfiled (fst (revert_pending ix)) (hr_files h)\<rparr>"
proof -
  have own: "e_path (ir_entry r) = rv_path rv" if "rv \<in> set (fst (revert_pending ix))" "rv_restored rv = Some r" for rv r
    using that ix_okD(2) [OF assms held_announced] 
    by (auto simp: revert_pending_result in_bm_entries announced_view_def)
  have "host_takes fid h (map (index_write fid) rvs) = h\<lparr>hr_files := unfiled rvs (hr_files h)\<rparr>"
    if "\<And>rv r. rv \<in> set rvs \<Longrightarrow> rv_restored rv = Some r \<Longrightarrow> e_path (ir_entry r) = rv_path rv" for rvs
    using that
  proof (induction rvs arbitrary: h)
    case (Cons rv rvs)
    have "host_take fid h (index_write fid rv) = h\<lparr>hr_files := (hr_files h)(rv_path rv := rv_restored rv)\<rparr>"
      using Cons.prems [of rv] by (auto simp: index_write_def split: option.split)
    then show ?case using Cons by (simp add: unfiled_def)
  qed (simp add: unfiled_def)
  from this [OF own] show ?thesis by blast
qed

section \<open>The handling of each event in its folder\<close>

lemma decide_hands_on:
  assumes "fo_ok f"
  shows "hands_on fid f (decide fid now d f)"
proof (cases d)
  case (UDeny b)
  obtain res g where deny: "fo_deny now b f = (res, g)" by fastforce
  have "fo_logs f g" using fo_deny_logs [of f f now b] by (simp add: deny)
  moreover have "files g = (case res of Some cs \<Rightarrow> filed (change_records cs) (files f) | None \<Rightarrow> files f)"
    using deny_files [of now b f] by (simp add: deny)
  ultimately show ?thesis
    by (cases res) (simp_all add: hands_on_def decide_def UDeny deny)
next
  case (URevert b)
  have ix: "ix_ok (fo_index f)" using assms by (simp add: fo_ok_def)
  obtain res g where revert: "fo_revert now f = (res, g)" by fastforce
  have "fo_logs f g" using fo_revert_logs [of f f now] by (simp add: revert)
  moreover have "files g = (case res of
      Some r \<Rightarrow> filed (ro_written r) (unfiled (ro_reverted r) (files f)) | None \<Rightarrow> files f)"
    using fo_revert_files [of now f] by (simp add: revert)
  moreover have "ro_reverted r = fst (revert_pending (fo_index f))" if "res = Some r" for r
    using revert that by (auto simp: fo_revert_def Let_def case_prod_unfold split: option.splits)
  moreover have "row_of (index_write fid rv) = Some fid" for rv
    by (simp add: index_write_def split: option.split)
  ultimately show ?thesis
    using host_takes_reverted [OF ix]
    by (cases res) (simp_all add: hands_on_def decide_def URevert revert split: prod.split)
qed

lemma run_next_hands_on: "fo_ok f \<Longrightarrow> hands_on fid f (run_next fid now step f)"
  by (cases step) (simp_all add: run_next_def decide_hands_on hands_on_rowless)

lemma settle_hands_on: "fo_ok f \<Longrightarrow> hands_on fid f (settle_folder fid now f)"
proof (induction fid now f rule: settle_folder.induct)
  case (1 fid now f)
  obtain nx g where nx: "next_queued f = (nx, g)" by fastforce
  have g: "fo_ok g" "fo_logs f g" "files g = files f"
    using next_queued_ok [OF 1(2) nx] nx by (auto simp: next_queued_def split: option.splits prod.splits)
  show ?case
  proof (cases nx)
    case None
    then show ?thesis using g by (simp add: settle_folder.simps [of fid now f] nx hands_on_rowless)
  next
    case (Some step)
    obtain out h where run: "run_next fid now step g = (out, h)" by fastforce
    obtain out2 k where rest: "settle_folder fid now h = (out2, k)" by fastforce
    have "fo_ok h" using run_next_ok [OF g(1), of fid now step] by (simp add: run)
    then have "hands_on fid h (out2, k)"
      using 1(1) [OF nx [symmetric] Some refl run [symmetric]] by (simp add: rest)
    moreover have "hands_on fid g (out, h)" using run_next_hands_on [OF g(1), of fid now step] by (simp add: run)
    moreover have "hands_on fid f ([], g)" using g by (simp add: hands_on_rowless)
    ultimately have "hands_on fid f ([] @ out @ out2, k)" by (intro hands_on_trans)
    then show ?thesis by (simp add: settle_folder.simps [of fid now f] nx Some run rest Let_def)
  qed
qed

lemma request_hands_on:
  assumes "fo_ok f"
  shows "hands_on fid f (request_folder fid now d f)"
proof -
  obtain res g where r: "fo_request d f = (res, g)" by fastforce
  then have g: "fo_ok g" "fo_logs f g" "files g = files f"
    using fo_request_ok [OF assms r] by (auto simp: fo_request_def Let_def split: option.splits if_splits)
  have "hands_on fid f ([], g)" using g by (simp add: hands_on_rowless)
  from hands_on_trans [OF this, of "fst (decide fid now d g)" "snd (decide fid now d g)"]
  show ?thesis using decide_hands_on [OF g(1)] g
    by (cases res) (simp_all add: request_folder_def r hands_on_rowless)
qed

lemma scanned_hands_on: "hands_on fid f (scanned_folder fid now at p s f)"
proof -
  obtain sc g where o: "take_observation now at p s Scan f = (sc, g)" by fastforce
  have "fo_logs f g" using take_observation_logs [OF fo_logs_refl, of f now at p s Scan] by (simp add: o)
  moreover have "files g = filed (scan_records sc) (files f)"
    using take_observation_files [of now at p s Scan f] by (simp add: o)
  ultimately show ?thesis
    by (cases "sc_change sc"; cases "sc_landed sc"; cases "sc_status sc")
      (simp_all add: hands_on_def scanned_folder_def fo_observed_at_def o Let_def scan_records_def)
qed

lemma scan_hands_on: "hands_on fid f (scan_finished_folder fid now f)"
  "hands_on fid f (case scan_aborted f of
         (Some status, f) \<Rightarrow> ([AcStatusChanged fid status], f) | (None, f) \<Rightarrow> ([], f))"
  using scan_finished_files [of now f] scan_logs [OF fo_logs_refl, of f]
  by (auto simp: hands_on_def scan_finished_folder_def case_prod_unfold split: sum.split option.split)

lemma fetched_hands_on: "hands_on fid f (fetched_folder fid now p v report f)"
  using fetched_files [of now p v report f] fetched_logs(1) [OF fo_logs_refl, of f now p v report]
  by (auto simp: hands_on_def fetched_folder_def Let_def case_prod_unfold split: option.split)

lemma space_hands_on: "hands_on fid f (case space_recovered f of
    (Some status, f) \<Rightarrow> ([AcStatusChanged fid status], f) | (None, f) \<Rightarrow> ([], f))"
  using fetched_logs(2) [OF fo_logs_refl, of f] files_failed(3) [of f]
  by (auto simp: case_prod_unfold intro: hands_on_rowless split: option.split)

lemma rules_hands_on: "hands_on fid f (let (out, f) = rules_changed rs f in (map (AcStatusChanged fid) out, f))"
  using decide_logs(1) [OF fo_logs_refl, of f rs]
  by (simp add: case_prod_unfold Let_def hands_on_rowless)

lemma report_hands_on: "hands_on fid f (let (rs, f) = applied_at now p v at out f in (map (AcIndexChanged fid) rs, f))"
  "hands_on fid f (let (rs, f) = fo_trashed now p v at out f in (map (AcIndexChanged fid) rs, f))"
  using report_logs [OF fo_logs_refl, of f now p v at out]
  by (auto simp: hands_on_def case_prod_unfold Let_def applied_files trashed_files)

lemma receive_hands_on: "hands_on fid f (receive_folder now n b f)"
  unfolding receive_folder_def Let_def case_prod_unfold
  by (rule hands_on_rowless) (auto split: option.split)

lemma silent_hands_on: "fo_logs f (g f) \<Longrightarrow> files (g f) = files f \<Longrightarrow> hands_on fid f (silently g f)"
  by (simp add: silently_def hands_on_rowless)

section \<open>The handling of each event in the engine\<close>

definition fed :: "(folder_id \<Rightarrow> host_rows) \<Rightarrow> action list \<Rightarrow> folder_id \<Rightarrow> host_rows" where
  "fed R out fid = host_takes fid (R fid) out"

lemma fed_simps [simp]: "fed R [] = R" "fed (fed R out) out' = fed R (out @ out')" "rowless out \<Longrightarrow> fed R out = R"
  by (simp_all add: fed_def fun_eq_iff)

definition trails :: "(folder_id \<Rightarrow> host_rows) \<Rightarrow> engine \<Rightarrow> bool" where
  "trails R e \<longleftrightarrow> (\<forall>fid. hr_rest (R fid) = bm_get (en_rested e) fid \<and>
     (case bm_get (en_folders e) fid of Some f \<Rightarrow> behind (R fid) f | None \<Rightarrow> R fid = no_rows))"

lemma trailsD:
  assumes "trails R e"
  shows "hr_rest (R fid) = bm_get (en_rested e) fid"
    and "bm_get (en_folders e) fid = Some f \<Longrightarrow> behind (R fid) f"
    and "bm_get (en_folders e) fid = None \<Longrightarrow> R fid = no_rows"
  using assms [unfolded trails_def, rule_format, of fid] by auto

lemma trails_updates [simp]: "trails R (e\<lparr>en_peers := ps\<rparr>) = trails R e" "trails R (e\<lparr>en_woke := w\<rparr>) = trails R e"
  "trails R (e\<lparr>en_now := t\<rparr>) = trails R e"
  by (simp_all add: trails_def)

lemma hands_on_rest: "hands_on fid f (out, g) \<Longrightarrow> behind h f \<Longrightarrow> hr_rest (host_takes fid h out) = hr_rest h"
  by (simp add: hands_on_def behind_def)

lemma trails_insert:
  assumes "trails R e" and f: "bm_get (en_folders e) fid = Some f" and g: "hands_on fid f (out, g)"
  shows "trails (fed R out) (e\<lparr>en_folders := bm_insert fid g (en_folders e)\<rparr>)"
  unfolding trails_def
proof
  fix fid'
  have behind: "behind (R fid) f" using trailsD(2) [OF assms(1) f] .
  have other: "fed R out fid' = R fid'" if "fid' \<noteq> fid"
    using g that by (auto simp: fed_def hands_on_def intro: host_takes_elsewhere)
  show "hr_rest (fed R out fid') = bm_get (en_rested (e\<lparr>en_folders := bm_insert fid g (en_folders e)\<rparr>)) fid' \<and>
    (case bm_get (en_folders (e\<lparr>en_folders := bm_insert fid g (en_folders e)\<rparr>)) fid' of
       Some f \<Rightarrow> behind (fed R out fid') f | None \<Rightarrow> fed R out fid' = no_rows)"
    using trailsD [OF assms(1), of fid'] hands_on_behind [OF g behind] hands_on_rest [OF g behind] other
    by (cases "fid' = fid") (auto simp: fed_def split: option.split)
qed

lemma trails_on_folder:
  assumes "trails R e" and "\<And>f. bm_get (en_folders e) fid = Some f \<Longrightarrow> hands_on fid f (g f)"
  shows "trails (fed R (fst (on_folder fid g e))) (snd (on_folder fid g e))"
proof (cases "bm_get (en_folders e) fid")
  case (Some f)
  obtain out h where g: "g f = (out, h)" by fastforce
  then have "hands_on fid f (out, h)" using assms(2) [OF Some] by simp
  from trails_insert [OF assms(1) Some this] show ?thesis by (simp add: on_folder_def Some g)
qed (simp add: on_folder_def assms(1) unknown_folder_def)

text \<open>Every folder at once, or one after the other.\<close>

lemma host_takes_each:
  assumes "\<And>fid' f. (fid', f) \<in> set rows \<Longrightarrow> rows_for fid' (g fid' f)" and "distinct (map fst rows)"
  shows "host_takes fid h (concat (map (\<lambda>(fid', f). g fid' f) rows)) =
    (case map_of rows fid of Some f \<Rightarrow> host_takes fid h (g fid f) | None \<Rightarrow> h)"
  using assms
proof (induction rows arbitrary: h)
  case (Cons row rows)
  obtain fid' f where row: "row = (fid', f)" by fastforce
  have IH: "host_takes fid h (concat (map (\<lambda>(fid', f). g fid' f) rows)) =
    (case map_of rows fid of Some f \<Rightarrow> host_takes fid h (g fid f) | None \<Rightarrow> h)" for h
    using Cons.prems by (intro Cons.IH) auto
  show ?case
  proof (cases "fid' = fid")
    case True
    then have "map_of rows fid = None" using Cons.prems(2) by (simp add: row map_of_eq_None_iff)
    with True IH show ?thesis by (simp add: row)
  next
    case False
    with Cons.prems(1) [of fid' f] IH show ?thesis by (simp add: row host_takes_elsewhere)
  qed
qed simp

lemma each_folder_rows:
  assumes "\<And>fid f. bm_get (en_folders e) fid = Some f \<Longrightarrow> rows_for fid (fst (g fid f))"
  shows "fed R (fst (each_folder g e)) fid = (case bm_get (en_folders e) fid of
      Some f \<Rightarrow> host_takes fid (R fid) (fst (g fid f)) | None \<Rightarrow> R fid)"
  unfolding fed_def each_folder_def fst_conv bm_get_def [of "en_folders e"]
  by (rule host_takes_each [OF _ bm.entries_distinct]) (simp add: assms in_bm_entries)

lemma each_folder_state [simp]:
  "bm_get (en_folders (snd (each_folder g e))) fid = map_option (\<lambda>f. snd (g fid f)) (bm_get (en_folders e) fid)"
  "en_rested (snd (each_folder g e)) = en_rested e"
  by (simp_all add: each_folder_def)

lemma trails_each_folder:
  assumes "trails R e" and g: "\<And>fid f. bm_get (en_folders e) fid = Some f \<Longrightarrow> hands_on fid f (g fid f)"
  shows "trails (fed R (fst (each_folder g e))) (snd (each_folder g e))"
  unfolding trails_def
proof
  fix fid
  have rows: "fed R (fst (each_folder g e)) fid = (case bm_get (en_folders e) fid of
      Some f \<Rightarrow> host_takes fid (R fid) (fst (g fid f)) | None \<Rightarrow> R fid)"
    using g by (intro each_folder_rows) (simp add: hands_on_def)
  show "hr_rest (fed R (fst (each_folder g e)) fid) = bm_get (en_rested (snd (each_folder g e))) fid \<and>
    (case bm_get (en_folders (snd (each_folder g e))) fid of
       Some f \<Rightarrow> behind (fed R (fst (each_folder g e)) fid) f | None \<Rightarrow> fed R (fst (each_folder g e)) fid = no_rows)"
  proof (cases "bm_get (en_folders e) fid")
    case (Some f)
    obtain out h where o: "g fid f = (out, h)" by fastforce
    have "hands_on fid f (out, h)" using g [OF Some] by (simp add: o)
    then show ?thesis
      using trailsD(1,2) [OF assms(1), of fid] Some hands_on_behind hands_on_rest
      by (simp add: rows o)
  next
    case None
    then show ?thesis
      using trailsD(1,3) [OF assms(1), of fid] by (simp add: rows)
  qed
qed

lemma trails_settle:
  assumes "trails R e" and "en_ok e"
  shows "trails (fed R (fst (settle now e))) (snd (settle now e))"
  unfolding settle_def using assms(1)
  by (rule trails_each_folder) (use assms(2) in \<open>simp add: en_ok_def settle_hands_on\<close>)

lemma rowless_statuses [simp]: "rowless (map (\<lambda>p. AcStatusChanged fid (st p)) ps)"
  by simp

lemma send_batches_rowless [simp]: "rowless (send_batches fid batches e)"
  by (auto simp: send_batches_def Let_def split: option.split)

lemma tick_folder_trails:
  assumes "trails R e" and "rowless out"
  shows "trails R (snd (snd (tick_folder now fresh (out, used, e) fid))) \<and>
    rowless (fst (tick_folder now fresh (out, used, e) fid))"
proof (cases "bm_get (en_folders e) fid")
  case (Some f)
  obtain ex f1 where f1: "fo_expire now f = (ex, f1)" by fastforce
  obtain c n f2 where f2: "catchup_batches now (batch_successor fresh used) f1 = ((c, n), f2)"
    by (metis surj_pair)
  obtain t f3 where f3: "fo_tick now (batch_successor fresh (used + n)) f2 = (t, f3)" by fastforce
  have "fo_logs f f1" "files f1 = files f"
    using send_logs(2) [OF fo_logs_refl, of f now] files_send(2) [of now f] by (simp_all add: f1)
  then have "fo_logs f f2" "files f2 = files f"
    using send_logs(4) [of f f1 now "batch_successor fresh used"] files_send(4) [of now "batch_successor fresh used" f1]
    by (simp_all add: f2)
  then have "fo_logs f f3" "files f3 = files f"
    using fo_tick_logs [of f f2 now "batch_successor fresh (used + n)"]
      files_tick [of now "batch_successor fresh (used + n)" f2]
    by (simp_all add: f3)
  then have "hands_on fid f ([], f3)" by (simp add: hands_on_rowless)
  then have "trails R (e\<lparr>en_folders := bm_insert fid f3 (en_folders e)\<rparr>)"
    using trails_insert [OF assms(1) Some] by force
  then show ?thesis
    using assms(2) unfolding tick_folder_def prod.case Let_def Some option.case f1 f2 f3
    by (cases t) (auto split: prod.split)
qed (simp add: tick_folder_def assms)

lemma en_tick_trails:
  assumes "trails R e"
  shows "trails R (snd (en_tick now fresh e)) \<and> rowless (fst (en_tick now fresh e))"
proof -
  have fold: "trails R e1 \<Longrightarrow> rowless out \<Longrightarrow> foldl (tick_folder now fresh) (out, used, e1) ks = (out', used', e') \<Longrightarrow>
      trails R e' \<and> rowless out'" for out used e1 ks out' used' e'
  proof (induction ks arbitrary: out used e1)
    case (Cons k ks)
    obtain o2 u2 e2 where t: "tick_folder now fresh (out, used, e1) k = (o2, u2, e2)"
      by (metis prod_cases3)
    have "trails R e2 \<and> rowless o2" using tick_folder_trails [OF Cons.prems(1,2), of now fresh used k] t by simp
    then show ?case using Cons.IH [of e2 o2 u2] Cons.prems(3) t by simp
  qed simp
  define e1 where "e1 = e\<lparr>en_woke := bm_empty\<rparr>"
  obtain out used e' where f: "foldl (tick_folder now fresh) ([], 0, e1) (bm_keys (en_folders e1)) = (out, used, e')"
    by (rule prod_cases3)
  have "trails R e1" using assms by (simp add: e1_def)
  then have "trails R e' \<and> rowless out" by (rule fold [OF _ _ f]) simp
  moreover have keys: "bm_keys (en_folders e) = bm_keys (en_folders e1)" by (simp add: e1_def)
  have "en_tick now fresh e = (out, e')"
    unfolding en_tick_def e1_def [symmetric] keys f Let_def prod.case ..
  ultimately show ?thesis by simp
qed

lemma folder_new_behind: "behind no_rows (folder_new fid rs ms own host)"
  by (auto simp: behind_def folder_new_def no_rows_def files_def ix_at_def index_new_def ix_row_def wl_get_def wl_default_def
      ds_get_def ds_full_def ds_default_def q_default_def q_at_def q_row_def q_keyed_def items_keyed_def denied_keyed_def
      fun_eq_iff opt_filter_def split: prod.split held_state.split)

lemma trails_peers:
  assumes "trails R e" and g: "\<And>f. fo_logs f (g f)" "\<And>f. files (g f) = files f"
  shows "trails R (snd (each_folder (\<lambda>_ f. ([], g f)) e))"
proof -
  have "trails (fed R (fst (each_folder (\<lambda>_ f. ([], g f)) e))) (snd (each_folder (\<lambda>_ f. ([], g f)) e))"
    using assms(1) by (rule trails_each_folder) (simp add: hands_on_rowless g)
  moreover have "rowless (fst (each_folder (\<lambda>_ f. ([], g f)) e))"
    by (auto simp: each_folder_def)
  ultimately show ?thesis by simp
qed

lemma trails_take_event:
  assumes T: "trails R e" and ok: "en_ok e"
  shows "trails (fed R (fst (take_event now ev e))) (snd (take_event now ev e))"
proof (cases ev)
  case (EvFolderJoined fid rs ms)
  have "trails R (e\<lparr>en_folders := bm_insert fid (folder_new fid rs ms own host) (en_folders e)\<rparr>)"
    if "bm_get (en_folders e) fid = None" for own host
    unfolding trails_def
  proof
    fix fid'
    show "hr_rest (R fid') = bm_get (en_rested (e\<lparr>en_folders := bm_insert fid (folder_new fid rs ms own host) (en_folders e)\<rparr>)) fid' \<and>
      (case bm_get (en_folders (e\<lparr>en_folders := bm_insert fid (folder_new fid rs ms own host) (en_folders e)\<rparr>)) fid' of
         Some f \<Rightarrow> behind (R fid') f | None \<Rightarrow> R fid' = no_rows)"
      using trailsD [OF T, of fid'] that folder_new_behind by (auto split: option.split)
  qed
  with T show ?thesis by (simp add: EvFolderJoined bm_has_def)
next
  case (EvTick b)
  with en_tick_trails [OF T, of now b] show ?thesis by simp
next
  case (EvPeerConnected n t)
  have "trails R (snd (each_folder (\<lambda>_ f. ([], fo_peer_connected n f)) (e\<lparr>en_peers := bm_insert n t (en_peers e)\<rparr>)))"
    by (rule trails_peers) (simp_all add: T)
  moreover have "rowless (fst (peer_connected n t e))"
    by (auto simp: peer_connected_def Let_def rowless_def List.map_filter_def split: if_splits)
  ultimately show ?thesis by (simp add: EvPeerConnected) (simp add: peer_connected_def Let_def)
next
  case (EvPeerDisconnected n)
  have "trails R (snd (each_folder (\<lambda>_ f. ([], fo_peer_gone n f)) (e\<lparr>en_peers := bm_remove n (en_peers e)\<rparr>)))"
    by (rule trails_peers) (simp_all add: T)
  then show ?thesis by (simp add: EvPeerDisconnected)
next
  case (EvApprove fid b)
  show ?thesis
  proof (cases "bm_get (en_folders e) fid")
    case (Some f)
    obtain res g where g: "fo_approve now b f = (res, g)" by fastforce
    have "fo_logs f g" "files g = files f"
      using fo_approve_logs [OF fo_logs_refl, of f now b] files_approve [of now b f] by (simp_all add: g)
    then have "hands_on fid f ([], g)" by (simp add: hands_on_rowless)
    then have "trails R (e\<lparr>en_folders := bm_insert fid g (en_folders e)\<rparr>)"
      using trails_insert [OF T Some] by force
    then show ?thesis by (simp add: EvApprove en_approve_def Some g Let_def split: approved.split)
  qed (simp add: EvApprove en_approve_def unknown_folder_def T)
next
  case (EvRevert fid)
  have "hands_on fid f (case fo_paused f of
         Some p \<Rightarrow> request_folder fid now (URevert (pz_batch p)) f
       | None \<Rightarrow> ([AcStatusChanged fid StNotPaused], f))" if "bm_get (en_folders e) fid = Some f" for f
    using ok that by (simp add: en_ok_def request_hands_on hands_on_rowless split: option.split)
  then show ?thesis using trails_on_folder [OF T] by (simp add: EvRevert)
next
  case (EvDeny fid b)
  have "hands_on fid f (if bm_has (q_items (fo_quarantine f)) b then request_folder fid now (UDeny b) f
       else ([AcStatusChanged fid (StUnknownBatch b)], f))" if "bm_get (en_folders e) fid = Some f" for f
    using ok that by (simp add: en_ok_def request_hands_on hands_on_rowless)
  then show ?thesis using trails_on_folder [OF T] by (simp add: EvDeny)
next
  case (EvPeerTierChanged n t)
  with T show ?thesis by simp
qed (simp_all only: take_event.simps, (rule trails_on_folder [OF T],
    (rule scanned_hands_on scan_hands_on fetched_hands_on space_hands_on rules_hands_on report_hands_on
      receive_hands_on | (rule silent_hands_on, simp, simp)))+)

section \<open>What the drains hand on\<close>

lemma host_takes_wants [simp]: "host_takes fid h (map (\<lambda>(p, w). AcWantChanged fid p w) rows) =
    h\<lparr>hr_wants := replay rows (hr_wants h)\<rparr>"
  by (induction rows arbitrary: h) auto

lemma host_takes_pending [simp]: "host_takes fid h (map (\<lambda>(p, row). AcPendingChanged fid p row) rows) =
    h\<lparr>hr_pending := replay rows (hr_pending h)\<rparr>"
  by (induction rows arbitrary: h) auto

lemma host_takes_deferred [simp]: "host_takes fid h (map (\<lambda>(p, ds). AcDeferredChanged fid p ds) rows) =
    h\<lparr>hr_deferred := replay rows (hr_deferred h)\<rparr>"
  by (induction rows arbitrary: h) auto

lemma host_takes_held [simp]: "host_takes fid h (map (\<lambda>((b, s), row). AcHeldChanged fid b s row) rows) =
    h\<lparr>hr_held := replay rows (hr_held h)\<rparr>"
  by (induction rows arbitrary: h) auto

text \<open>After \<open>pump\<close> the host has the want-list as it stands, and nothing before the next event changes it.\<close>

lemma pump_behind:
  assumes "behind h f"
  shows "behind (host_takes fid h (fst (pump_folder now peers fid f))) (snd (pump_folder now peers fid f))"
    and "hr_wants (host_takes fid h (fst (pump_folder now peers fid f))) = wl_get (fo_wants (snd (pump_folder now peers fid f)))"
    and "wl_changed (fo_wants (snd (pump_folder now peers fid f))) = []"
    and "hr_rest (host_takes fid h (fst (pump_folder now peers fid f))) = hr_rest h"
    and "rows_for fid (fst (pump_folder now peers fid f))"
proof -
  obtain steps adopted f1 where d: "fo_dispatch now peers f = ((steps, adopted), f1)" by (metis surj_pair)
  obtain wants wl where w: "wl_drain_changes (fo_wants f1) = (wants, wl)" by fastforce
  define h1 where "h1 = h\<lparr>hr_files := files f1\<rparr>"
  have out: "fst (pump_folder now peers fid f) = map (host_action fid) steps @ map (AcIndexChanged fid) adopted @
      map (\<lambda>(p, w). AcWantChanged fid p w) wants @ map (AcStatusChanged fid) (fo_statuses f1)"
    and g: "snd (pump_folder now peers fid f) = f1\<lparr>fo_wants := wl, fo_statuses := []\<rparr>"
    by (simp_all add: pump_folder_def d fo_want_changes_def w take_statuses_def)
  have none: "row_of (host_action fid s) = None" for s by (simp add: host_action_def split: host_step.split)
  have "fo_logs f f1" "files f1 = filed adopted (files f)"
    using fo_dispatch_logs [OF fo_logs_refl, of f now peers] dispatch_files [of now peers f] by (simp_all add: d)
  then have "hands_on fid f (map (host_action fid) steps @ map (AcIndexChanged fid) adopted, f1)"
    by (simp add: hands_on_def none)
  moreover have files: "hr_files h = files f" using assms by (simp add: behind_def)
  ultimately have b1: "behind h1 f1"
    using hands_on_behind [OF _ assms] \<open>files f1 = filed adopted (files f)\<close> by (force simp: h1_def none)
  have "replay wants (hr_wants h) = wl_get wl"
    by (rule want_hook.caught_up [OF _ w]) (use b1 in \<open>simp add: behind_def h1_def\<close>)
  moreover have h: "host_takes fid h (fst (pump_folder now peers fid f)) = h1\<lparr>hr_wants := replay wants (hr_wants h)\<rparr>"
    using files \<open>files f1 = filed adopted (files f)\<close> by (simp add: out h1_def none)
  moreover have empty: "wl_changed wl = []" using w by (auto simp: wl_drain_changes_def)
  ultimately show "hr_wants (host_takes fid h (fst (pump_folder now peers fid f))) = wl_get (fo_wants (snd (pump_folder now peers fid f)))"
    and "wl_changed (fo_wants (snd (pump_folder now peers fid f))) = []"
    and "behind (host_takes fid h (fst (pump_folder now peers fid f))) (snd (pump_folder now peers fid f))"
    using b1 by (simp_all add: g behind_def files_def h1_def)
  show "hr_rest (host_takes fid h (fst (pump_folder now peers fid f))) = hr_rest h" by (simp add: h h1_def)
  show "rows_for fid (fst (pump_folder now peers fid f))" by (auto simp: out none)
qed

definition host_rows_of :: "folder \<Rightarrow> host_rows" where
  "host_rows_of f = \<lparr>hr_files = files f, hr_pending = ix_row (fo_index f), hr_wants = wl_get (fo_wants f),
     hr_deferred = ds_get (fo_deferred f), hr_held = q_at (fo_quarantine f), hr_rest = Some (folder_rest f)\<rparr>"

definition unlogged :: "folder \<Rightarrow> bool" where
  "unlogged f \<longleftrightarrow> wl_changed (fo_wants f) = [] \<and> bm_is_empty (ix_pending_changed (fo_index f)) \<and>
     bm_is_empty (ds_changed (fo_deferred f)) \<and> bm_is_empty (q_changed (fo_quarantine f)) \<and>
     q_keyed (fo_quarantine f) \<and> ds_full (fo_deferred f)"

lemma drain_behind:
  assumes "behind h f" and "hr_wants h = wl_get (fo_wants f)" and "wl_changed (fo_wants f) = []"
    and "hr_rest h = Some (folder_rest f)"
  shows "host_takes fid h (fst (drain_folder fid f)) = host_rows_of (snd (drain_folder fid f))"
    and "unlogged (snd (drain_folder fid f))" and "rows_for fid (fst (drain_folder fid f))"
    and "folder_rest (snd (drain_folder fid f)) = folder_rest f"
proof -
  obtain ps ix where p: "pending_changes (fo_index f) = (ps, ix)" by fastforce
  obtain qs q where q: "q_report (fo_quarantine f) = (qs, q)" by fastforce
  obtain ds dset where d: "ds_drain_changes (fo_deferred f) = (ds, dset)" by fastforce
  have keyed: "q_keyed (fo_quarantine f)" using assms(1) by (simp add: behind_def)
  have q': "drain_changes (fo_quarantine f) = (map (\<lambda>((b, s), row). (b, s, row)) qs, q)"
    using q_report_eq [OF keyed] by (simp add: q)
  have out: "fst (drain_folder fid f) = map (\<lambda>(p, row). AcPendingChanged fid p row) ps @
      map (\<lambda>((b, s), row). AcHeldChanged fid b s row) qs @
      map (\<lambda>(p, l). AcDeferredChanged fid p l) ds"
    and g: "snd (drain_folder fid f) = f\<lparr>fo_index := ix, fo_quarantine := q, fo_deferred := dset\<rparr>"
    by (simp_all add: drain_folder_def fo_pending_changes_def p fo_held_changes_def q' fo_deferred_changes_def d comp_def case_prod_unfold)
  have 1: "replay ps (hr_pending h) = ix_row ix"
    by (rule pending_hook.caught_up [OF _ p]) (use assms(1) in \<open>simp add: behind_def\<close>)
  have 2: "replay qs (hr_held h) = q_at q"
    by (rule held_hook.caught_up [OF _ q]) (use assms(1) in \<open>auto simp: behind_def\<close>)
  have 3: "replay ds (hr_deferred h) = ds_get dset"
    by (rule deferred_hook.caught_up [OF _ d]) (use assms(1) in \<open>simp add: behind_def\<close>)
  have fields: "ix = (fo_index f)\<lparr>ix_pending_changed := bm_empty\<rparr>" "q = (fo_quarantine f)\<lparr>q_changed := bm_empty\<rparr>"
    "dset = (fo_deferred f)\<lparr>ds_changed := bm_empty\<rparr>"
    using p q' d by (auto simp: pending_changes_def drain_changes_def ds_drain_changes_def changed_take_def Let_def)
  show rest: "folder_rest (snd (drain_folder fid f)) = folder_rest f"
    by (simp add: g fields folder_rest_def)
  show "host_takes fid h (fst (drain_folder fid f)) = host_rows_of (snd (drain_folder fid f))"
    using 1 2 3 assms rest [unfolded g] by (simp add: out g host_rows_of_def behind_def files_def) (simp add: fields)
  show "unlogged (snd (drain_folder fid f))"
    using assms(1,3) keyed
    by (simp add: unlogged_def g fields q_keyed_def items_keyed_def denied_keyed_def bm_is_empty_iff behind_def ds_full_def)
  show "rows_for fid (fst (drain_folder fid f))" by (auto simp: out)
qed

section \<open>A whole event\<close>

text \<open>The host has exactly the rows of every folder.\<close>

definition in_step :: "(folder_id \<Rightarrow> host_rows) \<Rightarrow> engine \<Rightarrow> bool" where
  "in_step R e \<longleftrightarrow> (\<forall>fid. case bm_get (en_folders e) fid of
     Some f \<Rightarrow> R fid = host_rows_of f \<and> unlogged f \<and> bm_get (en_rested e) fid = Some (folder_rest f)
   | None \<Rightarrow> R fid = no_rows \<and> bm_get (en_rested e) fid = None)"

lemma in_step_trails: "in_step R e \<Longrightarrow> trails R e"
  unfolding in_step_def trails_def
proof
  fix fid
  assume "\<forall>fid. case bm_get (en_folders e) fid of
     Some f \<Rightarrow> R fid = host_rows_of f \<and> unlogged f \<and> bm_get (en_rested e) fid = Some (folder_rest f)
   | None \<Rightarrow> R fid = no_rows \<and> bm_get (en_rested e) fid = None"
  from this [rule_format, of fid] show "hr_rest (R fid) = bm_get (en_rested e) fid \<and>
     (case bm_get (en_folders e) fid of Some f \<Rightarrow> behind (R fid) f | None \<Rightarrow> R fid = no_rows)"
    by (auto simp: host_rows_of_def behind_def unlogged_def no_rows_def split: option.splits)
qed

text \<open>Between \<open>pump\<close> and the next event.\<close>

definition pumped :: "(folder_id \<Rightarrow> host_rows) \<Rightarrow> engine \<Rightarrow> bool" where
  "pumped R e \<longleftrightarrow> (\<forall>fid. hr_rest (R fid) = bm_get (en_rested e) fid \<and>
     (case bm_get (en_folders e) fid of
        Some f \<Rightarrow> behind (R fid) f \<and> hr_wants (R fid) = wl_get (fo_wants f) \<and> wl_changed (fo_wants f) = []
      | None \<Rightarrow> R fid = no_rows))"

lemma pumpedD:
  assumes "pumped R e"
  shows "hr_rest (R fid) = bm_get (en_rested e) fid"
    and "bm_get (en_folders e) fid = Some f \<Longrightarrow>
      behind (R fid) f \<and> hr_wants (R fid) = wl_get (fo_wants f) \<and> wl_changed (fo_wants f) = []"
    and "bm_get (en_folders e) fid = None \<Longrightarrow> R fid = no_rows"
  using assms [unfolded pumped_def, rule_format, of fid] by auto

lemma pump_pumped:
  assumes "trails R e"
  shows "pumped (fed R (fst (pump now e))) (snd (pump now e))"
  unfolding pumped_def
proof
  fix fid
  let ?g = "pump_folder now (en_peers e)"
  have rows: "fed R (fst (pump now e)) fid = (case bm_get (en_folders e) fid of
      Some f \<Rightarrow> host_takes fid (R fid) (fst (?g fid f)) | None \<Rightarrow> R fid)" for fid
    unfolding pump_def using trailsD(2) [OF assms] pump_behind(5) by (intro each_folder_rows) blast
  show "hr_rest (fed R (fst (pump now e)) fid) = bm_get (en_rested (snd (pump now e))) fid \<and>
    (case bm_get (en_folders (snd (pump now e))) fid of
       Some f \<Rightarrow> behind (fed R (fst (pump now e)) fid) f \<and>
         hr_wants (fed R (fst (pump now e)) fid) = wl_get (fo_wants f) \<and> wl_changed (fo_wants f) = []
     | None \<Rightarrow> fed R (fst (pump now e)) fid = no_rows)"
    using trailsD [OF assms, of fid]
      pump_behind [where h = "R fid" and now = now and peers = "en_peers e" and fid = fid]
    by (cases "bm_get (en_folders e) fid") (simp_all add: rows [unfolded pump_def] pump_def)
qed

lemma observe_pumped:
  assumes "pumped R e"
  shows "pumped R (snd (en_observe e))" "rowless (fst (en_observe e))"
proof -
  have same: "fo_wants (snd (observe_folder fid f)) = fo_wants f" "behind h (snd (observe_folder fid f)) = behind h f"
    "rowless (fst (observe_folder fid f))" for fid f h
    by (simp_all add: observe_folder_def observe_requests_def Let_def behind_def files_def)
  show "pumped R (snd (en_observe e))"
    unfolding pumped_def
  proof
    fix fid
    show "hr_rest (R fid) = bm_get (en_rested (snd (en_observe e))) fid \<and>
     (case bm_get (en_folders (snd (en_observe e))) fid of
        Some f \<Rightarrow> behind (R fid) f \<and> hr_wants (R fid) = wl_get (fo_wants f) \<and> wl_changed (fo_wants f) = []
      | None \<Rightarrow> R fid = no_rows)"
      using pumpedD [OF assms, of fid] by (simp add: en_observe_def same split: option.split)
  qed
  show "rowless (fst (en_observe e))"
    using same(3) by (auto simp: en_observe_def each_folder_def)
qed

lemma schedule_pumped:
  "pumped R (snd (schedule e)) = pumped R e" "rowless (fst (schedule e))"
proof -
  have "en_folders (snd (foldl schedule_folder st rows)) = en_folders (snd st) \<and>
      en_rested (snd (foldl schedule_folder st rows)) = en_rested (snd st) \<and>
      (rowless (fst st) \<longrightarrow> rowless (fst (foldl schedule_folder st rows)))" for st rows
    by (induction rows arbitrary: st) (simp_all add: schedule_folder_def Let_def split: prod.split option.split)
  from this [of "([], e)" "bm_entries (en_folders e)"] show "pumped R (snd (schedule e)) = pumped R e" "rowless (fst (schedule e))"
    by (simp_all add: schedule_def pumped_def)
qed

text \<open>\<open>persist\<close>, as the sum of what it does to each folder.\<close>

definition persisted_rows :: "engine \<Rightarrow> folder_id \<Rightarrow> folder \<Rightarrow> action list" where
  "persisted_rows e fid f =
     (if bm_get (en_rested e) fid \<noteq> Some (folder_rest f) then [AcRestChanged fid (folder_rest f)] else []) @
       fst (drain_folder fid f)"

lemma persist_fold:
  assumes "distinct (map fst rows)"
  defines "final out e \<equiv> foldl persist_folder (out, e) rows"
  shows "fst (final out e) = out @ concat (map (\<lambda>(fid, f). persisted_rows e fid f) rows) \<and>
    (\<forall>fid. bm_get (en_folders (snd (final out e))) fid =
      (case map_of rows fid of Some f \<Rightarrow> Some (snd (drain_folder fid f)) | None \<Rightarrow> bm_get (en_folders e) fid)) \<and>
    (\<forall>fid. bm_get (en_rested (snd (final out e))) fid =
      (case map_of rows fid of Some f \<Rightarrow> Some (folder_rest f) | None \<Rightarrow> bm_get (en_rested e) fid))"
  unfolding final_def using assms(1)
proof (induction rows arbitrary: out e)
  case (Cons row rows)
  obtain fid' f where row: "row = (fid', f)" by fastforce
  obtain changes g where d: "drain_folder fid' f = (changes, g)" by fastforce
  obtain out1 e1 where p: "persist_folder (out, e) row = (out1, e1)" by fastforce
  have out1: "out1 = out @ persisted_rows e fid' f"
    and folders: "en_folders e1 = bm_insert fid' g (en_folders e)"
    and rested: "bm_get (en_rested e1) i = (if i = fid' then Some (folder_rest f) else bm_get (en_rested e) i)" for i
    using p by (auto simp: persist_folder_def row d persisted_rows_def Let_def split: if_splits)
  have fresh: "map_of rows fid' = None" "distinct (map fst rows)"
    using Cons.prems by (simp_all add: row map_of_eq_None_iff)
  have "persisted_rows e1 i k = persisted_rows e i k" if "i \<noteq> fid'" for i k
    using that by (simp add: persisted_rows_def rested)
  then have "map (\<lambda>(i, k). persisted_rows e1 i k) rows = map (\<lambda>(i, k). persisted_rows e i k) rows"
    using fresh(1) by (force simp: map_of_eq_None_iff)
  with Cons.IH [OF fresh(2), of out1 e1] fresh(1) show ?case
    by (auto simp: p [unfolded row] out1 row folders rested d split: option.split)
qed simp

lemma persist_in_step:
  assumes "pumped R e"
  shows "in_step (fed R (fst (persist e))) (snd (persist e))"
proof -
  have fold: "fst (persist e) = concat (map (\<lambda>(fid, f). persisted_rows e fid f) (bm_entries (en_folders e)))"
    "bm_get (en_folders (snd (persist e))) fid = map_option (\<lambda>f. snd (drain_folder fid f)) (bm_get (en_folders e) fid)"
    "bm_get (en_rested (snd (persist e))) fid = (case bm_get (en_folders e) fid of
       Some f \<Rightarrow> Some (folder_rest f) | None \<Rightarrow> bm_get (en_rested e) fid)" for fid
    using persist_fold [OF bm.entries_distinct [of "en_folders e"], of "[]" e]
    by (simp_all add: persist_def bm_get_def [of "en_folders e"] split: option.split)
  have at_f: "host_takes fid (R fid) (persisted_rows e fid f) = host_rows_of (snd (drain_folder fid f)) \<and>
      unlogged (snd (drain_folder fid f)) \<and> rows_for fid (persisted_rows e fid f) \<and>
      folder_rest (snd (drain_folder fid f)) = folder_rest f"
    if f: "bm_get (en_folders e) fid = Some f" for fid f
  proof -
    define h where "h = (R fid)\<lparr>hr_rest := Some (folder_rest f)\<rparr>"
    have b: "behind (R fid) f" "hr_wants (R fid) = wl_get (fo_wants f)" "wl_changed (fo_wants f) = []"
      using pumpedD(2) [OF assms f] by simp_all
    then have "behind h f" "hr_wants h = wl_get (fo_wants f)" "hr_rest h = Some (folder_rest f)"
      by (simp_all add: h_def behind_def)
    note d = drain_behind [OF this(1,2) b(3) this(3), of fid]
    have "h = R fid" if "bm_get (en_rested e) fid = Some (folder_rest f)"
      using pumpedD(1) [OF assms, of fid] that by (cases "R fid") (simp add: h_def)
    then have "host_takes fid (R fid) (persisted_rows e fid f) = host_takes fid h (fst (drain_folder fid f))"
      by (auto simp: persisted_rows_def) (simp add: h_def)
    then show ?thesis using d by (auto simp: persisted_rows_def)
  qed
  have rows: "fed R (fst (persist e)) fid = (case bm_get (en_folders e) fid of
      Some f \<Rightarrow> host_takes fid (R fid) (persisted_rows e fid f) | None \<Rightarrow> R fid)" for fid
    unfolding fed_def fold(1) bm_get_def [of "en_folders e"]
    by (rule host_takes_each [OF _ bm.entries_distinct]) (use at_f in \<open>auto simp: in_bm_entries\<close>)
  show ?thesis
    unfolding in_step_def
  proof
    fix fid
    show "case bm_get (en_folders (snd (persist e))) fid of
       Some f \<Rightarrow> fed R (fst (persist e)) fid = host_rows_of f \<and> unlogged f \<and>
         bm_get (en_rested (snd (persist e))) fid = Some (folder_rest f)
     | None \<Rightarrow> fed R (fst (persist e)) fid = no_rows \<and> bm_get (en_rested (snd (persist e))) fid = None"
      using at_f [of fid] pumpedD(1,3) [OF assms, of fid]
      by (cases "bm_get (en_folders e) fid") (simp_all add: fold(2,3) rows no_rows_def)
  qed
qed

lemma in_stepD:
  assumes "in_step R e"
  shows "bm_get (en_folders e) fid = Some f \<Longrightarrow>
      R fid = host_rows_of f \<and> unlogged f \<and> bm_get (en_rested e) fid = Some (folder_rest f)"
    and "bm_get (en_folders e) fid = None \<Longrightarrow> R fid = no_rows \<and> bm_get (en_rested e) fid = None"
  using assms [unfolded in_step_def, rule_format, of fid] by auto

lemma in_step_insert:
  assumes "in_step R e" and "bm_get (en_folders e) fid = Some f"
    and "host_rows_of g = host_rows_of f" "unlogged g = unlogged f" "folder_rest g = folder_rest f"
  shows "in_step R (e\<lparr>en_folders := bm_insert fid g (en_folders e)\<rparr>)"
  using in_stepD [OF assms(1)] assms(2-) by (simp add: in_step_def split: option.split)

lemma note_write_in_step:
  assumes "in_step R e"
  shows "in_step R (note_write now e a)"
proof -
  have same: "host_rows_of (fo_wrote p now f) = host_rows_of f" "unlogged (fo_wrote p now f) = unlogged f"
    "folder_rest (fo_wrote p now f) = folder_rest f" for p f
    by (simp_all add: fo_wrote_def host_rows_of_def unlogged_def folder_rest_def files_def)
  have "in_step R (case bm_get (en_folders e) fid of
      Some f \<Rightarrow> e\<lparr>en_folders := bm_insert fid (fo_wrote p now f) (en_folders e)\<rparr> | None \<Rightarrow> e)" for fid p
    using assms in_step_insert [OF assms _ same] by (simp split: option.split)
  then show ?thesis
    using assms by (cases a) (simp_all add: note_write_def Let_def)
qed

lemma handle_from_trails:
  assumes S: "trails R e" and ok: "en_ok e"
  shows "in_step (fed R (fst (handle now ev e))) (snd (handle now ev e))"
proof -
  obtain o1 e1 where 1: "take_event now ev (e\<lparr>en_now := now\<rparr>) = (o1, e1)" by fastforce
  obtain o2 e2 where 2: "settle now e1 = (o2, e2)" by fastforce
  obtain o3 e3 where 3: "pump now e2 = (o3, e3)" by fastforce
  obtain o4 e4 where 4: "en_observe e3 = (o4, e4)" by fastforce
  obtain o5 e5 where 5: "schedule e4 = (o5, e5)" by fastforce
  obtain o6 e6 where 6: "persist e5 = (o6, e6)" by fastforce
  have now: "trails R (e\<lparr>en_now := now\<rparr>)" "en_ok (e\<lparr>en_now := now\<rparr>)"
    using S ok by (simp_all add: en_ok_def trails_def)
  have ok1: "en_ok e1"
    using sound_law.take_event_held [where e = "e\<lparr>en_now := now\<rparr>" and ev = ev and now = now] now(2) by (simp add: en_ok_holds 1)
  have "trails (fed R o1) e1" using trails_take_event [OF now, where now = now and ev = ev] by (simp add: 1)
  then have "trails (fed R (o1 @ o2)) e2" using trails_settle [OF _ ok1, where now = now] by (force simp: 2)
  then have "pumped (fed R (o1 @ o2 @ o3)) e3" using pump_pumped [where e = e2 and now = now] by (force simp: 3)
  then have "pumped (fed R (o1 @ o2 @ o3)) e4" "rowless o4" using observe_pumped [where e = e3] by (force simp: 4)+
  then have "pumped (fed (fed R (o1 @ o2 @ o3)) (o4 @ o5)) e5"
    using schedule_pumped [where e = e4] by (simp add: 5 del: fed_simps(2))
  then have "pumped (fed R (o1 @ o2 @ o3 @ o4 @ o5)) e5" by simp
  then have "in_step (fed R (o1 @ o2 @ o3 @ o4 @ o5 @ o6)) e6" using persist_in_step [where e = e5] by (force simp: 6)
  moreover have "in_step R' (foldl (note_write now) e' out)" if "in_step R' e'" for R' e' out
    using that by (induction out arbitrary: e') (simp_all add: note_write_in_step)
  ultimately show ?thesis by (simp add: handle_def 1 2 3 4 5 6 Let_def)
qed

lemma handle_in_step:
  assumes "in_step R e" and "en_ok e"
  shows "in_step (fed R (fst (handle now ev e))) (snd (handle now ev e))"
  using in_step_trails [OF assms(1)] assms(2) by (rule handle_from_trails)

lemma run_in_step:
  assumes "in_step R e" and "en_ok e"
  shows "in_step (fed R (fst (run_events evs e))) (snd (run_events evs e))"
  using assms
proof (induction evs arbitrary: R e)
  case (Cons x evs)
  obtain t ev where x: "x = (t, ev)" by fastforce
  obtain out e1 where h: "handle t ev e = (out, e1)" by fastforce
  obtain out2 e2 where r: "run_events evs e1 = (out2, e2)" by fastforce
  have "in_step (fed R out) e1" using handle_in_step [OF Cons.prems, where now = t and ev = ev] by (simp add: h)
  moreover have "en_ok e1" using engine_run_ok [OF Cons.prems(2), of "[(t, ev)]"] by (simp add: h)
  ultimately have "in_step (fed (fed R out) out2) e2" using Cons.IH [of "fed R out" e1] by (simp add: r)
  then show ?case by (simp add: x h r)
qed simp

end
