(* ===== verification/Restarts.thy ===== *)
theory Restarts
  imports HostMirror
begin

text \<open>
  The restart of \<open>crates/engine/src/engine.rs\<close> and \<open>crates/engine/src/parts.rs\<close>: the parts a host has
  stored are those of every folder, and the folder restored from them is the one there was, without what
  only a running engine has.
\<close>

section \<open>What a restart leaves out\<close>

definition at_rest :: "folder \<Rightarrow> folder" where
  "at_rest f = f\<lparr>fo_window := None, fo_scan := None, fo_catchup := bm_empty, fo_startup_scan := False,
     fo_unobserved := bm_empty, fo_observing := bm_empty, fo_reported := bm_empty,
     fo_last_observed := bm_empty, fo_record_written := bm_empty, fo_statuses := [],
     fo_wants := (fo_wants f)\<lparr>wl_released := bm_empty\<rparr>\<rparr>"

text \<open>Parts that hold the host's rows, for a folder of the host's configuration.\<close>

definition stored_as :: "folder \<Rightarrow> host_rows \<Rightarrow> folder_parts \<Rightarrow> bool" where
  "stored_as f h parts \<longleftrightarrow> fp_id parts = fo_id f \<and> fp_rules parts = fo_rules f \<and> fp_members parts = fo_members f \<and>
     bm_get (fp_records parts) = hr_files h \<and> bm_get (fp_wants parts) = hr_wants h \<and>
     bm_get (fp_pending parts) = hr_pending h \<and> bm_get (fp_held parts) = hr_held h \<and>
     bm_get (fp_deferred parts) = hr_deferred h \<and> Some (fp_rest parts) = hr_rest h"

lemma bm_ext: "bm_get m = bm_get m' \<Longrightarrow> m = m'"
  by (rule bm_eqI) simp

lemma keyed_values:
  assumes "\<And>k v. bm_get m k = Some v \<Longrightarrow> key v = k"
  shows "bm_of_list (map (\<lambda>v. (key v, v)) (bm_values m)) = m"
proof -
  have "map (\<lambda>v. (key v, v)) (bm_values m) = bm_entries m"
    using assms by (auto simp: bm_values_def comp_def in_bm_entries intro!: map_idI)
  then show ?thesis by simp
qed

lemma q_at_rows: "bm_get (q_rows q) = q_at q"
  by (simp add: fun_eq_iff q_rows_get q_at_def)

lemma record_update_same [simp]: "ix\<lparr>ix_pending_changed := ix_pending_changed ix\<rparr> = ix"
  "q\<lparr>q_changed := q_changed q\<rparr> = q"
  by simp_all

lemma restored_folder:
  assumes ok: "fo_ok f" and logs: "unlogged f" and parts: "stored_as f (host_rows_of f) parts"
  shows "folder_from_parts parts (ix_own (fo_index f)) (ix_host (fo_index f)) = at_rest f"
proof -
  have maps: "fp_records parts = ix_records (fo_index f)" "fp_wants parts = wl_wants (fo_wants f)"
    "fp_pending parts = ix_pending (fo_index f)" "fp_held parts = q_rows (fo_quarantine f)"
    "fp_deferred parts = ds_rows (fo_deferred f)"
    using parts
    by (auto intro!: bm_ext simp: stored_as_def host_rows_of_def files_def q_at_rows fun_eq_iff
        ix_at_def wl_get_def ix_row_def ds_get_def)
  have rest: "fp_rest parts = folder_rest f" "fp_id parts = fo_id f" "fp_rules parts = fo_rules f"
    "fp_members parts = fo_members f"
    using parts by (simp_all add: stored_as_def host_rows_of_def)
  have empty: "ix_pending_changed (fo_index f) = bm_empty" "q_changed (fo_quarantine f) = bm_empty"
    "ds_changed (fo_deferred f) = bm_empty" "wl_changed (fo_wants f) = []"
    using logs by (simp_all add: unlogged_def bm_is_empty_eq)
  have "from_rows (q_rows (fo_quarantine f)) (q_arrivals (fo_quarantine f)) = fo_quarantine f"
    using rows_round_trip [of "fo_quarantine f"] ok empty(2) by (simp add: fo_ok_def)
  moreover have "from_wants (bm_values (wl_wants (fo_wants f))) = (fo_wants f)\<lparr>wl_released := bm_empty\<rparr>"
  proof -
    have "w_path w = p" if "bm_get (wl_wants (fo_wants f)) p = Some w" for p w
      using ok that by (auto simp: fo_ok_def wl_ok_def want_ok_def wl_get_def)
    from keyed_values [of "wl_wants (fo_wants f)" w_path, OF this] show ?thesis
      by (simp add: from_wants_def empty(4))
  qed
  moreover have "ds_from_rows (ds_rows (fo_deferred f)) = fo_deferred f"
    by (simp add: ds_from_rows_def empty(3) [symmetric])
  moreover have "index_from_parts (ix_own (fo_index f)) (ix_host (fo_index f)) (ix_records (fo_index f))
      (ix_pending (fo_index f)) (folder_rest f) = fo_index f"
    by (simp add: index_from_parts_def folder_rest_def empty(1) [symmetric])
  ultimately show ?thesis
    by (simp add: folder_from_parts_def at_rest_def maps rest) (simp add: folder_rest_def)
qed

text \<open>\<open>parts\<close> itself gives such parts.\<close>

lemma parts_stored:
  assumes "fo_ok f"
  shows "stored_as f (host_rows_of f) (folder_parts_of f)"
proof -
  have "e_path (ir_entry r) = p" if "bm_get (ix_records (fo_index f)) p = Some r" for p r
    using ix_okD(2) [of "fo_index f" p r] assms that by (auto simp: fo_ok_def held_def)
  moreover have "w_path w = p" if "bm_get (wl_wants (fo_wants f)) p = Some w" for p w
    using assms that by (auto simp: fo_ok_def wl_ok_def want_ok_def wl_get_def)
  ultimately show ?thesis
    by (simp add: stored_as_def folder_parts_of_def keyed_values host_rows_of_def q_at_rows ds_iter_def
        fun_eq_iff files_def ix_at_def wl_get_def ix_row_def ds_get_def)
qed

section \<open>Over every run\<close>

lemma engine_new_in_step: "in_step (\<lambda>_. no_rows) (engine_new config)"
  by (simp add: in_step_def engine_new_def)

lemma run_rows:
  assumes "bm_get (en_folders (snd (run_events evs (engine_new config)))) fid = Some f"
  shows "host_takes fid no_rows (fst (run_events evs (engine_new config))) = host_rows_of f" and "unlogged f"
  using in_stepD(1) [OF run_in_step [OF engine_new_in_step engine_new_ok] assms]
  by (simp_all add: fed_def)

lemma run_folder_ok: "bm_get (en_folders (snd (run_events evs (engine_new config)))) fid = Some f \<Longrightarrow> fo_ok f"
  using engine_run_ok [OF engine_new_ok] by (auto simp: en_ok_def)

text \<open>C10: Whatever events arrive, a host that started with no rows and applies every row action the engine
  returns, in order, has exactly the rows of each folder: every record of the index, every pending change,
  every want, every held and denied batch, every deferred entry, and the rest. No change of any operation is
  left out of the actions, and none is reported with a value the folder does not have.\<close>

theorem host_keeps_up:
  assumes "run_events evs (engine_new config) = (out, e)" and "bm_get (en_folders e) fid = Some f"
  shows "host_takes fid no_rows out = host_rows_of f"
  using run_rows(1) [of evs config fid f] assms by simp

lemma joined_run:
  obtains out e f where "run_events [(1, EvFolderJoined folder_a rules_default [here, there]),
      (2, EvScanned folder_a path_a (Observed (seen 7)) 1)]
      (engine_new \<lparr>nc_node_id = here, nc_author_host = host0\<rparr>) = (out, e)"
    "bm_get (en_folders e) folder_a = Some f" "files f path_a \<noteq> None"
proof -
  let ?run = "run_events [(1, EvFolderJoined folder_a rules_default [here, there]),
      (2, EvScanned folder_a path_a (Observed (seen 7)) 1)] (engine_new \<lparr>nc_node_id = here, nc_author_host = host0\<rparr>)"
  have "case bm_get (en_folders (snd ?run)) folder_a of None \<Rightarrow> False
      | Some f \<Rightarrow> bm_has (ix_records (fo_index f)) path_a" by code_simp
  then obtain f where "bm_get (en_folders (snd ?run)) folder_a = Some f" "files f path_a \<noteq> None"
    by (auto simp: files_def ix_at_def split: option.splits)
  then show thesis using that [of "fst ?run" "snd ?run" f] by simp
qed

lemma host_keeps_up_witness:
  "\<exists>out e f. run_events [(1, EvFolderJoined folder_a rules_default [here, there]),
      (2, EvScanned folder_a path_a (Observed (seen 7)) 1)]
      (engine_new \<lparr>nc_node_id = here, nc_author_host = host0\<rparr>) = (out, e) \<and>
    bm_get (en_folders e) folder_a = Some f \<and> files f path_a \<noteq> None \<and>
    host_takes folder_a no_rows out = host_rows_of f"
  by (rule joined_run) (use host_keeps_up in blast)



end
