(* ===== verification/Codecs.thy ===== *)
theory Codecs
  imports Quarantines Batches
begin

text \<open>
  \<open>crates/delocal/src/store/codec.rs\<close>: how engine values become the columns of the store and back. Every
  decoder refuses what the encoders could not have written. A column value is an integer (an \<open>i64\<close>), a
  string, a blob of bytes or a truth value. Of the errors the table is kept, not the message.
\<close>

section \<open>Errors\<close>

datatype store_error =
    Sqlite
  | UnknownSchema (schema_found: int) (schema_known: int)
  | NotWal string
  | Corrupt string
  | Encode string
  | Spawn

type_synonym 'a stored = "store_error + 'a"

text \<open>The \<open>?\<close> operator and \<open>collect\<close> into a result.\<close>

fun then_try :: "'e + 'a \<Rightarrow> ('a \<Rightarrow> 'e + 'b) \<Rightarrow> 'e + 'b" where
  "then_try (Inl e) f = Inl e"
| "then_try (Inr x) f = f x"

fun try_all :: "('a \<Rightarrow> 'e + 'b) \<Rightarrow> 'a list \<Rightarrow> 'e + 'b list" where
  "try_all f [] = Inr []"
| "try_all f (x # xs) = then_try (f x) (\<lambda>y. then_try (try_all f xs) (\<lambda>ys. Inr (y # ys)))"

lemma then_try_Inr: "then_try r f = Inr y \<longleftrightarrow> (\<exists>x. r = Inr x \<and> f x = Inr y)"
  by (cases r) auto

lemma try_all_Inr: "try_all f xs = Inr ys \<longleftrightarrow> list_all2 (\<lambda>x y. f x = Inr y) xs ys"
proof (induction xs arbitrary: ys)
  case (Cons x xs)
  then show ?case by (auto simp: then_try_Inr list_all2_Cons1)
qed auto

lemma try_all_map: "(\<And>x. x \<in> set xs \<Longrightarrow> f x = Inr (g x)) \<Longrightarrow> try_all f xs = Inr (map g xs)"
  by (induction xs) auto

section \<open>Integers\<close>

text \<open>A \<open>u64\<close> is stored as the \<open>i64\<close> with its bits.\<close>

definition int_col :: "u64 \<Rightarrow> int" where
  "int_col n = sint n"

definition uint_col :: "int \<Rightarrow> u64" where
  "uint_col n = word_of_int n"

text \<open>The counters the model keeps as natural numbers, as the \<open>u64\<close> they are in the code.\<close>

definition nat_col :: "nat \<Rightarrow> int" where
  "nat_col n = int_col (of_nat n)"

definition unat_col :: "int \<Rightarrow> nat" where
  "unat_col n = unat (uint_col n)"

lemma uint_int_col [simp]: "uint_col (int_col n) = n"
  by (simp add: uint_col_def int_col_def)

lemma int_col_i64 [simp]: "is_i64 (int_col n)"
  using sint_greater_eq [of n] sint_less [of n] by (simp add: int_col_def is_i64_def i64_min_def i64_max_def)

lemma int_col_inj [simp]: "int_col m = int_col n \<longleftrightarrow> m = n"
  by (metis uint_int_col)

lemma int_col_uint: "is_i64 n \<Longrightarrow> int_col (uint_col n) = n"
proof -
  have "sint (word_of_int n :: u64) = signed_take_bit 63 n" by transfer simp
  then show "is_i64 n \<Longrightarrow> int_col (uint_col n) = n"
    by (simp add: int_col_def uint_col_def is_i64_def i64_min_def i64_max_def signed_take_bit_int_eq_self)
qed

definition u64_fits :: "nat \<Rightarrow> bool" where
  "u64_fits n \<longleftrightarrow> n < 18446744073709551616"

lemma unat_nat_col [simp]: "u64_fits n \<Longrightarrow> unat_col (nat_col n) = n"
  by (simp add: unat_col_def nat_col_def u64_fits_def unat_of_nat)

lemma nat_col_inj: "u64_fits m \<Longrightarrow> u64_fits n \<Longrightarrow> nat_col m = nat_col n \<Longrightarrow> m = n"
  by (metis unat_nat_col)

section \<open>Bytes and text\<close>

definition exact :: "string \<Rightarrow> nat \<Rightarrow> byte list \<Rightarrow> byte list stored" where
  "exact table n blob = (if length blob = n then Inr blob else Inl (Corrupt table))"

definition node_col :: "string \<Rightarrow> byte list \<Rightarrow> node_id stored" where
  "node_col table blob = then_try (exact table ID_LEN blob) (\<lambda>b. Inr (NodeId b))"

definition folder_col :: "string \<Rightarrow> byte list \<Rightarrow> folder_id stored" where
  "folder_col table blob = then_try (exact table ID_LEN blob) (\<lambda>b. Inr (FolderId b))"

definition batch_col :: "string \<Rightarrow> byte list \<Rightarrow> batch_id stored" where
  "batch_col table blob = then_try (exact table ID_LEN blob) (\<lambda>b. Inr (BatchId b))"

definition HASH_LEN :: nat where
  "HASH_LEN = 32"

definition hash_col :: "string \<Rightarrow> byte list \<Rightarrow> content_hash stored" where
  "hash_col table blob = then_try (exact table HASH_LEN blob) (\<lambda>b. Inr (ContentHash b))"

definition rel_path_col :: "string \<Rightarrow> string \<Rightarrow> rel_path stored" where
  "rel_path_col table t = (case rel_path_new t of Inl _ \<Rightarrow> Inl (Corrupt table) | Inr p \<Rightarrow> Inr p)"

definition host_name_col :: "string \<Rightarrow> string \<Rightarrow> host_name stored" where
  "host_name_col table t = (case host_name_new t of Inl _ \<Rightarrow> Inl (Corrupt table) | Inr h \<Rightarrow> Inr h)"

fun kind_text :: "kind \<Rightarrow> string" where
  "kind_text File = ''file''"
| "kind_text Dir = ''dir''"
| "kind_text Symlink = ''symlink''"

definition kind_col :: "string \<Rightarrow> string \<Rightarrow> kind stored" where
  "kind_col table t =
     (if t = ''file'' then Inr File else if t = ''dir'' then Inr Dir
      else if t = ''symlink'' then Inr Symlink else Inl (Corrupt table))"

lemma exact_Inr: "exact table n blob = Inr b \<longleftrightarrow> b = blob \<and> length blob = n"
  by (auto simp: exact_def)

lemma id_col_simps:
  "length (node_bytes n) = ID_LEN \<Longrightarrow> node_col table (node_bytes n) = Inr n"
  "length (folder_bytes f) = ID_LEN \<Longrightarrow> folder_col table (folder_bytes f) = Inr f"
  "length (batch_bytes b) = ID_LEN \<Longrightarrow> batch_col table (batch_bytes b) = Inr b"
  "length (hash_bytes h) = HASH_LEN \<Longrightarrow> hash_col table (hash_bytes h) = Inr h"
  by (simp_all add: node_col_def folder_col_def batch_col_def hash_col_def exact_def)

lemma text_col_simps:
  "valid_path p \<Longrightarrow> rel_path_col table (path_str p) = Inr p"
  "host_ok h \<Longrightarrow> host_name_col table (host_str h) = Inr h"
  "kind_col table (kind_text k) = Inr k"
proof -
  show "valid_path p \<Longrightarrow> rel_path_col table (path_str p) = Inr p"
    using rel_path_new_ok [of "path_str p" p] by (simp add: rel_path_col_def)
  show "host_ok h \<Longrightarrow> host_name_col table (host_str h) = Inr h"
    using host_name_new_ok [of "host_str h" h] by (simp add: host_name_col_def)
  show "kind_col table (kind_text k) = Inr k"
    by (cases k) (simp_all add: kind_col_def)
qed

section \<open>Version blobs\<close>

text \<open>\<open>as_chunks\<close>: the whole chunks, and the remainder.\<close>

function chunks :: "nat \<Rightarrow> 'a list \<Rightarrow> 'a list list \<times> 'a list" where
  "chunks n xs =
     (if n = 0 \<or> length xs < n then ([], xs)
      else let (cs, r) = chunks n (drop n xs) in (take n xs # cs, r))"
  by auto
termination
  by (relation "measure (\<lambda>(_, xs). length xs)") auto

declare chunks.simps [simp del]

definition COMPONENT :: nat where
  "COMPONENT = ID_LEN + 8"

definition component_blob :: "node_id \<times> u64 \<Rightarrow> byte list" where
  "component_blob c = node_bytes (fst c) @ nat_to_be 8 (unat (snd c))"

definition version_blob :: "version \<Rightarrow> byte list" where
  "version_blob v = concat (map component_blob (bm_entries (version_map v)))"

text \<open>The loop of \<open>version\<close>, with the node of the component before.\<close>

fun components_col :: "string \<Rightarrow> node_id option \<Rightarrow> byte list list \<Rightarrow> (node_id \<times> u64) list stored" where
  "components_col table prev [] = Inr []"
| "components_col table prev (chunk # cs) =
     then_try (node_col table (take ID_LEN chunk)) (\<lambda>n.
     then_try (exact table 8 (drop ID_LEN chunk)) (\<lambda>bytes.
       let c = of_nat (be_to_nat bytes) :: u64 in
       if is_some_and (\<lambda>p. n \<le> p) prev \<or> c = 0 then Inl (Corrupt table)
       else then_try (components_col table (Some n) cs) (\<lambda>rest. Inr ((n, c) # rest))))"

definition version_col :: "string \<Rightarrow> byte list \<Rightarrow> version stored" where
  "version_col table blob =
     (let (cs, remainder) = chunks COMPONENT blob in
      if remainder \<noteq> [] then Inl (Corrupt table)
      else then_try (components_col table None cs) (\<lambda>xs. Inr (version_from (bm_of_list xs))))"

lemma chunks_concat:
  assumes "0 < n" and "\<forall>c \<in> set cs. length c = n"
  shows "chunks n (concat cs) = (cs, [])"
  using assms(2)
proof (induction cs)
  case Nil
  then show ?case using assms(1) by (subst chunks.simps) simp
next
  case (Cons c cs)
  then show ?case using assms(1) by (subst chunks.simps) simp
qed

lemma chunks_whole: "chunks n xs = (cs, []) \<Longrightarrow> 0 < n \<Longrightarrow> concat cs = xs \<and> (\<forall>c \<in> set cs. length c = n)"
proof (induction n xs arbitrary: cs rule: chunks.induct)
  case (1 n xs)
  show ?case
  proof (cases "n = 0 \<or> length xs < n")
    case True
    with 1(2,3) show ?thesis by (subst (asm) chunks.simps) auto
  next
    case False
    obtain cs' r where rest: "chunks n (drop n xs) = (cs', r)" by fastforce
    have "cs = take n xs # cs'" and "r = []"
      using 1(2) False by (simp_all add: chunks.simps [of n xs] rest)
    with 1(1) [OF False, of cs'] 1(3) rest False show ?thesis by auto
  qed
qed

lemma nat_to_be_add: "nat_to_be k (m + x * 256 ^ k) = nat_to_be k m"
proof (induction k arbitrary: x)
  case (Suc k)
  have "m + x * 256 ^ Suc k = m + x * 256 * 256 ^ k" by simp
  moreover have "(m + x * 256 * 256 ^ k) div 256 ^ k mod 256 = m div 256 ^ k mod 256" by simp
  ultimately show ?case by (simp only: nat_to_be.simps Suc.IH)
qed simp

lemma nat_to_be_to_nat: "nat_to_be (length bs) (be_to_nat bs) = bs"
proof (induction bs)
  case (Cons b bs)
  have "(unat b * 256 ^ length bs + be_to_nat bs) div 256 ^ length bs = unat b"
    using be_to_nat_bound [of bs] by simp
  then show ?case
    using Cons.IH nat_to_be_add [of "length bs" "be_to_nat bs" "unat b"] by (simp add: add.commute)
qed simp

lemma u64_be [simp]: "(of_nat (be_to_nat (nat_to_be 8 (unat c))) :: u64) = c"
proof -
  have "unat c mod 256 ^ 8 = unat c" using unsigned_less [of c, where 'a = nat] by simp
  then show ?thesis by (simp add: be_to_nat_to_be)
qed

lemma be_u64: "length bs = 8 \<Longrightarrow> nat_to_be 8 (unat (of_nat (be_to_nat bs) :: u64)) = bs"
  using be_to_nat_bound [of bs] nat_to_be_to_nat [of bs] by (simp add: unat_of_nat)

text \<open>What a list of components must be for its blob to be canonical.\<close>

definition canonical :: "node_id option \<Rightarrow> (node_id \<times> u64) list \<Rightarrow> bool" where
  "canonical prev xs \<longleftrightarrow> sorted_wrt (<) (map fst xs) \<and>
     (\<forall>(n, c) \<in> set xs. length (node_bytes n) = ID_LEN \<and> c \<noteq> 0 \<and> is_none_or (\<lambda>p. p < n) prev)"

lemma canonical_Cons:
  "canonical prev ((n, c) # xs) \<longleftrightarrow>
     length (node_bytes n) = ID_LEN \<and> c \<noteq> 0 \<and> is_none_or (\<lambda>p. p < n) prev \<and> canonical (Some n) xs"
  by (cases prev) (fastforce simp: canonical_def dest: order.strict_trans)+

lemma components_round:
  "canonical prev xs \<Longrightarrow> components_col table prev (map component_blob xs) = Inr xs"
proof (induction xs arbitrary: prev)
  case (Cons x xs)
  obtain n c where x: "x = (n, c)" by fastforce
  have "\<not> is_some_and (\<lambda>p. n \<le> p) prev"
    using Cons.prems by (cases prev) (auto simp: x canonical_Cons not_le simp del: id_order_simps)
  with Cons show ?case
    by (simp add: x canonical_Cons component_blob_def id_col_simps exact_def del: id_order_simps)
qed simp

lemma components_col_canonical:
  "components_col table prev cs = Inr xs \<Longrightarrow> \<forall>c \<in> set cs. length c = COMPONENT \<Longrightarrow>
     cs = map component_blob xs \<and> canonical prev xs"
proof (induction cs arbitrary: prev xs)
  case Nil
  then show ?case by (simp add: canonical_def)
next
  case (Cons chunk cs)
  let ?n = "NodeId (take ID_LEN chunk)" and ?c = "of_nat (be_to_nat (drop ID_LEN chunk)) :: u64"
  have len: "length (take ID_LEN chunk) = ID_LEN" "length (drop ID_LEN chunk) = 8"
    using Cons.prems(2) by (simp_all add: COMPONENT_def)
  obtain ys where ys: "components_col table (Some ?n) cs = Inr ys" "xs = (?n, ?c) # ys"
    and ok: "\<not> is_some_and (\<lambda>p. ?n \<le> p) prev" "?c \<noteq> 0"
    using Cons.prems(1) len
    by (auto simp: then_try_Inr node_col_def exact_Inr Let_def simp del: id_order_simps split: if_splits)
  have "chunk = component_blob (?n, ?c)"
    using len by (simp add: component_blob_def be_u64)
  moreover have "is_none_or (\<lambda>p. p < ?n) prev"
    using ok(1) by (cases prev) (simp_all add: not_le del: id_order_simps)
  ultimately show ?case
    using Cons.IH [OF ys(1)] Cons.prems(2) ok(2) len by (simp add: ys(2) canonical_Cons del: id_order_simps)
qed

definition version_ids :: "version \<Rightarrow> bool" where
  "version_ids v \<longleftrightarrow> (\<forall>n \<in> set (bm_keys (version_map v)). length (node_bytes n) = ID_LEN)"

lemma version_canonical: "version_ids v \<Longrightarrow> canonical None (bm_entries (version_map v))"
  by (auto simp: canonical_def version_ids_def bm_keys_def in_bm_entries bm.sorted_entries)

lemma canonical_version:
  assumes "canonical None xs"
  shows "bm_entries (version_map (version_from (bm_of_list xs))) = xs" and "version_ids (version_from (bm_of_list xs))"
proof -
  have sorted: "sorted_wrt (<) (map fst xs)" and all: "\<forall>(n, c) \<in> set xs. length (node_bytes n) = ID_LEN \<and> c \<noteq> 0"
    using assms by (auto simp: canonical_def)
  obtain m where m: "bm_entries m = xs" using sorted Bmap_inverse [of xs] by blast
  have "bm_filter (\<lambda>_ c. 0 < c) m = m"
  proof (rule bm_eqI)
    fix k
    show "bm_get (bm_filter (\<lambda>_ c. 0 < c) m) k = bm_get m k"
      using all in_bm_entries [of k _ m] by (cases "bm_get m k") (auto simp: m word_neq_0_conv)
  qed
  then have "version_map (version_from (bm_of_list xs)) = m"
    by (simp only: version_map_from m [symmetric] bm_of_list_entries)
  then show "bm_entries (version_map (version_from (bm_of_list xs))) = xs" by (simp add: m)
  then show "version_ids (version_from (bm_of_list xs))"
    using all by (auto simp: version_ids_def bm_keys_def)
qed

lemma component_length: "(\<forall>(n, c) \<in> set xs. length (node_bytes n) = ID_LEN) \<Longrightarrow> \<forall>b \<in> set (map component_blob xs). length b = COMPONENT"
  by (auto simp: component_blob_def COMPONENT_def)

lemma version_round: "version_ids v \<Longrightarrow> version_col table (version_blob v) = Inr v"
proof -
  assume "version_ids v"
  note c = version_canonical [OF this]
  have "chunks COMPONENT (version_blob v) = (map component_blob (bm_entries (version_map v)), [])"
    unfolding version_blob_def
    using c by (intro chunks_concat component_length) (auto simp: COMPONENT_def canonical_def)
  then show ?thesis
    using components_round [OF c, of table] canonical_version(1) [OF c]
    by (simp add: version_col_def version_map_inject [symmetric] bm_entries_inject [symmetric])
qed

lemma version_col_canonical:
  assumes "version_col table blob = Inr v"
  shows "version_blob v = blob" and "version_ids v"
proof -
  obtain cs where cs: "chunks COMPONENT blob = (cs, [])"
    using assms by (auto simp: version_col_def split: prod.splits if_splits)
  then have whole: "concat cs = blob" "\<forall>c \<in> set cs. length c = COMPONENT"
    using chunks_whole [OF cs] by (simp_all add: COMPONENT_def)
  obtain xs where xs: "components_col table None cs = Inr xs" "v = version_from (bm_of_list xs)"
    using assms cs by (auto simp: version_col_def then_try_Inr)
  note c = components_col_canonical [OF xs(1) whole(2)]
  show "version_blob v = blob" "version_ids v"
    using canonical_version [of xs] c whole(1) by (simp_all add: version_blob_def xs(2))
qed

section \<open>Entries\<close>

record entry_columns =
  ec_path :: string
  ec_kind :: string
  ec_size :: int
  ec_mtime :: int
  ec_exec :: bool
  ec_hash :: "byte list"
  ec_prev_hash :: "byte list"
  ec_stamp :: int
  ec_version :: "byte list"
  ec_deleted :: bool
  ec_by :: "byte list"
  ec_host :: string

definition entry_columns_of :: "entry \<Rightarrow> entry_columns" where
  "entry_columns_of e =
     \<lparr>ec_path = path_str (e_path e), ec_kind = kind_text (e_kind e), ec_size = int_col (e_size e),
      ec_mtime = e_mtime e, ec_exec = e_exec e, ec_hash = hash_bytes (e_hash e),
      ec_prev_hash = hash_bytes (e_prev_hash e), ec_stamp = e_stamp e,
      ec_version = version_blob (e_version e), ec_deleted = e_deleted e,
      ec_by = node_bytes (e_by e), ec_host = host_str (e_host e)\<rparr>"

definition entry_col :: "string \<Rightarrow> entry_columns \<Rightarrow> entry stored" where
  "entry_col table c =
     then_try (rel_path_col table (ec_path c)) (\<lambda>path.
     then_try (kind_col table (ec_kind c)) (\<lambda>kind.
     then_try (hash_col table (ec_hash c)) (\<lambda>hash.
     then_try (hash_col table (ec_prev_hash c)) (\<lambda>prev_hash.
     then_try (version_col table (ec_version c)) (\<lambda>version.
     then_try (node_col table (ec_by c)) (\<lambda>modified_by.
     then_try (host_name_col table (ec_host c)) (\<lambda>author_host.
       Inr \<lparr>e_path = path, e_kind = kind, e_size = uint_col (ec_size c), e_mtime = ec_mtime c,
            e_stamp = ec_stamp c, e_exec = ec_exec c, e_hash = hash, e_prev_hash = prev_hash,
            e_version = version, e_deleted = ec_deleted c, e_by = modified_by, e_host = author_host\<rparr>)))))))"

text \<open>What the types of the code say of an entry: ids and hashes of their length, a valid path.\<close>

definition entry_storable :: "entry \<Rightarrow> bool" where
  "entry_storable e \<longleftrightarrow> valid_path (e_path e) \<and> length (hash_bytes (e_hash e)) = HASH_LEN \<and>
     length (hash_bytes (e_prev_hash e)) = HASH_LEN \<and> version_ids (e_version e) \<and>
     length (node_bytes (e_by e)) = ID_LEN \<and> host_ok (e_host e)"

lemma entry_round: "entry_storable e \<Longrightarrow> entry_col table (entry_columns_of e) = Inr e"
  by (simp add: entry_col_def entry_columns_of_def entry_storable_def text_col_simps id_col_simps version_round)

lemma col_canonical:
  "rel_path_col table t = Inr p \<Longrightarrow> path_str p = t \<and> valid_path p"
  "host_name_col table t = Inr h \<Longrightarrow> host_str h = t \<and> host_ok h"
  "kind_col table t = Inr k \<Longrightarrow> kind_text k = t"
  "node_col table b = Inr n \<Longrightarrow> node_bytes n = b \<and> length b = ID_LEN"
  "hash_col table b = Inr x \<Longrightarrow> hash_bytes x = b \<and> length b = HASH_LEN"
  by (auto simp: rel_path_col_def host_name_col_def kind_col_def node_col_def hash_col_def exact_def
      rel_path_new_ok host_name_new_ok split: sum.splits if_splits)

lemma entry_col_canonical:
  assumes "entry_col table c = Inr e" and "is_i64 (ec_size c)"
  shows "entry_columns_of e = c" and "entry_storable e"
proof -
  show "entry_columns_of e = c"
    using assms by (cases c) (auto simp: entry_col_def then_try_Inr entry_columns_of_def int_col_uint
        version_col_canonical dest!: col_canonical)
  show "entry_storable e"
    using assms by (auto simp: entry_col_def then_try_Inr entry_storable_def
        version_col_canonical dest!: col_canonical)
qed

text \<open>C5: The columns of an entry decode to it and to nothing else, and only such columns decode: a row of
  \<open>entries\<close> that could not have been written (a wrong length, a kind that is not one, a version blob out of
  order, with a repeated node or a zero counter) is refused.\<close>

theorem entry_columns_exact:
  assumes "is_i64 (ec_size c)"
  shows "entry_col table c = Inr e \<longleftrightarrow> c = entry_columns_of e \<and> entry_storable e"
  using entry_round entry_col_canonical [OF _ assms] by blast

text \<open>An entry with ids and hashes of their lengths.\<close>

definition wide_entry :: entry where
  "wide_entry =
     \<lparr>e_path = RelPath ''a/b'', e_kind = File, e_size = - 1, e_mtime = 5, e_stamp = 6, e_exec = True,
      e_hash = ContentHash (replicate 32 7), e_prev_hash = EMPTY,
      e_version = incremented version_empty (NodeId (replicate 16 1)), e_deleted = False,
      e_by = NodeId (replicate 16 1), e_host = HostName ''h''\<rparr>"

lemma wide_entry_storable: "entry_storable wide_entry" "is_i64 (ec_size (entry_columns_of wide_entry))"
  by code_simp (simp add: entry_columns_of_def)

lemma entry_columns_exact_witness:
  "entry_col ''entries'' (entry_columns_of wide_entry) = Inr wide_entry"
  using entry_columns_exact [OF wide_entry_storable(2)] wide_entry_storable(1) by simp

end
