(* ===== verification/Stores.thy ===== *)
theory Stores
  imports Codecs Engines
begin

text \<open>
  \<open>crates/delocal/src/store\<close>: the tables of the daemon's database (\<open>schema.rs\<close>), the rows the host owns
  (\<open>host.rs\<close>), what each engine action and each host write does to the tables (\<open>write.rs\<close>) and the readers
  (\<open>load.rs\<close>). A table is a map from its primary key to the other columns, in the order SQLite sorts a key;
  a statement that breaks a constraint or a foreign key is an error, and a transaction with an error
  changes nothing. A column of JSON has a type of its own, \<open>'j\<close>: \<open>serde_json\<close> is a parameter.
\<close>

section \<open>The rows the host owns\<close>

text \<open>\<open>PathBuf\<close> and \<open>OsString\<close> are the bytes of a name on disk.\<close>

type_synonym os_bytes = string

datatype mode = TwoWay

record folder_row =
  fr_id :: folder_id
  fr_name :: string
  fr_created_by :: node_id
  fr_rules :: rules
  fr_meta_version :: u64

record member =
  mb_node :: node_id
  mb_path :: os_bytes
  mb_mode :: mode
  mb_joined_at :: timestamp

record history_row =
  hy_batch :: batch
  hy_role :: batch_role
  hy_decision :: "decision option"
  hy_recorded_at :: timestamp

record trash_row =
  tr_trashed_path :: os_bytes
  tr_original_path :: rel_path
  tr_hash :: content_hash
  tr_trashed_at :: timestamp
  tr_size :: u64

record shim =
  sh_path :: rel_path
  sh_requested :: int
  sh_stored :: int

record disk_name =
  dn_path :: rel_path
  dn_name :: os_bytes

record journal_row =
  jr_path :: rel_path
  jr_displaced_to :: os_bytes
  jr_temp_file :: os_bytes

record machine =
  mc_node :: node_id
  mc_hostname :: string
  mc_stable_id :: string
  mc_user :: string
  mc_trusted :: bool
  mc_last_seen :: timestamp
  mc_version :: string

section \<open>The writes of one event\<close>

datatype host_write =
    PutFolder folder_row
  | PutMember folder_id member
  | RemoveMember folder_id node_id
  | PutTrash folder_id trash_row
  | RemoveTrash folder_id os_bytes
  | PutShim folder_id shim
  | RemoveShim folder_id rel_path
  | PutDiskName folder_id disk_name
  | RemoveDiskName folder_id rel_path
  | PutJournal folder_id journal_row
  | RemoveJournal folder_id rel_path
  | PutMachine machine
  | RemoveMachine node_id

datatype engine_write =
    EwRecord folder_id index_record
  | EwRemoveRecord folder_id rel_path
  | EwWant folder_id rel_path "want option"
  | EwPending folder_id rel_path "pending option"
  | EwHeld folder_id batch_id held_state "held_row option"
  | EwDeferred folder_id rel_path "deferred list option"
  | EwRest folder_id rest
  | EwHistory batch batch_role "decision option"

datatype sorted_action = SortedWrite engine_write | SortedEffect action

fun sort_action :: "action \<Rightarrow> sorted_action" where
  "sort_action (AcIndexChanged fid r) = SortedWrite (EwRecord fid r)"
| "sort_action (AcIndexRemoved fid p) = SortedWrite (EwRemoveRecord fid p)"
| "sort_action (AcWantChanged fid p w) = SortedWrite (EwWant fid p w)"
| "sort_action (AcPendingChanged fid p row) = SortedWrite (EwPending fid p row)"
| "sort_action (AcHeldChanged fid b s row) = SortedWrite (EwHeld fid b s row)"
| "sort_action (AcDeferredChanged fid p es) = SortedWrite (EwDeferred fid p es)"
| "sort_action (AcRestChanged fid r) = SortedWrite (EwRest fid r)"
| "sort_action (AcRecordBatch b role d) = SortedWrite (EwHistory b role d)"
| "sort_action effect = SortedEffect effect"

datatype group_write = GwEngine engine_write | GwHost host_write

record group =
  gp_at :: timestamp
  gp_writes :: "group_write list"

definition group_new :: "timestamp \<Rightarrow> group" where
  "group_new at = \<lparr>gp_at = at, gp_writes = []\<rparr>"

definition group_push :: "action \<Rightarrow> group \<Rightarrow> action option \<times> group" where
  "group_push a g =
     (case sort_action a of
        SortedWrite w \<Rightarrow> (None, g\<lparr>gp_writes := gp_writes g @ [GwEngine w]\<rparr>)
      | SortedEffect effect \<Rightarrow> (Some effect, g))"

definition group_host :: "host_write \<Rightarrow> group \<Rightarrow> group" where
  "group_host w g = g\<lparr>gp_writes := gp_writes g @ [GwHost w]\<rparr>"

definition group_is_empty :: "group \<Rightarrow> bool" where
  "group_is_empty g \<longleftrightarrow> gp_writes g = []"

section \<open>The tables\<close>

type_synonym id_blob = "byte list"

record 'j folder_columns =
  fc_name :: string
  fc_created_by :: id_blob
  fc_rules :: 'j
  fc_meta_version :: int

record batch_columns =
  bc_id :: id_blob
  bc_folder :: id_blob
  bc_source :: id_blob
  bc_role :: string
  bc_created_at :: int
  bc_seq_low :: int
  bc_seq_high :: int
  bc_adds :: int
  bc_mods :: int
  bc_dels :: int
  bc_bytes :: int
  bc_decision :: "string option"
  bc_held_reason :: "string option"
  bc_recorded_at :: int

record 'j db =
  tb_folders :: "(id_blob, 'j folder_columns) bmap"
  tb_members :: "(id_blob \<times> id_blob, os_bytes \<times> string \<times> int) bmap"
  tb_folder_state :: "(id_blob, 'j) bmap"
  tb_entries :: "(id_blob \<times> string, entry_columns \<times> int) bmap"
  tb_want :: "(id_blob \<times> string, 'j) bmap"
  tb_pending :: "(id_blob \<times> string, 'j option \<times> bool) bmap"
  tb_held_items :: "(id_blob \<times> id_blob \<times> string \<times> int, 'j) bmap"
  tb_deferred :: "(id_blob \<times> string, 'j) bmap"
  tb_batches :: "(nat, batch_columns) bmap"
  tb_batch_entries :: "(nat \<times> nat, entry_columns) bmap"
  tb_trash :: "(id_blob \<times> os_bytes, string \<times> byte list \<times> int \<times> int) bmap"
  tb_mtime_shim :: "(id_blob \<times> string, int \<times> int) bmap"
  tb_disk_names :: "(id_blob \<times> string, os_bytes) bmap"
  tb_commit_journal :: "(id_blob \<times> string, os_bytes \<times> os_bytes) bmap"
  tb_machines :: "(id_blob, string \<times> string \<times> string \<times> bool \<times> int \<times> string) bmap"

definition SCHEMA_VERSION :: int where
  "SCHEMA_VERSION = 1"

definition check_version :: "int \<Rightarrow> unit stored" where
  "check_version found =
     (if 0 \<le> found \<and> found \<le> SCHEMA_VERSION then Inr () else Inl (UnknownSchema found SCHEMA_VERSION))"

text \<open>The tables of \<open>V1\<close>, as a migration leaves them in a new file.\<close>

definition db_new :: "'j db" where
  "db_new =
     \<lparr>tb_folders = bm_empty, tb_members = bm_empty, tb_folder_state = bm_empty, tb_entries = bm_empty,
      tb_want = bm_empty, tb_pending = bm_empty, tb_held_items = bm_empty, tb_deferred = bm_empty,
      tb_batches = bm_empty, tb_batch_entries = bm_empty, tb_trash = bm_empty, tb_mtime_shim = bm_empty,
      tb_disk_names = bm_empty, tb_commit_journal = bm_empty, tb_machines = bm_empty\<rparr>"

text \<open>\<open>serde_json\<close>, for the types the store has as JSON.\<close>

record 'j json =
  js_rules :: "rules \<Rightarrow> 'j option"
  un_rules :: "'j \<Rightarrow> rules option"
  js_want :: "want \<Rightarrow> 'j option"
  un_want :: "'j \<Rightarrow> want option"
  js_record :: "index_record \<Rightarrow> 'j option"
  un_record :: "'j \<Rightarrow> index_record option"
  js_held :: "held_row \<Rightarrow> 'j option"
  un_held :: "'j \<Rightarrow> held_row option"
  js_deferred :: "deferred list \<Rightarrow> 'j option"
  un_deferred :: "'j \<Rightarrow> deferred list option"
  js_rest :: "rest \<Rightarrow> 'j option"
  un_rest :: "'j \<Rightarrow> rest option"

text \<open>What the code relies on: a value that was written reads back.\<close>

definition round_trips :: "('a \<Rightarrow> 'j option) \<Rightarrow> ('j \<Rightarrow> 'a option) \<Rightarrow> bool" where
  "round_trips enc dec \<longleftrightarrow> (\<forall>x. \<exists>j. enc x = Some j \<and> dec j = Some x)"

definition json_ok :: "'j json \<Rightarrow> bool" where
  "json_ok J \<longleftrightarrow> round_trips (js_rules J) (un_rules J) \<and> round_trips (js_want J) (un_want J) \<and>
     round_trips (js_record J) (un_record J) \<and> round_trips (js_held J) (un_held J) \<and>
     round_trips (js_deferred J) (un_deferred J) \<and> round_trips (js_rest J) (un_rest J)"

definition json_text :: "string \<Rightarrow> ('a \<Rightarrow> 'j option) \<Rightarrow> 'a \<Rightarrow> 'j stored" where
  "json_text table enc x = (case enc x of Some j \<Rightarrow> Inr j | None \<Rightarrow> Inl (Encode table))"

definition from_json :: "string \<Rightarrow> ('j \<Rightarrow> 'a option) \<Rightarrow> 'j \<Rightarrow> 'a stored" where
  "from_json table dec j = (case dec j of Some x \<Rightarrow> Inr x | None \<Rightarrow> Inl (Corrupt table))"

section \<open>Writing\<close>

text \<open>An insert of a row whose \<open>CHECK\<close>s are \<open>checks\<close>, and one whose \<open>folder\<close> references \<open>folders\<close>.\<close>

definition insert_row :: "bool \<Rightarrow> 'j db \<Rightarrow> 'j db stored" where
  "insert_row checks db' = (if checks then Inr db' else Inl Sqlite)"

definition insert_for :: "folder_id \<Rightarrow> 'j db \<Rightarrow> bool \<Rightarrow> 'j db \<Rightarrow> 'j db stored" where
  "insert_for fid db checks db' = insert_row (checks \<and> bm_has (tb_folders db) (folder_bytes fid)) db'"

definition entry_checks :: "entry_columns \<Rightarrow> bool" where
  "entry_checks c \<longleftrightarrow> ec_kind c \<in> {''file'', ''dir'', ''symlink''} \<and> length (ec_hash c) = 32 \<and>
     length (ec_prev_hash c) = 32 \<and> length (ec_by c) = 16"

fun state_text :: "held_state \<Rightarrow> string \<times> int" where
  "state_text HsHeld = (''held'', 0)"
| "state_text (HsDenied at) = (''denied'', nat_col at)"

definition held_checks :: "id_blob \<times> string \<times> int \<Rightarrow> bool" where
  "held_checks k = (case k of (b, s, at) \<Rightarrow>
     length b = 16 \<and> s \<in> {''held'', ''denied''} \<and> (s = ''denied'' \<or> at = 0))"

fun role_text :: "batch_role \<Rightarrow> string" where
  "role_text Sent = ''sent''"
| "role_text Received = ''received''"
| "role_text Paused = ''paused''"

fun decision_text :: "decision option \<Rightarrow> string option \<times> string option" where
  "decision_text None = (None, None)"
| "decision_text (Some Accepted) = (Some ''accepted'', None)"
| "decision_text (Some (Held reason)) = (Some ''held'', Some reason)"

definition batch_checks :: "batch_columns \<Rightarrow> bool" where
  "batch_checks c \<longleftrightarrow> length (bc_id c) = 16 \<and> length (bc_source c) = 16 \<and>
     bc_role c \<in> {''sent'', ''received'', ''paused''} \<and>
     bc_decision c \<in> {None, Some ''accepted'', Some ''held''} \<and>
     (bc_decision c = Some ''held'') = (bc_held_reason c \<noteq> None)"

text \<open>The next \<open>record\<close>: an \<open>INTEGER PRIMARY KEY\<close> that is not given is one above the largest.\<close>

definition next_record :: "'j db \<Rightarrow> nat" where
  "next_record db = (case bm_keys (tb_batches db) of [] \<Rightarrow> 1 | ks \<Rightarrow> last ks + 1)"

fun insert_entries :: "nat \<Rightarrow> nat \<Rightarrow> entry list \<Rightarrow> 'j db \<Rightarrow> 'j db stored" where
  "insert_entries r i [] db = Inr db"
| "insert_entries r i (e # es) db =
     then_try (insert_row (entry_checks (entry_columns_of e) \<and> \<not> bm_has (tb_batch_entries db) (r, i))
        (db\<lparr>tb_batch_entries := bm_insert (r, i) (entry_columns_of e) (tb_batch_entries db)\<rparr>))
       (insert_entries r (i + 1) es)"

definition batch_columns_of :: "timestamp \<Rightarrow> batch \<Rightarrow> batch_role \<Rightarrow> decision option \<Rightarrow> batch_columns" where
  "batch_columns_of at b role d =
     \<lparr>bc_id = batch_bytes (bt_id b), bc_folder = folder_bytes (bt_folder b),
      bc_source = node_bytes (bt_source b), bc_role = role_text role, bc_created_at = bt_created b,
      bc_seq_low = nat_col (bt_seq_low b), bc_seq_high = nat_col (bt_seq_high b),
      bc_adds = int_col (sm_adds (bt_summary b)), bc_mods = int_col (sm_mods (bt_summary b)),
      bc_dels = int_col (sm_dels (bt_summary b)), bc_bytes = int_col (sm_bytes (bt_summary b)),
      bc_decision = fst (decision_text d), bc_held_reason = snd (decision_text d), bc_recorded_at = at\<rparr>"

definition write_history :: "timestamp \<Rightarrow> batch \<Rightarrow> batch_role \<Rightarrow> decision option \<Rightarrow> 'j db \<Rightarrow> 'j db stored" where
  "write_history at b role d db =
     (let c = batch_columns_of at b role d; r = next_record db in
      then_try (insert_for (bt_folder b) db (batch_checks c) (db\<lparr>tb_batches := bm_insert r c (tb_batches db)\<rparr>))
        (insert_entries r 0 (bt_entries b)))"

fun write_engine :: "'j json \<Rightarrow> timestamp \<Rightarrow> engine_write \<Rightarrow> 'j db \<Rightarrow> 'j db stored" where
  "write_engine J at (EwRecord fid r) db =
     (let c = entry_columns_of (ir_entry r) in
      insert_for fid db (entry_checks c)
        (db\<lparr>tb_entries := bm_insert (folder_bytes fid, ec_path c) (c, nat_col (ir_seq r)) (tb_entries db)\<rparr>))"
| "write_engine J at (EwRemoveRecord fid p) db =
     Inr (db\<lparr>tb_entries := bm_remove (folder_bytes fid, path_str p) (tb_entries db)\<rparr>)"
| "write_engine J at (EwWant fid p (Some w)) db =
     then_try (json_text ''want'' (js_want J) w) (\<lambda>j. insert_for fid db True
       (db\<lparr>tb_want := bm_insert (folder_bytes fid, path_str p) j (tb_want db)\<rparr>))"
| "write_engine J at (EwWant fid p None) db =
     Inr (db\<lparr>tb_want := bm_remove (folder_bytes fid, path_str p) (tb_want db)\<rparr>)"
| "write_engine J at (EwPending fid p (Some row)) db =
     then_try (case pd_announced row of
          Some r \<Rightarrow> then_try (json_text ''pending'' (js_record J) r) (\<lambda>j. Inr (Some j))
        | None \<Rightarrow> Inr None)
       (\<lambda>announced. insert_for fid db True (db\<lparr>tb_pending :=
          bm_insert (folder_bytes fid, path_str p) (announced, pd_exempt row) (tb_pending db)\<rparr>))"
| "write_engine J at (EwPending fid p None) db =
     Inr (db\<lparr>tb_pending := bm_remove (folder_bytes fid, path_str p) (tb_pending db)\<rparr>)"
| "write_engine J at (EwHeld fid b state (Some row)) db =
     (let k = (batch_bytes b, state_text state) in
      then_try (json_text ''held_items'' (js_held J) row) (\<lambda>j. insert_for fid db (held_checks k)
        (db\<lparr>tb_held_items := bm_insert (folder_bytes fid, k) j (tb_held_items db)\<rparr>)))"
| "write_engine J at (EwHeld fid b state None) db =
     Inr (db\<lparr>tb_held_items :=
       bm_remove (folder_bytes fid, batch_bytes b, state_text state) (tb_held_items db)\<rparr>)"
| "write_engine J at (EwDeferred fid p (Some es)) db =
     then_try (json_text ''deferred'' (js_deferred J) es) (\<lambda>j. insert_for fid db True
       (db\<lparr>tb_deferred := bm_insert (folder_bytes fid, path_str p) j (tb_deferred db)\<rparr>))"
| "write_engine J at (EwDeferred fid p None) db =
     Inr (db\<lparr>tb_deferred := bm_remove (folder_bytes fid, path_str p) (tb_deferred db)\<rparr>)"
| "write_engine J at (EwRest fid r) db =
     then_try (json_text ''folder_state'' (js_rest J) r) (\<lambda>j. insert_for fid db True
       (db\<lparr>tb_folder_state := bm_insert (folder_bytes fid) j (tb_folder_state db)\<rparr>))"
| "write_engine J at (EwHistory b role d) db = write_history at b role d db"

fun mode_text :: "mode \<Rightarrow> string" where
  "mode_text TwoWay = ''two-way''"

definition machine_columns :: "machine \<Rightarrow> string \<times> string \<times> string \<times> bool \<times> int \<times> string" where
  "machine_columns m =
     (mc_hostname m, mc_stable_id m, mc_user m, mc_trusted m, mc_last_seen m, mc_version m)"

fun write_host :: "'j json \<Rightarrow> host_write \<Rightarrow> 'j db \<Rightarrow> 'j db stored" where
  "write_host J (PutFolder row) db =
     then_try (json_text ''folders'' (js_rules J) (fr_rules row)) (\<lambda>j.
       insert_row (length (folder_bytes (fr_id row)) = 16 \<and> length (node_bytes (fr_created_by row)) = 16)
         (db\<lparr>tb_folders := bm_insert (folder_bytes (fr_id row))
            \<lparr>fc_name = fr_name row, fc_created_by = node_bytes (fr_created_by row), fc_rules = j,
             fc_meta_version = int_col (fr_meta_version row)\<rparr> (tb_folders db)\<rparr>))"
| "write_host J (PutMember fid m) db =
     insert_for fid db (length (node_bytes (mb_node m)) = 16)
       (db\<lparr>tb_members := bm_insert (folder_bytes fid, node_bytes (mb_node m))
          (mb_path m, mode_text (mb_mode m), mb_joined_at m) (tb_members db)\<rparr>)"
| "write_host J (RemoveMember fid n) db =
     Inr (db\<lparr>tb_members := bm_remove (folder_bytes fid, node_bytes n) (tb_members db)\<rparr>)"
| "write_host J (PutTrash fid row) db =
     insert_for fid db (length (hash_bytes (tr_hash row)) = 32)
       (db\<lparr>tb_trash := bm_insert (folder_bytes fid, tr_trashed_path row)
          (path_str (tr_original_path row), hash_bytes (tr_hash row), tr_trashed_at row, int_col (tr_size row))
          (tb_trash db)\<rparr>)"
| "write_host J (RemoveTrash fid trashed) db =
     Inr (db\<lparr>tb_trash := bm_remove (folder_bytes fid, trashed) (tb_trash db)\<rparr>)"
| "write_host J (PutShim fid s) db =
     insert_for fid db True (db\<lparr>tb_mtime_shim := bm_insert (folder_bytes fid, path_str (sh_path s))
        (sh_requested s, sh_stored s) (tb_mtime_shim db)\<rparr>)"
| "write_host J (RemoveShim fid p) db =
     Inr (db\<lparr>tb_mtime_shim := bm_remove (folder_bytes fid, path_str p) (tb_mtime_shim db)\<rparr>)"
| "write_host J (PutDiskName fid d) db =
     insert_for fid db True (db\<lparr>tb_disk_names := bm_insert (folder_bytes fid, path_str (dn_path d))
        (dn_name d) (tb_disk_names db)\<rparr>)"
| "write_host J (RemoveDiskName fid p) db =
     Inr (db\<lparr>tb_disk_names := bm_remove (folder_bytes fid, path_str p) (tb_disk_names db)\<rparr>)"
| "write_host J (PutJournal fid row) db =
     insert_for fid db True (db\<lparr>tb_commit_journal := bm_insert (folder_bytes fid, path_str (jr_path row))
        (jr_displaced_to row, jr_temp_file row) (tb_commit_journal db)\<rparr>)"
| "write_host J (RemoveJournal fid p) db =
     Inr (db\<lparr>tb_commit_journal := bm_remove (folder_bytes fid, path_str p) (tb_commit_journal db)\<rparr>)"
| "write_host J (PutMachine m) db =
     insert_row (length (node_bytes (mc_node m)) = 16)
       (db\<lparr>tb_machines := bm_insert (node_bytes (mc_node m)) (machine_columns m) (tb_machines db)\<rparr>)"
| "write_host J (RemoveMachine n) db =
     Inr (db\<lparr>tb_machines := bm_remove (node_bytes n) (tb_machines db)\<rparr>)"

text \<open>\<open>Store::commit\<close>: every write of every group in one transaction; an error leaves what there was.\<close>

fun write_one :: "'j json \<Rightarrow> timestamp \<Rightarrow> group_write \<Rightarrow> 'j db \<Rightarrow> 'j db stored" where
  "write_one J at (GwEngine w) db = write_engine J at w db"
| "write_one J at (GwHost w) db = write_host J w db"

fun write_all :: "'j json \<Rightarrow> timestamp \<Rightarrow> group_write list \<Rightarrow> 'j db \<Rightarrow> 'j db stored" where
  "write_all J at [] db = Inr db"
| "write_all J at (w # ws) db = then_try (write_one J at w db) (write_all J at ws)"

fun write_groups :: "'j json \<Rightarrow> group list \<Rightarrow> 'j db \<Rightarrow> 'j db stored" where
  "write_groups J [] db = Inr db"
| "write_groups J (g # gs) db = then_try (write_all J (gp_at g) (gp_writes g) db) (write_groups J gs)"

definition store_commit :: "'j json \<Rightarrow> group list \<Rightarrow> 'j db \<Rightarrow> unit stored \<times> 'j db" where
  "store_commit J gs db = (case write_groups J gs db of Inl e \<Rightarrow> (Inl e, db) | Inr db' \<Rightarrow> (Inr (), db'))"

section \<open>Reading\<close>

text \<open>The rows of a folder, in the order of the rest of the key.\<close>

definition rows_of :: "folder_id \<Rightarrow> (id_blob \<times> 'k::linorder, 'r) bmap \<Rightarrow> ('k \<times> 'r) list" where
  "rows_of fid t =
     map (\<lambda>((f, k), r). (k, r)) (filter (\<lambda>((f, k), r). f = folder_bytes fid) (bm_entries t))"

definition read_folder :: "'j json \<Rightarrow> id_blob \<times> 'j folder_columns \<Rightarrow> folder_row stored" where
  "read_folder J row =
     then_try (folder_col ''folders'' (fst row)) (\<lambda>fid.
     then_try (node_col ''folders'' (fc_created_by (snd row))) (\<lambda>created_by.
     then_try (from_json ''folders'' (un_rules J) (fc_rules (snd row))) (\<lambda>rs.
       Inr \<lparr>fr_id = fid, fr_name = fc_name (snd row), fr_created_by = created_by, fr_rules = rs,
            fr_meta_version = uint_col (fc_meta_version (snd row))\<rparr>)))"

definition store_folders :: "'j json \<Rightarrow> 'j db \<Rightarrow> folder_row list stored" where
  "store_folders J db = try_all (read_folder J) (bm_entries (tb_folders db))"

definition store_folder :: "'j json \<Rightarrow> folder_id \<Rightarrow> 'j db \<Rightarrow> folder_row option stored" where
  "store_folder J fid db =
     (case bm_get (tb_folders db) (folder_bytes fid) of
        None \<Rightarrow> Inr None
      | Some c \<Rightarrow> then_try (read_folder J (folder_bytes fid, c)) (\<lambda>row. Inr (Some row)))"

definition read_member :: "id_blob \<times> os_bytes \<times> string \<times> int \<Rightarrow> member stored" where
  "read_member row = (case row of (n, path, m, at) \<Rightarrow>
     then_try (node_col ''members'' n) (\<lambda>n.
       if m = ''two-way''
       then Inr \<lparr>mb_node = n, mb_path = path, mb_mode = TwoWay, mb_joined_at = at\<rparr>
       else Inl (Corrupt ''members'')))"

definition store_members :: "folder_id \<Rightarrow> 'j db \<Rightarrow> member list stored" where
  "store_members fid db = try_all read_member (rows_of fid (tb_members db))"

definition store_rest :: "'j json \<Rightarrow> folder_id \<Rightarrow> 'j db \<Rightarrow> rest option stored" where
  "store_rest J fid db =
     (case bm_get (tb_folder_state db) (folder_bytes fid) of
        None \<Rightarrow> Inr None
      | Some j \<Rightarrow> then_try (from_json ''folder_state'' (un_rest J) j) (\<lambda>r. Inr (Some r)))"

definition read_record :: "string \<times> entry_columns \<times> int \<Rightarrow> index_record stored" where
  "read_record row = (case row of (_, c, seq) \<Rightarrow>
     then_try (entry_col ''entries'' c) (\<lambda>e. Inr \<lparr>ir_entry = e, ir_seq = unat_col seq\<rparr>))"

definition store_records :: "folder_id \<Rightarrow> 'j db \<Rightarrow> (rel_path, index_record) bmap stored" where
  "store_records fid db =
     then_try (try_all read_record (rows_of fid (tb_entries db)))
       (\<lambda>rs. Inr (bm_of_list (map (\<lambda>r. (e_path (ir_entry r), r)) rs)))"

definition read_keyed :: "string \<Rightarrow> ('r \<Rightarrow> 'v stored) \<Rightarrow> string \<times> 'r \<Rightarrow> (rel_path \<times> 'v) stored" where
  "read_keyed table dec row =
     then_try (rel_path_col table (fst row)) (\<lambda>p. then_try (dec (snd row)) (\<lambda>v. Inr (p, v)))"

definition store_wants :: "'j json \<Rightarrow> folder_id \<Rightarrow> 'j db \<Rightarrow> (rel_path, want) bmap stored" where
  "store_wants J fid db =
     then_try (try_all (read_keyed ''want'' (from_json ''want'' (un_want J))) (rows_of fid (tb_want db)))
       (\<lambda>rs. Inr (bm_of_list rs))"

definition read_pending :: "'j json \<Rightarrow> 'j option \<times> bool \<Rightarrow> pending stored" where
  "read_pending J row =
     then_try (case fst row of
          Some j \<Rightarrow> then_try (from_json ''pending'' (un_record J) j) (\<lambda>r. Inr (Some r))
        | None \<Rightarrow> Inr None)
       (\<lambda>announced. Inr \<lparr>pd_announced = announced, pd_exempt = snd row\<rparr>)"

definition store_pending :: "'j json \<Rightarrow> folder_id \<Rightarrow> 'j db \<Rightarrow> (rel_path, pending) bmap stored" where
  "store_pending J fid db =
     then_try (try_all (read_keyed ''pending'' (read_pending J)) (rows_of fid (tb_pending db)))
       (\<lambda>rs. Inr (bm_of_list rs))"

definition state_col :: "string \<times> int \<Rightarrow> held_state stored" where
  "state_col s =
     (if fst s = ''held'' then Inr HsHeld
      else if fst s = ''denied'' then Inr (HsDenied (unat_col (snd s)))
      else Inl (Corrupt ''held_items''))"

definition read_held ::
    "'j json \<Rightarrow> (id_blob \<times> string \<times> int) \<times> 'j \<Rightarrow> ((batch_id \<times> held_state) \<times> held_row) stored" where
  "read_held J row = (case row of ((b, s), j) \<Rightarrow>
     then_try (batch_col ''held_items'' b) (\<lambda>b.
     then_try (state_col s) (\<lambda>s.
     then_try (from_json ''held_items'' (un_held J) j) (\<lambda>r. Inr ((b, s), r)))))"

definition store_held :: "'j json \<Rightarrow> folder_id \<Rightarrow> 'j db \<Rightarrow> (batch_id \<times> held_state, held_row) bmap stored" where
  "store_held J fid db =
     then_try (try_all (read_held J) (rows_of fid (tb_held_items db))) (\<lambda>rs. Inr (bm_of_list rs))"

definition store_deferred :: "'j json \<Rightarrow> folder_id \<Rightarrow> 'j db \<Rightarrow> (rel_path, deferred list) bmap stored" where
  "store_deferred J fid db =
     then_try (try_all (read_keyed ''deferred'' (from_json ''deferred'' (un_deferred J)))
         (rows_of fid (tb_deferred db)))
       (\<lambda>rs. Inr (bm_of_list rs))"

definition role_col :: "string \<Rightarrow> batch_role stored" where
  "role_col t =
     (if t = ''sent'' then Inr Sent else if t = ''received'' then Inr Received
      else if t = ''paused'' then Inr Paused else Inl (Corrupt ''batches''))"

fun decision_col :: "string option \<times> string option \<Rightarrow> decision option stored" where
  "decision_col (None, None) = Inr None"
| "decision_col (Some t, None) = (if t = ''accepted'' then Inr (Some Accepted) else Inl (Corrupt ''batches''))"
| "decision_col (Some t, Some reason) = (if t = ''held'' then Inr (Some (Held reason)) else Inl (Corrupt ''batches''))"
| "decision_col (None, Some _) = Inl (Corrupt ''batches'')"

definition read_head :: "folder_id \<Rightarrow> batch_columns \<Rightarrow> history_row stored" where
  "read_head fid c =
     then_try (role_col (bc_role c)) (\<lambda>role.
     then_try (decision_col (bc_decision c, bc_held_reason c)) (\<lambda>d.
     then_try (batch_col ''batches'' (bc_id c)) (\<lambda>b.
     then_try (node_col ''batches'' (bc_source c)) (\<lambda>source.
       Inr \<lparr>hy_batch = \<lparr>bt_id = b, bt_folder = fid, bt_source = source, bt_created = bc_created_at c,
              bt_seq_low = unat_col (bc_seq_low c), bt_seq_high = unat_col (bc_seq_high c), bt_entries = [],
              bt_summary = \<lparr>sm_adds = uint_col (bc_adds c), sm_mods = uint_col (bc_mods c),
                sm_dels = uint_col (bc_dels c), sm_bytes = uint_col (bc_bytes c)\<rparr>\<rparr>,
            hy_role = role, hy_decision = d, hy_recorded_at = bc_recorded_at c\<rparr>))))"

definition heads_of :: "folder_id \<Rightarrow> 'j db \<Rightarrow> (nat \<times> batch_columns) list" where
  "heads_of fid db = filter (\<lambda>(r, c). bc_folder c = folder_bytes fid) (bm_entries (tb_batches db))"

definition entries_of_batch :: "nat \<Rightarrow> 'j db \<Rightarrow> entry_columns list" where
  "entries_of_batch r db =
     map snd (filter (\<lambda>((r', i), c). r' = r) (bm_entries (tb_batch_entries db)))"

definition store_history :: "folder_id \<Rightarrow> 'j db \<Rightarrow> history_row list stored" where
  "store_history fid db =
     then_try (try_all (\<lambda>(r, c). then_try (read_head fid c) (\<lambda>h. Inr (r, h))) (heads_of fid db))
       (try_all (\<lambda>(r, h).
          then_try (try_all (entry_col ''batch_entries'') (entries_of_batch r db)) (\<lambda>es.
            Inr (h\<lparr>hy_batch := (hy_batch h)\<lparr>bt_entries := es\<rparr>\<rparr>))))"

definition read_trash :: "os_bytes \<times> string \<times> byte list \<times> int \<times> int \<Rightarrow> trash_row stored" where
  "read_trash row = (case row of (trashed, original, hash, at, bytes) \<Rightarrow>
     then_try (rel_path_col ''trash'' original) (\<lambda>original.
     then_try (hash_col ''trash'' hash) (\<lambda>hash.
       Inr \<lparr>tr_trashed_path = trashed, tr_original_path = original, tr_hash = hash,
            tr_trashed_at = at, tr_size = uint_col bytes\<rparr>)))"

definition store_trash :: "folder_id \<Rightarrow> 'j db \<Rightarrow> trash_row list stored" where
  "store_trash fid db = try_all read_trash (rows_of fid (tb_trash db))"

definition read_shim :: "string \<times> int \<times> int \<Rightarrow> shim stored" where
  "read_shim row = (case row of (path, requested, stored) \<Rightarrow>
     then_try (rel_path_col ''mtime_shim'' path) (\<lambda>path.
       Inr \<lparr>sh_path = path, sh_requested = requested, sh_stored = stored\<rparr>))"

definition store_shims :: "folder_id \<Rightarrow> 'j db \<Rightarrow> shim list stored" where
  "store_shims fid db = try_all read_shim (rows_of fid (tb_mtime_shim db))"

definition read_disk_name :: "string \<times> os_bytes \<Rightarrow> disk_name stored" where
  "read_disk_name row =
     then_try (rel_path_col ''disk_names'' (fst row)) (\<lambda>path. Inr \<lparr>dn_path = path, dn_name = snd row\<rparr>)"

definition store_disk_names :: "folder_id \<Rightarrow> 'j db \<Rightarrow> disk_name list stored" where
  "store_disk_names fid db = try_all read_disk_name (rows_of fid (tb_disk_names db))"

definition read_journal :: "string \<times> os_bytes \<times> os_bytes \<Rightarrow> journal_row stored" where
  "read_journal row = (case row of (path, displaced_to, temp_file) \<Rightarrow>
     then_try (rel_path_col ''commit_journal'' path) (\<lambda>path.
       Inr \<lparr>jr_path = path, jr_displaced_to = displaced_to, jr_temp_file = temp_file\<rparr>))"

definition store_journal :: "folder_id \<Rightarrow> 'j db \<Rightarrow> journal_row list stored" where
  "store_journal fid db = try_all read_journal (rows_of fid (tb_commit_journal db))"

definition read_machine :: "id_blob \<times> string \<times> string \<times> string \<times> bool \<times> int \<times> string \<Rightarrow> machine stored" where
  "read_machine row = (case row of (n, hostname, stable_id, user, trusted, last_seen, v) \<Rightarrow>
     then_try (node_col ''machines'' n) (\<lambda>n.
       Inr \<lparr>mc_node = n, mc_hostname = hostname, mc_stable_id = stable_id, mc_user = user,
            mc_trusted = trusted, mc_last_seen = last_seen, mc_version = v\<rparr>))"

definition store_machines :: "'j db \<Rightarrow> machine list stored" where
  "store_machines db = try_all read_machine (bm_entries (tb_machines db))"

text \<open>\<open>parts\<close>: \<open>None\<close> for a folder that was not recorded, or whose rest the engine never reported.\<close>

definition store_parts :: "'j json \<Rightarrow> folder_id \<Rightarrow> 'j db \<Rightarrow> folder_parts option stored" where
  "store_parts J fid db =
     then_try (store_folder J fid db) (\<lambda>meta. case meta of None \<Rightarrow> Inr None | Some meta \<Rightarrow>
     then_try (store_rest J fid db) (\<lambda>r. case r of None \<Rightarrow> Inr None | Some r \<Rightarrow>
     then_try (store_members fid db) (\<lambda>members.
     then_try (store_records fid db) (\<lambda>records.
     then_try (store_wants J fid db) (\<lambda>wants.
     then_try (store_pending J fid db) (\<lambda>pending.
     then_try (store_held J fid db) (\<lambda>held.
     then_try (store_deferred J fid db) (\<lambda>deferred.
       Inr (Some \<lparr>fp_id = fid, fp_rules = fr_rules meta, fp_members = bs_of_list (map mb_node members),
          fp_records = records, fp_wants = wants, fp_pending = pending, fp_held = held,
          fp_deferred = deferred, fp_rest = r\<rparr>)))))))))"

definition store_load :: "'j json \<Rightarrow> 'j db \<Rightarrow> folder_parts list stored" where
  "store_load J db =
     then_try (store_folders J db) (\<lambda>rows.
     then_try (try_all (\<lambda>row. store_parts J (fr_id row) db) rows)
       (\<lambda>parts. Inr (concat (map (\<lambda>p. case p of None \<Rightarrow> [] | Some p \<Rightarrow> [p]) parts))))"

end
