(* ===== verification/Mirrors.thy ===== *)
theory Mirrors
  imports Stores
begin

text \<open>
  \<open>crates/delocal/src/store/mirror.rs\<close>: the store's reference, plain maps to which the same writes are
  applied as the design has them: a row replaces the one with its key, \<open>None\<close> removes it, history appends.
  Where the code panics, for a write before its folder, the operation has no result.
\<close>

section \<open>The reference\<close>

record tables =
  mt_row :: folder_row
  mt_members :: "(node_id, member) bmap"
  mt_records :: "(rel_path, index_record) bmap"
  mt_wants :: "(rel_path, want) bmap"
  mt_pending :: "(rel_path, pending) bmap"
  mt_held :: "(batch_id \<times> held_state, held_row) bmap"
  mt_deferred :: "(rel_path, deferred list) bmap"
  mt_rest :: "rest option"
  mt_history :: "history_row list"
  mt_trash :: "(os_bytes, trash_row) bmap"
  mt_shims :: "(rel_path, shim) bmap"
  mt_disk_names :: "(rel_path, disk_name) bmap"
  mt_journal :: "(rel_path, journal_row) bmap"

record mirror =
  mi_folders :: "(folder_id, tables) bmap"
  mi_machines :: "(node_id, machine) bmap"

definition mirror_new :: mirror where
  "mirror_new = \<lparr>mi_folders = bm_empty, mi_machines = bm_empty\<rparr>"

definition tables_new :: "folder_row \<Rightarrow> tables" where
  "tables_new row =
     \<lparr>mt_row = row, mt_members = bm_empty, mt_records = bm_empty, mt_wants = bm_empty,
      mt_pending = bm_empty, mt_held = bm_empty, mt_deferred = bm_empty, mt_rest = None,
      mt_history = [], mt_trash = bm_empty, mt_shims = bm_empty, mt_disk_names = bm_empty,
      mt_journal = bm_empty\<rparr>"

definition set_row :: "('k::linorder, 'v) bmap \<Rightarrow> 'k \<Rightarrow> 'v option \<Rightarrow> ('k, 'v) bmap" where
  "set_row m k v = (case v of Some v \<Rightarrow> bm_insert k v m | None \<Rightarrow> bm_remove k m)"

definition on_tables :: "folder_id \<Rightarrow> (tables \<Rightarrow> tables) \<Rightarrow> mirror \<Rightarrow> mirror option" where
  "on_tables fid f m =
     (case bm_get (mi_folders m) fid of
        Some t \<Rightarrow> Some (m\<lparr>mi_folders := bm_insert fid (f t) (mi_folders m)\<rparr>)
      | None \<Rightarrow> None)"

fun mirror_hook :: "timestamp \<Rightarrow> action \<Rightarrow> mirror \<Rightarrow> mirror option" where
  "mirror_hook at (AcIndexChanged fid r) m =
     on_tables fid (\<lambda>t. t\<lparr>mt_records := bm_insert (e_path (ir_entry r)) r (mt_records t)\<rparr>) m"
| "mirror_hook at (AcIndexRemoved fid p) m =
     on_tables fid (\<lambda>t. t\<lparr>mt_records := bm_remove p (mt_records t)\<rparr>) m"
| "mirror_hook at (AcWantChanged fid p w) m =
     on_tables fid (\<lambda>t. t\<lparr>mt_wants := set_row (mt_wants t) p w\<rparr>) m"
| "mirror_hook at (AcPendingChanged fid p row) m =
     on_tables fid (\<lambda>t. t\<lparr>mt_pending := set_row (mt_pending t) p row\<rparr>) m"
| "mirror_hook at (AcHeldChanged fid b s row) m =
     on_tables fid (\<lambda>t. t\<lparr>mt_held := set_row (mt_held t) (b, s) row\<rparr>) m"
| "mirror_hook at (AcDeferredChanged fid p es) m =
     on_tables fid (\<lambda>t. t\<lparr>mt_deferred := set_row (mt_deferred t) p es\<rparr>) m"
| "mirror_hook at (AcRestChanged fid r) m = on_tables fid (\<lambda>t. t\<lparr>mt_rest := Some r\<rparr>) m"
| "mirror_hook at (AcRecordBatch b role d) m =
     on_tables (bt_folder b) (\<lambda>t. t\<lparr>mt_history := mt_history t @
       [\<lparr>hy_batch = b, hy_role = role, hy_decision = d, hy_recorded_at = at\<rparr>]\<rparr>) m"
| "mirror_hook at other m = None"

fun mirror_host :: "host_write \<Rightarrow> mirror \<Rightarrow> mirror option" where
  "mirror_host (PutFolder row) m =
     (case bm_get (mi_folders m) (fr_id row) of
        Some t \<Rightarrow> Some (m\<lparr>mi_folders := bm_insert (fr_id row) (t\<lparr>mt_row := row\<rparr>) (mi_folders m)\<rparr>)
      | None \<Rightarrow> Some (m\<lparr>mi_folders := bm_insert (fr_id row) (tables_new row) (mi_folders m)\<rparr>))"
| "mirror_host (PutMember fid mem) m =
     on_tables fid (\<lambda>t. t\<lparr>mt_members := bm_insert (mb_node mem) mem (mt_members t)\<rparr>) m"
| "mirror_host (RemoveMember fid n) m = on_tables fid (\<lambda>t. t\<lparr>mt_members := bm_remove n (mt_members t)\<rparr>) m"
| "mirror_host (PutTrash fid row) m =
     on_tables fid (\<lambda>t. t\<lparr>mt_trash := bm_insert (tr_trashed_path row) row (mt_trash t)\<rparr>) m"
| "mirror_host (RemoveTrash fid trashed) m =
     on_tables fid (\<lambda>t. t\<lparr>mt_trash := bm_remove trashed (mt_trash t)\<rparr>) m"
| "mirror_host (PutShim fid s) m =
     on_tables fid (\<lambda>t. t\<lparr>mt_shims := bm_insert (sh_path s) s (mt_shims t)\<rparr>) m"
| "mirror_host (RemoveShim fid p) m = on_tables fid (\<lambda>t. t\<lparr>mt_shims := bm_remove p (mt_shims t)\<rparr>) m"
| "mirror_host (PutDiskName fid d) m =
     on_tables fid (\<lambda>t. t\<lparr>mt_disk_names := bm_insert (dn_path d) d (mt_disk_names t)\<rparr>) m"
| "mirror_host (RemoveDiskName fid p) m =
     on_tables fid (\<lambda>t. t\<lparr>mt_disk_names := bm_remove p (mt_disk_names t)\<rparr>) m"
| "mirror_host (PutJournal fid row) m =
     on_tables fid (\<lambda>t. t\<lparr>mt_journal := bm_insert (jr_path row) row (mt_journal t)\<rparr>) m"
| "mirror_host (RemoveJournal fid p) m =
     on_tables fid (\<lambda>t. t\<lparr>mt_journal := bm_remove p (mt_journal t)\<rparr>) m"
| "mirror_host (PutMachine mc) m = Some (m\<lparr>mi_machines := bm_insert (mc_node mc) mc (mi_machines m)\<rparr>)"
| "mirror_host (RemoveMachine n) m = Some (m\<lparr>mi_machines := bm_remove n (mi_machines m)\<rparr>)"

datatype store_op = OpHook action | OpHost host_write

record store_ops =
  op_at :: timestamp
  op_list :: "store_op list"

fun mirror_op :: "timestamp \<Rightarrow> store_op \<Rightarrow> mirror \<Rightarrow> mirror option" where
  "mirror_op at (OpHook a) m = mirror_hook at a m"
| "mirror_op at (OpHost w) m = mirror_host w m"

fun mirror_steps :: "timestamp \<Rightarrow> store_op list \<Rightarrow> mirror \<Rightarrow> mirror option" where
  "mirror_steps at [] m = Some m"
| "mirror_steps at (op # ops) m =
     (case mirror_op at op m of None \<Rightarrow> None | Some m \<Rightarrow> mirror_steps at ops m)"

definition mirror_apply :: "store_ops \<Rightarrow> mirror \<Rightarrow> mirror option" where
  "mirror_apply ops = mirror_steps (op_at ops) (op_list ops)"

text \<open>\<open>Ops::group\<close>: the same writes as a group; no result if one of them is an effect.\<close>

fun ops_group_from :: "store_op list \<Rightarrow> group \<Rightarrow> group option" where
  "ops_group_from [] g = Some g"
| "ops_group_from (OpHook a # ops) g =
     (case group_push a g of (None, g) \<Rightarrow> ops_group_from ops g | (Some _, _) \<Rightarrow> None)"
| "ops_group_from (OpHost w # ops) g = ops_group_from ops (group_host w g)"

definition ops_group :: "store_ops \<Rightarrow> group option" where
  "ops_group ops = ops_group_from (op_list ops) (group_new (op_at ops))"

definition mirror_parts :: "folder_id \<Rightarrow> mirror \<Rightarrow> folder_parts option" where
  "mirror_parts fid m =
     (case bm_get (mi_folders m) fid of
        None \<Rightarrow> None
      | Some t \<Rightarrow>
         (case mt_rest t of
            None \<Rightarrow> None
          | Some r \<Rightarrow> Some \<lparr>fp_id = fid, fp_rules = fr_rules (mt_row t),
              fp_members = bs_of_list (bm_keys (mt_members t)), fp_records = mt_records t,
              fp_wants = mt_wants t, fp_pending = mt_pending t, fp_held = mt_held t,
              fp_deferred = mt_deferred t, fp_rest = r\<rparr>))"

definition mirror_folder_ids :: "mirror \<Rightarrow> folder_id list" where
  "mirror_folder_ids m = bm_keys (mi_folders m)"

end
