(* ===== verification/StoreLaws.thy ===== *)
theory StoreLaws
  imports Mirrors
begin

text \<open>
  The tables of the store stand for the maps of its reference. A table's rows stand for a map if they are
  the map's entries with each key and value encoded; \<open>column_codec\<close> is what the encoding of a table must
  satisfy for that to be kept by every write and for the reader to give the map back, and every table is
  an interpretation of it.
\<close>

section \<open>Rows\<close>

lemma sorted_rows_eq:
  assumes "sorted_wrt (<) (map fst xs)" and "sorted_wrt (<) (map fst ys)" and "set xs = set ys"
  shows "xs = (ys :: ('k::linorder \<times> 'v) list)"
proof (rule map_sorted_distinct_set_unique [where f = fst])
  show "inj_on fst (set xs \<union> set ys)"
    using assms sorted_wrt_less_distinct [OF assms(1)] by (simp add: distinct_map)
  show "sorted (map fst xs)" "sorted (map fst ys)" "distinct (map fst xs)" "distinct (map fst ys)"
    using assms by (auto intro: sorted_wrt_less_distinct strict_sorted_imp_sorted)
qed (rule assms(3))

lemma bm_of_list_same:
  assumes "distinct (map fst es)" and "set es = set (bm_entries m)"
  shows "bm_of_list es = m"
proof (rule bm_eqI)
  fix k
  have "distinct (map fst (rev es))" using assms(1) by (simp add: rev_map [symmetric])
  then have "map_of (rev es) k = Some v \<longleftrightarrow> bm_get m k = Some v" for v
    using assms(2) by (simp add: in_bm_entries)
  then show "bm_get (bm_of_list es) k = bm_get m k"
    unfolding bm_get_of_list by (metis not_Some_eq)
qed

lemma set_entries_insert: "set (bm_entries (bm_insert k v m)) = insert (k, v) {x \<in> set (bm_entries m). fst x \<noteq> k}"
  by (auto simp: in_bm_entries simp del: bm_insert.rep_eq split: if_splits)

lemma set_entries_remove: "set (bm_entries (bm_remove k m)) = {x \<in> set (bm_entries m). fst x \<noteq> k}"
  by auto

lemma in_rows_of: "(k, r) \<in> set (rows_of fid t) \<longleftrightarrow> ((folder_bytes fid, k), r) \<in> set (bm_entries t)"
  by (force simp: rows_of_def)

lemma rows_of_insert:
  "set (rows_of fid (bm_insert (f, c) r t)) =
     (if f = folder_bytes fid then insert (c, r) {x \<in> set (rows_of fid t). fst x \<noteq> c} else set (rows_of fid t))"
  by (auto simp: in_rows_of set_entries_insert simp del: bm_insert.rep_eq)

lemma rows_of_remove:
  "set (rows_of fid (bm_remove (f, c) t)) =
     (if f = folder_bytes fid then {x \<in> set (rows_of fid t). fst x \<noteq> c} else set (rows_of fid t))"
  by (auto simp: in_rows_of set_entries_remove)

lemma rows_of_sorted: "sorted_wrt (<) (map fst (rows_of fid t))"
proof -
  have "sorted_wrt (<) (map fst (map (\<lambda>((f, k), r). (k, r)) (filter (\<lambda>((f, k), r). f = b) es)))"
    if "sorted_wrt (<) (map fst es)" for es :: "((id_blob \<times> 'a) \<times> 'b) list" and b
    using that by (induction es) auto
  from this [OF bm.sorted_entries] show ?thesis by (simp add: rows_of_def)
qed

lemma folder_bytes_eq [simp]: "folder_bytes a = folder_bytes b \<longleftrightarrow> a = b"
  by (auto intro: folder_id.expand)

lemma rows_of_elsewhere [simp]:
  "f \<noteq> fid \<Longrightarrow> rows_of f (bm_insert (folder_bytes fid, c) r t) = rows_of f t"
  "f \<noteq> fid \<Longrightarrow> rows_of f (bm_remove (folder_bytes fid, c) t) = rows_of f t"
  by (auto intro!: sorted_rows_eq rows_of_sorted simp: rows_of_insert rows_of_remove)

section \<open>The contract of a table's columns\<close>

definition stands ::
    "('k::linorder \<Rightarrow> 'c) \<Rightarrow> ('v \<Rightarrow> 'r) \<Rightarrow> ('k \<Rightarrow> 'v \<Rightarrow> bool) \<Rightarrow> ('c \<times> 'r) list \<Rightarrow> ('k, 'v) bmap \<Rightarrow> bool" where
  "stands key row ok rows m \<longleftrightarrow> (\<forall>k v. bm_get m k = Some v \<longrightarrow> ok k v) \<and>
     set rows = (\<lambda>(k, v). (key k, row v)) ` set (bm_entries m)"

lemma stands_empty: "stands key row ok rows bm_empty \<longleftrightarrow> rows = []"
  by (simp add: stands_def)

lemma stands_rows: "set rows = set rows' \<Longrightarrow> stands key row ok rows m = stands key row ok rows' m"
  by (simp add: stands_def)

locale column_codec =
  fixes key :: "'k::linorder \<Rightarrow> 'c::linorder"
    and row :: "'v \<Rightarrow> 'r"
    and key_ok :: "'k \<Rightarrow> bool"
    and ok :: "'k \<Rightarrow> 'v \<Rightarrow> bool"
    and read :: "'c \<times> 'r \<Rightarrow> 'o stored"
    and out :: "'k \<Rightarrow> 'v \<Rightarrow> 'o"
  assumes key_inj: "key_ok k \<Longrightarrow> key_ok k' \<Longrightarrow> key k = key k' \<Longrightarrow> k = k'"
    and ok_key: "ok k v \<Longrightarrow> key_ok k"
    and read_row: "ok k v \<Longrightarrow> read (key k, row v) = Inr (out k v)"
begin

lemma keys_differ: "stands key row ok rows m \<Longrightarrow> key_ok k \<Longrightarrow> (k', v') \<in> set (bm_entries m) \<Longrightarrow>
    key k' = key k \<longleftrightarrow> k' = k"
  using key_inj ok_key by (fastforce simp: stands_def in_bm_entries)

lemma stands_insert:
  assumes S: "stands key row ok rows m" and ok: "ok k v"
    and rows: "set rows' = insert (key k, row v) {x \<in> set rows. fst x \<noteq> key k}"
  shows "stands key row ok rows' (bm_insert k v m)"
proof -
  have "{x \<in> set rows. fst x \<noteq> key k} = (\<lambda>(k, v). (key k, row v)) ` {x \<in> set (bm_entries m). fst x \<noteq> k}"
    using S keys_differ [OF S ok_key [OF ok]] by (force simp: stands_def)
  then show ?thesis using S ok by (simp add: stands_def rows set_entries_insert del: bm_insert.rep_eq)
qed

lemma stands_remove:
  assumes S: "stands key row ok rows m" and k: "key_ok k"
    and rows: "set rows' = {x \<in> set rows. fst x \<noteq> key k}"
  shows "stands key row ok rows' (bm_remove k m)"
proof -
  have "{x \<in> set rows. fst x \<noteq> key k} = (\<lambda>(k, v). (key k, row v)) ` {x \<in> set (bm_entries m). fst x \<noteq> k}"
    using S keys_differ [OF S k] by (force simp: stands_def)
  then show ?thesis using S by (simp add: stands_def rows set_entries_remove del: bm_entries_remove)
qed

text \<open>In a table with the rows of every folder.\<close>

lemma stands_put:
  assumes "stands key row ok (rows_of fid t) m" and "ok k v"
  shows "stands key row ok (rows_of fid (bm_insert (folder_bytes fid, key k) (row v) t)) (bm_insert k v m)"
  by (rule stands_insert [OF assms]) (simp add: rows_of_insert)

lemma stands_drop:
  assumes "stands key row ok (rows_of fid t) m" and "key_ok k"
  shows "stands key row ok (rows_of fid (bm_remove (folder_bytes fid, key k) t)) (bm_remove k m)"
  by (rule stands_remove [OF assms]) (simp add: rows_of_remove)

text \<open>What a reader gives: every entry of the map once.\<close>

lemma read_rows:
  assumes S: "stands key row ok rows m" and dist: "distinct (map fst rows)"
  obtains es where "try_all read rows = Inr (map (\<lambda>(k, v). out k v) es)" "distinct (map fst es)"
    "set es = set (bm_entries m)" "map fst rows = map (key \<circ> fst) es"
proof -
  have "\<forall>x \<in> set rows. \<exists>e. e \<in> set (bm_entries m) \<and> x = (key (fst e), row (snd e))"
    using S by (fastforce simp: stands_def)
  then obtain g where g: "g x \<in> set (bm_entries m)" "x = (key (fst (g x)), row (snd (g x)))" if "x \<in> set rows" for x
    by metis
  have keys: "map fst rows = map (key \<circ> fst) (map g rows)"
    using g(2) by (simp add: comp_def) (metis fst_conv)
  have "read x = Inr (case g x of (k, v) \<Rightarrow> out k v)" if x: "x \<in> set rows" for x
  proof -
    obtain k v where e: "g x = (k, v)" by fastforce
    then have "ok k v" using S g(1) [OF x] by (simp add: stands_def in_bm_entries)
    moreover have "x = (key k, row v)" using g(2) [OF x] by (simp add: e)
    ultimately show ?thesis unfolding e using read_row by simp
  qed
  then have "try_all read rows = Inr (map (\<lambda>(k, v). out k v) (map g rows))"
    by (simp add: try_all_map)
  moreover have "distinct (map fst (map g rows))"
    using dist unfolding keys by (auto simp: distinct_map comp_def inj_on_def)
  moreover have "set (map g rows) = set (bm_entries m)"
  proof
    show "set (map g rows) \<subseteq> set (bm_entries m)" using g(1) by auto
    show "set (bm_entries m) \<subseteq> set (map g rows)"
    proof
      fix e assume e: "e \<in> set (bm_entries m)"
      obtain k v where kv: "e = (k, v)" by fastforce
      have x: "(key k, row v) \<in> set rows" using S e kv by (force simp: stands_def)
      have "fst (g (key k, row v)) = k"
      proof -
        obtain k' v' where e': "g (key k, row v) = (k', v')" by fastforce
        have "ok k v" "ok k' v'" using S g(1) [OF x] e kv e' by (simp_all add: stands_def in_bm_entries)
        moreover have "key k' = key k" using g(2) [OF x] e' by simp
        ultimately show ?thesis using key_inj ok_key e' by fastforce
      qed
      then have "g (key k, row v) = e"
        using g(1) [OF x] e kv by (cases "g (key k, row v)") (auto simp: in_bm_entries)
      with x show "e \<in> set (map g rows)" by force
    qed
  qed
  ultimately show thesis using that keys by blast
qed

end

locale ordered_codec = column_codec key row key_ok ok read out
  for key :: "'k::linorder \<Rightarrow> 'c::linorder" and row :: "'v \<Rightarrow> 'r" and key_ok ok
    and read :: "'c \<times> 'r \<Rightarrow> 'o stored" and out +
  assumes key_less: "k < k' \<Longrightarrow> key k < key k'"
begin

lemma key_less_iff: "key k < key k' \<longleftrightarrow> k < k'"
  using key_less by (metis less_imp_not_less linorder_neqE order_less_irrefl)

lemma read_ordered:
  assumes S: "stands key row ok rows m" and sorted: "sorted_wrt (<) (map fst rows)"
  shows "try_all read rows = Inr (map (\<lambda>(k, v). out k v) (bm_entries m))"
proof -
  obtain es where es: "try_all read rows = Inr (map (\<lambda>(k, v). out k v) es)" "distinct (map fst es)"
    "set es = set (bm_entries m)" "map fst rows = map (key \<circ> fst) es"
    using read_rows [OF S sorted_wrt_less_distinct [OF sorted]] by blast
  have "sorted_wrt (<) (map fst es)"
    using sorted unfolding es(4) by (simp add: sorted_wrt_map key_less_iff)
  then have "es = bm_entries m" using bm.sorted_entries es(3) by (rule sorted_rows_eq)
  with es(1) show ?thesis by simp
qed

end

section \<open>The tables\<close>

definition member_columns :: "member \<Rightarrow> os_bytes \<times> string \<times> int" where
  "member_columns m = (mb_path m, mode_text (mb_mode m), mb_joined_at m)"

definition member_ok :: "node_id \<Rightarrow> member \<Rightarrow> bool" where
  "member_ok n m \<longleftrightarrow> mb_node m = n \<and> length (node_bytes n) = ID_LEN"

definition record_columns :: "index_record \<Rightarrow> entry_columns \<times> int" where
  "record_columns r = (entry_columns_of (ir_entry r), nat_col (ir_seq r))"

definition record_ok :: "rel_path \<Rightarrow> index_record \<Rightarrow> bool" where
  "record_ok p r \<longleftrightarrow> e_path (ir_entry r) = p \<and> entry_storable (ir_entry r) \<and> u64_fits (ir_seq r)"

definition pending_columns :: "'j json \<Rightarrow> pending \<Rightarrow> 'j option \<times> bool" where
  "pending_columns J row = (map_option (\<lambda>r. the (js_record J r)) (pd_announced row), pd_exempt row)"

definition held_key :: "batch_id \<times> held_state \<Rightarrow> id_blob \<times> string \<times> int" where
  "held_key k = (batch_bytes (fst k), state_text (snd k))"

definition held_key_ok :: "batch_id \<times> held_state \<Rightarrow> bool" where
  "held_key_ok k \<longleftrightarrow> length (batch_bytes (fst k)) = ID_LEN \<and>
     (case snd k of HsHeld \<Rightarrow> True | HsDenied at \<Rightarrow> u64_fits at)"

definition trash_columns :: "trash_row \<Rightarrow> string \<times> byte list \<times> int \<times> int" where
  "trash_columns r =
     (path_str (tr_original_path r), hash_bytes (tr_hash r), tr_trashed_at r, int_col (tr_size r))"

definition trash_ok :: "os_bytes \<Rightarrow> trash_row \<Rightarrow> bool" where
  "trash_ok k r \<longleftrightarrow> tr_trashed_path r = k \<and> valid_path (tr_original_path r) \<and>
     length (hash_bytes (tr_hash r)) = HASH_LEN"

definition shim_columns :: "shim \<Rightarrow> int \<times> int" where
  "shim_columns s = (sh_requested s, sh_stored s)"

definition shim_ok :: "rel_path \<Rightarrow> shim \<Rightarrow> bool" where
  "shim_ok p s \<longleftrightarrow> sh_path s = p \<and> valid_path p"

definition disk_name_ok :: "rel_path \<Rightarrow> disk_name \<Rightarrow> bool" where
  "disk_name_ok p d \<longleftrightarrow> dn_path d = p \<and> valid_path p"

definition journal_columns :: "journal_row \<Rightarrow> os_bytes \<times> os_bytes" where
  "journal_columns r = (jr_displaced_to r, jr_temp_file r)"

definition journal_ok :: "rel_path \<Rightarrow> journal_row \<Rightarrow> bool" where
  "journal_ok p r \<longleftrightarrow> jr_path r = p \<and> valid_path p"

definition machine_ok :: "node_id \<Rightarrow> machine \<Rightarrow> bool" where
  "machine_ok n m \<longleftrightarrow> mc_node m = n \<and> length (node_bytes n) = ID_LEN"

definition folder_columns_of :: "'j json \<Rightarrow> tables \<Rightarrow> 'j folder_columns" where
  "folder_columns_of J t =
     \<lparr>fc_name = fr_name (mt_row t), fc_created_by = node_bytes (fr_created_by (mt_row t)),
      fc_rules = the (js_rules J (fr_rules (mt_row t))),
      fc_meta_version = int_col (fr_meta_version (mt_row t))\<rparr>"

definition folder_ok :: "folder_id \<Rightarrow> tables \<Rightarrow> bool" where
  "folder_ok fid t \<longleftrightarrow> fr_id (mt_row t) = fid \<and> length (folder_bytes fid) = ID_LEN \<and>
     length (node_bytes (fr_created_by (mt_row t))) = ID_LEN"

text \<open>With the assumption on \<open>serde_json\<close>, for the tables with JSON.\<close>

definition json_path_ok :: "'j json \<Rightarrow> rel_path \<Rightarrow> 'v \<Rightarrow> bool" where
  "json_path_ok J p v \<longleftrightarrow> valid_path p \<and> json_ok J"

definition held_row_ok :: "'j json \<Rightarrow> batch_id \<times> held_state \<Rightarrow> 'v \<Rightarrow> bool" where
  "held_row_ok J k v \<longleftrightarrow> held_key_ok k \<and> json_ok J"

definition folder_row_ok :: "'j json \<Rightarrow> folder_id \<Rightarrow> tables \<Rightarrow> bool" where
  "folder_row_ok J fid t \<longleftrightarrow> folder_ok fid t \<and> json_ok J"

lemma round_trip_text:
  "round_trips enc dec \<Longrightarrow> json_text table enc x = Inr (the (enc x))"
  "round_trips enc dec \<Longrightarrow> from_json table' dec (the (enc x)) = Inr x"
proof -
  show "json_text table enc x = Inr (the (enc x))" if "round_trips enc dec"
    using that [unfolded round_trips_def, rule_format, of x] by (auto simp: json_text_def)
  show "from_json table' dec (the (enc x)) = Inr x" if "round_trips enc dec"
    using that [unfolded round_trips_def, rule_format, of x] by (auto simp: from_json_def)
qed

lemma json_okD:
  assumes "json_ok J"
  shows "round_trips (js_rules J) (un_rules J)" "round_trips (js_want J) (un_want J)"
    "round_trips (js_record J) (un_record J)" "round_trips (js_held J) (un_held J)"
    "round_trips (js_deferred J) (un_deferred J)" "round_trips (js_rest J) (un_rest J)"
  using assms by (simp_all add: json_ok_def)

lemmas json_texts = json_okD [THEN round_trip_text(1)] json_okD [THEN round_trip_text(2)]

lemma state_round: "case s of HsHeld \<Rightarrow> True | HsDenied at \<Rightarrow> u64_fits at \<Longrightarrow> state_col (state_text s) = Inr s"
  by (cases s) (simp_all add: state_col_def)

lemma member_round: "member_ok n m \<Longrightarrow> read_member (node_bytes n, member_columns m) = Inr m"
  by (cases m; cases "mb_mode m") (simp add: read_member_def member_columns_def member_ok_def id_col_simps)

lemma keyed_round: "valid_path p \<Longrightarrow> dec r = Inr v \<Longrightarrow> read_keyed table dec (path_str p, r) = Inr (p, v)"
  by (simp add: read_keyed_def text_col_simps)

lemma pending_round: "json_ok J \<Longrightarrow> read_pending J (pending_columns J row) = Inr row"
  by (cases "pd_announced row") (simp_all add: read_pending_def pending_columns_def json_texts)

lemma held_round:
  "held_key_ok k \<Longrightarrow> json_ok J \<Longrightarrow> read_held J (held_key k, the (js_held J row)) = Inr (k, row)"
  by (cases k) (simp add: read_held_def held_key_def held_key_ok_def id_col_simps state_round json_texts)

lemma held_key_inj: "held_key_ok k \<Longrightarrow> held_key_ok k' \<Longrightarrow> held_key k = held_key k' \<Longrightarrow> k = k'"
  by (cases k; cases k'; cases "snd k"; cases "snd k'")
    (auto simp: held_key_def held_key_ok_def dest: nat_col_inj intro: batch_id.expand)

interpretation member_table: ordered_codec node_bytes member_columns "\<lambda>_. True" member_ok read_member "\<lambda>_ m. m"
  by unfold_locales (auto simp: member_round intro: node_id.expand)

interpretation record_table: ordered_codec path_str record_columns "\<lambda>_. True" record_ok read_record "\<lambda>_ r. r"
  by unfold_locales (auto simp: record_ok_def record_columns_def read_record_def entry_round intro: rel_path.expand)

interpretation want_table: ordered_codec path_str "\<lambda>w. the (js_want J w)" "\<lambda>_. True"
    "json_path_ok J" "read_keyed ''want'' (from_json ''want'' (un_want J))" Pair for J :: "'j json"
  by unfold_locales (auto simp: json_path_ok_def keyed_round json_texts intro: rel_path.expand)

interpretation pending_table: ordered_codec path_str "pending_columns J" "\<lambda>_. True"
    "json_path_ok J" "read_keyed ''pending'' (read_pending J)" Pair for J :: "'j json"
  by unfold_locales (auto simp: json_path_ok_def keyed_round pending_round intro: rel_path.expand)

interpretation deferred_table: ordered_codec path_str "\<lambda>es. the (js_deferred J es)" "\<lambda>_. True"
    "json_path_ok J" "read_keyed ''deferred'' (from_json ''deferred'' (un_deferred J))" Pair
    for J :: "'j json"
  by unfold_locales (auto simp: json_path_ok_def keyed_round json_texts intro: rel_path.expand)

interpretation held_table: column_codec held_key "\<lambda>r. the (js_held J r)" held_key_ok
    "held_row_ok J" "read_held J" Pair for J :: "'j json"
  by unfold_locales (auto simp: held_row_ok_def held_round dest: held_key_inj)

interpretation trash_table: ordered_codec "\<lambda>k. k" trash_columns "\<lambda>_. True" trash_ok read_trash "\<lambda>_ r. r"
  by unfold_locales (auto simp: trash_ok_def trash_columns_def read_trash_def text_col_simps id_col_simps)

interpretation shim_table: ordered_codec path_str shim_columns "\<lambda>_. True" shim_ok read_shim "\<lambda>_ s. s"
  by unfold_locales (auto simp: shim_ok_def shim_columns_def read_shim_def text_col_simps intro: rel_path.expand)

interpretation disk_name_table: ordered_codec path_str dn_name "\<lambda>_. True" disk_name_ok read_disk_name "\<lambda>_ d. d"
  by unfold_locales (auto simp: disk_name_ok_def read_disk_name_def text_col_simps intro: rel_path.expand)

interpretation journal_table: ordered_codec path_str journal_columns "\<lambda>_. True" journal_ok read_journal "\<lambda>_ r. r"
  by unfold_locales (auto simp: journal_ok_def journal_columns_def read_journal_def text_col_simps intro: rel_path.expand)

interpretation machine_table: ordered_codec node_bytes machine_columns "\<lambda>_. True" machine_ok read_machine "\<lambda>_ m. m"
  by unfold_locales (auto simp: machine_ok_def machine_columns_def read_machine_def id_col_simps intro: node_id.expand)

interpretation folder_table: ordered_codec folder_bytes "folder_columns_of J" "\<lambda>_. True"
    "folder_row_ok J" "read_folder J" "\<lambda>_ t. mt_row t" for J :: "'j json"
  by unfold_locales (auto simp: folder_row_ok_def folder_ok_def folder_columns_of_def read_folder_def id_col_simps json_texts
      intro: folder_id.expand)

section \<open>History\<close>

definition history_ok :: "folder_id \<Rightarrow> history_row \<Rightarrow> bool" where
  "history_ok fid h \<longleftrightarrow> bt_folder (hy_batch h) = fid \<and> length (batch_bytes (bt_id (hy_batch h))) = ID_LEN \<and>
     length (node_bytes (bt_source (hy_batch h))) = ID_LEN \<and> u64_fits (bt_seq_low (hy_batch h)) \<and>
     u64_fits (bt_seq_high (hy_batch h)) \<and> (\<forall>e \<in> set (bt_entries (hy_batch h)). entry_storable e)"

definition head_columns :: "history_row \<Rightarrow> batch_columns" where
  "head_columns h = batch_columns_of (hy_recorded_at h) (hy_batch h) (hy_role h) (hy_decision h)"

definition history_stands :: "'j db \<Rightarrow> folder_id \<Rightarrow> history_row list \<Rightarrow> bool" where
  "history_stands db fid hs \<longleftrightarrow>
     list_all2 (\<lambda>(r, c) h. c = head_columns h \<and> history_ok fid h \<and>
       entries_of_batch r db = map entry_columns_of (bt_entries (hy_batch h))) (heads_of fid db) hs"

definition batches_ok :: "'j db \<Rightarrow> bool" where
  "batches_ok db \<longleftrightarrow> (\<forall>r i c. bm_get (tb_batch_entries db) (r, i) = Some c \<longrightarrow> bm_has (tb_batches db) r)"

lemma try_all_list_all2: "list_all2 (\<lambda>x y. f x = Inr (g y)) xs ys \<Longrightarrow> try_all f xs = Inr (map g ys)"
  by (induction rule: list_all2_induct) auto

lemma head_round:
  "history_ok fid h \<Longrightarrow> read_head fid (head_columns h) = Inr (h\<lparr>hy_batch := (hy_batch h)\<lparr>bt_entries := []\<rparr>\<rparr>)"
proof -
  have "role_col (role_text role) = Inr role" for role
    by (cases role) (simp_all add: role_col_def)
  moreover have "decision_col (decision_text d) = Inr d" for d
    by (cases d rule: decision_text.cases) simp_all
  ultimately show "history_ok fid h \<Longrightarrow> read_head fid (head_columns h) = Inr (h\<lparr>hy_batch := (hy_batch h)\<lparr>bt_entries := []\<rparr>\<rparr>)"
    by (cases h; cases "hy_batch h"; cases "bt_summary (hy_batch h)")
      (simp add: read_head_def head_columns_def batch_columns_of_def history_ok_def id_col_simps)
qed

lemma history_read:
  assumes "history_stands db fid hs"
  shows "store_history fid db = Inr hs"
proof -
  let ?cut = "\<lambda>h. h\<lparr>hy_batch := (hy_batch h)\<lparr>bt_entries := []\<rparr>\<rparr>"
  let ?heads = "heads_of fid db"
  have same: "length ?heads = length hs" using assms by (auto simp: history_stands_def dest: list_all2_lengthD)
  have "list_all2 (\<lambda>x y. (case x of (r, c) \<Rightarrow> then_try (read_head fid c) (\<lambda>h. Inr (r, h))) = Inr (case y of (r, h) \<Rightarrow> (r, ?cut h)))
      ?heads (zip (map fst ?heads) hs)"
    using assms same by (force simp: history_stands_def list_all2_conv_all_nth head_round split: prod.splits)
  then have heads: "try_all (\<lambda>(r, c). then_try (read_head fid c) (\<lambda>h. Inr (r, h))) ?heads =
      Inr (map (\<lambda>(r, h). (r, ?cut h)) (zip (map fst ?heads) hs))"
    by (rule try_all_list_all2)
  have "list_all2 (\<lambda>x y. (case x of (r, h) \<Rightarrow>
        then_try (try_all (entry_col ''batch_entries'') (entries_of_batch r db)) (\<lambda>es.
          Inr (h\<lparr>hy_batch := (hy_batch h)\<lparr>bt_entries := es\<rparr>\<rparr>))) = Inr y)
      (map (\<lambda>(r, h). (r, ?cut h)) (zip (map fst ?heads) hs)) hs"
  proof (rule list_all2_all_nthI)
    fix i assume i: "i < length (map (\<lambda>(r, h). (r, ?cut h)) (zip (map fst ?heads) hs))"
    let ?h = "hs ! i"
    have "entries_of_batch (fst (?heads ! i)) db = map entry_columns_of (bt_entries (hy_batch ?h))" "history_ok fid ?h"
      using assms i same by (cases "?heads ! i", force simp: history_stands_def list_all2_conv_all_nth)+
    moreover from this have "try_all (entry_col ''batch_entries'') (map entry_columns_of (bt_entries (hy_batch ?h))) =
        Inr (map (\<lambda>e. e) (bt_entries (hy_batch ?h)))"
      by (intro try_all_list_all2) (auto simp: history_ok_def entry_round list_all2_conv_all_nth)
    ultimately show "(case map (\<lambda>(r, h). (r, ?cut h)) (zip (map fst ?heads) hs) ! i of (r, h) \<Rightarrow>
        then_try (try_all (entry_col ''batch_entries'') (entries_of_batch r db)) (\<lambda>es.
          Inr (h\<lparr>hy_batch := (hy_batch h)\<lparr>bt_entries := es\<rparr>\<rparr>))) = Inr ?h"
      using i by simp
  qed (simp add: same)
  from try_all_list_all2 [of _ "\<lambda>h. h", OF this] heads show ?thesis by (simp add: store_history_def)
qed

lemma storable_checks: "entry_storable e \<Longrightarrow> entry_checks (entry_columns_of e)"
  by (cases "e_kind e") (simp_all add: entry_storable_def entry_checks_def entry_columns_of_def HASH_LEN_def ID_LEN_def)

lemma insert_entries_rows:
  assumes "\<forall>e \<in> set es. entry_storable e" and "\<forall>j \<ge> i. bm_get (tb_batch_entries db) (r, j) = None"
  shows "\<exists>T. insert_entries r i es db = Inr (db\<lparr>tb_batch_entries := T\<rparr>) \<and>
    (\<forall>r' j. bm_get T (r', j) = (if r' = r \<and> i \<le> j \<and> j < i + length es then Some (entry_columns_of (es ! (j - i)))
       else bm_get (tb_batch_entries db) (r', j)))"
  using assms
proof (induction es arbitrary: i db)
  case Nil
  then show ?case by (intro exI [of _ "tb_batch_entries db"]) simp
next
  case (Cons e es)
  let ?db = "db\<lparr>tb_batch_entries := bm_insert (r, i) (entry_columns_of e) (tb_batch_entries db)\<rparr>"
  have none: "bm_get (tb_batch_entries db) (r, i) = None" using Cons.prems(2) by simp
  have "\<forall>j \<ge> i + 1. bm_get (tb_batch_entries ?db) (r, j) = None" using Cons.prems(2) by simp
  then obtain T where T: "insert_entries r (i + 1) es ?db = Inr (?db\<lparr>tb_batch_entries := T\<rparr>)"
    "bm_get T (r', j) = (if r' = r \<and> i + 1 \<le> j \<and> j < i + 1 + length es then Some (entry_columns_of (es ! (j - (i + 1))))
       else bm_get (tb_batch_entries ?db) (r', j))" for r' j
    using Cons.IH [of "i + 1" ?db] Cons.prems(1) by auto
  have "bm_get T (r', j) = (if r' = r \<and> i \<le> j \<and> j < i + length (e # es)
      then Some (entry_columns_of ((e # es) ! (j - i))) else bm_get (tb_batch_entries db) (r', j))" for r' j
    by (cases "j = i") (auto simp: T(2) nth_Cons')
  moreover have "insert_entries r i (e # es) db = Inr (db\<lparr>tb_batch_entries := T\<rparr>)"
    using T(1) Cons.prems(1) none by (simp add: insert_row_def storable_checks)
  ultimately show ?case by blast
qed

lemma al_insert_last: "\<forall>x \<in> set xs. fst x < k \<Longrightarrow> al_insert k v xs = xs @ [(k, v)]"
  by (induction xs) (auto simp: less_imp_not_less not_less_iff_gr_or_eq)

lemma next_record_fresh: "x \<in> set (bm_entries (tb_batches db)) \<Longrightarrow> fst x < next_record db"
proof -
  assume x: "x \<in> set (bm_entries (tb_batches db))"
  let ?ks = "bm_keys (tb_batches db)"
  have k: "fst x \<in> set ?ks" using x by (auto simp: bm_keys_def)
  then obtain i where i: "i < length ?ks" "?ks ! i = fst x" by (auto simp: in_set_conv_nth)
  have "sorted ?ks" using bm_keys_sorted by (rule strict_sorted_imp_sorted)
  then have "fst x \<le> ?ks ! (length ?ks - 1)" using i by (metis One_nat_def Suc_pred diff_Suc_less
      length_pos_if_in_set less_Suc_eq_le k sorted_nth_mono)
  moreover have "last ?ks = ?ks ! (length ?ks - 1)" using k by (intro last_conv_nth) auto
  ultimately show "fst x < next_record db"
    using k by (auto simp: next_record_def split: list.split)
qed

lemma heads_of_insert:
  "heads_of fid (db\<lparr>tb_batches := bm_insert (next_record db) c (tb_batches db)\<rparr>) =
     heads_of fid db @ (if bc_folder c = folder_bytes fid then [(next_record db, c)] else [])"
  using al_insert_last [of "bm_entries (tb_batches db)" "next_record db" c] next_record_fresh [of _ db]
  by (simp add: heads_of_def)

lemma heads_of_entries [simp]: "heads_of fid (db\<lparr>tb_batch_entries := T\<rparr>) = heads_of fid db"
  by (simp add: heads_of_def)

lemma entries_of_batch_same:
  assumes "\<And>j. bm_get (tb_batch_entries db') (r, j) = bm_get (tb_batch_entries db) (r, j)"
  shows "entries_of_batch r db' = entries_of_batch r db"
proof -
  have "filter (\<lambda>((r', i), c). r' = r) (bm_entries (tb_batch_entries db')) =
      filter (\<lambda>((r', i), c). r' = r) (bm_entries (tb_batch_entries db))"
    by (rule sorted_rows_eq) (use assms in \<open>auto intro: sorted_filter_fst bm.sorted_entries simp: in_bm_entries\<close>)
  then show ?thesis by (simp add: entries_of_batch_def)
qed

lemma entries_of_batch_all:
  assumes "\<And>j. bm_get (tb_batch_entries db) (r, j) = (if j < length cs then Some (cs ! j) else None)"
  shows "entries_of_batch r db = cs"
proof -
  have "sorted_wrt (<) (map fst (map (\<lambda>j. ((r, j), cs ! j)) [0..<length cs]))"
    by (simp add: comp_def sorted_wrt_map sorted_wrt_upt)
  then have "filter (\<lambda>((r', i), c). r' = r) (bm_entries (tb_batch_entries db)) =
      map (\<lambda>j. ((r, j), cs ! j)) [0..<length cs]"
    using assms by (intro sorted_rows_eq)
      (auto intro: sorted_filter_fst bm.sorted_entries simp: in_bm_entries split: if_splits)
  then show ?thesis by (simp add: entries_of_batch_def comp_def map_nth)
qed

text \<open>\<open>history\<close> appends to the folder's history and touches no other.\<close>

lemma write_history_stands:
  assumes ok: "batches_ok db" and h: "history_ok (bt_folder b) \<lparr>hy_batch = b, hy_role = role, hy_decision = d, hy_recorded_at = at\<rparr>"
    and recorded: "bm_has (tb_folders db) (folder_bytes (bt_folder b))"
  obtains B T where "write_history at b role d db = Inr (db\<lparr>tb_batches := B, tb_batch_entries := T\<rparr>)"
    "batches_ok (db\<lparr>tb_batches := B, tb_batch_entries := T\<rparr>)"
    "\<And>fid hs. history_stands db fid hs \<Longrightarrow> history_stands (db\<lparr>tb_batches := B, tb_batch_entries := T\<rparr>) fid
       (if fid = bt_folder b then hs @ [\<lparr>hy_batch = b, hy_role = role, hy_decision = d, hy_recorded_at = at\<rparr>] else hs)"
proof -
  let ?h = "\<lparr>hy_batch = b, hy_role = role, hy_decision = d, hy_recorded_at = at\<rparr>"
  let ?r = "next_record db" and ?c = "batch_columns_of at b role d"
  let ?db = "db\<lparr>tb_batches := bm_insert ?r ?c (tb_batches db)\<rparr>"
  have fresh: "bm_get (tb_batches db) ?r = None"
    using next_record_fresh [of _ db] by (metis fst_conv in_bm_entries nless_le not_None_eq)
  then have none: "bm_get (tb_batch_entries db) (?r, j) = None" for j
    using ok by (metis batches_ok_def bm_has_def not_None_eq)
  obtain T where T: "insert_entries ?r 0 (bt_entries b) ?db = Inr (?db\<lparr>tb_batch_entries := T\<rparr>)"
    and get: "bm_get T (r', j) = (if r' = ?r \<and> j < length (bt_entries b) then Some (entry_columns_of (bt_entries b ! j))
      else bm_get (tb_batch_entries db) (r', j))" for r' j
    using insert_entries_rows [of "bt_entries b" 0 ?db ?r] h none by (auto simp: history_ok_def)
  have "batch_checks ?c"
    using h by (cases role; cases d rule: decision_text.cases)
      (auto simp: batch_checks_def batch_columns_of_def history_ok_def ID_LEN_def)
  then have "write_history at b role d db = Inr (?db\<lparr>tb_batch_entries := T\<rparr>)"
    using recorded T by (simp add: write_history_def insert_for_def insert_row_def)
  moreover have "batches_ok (?db\<lparr>tb_batch_entries := T\<rparr>)"
    using ok by (auto simp: batches_ok_def get split: if_splits)
  moreover have "history_stands (?db\<lparr>tb_batch_entries := T\<rparr>) fid (if fid = bt_folder b then hs @ [?h] else hs)"
    if S: "history_stands db fid hs" for fid hs
  proof -
    have "(r, c) \<in> set (heads_of fid db) \<Longrightarrow> r \<noteq> ?r" for r c
      using next_record_fresh [of "(r, c)" db] by (auto simp: heads_of_def)
    then have "entries_of_batch r (?db\<lparr>tb_batch_entries := T\<rparr>) = entries_of_batch r db" if "(r, c) \<in> set (heads_of fid db)" for r c
      using that by (intro entries_of_batch_same) (auto simp: get)
    then have old: "history_stands db fid hs = list_all2 (\<lambda>(r, c) h. c = head_columns h \<and> history_ok fid h \<and>
        entries_of_batch r (?db\<lparr>tb_batch_entries := T\<rparr>) = map entry_columns_of (bt_entries (hy_batch h))) (heads_of fid db) hs"
      unfolding history_stands_def by (intro list.rel_cong refl) auto
    have new: "entries_of_batch ?r (?db\<lparr>tb_batch_entries := T\<rparr>) = map entry_columns_of (bt_entries b)"
      by (rule entries_of_batch_all) (simp add: get none)
    have "bc_folder ?c = folder_bytes fid \<longleftrightarrow> fid = bt_folder b"
      by (auto simp: batch_columns_of_def intro: folder_id.expand)
    then have heads: "heads_of fid (?db\<lparr>tb_batch_entries := T\<rparr>) = heads_of fid db @ (if fid = bt_folder b then [(?r, ?c)] else [])"
      by (simp add: heads_of_insert)
    show ?thesis
      unfolding history_stands_def heads
      using S [unfolded old] new h by (auto intro!: list_all2_appendI simp: head_columns_def)
  qed
  ultimately show thesis using that [where B = "bm_insert ?r ?c (tb_batches db)" and T = T] by simp
qed

end
