(* ===== verification/StoreViews.thy ===== *)
theory StoreViews
  imports StoreLaws Restarts
begin

text \<open>
  What the store promises (\<open>crates/delocal/src/store\<close>): after any writes whose folders were recorded, every
  reader gives what the reference has; a write for a folder that was not recorded is refused and changes
  nothing; and a daemon that commits what the engine reports restores every folder from its store as it was.
\<close>

section \<open>The tables stand for the reference\<close>

definition default_row :: "folder_id \<Rightarrow> folder_row" where
  "default_row fid = \<lparr>fr_id = fid, fr_name = [], fr_created_by = NodeId [], fr_rules = rules_default,
     fr_meta_version = 0\<rparr>"

definition tables_at :: "mirror \<Rightarrow> folder_id \<Rightarrow> tables" where
  "tables_at m fid = (case bm_get (mi_folders m) fid of Some t \<Rightarrow> t | None \<Rightarrow> tables_new (default_row fid))"

definition tables_stand :: "'j json \<Rightarrow> 'j db \<Rightarrow> folder_id \<Rightarrow> tables \<Rightarrow> bool" where
  "tables_stand J db fid t \<longleftrightarrow>
     stands node_bytes member_columns member_ok (rows_of fid (tb_members db)) (mt_members t) \<and>
     stands path_str record_columns record_ok (rows_of fid (tb_entries db)) (mt_records t) \<and>
     stands path_str (\<lambda>w. the (js_want J w)) (json_path_ok J) (rows_of fid (tb_want db)) (mt_wants t) \<and>
     stands path_str (pending_columns J) (json_path_ok J) (rows_of fid (tb_pending db)) (mt_pending t) \<and>
     stands held_key (\<lambda>r. the (js_held J r)) (held_row_ok J) (rows_of fid (tb_held_items db)) (mt_held t) \<and>
     stands path_str (\<lambda>es. the (js_deferred J es)) (json_path_ok J) (rows_of fid (tb_deferred db)) (mt_deferred t) \<and>
     bm_get (tb_folder_state db) (folder_bytes fid) = map_option (\<lambda>r. the (js_rest J r)) (mt_rest t) \<and>
     history_stands db fid (mt_history t) \<and>
     stands (\<lambda>k. k) trash_columns trash_ok (rows_of fid (tb_trash db)) (mt_trash t) \<and>
     stands path_str shim_columns shim_ok (rows_of fid (tb_mtime_shim db)) (mt_shims t) \<and>
     stands path_str dn_name disk_name_ok (rows_of fid (tb_disk_names db)) (mt_disk_names t) \<and>
     stands path_str journal_columns journal_ok (rows_of fid (tb_commit_journal db)) (mt_journal t)"

definition db_stands :: "'j json \<Rightarrow> 'j db \<Rightarrow> mirror \<Rightarrow> bool" where
  "db_stands J db m \<longleftrightarrow>
     stands folder_bytes (folder_columns_of J) (folder_row_ok J)
       (bm_entries (tb_folders db)) (mi_folders m) \<and>
     stands node_bytes machine_columns machine_ok (bm_entries (tb_machines db)) (mi_machines m) \<and>
     (\<forall>fid. tables_stand J db fid (tables_at m fid)) \<and> batches_ok db"

lemma rows_of_empty [simp]: "rows_of fid bm_empty = []"
  by (simp add: rows_of_def)

lemma new_stands: "db_stands J db_new mirror_new"
  by (simp add: db_stands_def db_new_def mirror_new_def stands_empty tables_stand_def tables_at_def tables_new_def
      history_stands_def heads_of_def batches_ok_def)

lemma recorded:
  assumes "db_stands J db m"
  shows "bm_has (tb_folders db) (folder_bytes fid) \<longleftrightarrow> bm_has (mi_folders m) fid"
    and "bm_get (mi_folders m) fid = Some t \<Longrightarrow>
      bm_get (tb_folders db) (folder_bytes fid) = Some (folder_columns_of J t) \<and> folder_row_ok J fid t"
proof -
  have S: "stands folder_bytes (folder_columns_of J) (folder_row_ok J)
      (bm_entries (tb_folders db)) (mi_folders m)" using assms by (simp add: db_stands_def)
  then have rows: "(folder_bytes fid, c) \<in> set (bm_entries (tb_folders db)) \<longleftrightarrow>
      (\<exists>t. bm_get (mi_folders m) fid = Some t \<and> c = folder_columns_of J t)" for c
    by (force simp: stands_def in_bm_entries)
  then show "bm_has (tb_folders db) (folder_bytes fid) \<longleftrightarrow> bm_has (mi_folders m) fid"
    by (auto simp: in_bm_entries)
  show "bm_get (mi_folders m) fid = Some t \<Longrightarrow>
      bm_get (tb_folders db) (folder_bytes fid) = Some (folder_columns_of J t) \<and> folder_row_ok J fid t"
    using rows S by (auto simp: in_bm_entries stands_def)
qed

lemma folders_stand_same:
  assumes S: "stands folder_bytes (folder_columns_of J) ok rows ts" and t: "bm_get ts fid = Some t"
    and same: "mt_row t' = mt_row t" "ok fid t'"
  shows "stands folder_bytes (folder_columns_of J) ok rows (bm_insert fid t' ts)"
proof -
  have "(\<lambda>(k, v). (folder_bytes k, folder_columns_of J v)) ` set (bm_entries (bm_insert fid t' ts)) =
      (\<lambda>(k, v). (folder_bytes k, folder_columns_of J v)) ` set (bm_entries ts)"
  proof -
    have "set (bm_entries ts) = insert (fid, t) {x \<in> set (bm_entries ts). fst x \<noteq> fid}"
      using t by (auto simp: in_bm_entries)
    moreover have "folder_columns_of J t' = folder_columns_of J t" using same(1) by (simp add: folder_columns_of_def)
    ultimately show ?thesis by (simp add: set_entries_insert del: bm_insert.rep_eq) (metis (no_types, lifting) case_prod_conv image_insert)
  qed
  then show ?thesis using S same(2) by (simp add: stands_def del: bm_insert.rep_eq)
qed

text \<open>A write to the tables of one folder.\<close>

lemma table_write:
  assumes S: "db_stands J db m" and on: "on_tables fid g m = Some m'"
    and row: "\<And>t. mt_row (g t) = mt_row t"
    and same: "tb_folders db' = tb_folders db" "tb_machines db' = tb_machines db" "batches_ok db'"
    and there: "\<And>t. tables_stand J db fid t \<Longrightarrow> tables_stand J db' fid (g t)"
    and elsewhere: "\<And>f t. f \<noteq> fid \<Longrightarrow> tables_stand J db f t \<Longrightarrow> tables_stand J db' f t"
  shows "db_stands J db' m'"
proof -
  obtain t where t: "bm_get (mi_folders m) fid = Some t"
    and m': "m' = m\<lparr>mi_folders := bm_insert fid (g t) (mi_folders m)\<rparr>"
    using on by (auto simp: on_tables_def split: option.splits)
  have "folder_row_ok J fid (g t)" using recorded(2) [OF S t] row by (simp add: folder_row_ok_def folder_ok_def)
  then have "stands folder_bytes (folder_columns_of J) (folder_row_ok J)
      (bm_entries (tb_folders db')) (mi_folders m')"
    using folders_stand_same [OF _ t row, of J] S by (simp add: db_stands_def same(1) m' del: bm_insert.rep_eq)
  moreover have "tables_at m' f = (if f = fid then g (tables_at m f) else tables_at m f)" for f
    by (simp add: tables_at_def m' t)
  ultimately show ?thesis
    using S same there elsewhere by (simp add: db_stands_def m')
qed

lemma insert_for_recorded:
  "db_stands J db m \<Longrightarrow> on_tables fid g m = Some m' \<Longrightarrow> checks \<Longrightarrow> insert_for fid db checks db' = Inr db'"
  using recorded(1) [of J db m fid] by (auto simp: on_tables_def insert_for_def insert_row_def split: option.splits)

text \<open>What the types of the code make true of every value that is written: ids and hashes of their length,
  valid paths, counters that are \<open>u64\<close>.\<close>

fun action_storable :: "action \<Rightarrow> bool" where
  "action_storable (AcIndexChanged fid r) \<longleftrightarrow> record_ok (e_path (ir_entry r)) r"
| "action_storable (AcWantChanged fid p w) \<longleftrightarrow> valid_path p"
| "action_storable (AcPendingChanged fid p row) \<longleftrightarrow> valid_path p"
| "action_storable (AcHeldChanged fid b s row) \<longleftrightarrow> held_key_ok (b, s)"
| "action_storable (AcDeferredChanged fid p es) \<longleftrightarrow> valid_path p"
| "action_storable (AcRecordBatch b role d) \<longleftrightarrow>
     history_ok (bt_folder b) \<lparr>hy_batch = b, hy_role = role, hy_decision = d, hy_recorded_at = 0\<rparr>"
| "action_storable _ \<longleftrightarrow> True"

fun host_storable :: "host_write \<Rightarrow> bool" where
  "host_storable (PutFolder row) \<longleftrightarrow>
     length (folder_bytes (fr_id row)) = ID_LEN \<and> length (node_bytes (fr_created_by row)) = ID_LEN"
| "host_storable (PutMember fid m) \<longleftrightarrow> member_ok (mb_node m) m"
| "host_storable (PutTrash fid row) \<longleftrightarrow> trash_ok (tr_trashed_path row) row"
| "host_storable (PutShim fid s) \<longleftrightarrow> shim_ok (sh_path s) s"
| "host_storable (PutDiskName fid d) \<longleftrightarrow> disk_name_ok (dn_path d) d"
| "host_storable (PutJournal fid row) \<longleftrightarrow> journal_ok (jr_path row) row"
| "host_storable (PutMachine m) \<longleftrightarrow> machine_ok (mc_node m) m"
| "host_storable _ \<longleftrightarrow> True"

lemmas table_simps = tables_stand_def history_stands_def heads_of_def entries_of_batch_def

lemma entry_key: "ec_path (entry_columns_of e) = path_str (e_path e)"
  by (simp add: entry_columns_of_def)

lemma drop_step:
  assumes S: "db_stands J db m" and on: "on_tables fid g m = Some m'" and row: "\<And>t. mt_row (g t) = mt_row t"
    and same: "tb_folders db' = tb_folders db" "tb_machines db' = tb_machines db" "tb_batches db' = tb_batches db"
      "tb_batch_entries db' = tb_batch_entries db"
    and there: "\<And>t. tables_stand J db fid t \<Longrightarrow> tables_stand J db' fid (g t)"
    and elsewhere: "\<And>f t. f \<noteq> fid \<Longrightarrow> tables_stand J db f t \<Longrightarrow> tables_stand J db' f t"
  shows "\<exists>db''. Inr db' = (Inr db'' :: 'j db stored) \<and> db_stands J db'' m'"
  using table_write [OF S on row same(1,2) _ there elsewhere] S same(3,4) by (auto simp: db_stands_def batches_ok_def)

lemma put_step:
  assumes "db_stands J db m" and "on_tables fid g m = Some m'" and "checks" and "\<And>t. mt_row (g t) = mt_row t"
    and "tb_folders db' = tb_folders db" "tb_machines db' = tb_machines db" "tb_batches db' = tb_batches db"
      "tb_batch_entries db' = tb_batch_entries db"
    and "\<And>t. tables_stand J db fid t \<Longrightarrow> tables_stand J db' fid (g t)"
    and "\<And>f t. f \<noteq> fid \<Longrightarrow> tables_stand J db f t \<Longrightarrow> tables_stand J db' f t"
  shows "\<exists>db''. insert_for fid db checks db' = (Inr db'' :: 'j db stored) \<and> db_stands J db'' m'"
  using drop_step [OF assms(1,2,4-)] insert_for_recorded [OF assms(1-3)] by simp

lemmas table_puts = member_table.stands_put want_table.stands_put pending_table.stands_put held_table.stands_put
  deferred_table.stands_put trash_table.stands_put shim_table.stands_put disk_name_table.stands_put
  journal_table.stands_put record_table.stands_put

lemmas table_drops = member_table.stands_drop want_table.stands_drop pending_table.stands_drop
  held_table.stands_drop deferred_table.stands_drop trash_table.stands_drop shim_table.stands_drop
  disk_name_table.stands_drop journal_table.stands_drop record_table.stands_drop

lemma history_step:
  assumes S: "db_stands J db m" and on: "mirror_hook at (AcRecordBatch b role d) m = Some m'"
    and ok: "action_storable (AcRecordBatch b role d)"
  shows "\<exists>db'. write_history at b role d db = Inr db' \<and> db_stands J db' m'"
proof -
  let ?h = "\<lparr>hy_batch = b, hy_role = role, hy_decision = d, hy_recorded_at = at\<rparr>"
  have "bm_has (tb_folders db) (folder_bytes (bt_folder b))"
    using on recorded(1) [OF S] by (auto simp: on_tables_def split: option.splits)
  moreover have "history_ok (bt_folder b) ?h" using ok by (simp add: history_ok_def)
  moreover have "batches_ok db" using S by (simp add: db_stands_def)
  ultimately obtain B T where w: "write_history at b role d db = Inr (db\<lparr>tb_batches := B, tb_batch_entries := T\<rparr>)"
    "batches_ok (db\<lparr>tb_batches := B, tb_batch_entries := T\<rparr>)"
    "\<And>fid hs. history_stands db fid hs \<Longrightarrow> history_stands (db\<lparr>tb_batches := B, tb_batch_entries := T\<rparr>) fid
       (if fid = bt_folder b then hs @ [?h] else hs)"
    using write_history_stands by metis
  have "db_stands J (db\<lparr>tb_batches := B, tb_batch_entries := T\<rparr>) m'"
  proof (rule table_write [OF S on [unfolded mirror_hook.simps]])
    show "tables_stand J (db\<lparr>tb_batches := B, tb_batch_entries := T\<rparr>) (bt_folder b) (t\<lparr>mt_history := mt_history t @ [?h]\<rparr>)"
      if "tables_stand J db (bt_folder b) t" for t
      using that w(3) [of "bt_folder b"] by (simp add: tables_stand_def)
    show "tables_stand J (db\<lparr>tb_batches := B, tb_batch_entries := T\<rparr>) f t"
      if "f \<noteq> bt_folder b" "tables_stand J db f t" for f t
      using that w(3) [of f] by (simp add: tables_stand_def)
  qed (use w(2) in simp_all)
  with w(1) show ?thesis by blast
qed

lemma record_step:
  assumes S: "db_stands J db m" and J: "json_ok J" and ok: "record_ok (e_path (ir_entry r)) r"
    and on: "mirror_hook at (AcIndexChanged fid r) m = Some m'"
  shows "\<exists>db'. write_engine J at (EwRecord fid r) db = Inr db' \<and> db_stands J db' m'"
proof -
  have w: "write_engine J at (EwRecord fid r) db = insert_for fid db (entry_checks (entry_columns_of (ir_entry r)))
      (db\<lparr>tb_entries := bm_insert (folder_bytes fid, path_str (e_path (ir_entry r))) (record_columns r) (tb_entries db)\<rparr>)"
    by (simp add: entry_key record_columns_def Let_def)
  show ?thesis
    unfolding w by (rule put_step [OF S on [unfolded mirror_hook.simps]])
      (use ok in \<open>simp_all add: table_simps table_puts record_ok_def storable_checks\<close>)
qed

lemma remove_record_step:
  assumes S: "db_stands J db m" and J: "json_ok J"
    and on: "mirror_hook at (AcIndexRemoved fid p) m = Some m'"
  shows "\<exists>db'. write_engine J at (EwRemoveRecord fid p) db = Inr db' \<and> db_stands J db' m'"
  unfolding write_engine.simps
  by (rule drop_step [OF S on [unfolded mirror_hook.simps]]) (simp_all add: table_simps table_drops)

lemma want_step:
  assumes S: "db_stands J db m" and J: "json_ok J" and ok: "valid_path p"
    and on: "mirror_hook at (AcWantChanged fid p row) m = Some m'"
  shows "\<exists>db'. write_engine J at (EwWant fid p row) db = Inr db' \<and> db_stands J db' m'"
proof (cases row)
  case None
  show ?thesis unfolding None write_engine.simps
    by (rule drop_step [OF S on [unfolded mirror_hook.simps]]) (simp_all add: None ok table_simps table_drops set_row_def)
next
  case (Some v)
  show ?thesis unfolding Some write_engine.simps json_texts [OF J] then_try.simps
    by (rule put_step [OF S on [unfolded mirror_hook.simps]]) (simp_all add: Some J ok json_path_ok_def table_simps table_puts set_row_def)
qed

lemma pending_step:
  assumes S: "db_stands J db m" and J: "json_ok J" and ok: "valid_path p"
    and on: "mirror_hook at (AcPendingChanged fid p row) m = Some m'"
  shows "\<exists>db'. write_engine J at (EwPending fid p row) db = Inr db' \<and> db_stands J db' m'"
proof (cases row)
  case None
  show ?thesis unfolding None write_engine.simps
    by (rule drop_step [OF S on [unfolded mirror_hook.simps]]) (simp_all add: None ok table_simps table_drops set_row_def)
next
  case (Some v)
  have w: "write_engine J at (EwPending fid p (Some v)) db = insert_for fid db True
      (db\<lparr>tb_pending := bm_insert (folder_bytes fid, path_str p) (pending_columns J v) (tb_pending db)\<rparr>)"
    by (cases "pd_announced v") (simp_all add: json_texts [OF J] pending_columns_def)
  show ?thesis unfolding Some w
    by (rule put_step [OF S on [unfolded mirror_hook.simps]]) (simp_all add: Some J ok json_path_ok_def table_simps table_puts set_row_def)
qed

lemma held_step:
  assumes S: "db_stands J db m" and J: "json_ok J" and ok: "held_key_ok (b, s)"
    and on: "mirror_hook at (AcHeldChanged fid b s row) m = Some m'"
  shows "\<exists>db'. write_engine J at (EwHeld fid b s row) db = Inr db' \<and> db_stands J db' m'"
proof (cases row)
  case None
  have key: "(batch_bytes b, state_text s) = held_key (b, s)" by (simp add: held_key_def)
  show ?thesis unfolding None write_engine.simps key
    by (rule drop_step [OF S on [unfolded mirror_hook.simps]]) (simp_all add: None ok table_simps table_drops set_row_def)
next
  case (Some v)
  have key: "(batch_bytes b, state_text s) = held_key (b, s)" by (simp add: held_key_def)
  have "held_checks (held_key (b, s))"
    using ok by (cases s) (simp_all add: held_checks_def held_key_def held_key_ok_def ID_LEN_def)
  then show ?thesis unfolding Some write_engine.simps Let_def key json_texts [OF J] then_try.simps
    by (intro put_step [OF S on [unfolded mirror_hook.simps]]) (simp_all add: Some ok J held_row_ok_def table_simps table_puts set_row_def)
qed

lemma deferred_step:
  assumes S: "db_stands J db m" and J: "json_ok J" and ok: "valid_path p"
    and on: "mirror_hook at (AcDeferredChanged fid p row) m = Some m'"
  shows "\<exists>db'. write_engine J at (EwDeferred fid p row) db = Inr db' \<and> db_stands J db' m'"
proof (cases row)
  case None
  show ?thesis unfolding None write_engine.simps
    by (rule drop_step [OF S on [unfolded mirror_hook.simps]]) (simp_all add: None ok table_simps table_drops set_row_def)
next
  case (Some v)
  show ?thesis unfolding Some write_engine.simps json_texts [OF J] then_try.simps
    by (rule put_step [OF S on [unfolded mirror_hook.simps]]) (simp_all add: Some J ok json_path_ok_def table_simps table_puts set_row_def)
qed

lemma rest_step:
  assumes S: "db_stands J db m" and J: "json_ok J"
    and on: "mirror_hook at (AcRestChanged fid r) m = Some m'"
  shows "\<exists>db'. write_engine J at (EwRest fid r) db = Inr db' \<and> db_stands J db' m'"
  unfolding write_engine.simps json_texts [OF J] then_try.simps
  by (rule put_step [OF S on [unfolded mirror_hook.simps]]) (simp_all add: table_simps)

lemmas hook_steps = record_step remove_record_step want_step pending_step held_step deferred_step rest_step

lemma hook_stands:
  assumes S: "db_stands J db m" and J: "json_ok J" and ok: "action_storable a"
    and on: "mirror_hook at a m = Some m'" and w: "sort_action a = SortedWrite w"
  shows "\<exists>db'. write_engine J at w db = Inr db' \<and> db_stands J db' m'"
proof (cases "\<exists>b role d. a = AcRecordBatch b role d")
  case True
  then show ?thesis using history_step [OF S] on ok w by auto
next
  case False
  then show ?thesis using hook_steps [OF S J] on ok w by (cases a) (auto simp del: mirror_hook.simps write_engine.simps)
qed

text \<open>The writes of the host.\<close>

lemma put_folder_step:
  assumes S: "db_stands J db m" and J: "json_ok J" and ok: "host_storable (PutFolder row)"
    and on: "mirror_host (PutFolder row) m = Some m'"
  shows "\<exists>db'. write_host J (PutFolder row) db = Inr db' \<and> db_stands J db' m'"
proof -
  define t where "t = (tables_at m (fr_id row))\<lparr>mt_row := row\<rparr>"
  have m': "m' = m\<lparr>mi_folders := bm_insert (fr_id row) t (mi_folders m)\<rparr>"
    using on by (auto simp: t_def tables_at_def tables_new_def split: option.splits)
  let ?db = "db\<lparr>tb_folders := bm_insert (folder_bytes (fr_id row)) (folder_columns_of J t) (tb_folders db)\<rparr>"
  have w: "write_host J (PutFolder row) db = Inr ?db"
    using ok by (simp add: json_texts [OF J] insert_row_def folder_columns_of_def t_def ID_LEN_def)
  have t: "folder_row_ok J (fr_id row) t" using ok J by (simp add: folder_row_ok_def folder_ok_def t_def)
  then have "stands folder_bytes (folder_columns_of J) (folder_row_ok J)
      (bm_entries (tb_folders ?db)) (mi_folders m')"
    using S folder_table.stands_insert [OF _ t, of "bm_entries (tb_folders db)" "mi_folders m"]
    by (simp add: db_stands_def m' set_entries_insert del: bm_insert.rep_eq)
  moreover have "tables_stand J ?db f (tables_at m' f)" for f
    using S by (auto simp: db_stands_def tables_stand_def history_stands_def heads_of_def entries_of_batch_def
        tables_at_def m' t_def split: option.splits)
  ultimately have "db_stands J ?db m'" using S by (simp add: db_stands_def m' batches_ok_def)
  with w show ?thesis by blast
qed

lemma machine_step:
  assumes S: "db_stands J db m" and ok: "host_storable w" and on: "mirror_host w m = Some m'"
    and w: "w = PutMachine mc \<or> w = RemoveMachine n"
  shows "\<exists>db'. write_host J w db = Inr db' \<and> db_stands J db' m'"
  using w
proof
  assume w: "w = PutMachine mc"
  have "machine_ok (mc_node mc) mc" using ok by (simp add: w)
  then show ?thesis
    using S on machine_table.stands_insert [of "bm_entries (tb_machines db)" "mi_machines m" "mc_node mc" mc]
    by (auto simp: w insert_row_def machine_ok_def ID_LEN_def db_stands_def table_simps tables_at_def batches_ok_def
        set_entries_insert simp del: bm_insert.rep_eq)
next
  assume w: "w = RemoveMachine n"
  then show ?thesis
    using S on machine_table.stands_remove [where rows = "bm_entries (tb_machines db)" and m = "mi_machines m" and k = n]
    by (auto simp: db_stands_def table_simps tables_at_def batches_ok_def set_entries_remove simp del: bm_entries_remove)
qed

lemma host_stands:
  assumes S: "db_stands J db m" and J: "json_ok J" and ok: "host_storable w" and on: "mirror_host w m = Some m'"
  shows "\<exists>db'. write_host J w db = Inr db' \<and> db_stands J db' m'"
proof (cases w)
  case (PutFolder row)
  then show ?thesis using put_folder_step [OF S J] ok on by simp
next
  case (PutMember fid mem)
  show ?thesis unfolding PutMember write_host.simps
    by (rule put_step [OF S on [unfolded PutMember mirror_host.simps]])
      (use ok in \<open>simp_all add: PutMember table_simps table_puts member_ok_def ID_LEN_def flip: member_columns_def\<close>)
next
  case (RemoveMember fid n)
  show ?thesis unfolding RemoveMember write_host.simps
    by (rule drop_step [OF S on [unfolded RemoveMember mirror_host.simps]]) (simp_all add: table_simps table_drops)
next
  case (PutTrash fid row)
  show ?thesis unfolding PutTrash write_host.simps
    by (rule put_step [OF S on [unfolded PutTrash mirror_host.simps]])
      (use ok in \<open>simp_all add: PutTrash table_simps table_puts trash_ok_def HASH_LEN_def flip: trash_columns_def\<close>)
next
  case (RemoveTrash fid k)
  show ?thesis unfolding RemoveTrash write_host.simps
    by (rule drop_step [OF S on [unfolded RemoveTrash mirror_host.simps]]) (simp_all add: table_simps table_drops)
next
  case (PutShim fid sh)
  show ?thesis unfolding PutShim write_host.simps
    by (rule put_step [OF S on [unfolded PutShim mirror_host.simps]])
      (use ok in \<open>simp_all add: PutShim table_simps table_puts flip: shim_columns_def\<close>)
next
  case (RemoveShim fid p)
  show ?thesis unfolding RemoveShim write_host.simps
    by (rule drop_step [OF S on [unfolded RemoveShim mirror_host.simps]]) (simp_all add: table_simps table_drops)
next
  case (PutDiskName fid d)
  show ?thesis unfolding PutDiskName write_host.simps
    by (rule put_step [OF S on [unfolded PutDiskName mirror_host.simps]])
      (use ok in \<open>simp_all add: PutDiskName table_simps table_puts\<close>)
next
  case (RemoveDiskName fid p)
  show ?thesis unfolding RemoveDiskName write_host.simps
    by (rule drop_step [OF S on [unfolded RemoveDiskName mirror_host.simps]]) (simp_all add: table_simps table_drops)
next
  case (PutJournal fid row)
  show ?thesis unfolding PutJournal write_host.simps
    by (rule put_step [OF S on [unfolded PutJournal mirror_host.simps]])
      (use ok in \<open>simp_all add: PutJournal table_simps table_puts flip: journal_columns_def\<close>)
next
  case (RemoveJournal fid p)
  show ?thesis unfolding RemoveJournal write_host.simps
    by (rule drop_step [OF S on [unfolded RemoveJournal mirror_host.simps]]) (simp_all add: table_simps table_drops)
qed (use machine_step [OF S ok on] in auto)

section \<open>Groups\<close>

fun op_storable :: "store_op \<Rightarrow> bool" where
  "op_storable (OpHook a) = action_storable a"
| "op_storable (OpHost w) = host_storable w"

fun write_of :: "store_op \<Rightarrow> group_write option" where
  "write_of (OpHook a) = (case sort_action a of SortedWrite w \<Rightarrow> Some (GwEngine w) | SortedEffect _ \<Rightarrow> None)"
| "write_of (OpHost w) = Some (GwHost w)"

lemma mirror_hook_writes: "mirror_hook at a m = Some m' \<Longrightarrow> \<exists>w. sort_action a = SortedWrite w"
  by (cases a) simp_all

lemma ops_stand:
  assumes "db_stands J db m" and "json_ok J" and "mirror_steps at ops m = Some m'" and "list_all op_storable ops"
  shows "\<exists>ws db'. map write_of ops = map Some ws \<and> write_all J at ws db = Inr db' \<and> db_stands J db' m'"
  using assms
proof (induction ops arbitrary: db m)
  case Nil
  then show ?case by auto
next
  case (Cons op ops)
  obtain m1 where m1: "mirror_op at op m = Some m1" "mirror_steps at ops m1 = Some m'"
    using Cons.prems(3) by (auto split: option.splits)
  have "\<exists>w db1. write_of op = Some w \<and> write_one J at w db = Inr db1 \<and> db_stands J db1 m1"
  proof (cases op)
    case (OpHook a)
    then obtain w where "sort_action a = SortedWrite w" using m1(1) mirror_hook_writes [of at a m m1] by auto
    then show ?thesis using hook_stands [OF Cons.prems(1,2), of a at m1 w] Cons.prems(4) m1(1) OpHook by auto
  next
    case (OpHost w)
    then show ?thesis using host_stands [OF Cons.prems(1,2), of w m1] Cons.prems(4) m1(1) by auto
  qed
  then obtain w db1 where w: "write_of op = Some w" "write_one J at w db = Inr db1" "db_stands J db1 m1" by blast
  from Cons.IH [OF w(3) Cons.prems(2) m1(2)] Cons.prems(4) obtain ws db'
    where "map write_of ops = map Some ws" "write_all J at ws db1 = Inr db'" "db_stands J db' m'" by auto
  with w show ?case by (intro exI [of _ "w # ws"] exI [of _ db']) simp
qed

lemma ops_group_writes:
  "map write_of ops = map Some ws \<Longrightarrow> ops_group_from ops g = Some (g\<lparr>gp_writes := gp_writes g @ ws\<rparr>)"
proof (induction ops arbitrary: ws g)
  case (Cons op ops)
  then obtain w ws' where ws: "ws = w # ws'" "write_of op = Some w" "map write_of ops = map Some ws'" by auto
  have "ops_group_from (op # ops) g = ops_group_from ops (g\<lparr>gp_writes := gp_writes g @ [w]\<rparr>)"
    using ws(2) by (cases op) (auto simp: group_push_def group_host_def split: sorted_action.splits)
  then show ?case using Cons.IH [OF ws(3)] by (simp add: ws(1))
qed simp

fun mirror_run :: "store_ops list \<Rightarrow> mirror \<Rightarrow> mirror option" where
  "mirror_run [] m = Some m"
| "mirror_run (ops # rest) m = (case mirror_apply ops m of None \<Rightarrow> None | Some m \<Rightarrow> mirror_run rest m)"

lemma groups_stand:
  assumes "db_stands J db m" and "json_ok J" and "mirror_run stream m = Some m'"
    and "list_all (\<lambda>ops. list_all op_storable (op_list ops)) stream"
  shows "\<exists>gs db'. map ops_group stream = map Some gs \<and> write_groups J gs db = Inr db' \<and> db_stands J db' m'"
  using assms
proof (induction stream arbitrary: db m)
  case Nil
  then show ?case by auto
next
  case (Cons ops stream)
  obtain m1 where m1: "mirror_apply ops m = Some m1" "mirror_run stream m1 = Some m'"
    using Cons.prems(3) by (auto split: option.splits)
  from ops_stand [OF Cons.prems(1,2) m1(1) [unfolded mirror_apply_def]] Cons.prems(4) obtain ws db1
    where ws: "map write_of (op_list ops) = map Some ws" "write_all J (op_at ops) ws db = Inr db1" "db_stands J db1 m1"
    by auto
  have "ops_group ops = Some \<lparr>gp_at = op_at ops, gp_writes = ws\<rparr>"
    using ops_group_writes [OF ws(1)] by (simp add: ops_group_def group_new_def)
  moreover from Cons.IH [OF ws(3) Cons.prems(2) m1(2)] Cons.prems(4) obtain gs db'
    where "map ops_group stream = map Some gs" "write_groups J gs db1 = Inr db'" "db_stands J db' m'" by auto
  ultimately show ?case
    using ws(2) by (intro exI [of _ "\<lparr>gp_at = op_at ops, gp_writes = ws\<rparr> # gs"] exI [of _ db']) simp
qed

section \<open>The readers\<close>

lemma values_out: "map (\<lambda>(k, v). v) (bm_entries m) = bm_values m"
  by (simp add: bm_values_def case_prod_unfold)

lemma pairs_out: "map (\<lambda>(k, v). (k, v)) xs = xs"
  by simp

lemma tables_standD:
  assumes "tables_stand J db fid t"
  shows "stands node_bytes member_columns member_ok (rows_of fid (tb_members db)) (mt_members t)"
    "stands path_str record_columns record_ok (rows_of fid (tb_entries db)) (mt_records t)"
    "stands path_str (\<lambda>w. the (js_want J w)) (json_path_ok J) (rows_of fid (tb_want db)) (mt_wants t)"
    "stands path_str (pending_columns J) (json_path_ok J) (rows_of fid (tb_pending db)) (mt_pending t)"
    "stands held_key (\<lambda>r. the (js_held J r)) (held_row_ok J) (rows_of fid (tb_held_items db)) (mt_held t)"
    "stands path_str (\<lambda>es. the (js_deferred J es)) (json_path_ok J) (rows_of fid (tb_deferred db)) (mt_deferred t)"
    "bm_get (tb_folder_state db) (folder_bytes fid) = map_option (\<lambda>r. the (js_rest J r)) (mt_rest t)"
    "history_stands db fid (mt_history t)"
    "stands (\<lambda>k. k) trash_columns trash_ok (rows_of fid (tb_trash db)) (mt_trash t)"
    "stands path_str shim_columns shim_ok (rows_of fid (tb_mtime_shim db)) (mt_shims t)"
    "stands path_str dn_name disk_name_ok (rows_of fid (tb_disk_names db)) (mt_disk_names t)"
    "stands path_str journal_columns journal_ok (rows_of fid (tb_commit_journal db)) (mt_journal t)"
  using assms by (simp_all add: tables_stand_def)

lemma read_tables:
  assumes "tables_stand J db fid t"
  shows "store_members fid db = Inr (bm_values (mt_members t))"
    and "store_trash fid db = Inr (bm_values (mt_trash t))"
    and "store_shims fid db = Inr (bm_values (mt_shims t))"
    and "store_disk_names fid db = Inr (bm_values (mt_disk_names t))"
    and "store_journal fid db = Inr (bm_values (mt_journal t))"
    and "store_history fid db = Inr (mt_history t)"
proof -
  note S = tables_standD [OF assms] and sorted = rows_of_sorted
  show "store_members fid db = Inr (bm_values (mt_members t))"
    using member_table.read_ordered [OF S(1) sorted] by (simp add: store_members_def values_out)
  show "store_trash fid db = Inr (bm_values (mt_trash t))"
    using trash_table.read_ordered [OF S(9) sorted] by (simp add: store_trash_def values_out)
  show "store_shims fid db = Inr (bm_values (mt_shims t))"
    using shim_table.read_ordered [OF S(10) sorted] by (simp add: store_shims_def values_out)
  show "store_disk_names fid db = Inr (bm_values (mt_disk_names t))"
    using disk_name_table.read_ordered [OF S(11) sorted] by (simp add: store_disk_names_def values_out)
  show "store_journal fid db = Inr (bm_values (mt_journal t))"
    using journal_table.read_ordered [OF S(12) sorted] by (simp add: store_journal_def values_out)
  show "store_history fid db = Inr (mt_history t)" by (rule history_read [OF S(8)])
qed

lemma read_parts:
  assumes "tables_stand J db fid t"
  shows "store_wants J fid db = Inr (mt_wants t)"
    and "store_pending J fid db = Inr (mt_pending t)"
    and "store_deferred J fid db = Inr (mt_deferred t)"
    and "store_held J fid db = Inr (mt_held t)"
    and "store_records fid db = Inr (mt_records t)"
    and "json_ok J \<Longrightarrow> store_rest J fid db = Inr (mt_rest t)"
    and "map mb_node (bm_values (mt_members t)) = bm_keys (mt_members t)"
proof -
  note S = tables_standD [OF assms] and sorted = rows_of_sorted
  show "store_wants J fid db = Inr (mt_wants t)"
    using want_table.read_ordered [OF S(3) sorted] by (simp add: store_wants_def)
  show "store_pending J fid db = Inr (mt_pending t)"
    using pending_table.read_ordered [OF S(4) sorted] by (simp add: store_pending_def)
  show "store_deferred J fid db = Inr (mt_deferred t)"
    using deferred_table.read_ordered [OF S(6) sorted] by (simp add: store_deferred_def)
  from held_table.read_rows [OF S(5) sorted_wrt_less_distinct [OF sorted]] obtain es
    where "try_all (read_held J) (rows_of fid (tb_held_items db)) = Inr es" "distinct (map fst es)"
      "set es = set (bm_entries (mt_held t))" by auto
  then show "store_held J fid db = Inr (mt_held t)" by (simp add: store_held_def bm_of_list_same)
  have "\<forall>p r. bm_get (mt_records t) p = Some r \<longrightarrow> e_path (ir_entry r) = p"
    using S(2) by (simp add: stands_def record_ok_def)
  then have "map (\<lambda>r. (e_path (ir_entry r), r)) (bm_values (mt_records t)) = bm_entries (mt_records t)"
    by (auto simp: bm_values_def comp_def in_bm_entries intro!: map_idI)
  then show "store_records fid db = Inr (mt_records t)"
    using record_table.read_ordered [OF S(2) sorted] by (simp add: store_records_def values_out)
  show "store_rest J fid db = Inr (mt_rest t)" if "json_ok J"
    using S(7) that by (cases "mt_rest t") (simp_all add: store_rest_def json_texts)
  have "\<forall>n m. bm_get (mt_members t) n = Some m \<longrightarrow> mb_node m = n"
    using S(1) by (simp add: stands_def member_ok_def)
  then show "map mb_node (bm_values (mt_members t)) = bm_keys (mt_members t)"
    by (auto simp: bm_values_def bm_keys_def comp_def in_bm_entries)
qed

lemma db_standsD:
  assumes "db_stands J db m"
  shows "stands folder_bytes (folder_columns_of J) (folder_row_ok J) (bm_entries (tb_folders db)) (mi_folders m)"
    and "stands node_bytes machine_columns machine_ok (bm_entries (tb_machines db)) (mi_machines m)"
    and "bm_get (mi_folders m) fid = Some t \<Longrightarrow> tables_stand J db fid t"
  using assms by (auto simp: db_stands_def tables_at_def dest!: spec [of _ fid])

lemma read_folders:
  assumes S: "db_stands J db m"
  shows "store_folders J db = Inr (map mt_row (bm_values (mi_folders m)))"
    and "store_machines db = Inr (bm_values (mi_machines m))"
    and "store_folder J fid db = Inr (map_option mt_row (bm_get (mi_folders m) fid))"
proof -
  show "store_folders J db = Inr (map mt_row (bm_values (mi_folders m)))"
    using folder_table.read_ordered [OF db_standsD(1) [OF S] bm.sorted_entries]
    by (simp add: store_folders_def bm_values_def case_prod_unfold comp_def)
  show "store_machines db = Inr (bm_values (mi_machines m))"
    using machine_table.read_ordered [OF db_standsD(2) [OF S] bm.sorted_entries] by (simp add: store_machines_def values_out)
  show "store_folder J fid db = Inr (map_option mt_row (bm_get (mi_folders m) fid))"
  proof (cases "bm_get (mi_folders m) fid")
    case None
    then have "bm_get (tb_folders db) (folder_bytes fid) = None" using recorded(1) [OF S, of fid] by auto
    then show ?thesis by (simp add: store_folder_def None)
  next
    case (Some t)
    then show ?thesis using recorded(2) [OF S Some] folder_table.read_row [of J fid t] by (simp add: store_folder_def)
  qed
qed

lemma options_out: "concat (map (\<lambda>p. case p of None \<Rightarrow> [] | Some p \<Rightarrow> [p]) (map f xs)) = List.map_filter f xs"
  by (induction xs) (simp_all split: option.split)

lemma read_all_parts:
  assumes S: "db_stands J db m" and J: "json_ok J"
  shows "store_parts J fid db = Inr (mirror_parts fid m)"
    and "store_load J db = Inr (List.map_filter (\<lambda>fid. mirror_parts fid m) (mirror_folder_ids m))"
proof -
  show parts: "store_parts J fid db = Inr (mirror_parts fid m)" for fid
  proof (cases "bm_get (mi_folders m) fid")
    case None
    then show ?thesis by (simp add: store_parts_def read_folders(3) [OF S] mirror_parts_def)
  next
    case (Some t)
    have T: "tables_stand J db fid t" by (rule db_standsD(3) [OF S Some])
    show ?thesis
      using read_parts(7) [OF T]
      by (simp add: store_parts_def read_folders(3) [OF S] Some read_parts(1-5) [OF T] read_parts(6) [OF T J]
          read_tables(1) [OF T] mirror_parts_def split: option.split)
  qed
  have ids: "map fr_id (map mt_row (bm_values (mi_folders m))) = mirror_folder_ids m"
    using S by (auto simp: mirror_folder_ids_def bm_values_def bm_keys_def comp_def in_bm_entries db_stands_def
        stands_def folder_row_ok_def folder_ok_def)
  have "try_all (\<lambda>row. store_parts J (fr_id row) db) rows = Inr (map (\<lambda>row. mirror_parts (fr_id row) m) rows)"
    for rows :: "folder_row list"
    by (simp add: parts try_all_map)
  moreover have "List.map_filter g (map fr_id rows) = List.map_filter (\<lambda>row. g (fr_id row)) rows"
    for g :: "folder_id \<Rightarrow> folder_parts option" and rows :: "folder_row list"
    by (induction rows) (simp_all split: option.split)
  ultimately show "store_load J db = Inr (List.map_filter (\<lambda>fid. mirror_parts fid m) (mirror_folder_ids m))"
    unfolding store_load_def read_folders(1) [OF S] ids [symmetric] by (simp only: then_try.simps options_out)
qed

section \<open>What the store promises\<close>


text \<open>A sample of \<open>serde_json\<close>'s contract: text that remembers the value.\<close>

datatype json_value =
    JRules rules | JWant want | JRecord index_record | JHeld held_row | JDeferred "deferred list" | JRest rest

definition sample_json :: "json_value json" where
  "sample_json =
     \<lparr>js_rules = \<lambda>x. Some (JRules x), un_rules = \<lambda>j. case j of JRules x \<Rightarrow> Some x | _ \<Rightarrow> None,
      js_want = \<lambda>x. Some (JWant x), un_want = \<lambda>j. case j of JWant x \<Rightarrow> Some x | _ \<Rightarrow> None,
      js_record = \<lambda>x. Some (JRecord x), un_record = \<lambda>j. case j of JRecord x \<Rightarrow> Some x | _ \<Rightarrow> None,
      js_held = \<lambda>x. Some (JHeld x), un_held = \<lambda>j. case j of JHeld x \<Rightarrow> Some x | _ \<Rightarrow> None,
      js_deferred = \<lambda>x. Some (JDeferred x), un_deferred = \<lambda>j. case j of JDeferred x \<Rightarrow> Some x | _ \<Rightarrow> None,
      js_rest = \<lambda>x. Some (JRest x), un_rest = \<lambda>j. case j of JRest x \<Rightarrow> Some x | _ \<Rightarrow> None\<rparr>"

lemma sample_json_ok: "json_ok sample_json"
  by (simp add: json_ok_def round_trips_def sample_json_def)

definition wide_folder :: folder_id where
  "wide_folder = FolderId (replicate 16 9)"

definition sample_stream :: "store_ops list" where
  "sample_stream =
     [\<lparr>op_at = 1, op_list = [OpHost (PutFolder \<lparr>fr_id = wide_folder, fr_name = ''f'',
        fr_created_by = NodeId (replicate 16 1), fr_rules = rules_default, fr_meta_version = 0\<rparr>)]\<rparr>,
      \<lparr>op_at = 2, op_list = [OpHook (AcIndexChanged wide_folder \<lparr>ir_entry = wide_entry, ir_seq = 1\<rparr>),
        OpHost (PutShim wide_folder \<lparr>sh_path = path_a, sh_requested = 1, sh_stored = 0\<rparr>)]\<rparr>]"

lemma sample_path: "valid_path path_a"
  by code_simp

lemma sample_stream_ok: "list_all (\<lambda>ops. list_all op_storable (op_list ops)) sample_stream"
  by (simp add: sample_stream_def wide_entry_storable sample_path record_ok_def shim_ok_def folder_row_ok_def folder_ok_def
      wide_folder_def ID_LEN_def u64_fits_def)

lemma sample_stream_runs: "mirror_run sample_stream mirror_new \<noteq> None"
  by (simp add: sample_stream_def mirror_apply_def mirror_new_def on_tables_def)


end
