(* ===== verification/Writers.thy ===== *)
theory Writers
  imports StoreViews
begin

text \<open>
  \<open>crates/delocal/src/store/writer.rs\<close>: the group-commit writer. One thread owns the store; it takes every group
  that waits, commits them in one transaction, and resolves each group's \<open>Durable\<close> with the outcome. The
  channel is the list of jobs, and a \<open>Durable\<close> its group's entry in the list of resolved groups. How many groups
  wait when the thread looks, and whether SQLite fails for a reason outside the writes, come from outside.
\<close>

datatype write_error = Failed store_error | Poisoned store_error | Stopped

type_synonym write_outcome = "write_error + unit"

record 'j writer =
  wr_open :: bool
  wr_alive :: bool
  wr_jobs :: "group list"
  wr_store :: "'j db"
  wr_failed :: "store_error option"
  wr_resolved :: "(group \<times> write_outcome) list"

definition store_writer :: "'j db \<Rightarrow> 'j writer" where
  "store_writer db =
     \<lparr>wr_open = True, wr_alive = True, wr_jobs = [], wr_store = db, wr_failed = None, wr_resolved = []\<rparr>"

definition resolve_all :: "write_outcome \<Rightarrow> group list \<Rightarrow> 'j writer \<Rightarrow> 'j writer" where
  "resolve_all outcome gs w = w\<lparr>wr_resolved := wr_resolved w @ map (\<lambda>g. (g, outcome)) gs\<rparr>"

text \<open>\<open>Writer::submit\<close>: to a thread that has gone, or after closing, the group resolves as stopped.\<close>

definition writer_submit :: "group \<Rightarrow> 'j writer \<Rightarrow> 'j writer" where
  "writer_submit g w =
     (if wr_open w \<and> wr_alive w then w\<lparr>wr_jobs := wr_jobs w @ [g]\<rparr> else resolve_all (Inl Stopped) [g] w)"

text \<open>A transaction, which SQLite may fail whatever it holds.\<close>

definition commit_or_fail :: "'j json \<Rightarrow> store_error option \<Rightarrow> group list \<Rightarrow> 'j db \<Rightarrow> unit stored \<times> 'j db" where
  "commit_or_fail J fault gs db = (case fault of Some e \<Rightarrow> (Inl e, db) | None \<Rightarrow> store_commit J gs db)"

text \<open>One turn of the loop of \<open>run\<close>, over the \<open>n\<close> groups that wait.\<close>

definition writer_round :: "'j json \<Rightarrow> store_error option \<Rightarrow> nat \<Rightarrow> 'j writer \<Rightarrow> 'j writer" where
  "writer_round J fault n w =
     (let gs = take n (wr_jobs w); w = w\<lparr>wr_jobs := drop n (wr_jobs w)\<rparr> in
      case wr_failed w of
        Some e \<Rightarrow> resolve_all (Inl (Poisoned e)) gs w
      | None \<Rightarrow>
         if list_all group_is_empty gs then resolve_all (Inr ()) gs w
         else
           (case commit_or_fail J fault gs (wr_store w) of
              (Inl e, db) \<Rightarrow> resolve_all (Inl (Failed e)) gs (w\<lparr>wr_store := db, wr_failed := Some e\<rparr>)
            | (Inr u, db) \<Rightarrow> resolve_all (Inr ()) gs (w\<lparr>wr_store := db\<rparr>)))"

text \<open>A panic drops every signal the thread holds or would have taken, and the open transaction with it.\<close>

definition writer_panic :: "'j writer \<Rightarrow> 'j writer" where
  "writer_panic w = (resolve_all (Inl Stopped) (wr_jobs w) w)\<lparr>wr_jobs := [], wr_alive := False\<rparr>"

text \<open>\<open>Writer::close\<close> and dropping it: the queue ends, and what it holds is still taken. The handle is consumed.\<close>

definition writer_close :: "'j writer \<Rightarrow> 'j writer" where
  "writer_close w = w\<lparr>wr_open := False\<rparr>"

text \<open>The runs of a writer that starts on \<open>db\<close>, with the groups submitted so far.\<close>

inductive writer_runs :: "'j json \<Rightarrow> 'j db \<Rightarrow> group list \<Rightarrow> 'j writer \<Rightarrow> bool"
  for J :: "'j json" and db :: "'j db"
where
  starts: "writer_runs J db [] (store_writer db)"
| submits: "writer_runs J db gs w \<Longrightarrow> wr_open w \<Longrightarrow> writer_runs J db (gs @ [g]) (writer_submit g w)"
| turns: "writer_runs J db gs w \<Longrightarrow> wr_alive w \<Longrightarrow> 0 < n \<Longrightarrow> n \<le> length (wr_jobs w) \<Longrightarrow>
    writer_runs J db gs (writer_round J fault n w)"
| panics: "writer_runs J db gs w \<Longrightarrow> wr_alive w \<Longrightarrow> writer_runs J db gs (writer_panic w)"
| closes: "writer_runs J db gs w \<Longrightarrow> writer_runs J db gs (writer_close w)"

section \<open>What is resolved\<close>

lemma write_groups_append:
  "write_groups J (gs @ hs) db = then_try (write_groups J gs db) (write_groups J hs)"
proof (induction gs arbitrary: db)
  case (Cons g gs)
  then show ?case by (cases "write_all J (gp_at g) (gp_writes g) db") simp_all
qed simp

lemma write_groups_empty: "list_all group_is_empty gs \<Longrightarrow> write_groups J gs db = Inr db"
  by (induction gs) (simp_all add: group_is_empty_def)

lemma store_commit_ok: "store_commit J gs db = (Inr u, db') \<longleftrightarrow> write_groups J gs db = Inr db'"
  by (auto simp: store_commit_def split: sum.splits)

lemma store_commit_err: "store_commit J gs db = (Inl e, db') \<Longrightarrow> db' = db"
  by (auto simp: store_commit_def split: sum.splits)

text \<open>The groups resolved well come first, and the store holds their writes and no others.\<close>

definition resolved_prefix :: "'j json \<Rightarrow> 'j db \<Rightarrow> 'j writer \<Rightarrow> group list \<Rightarrow> (group \<times> write_outcome) list \<Rightarrow> bool" where
  "resolved_prefix J db w good bad \<longleftrightarrow>
     wr_resolved w = map (\<lambda>g. (g, Inr ())) good @ bad \<and> list_all (\<lambda>(g, r). r \<noteq> Inr ()) bad \<and>
     write_groups J good db = Inr (wr_store w)"

definition writer_sound :: "'j json \<Rightarrow> 'j db \<Rightarrow> group list \<Rightarrow> 'j writer \<Rightarrow> bool" where
  "writer_sound J db gs w \<longleftrightarrow>
     map fst (wr_resolved w) @ wr_jobs w = gs \<and> (\<not> wr_alive w \<longrightarrow> wr_jobs w = []) \<and>
     (\<exists>good bad. resolved_prefix J db w good bad \<and> (bad = [] \<or> wr_failed w \<noteq> None \<or> \<not> wr_alive w))"

lemma resolved_bad:
  assumes "resolved_prefix J db w good bad" and "r \<noteq> Inr ()" and "wr_store w' = wr_store w"
    and "wr_resolved w' = wr_resolved w @ map (\<lambda>g. (g, r)) gs"
  shows "resolved_prefix J db w' good (bad @ map (\<lambda>g. (g, r)) gs)"
  using assms by (auto simp: resolved_prefix_def list_all_iff)

lemma resolved_good:
  assumes "resolved_prefix J db w good []" and "write_groups J gs (wr_store w) = Inr (wr_store w')"
    and "wr_resolved w' = wr_resolved w @ map (\<lambda>g. (g, Inr ())) gs"
  shows "resolved_prefix J db w' (good @ gs) []"
  using assms by (simp add: resolved_prefix_def write_groups_append)

lemma resolved_groups: "map fst (wr_resolved w @ map (\<lambda>g. (g, r)) gs) = map fst (wr_resolved w) @ gs"
  by (simp add: comp_def)

lemma round_sound:
  assumes S: "writer_sound J db gs w" and alive: "wr_alive w"
  shows "writer_sound J db gs (writer_round J fault n w)"
proof -
  obtain good bad where gb: "resolved_prefix J db w good bad" "bad = [] \<or> wr_failed w \<noteq> None"
    and gs: "map fst (wr_resolved w) @ wr_jobs w = gs"
    using S alive by (auto simp: writer_sound_def)
  let ?w = "writer_round J fault n w" and ?gs = "take n (wr_jobs w)"
  have jobs: "wr_jobs ?w = drop n (wr_jobs w)" and alive': "wr_alive ?w"
    by (auto simp: writer_round_def Let_def resolve_all_def alive split: option.split sum.split prod.split)
  have "\<exists>r good bad. wr_resolved ?w = wr_resolved w @ map (\<lambda>g. (g, r)) ?gs \<and> resolved_prefix J db ?w good bad \<and>
      (bad = [] \<or> wr_failed ?w \<noteq> None)"
  proof (cases "wr_failed w")
    case (Some e)
    let ?r = "Inl (Poisoned e) :: write_outcome"
    have new: "wr_resolved ?w = wr_resolved w @ map (\<lambda>g. (g, ?r)) ?gs" "wr_store ?w = wr_store w" "wr_failed ?w = Some e"
      by (simp_all add: writer_round_def Let_def resolve_all_def Some)
    from resolved_bad [OF gb(1) _ new(2,1)] new show ?thesis by blast
  next
    case None
    then have good: "resolved_prefix J db w good []" using gb by auto
    consider (empty) "list_all group_is_empty ?gs" | (bad) e db' where "\<not> list_all group_is_empty ?gs"
        "commit_or_fail J fault ?gs (wr_store w) = (Inl e, db')"
      | (ok) u db' where "\<not> list_all group_is_empty ?gs" "commit_or_fail J fault ?gs (wr_store w) = (Inr u, db')"
      by (metis old.prod.exhaust sum.exhaust)
    then show ?thesis
    proof cases
      case empty
      have new: "wr_resolved ?w = wr_resolved w @ map (\<lambda>g. (g, Inr ())) ?gs" "wr_store ?w = wr_store w"
        by (simp_all add: writer_round_def Let_def resolve_all_def None empty)
      from resolved_good [OF good _ new(1)] write_groups_empty [OF empty] new show ?thesis by metis
    next
      case bad
      let ?r = "Inl (Failed e) :: write_outcome"
      have "db' = wr_store w"
        using bad(2) by (auto simp: commit_or_fail_def store_commit_err split: option.splits)
      then have new: "wr_resolved ?w = wr_resolved w @ map (\<lambda>g. (g, ?r)) ?gs" "wr_store ?w = wr_store w" "wr_failed ?w = Some e"
        by (simp_all add: writer_round_def Let_def resolve_all_def None bad)
      from resolved_bad [OF good _ new(2,1)] new show ?thesis by blast
    next
      case ok
      have new: "wr_resolved ?w = wr_resolved w @ map (\<lambda>g. (g, Inr ())) ?gs" "wr_store ?w = db'"
        by (simp_all add: writer_round_def Let_def resolve_all_def None ok)
      have "write_groups J ?gs (wr_store w) = Inr (wr_store ?w)"
        using ok(2) by (auto simp: new commit_or_fail_def store_commit_ok split: option.splits)
      from resolved_good [OF good this new(1)] new show ?thesis by blast
    qed
  qed
  then obtain r good bad where "wr_resolved ?w = wr_resolved w @ map (\<lambda>g. (g, r)) ?gs"
    "resolved_prefix J db ?w good bad" "bad = [] \<or> wr_failed ?w \<noteq> None" by blast
  then show ?thesis using gs alive' by (auto simp: writer_sound_def jobs comp_def)
qed

lemma runs_sound: "writer_runs J db gs w \<Longrightarrow> writer_sound J db gs w"
proof (induction rule: writer_runs.induct)
  case starts
  show ?case by (auto simp: writer_sound_def store_writer_def resolved_prefix_def)
next
  case (submits gs w g)
  then obtain good bad where gb: "resolved_prefix J db w good bad" "bad = [] \<or> wr_failed w \<noteq> None \<or> \<not> wr_alive w"
    by (auto simp: writer_sound_def)
  show ?case
  proof (cases "wr_alive w")
    case True
    then show ?thesis using submits by (auto simp: writer_submit_def writer_sound_def resolved_prefix_def)
  next
    case False
    let ?w = "resolve_all (Inl Stopped) [g] w"
    have "resolved_prefix J db ?w good (bad @ map (\<lambda>g. (g, Inl Stopped)) [g])"
      by (rule resolved_bad [OF gb(1)]) (simp_all add: resolve_all_def)
    then show ?thesis
      using submits False by (auto simp: writer_submit_def writer_sound_def resolve_all_def)
  qed
next
  case (turns gs w n fault)
  then show ?case by (intro round_sound)
next
  case (panics gs w)
  then obtain good bad where gb: "resolved_prefix J db w good bad" by (auto simp: writer_sound_def)
  have "resolved_prefix J db (writer_panic w) good (bad @ map (\<lambda>g. (g, Inl Stopped)) (wr_jobs w))"
    by (rule resolved_bad [OF gb]) (simp_all add: writer_panic_def resolve_all_def)
  then show ?case using panics by (auto simp: writer_sound_def writer_panic_def resolve_all_def comp_def)
next
  case (closes gs w)
  then show ?case by (auto simp: writer_sound_def writer_close_def resolved_prefix_def)
qed

text \<open>C4: Durable means durable, in order. Whatever is submitted, however the writer's turns fall, and whichever
  transactions fail, panics and closings included: groups resolve in the order they were submitted, those resolved
  \<open>Ok\<close> are a prefix of the submitted, and the store holds exactly the writes of that prefix, one after the other.\<close>

theorem writer_prefix:
  assumes "writer_runs J db gs w"
  shows "\<exists>n. map fst (wr_resolved w) @ wr_jobs w = gs \<and> n \<le> length (wr_resolved w) \<and>
    write_groups J (take n gs) db = Inr (wr_store w) \<and>
    (\<forall>i < length (wr_resolved w). snd (wr_resolved w ! i) = Inr () \<longleftrightarrow> i < n)"
proof -
  obtain good bad where gb: "wr_resolved w = map (\<lambda>g. (g, Inr ())) good @ bad" "list_all (\<lambda>(g, r). r \<noteq> Inr ()) bad"
      "write_groups J good db = Inr (wr_store w)"
    and gs: "map fst (wr_resolved w) @ wr_jobs w = gs"
    using runs_sound [OF assms] unfolding writer_sound_def resolved_prefix_def by metis
  have "take (length good) gs = good" by (simp add: gs [symmetric] gb(1) comp_def)
  moreover have "snd (wr_resolved w ! i) = Inr () \<longleftrightarrow> i < length good" if "i < length (wr_resolved w)" for i
    using that gb(2) by (auto simp: gb(1) nth_append list_all_length case_prod_unfold)
  ultimately show ?thesis using gb(3) gs by (intro exI [of _ "length good"]) (auto simp: gb(1))
qed

definition put_sample :: group where
  "put_sample = group_host (PutFolder \<lparr>fr_id = wide_folder, fr_name = ''f'', fr_created_by = NodeId (replicate 16 1),
     fr_rules = rules_default, fr_meta_version = 0\<rparr>) (group_new 1)"

lemma writer_prefix_witness:
  "\<exists>n. write_groups sample_json (take n [put_sample, put_sample]) db_new =
      Inr (wr_store (writer_round sample_json (Some Sqlite) 1
        (writer_round sample_json None 1 (writer_submit put_sample (writer_submit put_sample (store_writer db_new))))))"
proof -
  let ?w2 = "writer_submit put_sample (writer_submit put_sample (store_writer db_new))"
  have "writer_runs sample_json db_new ([] @ [put_sample]) (writer_submit put_sample (store_writer db_new))"
    by (intro writer_runs.intros) (simp add: store_writer_def)
  then have two: "writer_runs sample_json db_new ([put_sample] @ [put_sample]) ?w2"
    by (intro writer_runs.submits) (simp_all add: writer_submit_def store_writer_def)
  have jobs: "wr_jobs ?w2 = [put_sample, put_sample]" "wr_alive ?w2" by (simp_all add: writer_submit_def store_writer_def)
  have one: "writer_runs sample_json db_new ([put_sample] @ [put_sample]) (writer_round sample_json None 1 ?w2)"
    by (rule writer_runs.turns [OF two]) (simp_all add: jobs)
  have "wr_jobs (writer_round sample_json None 1 ?w2) = [put_sample]" "wr_alive (writer_round sample_json None 1 ?w2)"
    by (auto simp: writer_round_def Let_def resolve_all_def jobs split: option.split sum.split prod.split)
  then have "writer_runs sample_json db_new ([put_sample] @ [put_sample])
      (writer_round sample_json (Some Sqlite) 1 (writer_round sample_json None 1 ?w2))"
    by (intro writer_runs.turns [OF one]) simp_all
  from writer_prefix [OF this] show ?thesis by auto
qed

end
