(* ===== verification/Tiers.thy ===== *)
theory Tiers
  imports Wants "HOL-Library.List_Lexorder" "HOL-Library.Char_ord"
begin

text \<open>
  \<open>crates/delocal/src/tailscale.rs\<close> and \<open>crates/delocal/src/tailscale/tier.rs\<close>: the connection tier of each
  peer, from the path Tailscale has to it. An address is a 32-bit or a 128-bit word, with a port.
\<close>

section \<open>Addresses\<close>

datatype ip_addr = IpV4 "32 word" | IpV6 "128 word"

type_synonym socket_addr = "ip_addr \<times> nat"
type_synonym stable_id = string

record path_info =
  pi_direct :: "socket_addr option"
  pi_relay :: "string option"

record ts_peer =
  tp_hostname :: string
  tp_addrs :: "socket_addr list"
  tp_stable_id :: stable_id
  tp_user :: string
  tp_online :: bool
  tp_tags :: "string list"
  tp_path :: "path_info option"

text \<open>Whether the top \<open>n\<close> bits of a word are those of another.\<close>

definition in_block :: "nat \<Rightarrow> 'a::len word \<Rightarrow> 'a word \<Rightarrow> bool" where
  "in_block n net a \<longleftrightarrow> drop_bit (LENGTH('a) - n) a = drop_bit (LENGTH('a) - n) net"

text \<open>\<open>IpAddr::to_canonical\<close>: an IPv4 address in IPv6 form (\<open>::ffff:a.b.c.d\<close>) is the IPv4 address.\<close>

fun to_canonical :: "ip_addr \<Rightarrow> ip_addr" where
  "to_canonical (IpV4 a) = IpV4 a"
| "to_canonical (IpV6 a) = (if in_block 96 0xFFFF00000000 a then IpV4 (ucast a) else IpV6 a)"

text \<open>RFC 1918, and the link-local blocks of both families.\<close>

definition v4_is_private :: "32 word \<Rightarrow> bool" where
  "v4_is_private a \<longleftrightarrow> in_block 8 0x0A000000 a \<or> in_block 12 0xAC100000 a \<or> in_block 16 0xC0A80000 a"

definition v4_is_link_local :: "32 word \<Rightarrow> bool" where
  "v4_is_link_local a \<longleftrightarrow> in_block 16 0xA9FE0000 a"

definition v6_is_unicast_link_local :: "128 word \<Rightarrow> bool" where
  "v6_is_unicast_link_local a \<longleftrightarrow> in_block 10 (push_bit 112 0xFE80) a"

definition ip_private :: "ip_addr \<Rightarrow> bool" where
  "ip_private ip =
     (case to_canonical ip of
        IpV4 a \<Rightarrow> v4_is_private a \<or> v4_is_link_local a
      | IpV6 a \<Rightarrow> v6_is_unicast_link_local a)"

section \<open>Tiers\<close>

definition tier_classify :: "path_info option \<Rightarrow> tier" where
  "tier_classify path =
     (case Option.bind path pi_direct of
        Some (ip, port) \<Rightarrow> if ip_private ip then TLan else TDirect
      | None \<Rightarrow> TRelay)"

type_synonym tiers = "(stable_id, tier) bmap"

definition tiers_of :: "ts_peer list \<Rightarrow> tiers" where
  "tiers_of ps = bm_of_list (map (\<lambda>p. (tp_stable_id p, tier_classify (tp_path p))) ps)"

definition tiers_get :: "tiers \<Rightarrow> stable_id \<Rightarrow> tier" where
  "tiers_get ts i = (case bm_get ts i of Some t \<Rightarrow> t | None \<Rightarrow> TRelay)"

text \<open>The tier a poll gives a node, by its binding.\<close>

definition tier_now :: "tiers \<Rightarrow> (node_id, stable_id) bmap \<Rightarrow> node_id \<Rightarrow> tier" where
  "tier_now ts bindings peer = (case bm_get bindings peer of Some i \<Rightarrow> tiers_get ts i | None \<Rightarrow> TRelay)"

definition tiers_changes ::
    "tiers \<Rightarrow> (node_id \<times> tier) list \<Rightarrow> (node_id, stable_id) bmap \<Rightarrow> (node_id \<times> tier) list" where
  "tiers_changes ts connected bindings =
     List.map_filter (\<lambda>(peer, was). let t = tier_now ts bindings peer in if t \<noteq> was then Some (peer, t) else None)
       connected"

text \<open>One turn of \<open>poll\<close>: what is sent, and whether the listing is failing. \<open>None\<close> is a listing that failed.\<close>

definition poll_turn :: "ts_peer list option \<Rightarrow> bool \<Rightarrow> tiers \<times> bool" where
  "poll_turn listing failing =
     (case listing of Some ps \<Rightarrow> (tiers_of ps, False) | None \<Rightarrow> (bm_empty, True))"

section \<open>What the tiers are\<close>

lemma tiers_changes_out:
  "(peer, t) \<in> set (tiers_changes ts connected bindings) \<longleftrightarrow>
     t = tier_now ts bindings peer \<and> (\<exists>was. (peer, was) \<in> set connected \<and> was \<noteq> t)"
  by (force simp: tiers_changes_def map_filter_def Let_def split: if_splits)

end
