(* ===== verification/Cores.thy ===== *)
theory Cores
  imports Writers Tiers
begin

text \<open>
  \<open>crates/delocal/src/daemon/core.rs\<close> and \<open>crates/delocal/src/daemon/clock.rs\<close>: the engine task, the one place the
  engine runs. It stamps every input with the clock, hands it to the engine, puts the writes that come back in
  a group for the writer, and sends the effects to wait for that group. Each step returns what it hands off, in
  order. An \<open>Instant\<close> is a number of nanoseconds of the monotonic clock, and does not move within one input.
\<close>

section \<open>The clock\<close>

type_synonym instant = int

record clock =
  ck_wall :: int
  ck_start :: instant

text \<open>\<open>nanos\<close> of a duration, and \<open>Clock::start\<close> at the instant it is called, the wall clock as far from 1970.\<close>

definition clock_nanos :: "int \<Rightarrow> int" where
  "clock_nanos d = min d i64_max"

definition clock_start :: "instant \<Rightarrow> int \<Rightarrow> clock" where
  "clock_start t wall = \<lparr>ck_wall = (if 0 \<le> wall then clock_nanos wall else - clock_nanos (- wall)), ck_start = t\<rparr>"

definition clock_now :: "clock \<Rightarrow> instant \<Rightarrow> timestamp" where
  "clock_now ck t = i64_sat_add (ck_wall ck) (clock_nanos (max 0 (t - ck_start ck)))"

definition clock_instant :: "clock \<Rightarrow> timestamp \<Rightarrow> instant" where
  "clock_instant ck at = ck_start ck + max 0 (since at (ck_wall ck))"

section \<open>What comes in and what goes out\<close>

datatype source = SrcScan | SrcCommit | SrcObserve | SrcWatch | SrcHost

record report =
  rp_event :: event
  rp_writes :: "host_write list"
  rp_compared :: "entry option"
  rp_source :: source

text \<open>Of \<open>ScanReport\<close>, what this task reads: whether the scan was aborted, and the names it found.\<close>

record scan_report =
  sp_aborted :: bool
  sp_disk_names :: "disk_name list"

record seen_path =
  sn_path :: rel_path
  sn_names :: "(rel_path \<times> os_bytes) list"

datatype input =
    InReport report
  | InWrites "host_write list"
  | InScanDone folder_id "scan_report option"
  | InTiers tiers
  | InWatched folder_id "seen_path list"
  | InRescan folder_id
  | InGuard folder_id bool
  | InStop

datatype job =
    JbRecords folder_id "(rel_path \<times> entry option) list"
  | JbNames folder_id "(rel_path \<times> os_bytes option) list"
  | JbCommit folder_id action version
  | JbOutbound action
  | JbObserve folder_id rel_path
  | JbAgain folder_id rel_path
  | JbWatched folder_id "seen_path list"
  | JbScan folder_id
  | JbSpace folder_id

text \<open>A group with the jobs that wait for it, a job that waits for none, and a watch set on a folder's root. With a
  group goes the engine as it stands then, for the statements about what a group's durability means; nothing
  reads it.\<close>

datatype handoff = HoRelease group "job list" engine | HoDirect job | HoWatch folder_id os_bytes

definition SETTLE :: int where
  "SETTLE = 2 * NANOS_PER_SECOND"

section \<open>What the task keeps\<close>

record watch =
  wa_scanning :: bool
  wa_next_scan :: "instant option"
  wa_space_at :: "instant option"
  wa_names :: "(rel_path, os_bytes) bmap"
  wa_skipped :: "rel_path list"
  wa_touched :: "rel_path bset"
  wa_reshimmed :: "rel_path bset"
  wa_shimmed :: "rel_path bset"
  wa_changes :: nat
  wa_root :: os_bytes
  wa_guarded :: bool
  wa_unwatched :: bool
  wa_rescan_after :: bool

record reobserve =
  rb_due :: "(folder_id \<times> rel_path, instant) bmap"
  rb_order :: "(instant \<times> folder_id \<times> rel_path) bset"

definition reobserve_new :: reobserve where
  "reobserve_new = \<lparr>rb_due = bm_empty, rb_order = bm_empty\<rparr>"

definition reobserve_at :: "folder_id \<Rightarrow> rel_path \<Rightarrow> instant \<Rightarrow> reobserve \<Rightarrow> reobserve" where
  "reobserve_at fid p at rb =
     (let order = (case bm_get (rb_due rb) (fid, p) of
            Some old \<Rightarrow> bm_remove (old, fid, p) (rb_order rb) | None \<Rightarrow> rb_order rb)
      in \<lparr>rb_due = bm_insert (fid, p) at (rb_due rb), rb_order = bs_insert (at, fid, p) order\<rparr>)"

definition reobserve_next :: "reobserve \<Rightarrow> instant option" where
  "reobserve_next rb = (case bm_keys (rb_order rb) of [] \<Rightarrow> None | (at, _) # _ \<Rightarrow> Some at)"

text \<open>The loop of \<open>take\<close>, over the order as it stands.\<close>

fun take_due :: "instant \<Rightarrow> (instant \<times> folder_id \<times> rel_path) list \<Rightarrow> reobserve \<Rightarrow> (folder_id \<times> rel_path) list \<times> reobserve" where
  "take_due now [] rb = ([], rb)"
| "take_due now ((at, fid, p) # waiting) rb =
     (if now < at then ([], rb)
      else
        let (due, rb) = take_due now waiting
              (rb\<lparr>rb_order := bm_remove (at, fid, p) (rb_order rb), rb_due := bm_remove (fid, p) (rb_due rb)\<rparr>)
        in ((fid, p) # due, rb))"

definition reobserve_take :: "instant \<Rightarrow> reobserve \<Rightarrow> (folder_id \<times> rel_path) list \<times> reobserve" where
  "reobserve_take now rb = take_due now (bm_keys (rb_order rb)) rb"

record core =
  co_engine :: engine
  co_clock :: clock
  co_folders :: "(folder_id, watch) bmap"
  co_wake :: "timestamp option"
  co_rescan :: int
  co_space_check :: int
  co_bindings :: "(node_id, stable_id) bmap"
  co_reobserve :: reobserve
  co_watcher :: bool

definition on_watch :: "folder_id \<Rightarrow> (watch \<Rightarrow> watch) \<Rightarrow> core \<Rightarrow> core" where
  "on_watch fid g c =
     (case bm_get (co_folders c) fid of
        Some w \<Rightarrow> c\<lparr>co_folders := bm_insert fid (g w) (co_folders c)\<rparr> | None \<Rightarrow> c)"

section \<open>What a report says\<close>

text \<open>The state a report about a path carries, and the report with another state.\<close>

fun found_in :: "event \<Rightarrow> (folder_id \<times> rel_path \<times> scan_state) option" where
  "found_in (EvScanned fid p st at) = Some (fid, p, st)"
| "found_in (EvApplied fid p v at (AChangedUnderneath st)) = Some (fid, p, st)"
| "found_in (EvApplied fid p v at (AFailed err st)) = Some (fid, p, st)"
| "found_in (EvTrashed fid p v at (AChangedUnderneath st)) = Some (fid, p, st)"
| "found_in (EvTrashed fid p v at (AFailed err st)) = Some (fid, p, st)"
| "found_in _ = None"

fun with_found :: "scan_state \<Rightarrow> event \<Rightarrow> event" where
  "with_found st (EvScanned fid p _ at) = EvScanned fid p st at"
| "with_found st (EvApplied fid p v at (AChangedUnderneath _)) = EvApplied fid p v at (AChangedUnderneath st)"
| "with_found st (EvApplied fid p v at (AFailed err _)) = EvApplied fid p v at (AFailed err st)"
| "with_found st (EvTrashed fid p v at (AChangedUnderneath _)) = EvTrashed fid p v at (AChangedUnderneath st)"
| "with_found st (EvTrashed fid p v at (AFailed err _)) = EvTrashed fid p v at (AFailed err st)"
| "with_found st ev = ev"

text \<open>An \<open>Unchanged\<close> compared against a record the engine no longer holds is only seen.\<close>

definition relative :: "engine \<Rightarrow> event \<Rightarrow> entry option \<Rightarrow> event" where
  "relative e ev compared =
     (case found_in ev of
        Some (fid, p, Unchanged) \<Rightarrow>
          (let now = map_option (\<lambda>r. entry_observed (ir_entry r))
                 (Option.bind (en_folder e fid) (\<lambda>f. ix_live (fo_index f) p))
           in if now = map_option entry_observed (opt_filter (\<lambda>c. \<not> e_deleted c) compared) then ev
              else with_found (Skipped Unstable) ev)
      | _ \<Rightarrow> ev)"

text \<open>A scan's report of a path whose shim pair changed under it.\<close>

fun reshimmed :: "(folder_id, watch) bmap \<Rightarrow> event \<Rightarrow> event" where
  "reshimmed ws (EvScanned fid p st at) =
     (case st of
        Skipped _ \<Rightarrow> EvScanned fid p st at
      | _ \<Rightarrow>
         (case bm_get ws fid of
            Some w \<Rightarrow> if wa_scanning w \<and> bm_has (wa_reshimmed w) p then EvScanned fid p (Skipped Unstable) at
              else EvScanned fid p st at
          | None \<Rightarrow> EvScanned fid p st at))"
| "reshimmed ws ev = ev"

definition unstable :: "event \<Rightarrow> (folder_id \<times> rel_path) option" where
  "unstable ev =
     (case found_in ev of Some (fid, p, st) \<Rightarrow> if st = Skipped Unstable then Some (fid, p) else None | None \<Rightarrow> None)"

fun report_folder :: "event \<Rightarrow> folder_id option" where
  "report_folder (EvScanned fid p st at) = Some fid"
| "report_folder (EvApplied fid p v at outcome) = Some fid"
| "report_folder (EvTrashed fid p v at outcome) = Some fid"
| "report_folder _ = None"

section \<open>Handing an event's consequences on\<close>

text \<open>\<open>entry(..).or_default().push(..)\<close>.\<close>

definition bm_push :: "'k::linorder \<Rightarrow> 'v \<Rightarrow> ('k, 'v list) bmap \<Rightarrow> ('k, 'v list) bmap" where
  "bm_push k v m = bm_insert k ((case bm_get m k of Some vs \<Rightarrow> vs | None \<Rightarrow> []) @ [v]) m"

type_synonym record_updates = "(folder_id, (rel_path \<times> entry option) list) bmap"
type_synonym name_updates = "(folder_id, (rel_path \<times> os_bytes option) list) bmap"

text \<open>What a host write changes of what the task keeps, and the names on disk it tells the executor of.\<close>

fun note_host :: "host_write \<Rightarrow> core \<Rightarrow> core" where
  "note_host (PutShim fid s) c = on_watch fid (\<lambda>w. w\<lparr>wa_shimmed := bs_insert (sh_path s) (wa_shimmed w)\<rparr>) c"
| "note_host (RemoveShim fid p) c = on_watch fid (\<lambda>w. w\<lparr>wa_shimmed := bm_remove p (wa_shimmed w)\<rparr>) c"
| "note_host (PutMachine m) c = c\<lparr>co_bindings := bm_insert (mc_node m) (mc_stable_id m) (co_bindings c)\<rparr>"
| "note_host (RemoveMachine n) c = c\<lparr>co_bindings := bm_remove n (co_bindings c)\<rparr>"
| "note_host _ c = c"

fun name_update :: "host_write \<Rightarrow> name_updates \<Rightarrow> name_updates" where
  "name_update (PutDiskName fid d) names = bm_push fid (dn_path d, Some (dn_name d)) names"
| "name_update (RemoveDiskName fid p) names = bm_push fid (p, None) names"
| "name_update _ names = names"

fun record_update :: "action \<Rightarrow> record_updates \<Rightarrow> record_updates" where
  "record_update (AcIndexChanged fid r) recs =
     bm_push fid (e_path (ir_entry r), if e_deleted (ir_entry r) then None else Some (ir_entry r)) recs"
| "record_update (AcIndexRemoved fid p) recs = bm_push fid (p, None) recs"
| "record_update _ recs = recs"

text \<open>\<open>effect\<close>: where an effect goes. \<open>Remove\<close> and \<open>SetMeta\<close> report under the want's version.\<close>

definition want_version :: "engine \<Rightarrow> folder_id \<Rightarrow> rel_path \<Rightarrow> version" where
  "want_version e fid p =
     (case Option.bind (en_folder e fid) (\<lambda>f. wl_get (fo_wants f) p) of
        Some want \<Rightarrow> w_version want | None \<Rightarrow> version_empty)"

fun effect_job :: "engine \<Rightarrow> action \<Rightarrow> job option" where
  "effect_job e (AcSend n payload) = Some (JbOutbound (AcSend n payload))"
| "effect_job e (AcFetch fid p v h sz n) = Some (JbOutbound (AcFetch fid p v h sz n))"
| "effect_job e (AcWrite fid p en ex d) = Some (JbCommit fid (AcWrite fid p en ex d) (e_version en))"
| "effect_job e (AcMoveToTrash fid p v ex) = Some (JbCommit fid (AcMoveToTrash fid p v ex) v)"
| "effect_job e (AcRemove fid p ex d) = Some (JbCommit fid (AcRemove fid p ex d) (want_version e fid p))"
| "effect_job e (AcSetMeta fid p ex mtime exec) =
     Some (JbCommit fid (AcSetMeta fid p ex mtime exec) (want_version e fid p))"
| "effect_job e (AcObserve fid p) = Some (JbObserve fid p)"
| "effect_job e _ = None"

definition earlier :: "timestamp \<Rightarrow> timestamp option \<Rightarrow> timestamp option" where
  "earlier at wake = Some (case wake of Some w \<Rightarrow> min w at | None \<Rightarrow> at)"

fun note_wake :: "action \<Rightarrow> core \<Rightarrow> core" where
  "note_wake (AcWakeAt at) c = c\<lparr>co_wake := earlier at (co_wake c)\<rparr>"
| "note_wake _ c = c"

text \<open>The loop over the actions: each write joins the group, each effect the jobs.\<close>

definition emit_action :: "core \<times> group \<times> record_updates \<times> job list \<Rightarrow> action \<Rightarrow> core \<times> group \<times> record_updates \<times> job list" where
  "emit_action st a =
     (let (c, g, recs, effects) = st; recs = record_update a recs in
      case group_push a g of
        (None, g) \<Rightarrow> (c, g, recs, effects)
      | (Some effect, g) \<Rightarrow>
          (note_wake effect c, g, recs,
           effects @ (case effect_job (co_engine c) effect of Some j \<Rightarrow> [j] | None \<Rightarrow> [])))"

definition put_names :: "name_updates \<Rightarrow> core \<Rightarrow> core" where
  "put_names names c =
     foldl (\<lambda>c (fid, updates). on_watch fid (\<lambda>w. w\<lparr>wa_names := foldl (\<lambda>m (p, n). set_row m p n) (wa_names w) updates\<rparr>) c)
       c (bm_entries names)"

text \<open>\<open>dropped_pairs\<close>: the pairs of the paths an event leaves without a live record.\<close>

definition drop_pair :: "folder_id \<Rightarrow> host_write list \<times> watch \<Rightarrow> rel_path \<times> entry option \<Rightarrow> host_write list \<times> watch" where
  "drop_pair fid st update =
     (let (out, w) = st; (p, e) = update in
      if e = None \<and> bm_has (wa_shimmed w) p then
        let w = w\<lparr>wa_shimmed := bm_remove p (wa_shimmed w)\<rparr>;
            w = (if wa_scanning w then w\<lparr>wa_reshimmed := bs_insert p (wa_reshimmed w)\<rparr> else w)
        in (out @ [RemoveShim fid p], w)
      else (out, w))"

definition dropped_in :: "host_write list \<times> core \<Rightarrow> folder_id \<times> (rel_path \<times> entry option) list \<Rightarrow> host_write list \<times> core" where
  "dropped_in st row =
     (let (out, c) = st; (fid, updates) = row in
      case bm_get (co_folders c) fid of
        None \<Rightarrow> (out, c)
      | Some w \<Rightarrow>
          (let (more, w) = foldl (drop_pair fid) ([], w) updates
           in (out @ more, c\<lparr>co_folders := bm_insert fid w (co_folders c)\<rparr>)))"

definition dropped_pairs :: "record_updates \<Rightarrow> core \<Rightarrow> host_write list \<times> core" where
  "dropped_pairs recs c = foldl dropped_in ([], c) (bm_entries recs)"

definition watch_space :: "instant \<Rightarrow> core \<Rightarrow> core" where
  "watch_space t c =
     c\<lparr>co_folders := bm_map (\<lambda>fid w.
        if \<not> (case en_folder (co_engine c) fid of Some f \<Rightarrow> fo_disk_full f | None \<Rightarrow> False) then w\<lparr>wa_space_at := None\<rparr>
        else if wa_space_at w = None then w\<lparr>wa_space_at := Some (t + co_space_check c)\<rparr>
        else w) (co_folders c)\<rparr>"

definition core_emit :: "instant \<Rightarrow> timestamp \<Rightarrow> action list \<Rightarrow> host_write list \<Rightarrow> core \<Rightarrow> handoff list \<times> core" where
  "core_emit t now actions writes c =
     (let g = foldl (\<lambda>g w. group_host w g) (group_new now) writes;
          names = foldl (\<lambda>m w. name_update w m) bm_empty writes;
          c = foldl (\<lambda>c w. note_host w c) c writes;
          (c, g, recs, effects) = foldl emit_action (c, g, bm_empty, []) actions;
          c = put_names names c;
          (drops, c) = dropped_pairs recs c;
          g = foldl (\<lambda>g w. group_host w g) g drops;
          c = watch_space t c
      in if group_is_empty g \<and> effects = [] then ([], c)
         else ([HoRelease g (map (\<lambda>(fid, us). JbRecords fid us) (bm_entries recs) @
                  map (\<lambda>(fid, us). JbNames fid us) (bm_entries names) @ effects) (co_engine c)], c))"

section \<open>Reports\<close>

text \<open>What a commit's writes change while a scan runs.\<close>

fun note_touched :: "watch \<Rightarrow> host_write \<Rightarrow> watch" where
  "note_touched w (PutDiskName fid d) = w\<lparr>wa_touched := bs_insert (dn_path d) (wa_touched w)\<rparr>"
| "note_touched w (RemoveDiskName fid p) = w\<lparr>wa_touched := bs_insert p (wa_touched w)\<rparr>"
| "note_touched w (PutShim fid s) = w\<lparr>wa_reshimmed := bs_insert (sh_path s) (wa_reshimmed w)\<rparr>"
| "note_touched w (RemoveShim fid p) = w\<lparr>wa_reshimmed := bs_insert p (wa_reshimmed w)\<rparr>"
| "note_touched w _ = w"

fun scan_event_folder :: "event \<Rightarrow> folder_id option" where
  "scan_event_folder (EvScanned fid p st at) = Some fid"
| "scan_event_folder (EvScanFinished fid) = Some fid"
| "scan_event_folder _ = None"

definition is_index_changed :: "action \<Rightarrow> bool" where
  "is_index_changed a = (case a of AcIndexChanged fid r \<Rightarrow> True | _ \<Rightarrow> False)"

text \<open>The event a report comes to, and what the task notes of it before and after the engine has it.\<close>

definition report_event :: "report \<Rightarrow> core \<Rightarrow> event" where
  "report_event r c =
     (let ev = relative (co_engine c) (rp_event r) (rp_compared r)
      in if rp_source r = SrcScan then reshimmed (co_folders c) ev else ev)"

definition note_report :: "report \<Rightarrow> event \<Rightarrow> core \<Rightarrow> core" where
  "note_report r ev c =
     (let c = (case report_folder ev of
            Some fid \<Rightarrow> if rp_source r = SrcScan then c
              else on_watch fid (\<lambda>w. if wa_scanning w then foldl note_touched w (rp_writes r) else w) c
          | None \<Rightarrow> c)
      in case ev of
           EvScanned fid p (Skipped _) at \<Rightarrow>
             if rp_source r = SrcScan then on_watch fid (\<lambda>w. w\<lparr>wa_skipped := wa_skipped w @ [p]\<rparr>) c else c
         | _ \<Rightarrow> c)"

definition note_changes :: "report \<Rightarrow> event \<Rightarrow> action list \<Rightarrow> core \<Rightarrow> core" where
  "note_changes r ev actions c =
     (case scan_event_folder ev of
        Some fid \<Rightarrow> if rp_source r = SrcScan
          then on_watch fid (\<lambda>w. w\<lparr>wa_changes := wa_changes w + length (filter is_index_changed actions)\<rparr>) c
          else c
      | None \<Rightarrow> c)"

definition core_report :: "instant \<Rightarrow> report \<Rightarrow> core \<Rightarrow> handoff list \<times> core" where
  "core_report t r c =
     (let ev = report_event r c;
          c = note_report r ev c;
          now = clock_now (co_clock c) t;
          (actions, e) = handle now ev (co_engine c);
          c = note_changes r ev actions (c\<lparr>co_engine := e\<rparr>);
          c = (case unstable ev of
                 Some (fid, p) \<Rightarrow> c\<lparr>co_reobserve := reobserve_at fid p (t + SETTLE) (co_reobserve c)\<rparr>
               | None \<Rightarrow> c)
      in core_emit t now actions (rp_writes r) c)"

text \<open>Steps that follow one another, each handing off in its turn.\<close>

fun in_turn :: "('x \<Rightarrow> core \<Rightarrow> handoff list \<times> core) \<Rightarrow> 'x list \<Rightarrow> core \<Rightarrow> handoff list \<times> core" where
  "in_turn f [] c = ([], c)"
| "in_turn f (x # xs) c = (let (out, c) = f x c; (rest, c) = in_turn f xs c in (out @ rest, c))"

definition host_report :: "event \<Rightarrow> report" where
  "host_report ev = \<lparr>rp_event = ev, rp_writes = [], rp_compared = None, rp_source = SrcHost\<rparr>"

definition core_tiers :: "instant \<Rightarrow> tiers \<Rightarrow> core \<Rightarrow> handoff list \<times> core" where
  "core_tiers t ts c =
     in_turn (\<lambda>(peer, tier). core_report t (host_report (EvPeerTierChanged peer tier)))
       (tiers_changes ts (bm_entries (en_peers (co_engine c))) (co_bindings c)) c"

section \<open>Scans, timers and the watcher\<close>

definition start_scan :: "folder_id \<Rightarrow> core \<Rightarrow> handoff list \<times> core" where
  "start_scan fid c =
     (case bm_get (co_folders c) fid of
        None \<Rightarrow> ([], c)
      | Some w \<Rightarrow> ([HoDirect (JbScan fid)], c\<lparr>co_folders := bm_insert fid
          (w\<lparr>wa_scanning := True, wa_next_scan := None, wa_skipped := [], wa_touched := bm_empty,
             wa_reshimmed := bm_empty, wa_changes := 0\<rparr>) (co_folders c)\<rparr>))"

definition core_rescan :: "folder_id \<Rightarrow> core \<Rightarrow> handoff list \<times> core" where
  "core_rescan fid c =
     (case bm_get (co_folders c) fid of
        None \<Rightarrow> ([], c)
      | Some w \<Rightarrow> if wa_scanning w then ([], on_watch fid (\<lambda>w. w\<lparr>wa_rescan_after := True\<rparr>) c) else start_scan fid c)"

definition core_guard :: "folder_id \<Rightarrow> bool \<Rightarrow> core \<Rightarrow> core" where
  "core_guard fid root_gone =
     on_watch fid (\<lambda>w. w\<lparr>wa_unwatched := wa_unwatched w \<or> root_gone, wa_guarded := True\<rparr>)"

text \<open>\<open>names_written\<close>: the writes that make the stored names those a finished scan found.\<close>

definition at_or_beneath :: "rel_path list \<Rightarrow> rel_path \<Rightarrow> bool" where
  "at_or_beneath tops p \<longleftrightarrow> list_ex (\<lambda>q. q = p \<or> is_ancestor_of q p) tops"

definition names_written :: "folder_id \<Rightarrow> watch \<Rightarrow> scan_report \<Rightarrow> host_write list" where
  "names_written fid w report =
     (let touched = at_or_beneath (bm_keys (wa_touched w));
          found = bm_of_list (filter (\<lambda>(p, n). \<not> touched p) (map (\<lambda>d. (dn_path d, dn_name d)) (sp_disk_names report)))
      in map (\<lambda>(p, n). PutDiskName fid \<lparr>dn_path = p, dn_name = n\<rparr>)
           (filter (\<lambda>(p, n). bm_get (wa_names w) p \<noteq> Some n) (bm_entries found)) @
         map (RemoveDiskName fid)
           (filter (\<lambda>p. \<not> bm_has found p \<and> \<not> at_or_beneath (wa_skipped w) p \<and> \<not> touched p) (bm_keys (wa_names w))))"

definition take_names :: "instant \<Rightarrow> folder_id \<Rightarrow> scan_report \<Rightarrow> core \<Rightarrow> handoff list \<times> core" where
  "take_names t fid report c =
     (let writes = (case bm_get (co_folders c) fid of Some w \<Rightarrow> names_written fid w report | None \<Rightarrow> [])
      in if writes = [] then ([], c) else core_emit t (clock_now (co_clock c) t) [] writes c)"

text \<open>Steps one after the other.\<close>

abbreviation all_steps :: "(core \<Rightarrow> handoff list \<times> core) list \<Rightarrow> core \<Rightarrow> handoff list \<times> core" where
  "all_steps \<equiv> in_turn (\<lambda>f. f)"

text \<open>\<open>scan_done\<close>; \<open>watched\<close> is whether the watcher could watch the root again, if it has to.\<close>

definition put_watch :: "folder_id \<Rightarrow> watch \<Rightarrow> core \<Rightarrow> core" where
  "put_watch fid w c = c\<lparr>co_folders := bm_insert fid w (co_folders c)\<rparr>"

definition scan_taken :: "instant \<Rightarrow> bool \<Rightarrow> folder_id \<Rightarrow> scan_report \<Rightarrow> bool \<Rightarrow> watch \<Rightarrow> core \<Rightarrow> handoff list \<times> core" where
  "scan_taken t watched fid report watcher w =
     (let again = wa_unwatched w \<and> watcher;
          w = (if again \<and> watched then w\<lparr>wa_unwatched := False, wa_rescan_after := True\<rparr> else w)
      in all_steps
           [\<lambda>c. (if again then [HoWatch fid (wa_root w)] else [], put_watch fid (w\<lparr>wa_rescan_after := False\<rparr>) c),
            if wa_rescan_after w then start_scan fid else Pair [],
            take_names t fid report])"

definition scan_done :: "instant \<Rightarrow> bool \<Rightarrow> folder_id \<Rightarrow> scan_report option \<Rightarrow> core \<Rightarrow> handoff list \<times> core" where
  "scan_done t watched fid report c =
     (case bm_get (co_folders c) fid of
        None \<Rightarrow> ([], c)
      | Some w \<Rightarrow>
         (let w = w\<lparr>wa_scanning := False, wa_next_scan := Some (t + co_rescan c)\<rparr>
          in case report of
               None \<Rightarrow> ([], put_watch fid w c)
             | Some report \<Rightarrow>
                if sp_aborted report then ([], put_watch fid w c)
                else scan_taken t watched fid report (co_watcher c) (w\<lparr>wa_guarded := False\<rparr>) c))"

definition core_deadline :: "core \<Rightarrow> instant option" where
  "core_deadline c =
     (let due = List.map_filter (\<lambda>x. x)
        ([map_option (clock_instant (co_clock c)) (co_wake c), reobserve_next (co_reobserve c)] @
           concat (map (\<lambda>w. [wa_next_scan w, wa_space_at w]) (bm_values (co_folders c))))
      in if due = [] then None else Some (Min (set due)))"

definition due_by :: "instant \<Rightarrow> instant option \<Rightarrow> bool" where
  "due_by t at \<longleftrightarrow> (case at of Some at \<Rightarrow> at \<le> t | None \<Rightarrow> False)"

definition space_job :: "instant \<Rightarrow> folder_id \<Rightarrow> core \<Rightarrow> handoff list \<times> core" where
  "space_job t fid c =
     ([HoDirect (JbSpace fid)], on_watch fid (\<lambda>w. w\<lparr>wa_space_at := Some (t + co_space_check c)\<rparr>) c)"

text \<open>\<open>due\<close>, with the batch id drawn if the engine is woken: the engine's tick, the scans, the second looks,
  the checks of free space.\<close>

definition core_tick :: "instant \<Rightarrow> batch_id \<Rightarrow> core \<Rightarrow> handoff list \<times> core" where
  "core_tick t fresh c =
     (if due_by t (map_option (clock_instant (co_clock c)) (co_wake c)) then
        let now = clock_now (co_clock c) t;
            (actions, e) = handle now (EvTick fresh) (co_engine c)
        in core_emit t now actions [] (c\<lparr>co_wake := None, co_engine := e\<rparr>)
      else ([], c))"

definition scans_due :: "instant \<Rightarrow> core \<Rightarrow> handoff list \<times> core" where
  "scans_due t c =
     in_turn start_scan
       (map fst (filter (\<lambda>(fid, w). \<not> wa_scanning w \<and> due_by t (wa_next_scan w)) (bm_entries (co_folders c)))) c"

definition looks_due :: "instant \<Rightarrow> core \<Rightarrow> handoff list \<times> core" where
  "looks_due t c =
     (let (due, rb) = reobserve_take t (co_reobserve c)
      in (map (\<lambda>(fid, p). HoDirect (JbAgain fid p)) due, c\<lparr>co_reobserve := rb\<rparr>))"

definition checks_due :: "instant \<Rightarrow> core \<Rightarrow> handoff list \<times> core" where
  "checks_due t c =
     in_turn (space_job t) (map fst (filter (\<lambda>(fid, w). due_by t (wa_space_at w)) (bm_entries (co_folders c)))) c"

definition core_due :: "instant \<Rightarrow> batch_id \<Rightarrow> core \<Rightarrow> handoff list \<times> core" where
  "core_due t fresh = all_steps [core_tick t fresh, scans_due t, looks_due t, checks_due t]"

definition core_input :: "instant \<Rightarrow> bool \<Rightarrow> input \<Rightarrow> core \<Rightarrow> handoff list \<times> core" where
  "core_input t watched i c =
     (case i of
        InReport r \<Rightarrow> core_report t r c
      | InWrites ws \<Rightarrow> core_emit t (clock_now (co_clock c) t) [] ws c
      | InScanDone fid report \<Rightarrow> scan_done t watched fid report c
      | InTiers ts \<Rightarrow> core_tiers t ts c
      | InWatched fid paths \<Rightarrow>
          (case bm_get (co_folders c) fid of
             Some w \<Rightarrow> if wa_guarded w then ([], c) else ([HoDirect (JbWatched fid paths)], c)
           | None \<Rightarrow> ([], c))
      | InRescan fid \<Rightarrow> core_rescan fid c
      | InGuard fid root_gone \<Rightarrow> ([], core_guard fid root_gone c)
      | InStop \<Rightarrow> ([], c))"

text \<open>How \<open>run\<close> starts: the folders joined afresh, then a full scan of each.\<close>

definition core_begin :: "instant \<Rightarrow> event list \<Rightarrow> core \<Rightarrow> handoff list \<times> core" where
  "core_begin t joins =
     all_steps [in_turn (\<lambda>ev. core_report t (host_report ev)) joins,
       \<lambda>c. in_turn start_scan (bm_keys (co_folders c)) c]"

end
