(* ===== verification/CoreLaws.thy ===== *)
theory CoreLaws
  imports Cores Restarts
begin

text \<open>
  What the engine task hands off: the groups it submits carry every row action of the engine, in order, and
  nothing the engine does is left out of them.
\<close>

section \<open>The actions in a group\<close>

fun unsort :: "engine_write \<Rightarrow> action" where
  "unsort (EwRecord fid r) = AcIndexChanged fid r"
| "unsort (EwRemoveRecord fid p) = AcIndexRemoved fid p"
| "unsort (EwWant fid p w) = AcWantChanged fid p w"
| "unsort (EwPending fid p row) = AcPendingChanged fid p row"
| "unsort (EwHeld fid b s row) = AcHeldChanged fid b s row"
| "unsort (EwDeferred fid p es) = AcDeferredChanged fid p es"
| "unsort (EwRest fid r) = AcRestChanged fid r"
| "unsort (EwHistory b role d) = AcRecordBatch b role d"

definition write_in :: "action \<Rightarrow> group_write list" where
  "write_in a = (case sort_action a of SortedWrite w \<Rightarrow> [GwEngine w] | SortedEffect _ \<Rightarrow> [])"

definition actions_in :: "group_write list \<Rightarrow> action list" where
  "actions_in ws = concat (map (\<lambda>w. case w of GwEngine w \<Rightarrow> [unsort w] | GwHost _ \<Rightarrow> []) ws)"

lemma actions_in_simps [simp]:
  "actions_in [] = []" "actions_in (xs @ ys) = actions_in xs @ actions_in ys"
  "actions_in (GwEngine w # ws) = unsort w # actions_in ws" "actions_in (GwHost h # ws) = actions_in ws"
  "actions_in (map GwHost hs) = []"
  by (simp_all add: actions_in_def comp_def)

lemma row_of_effect: "sort_action a = SortedEffect b \<Longrightarrow> row_of a = None"
  by (cases a) auto

lemma unsort_sort: "sort_action a = SortedWrite w \<Longrightarrow> unsort w = a"
  by (cases a) auto

lemma sort_effect: "sort_action a = SortedEffect b \<Longrightarrow> b = a"
  by (cases a) auto

lemma fed_writes: "fed R (actions_in (concat (map write_in actions))) = fed R actions"
proof (induction actions arbitrary: R)
  case (Cons a actions)
  have "fed R (actions_in (write_in a)) = fed R [a]"
  proof (cases "sort_action a")
    case (SortedEffect b)
    then show ?thesis by (simp add: write_in_def row_of_effect)
  next
    case (SortedWrite w)
    then show ?thesis by (simp add: write_in_def unsort_sort)
  qed
  then have "fed (fed R (actions_in (write_in a))) (actions_in (concat (map write_in actions))) = fed (fed R [a]) actions"
    using Cons.IH by simp
  then show ?case by simp
qed simp

section \<open>What a step hands off\<close>

text \<open>The folders of an engine are in order, and under their own ids.\<close>

definition own_id :: "folder_id \<Rightarrow> folder \<Rightarrow> bool" where
  "own_id fid f \<longleftrightarrow> fo_id f = fid"

lemma fixed_id: "fixed_of g = fixed_of f \<Longrightarrow> fo_id g = fo_id f"
  by (simp add: fixed_of_def)

lemma queue_id [simp]: "fo_request d f = (res, g) \<Longrightarrow> fo_id g = fo_id f" "next_queued f = (nx, g) \<Longrightarrow> fo_id g = fo_id f"
  by (auto simp: fo_request_def next_queued_def split: option.splits prod.splits)

lemma decide_id [simp]: "fo_id (snd (decide fid now d f)) = fo_id f"
  by (rule fixed_id) (rule fixed_decide)

interpretation id_law: folder_invariant own_id "\<lambda>_. True" "\<lambda>_. True"
proof unfold_locales
  show "own_id fid (folder_new fid rs ms own host)" for fid rs ms own host
    by (simp add: own_id_def folder_new_def)
  show "own_id fid (snd (run_next fid now step g))" if "own_id fid f" "next_queued f = (Some step, g)" for fid f step g now
    using that by (cases step) (auto simp: own_id_def run_next_def)
qed (auto simp: own_id_def fixed_id [OF fo_tick_frame] fixed_id [OF report_frame(1)] fixed_id [OF report_frame(2)]
      fixed_id [OF fo_approve_frame] dest: fixed_id)

definition en_sound :: "engine \<Rightarrow> bool" where
  "en_sound e \<longleftrightarrow> (\<forall>fid f. bm_get (en_folders e) fid = Some f \<longrightarrow> fo_ok f \<and> fo_id f = fid)"

lemma en_sound_holds: "en_sound e \<longleftrightarrow> en_ok e \<and> holds own_id (\<lambda>_. True) e"
  by (auto simp: en_sound_def en_ok_def holds_def own_id_def split: option.split)

lemma en_sound_ok: "en_sound e \<Longrightarrow> en_ok e"
  by (simp add: en_sound_holds)

lemma run_sound: "en_sound e \<Longrightarrow> en_sound (snd (run_events evs e))"
  using engine_run_ok id_law.run_held by (auto simp: en_sound_holds)

definition host_only :: "group \<Rightarrow> bool" where
  "host_only g \<longleftrightarrow> (\<forall>w \<in> set (gp_writes g). case w of GwHost _ \<Rightarrow> True | GwEngine _ \<Rightarrow> False)"

lemma host_only_actions: "host_only g \<Longrightarrow> actions_in (gp_writes g) = []"
  by (auto simp: host_only_def actions_in_def split: group_write.splits)

text \<open>The rows of a host and the engine, a sound one: they are in step, but that before the first event they are the rows
  \<open>R0\<close> the engine was restored from, which a restart has changed.\<close>

definition in_line :: "(folder_id \<Rightarrow> host_rows) \<Rightarrow> (folder_id \<Rightarrow> host_rows) \<Rightarrow> engine \<Rightarrow> bool" where
  "in_line R0 R e \<longleftrightarrow> en_sound e \<and> (in_step R e \<or> R = R0 \<and> trails R e)"

lemma in_line_trails: "in_line R0 R e \<Longrightarrow> trails R e"
  using in_step_trails by (auto simp: in_line_def)

text \<open>A host that applies the groups has the rows of the engine that goes with each.\<close>

fun keeps_up :: "(folder_id \<Rightarrow> host_rows) \<Rightarrow> (folder_id \<Rightarrow> host_rows) \<Rightarrow> handoff list \<Rightarrow> engine \<Rightarrow> bool" where
  "keeps_up R0 R [] e \<longleftrightarrow> in_line R0 R e"
| "keeps_up R0 R (HoRelease g jobs at # rest) e \<longleftrightarrow>
     in_line R0 (fed R (actions_in (gp_writes g))) at \<and> keeps_up R0 (fed R (actions_in (gp_writes g))) rest e"
| "keeps_up R0 R (_ # rest) e \<longleftrightarrow> keeps_up R0 R rest e"

definition handed :: "handoff list \<Rightarrow> action list" where
  "handed hos = concat (map (\<lambda>h. case h of HoRelease g jobs at \<Rightarrow> actions_in (gp_writes g) | _ \<Rightarrow> []) hos)"

lemma handed_simps [simp]: "handed [] = []" "handed (xs @ ys) = handed xs @ handed ys"
  "handed (HoRelease g jobs at # hos) = actions_in (gp_writes g) @ handed hos"
  "handed (HoDirect j # hos) = handed hos" "handed (HoWatch fid root # hos) = handed hos"
  by (simp_all add: handed_def)

lemma keeps_up_append:
  assumes "keeps_up R0 R xs e" and "keeps_up R0 (fed R (handed xs)) ys e'"
  shows "keeps_up R0 R (xs @ ys) e'"
  using assms by (induction R0 R xs e rule: keeps_up.induct) auto

lemma keeps_up_end: "keeps_up R0 R xs e \<Longrightarrow> in_line R0 (fed R (handed xs)) e"
  by (induction R0 R xs e rule: keeps_up.induct) auto

lemma group_hosts: "foldl (\<lambda>g w. group_host w g) g ws = g\<lparr>gp_writes := gp_writes g @ map GwHost ws\<rparr>"
  by (induction ws arbitrary: g) (simp_all add: group_host_def)

lemma on_watch_engine [simp]: "co_engine (on_watch fid g c) = co_engine c"
  by (simp add: on_watch_def split: option.split)

lemma note_host_engine [simp]: "co_engine (note_host w c) = co_engine c"
  by (cases w) simp_all

lemma notes_engine [simp]: "co_engine (foldl (\<lambda>c w. note_host w c) c ws) = co_engine c"
  by (rule foldl_frame) simp

lemma note_wake_engine [simp]: "co_engine (note_wake a c) = co_engine c"
  by (cases a) simp_all

lemma put_names_engine [simp]: "co_engine (put_names names c) = co_engine c"
  unfolding put_names_def by (rule foldl_frame) (simp split: prod.split)

lemma dropped_engine [simp]: "co_engine (snd (dropped_pairs recs c)) = co_engine c"
  unfolding dropped_pairs_def
  by (subst foldl_frame [where h = "\<lambda>st. co_engine (snd st)"])
    (auto simp: dropped_in_def Let_def split: prod.split option.split)

lemma watch_space_engine [simp]: "co_engine (watch_space t c) = co_engine c"
  by (simp add: watch_space_def)

lemma emit_actions:
  assumes "foldl emit_action (c, g, recs, effects) actions = (c', g', recs', effects')"
  shows "co_engine c' = co_engine c \<and> gp_writes g' = gp_writes g @ concat (map write_in actions)"
  using assms
proof (induction actions arbitrary: c g recs effects)
  case (Cons a actions)
  obtain c1 g1 recs1 effects1 where one: "emit_action (c, g, recs, effects) a = (c1, g1, recs1, effects1)"
    by (metis prod_cases4)
  have "co_engine c1 = co_engine c \<and> gp_writes g1 = gp_writes g @ write_in a"
    using one by (cases "sort_action a") (auto simp: emit_action_def group_push_def write_in_def Let_def)
  with Cons.IH [of c1 g1 recs1 effects1] Cons.prems one show ?case by simp
qed simp

lemma emit_hands:
  assumes "core_emit t now actions ws c = (out, c')"
  shows "co_engine c' = co_engine c" and "fed R (handed out) = fed R actions"
    and "in_line R0 (fed R actions) (co_engine c) \<Longrightarrow> keeps_up R0 R out (co_engine c)"
proof -
  define g0 where "g0 = foldl (\<lambda>g w. group_host w g) (group_new now) ws"
  define c0 where "c0 = foldl (\<lambda>c w. note_host w c) c ws"
  obtain c1 g1 recs effects where acts: "foldl emit_action (c0, g0, bm_empty, []) actions = (c1, g1, recs, effects)"
    by (metis prod_cases4)
  define names where "names = foldl (\<lambda>m w. name_update w m) bm_empty ws"
  obtain drops c2 where drops: "dropped_pairs recs (put_names names c1) = (drops, c2)" by fastforce
  define g2 where "g2 = foldl (\<lambda>g w. group_host w g) g1 drops"
  have g2: "gp_writes g2 = map GwHost ws @ concat (map write_in actions) @ map GwHost drops"
    using emit_actions [OF acts] by (simp add: g2_def group_hosts g0_def group_new_def)
  have c2: "co_engine c2 = co_engine c"
    using dropped_engine [of recs "put_names names c1"] emit_actions [OF acts] by (simp add: drops c0_def)
  have out: "out = (if group_is_empty g2 \<and> effects = [] then []
      else [HoRelease g2 (map (\<lambda>(fid, us). JbRecords fid us) (bm_entries recs) @
                  map (\<lambda>(fid, us). JbNames fid us) (bm_entries names) @ effects) (co_engine c)])"
    and c': "c' = watch_space t c2"
    using assms acts drops c2
    by (auto simp: core_emit_def Let_def g0_def [symmetric] c0_def [symmetric] names_def [symmetric] g2_def [symmetric]
        split: if_splits)
  show "co_engine c' = co_engine c" by (simp add: c' c2)
  have fed_g: "fed R (actions_in (gp_writes g2)) = fed R actions"
    using fed_writes [of R actions] by (simp add: g2)
  have "group_is_empty g2 \<Longrightarrow> fed R actions = R"
    using fed_g by (simp add: group_is_empty_def)
  with fed_g show "fed R (handed out) = fed R actions" by (auto simp: out)
  show "keeps_up R0 R out (co_engine c)" if "in_line R0 (fed R actions) (co_engine c)"
    using that fed_g \<open>group_is_empty g2 \<Longrightarrow> fed R actions = R\<close> by (auto simp: out)
qed

text \<open>A step of the task: it leaves an engine in step with the rows it hands off.\<close>

definition step_ok :: "(core \<Rightarrow> handoff list \<times> core) \<Rightarrow> bool" where
  "step_ok f \<longleftrightarrow> (\<forall>R0 R c out c'. f c = (out, c') \<longrightarrow> in_line R0 R (co_engine c) \<longrightarrow>
     keeps_up R0 R out (co_engine c'))"

lemma step_okD: "step_ok f \<Longrightarrow> f c = (out, c') \<Longrightarrow> in_line R0 R (co_engine c) \<Longrightarrow>
    keeps_up R0 R out (co_engine c')"
  unfolding step_ok_def by blast

lemma step_ok_quiet: "(\<And>c. handed (fst (f c)) = [] \<and> co_engine (snd (f c)) = co_engine c \<and>
    (\<forall>R0 R. in_line R0 R (co_engine c) \<longrightarrow> keeps_up R0 R (fst (f c)) (co_engine c))) \<Longrightarrow> step_ok f"
  unfolding step_ok_def by (metis fst_conv snd_conv)

lemma in_turn_ok:
  assumes "\<And>x. x \<in> set xs \<Longrightarrow> step_ok (f x)"
  shows "step_ok (in_turn f xs)"
  using assms
proof (induction xs)
  case Nil
  show ?case by (rule step_ok_quiet) simp
next
  case (Cons x xs)
  show ?case unfolding step_ok_def
  proof (intro allI impI)
    fix R0 R c out c'
    assume step: "in_turn f (x # xs) c = (out, c')" and ok: "in_line R0 R (co_engine c)"
    obtain out1 c1 where one: "f x c = (out1, c1)" by fastforce
    obtain out2 c2 where two: "in_turn f xs c1 = (out2, c2)" by fastforce
    have "step_ok (f x)" by (simp add: Cons.prems)
    from step_okD [OF this one ok] have k1: "keeps_up R0 R out1 (co_engine c1)" .
    have "step_ok (in_turn f xs)" by (rule Cons.IH) (simp add: Cons.prems)
    from step_okD [OF this two keeps_up_end [OF k1]] keeps_up_append [OF k1]
    show "keeps_up R0 R out (co_engine c')" using step one two by auto
  qed
qed

lemma handle_emit:
  assumes "handle now ev (co_engine c) = (actions, e)" and "core_emit t now actions ws c1 = (out, c')"
    and "co_engine c1 = e" and "in_line R0 R (co_engine c)"
  shows "keeps_up R0 R out (co_engine c')"
proof -
  have sound: "en_sound (co_engine c)" using assms(4) by (simp add: in_line_def)
  have "in_step (fed R actions) e"
    using handle_from_trails [OF in_line_trails [OF assms(4)] en_sound_ok [OF sound], where now = now and ev = ev]
      assms(1) by simp
  moreover have "en_sound e" using run_sound [OF sound, of "[(now, ev)]"] assms(1) by simp
  ultimately show ?thesis using emit_hands [OF assms(2)] assms(3) by (simp add: in_line_def)
qed

lemma note_report_engine [simp]: "co_engine (note_report r ev c) = co_engine c"
  by (simp add: note_report_def Let_def split: option.split event.split scan_state.split)

lemma note_changes_engine [simp]: "co_engine (note_changes r ev actions c) = co_engine c"
  by (simp add: note_changes_def split: option.split)

lemma report_ok: "step_ok (core_report t r)"
  unfolding step_ok_def
proof (intro allI impI)
  fix R0 R c out c'
  assume step: "core_report t r c = (out, c')" and ok: "in_line R0 R (co_engine c)"
  define c1 where "c1 = note_report r (report_event r c) c"
  obtain actions e where h: "handle (clock_now (co_clock c1) t) (report_event r c) (co_engine c1) = (actions, e)"
    by fastforce
  define c2 where "c2 = (case unstable (report_event r c) of
      Some (fid, p) \<Rightarrow> (note_changes r (report_event r c) actions (c1\<lparr>co_engine := e\<rparr>))\<lparr>co_reobserve :=
        reobserve_at fid p (t + SETTLE) (co_reobserve (note_changes r (report_event r c) actions (c1\<lparr>co_engine := e\<rparr>)))\<rparr>
    | None \<Rightarrow> note_changes r (report_event r c) actions (c1\<lparr>co_engine := e\<rparr>))"
  have "co_engine c2 = e" by (simp add: c2_def split: option.split prod.split)
  moreover have "co_engine c1 = co_engine c" by (simp add: c1_def)
  moreover have "core_emit t (clock_now (co_clock c1) t) actions (rp_writes r) c2 = (out, c')"
    using step h unfolding core_report_def c1_def c2_def Let_def by simp
  ultimately show "keeps_up R0 R out (co_engine c')"
    using handle_emit [OF h] ok by simp
qed

lemma emit_nothing:
  assumes "core_emit t now [] ws c = (out, c')" and "in_line R0 R (co_engine c)"
  shows "keeps_up R0 R out (co_engine c')"
  using emit_hands(1) [OF assms(1)] emit_hands(3) [OF assms(1), of R0 R] assms(2) by simp

lemma start_scan_ok: "step_ok (start_scan fid)"
  by (rule step_ok_quiet) (simp add: start_scan_def split: option.split)

lemma space_job_ok: "step_ok (space_job t fid)"
  by (rule step_ok_quiet) (simp add: space_job_def)

lemma take_names_ok: "step_ok (take_names t fid report)"
  unfolding step_ok_def take_names_def using emit_nothing by (auto simp: Let_def split: if_splits)

text \<open>A step that depends on where the task stands is one if each choice is.\<close>

lemma step_ok_at: "(\<And>c. step_ok (f c)) \<Longrightarrow> step_ok (\<lambda>c. f c c)"
  unfolding step_ok_def by blast

lemma scan_taken_ok: "step_ok (scan_taken t watched fid report watcher w)"
proof -
  have put: "step_ok (\<lambda>c. (if b then [HoWatch fid root] else [], put_watch fid w c))" for w b root
    by (rule step_ok_quiet) (simp add: put_watch_def)
  have quiet: "step_ok (Pair [])" by (rule step_ok_quiet) simp
  show ?thesis
    unfolding scan_taken_def
    by (auto simp: Let_def put [where b = True, simplified] put [where b = False, simplified] quiet start_scan_ok
        take_names_ok intro!: in_turn_ok)
qed

lemma scan_done_ok: "step_ok (scan_done t watched fid report)"
  unfolding step_ok_def
proof (intro allI impI)
  fix R0 R c out c'
  assume step: "scan_done t watched fid report c = (out, c')" and ok: "in_line R0 R (co_engine c)"
  show "keeps_up R0 R out (co_engine c')"
  proof (cases "bm_get (co_folders c) fid = None \<or> is_none_or sp_aborted report")
    case True
    then show ?thesis
      using step ok by (auto simp: scan_done_def Let_def put_watch_def split: option.splits)
  next
    case False
    then obtain w r where "bm_get (co_folders c) fid = Some w" "report = Some r" "\<not> sp_aborted r"
      by (cases report) auto
    with step have "scan_taken t watched fid r (co_watcher c)
        (w\<lparr>wa_scanning := False, wa_next_scan := Some (t + co_rescan c), wa_guarded := False\<rparr>) c = (out, c')"
      by (simp add: scan_done_def Let_def)
    from step_okD [OF scan_taken_ok this ok] show ?thesis .
  qed
qed

lemma tick_ok: "step_ok (core_tick t fresh)"
  unfolding step_ok_def
proof (intro allI impI)
  fix R0 R c out c'
  assume step: "core_tick t fresh c = (out, c')" and ok: "in_line R0 R (co_engine c)"
  obtain actions e where h: "handle (clock_now (co_clock c) t) (EvTick fresh) (co_engine c) = (actions, e)" by fastforce
  show "keeps_up R0 R out (co_engine c')"
  proof (cases "due_by t (map_option (clock_instant (co_clock c)) (co_wake c))")
    case True
    then have "core_emit t (clock_now (co_clock c) t) actions [] (c\<lparr>co_wake := None, co_engine := e\<rparr>) = (out, c')"
      using step h by (simp add: core_tick_def)
    from handle_emit [OF h this _ ok] show ?thesis by simp
  qed (use step ok in \<open>simp add: core_tick_def\<close>)
qed

lemma looks_ok: "step_ok (looks_due t)"
proof (rule step_ok_quiet)
  fix c
  have "keeps_up R0 R (map (\<lambda>(fid, p). HoDirect (JbAgain fid p)) xs) e \<longleftrightarrow> in_line R0 R e"
    "handed (map (\<lambda>(fid, p). HoDirect (JbAgain fid p)) xs) = []" for R0 R xs e
    by (induction xs) auto
  then show "handed (fst (looks_due t c)) = [] \<and> co_engine (snd (looks_due t c)) = co_engine c \<and>
      (\<forall>R0 R. in_line R0 R (co_engine c) \<longrightarrow> keeps_up R0 R (fst (looks_due t c)) (co_engine c))"
    by (simp add: looks_due_def split: prod.split)
qed

lemma due_ok: "step_ok (core_due t fresh)"
proof -
  have "step_ok (scans_due t)" "step_ok (checks_due t)"
    unfolding scans_due_def checks_due_def by (rule step_ok_at, rule in_turn_ok, rule start_scan_ok space_job_ok)+
  then show ?thesis unfolding core_due_def by (auto intro!: in_turn_ok simp: tick_ok looks_ok)
qed

lemma tiers_ok: "step_ok (core_tiers t ts)"
  unfolding core_tiers_def
  by (rule step_ok_at, rule in_turn_ok) (simp add: report_ok split: prod.split)

lemma begin_ok: "step_ok (core_begin t joins)"
proof -
  have "step_ok (\<lambda>c. in_turn start_scan (bm_keys (co_folders c)) c)"
    by (rule step_ok_at, rule in_turn_ok, rule start_scan_ok)
  then show ?thesis unfolding core_begin_def by (auto intro!: in_turn_ok simp: report_ok)
qed

lemma input_ok: "step_ok (core_input t watched i)"
proof (cases i)
  case (InReport r)
  then show ?thesis using report_ok by (simp add: core_input_def step_ok_def)
next
  case (InWrites ws)
  then show ?thesis using emit_nothing by (simp add: core_input_def step_ok_def)
next
  case (InScanDone fid report)
  then show ?thesis using scan_done_ok by (simp add: core_input_def step_ok_def)
next
  case (InTiers ts)
  then show ?thesis using tiers_ok by (simp add: core_input_def step_ok_def)
next
  case (InWatched fid paths)
  show ?thesis by (rule step_ok_quiet) (simp add: InWatched core_input_def split: option.split)
next
  case (InRescan fid)
  then have "core_input t watched i = core_rescan fid" by (simp add: core_input_def fun_eq_iff)
  moreover have "step_ok (core_rescan fid)"
    by (rule step_ok_quiet) (simp add: core_rescan_def start_scan_def split: option.split)
  ultimately show ?thesis by simp
next
  case (InGuard fid root_gone)
  show ?thesis by (rule step_ok_quiet) (simp add: InGuard core_input_def core_guard_def)
next
  case InStop
  show ?thesis by (rule step_ok_quiet) (simp add: InStop core_input_def)
qed

end
