(* ===== verification/CoreViews.thy ===== *)
theory CoreViews
  imports CoreLaws
begin

text \<open>
  What the engine task makes of scans and second looks (\<open>crates/delocal/src/daemon/core.rs\<close>): the names a finished
  scan leaves in the store, and the queue of paths to look at again.
\<close>

section \<open>Second looks\<close>

definition rb_ok :: "reobserve \<Rightarrow> bool" where
  "rb_ok rb \<longleftrightarrow> (\<forall>at fid p. bm_has (rb_order rb) (at, fid, p) \<longleftrightarrow> bm_get (rb_due rb) (fid, p) = Some at)"

lemma rb_new: "rb_ok reobserve_new"
  by (simp add: rb_ok_def reobserve_new_def)

lemma rb_at: "rb_ok rb \<Longrightarrow> rb_ok (reobserve_at fid p at rb)"
  by (auto simp: rb_ok_def reobserve_at_def Let_def split: option.split)

lemma take_due_spec:
  assumes "take_due now ks rb = (due, rb')" and "sorted_wrt (<) ks" and "rb_ok rb"
    and "set ks = {k. bm_has (rb_order rb) k}"
  shows "rb_ok rb' \<and> distinct due \<and> set due = {(fid, p). \<exists>at \<le> now. bm_get (rb_due rb) (fid, p) = Some at} \<and>
    (\<forall>k. bm_get (rb_due rb') k = (case bm_get (rb_due rb) k of Some at \<Rightarrow> if at \<le> now then None else Some at | None \<Rightarrow> None))"
  using assms
proof (induction now ks rb arbitrary: due rule: take_due.induct)
  case (1 now rb)
  then have none: "bm_get (rb_due rb) (fid, p) = None" for fid p
    using 1 by (cases "bm_get (rb_due rb) (fid, p)") (auto simp: rb_ok_def)
  have "bm_get (rb_due rb) k = None" for k using none [of "fst k" "snd k"] by simp
  with 1 show ?case by simp
next
  case (2 now at fid p waiting rb)
  have least: "at \<le> at'" if "bm_get (rb_due rb) (f, q) = Some at'" for at' f q
  proof -
    have "(at', f, q) \<in> set ((at, fid, p) # waiting)" using that 2(5) 2(4) by (auto simp: rb_ok_def)
    then show ?thesis using 2(3) by (force simp: less_prod_def)
  qed
  have here: "bm_get (rb_due rb) (fid, p) = Some at"
    using 2(4,5) unfolding rb_ok_def by (metis list.set_intros(1) mem_Collect_eq)
  show ?case
  proof (cases "now < at")
    case True
    then have late: "\<not> at' \<le> now" if "bm_get (rb_due rb) k = Some at'" for k at'
      using least [of "fst k" "snd k" at'] that by simp
    with True 2(2,4) show ?thesis by (auto split: option.split)
  next
    case False
    define rb1 where "rb1 = rb\<lparr>rb_order := bm_remove (at, fid, p) (rb_order rb), rb_due := bm_remove (fid, p) (rb_due rb)\<rparr>"
    obtain due1 where due1: "take_due now waiting rb1 = (due1, rb')" "due = (fid, p) # due1"
      using 2(2) False by (auto simp: rb1_def Let_def split: prod.splits)
    have ok1: "rb_ok rb1" using 2(4) here by (auto simp: rb_ok_def rb1_def)
    have "(at, fid, p) \<notin> set waiting" using 2(3) by auto
    moreover have "set ((at, fid, p) # waiting) = {k. bm_has (rb_order rb) k}" by (rule 2(5))
    ultimately have "set waiting = {k. bm_has (rb_order rb) k} - {(at, fid, p)}" by (metis Diff_insert_absorb list.simps(15))
    then have "set waiting = {k. bm_has (rb_order rb1) k}" by (auto simp: rb1_def)
    from 2(1) [OF False due1(1) [unfolded rb1_def] _ ok1 [unfolded rb1_def] this [unfolded rb1_def]] 2(3)
    have IH: "rb_ok rb'" "distinct due1" "set due1 = {(fid, p). \<exists>at \<le> now. bm_get (rb_due rb1) (fid, p) = Some at}"
      "\<forall>k. bm_get (rb_due rb') k = (case bm_get (rb_due rb1) k of Some at \<Rightarrow> if at \<le> now then None else Some at | None \<Rightarrow> None)"
      by (simp_all add: rb1_def)
    then show ?thesis using here False by (auto simp: due1(2) rb1_def)
  qed
qed


section \<open>Names on disk after a scan\<close>

lemma emit_host_writes:
  assumes "ws \<noteq> []"
  shows "\<exists>g jobs at out. fst (core_emit t now [] ws c) = HoRelease g jobs at # out \<and> out = [] \<and>
    gp_writes g = map GwHost ws"
proof -
  have "foldl (\<lambda>g w. group_host w g) (group_new now) ws = \<lparr>gp_at = now, gp_writes = map GwHost ws\<rparr>"
    by (simp add: group_hosts group_new_def)
  moreover have "dropped_pairs bm_empty d = ([], d)" for d by (simp add: dropped_pairs_def)
  ultimately show ?thesis using assms by (simp add: core_emit_def Let_def group_is_empty_def)
qed

text \<open>The writes a step hands off in its groups.\<close>

definition writes_of :: "handoff list \<Rightarrow> group_write list" where
  "writes_of hos = concat (map (\<lambda>h. case h of HoRelease g jobs at \<Rightarrow> gp_writes g | _ \<Rightarrow> []) hos)"

lemma writes_of_simps [simp]: "writes_of [] = []" "writes_of (xs @ ys) = writes_of xs @ writes_of ys"
  "writes_of (HoDirect j # hos) = writes_of hos" "writes_of (HoWatch fid root # hos) = writes_of hos"
  by (simp_all add: writes_of_def)

lemma take_names_writes:
  "writes_of (fst (take_names t fid report c)) =
     map GwHost (case bm_get (co_folders c) fid of Some w \<Rightarrow> names_written fid w report | None \<Rightarrow> [])"
proof (cases "(case bm_get (co_folders c) fid of Some w \<Rightarrow> names_written fid w report | None \<Rightarrow> []) = []")
  case True
  then show ?thesis by (simp add: take_names_def Let_def)
next
  case False
  from emit_host_writes [OF this, of t "clock_now (co_clock c) t" c] False show ?thesis
    by (auto simp: take_names_def Let_def writes_of_def)
qed

text \<open>What a finished scan writes, and the watch it writes it with: another scan that starts at once has cleared
  what this one skipped and what commits touched.\<close>

definition restarted_watch :: "watch \<Rightarrow> watch" where
  "restarted_watch w = w\<lparr>wa_scanning := True, wa_next_scan := None, wa_skipped := [], wa_touched := bm_empty,
     wa_reshimmed := bm_empty, wa_changes := 0\<rparr>"

lemma three_steps:
  "writes_of (fst (all_steps [f, g, h] c)) = writes_of (fst (f c)) @ writes_of (fst (g (snd (f c)))) @
     writes_of (fst (h (snd (g (snd (f c))))))"
  by (simp add: case_prod_unfold Let_def)

lemma names_written_cong:
  "wa_touched w' = wa_touched w \<Longrightarrow> wa_names w' = wa_names w \<Longrightarrow> wa_skipped w' = wa_skipped w \<Longrightarrow>
   names_written fid w' report = names_written fid w report"
  by (simp add: names_written_def)

lemma scan_taken_writes:
  "writes_of (fst (scan_taken t watched fid report watcher w c)) = map GwHost (names_written fid
    (if wa_rescan_after w \<or> wa_unwatched w \<and> watcher \<and> watched then restarted_watch w else w) report)"
proof -
  define again where "again = (wa_unwatched w \<and> watcher)"
  define w2 where "w2 = (if again \<and> watched then w\<lparr>wa_unwatched := False, wa_rescan_after := True\<rparr> else w)"
  define c1 where "c1 = put_watch fid (w2\<lparr>wa_rescan_after := False\<rparr>) c"
  define rescan where "rescan = wa_rescan_after w2"
  have get: "bm_get (co_folders c1) fid = Some (w2\<lparr>wa_rescan_after := False\<rparr>)" by (simp add: c1_def put_watch_def)
  have mid: "writes_of (fst ((if rescan then start_scan fid else Pair []) c1)) = []"
    by (simp add: start_scan_def get)
  have taken: "bm_get (co_folders (snd ((if rescan then start_scan fid else Pair []) c1))) fid =
      Some (if rescan then restarted_watch (w2\<lparr>wa_rescan_after := False\<rparr>) else w2\<lparr>wa_rescan_after := False\<rparr>)"
    by (simp add: start_scan_def get restarted_watch_def)
  have "writes_of (fst (scan_taken t watched fid report watcher w c)) =
      map GwHost (names_written fid (if rescan then restarted_watch (w2\<lparr>wa_rescan_after := False\<rparr>) else w2\<lparr>wa_rescan_after := False\<rparr>) report)"
    unfolding scan_taken_def Let_def again_def [symmetric] w2_def [symmetric] rescan_def [symmetric] three_steps fst_conv snd_conv
      c1_def [symmetric] mid take_names_writes taken
    by simp
  also have "names_written fid (if rescan then restarted_watch (w2\<lparr>wa_rescan_after := False\<rparr>) else w2\<lparr>wa_rescan_after := False\<rparr>) report =
      names_written fid (if rescan then restarted_watch w else w) report"
    by (rule names_written_cong) (simp_all add: restarted_watch_def w2_def)
  also have "rescan \<longleftrightarrow> wa_rescan_after w \<or> wa_unwatched w \<and> watcher \<and> watched"
    by (auto simp: rescan_def w2_def again_def)
  finally show ?thesis .
qed

lemma scan_done_writes:
  assumes "bm_get (co_folders c) fid = Some w" and "\<not> sp_aborted report"
  shows "writes_of (fst (scan_done t watched fid (Some report) c)) = map GwHost (names_written fid
    (if wa_rescan_after w \<or> wa_unwatched w \<and> co_watcher c \<and> watched then restarted_watch w else w) report)"
  using assms
  by (simp add: scan_done_def Let_def scan_taken_writes)
    (simp add: restarted_watch_def names_written_def)

lemma names_removed:
  "RemoveDiskName fid' p \<in> set (names_written fid w report) \<longleftrightarrow> fid' = fid \<and> bm_has (wa_names w) p \<and>
     \<not> at_or_beneath (wa_skipped w) p \<and> \<not> at_or_beneath (bm_keys (wa_touched w)) p \<and>
     p \<notin> dn_path ` set (sp_disk_names report)"
proof -
  define touched where "touched = at_or_beneath (bm_keys (wa_touched w))"
  define found where "found = bm_of_list (filter (\<lambda>(p, n). \<not> touched p) (map (\<lambda>d. (dn_path d, dn_name d)) (sp_disk_names report)))"
  have "bm_get found p = None \<longleftrightarrow> \<not> (p \<in> dn_path ` set (sp_disk_names report) \<and> \<not> touched p)"
    by (force simp: found_def bm_get_of_list map_of_eq_None_iff)
  then have has: "bm_has found p \<longleftrightarrow> p \<in> dn_path ` set (sp_disk_names report) \<and> \<not> touched p"
    by (cases "bm_get found p") auto
  have "set (names_written fid w report) =
      (\<lambda>(p, n). PutDiskName fid \<lparr>dn_path = p, dn_name = n\<rparr>) ` {x \<in> set (bm_entries found). case x of (p, n) \<Rightarrow> bm_get (wa_names w) p \<noteq> Some n} \<union>
      RemoveDiskName fid ` {p. bm_has (wa_names w) p \<and> \<not> bm_has found p \<and> \<not> at_or_beneath (wa_skipped w) p \<and> \<not> touched p}"
    by (simp add: names_written_def Let_def touched_def [symmetric] found_def [symmetric] in_bm_keys del: bm_has_iff)
  then show ?thesis using has by (auto simp: touched_def [symmetric])
qed

text \<open>C39: A finished scan takes back only names of paths it looked at. Unless another scan follows it at once, the
  writes it leads to remove the stored name of a path only if the scan did not find that name, skipped neither the
  path nor a directory above it, and no commit renamed one of them while it ran.\<close>

theorem scan_takes_back_names:
  assumes "bm_get (co_folders c) fid = Some w" and "\<not> sp_aborted report"
    and "\<not> wa_rescan_after w" and "\<not> (wa_unwatched w \<and> co_watcher c \<and> watched)"
  shows "GwHost (RemoveDiskName fid p) \<in> set (writes_of (fst (scan_done t watched fid (Some report) c))) \<longleftrightarrow>
    bm_has (wa_names w) p \<and> p \<notin> dn_path ` set (sp_disk_names report) \<and>
    \<not> at_or_beneath (wa_skipped w) p \<and> \<not> at_or_beneath (bm_keys (wa_touched w)) p"
  using assms by (auto simp: scan_done_writes names_removed)

text \<open>C40: When a scan follows at once, because the watcher lost events while this one ran or the root is watched
  afresh, what was skipped and touched is forgotten before the names are compared: the stored name of a path the
  scan skipped, or a commit has just written, is removed although nothing was seen of it.\<close>

theorem rescan_forgets_skipped:
  assumes "bm_get (co_folders c) fid = Some w" and "\<not> sp_aborted report"
    and "wa_rescan_after w \<or> wa_unwatched w \<and> co_watcher c \<and> watched"
    and "bm_has (wa_names w) p" and "p \<notin> dn_path ` set (sp_disk_names report)"
  shows "GwHost (RemoveDiskName fid p) \<in> set (writes_of (fst (scan_done t watched fid (Some report) c)))"
  using assms by (auto simp: scan_done_writes names_removed restarted_watch_def at_or_beneath_def bm_keys_def)

definition watch_sample :: "bool \<Rightarrow> watch" where
  "watch_sample rescan = \<lparr>wa_scanning = True, wa_next_scan = None, wa_space_at = None,
     wa_names = bm_insert path_a ''A'' bm_empty, wa_skipped = [path_a], wa_touched = bm_empty,
     wa_reshimmed = bm_empty, wa_shimmed = bm_empty, wa_changes = 0, wa_root = ''r'', wa_guarded = False,
     wa_unwatched = False, wa_rescan_after = rescan\<rparr>"

definition core_sample :: "bool \<Rightarrow> core" where
  "core_sample rescan = \<lparr>co_engine = engine_new \<lparr>nc_node_id = here, nc_author_host = host0\<rparr>,
     co_clock = clock_start 0 0, co_folders = bm_insert folder_a (watch_sample rescan) bm_empty, co_wake = None,
     co_rescan = 1, co_space_check = 1, co_bindings = bm_empty, co_reobserve = reobserve_new, co_watcher = True\<rparr>"

lemma scan_takes_back_names_witness:
  "GwHost (RemoveDiskName folder_a path_a) \<notin> set (writes_of (fst (scan_done 5 True folder_a
     (Some \<lparr>sp_aborted = False, sp_disk_names = []\<rparr>) (core_sample False))))"
  by (subst scan_takes_back_names [where w = "watch_sample False"])
    (simp_all add: core_sample_def watch_sample_def at_or_beneath_def)

lemma rescan_forgets_skipped_witness:
  "path_a \<in> set (wa_skipped (watch_sample True)) \<and>
   GwHost (RemoveDiskName folder_a path_a) \<in> set (writes_of (fst (scan_done 5 True folder_a
     (Some \<lparr>sp_aborted = False, sp_disk_names = []\<rparr>) (core_sample True))))"
proof
  show "path_a \<in> set (wa_skipped (watch_sample True))" by (simp add: watch_sample_def)
  show "GwHost (RemoveDiskName folder_a path_a) \<in> set (writes_of (fst (scan_done 5 True folder_a
     (Some \<lparr>sp_aborted = False, sp_disk_names = []\<rparr>) (core_sample True))))"
    by (rule rescan_forgets_skipped [where w = "watch_sample True"]) (simp_all add: core_sample_def watch_sample_def)
qed


end
