(* ===== verification/Daemons.thy ===== *)
theory Daemons
  imports CoreLaws
begin

text \<open>
  \<open>crates/delocal/src/daemon.rs\<close>, \<open>crates/delocal/src/daemon/startup.rs\<close> and the releaser of
  \<open>crates/delocal/src/daemon/core.rs\<close>: how a daemon starts from its store, and how the engine task, the writer
  and the releaser run side by side. The executor's queue is kept whole, with the number of the group each job
  waited for. What the folders' starts write, whether a folder can be watched, the inputs, the clock and every
  choice of who runs next come from outside.
\<close>

section \<open>The start\<close>

record opened =
  od_id :: folder_id
  od_root :: os_bytes
  od_names :: "(rel_path, os_bytes) bmap"
  od_shims :: "(rel_path, shim) bmap"
  od_journal :: "journal_row list"
  od_trash :: "trash_row list"
  od_join :: "event option"

text \<open>One folder the host recorded; none if this machine is not a member.\<close>

definition open_row :: "node_id \<Rightarrow> folder_parts list \<Rightarrow> 'j db \<Rightarrow> folder_row \<Rightarrow> opened option stored" where
  "open_row node parts db row =
     then_try (store_members (fr_id row) db) (\<lambda>members.
       case find (\<lambda>m. mb_node m = node) members of
         None \<Rightarrow> Inr None
       | Some me \<Rightarrow>
          then_try (store_disk_names (fr_id row) db) (\<lambda>names.
          then_try (store_shims (fr_id row) db) (\<lambda>shims.
          then_try (store_journal (fr_id row) db) (\<lambda>journal.
          then_try (store_trash (fr_id row) db) (\<lambda>trash.
            Inr (Some \<lparr>od_id = fr_id row, od_root = mb_path me,
               od_names = bm_of_list (map (\<lambda>n. (dn_path n, dn_name n)) names),
               od_shims = bm_of_list (map (\<lambda>s. (sh_path s, s)) shims), od_journal = journal, od_trash = trash,
               od_join = (if list_ex (\<lambda>p. fp_id p = fr_id row) parts then None
                 else Some (EvFolderJoined (fr_id row) (fr_rules row) (map mb_node members)))\<rparr>))))))"

record started =
  sd_engine :: engine
  sd_folders :: "opened list"
  sd_joins :: "event list"
  sd_bindings :: "(node_id, stable_id) bmap"

definition daemon_open :: "'j json \<Rightarrow> node_config \<Rightarrow> timestamp \<Rightarrow> 'j db \<Rightarrow> started stored" where
  "daemon_open J config now db =
     then_try (store_load J db) (\<lambda>parts.
     then_try (store_folders J db) (\<lambda>rows.
     then_try (try_all (open_row (nc_node_id config) parts db) rows) (\<lambda>found.
     then_try (store_machines db) (\<lambda>machines.
       let folders = List.map_filter (\<lambda>x. x) found;
           left = map fst (filter (\<lambda>(i, x). x = None) (zip (map fr_id rows) found));
           parts = filter (\<lambda>p. fp_id p \<notin> set left) parts
       in Inr \<lparr>sd_engine = engine_restore config parts now, sd_folders = folders,
            sd_joins = List.map_filter od_join folders,
            sd_bindings = bm_of_list (map (\<lambda>m. (mc_node m, mc_stable_id m)) machines)\<rparr>))))"

definition watch_of :: "(folder_id \<Rightarrow> bool) \<Rightarrow> opened \<Rightarrow> folder_id \<times> watch" where
  "watch_of unwatched od =
     (od_id od, \<lparr>wa_scanning = False, wa_next_scan = None, wa_space_at = None, wa_names = od_names od,
        wa_skipped = [], wa_touched = bm_empty, wa_reshimmed = bm_empty,
        wa_shimmed = bs_of_list (bm_keys (od_shims od)), wa_changes = 0, wa_root = od_root od,
        wa_guarded = False, wa_unwatched = unwatched (od_id od), wa_rescan_after = False\<rparr>)"

record host_setup =
  su_config :: node_config
  su_clock :: clock
  su_rescan :: int
  su_space_check :: int
  su_watcher :: bool
  su_unwatched :: "folder_id \<Rightarrow> bool"

definition core_of :: "host_setup \<Rightarrow> started \<Rightarrow> core" where
  "core_of su s =
     \<lparr>co_engine = sd_engine s, co_clock = su_clock su,
      co_folders = bm_of_list (map (watch_of (\<lambda>fid. su_watcher su \<and> su_unwatched su fid)) (sd_folders s)),
      co_wake = None, co_rescan = su_rescan su, co_space_check = su_space_check su,
      co_bindings = sd_bindings s, co_reobserve = reobserve_new, co_watcher = su_watcher su\<rparr>"

section \<open>The daemon\<close>

definition QUEUE :: nat where
  "QUEUE = 256"

text \<open>\<open>dm_groups\<close> and \<open>dm_points\<close> are for the statements: the groups submitted, and the engine as it stood
  before the first and after each. A release is the number of its group and the jobs that wait for it.\<close>

record 'j daemon =
  dm_core :: core
  dm_joins :: "event list"
  dm_begun :: bool
  dm_pending :: "handoff list"
  dm_sending :: "(nat \<times> job list) option"
  dm_releases :: "(nat \<times> job list) list"
  dm_waiting :: "(nat \<times> job list) option"
  dm_stopped :: bool
  dm_queue :: "(nat option \<times> job) list"
  dm_writer :: "'j writer"
  dm_groups :: "group list"
  dm_points :: "engine list"

definition host_group :: "timestamp \<Rightarrow> host_write list \<Rightarrow> group" where
  "host_group now ws = foldl (\<lambda>g w. group_host w g) (group_new now) ws"

definition submit :: "group \<Rightarrow> engine \<Rightarrow> 'j daemon \<Rightarrow> 'j daemon" where
  "submit g e d =
     d\<lparr>dm_writer := writer_submit g (dm_writer d), dm_groups := dm_groups d @ [g], dm_points := dm_points d @ [e]\<rparr>"

text \<open>Started, with the writes of the folders' starts submitted; \<open>t\<close> is when.\<close>

definition daemon_start :: "'j json \<Rightarrow> host_setup \<Rightarrow> instant \<Rightarrow> host_write list \<Rightarrow> 'j db \<Rightarrow> 'j daemon stored" where
  "daemon_start J su t ws db =
     then_try (daemon_open J (su_config su) (clock_now (su_clock su) t) db) (\<lambda>s.
       let d = \<lparr>dm_core = core_of su s, dm_joins = sd_joins s, dm_begun = False, dm_pending = [],
                dm_sending = None, dm_releases = [], dm_waiting = None, dm_stopped = False, dm_queue = [],
                dm_writer = store_writer db, dm_groups = [], dm_points = [sd_engine s]\<rparr>
       in Inr (if ws = [] then d
               else submit (host_group (clock_now (su_clock su) t) ws) (sd_engine s) d))"

text \<open>The outcome of a group's \<open>Durable\<close>, if it is known: groups resolve in the order they were submitted.\<close>

definition durable_outcome :: "nat \<Rightarrow> 'j writer \<Rightarrow> write_outcome option" where
  "durable_outcome n w = (if n < length (wr_resolved w) then Some (snd (wr_resolved w ! n)) else None)"

text \<open>One step of one of the daemon's threads.\<close>

inductive daemon_step :: "'j json \<Rightarrow> 'j daemon \<Rightarrow> 'j daemon \<Rightarrow> bool" for J :: "'j json" where
  begins: "\<not> dm_begun d \<Longrightarrow> wr_jobs (dm_writer d) = [] \<Longrightarrow> list_all (\<lambda>(g, r). r = Inr ()) (wr_resolved (dm_writer d)) \<Longrightarrow>
    core_begin t (dm_joins d) (dm_core d) = (out, c) \<Longrightarrow>
    daemon_step J d (d\<lparr>dm_core := c, dm_begun := True, dm_pending := out\<rparr>)"
| takes: "dm_begun d \<Longrightarrow> dm_pending d = [] \<Longrightarrow> dm_sending d = None \<Longrightarrow>
    core_input t watched i (dm_core d) = (out, c) \<Longrightarrow> daemon_step J d (d\<lparr>dm_core := c, dm_pending := out\<rparr>)"
| fires: "dm_begun d \<Longrightarrow> dm_pending d = [] \<Longrightarrow> dm_sending d = None \<Longrightarrow>
    core_due t fresh (dm_core d) = (out, c) \<Longrightarrow> daemon_step J d (d\<lparr>dm_core := c, dm_pending := out\<rparr>)"
| submits: "dm_pending d = HoRelease g jobs e # out \<Longrightarrow> dm_sending d = None \<Longrightarrow> wr_open (dm_writer d) \<Longrightarrow>
    daemon_step J d ((submit g e d)\<lparr>dm_pending := out, dm_sending := Some (length (dm_groups d), jobs)\<rparr>)"
| sends: "dm_sending d = Some r \<Longrightarrow> length (dm_releases d) < QUEUE \<Longrightarrow>
    daemon_step J d (d\<lparr>dm_sending := None, dm_releases := dm_releases d @ [r]\<rparr>)"
| directs: "dm_pending d = HoDirect j # out \<Longrightarrow> dm_sending d = None \<Longrightarrow>
    daemon_step J d (d\<lparr>dm_pending := out, dm_queue := dm_queue d @ [(None, j)]\<rparr>)"
| watches: "dm_pending d = HoWatch fid root # out \<Longrightarrow> dm_sending d = None \<Longrightarrow> daemon_step J d (d\<lparr>dm_pending := out\<rparr>)"
| journals: "dm_begun d \<Longrightarrow> host_only g \<Longrightarrow> wr_open (dm_writer d) \<Longrightarrow> daemon_step J d (submit g (last (dm_points d)) d)"
| receives: "\<not> dm_stopped d \<Longrightarrow> dm_waiting d = None \<Longrightarrow> dm_releases d = r # rs \<Longrightarrow>
    daemon_step J d (d\<lparr>dm_waiting := Some r, dm_releases := rs\<rparr>)"
| releases: "\<not> dm_stopped d \<Longrightarrow> dm_waiting d = Some (n, jobs) \<Longrightarrow> durable_outcome n (dm_writer d) = Some (Inr ()) \<Longrightarrow>
    daemon_step J d (d\<lparr>dm_waiting := None, dm_queue := dm_queue d @ map (\<lambda>j. (Some n, j)) jobs\<rparr>)"
| fails: "dm_waiting d = Some (n, jobs) \<Longrightarrow> durable_outcome n (dm_writer d) = Some (Inl err) \<Longrightarrow>
    daemon_step J d (d\<lparr>dm_stopped := True\<rparr>)"
| commits: "wr_alive (dm_writer d) \<Longrightarrow> 0 < n \<Longrightarrow> n \<le> length (wr_jobs (dm_writer d)) \<Longrightarrow>
    daemon_step J d (d\<lparr>dm_writer := writer_round J fault n (dm_writer d)\<rparr>)"
| panics: "wr_alive (dm_writer d) \<Longrightarrow> daemon_step J d (d\<lparr>dm_writer := writer_panic (dm_writer d)\<rparr>)"
| closes: "daemon_step J d (d\<lparr>dm_writer := writer_close (dm_writer d)\<rparr>)"

inductive_cases daemon_step_cases: "daemon_step J d d'"

abbreviation daemon_run :: "'j json \<Rightarrow> 'j daemon \<Rightarrow> 'j daemon \<Rightarrow> bool" where
  "daemon_run J \<equiv> (daemon_step J)\<^sup>*\<^sup>*"

section \<open>Effects wait for their group\<close>

lemma resolved_grows:
  "\<exists>more. wr_resolved (writer_submit g w) = wr_resolved w @ more"
  "\<exists>more. wr_resolved (writer_round J fault n w) = wr_resolved w @ more"
  "\<exists>more. wr_resolved (writer_panic w) = wr_resolved w @ more"
  "\<exists>more. wr_resolved (writer_close w) = wr_resolved w @ more"
  by (auto simp: writer_submit_def writer_round_def writer_panic_def writer_close_def resolve_all_def Let_def
      split: option.split sum.split prod.split)

lemma outcome_kept:
  assumes "durable_outcome n w = Some r" and "\<exists>more. wr_resolved w' = wr_resolved w @ more"
  shows "durable_outcome n w' = Some r"
  using assms by (auto simp: durable_outcome_def nth_append split: if_splits)

text \<open>What has been given to the executor, and what is on the way to it.\<close>

definition all_durable :: "(nat option \<times> job) list \<Rightarrow> 'j writer \<Rightarrow> bool" where
  "all_durable q w \<longleftrightarrow> (\<forall>n j. (Some n, j) \<in> set q \<longrightarrow> durable_outcome n w = Some (Inr ()))"

lemma all_durable_simps [simp]:
  "all_durable [] w" "all_durable (q @ [(None, j)]) w \<longleftrightarrow> all_durable q w"
  "durable_outcome n w = Some (Inr ()) \<Longrightarrow> all_durable (q @ map (\<lambda>j. (Some n, j)) jobs) w \<longleftrightarrow> all_durable q w"
  by (auto simp: all_durable_def)

lemma all_durable_grows: "all_durable q w \<Longrightarrow> \<exists>more. wr_resolved w' = wr_resolved w @ more \<Longrightarrow> all_durable q w'"
  unfolding all_durable_def using outcome_kept by blast

lemmas all_durable_kept = all_durable_grows [OF _ resolved_grows(1)] all_durable_grows [OF _ resolved_grows(2)]
  all_durable_grows [OF _ resolved_grows(3)] all_durable_grows [OF _ resolved_grows(4)]

definition effects_wait :: "'j json \<Rightarrow> 'j db \<Rightarrow> 'j daemon \<Rightarrow> bool" where
  "effects_wait J db d \<longleftrightarrow> writer_runs J db (dm_groups d) (dm_writer d) \<and>
     length (dm_points d) = Suc (length (dm_groups d)) \<and> all_durable (dm_queue d) (dm_writer d)"

lemma step_waits:
  assumes "effects_wait J db d" and "daemon_step J d d'"
  shows "effects_wait J db d'"
  using assms(2,1)
  by cases (auto simp: effects_wait_def submit_def intro: writer_runs.intros all_durable_kept)

lemma start_waits:
  assumes "daemon_start J su t ws db = Inr d"
  shows "effects_wait J db d"
proof -
  have "writer_runs J db ([] @ [g]) (writer_submit g (store_writer db))" for g
    by (intro writer_runs.intros) (simp add: store_writer_def)
  then show ?thesis
    using assms
    by (auto simp: daemon_start_def then_try_Inr Let_def effects_wait_def submit_def intro: writer_runs.starts)
qed

lemma run_waits: "daemon_run J d d' \<Longrightarrow> effects_wait J db d \<Longrightarrow> effects_wait J db d'"
  by (induction rule: rtranclp_induct) (auto intro: step_waits)

lemma durable_prefix:
  assumes "daemon_start J su t ws db = Inr d" and "daemon_run J d d'"
  shows "\<exists>n \<le> length (dm_groups d'). write_groups J (take n (dm_groups d')) db = Inr (wr_store (dm_writer d')) \<and>
    (\<forall>i j. (Some i, j) \<in> set (dm_queue d') \<longrightarrow> i < n)"
proof -
  have W: "effects_wait J db d'" using run_waits [OF assms(2) start_waits [OF assms(1)]] .
  then obtain good bad where "wr_resolved (dm_writer d') = map (\<lambda>g. (g, Inr ())) good @ bad"
    and bad: "list_all (\<lambda>(g, r). r \<noteq> Inr ()) bad" and db: "write_groups J good db = Inr (wr_store (dm_writer d'))"
    and gs: "map fst (wr_resolved (dm_writer d')) @ wr_jobs (dm_writer d') = dm_groups d'"
    using runs_sound [of J db "dm_groups d'" "dm_writer d'"]
    unfolding effects_wait_def writer_sound_def resolved_prefix_def by metis
  note res = this(1)
  have take: "take (length good) (dm_groups d') = good" "length good \<le> length (dm_groups d')"
    by (simp_all add: gs [symmetric] res comp_def)
  have "i < length good" if "(Some i, j) \<in> set (dm_queue d')" for i j
  proof -
    have "durable_outcome i (dm_writer d') = Some (Inr ())" using W that by (auto simp: effects_wait_def all_durable_def)
    then show ?thesis
      using bad by (auto simp: durable_outcome_def res nth_append list_all_length case_prod_unfold split: if_splits)
  qed
  with db take show ?thesis by (intro exI [of _ "length good"]) auto
qed

end
