(* ===== verification/DaemonViews.thy ===== *)
theory DaemonViews
  imports Daemons
begin

text \<open>
  What a restart finds. The rows the engine's actions write are those of its folders after every event, the
  groups carry the actions, the store holds a prefix of the groups, and its readers give back what was written:
  so what a crash leaves is the parts of every folder as the engine had them at one of its events, and a daemon
  started from it goes on from there, any number of times.
\<close>

section \<open>The rows in a store\<close>

definition table_rows :: "tables \<Rightarrow> host_rows" where
  "table_rows t = \<lparr>hr_files = bm_get (mt_records t), hr_pending = bm_get (mt_pending t), hr_wants = bm_get (mt_wants t),
     hr_deferred = bm_get (mt_deferred t), hr_held = bm_get (mt_held t), hr_rest = mt_rest t\<rparr>"

definition rows_in :: "mirror \<Rightarrow> folder_id \<Rightarrow> host_rows" where
  "rows_in m fid = (case bm_get (mi_folders m) fid of Some t \<Rightarrow> table_rows t | None \<Rightarrow> no_rows)"

lemma set_row_get [simp]: "bm_get (set_row m k v) = (bm_get m)(k := v)"
  by (auto simp: set_row_def fun_eq_iff split: option.split)

lemma hook_rows:
  assumes "mirror_hook at a m = Some m'"
  shows "rows_in m' fid = host_take fid (rows_in m fid) a"
  using assms
  by (cases a) (auto simp: on_tables_def rows_in_def table_rows_def fun_eq_iff split: option.splits if_splits)

lemma host_rows:
  assumes "mirror_host h m = Some m'"
  shows "rows_in m' fid = rows_in m fid"
  using assms
  by (cases h) (auto simp: on_tables_def rows_in_def table_rows_def tables_new_def no_rows_def fun_eq_iff
      split: option.splits if_splits)

text \<open>A group's writes as operations of the reference.\<close>

fun op_of :: "group_write \<Rightarrow> store_op" where
  "op_of (GwEngine w) = OpHook (unsort w)"
| "op_of (GwHost h) = OpHost h"

definition ops_of :: "group \<Rightarrow> store_ops" where
  "ops_of g = \<lparr>op_at = gp_at g, op_list = map op_of (gp_writes g)\<rparr>"

definition mirror_groups :: "group list \<Rightarrow> mirror \<Rightarrow> mirror option" where
  "mirror_groups gs = mirror_run (map ops_of gs)"

definition group_storable :: "group \<Rightarrow> bool" where
  "group_storable g \<longleftrightarrow> list_all op_storable (op_list (ops_of g))"

lemma sort_unsort: "sort_action (unsort w) = SortedWrite w"
  by (cases w) simp_all

lemma ops_group_of: "ops_group (ops_of g) = Some g"
proof -
  have "write_of (op_of w) = Some w" for w
    by (cases w) (simp_all add: sort_unsort)
  then have "map write_of (map op_of (gp_writes g)) = map Some (gp_writes g)" by simp
  from ops_group_writes [OF this] show ?thesis
    by (simp add: ops_group_def ops_of_def group_new_def)
qed

lemma mirror_groups_append:
  "mirror_groups (gs @ hs) m = (case mirror_groups gs m of None \<Rightarrow> None | Some m \<Rightarrow> mirror_groups hs m)"
  by (induction gs arbitrary: m) (simp_all add: mirror_groups_def split: option.split)

lemma mirror_groups_take: "mirror_groups gs m \<noteq> None \<Longrightarrow> mirror_groups (take n gs) m \<noteq> None"
  using mirror_groups_append [of "take n gs" "drop n gs" m] by (auto split: option.splits)

lemma groups_stand_of:
  assumes "db_stands J db m" and "json_ok J" and "mirror_groups gs m = Some m'" and "list_all group_storable gs"
  shows "\<exists>db'. write_groups J gs db = Inr db' \<and> db_stands J db' m'"
proof -
  have "list_all (\<lambda>ops. list_all op_storable (op_list ops)) (map ops_of gs)"
    using assms(4) by (simp add: list_all_iff group_storable_def)
  from groups_stand [OF assms(1,2) assms(3) [unfolded mirror_groups_def] this] obtain gs' db'
    where "map ops_group (map ops_of gs) = map Some gs'" "write_groups J gs' db = Inr db'" "db_stands J db' m'" by blast
  moreover have "gs' = gs" if "map ops_group (map ops_of gs) = map Some gs'"
  proof -
    have "map Some gs' = map Some gs" using that by (simp add: comp_def ops_group_of)
    then show ?thesis by (simp add: inj_map_eq_map)
  qed
  ultimately show ?thesis by blast
qed

lemma steps_rows:
  "mirror_steps at (map op_of ws) m = Some m' \<Longrightarrow> rows_in m' = fed (rows_in m) (actions_in ws)"
proof (induction ws arbitrary: m)
  case (Cons w ws)
  obtain m1 where m1: "mirror_op at (op_of w) m = Some m1" "mirror_steps at (map op_of ws) m1 = Some m'"
    using Cons.prems by (auto split: option.splits)
  have "rows_in m1 = fed (rows_in m) (actions_in [w])"
  proof (cases w)
    case (GwEngine x)
    then show ?thesis using m1(1) hook_rows [of at "unsort x" m m1] by (simp add: fun_eq_iff fed_def)
  next
    case (GwHost h)
    then show ?thesis using m1(1) host_rows [of h m m1] by (simp add: fun_eq_iff)
  qed
  moreover have "actions_in (w # ws) = actions_in [w] @ actions_in ws" by (cases w) simp_all
  ultimately show ?case using Cons.IH [OF m1(2)] by simp
qed simp

definition rows_after :: "(folder_id \<Rightarrow> host_rows) \<Rightarrow> group list \<Rightarrow> folder_id \<Rightarrow> host_rows" where
  "rows_after R gs = fed R (actions_in (concat (map gp_writes gs)))"

lemma rows_after_simps [simp]: "rows_after R [] = R"
  "rows_after R (gs @ [g]) = fed (rows_after R gs) (actions_in (gp_writes g))"
  by (simp_all add: rows_after_def)

lemma groups_rows: "mirror_groups gs m = Some m' \<Longrightarrow> rows_in m' = rows_after (rows_in m) gs"
proof (induction gs arbitrary: m)
  case Nil
  then show ?case by (simp add: mirror_groups_def)
next
  case (Cons g gs)
  obtain m1 where m1: "mirror_apply (ops_of g) m = Some m1" "mirror_groups gs m1 = Some m'"
    using Cons.prems by (auto simp: mirror_groups_def split: option.splits)
  have "rows_in m1 = fed (rows_in m) (actions_in (gp_writes g))"
    using m1(1) steps_rows by (simp add: mirror_apply_def ops_of_def)
  with Cons.IH [OF m1(2)] show ?case by (simp add: rows_after_def)
qed

section \<open>The engine at each point\<close>

text \<open>After each group the rows are those of the engine that went with it, and of what is still to be handed off.\<close>

definition points_ok :: "(folder_id \<Rightarrow> host_rows) \<Rightarrow> 'j daemon \<Rightarrow> bool" where
  "points_ok R0 d \<longleftrightarrow> length (dm_points d) = Suc (length (dm_groups d)) \<and>
     (\<forall>n \<le> length (dm_groups d). in_line R0 (rows_after R0 (take n (dm_groups d))) (dm_points d ! n)) \<and>
     keeps_up R0 (rows_after R0 (dm_groups d)) (dm_pending d) (co_engine (dm_core d))"

lemma points_submit:
  assumes "points_ok R0 d" and "in_line R0 (fed (rows_after R0 (dm_groups d)) (actions_in (gp_writes g))) e"
    and "keeps_up R0 (fed (rows_after R0 (dm_groups d)) (actions_in (gp_writes g))) out (co_engine (dm_core d))"
    and "dm_groups d' = dm_groups d @ [g]" "dm_points d' = dm_points d @ [e]" "dm_pending d' = out" "dm_core d' = dm_core d"
  shows "points_ok R0 d'"
proof -
  have "in_line R0 (rows_after R0 (take n (dm_groups d @ [g]))) ((dm_points d @ [e]) ! n)"
    if "n \<le> Suc (length (dm_groups d))" for n
  proof (cases "n = Suc (length (dm_groups d))")
    case True
    then show ?thesis using assms(1,2) by (simp add: points_ok_def nth_append)
  next
    case False
    with that have "n \<le> length (dm_groups d)" by simp
    then show ?thesis using assms(1) by (simp add: points_ok_def nth_append)
  qed
  then show ?thesis using assms by (simp add: points_ok_def)
qed

lemma points_last:
  assumes "points_ok R0 d"
  shows "in_line R0 (rows_after R0 (dm_groups d)) (last (dm_points d))"
proof -
  have len: "length (dm_points d) = Suc (length (dm_groups d))" using assms by (simp add: points_ok_def)
  then have "dm_points d \<noteq> []" by auto
  with len have "last (dm_points d) = dm_points d ! length (dm_groups d)" by (simp add: last_conv_nth)
  moreover have "in_line R0 (rows_after R0 (take (length (dm_groups d)) (dm_groups d))) (dm_points d ! length (dm_groups d))"
    using assms unfolding points_ok_def by blast
  ultimately show ?thesis by simp
qed

lemma points_run:
  assumes "points_ok R0 d" and "step_ok f" and "f (dm_core d) = (out, c)" and "dm_pending d = []"
    and "dm_groups d' = dm_groups d" "dm_points d' = dm_points d" "dm_pending d' = out" "dm_core d' = c"
  shows "points_ok R0 d'"
  using assms step_okD [OF assms(2,3), of R0 "rows_after R0 (dm_groups d)"] by (simp add: points_ok_def)

lemma step_points:
  assumes "points_ok R0 d" and "dm_begun d \<or> dm_pending d = []" and "daemon_step J d d'"
  shows "points_ok R0 d' \<and> (dm_begun d' \<or> dm_pending d' = [])"
  using assms(3,1,2)
proof cases
  case (begins t out c)
  have "points_ok R0 d'"
    by (rule points_run [OF assms(1) begin_ok begins(5)]) (use begins assms(2) in simp_all)
  then show ?thesis using begins(1) by simp
next
  case (takes t watched i out c)
  have "points_ok R0 d'"
    by (rule points_run [OF assms(1) input_ok takes(5)]) (use takes in simp_all)
  then show ?thesis using takes(1,2) by simp
next
  case (fires t fresh out c)
  have "points_ok R0 d'"
    by (rule points_run [OF assms(1) due_ok fires(5)]) (use fires in simp_all)
  then show ?thesis using fires(1,2) by simp
next
  case (submits g jobs e out)
  have k: "in_line R0 (fed (rows_after R0 (dm_groups d)) (actions_in (gp_writes g))) e"
    "keeps_up R0 (fed (rows_after R0 (dm_groups d)) (actions_in (gp_writes g))) out (co_engine (dm_core d))"
    using assms(1) submits(2) by (simp_all add: points_ok_def)
  have "points_ok R0 d'"
    by (rule points_submit [OF assms(1) k]) (use submits in \<open>simp_all add: submit_def\<close>)
  then show ?thesis using submits assms(2) by (simp add: submit_def)
next
  case (journals g)
  have k: "in_line R0 (fed (rows_after R0 (dm_groups d)) (actions_in (gp_writes g))) (last (dm_points d))"
    "keeps_up R0 (fed (rows_after R0 (dm_groups d)) (actions_in (gp_writes g))) (dm_pending d) (co_engine (dm_core d))"
    using assms(1) points_last [OF assms(1)] by (simp_all add: points_ok_def host_only_actions [OF journals(3)])
  have "points_ok R0 d'"
    by (rule points_submit [OF assms(1) k]) (use journals in \<open>simp_all add: submit_def\<close>)
  then show ?thesis using journals by (simp add: submit_def)
qed (use assms in \<open>auto simp: points_ok_def\<close>)

lemma run_points:
  assumes "daemon_run J d d'" and "points_ok R0 d" and "dm_pending d = []"
  shows "points_ok R0 d'"
proof -
  have "points_ok R0 d' \<and> (dm_begun d' \<or> dm_pending d' = [])"
    using assms by (induction rule: rtranclp_induct) (auto dest: step_points)
  then show ?thesis ..
qed

section \<open>Starting from what is stored\<close>

text \<open>Parts that carry the rows of a folder, whatever its rules and members.\<close>

definition carries :: "host_rows \<Rightarrow> folder_id \<Rightarrow> folder_parts \<Rightarrow> bool" where
  "carries h fid parts \<longleftrightarrow> fp_id parts = fid \<and> bm_get (fp_records parts) = hr_files h \<and>
     bm_get (fp_wants parts) = hr_wants h \<and> bm_get (fp_pending parts) = hr_pending h \<and>
     bm_get (fp_held parts) = hr_held h \<and> bm_get (fp_deferred parts) = hr_deferred h \<and> Some (fp_rest parts) = hr_rest h"

lemma carries_same:
  assumes "carries h fid parts" and "carries h fid parts'"
  shows "parts' = parts\<lparr>fp_rules := fp_rules parts', fp_members := fp_members parts'\<rparr>"
proof -
  have "fp_records parts' = fp_records parts" "fp_wants parts' = fp_wants parts" "fp_pending parts' = fp_pending parts"
    "fp_held parts' = fp_held parts" "fp_deferred parts' = fp_deferred parts" "fp_id parts' = fp_id parts"
    using assms by (auto intro!: bm_ext simp: carries_def)
  moreover have "fp_rest parts' = fp_rest parts" using assms unfolding carries_def by (metis option.inject)
  ultimately show ?thesis by simp
qed

lemma own_parts_carry: "fo_ok f \<Longrightarrow> carries (host_rows_of f) (fo_id f) (folder_parts_of f)"
  using parts_stored [of f] by (simp add: stored_as_def carries_def)

lemma mirror_parts_carry: "mirror_parts fid m = Some parts \<Longrightarrow> carries (rows_in m fid) fid parts"
  by (auto simp: mirror_parts_def carries_def rows_in_def table_rows_def split: option.splits)

lemma mirror_parts_iff: "mirror_parts fid m = None \<longleftrightarrow> hr_rest (rows_in m fid) = None"
  by (auto simp: mirror_parts_def rows_in_def table_rows_def no_rows_def split: option.splits)

text \<open>The rows of every folder are none, or those of a sound folder.\<close>

definition restorable :: "mirror \<Rightarrow> bool" where
  "restorable m \<longleftrightarrow> (\<forall>fid. rows_in m fid = no_rows \<or>
     (\<exists>f. fo_ok f \<and> unlogged f \<and> fo_id f = fid \<and> rows_in m fid = host_rows_of f))"

lemma at_rest_same [simp]:
  "host_rows_of (at_rest f) = host_rows_of f" "unlogged (at_rest f) = unlogged f" "fo_id (at_rest f) = fo_id f"
  "folder_rest (at_rest f) = folder_rest f"
  by (simp_all add: at_rest_def host_rows_of_def unlogged_def folder_rest_def files_def wl_get_def fun_eq_iff)

lemma at_rest_ok: "fo_ok f \<Longrightarrow> fo_ok (at_rest f)"
  by (simp add: fo_ok_def at_rest_def wl_ok_def wl_get_def)

text \<open>The folder a restart makes of stored parts, before it starts again what was under way.\<close>

lemma restored_from:
  assumes f: "fo_ok f" "unlogged f" "fo_id f = fid" and parts: "carries (host_rows_of f) fid parts"
    and g_def: "g = folder_from_parts parts own host"
  shows "fo_ok g" and "unlogged g" and "fo_id g = fid" and "host_rows_of g = host_rows_of f"
proof -
  define f' where "f' = f\<lparr>fo_rules := fp_rules parts, fo_members := fp_members parts,
    fo_index := (fo_index f)\<lparr>ix_own := own, ix_host := host\<rparr>\<rparr>"
  have rows: "host_rows_of f' = host_rows_of f" "unlogged f' = unlogged f" "fo_id f' = fo_id f"
    by (simp_all add: f'_def host_rows_of_def unlogged_def files_def ix_at_def ix_row_def folder_rest_def fun_eq_iff)
  have ok: "fo_ok f'" using f(1) by (simp add: f'_def fo_ok_def ix_ok_def held_def)
  have "stored_as f' (host_rows_of f') parts"
    using parts f(3) by (simp add: stored_as_def carries_def rows) (simp add: f'_def)
  from restored_folder [OF ok _ this] f(2) have g: "g = at_rest f'"
    by (simp add: g_def rows) (simp add: f'_def)
  show "fo_ok g" "unlogged g" "fo_id g = fid" "host_rows_of g = host_rows_of f"
    using at_rest_ok [OF ok] f by (simp_all add: g rows)
qed

lemma restarted_logs: "wl_ok wl \<Longrightarrow> wl_logs wl (restarted wl)"
proof -
  assume ok: "wl_ok wl"
  define step where "step = (\<lambda>wl p. case wl_get wl p of
      Some w \<Rightarrow> wl_restore w (wl\<lparr>wl_wants := bm_remove p (wl_wants wl)\<rparr>) | None \<Rightarrow> wl)"
  have one: "wl_logs wl (step wl p) \<and> (\<forall>q w. wl_get (step wl p) q = Some w \<longrightarrow> w_path w = q)"
    if "\<forall>q w. wl_get wl q = Some w \<longrightarrow> w_path w = q" for wl p
  proof (cases "wl_get wl p")
    case (Some w)
    with that have "e_path (w_entry w) = p" by (simp add: w_path_def)
    with that Some show ?thesis by (auto simp: step_def wl_restore_def Let_def w_path_def wl_logs_iff)
  qed (use that in \<open>simp add: step_def\<close>)
  have fold: "wl_logs wl (foldl step wl ps)" if "\<forall>q w. wl_get wl q = Some w \<longrightarrow> w_path w = q" for wl ps
    using that
  proof (induction ps arbitrary: wl)
    case (Cons p ps)
    from one [OF Cons.prems, of p] Cons.IH [of "step wl p"] show ?case by (auto intro: wl_logs_trans)
  qed simp
  have "\<forall>q w. wl_get (wl\<lparr>wl_released := bm_empty\<rparr>) q = Some w \<longrightarrow> w_path w = q"
    using ok by (simp add: wl_ok_def want_ok_def wl_get_def)
  from fold [OF this, of "bm_keys (wl_wants wl)"] show ?thesis
    by (simp add: restarted_def step_def wl_logs_iff wl_get_def)
qed

lemma restarted_behind:
  assumes ok: "fo_ok g" and logs: "unlogged g"
  shows "behind (host_rows_of g) (fo_restarted now g)" and "folder_rest (fo_restarted now g) = folder_rest g"
    and "fo_ok (fo_restarted now g)" and "fo_id (fo_restarted now g) = fo_id g"
proof -
  have wants: "wl_logs (fo_wants g) (restarted (fo_wants g))" using ok restarted_logs by (simp add: fo_ok_def)
  have parts: "fo_index (fo_restarted now g) = fo_index g" "fo_quarantine (fo_restarted now g) = fo_quarantine g"
    "fo_deferred (fo_restarted now g) = fo_deferred g" "fo_wants (fo_restarted now g) = restarted (fo_wants g)"
    "fo_id (fo_restarted now g) = fo_id g" "fo_acked (fo_restarted now g) = fo_acked g"
    "fo_paused (fo_restarted now g) = fo_paused g" "fo_queued (fo_restarted now g) = fo_queued g"
    "fo_winner_fallbacks (fo_restarted now g) = fo_winner_fallbacks g" "fo_disk_full (fo_restarted now g) = fo_disk_full g"
    by (simp_all add: fo_restarted_def fo_touched_def Let_def)
  show "fo_id (fo_restarted now g) = fo_id g" "folder_rest (fo_restarted now g) = folder_rest g"
    by (simp_all add: parts folder_rest_def)
  show "fo_ok (fo_restarted now g)" using keepsD(1) [OF fo_restarted_keeps ok] .
  show "behind (host_rows_of g) (fo_restarted now g)"
    using logs wants by (auto simp: behind_def parts unlogged_def host_rows_of_def files_def wl_logs_def logged_def)
qed

lemma restore_fold:
  assumes "distinct (map fp_id ps)"
  shows "bm_get (en_folders (foldl (restore_one now) e ps)) fid =
      (case find (\<lambda>p. fp_id p = fid) ps of
         Some p \<Rightarrow> Some (fo_restarted now (folder_from_parts p (nc_node_id (en_config e)) (nc_author_host (en_config e))))
       | None \<Rightarrow> bm_get (en_folders e) fid)"
    and "bm_get (en_rested (foldl (restore_one now) e ps)) fid =
      (case find (\<lambda>p. fp_id p = fid) ps of
         Some p \<Rightarrow> Some (folder_rest (fo_restarted now
           (folder_from_parts p (nc_node_id (en_config e)) (nc_author_host (en_config e)))))
       | None \<Rightarrow> bm_get (en_rested e) fid)"
proof -
  have id: "fo_id (fo_restarted now (folder_from_parts p own host)) = fp_id p" for p own host
    by (simp add: fo_restarted_def fo_touched_def Let_def folder_from_parts_def)
  have absent: "find (\<lambda>p. fp_id p = fid) ps = None" if "fid \<notin> fp_id ` set ps" for ps
    using that by (auto simp: find_None_iff)
  have "bm_get (en_folders (foldl (restore_one now) e ps)) fid = (case find (\<lambda>p. fp_id p = fid) ps of
         Some p \<Rightarrow> Some (fo_restarted now (folder_from_parts p (nc_node_id (en_config e)) (nc_author_host (en_config e))))
       | None \<Rightarrow> bm_get (en_folders e) fid) \<and>
     bm_get (en_rested (foldl (restore_one now) e ps)) fid = (case find (\<lambda>p. fp_id p = fid) ps of
         Some p \<Rightarrow> Some (folder_rest (fo_restarted now
           (folder_from_parts p (nc_node_id (en_config e)) (nc_author_host (en_config e)))))
       | None \<Rightarrow> bm_get (en_rested e) fid)"
    using assms
  proof (induction ps arbitrary: e)
    case (Cons p ps)
    then show ?case using absent [of ps] by (auto simp: restore_one_def Let_def id split: option.splits)
  qed simp
  then show "bm_get (en_folders (foldl (restore_one now) e ps)) fid =
      (case find (\<lambda>p. fp_id p = fid) ps of
         Some p \<Rightarrow> Some (fo_restarted now (folder_from_parts p (nc_node_id (en_config e)) (nc_author_host (en_config e))))
       | None \<Rightarrow> bm_get (en_folders e) fid)"
    and "bm_get (en_rested (foldl (restore_one now) e ps)) fid =
      (case find (\<lambda>p. fp_id p = fid) ps of
         Some p \<Rightarrow> Some (folder_rest (fo_restarted now
           (folder_from_parts p (nc_node_id (en_config e)) (nc_author_host (en_config e)))))
       | None \<Rightarrow> bm_get (en_rested e) fid)" by blast+
qed

text \<open>The parts a start loads, each under its own id.\<close>

definition loaded :: "mirror \<Rightarrow> folder_parts list" where
  "loaded m = List.map_filter (\<lambda>fid. mirror_parts fid m) (mirror_folder_ids m)"

lemma mirror_parts_id: "mirror_parts fid m = Some p \<Longrightarrow> fp_id p = fid"
  by (auto simp: mirror_parts_def split: option.splits)

lemma loaded_ids: "distinct (map fp_id (loaded m))"
proof -
  have sub: "distinct (map fp_id (List.map_filter (\<lambda>fid. mirror_parts fid m) fids)) \<and>
      set (map fp_id (List.map_filter (\<lambda>fid. mirror_parts fid m) fids)) \<subseteq> set fids" if "distinct fids" for fids
    using that by (induction fids) (auto dest: mirror_parts_id split: option.split)
  have "distinct (mirror_folder_ids m)" by (simp add: mirror_folder_ids_def bm_keys_def bm.entries_distinct)
  with sub show ?thesis by (simp add: loaded_def)
qed

lemma loaded_find: "find (\<lambda>p. fp_id p = fid) (loaded m) = mirror_parts fid m"
proof (cases "mirror_parts fid m")
  case None
  then show ?thesis
    by (auto simp: find_None_iff loaded_def map_filter_def) (metis mirror_parts_id option.distinct(1))
next
  case (Some p)
  then have "bm_get (mi_folders m) fid \<noteq> None" by (auto simp: mirror_parts_def split: option.splits)
  then have "fid \<in> set (mirror_folder_ids m)" by (simp add: mirror_folder_ids_def in_bm_keys bm_has_iff)
  with Some have p: "p \<in> set (loaded m)" by (force simp: loaded_def map_filter_def)
  have id: "fp_id p = fid" by (rule mirror_parts_id [OF Some])
  then obtain q where q: "find (\<lambda>p. fp_id p = fid) (loaded m) = Some q"
    using id p by (cases "find (\<lambda>p. fp_id p = fid) (loaded m)") (auto simp: find_None_iff)
  then have "q \<in> set (loaded m)" "fp_id q = fid" by (auto simp: find_Some_iff)
  with p id loaded_ids [of m] have "q = p" by (auto simp: distinct_map inj_on_def)
  with q Some show ?thesis by simp
qed

text \<open>This machine is a member of every folder it recorded.\<close>

definition joined_all :: "node_config \<Rightarrow> mirror \<Rightarrow> bool" where
  "joined_all config m \<longleftrightarrow>
     (\<forall>fid t. bm_get (mi_folders m) fid = Some t \<longrightarrow> bm_has (mt_members t) (nc_node_id config))"

lemma opens_all:
  assumes S: "db_stands J db m" and J: "json_ok J" and joined: "joined_all config m"
  obtains s where "daemon_open J config now db = Inr s" "sd_engine s = engine_restore config (loaded m) now"
proof -
  define rows where "rows = map mt_row (bm_values (mi_folders m))"
  have row: "\<exists>od. open_row (nc_node_id config) (loaded m) db row = Inr (Some od)" if "row \<in> set rows" for row
  proof -
    from that obtain fid t where t: "bm_get (mi_folders m) fid = Some t" "row = mt_row t"
      by (auto simp: rows_def bm_values_def in_bm_entries)
    then have fid: "fr_id row = fid"
      using S by (auto simp: db_stands_def stands_def folder_row_ok_def folder_ok_def)
    have T: "tables_stand J db fid t" by (rule db_standsD(3) [OF S t(1)])
    have "bm_has (mt_members t) (nc_node_id config)" using joined t(1) by (auto simp: joined_all_def)
    then have "nc_node_id config \<in> set (map mb_node (bm_values (mt_members t)))"
      by (simp add: read_parts(7) [OF T] in_bm_keys)
    then have "find (\<lambda>m. mb_node m = nc_node_id config) (bm_values (mt_members t)) \<noteq> None"
      by (auto simp: find_None_iff)
    then show ?thesis by (auto simp: open_row_def fid read_tables [OF T])
  qed
  define od where "od row = (SOME od. open_row (nc_node_id config) (loaded m) db row = Inr (Some od))" for row
  have found: "try_all (open_row (nc_node_id config) (loaded m) db) rows = Inr (map (\<lambda>row. Some (od row)) rows)"
    by (rule try_all_map) (use row in \<open>auto simp: od_def intro: someI_ex\<close>)
  have left: "{x \<in> set (zip (map fr_id rows) (map (\<lambda>row. Some (od row)) rows)). case x of (i, x) \<Rightarrow> x = None} = {}"
    by (auto simp: set_zip)
  have load: "store_load J db = Inr (loaded m)" using read_all_parts(2) [OF S J] by (simp add: loaded_def)
  have "\<exists>s. daemon_open J config now db = Inr s \<and> sd_engine s = engine_restore config (loaded m) now"
    using read_folders(1,2) [OF S]
    by (simp add: daemon_open_def load rows_def [symmetric] found left Let_def)
  then show thesis using that by blast
qed

lemma start_trails:
  assumes "restorable m"
  shows "in_line (rows_in m) (rows_in m) (engine_restore config (loaded m) now)"
proof -
  define e where "e = engine_restore config (loaded m) now"
  define restored where "restored p = fo_restarted now (folder_from_parts p (nc_node_id config) (nc_author_host config))" for p
  have get: "bm_get (en_folders e) fid = map_option restored (mirror_parts fid m)"
    "bm_get (en_rested e) fid = map_option (\<lambda>p. folder_rest (restored p)) (mirror_parts fid m)" for fid
    using restore_fold [OF loaded_ids, of now "engine_new config" m fid]
    by (simp_all add: e_def engine_restore_def loaded_find engine_new_def restored_def split: option.split)
  have at_fid: "behind (rows_in m fid) (restored p) \<and> Some (folder_rest (restored p)) = hr_rest (rows_in m fid) \<and>
      fo_ok (restored p) \<and> fo_id (restored p) = fid" if p: "mirror_parts fid m = Some p" for fid p
  proof -
    have c: "carries (rows_in m fid) fid p" by (rule mirror_parts_carry [OF p])
    then have "rows_in m fid \<noteq> no_rows" by (auto simp: carries_def no_rows_def)
    then obtain f where f: "fo_ok f" "unlogged f" "fo_id f = fid" "rows_in m fid = host_rows_of f"
      using assms by (auto simp: restorable_def)
    define g where "g = folder_from_parts p (nc_node_id config) (nc_author_host config)"
    note g = restored_from [OF f(1-3) c [unfolded f(4)] g_def]
    note r = restarted_behind [OF g(1,2), of now]
    have "hr_rest (host_rows_of g) = Some (folder_rest g)" by (simp add: host_rows_of_def)
    with g r show ?thesis by (simp add: restored_def g_def [symmetric] f(4))
  qed
  have "trails (rows_in m) e"
    unfolding trails_def
  proof
    fix fid
    show "hr_rest (rows_in m fid) = bm_get (en_rested e) fid \<and>
      (case bm_get (en_folders e) fid of Some f \<Rightarrow> behind (rows_in m fid) f | None \<Rightarrow> rows_in m fid = no_rows)"
    proof (cases "mirror_parts fid m")
      case None
      then have "hr_rest (rows_in m fid) = None" by (simp add: mirror_parts_iff)
      then have "rows_in m fid = no_rows"
        using assms by (force simp: restorable_def host_rows_of_def dest!: spec [of _ fid])
      with None show ?thesis by (simp add: get no_rows_def)
    next
      case (Some p)
      with at_fid [OF Some] show ?thesis by (simp add: get)
    qed
  qed
  moreover have "en_sound e"
    using at_fid by (auto simp: en_sound_def get)
  ultimately show ?thesis by (simp add: in_line_def e_def)
qed

section \<open>Over every life of the daemon\<close>

text \<open>The stores there can be, with their reference: an empty one, and what any run of a daemon on one of them
  leaves, wherever it is cut short. What is written to a folder was recorded first, and what is written is what
  the types of the code allow.\<close>

inductive lives :: "'j json \<Rightarrow> node_config \<Rightarrow> 'j db \<Rightarrow> mirror \<Rightarrow> bool" for J :: "'j json" and config where
  unborn: "lives J config db_new mirror_new"
| lived: "lives J config db m \<Longrightarrow> joined_all config m \<Longrightarrow> su_config su = config \<Longrightarrow>
    daemon_start J su t ws db = Inr d \<Longrightarrow> daemon_run J d d' \<Longrightarrow>
    mirror_groups (dm_groups d') m \<noteq> None \<Longrightarrow> list_all group_storable (dm_groups d') \<Longrightarrow>
    write_groups J (take n (dm_groups d')) db = Inr (wr_store (dm_writer d')) \<Longrightarrow>
    mirror_groups (take n (dm_groups d')) m = Some m' \<Longrightarrow> lives J config (wr_store (dm_writer d')) m'"

lemma start_points:
  assumes "daemon_start J su t ws db = Inr d" and S: "db_stands J db m" "json_ok J" "joined_all (su_config su) m"
    and "restorable m"
  shows "points_ok (rows_in m) d" and "dm_pending d = []"
proof -
  obtain s where s: "daemon_open J (su_config su) (clock_now (su_clock su) t) db = Inr s"
      "sd_engine s = engine_restore (su_config su) (loaded m) (clock_now (su_clock su) t)"
    by (rule opens_all [OF S])
  have e: "in_line (rows_in m) (rows_in m) (sd_engine s)" using start_trails [OF assms(5)] by (simp add: s(2))
  have "actions_in (gp_writes (host_group now ws)) = []" for now
    by (simp add: host_group_def group_hosts group_new_def)
  then have "rows_after (rows_in m) [host_group now ws] = rows_in m" for now
    using rows_after_simps(2) [of "rows_in m" "[]"] by simp
  with e assms(1) s(1) show "points_ok (rows_in m) d"
    by (auto simp: daemon_start_def points_ok_def submit_def core_of_def Let_def le_Suc_eq)
  show "dm_pending d = []" using assms(1) s(1) by (auto simp: daemon_start_def submit_def Let_def)
qed

lemma in_step_restorable:
  assumes "in_line R0 (rows_in m') e" and "\<And>fid. R0 fid = no_rows \<or>
     (\<exists>f. fo_ok f \<and> unlogged f \<and> fo_id f = fid \<and> R0 fid = host_rows_of f)"
  shows "restorable m'"
  unfolding restorable_def
proof
  fix fid
  show "rows_in m' fid = no_rows \<or> (\<exists>f. fo_ok f \<and> unlogged f \<and> fo_id f = fid \<and> rows_in m' fid = host_rows_of f)"
  proof (cases "in_step (rows_in m') e")
    case True
    then show ?thesis
      using in_stepD [OF True, of fid] assms(1)
      by (cases "bm_get (en_folders e) fid") (auto simp: in_line_def en_sound_def)
  next
    case False
    with assms show ?thesis by (simp add: in_line_def)
  qed
qed

lemma lives_stand:
  assumes "lives J config db m" and J: "json_ok J"
  shows "db_stands J db m \<and> restorable m"
  using assms(1)
proof induction
  case unborn
  have "restorable mirror_new" by (simp add: restorable_def rows_in_def mirror_new_def)
  then show ?case by (simp add: new_stands)
next
  case (lived db m su t ws d d' n m')
  have S: "db_stands J db m" and R: "restorable m" using lived.IH by auto
  have "list_all group_storable (take n (dm_groups d'))"
    using lived.hyps(7) by (auto simp: list_all_iff dest: in_set_takeD)
  from groups_stand_of [OF S J lived.hyps(9) this] lived.hyps(8)
  have stands: "db_stands J (wr_store (dm_writer d')) m'" by auto
  have "joined_all (su_config su) m" using lived.hyps(2,3) by simp
  note P0 = start_points [OF lived.hyps(4) S J this R]
  have P: "points_ok (rows_in m) d'" by (rule run_points [OF lived.hyps(5) P0])
  define k where "k = min n (length (dm_groups d'))"
  have k: "take n (dm_groups d') = take k (dm_groups d')" "k \<le> length (dm_groups d')" by (simp_all add: k_def min_def)
  have "rows_in m' = rows_after (rows_in m) (take k (dm_groups d'))" using groups_rows [OF lived.hyps(9)] by (simp add: k(1))
  then have "in_line (rows_in m) (rows_in m') (dm_points d' ! k)" using P k(2) by (simp add: points_ok_def)
  from in_step_restorable [OF this] R stands show ?case by (auto simp: restorable_def)
qed



text \<open>A sample: a folder recorded by a daemon on an empty store.\<close>

definition sample_setup :: host_setup where
  "sample_setup = \<lparr>su_config = \<lparr>nc_node_id = here, nc_author_host = host0\<rparr>, su_clock = clock_start 0 0,
     su_rescan = 1, su_space_check = 1, su_watcher = False, su_unwatched = (\<lambda>_. False)\<rparr>"

lemma sample_life:
  obtains d d' m where "daemon_start sample_json sample_setup 0 [] db_new = Inr d" "daemon_run sample_json d d'"
    "dm_groups d' = [put_sample]" "wr_resolved (dm_writer d') = [(put_sample, Inr ())]"
    "mirror_groups [put_sample] mirror_new = Some m"
proof -
  obtain s where s: "daemon_open sample_json (su_config sample_setup) (clock_now (su_clock sample_setup) 0) db_new = Inr s"
    by (rule opens_all [OF new_stands sample_json_ok, where config = "su_config sample_setup"])
      (simp_all add: joined_all_def mirror_new_def)
  obtain d where d: "daemon_start sample_json sample_setup 0 [] db_new = Inr d" "\<not> dm_begun d" "dm_groups d = []"
      "dm_writer d = store_writer db_new"
    using s by (simp add: daemon_start_def)
  obtain out c where c: "core_begin 0 (dm_joins d) (dm_core d) = (out, c)" by fastforce
  define d1 where "d1 = d\<lparr>dm_core := c, dm_begun := True, dm_pending := out\<rparr>"
  have 1: "daemon_step sample_json d d1"
    unfolding d1_def by (rule daemon_step.begins [OF d(2) _ _ c]) (simp_all add: d(4) store_writer_def)
  define d2 where "d2 = submit put_sample (last (dm_points d1)) d1"
  have 2: "daemon_step sample_json d1 d2"
    unfolding d2_def
    by (rule daemon_step.journals) (simp_all add: d1_def d(4) store_writer_def host_only_def put_sample_def group_host_def group_new_def)
  have w2: "dm_writer d2 = writer_submit put_sample (store_writer db_new)" by (simp add: d2_def submit_def d1_def d(4))
  define d3 where "d3 = d2\<lparr>dm_writer := writer_round sample_json None 1 (dm_writer d2)\<rparr>"
  have 3: "daemon_step sample_json d2 d3"
    unfolding d3_def by (rule daemon_step.commits) (simp_all add: w2 writer_submit_def store_writer_def)
  obtain m where m: "mirror_groups [put_sample] mirror_new = Some m"
    by (simp add: mirror_groups_def put_sample_def ops_of_def group_host_def group_new_def mirror_apply_def mirror_new_def)
  have "list_all group_storable [put_sample]"
    by (simp add: group_storable_def put_sample_def ops_of_def group_host_def group_new_def wide_folder_def ID_LEN_def)
  from groups_stand_of [OF new_stands sample_json_ok m this] obtain db
    where "write_groups sample_json [put_sample] db_new = Inr db" by blast
  then have "wr_resolved (dm_writer d3) = [(put_sample, Inr ())]"
    by (simp add: d3_def w2 writer_round_def writer_submit_def store_writer_def resolve_all_def commit_or_fail_def
        store_commit_def group_is_empty_def put_sample_def group_host_def group_new_def)
  moreover have "dm_groups d3 = [put_sample]" by (simp add: d3_def d2_def submit_def d1_def d(3))
  moreover have "daemon_run sample_json d d3" using 1 2 3 by (meson converse_rtranclp_into_rtranclp rtranclp.rtrancl_refl)
  ultimately show thesis using that [OF d(1) _ _ _ m] by blast
qed

lemma sample_storable: "list_all group_storable [put_sample]"
  by (simp add: group_storable_def put_sample_def ops_of_def group_host_def group_new_def wide_folder_def ID_LEN_def)



end
