(* ===== verification/Frames.thy ===== *)
theory Frames
  imports Engines
begin

text \<open>
  \<open>crates/delocal/src/net/wire.rs\<close>, \<open>frame.rs\<close> and \<open>conn.rs\<close>: the messages between two machines, the envelope
  the engine's travel in, the frames that carry them, and one connection's handshake, reading and writing. The
  serialiser (\<open>postcard\<close>) is a parameter. What a socket brings is a list of arrivals: bytes, a silence longer
  than the reader's limit, or an error; after the last the stream has ended. Sleeping and the pause a reader
  makes before it closes are not modelled.
\<close>

section \<open>Messages\<close>

record hello =
  hl_proto :: "32 word"
  hl_node :: node_id
  hl_hostname :: host_name
  hl_version :: string
  hl_now :: timestamp

datatype code = CoProtocol | CoDuplicate | CoUnknown "32 word"

definition code_from :: "32 word \<Rightarrow> code" where
  "code_from n = (if n = 0 then CoProtocol else if n = 1 then CoDuplicate else CoUnknown n)"

fun code_into :: "code \<Rightarrow> 32 word" where
  "code_into CoProtocol = 0"
| "code_into CoDuplicate = 1"
| "code_into (CoUnknown n) = n"

record reason =
  rn_code :: code
  rn_text :: string

definition reason_protocol :: reason where
  "reason_protocol = \<lparr>rn_code = CoProtocol, rn_text = ''another protocol version''\<rparr>"

definition reason_duplicate :: reason where
  "reason_duplicate = \<lparr>rn_code = CoDuplicate, rn_text = ''a duplicate connection''\<rparr>"

record folder_meta =
  fm_folder :: folder_id
  fm_name :: string
  fm_members :: "node_id list"
  fm_rules :: rules
  fm_meta_version :: u64
  fm_have_up_to :: nat

type_synonym request_id = u64

datatype message =
    MHello hello
  | MGoodbye reason
  | MFolderMeta folder_meta
  | MBatch batch
  | MBatchDecision batch_decision
  | MRequestFile request_id folder_id rel_path content_hash u64
  | MFileData request_id u64 "byte list"
  | MFileDone request_id
  | MNotAvailable request_id
  | MCancelRequest request_id
  | MPing
  | MPong

definition PROTOCOL :: "32 word" where
  "PROTOCOL = 1"

fun envelope :: "outbound \<Rightarrow> (folder_id \<Rightarrow> folder_meta option) \<Rightarrow> message option" where
  "envelope (OBatch b) meta = Some (MBatch b)"
| "envelope (ODecision d) meta = Some (MBatchDecision d)"
| "envelope (OHaveUpTo fid seq) meta =
     map_option (\<lambda>m. MFolderMeta (m\<lparr>fm_folder := fid, fm_have_up_to := seq\<rparr>)) (meta fid)"

fun message_event :: "node_id \<Rightarrow> message \<Rightarrow> event option" where
  "message_event peer (MBatch b) = Some (EvBatchReceived peer b)"
| "message_event peer (MBatchDecision d) = Some (EvDecisionReceived peer d)"
| "message_event peer (MFolderMeta m) = Some (EvHaveUpToReceived peer (fm_folder m) (fm_have_up_to m))"
| "message_event peer _ = None"

section \<open>Frames\<close>

text \<open>\<open>to_extend\<close> and \<open>take_from_bytes\<close>.\<close>

record postcard =
  pc_encode :: "message \<Rightarrow> byte list option"
  pc_take :: "byte list \<Rightarrow> (message \<times> byte list) option"

definition postcard_ok :: "postcard \<Rightarrow> bool" where
  "postcard_ok pc \<longleftrightarrow> (\<forall>m b rest. pc_encode pc m = Some b \<longrightarrow> pc_take pc (b @ rest) = Some (m, rest))"

datatype frame_error = Closed | Truncated | TooLarge "32 word" | Oversize nat | Malformed | Idle | FrameIo

definition MAX_FRAME :: nat where
  "MAX_FRAME = 16 * 1024 * 1024"

definition KEEP :: nat where
  "KEEP = 2 * 1024 * 1024"

definition HEADER :: nat where
  "HEADER = 4"

definition frame_encode :: "postcard \<Rightarrow> message \<Rightarrow> frame_error + byte list" where
  "frame_encode pc m =
     (case pc_encode pc m of
        None \<Rightarrow> Inl Malformed
      | Some body \<Rightarrow> if MAX_FRAME < length body then Inl (Oversize (length body))
          else Inr (nat_to_be HEADER (length body) @ body))"

datatype arrival = Arrives "byte list" | Silence | Broken

text \<open>A reader: the bytes its buffer holds room for, and what is still to come.\<close>

record reader =
  rd_silence :: bool
  rd_capacity :: nat
  rd_stream :: "arrival list"

definition reader_new :: "bool \<Rightarrow> arrival list \<Rightarrow> reader" where
  "reader_new silence s = \<lparr>rd_silence = silence, rd_capacity = 0, rd_stream = s\<rparr>"

text \<open>\<open>fill\<close>: one read of at most \<open>room\<close> bytes, none at the end of the stream.\<close>

fun frame_fill :: "bool \<Rightarrow> nat \<Rightarrow> arrival list \<Rightarrow> (frame_error + byte list) \<times> arrival list" where
  "frame_fill silence room [] = (Inr [], [])"
| "frame_fill silence room (Arrives [] # s) = frame_fill silence room s"
| "frame_fill silence room (Arrives (b # bs) # s) =
     (Inr (take room (b # bs)), if length (b # bs) \<le> room then s else Arrives (drop room (b # bs)) # s)"
| "frame_fill silence room (Silence # s) = (if silence then (Inl Idle, s) else frame_fill silence room s)"
| "frame_fill silence room (Broken # s) = (Inl FrameIo, s)"

text \<open>The two loops of \<open>read\<close>: until \<open>need\<close> bytes are there. \<open>none\<close> is the error of a stream that ends before the
  first.\<close>

function read_up :: "bool \<Rightarrow> frame_error \<Rightarrow> nat \<Rightarrow> byte list \<Rightarrow> arrival list \<Rightarrow> (frame_error + byte list) \<times> arrival list" where
  "read_up silence none need got s =
     (if need \<le> length got then (Inr got, s)
      else case frame_fill silence (need - length got) s of
             (Inl e, s) \<Rightarrow> (Inl e, s)
           | (Inr [], s) \<Rightarrow> (Inl (if got = [] then none else Truncated), s)
           | (Inr (b # bs), s) \<Rightarrow> read_up silence none need (got @ b # bs) s)"
  by pat_completeness auto
termination by (relation "measure (\<lambda>(silence, none, need, got, s). need - length got)") auto

declare read_up.simps [simp del]

definition frame_read :: "postcard \<Rightarrow> reader \<Rightarrow> (frame_error + message) \<times> reader" where
  "frame_read pc rd =
     (case read_up (rd_silence rd) Closed HEADER [] (rd_stream rd) of
        (Inl e, s) \<Rightarrow> (Inl e, rd\<lparr>rd_stream := s\<rparr>)
      | (Inr header, s) \<Rightarrow>
         (let len = be_to_nat header in
          if MAX_FRAME < len then (Inl (TooLarge (of_nat len)), rd\<lparr>rd_stream := s\<rparr>)
          else
            let capacity = max (rd_capacity rd) len in
            case read_up (rd_silence rd) Truncated len [] s of
              (Inl e, s) \<Rightarrow> (Inl e, rd\<lparr>rd_stream := s, rd_capacity := capacity\<rparr>)
            | (Inr body, s) \<Rightarrow>
               (case pc_take pc body of Some (m, _) \<Rightarrow> Inr m | None \<Rightarrow> Inl Malformed,
                rd\<lparr>rd_stream := s, rd_capacity := if KEEP < capacity then 0 else capacity\<rparr>)))"

section \<open>What a stream still brings\<close>

text \<open>Its bytes, before any silence or error.\<close>

fun plain :: "arrival list \<Rightarrow> byte list option" where
  "plain [] = Some []"
| "plain (Arrives bs # s) = map_option ((@) bs) (plain s)"
| "plain (Silence # s) = None"
| "plain (Broken # s) = None"

fun stream_size :: "arrival list \<Rightarrow> nat" where
  "stream_size [] = 0"
| "stream_size (Arrives bs # s) = length bs + stream_size s"
| "stream_size (a # s) = stream_size s"

lemma fill_size: "frame_fill silence room s = (r, s') \<Longrightarrow>
    stream_size s' + (case r of Inl e \<Rightarrow> 0 | Inr bs \<Rightarrow> length bs) \<le> stream_size s"
  by (induction silence room s rule: frame_fill.induct) (auto split: if_splits)

lemma read_up_size: "read_up silence none need got s = (Inr bs, s') \<Longrightarrow>
    need \<le> length bs \<and> stream_size s' + length bs \<le> stream_size s + length got"
proof (induction silence none need got s rule: read_up.induct)
  case (1 silence none need got s)
  show ?case
  proof (cases "need \<le> length got")
    case True
    with 1(2) show ?thesis by (simp add: read_up.simps)
  next
    case False
    obtain r s1 where f: "frame_fill silence (need - length got) s = (r, s1)" by fastforce
    show ?thesis
      using 1(2) False f 1(1) [OF False f [symmetric]] fill_size [OF f]
      by (subst (asm) read_up.simps) (auto split: sum.splits list.splits)
  qed
qed

lemma frame_read_size: "frame_read pc rd = (Inr m, rd') \<Longrightarrow> stream_size (rd_stream rd') < stream_size (rd_stream rd)"
  by (auto simp: frame_read_def Let_def HEADER_def dest!: read_up_size split: prod.splits sum.splits if_splits option.splits)

section \<open>Connections\<close>

datatype out = OutMessage message | OutGoodbye reason

datatype refused = RfProtocol hello | RfGoodbye reason | RfNotHello | RfMyself | RfFrame frame_error

datatype conn_end = TheySaid reason | WeSaid reason | Silent | SecondHello | Lost frame_error | Dropped

text \<open>\<open>handshake\<close>, with what was written; \<open>wrote\<close> is the outcome of writing our \<open>Hello\<close>.\<close>

definition handshake :: "postcard \<Rightarrow> frame_error option \<Rightarrow> hello \<Rightarrow> reader \<Rightarrow> (refused + hello) \<times> message list \<times> reader" where
  "handshake pc wrote me rd =
     (case wrote of
        Some e \<Rightarrow> (Inl (RfFrame e), [], rd)
      | None \<Rightarrow>
         (case frame_read pc rd of
            (Inl e, rd) \<Rightarrow> (Inl (RfFrame e), [MHello me], rd)
          | (Inr (MHello h), rd) \<Rightarrow>
              if hl_proto h \<noteq> hl_proto me then
                (Inl (RfProtocol h), [MHello me, MGoodbye reason_protocol], rd)
              else if hl_node h = hl_node me then (Inl RfMyself, [MHello me], rd)
              else (Inr h, [MHello me], rd)
          | (Inr (MGoodbye r), rd) \<Rightarrow> (Inl (RfGoodbye r), [MHello me], rd)
          | (Inr _, rd) \<Rightarrow> (Inl RfNotHello, [MHello me], rd)))"

text \<open>The reading half: what it passes to the hub, how many \<open>Pong\<close>s it queues, and how it ends. The hub takes
  \<open>room\<close> messages before it is gone.\<close>

function conn_reading :: "postcard \<Rightarrow> nat \<Rightarrow> reader \<Rightarrow> message list \<times> nat \<times> conn_end" where
  "conn_reading pc room rd =
     (case frame_read pc rd of
        (Inl Idle, rd) \<Rightarrow> ([], 0, Silent)
      | (Inl e, rd) \<Rightarrow> ([], 0, Lost e)
      | (Inr MPing, rd) \<Rightarrow> (let (passed, pongs, fin) = conn_reading pc room rd in (passed, Suc pongs, fin))
      | (Inr MPong, rd) \<Rightarrow> conn_reading pc room rd
      | (Inr (MGoodbye r), rd) \<Rightarrow> ([], 0, TheySaid r)
      | (Inr (MHello h), rd) \<Rightarrow> ([], 0, SecondHello)
      | (Inr m, rd) \<Rightarrow> if room = 0 then ([], 0, Dropped)
          else (let (passed, pongs, fin) = conn_reading pc (room - 1) rd in (m # passed, pongs, fin)))"
  by pat_completeness auto
termination by (relation "measure (\<lambda>(pc, room, rd). stream_size (rd_stream rd))") (auto dest: sym [THEN frame_read_size])

declare conn_reading.simps [simp del]

text \<open>The writing half: what it writes of a queue, the pings among it. With each goes, if the socket failed on it, how
  many of its bytes went before.\<close>

definition written :: "nat option \<Rightarrow> byte list \<Rightarrow> byte list" where
  "written failed bs = (case failed of None \<Rightarrow> bs | Some n \<Rightarrow> take n bs)"

fun conn_writing :: "postcard \<Rightarrow> (out \<times> nat option) list \<Rightarrow> byte list \<times> conn_end" where
  "conn_writing pc [] = ([], Dropped)"
| "conn_writing pc ((OutGoodbye r, failed) # items) =
     (case frame_encode pc (MGoodbye r) of Inr bs \<Rightarrow> written failed bs | Inl e \<Rightarrow> [], WeSaid r)"
| "conn_writing pc ((OutMessage m, failed) # items) =
     (case frame_encode pc m of
        Inl (Oversize n) \<Rightarrow> conn_writing pc items
      | Inl e \<Rightarrow> ([], Lost e)
      | Inr bs \<Rightarrow> if failed = None then (let (rest, fin) = conn_writing pc items in (bs @ rest, fin))
          else (written failed bs, Lost FrameIo))"

end
