(* ===== verification/FrameViews.thy ===== *)
theory FrameViews
  imports Frames Codecs
begin

text \<open>
  What the connections of \<open>Frames\<close> promise: frames come back as they were written, however the bytes arrive; what
  one end writes the other reads, in order; a reader holds no more than its cap; and both ends of a handshake
  come to the same.
\<close>

section \<open>Reading a plain stream\<close>

lemma fill_plain:
  assumes "plain s = Some bs" and "0 < room"
  shows "\<exists>cs s'. frame_fill silence room s = (Inr cs, s') \<and> plain s' = Some (drop (length cs) bs) \<and>
    cs = take (length cs) bs \<and> length cs \<le> room \<and> (cs = [] \<longrightarrow> bs = [])"
  using assms
proof (induction silence room s arbitrary: bs rule: frame_fill.induct)
  case (3 silence room b cs s)
  then obtain rest where rest: "plain s = Some rest" by auto
  have "take room (b # cs @ rest) = take room (b # cs)" "drop room (b # cs @ rest) = drop room (b # cs) @ rest"
    if "\<not> Suc (length cs) \<le> room"
    using that by (cases room; simp)+
  with 3 rest show ?case by (auto simp: min_def)
qed auto

lemma read_up_plain:
  assumes "plain s = Some bs" and "length got \<le> need"
  shows "\<exists>s'. read_up silence none need got s =
      (if need \<le> length got + length bs then (Inr (got @ take (need - length got) bs), s')
       else (Inl (if got @ bs = [] then none else Truncated), s')) \<and>
    (need \<le> length got + length bs \<longrightarrow> plain s' = Some (drop (need - length got) bs))"
  using assms
proof (induction silence none need got s arbitrary: bs rule: read_up.induct)
  case (1 silence none need got s)
  show ?case
  proof (cases "need \<le> length got")
    case True
    with 1 show ?thesis by (simp add: read_up.simps)
  next
    case False
    then obtain cs s1 where f: "frame_fill silence (need - length got) s = (Inr cs, s1)"
        "plain s1 = Some (drop (length cs) bs)" "cs = take (length cs) bs" "length cs \<le> need - length got"
        "cs = [] \<longrightarrow> bs = []"
      using fill_plain [OF 1(2), of "need - length got" silence] by auto
    show ?thesis
    proof (cases cs)
      case Nil
      with False f(1,5) show ?thesis by (simp add: read_up.simps)
    next
      case (Cons c cs')
      have len: "length (got @ c # cs') \<le> need" "length cs \<le> length bs"
        using f(3,4) Cons False by (auto simp: min_def dest: arg_cong [of _ _ length])
      obtain t where t: "bs = cs @ t" using f(3) by (metis append_take_drop_id)
      obtain k where k: "need = length got + Suc (length cs') + k"
        using le_Suc_ex [OF len(1)] by auto
      from 1(1) [OF False f(1) [symmetric] refl Cons f(2) len(1)]
      show ?thesis
        using f(1) Cons by (subst read_up.simps) (auto simp: t k)
    qed
  qed
qed

lemma fill_len: "frame_fill silence room s = (Inr bs, s') \<Longrightarrow> length bs \<le> room"
  by (induction silence room s rule: frame_fill.induct) (auto split: if_splits)

lemma fill_errors: "frame_fill silence room s = (Inl e, s') \<Longrightarrow> e = Idle \<or> e = FrameIo"
  by (induction silence room s rule: frame_fill.induct) (auto split: if_splits)

lemma read_up_len: "read_up silence none need got s = (Inr bs, s') \<Longrightarrow> length got \<le> need \<Longrightarrow> length bs = need"
proof (induction silence none need got s rule: read_up.induct)
  case (1 silence none need got s)
  obtain r s1 where f: "frame_fill silence (need - length got) s = (r, s1)" by fastforce
  show ?case
    using 1(2,3) 1(1) [OF _ f [symmetric]] f fill_len [of silence "need - length got" s]
    by (subst (asm) read_up.simps) (auto split: sum.splits list.splits if_splits)
qed

lemma read_up_errors: "read_up silence none need got s = (Inl (TooLarge n), s') \<Longrightarrow> none = TooLarge n"
proof (induction silence none need got s rule: read_up.induct)
  case (1 silence none need got s)
  obtain r s1 where f: "frame_fill silence (need - length got) s = (r, s1)" by fastforce
  show ?case
    using 1(2) 1(1) [OF _ f [symmetric]] f fill_errors [of silence "need - length got" s]
    by (subst (asm) read_up.simps) (auto split: sum.splits list.splits if_splits)
qed

lemma be_header: "length bs \<le> MAX_FRAME \<Longrightarrow> be_to_nat (nat_to_be HEADER (length bs)) = length bs"
  by (simp add: be_to_nat_to_be HEADER_def MAX_FRAME_def)

lemma encode_parts:
  assumes "frame_encode pc m = Inr f"
  obtains body where "pc_encode pc m = Some body" "length body \<le> MAX_FRAME" "f = nat_to_be HEADER (length body) @ body"
  using assms by (auto simp: frame_encode_def split: option.splits if_splits)

text \<open>A frame is read back as the message it was made of, and what follows stays.\<close>

lemma frame_read_frame:
  assumes "postcard_ok pc" and "frame_encode pc m = Inr f" and "plain (rd_stream rd) = Some (f @ rest)"
  shows "\<exists>rd'. frame_read pc rd = (Inr m, rd') \<and> plain (rd_stream rd') = Some rest \<and> rd_silence rd' = rd_silence rd"
proof -
  from assms(2) obtain body where body: "pc_encode pc m = Some body" "length body \<le> MAX_FRAME"
    "f = nat_to_be HEADER (length body) @ body" by (rule encode_parts)
  obtain s1 where s1: "read_up (rd_silence rd) Closed HEADER [] (rd_stream rd) = (Inr (nat_to_be HEADER (length body)), s1)"
      "plain s1 = Some (body @ rest)"
    using read_up_plain [OF assms(3), of "[]" HEADER "rd_silence rd" Closed] body(3) by auto
  obtain s2 where s2: "read_up (rd_silence rd) Truncated (length body) [] s1 = (Inr body, s2)" "plain s2 = Some rest"
    using read_up_plain [OF s1(2), of "[]" "length body" "rd_silence rd" Truncated] by auto
  have "pc_take pc body = Some (m, [])" using assms(1) body(1) unfolding postcard_ok_def by (metis append_Nil2)
  with s1 s2 body(2) show ?thesis by (simp add: frame_read_def be_header Let_def)
qed

lemma frame_read_cut:
  assumes "frame_encode pc m = Inr f" and "plain (rd_stream rd) = Some (take n f)" and "n < length f"
  shows "fst (frame_read pc rd) = Inl (if n = 0 then Closed else Truncated)"
proof -
  from assms(1) obtain body where body: "pc_encode pc m = Some body" "length body \<le> MAX_FRAME"
    "f = nat_to_be HEADER (length body) @ body" by (rule encode_parts)
  show ?thesis
  proof (cases "HEADER \<le> n")
    case False
    have "nat_to_be HEADER (length body) \<noteq> []" by (metis HEADER_def length_0_conv length_nat_to_be zero_neq_numeral)
    then have "take n f = [] \<longleftrightarrow> n = 0" using body(3) by (cases n) auto
    with False assms(3) body(3) show ?thesis
      using read_up_plain [OF assms(2), of "[]" HEADER "rd_silence rd" Closed]
      by (auto simp: frame_read_def)
  next
    case True
    then obtain s1 where s1: "read_up (rd_silence rd) Closed HEADER [] (rd_stream rd) = (Inr (nat_to_be HEADER (length body)), s1)"
        "plain s1 = Some (take (n - HEADER) body)"
      using read_up_plain [OF assms(2), of "[]" HEADER "rd_silence rd" Closed] assms(3) body(3) by auto
    have "n - HEADER < length body" using True assms(3) body(3) by auto
    then have "fst (read_up (rd_silence rd) Truncated (length body) [] s1) = Inl Truncated"
      using read_up_plain [OF s1(2), of "[]" "length body" "rd_silence rd" Truncated] by auto
    with s1 True body(2) show ?thesis
      by (auto simp: frame_read_def be_header [unfolded HEADER_def] HEADER_def Let_def split: prod.splits sum.splits)
  qed
qed

lemma frame_read_end: "plain (rd_stream rd) = Some [] \<Longrightarrow> fst (frame_read pc rd) = Inl Closed"
  using read_up_plain [of "rd_stream rd" "[]" "[]" HEADER "rd_silence rd" Closed]
  by (auto simp: frame_read_def HEADER_def)

section \<open>The envelope and the codes\<close>

lemma code_from_into [simp]: "code_into (code_from n) = n"
  by (simp add: code_from_def)

lemma code_into_from: "(\<And>n. c = CoUnknown n \<Longrightarrow> n \<noteq> 0 \<and> n \<noteq> 1) \<Longrightarrow> code_from (code_into c) = c"
  by (cases c) (auto simp: code_from_def)

lemma envelope_event:
  "envelope o' meta = Some m \<Longrightarrow> message_event peer m =
    Some (case o' of OBatch b \<Rightarrow> EvBatchReceived peer b | ODecision d \<Rightarrow> EvDecisionReceived peer d
      | OHaveUpTo fid seq \<Rightarrow> EvHaveUpToReceived peer fid seq)"
  by (cases o') auto

section \<open>One end writes, the other reads\<close>

text \<open>The messages of a queue that get across whole, and how the reader is left.\<close>

definition ordinary :: "out \<Rightarrow> bool" where
  "ordinary item = (case item of OutMessage m \<Rightarrow> (case m of MHello h \<Rightarrow> False | MGoodbye r \<Rightarrow> False | _ \<Rightarrow> True)
     | OutGoodbye r \<Rightarrow> True)"

fun carried :: "postcard \<Rightarrow> (out \<times> nat option) list \<Rightarrow> message list \<times> conn_end" where
  "carried pc [] = ([], Lost Closed)"
| "carried pc ((OutGoodbye r, failed) # items) =
     ([], case frame_encode pc (MGoodbye r) of
            Inr bs \<Rightarrow> if written failed bs = bs then TheySaid r else Lost (if failed = Some 0 then Closed else Truncated)
          | Inl e \<Rightarrow> Lost Closed)"
| "carried pc ((OutMessage m, failed) # items) =
     (case frame_encode pc m of
        Inl (Oversize n) \<Rightarrow> carried pc items
      | Inl e \<Rightarrow> ([], Lost Closed)
      | Inr bs \<Rightarrow> if failed = None then (let (ms, fin) = carried pc items in (m # ms, fin))
          else if written failed bs = bs then ([m], Lost Closed)
          else ([], Lost (if failed = Some 0 then Closed else Truncated)))"

definition passed_on :: "message \<Rightarrow> bool" where
  "passed_on m \<longleftrightarrow> m \<noteq> MPing \<and> m \<noteq> MPong"

lemma reading_lost: "fst (frame_read pc rd) = Inl e \<Longrightarrow> e \<noteq> Idle \<Longrightarrow> conn_reading pc room rd = ([], 0, Lost e)"
  by (subst conn_reading.simps) (auto split: prod.split frame_error.split)

lemma reading_end: "plain (rd_stream rd) = Some [] \<Longrightarrow> conn_reading pc room rd = ([], 0, Lost Closed)"
  using frame_read_end reading_lost by blast

lemma reading_cut:
  assumes "frame_encode pc m = Inr f" and "plain (rd_stream rd) = Some (take n f)" and "n < length f"
  shows "conn_reading pc room rd = ([], 0, Lost (if n = 0 then Closed else Truncated))"
  using reading_lost [OF frame_read_cut [OF assms], of room] by simp

lemma reading_goodbye: "frame_read pc rd = (Inr (MGoodbye r), rd') \<Longrightarrow> conn_reading pc room rd = ([], 0, TheySaid r)"
  by (subst conn_reading.simps) simp

lemma reading_message:
  assumes "frame_read pc rd = (Inr m, rd')" and "ordinary (OutMessage m)" and "passed_on m \<Longrightarrow> 0 < room"
    and "conn_reading pc (if passed_on m then room - 1 else room) rd' = (ms, n, fin)"
  shows "conn_reading pc room rd = (filter passed_on [m] @ ms, length (filter ((=) MPing) [m]) + n, fin)"
  using assms by (subst conn_reading.simps) (cases m; auto simp: ordinary_def passed_on_def)

lemma reading_written:
  assumes "postcard_ok pc" and "conn_writing pc items = (bytes, wfin)" and "carried pc items = (ms, fin)"
    and "list_all (\<lambda>(item, failed). ordinary item) items" and "plain (rd_stream rd) = Some bytes"
    and "length (filter passed_on ms) \<le> room"
  shows "conn_reading pc room rd = (filter passed_on ms, length (filter ((=) MPing) ms), fin)"
  using assms
proof (induction pc items arbitrary: bytes wfin ms fin rd room rule: carried.induct)
  case (1 pc)
  then show ?case by (simp add: reading_end)
next
  case (2 pc r failed items)
  show ?case
  proof (cases "frame_encode pc (MGoodbye r)")
    case (Inl e)
    with 2 show ?thesis by (simp add: reading_end)
  next
    case (Inr bs)
    show ?thesis
    proof (cases "written failed bs = bs")
      case True
      with 2 Inr obtain rd' where "frame_read pc rd = (Inr (MGoodbye r), rd')"
        using frame_read_frame [OF 2(1) Inr, of rd "[]"] by auto
      with 2 Inr True show ?thesis by (simp add: reading_goodbye)
    next
      case False
      then obtain n where "failed = Some n" "n < length bs" by (auto simp: written_def split: option.splits)
      with 2 Inr False show ?thesis using reading_cut [OF Inr, of rd n room] by (simp add: written_def)
    qed
  qed
next
  case (3 pc m failed items)
  show ?case
  proof (cases "frame_encode pc m")
    case (Inl e)
    with 3 show ?thesis by (cases e) (auto simp: reading_end)
  next
    case (Inr bs)
    have ord: "ordinary (OutMessage m)" using 3 by simp
    obtain bytes' wfin' ms' fin' where rest: "conn_writing pc items = (bytes', wfin')" "carried pc items = (ms', fin')"
      by fastforce
    show ?thesis
    proof (cases "failed = None")
      case True
      then have bytes: "bytes = bs @ bytes'" "ms = m # ms'" "fin = fin'" using 3 Inr rest by auto
      then obtain rd' where rd': "frame_read pc rd = (Inr m, rd')" "plain (rd_stream rd') = Some bytes'"
        using frame_read_frame [OF 3(3) Inr] 3 by metis
      have "conn_reading pc (if passed_on m then room - 1 else room) rd' =
          (filter passed_on ms', length (filter ((=) MPing) ms'), fin')"
        using 3 Inr True rest rd'(2) bytes by (intro 3) auto
      from reading_message [OF rd'(1) ord _ this] 3 bytes show ?thesis by (simp split: if_splits)
    next
      case False
      then obtain n where n: "failed = Some n" by auto
      show ?thesis
      proof (cases "written failed bs = bs")
        case True
        with 3 Inr n have bytes: "bytes = bs" "ms = [m]" "fin = Lost Closed" by auto
        then obtain rd' where rd': "frame_read pc rd = (Inr m, rd')" "plain (rd_stream rd') = Some []"
          using frame_read_frame [OF 3(3) Inr, of rd "[]"] 3 by auto
        from reading_message [OF rd'(1) ord _ reading_end [OF rd'(2)], of room] 3 bytes
        show ?thesis by (simp split: if_splits)
      next
        case no: False
        with n have "n < length bs" by (auto simp: written_def)
        with 3 Inr n no show ?thesis using reading_cut [OF Inr, of rd n room] by (simp add: written_def)
      qed
    qed
  qed
qed

text \<open>C6: A connection is in order and loses nothing it has not lost to the socket. Whatever one end queues (messages
  the host sends, pings, a final \<open>Goodbye\<close>), whatever of it is too large to frame, wherever the socket fails, and
  however the bytes are split on arrival: the other end passes on exactly the messages written whole, in their
  order, answers each \<open>Ping\<close> once, never takes bytes for a message that was not sent, and ends with the
  \<open>Goodbye\<close>'s reason, or with \<open>Closed\<close> between frames and \<open>Truncated\<close> inside one.\<close>

theorem connection_in_order:
  assumes "postcard_ok pc" and "conn_writing pc items = (bytes, wfin)" and "carried pc items = (ms, fin)"
    and "list_all (\<lambda>(item, failed). ordinary item) items" and "plain s = Some bytes"
    and "length (filter passed_on ms) \<le> room"
  shows "conn_reading pc room (reader_new silence s) = (filter passed_on ms, length (filter ((=) MPing) ms), fin)"
  by (rule reading_written [OF assms(1-4) _ assms(6)]) (simp add: reader_new_def assms(5))

text \<open>A serialiser for three kinds of messages.\<close>

definition sample_postcard :: postcard where
  "sample_postcard =
     \<lparr>pc_encode = (\<lambda>m. case m of MPing \<Rightarrow> Some [10] | MGoodbye r \<Rightarrow> (if r = reason_duplicate then Some [1] else None)
        | MFileDone n \<Rightarrow> Some (7 # nat_to_be 8 (unat n)) | _ \<Rightarrow> None),
      pc_take = (\<lambda>bs. case bs of [] \<Rightarrow> None | b # rest \<Rightarrow>
        if b = 10 then Some (MPing, rest) else if b = 1 then Some (MGoodbye reason_duplicate, rest)
        else if b = 7 \<and> 8 \<le> length rest then Some (MFileDone (of_nat (be_to_nat (take 8 rest))), drop 8 rest)
        else None)\<rparr>"

lemma sample_postcard_ok: "postcard_ok sample_postcard"
  by (auto simp: postcard_ok_def sample_postcard_def split: message.splits if_splits)

definition sample_queue :: "(out \<times> nat option) list" where
  "sample_queue = [(OutMessage (MFileDone 3), None), (OutMessage MPing, None), (OutGoodbye reason_duplicate, None)]"

lemma nat_to_be_small: "n < 256 \<Longrightarrow> nat_to_be (Suc k) n = replicate k 0 @ [word_of_nat n]"
proof (induction k)
  case (Suc k)
  have "n div 256 ^ Suc k = 0" using Suc.prems by (simp add: div_mult2_eq)
  then show ?case using Suc by (simp del: power_Suc)
qed simp

lemma sample_written:
  "conn_writing sample_postcard sample_queue =
     ([0, 0, 0, 9, 7, 0, 0, 0, 0, 0, 0, 0, 3] @ [0, 0, 0, 1, 10] @ [0, 0, 0, 1, 1], WeSaid reason_duplicate)"
  "carried sample_postcard sample_queue = ([MFileDone 3, MPing], TheySaid reason_duplicate)"
proof -
  have zeros: "replicate 3 (0 :: byte) = [0, 0, 0]" "replicate 7 (0 :: byte) = [0, 0, 0, 0, 0, 0, 0]" by code_simp+
  have four: "nat_to_be 4 (Suc 0) = [0, 0, 0, 1]" "nat_to_be 4 9 = [0, 0, 0, 9]"
    and three: "nat_to_be 8 3 = [0, 0, 0, 0, 0, 0, 0, 3]"
    using nat_to_be_small [of 1 3] nat_to_be_small [of 9 3] nat_to_be_small [of 3 7] zeros by simp_all
  have encode: "frame_encode pc m = Inr (nat_to_be HEADER n @ b)"
    if "pc_encode pc m = Some b" "length b = n" "\<not> MAX_FRAME < n" for pc m b n
    using that by (auto simp: frame_encode_def)
  have small: "\<not> MAX_FRAME < 9" "\<not> MAX_FRAME < 1" by (simp_all add: MAX_FRAME_def)
  have body: "pc_encode sample_postcard (MFileDone 3) = Some [7, 0, 0, 0, 0, 0, 0, 0, 3]"
    "pc_encode sample_postcard MPing = Some [10]" "pc_encode sample_postcard (MGoodbye reason_duplicate) = Some [1]"
    by (simp_all add: sample_postcard_def three)
  have done3: "frame_encode sample_postcard (MFileDone 3) = Inr [0, 0, 0, 9, 7, 0, 0, 0, 0, 0, 0, 0, 3]"
    and ping: "frame_encode sample_postcard MPing = Inr [0, 0, 0, 1, 10]"
    and bye: "frame_encode sample_postcard (MGoodbye reason_duplicate) = Inr [0, 0, 0, 1, 1]"
    using encode [OF body(1), of 9] encode [OF body(2), of 1] encode [OF body(3), of 1] small
    by (simp_all add: HEADER_def four)
  show "conn_writing sample_postcard sample_queue =
     ([0, 0, 0, 9, 7, 0, 0, 0, 0, 0, 0, 0, 3] @ [0, 0, 0, 1, 10] @ [0, 0, 0, 1, 1], WeSaid reason_duplicate)"
    by (simp add: sample_queue_def done3 ping bye written_def)
  show "carried sample_postcard sample_queue = ([MFileDone 3, MPing], TheySaid reason_duplicate)"
    by (simp add: sample_queue_def done3 ping bye written_def)
qed

lemma connection_in_order_witness:
  "conn_reading sample_postcard 5 (reader_new True [Arrives [0, 0, 0, 9, 7, 0, 0, 0, 0],
      Arrives [0, 0, 0, 3, 0, 0, 0, 1, 10, 0], Arrives [0, 0, 1, 1]]) =
     ([MFileDone 3], 1, TheySaid reason_duplicate)"
  using connection_in_order [OF sample_postcard_ok sample_written, where room = 5 and silence = True
      and s = "[Arrives [0, 0, 0, 9, 7, 0, 0, 0, 0], Arrives [0, 0, 0, 3, 0, 0, 0, 1, 10, 0], Arrives [0, 0, 1, 1]]"]
  by (simp add: sample_queue_def ordinary_def passed_on_def)

text \<open>C9: A peer cannot make a reader hold more than the cap: the buffer never has room for more than 16 MiB, at most
  2 MiB of it is kept once a message is read, and a longer length is refused with nothing more read or kept.\<close>

theorem reader_bounded:
  assumes "rd_capacity rd \<le> KEEP" and "frame_read pc rd = (r, rd')"
  shows "rd_capacity rd' \<le> MAX_FRAME \<and> (\<forall>m. r = Inr m \<longrightarrow> rd_capacity rd' \<le> KEEP) \<and>
    (\<forall>n. r = Inl (TooLarge n) \<longrightarrow> MAX_FRAME < unat n \<and> rd_capacity rd' = rd_capacity rd \<and>
       (\<forall>bs. plain (rd_stream rd) = Some bs \<longrightarrow> plain (rd_stream rd') = Some (drop HEADER bs)))"
proof -
  obtain h s where h: "read_up (rd_silence rd) Closed HEADER [] (rd_stream rd) = (h, s)" by fastforce
  show ?thesis
  proof (cases h)
    case (Inl e)
    with h assms show ?thesis by (auto simp: frame_read_def KEEP_def MAX_FRAME_def dest: read_up_errors)
  next
    case (Inr header)
    with h have len: "be_to_nat header < 2 ^ 32" using be_to_nat_bound [of header] read_up_len [of _ _ HEADER "[]"]
      by (force simp: HEADER_def)
    have "plain s = Some (drop HEADER bs)" if "plain (rd_stream rd) = Some bs" for bs
      using read_up_plain [OF that, of "[]" HEADER "rd_silence rd" Closed] h Inr by (auto split: if_splits)
    with h Inr len assms show ?thesis
      by (auto simp: frame_read_def Let_def KEEP_def MAX_FRAME_def unat_of_nat take_bit_eq_mod
          dest: read_up_errors split: prod.splits sum.splits if_splits option.splits)
  qed
qed

lemma reader_bounded_witness:
  "\<exists>r rd'. frame_read sample_postcard (reader_new True [Arrives [255, 0, 0, 0, 9]]) = (r, rd') \<and> rd_capacity rd' \<le> MAX_FRAME"
  using reader_bounded [of "reader_new True [Arrives [255, 0, 0, 0, 9]]" sample_postcard]
  by (metis (no_types, lifting) le0 reader.select_convs(2) reader_new_def surj_pair)

section \<open>Both ends of a handshake\<close>

text \<open>Each end with the other's \<open>Hello\<close> on its way: both accept or both refuse, for the same reason; two protocol
  versions are told each other's, and say goodbye.\<close>

lemma handshake_agrees:
  assumes "postcard_ok pc" and "frame_encode pc (MHello a) = Inr fa" and "frame_encode pc (MHello b) = Inr fb"
    and "plain (rd_stream rda) = Some (fb @ resta)" and "plain (rd_stream rdb) = Some (fa @ restb)"
    and "handshake pc None a rda = (ra, senta, rda')" and "handshake pc None b rdb = (rb, sentb, rdb')"
  shows "if hl_proto a \<noteq> hl_proto b then
      ra = Inl (RfProtocol b) \<and> rb = Inl (RfProtocol a) \<and> MGoodbye reason_protocol \<in> set senta \<inter> set sentb
    else if hl_node a = hl_node b then ra = Inl RfMyself \<and> rb = Inl RfMyself
    else ra = Inr b \<and> rb = Inr a \<and> plain (rd_stream rda') = Some resta \<and> plain (rd_stream rdb') = Some restb"
  using frame_read_frame [OF assms(1,3,4)] frame_read_frame [OF assms(1,2,5)] assms(6,7)
  by (auto simp: handshake_def)

end
