(* ===== verification/Meshes.thy ===== *)
theory Meshes
  imports Frames Tiers "HOL-Library.Multiset"
begin

text \<open>
  \<open>crates/delocal/src/net/mesh.rs\<close>: one connection to each of the user's machines. The hub hears from every
  connection and keeps the one that is live; the dialers wait on its state. A connection's queue is named by the
  connection's number. Sockets, timeouts and what Tailscale answers are inputs; addresses are as in \<open>Tiers\<close>.
\<close>

section \<open>Backoff\<close>

text \<open>Durations are in nanoseconds. \<open>saturating_mul\<close> saturates above any cap.\<close>

record backoff =
  bo_first :: nat
  bo_cap :: nat

record retry =
  rt_backoff :: backoff
  rt_next :: nat

definition backoff_default :: backoff where
  "backoff_default = \<lparr>bo_first = 1000000000, bo_cap = 5 * 60 * 1000000000\<rparr>"

definition retry_new :: "backoff \<Rightarrow> retry" where
  "retry_new b = \<lparr>rt_backoff = b, rt_next = bo_first b\<rparr>"

definition retry_wait :: "retry \<Rightarrow> nat \<times> retry" where
  "retry_wait r = (rt_next r, r\<lparr>rt_next := min (2 * rt_next r) (bo_cap (rt_backoff r))\<rparr>)"

definition retry_reset :: "retry \<Rightarrow> retry" where
  "retry_reset r = r\<lparr>rt_next := bo_first (rt_backoff r)\<rparr>"

section \<open>The hub\<close>

record link =
  lk_initiator :: node_id
  lk_local :: socket_addr
  lk_remote :: socket_addr

record live =
  lv_conn :: nat
  lv_link :: link

record hub =
  hb_live :: "(node_id, live) bmap"
  hb_known :: "(stable_id, node_id) bmap"

datatype hub_event =
    HUp nat hello stable_id link
  | HReceived nat node_id message
  | HDown nat node_id
  | HIncompatible stable_id hello

datatype mesh_report =
    RpConnected node_id hello stable_id
  | RpReceived node_id message
  | RpDisconnected node_id
  | RpIncompatible stable_id hello

definition keeps_new :: "node_id \<Rightarrow> node_id \<Rightarrow> node_id \<Rightarrow> node_id \<Rightarrow> bool" where
  "keeps_new me peer old new \<longleftrightarrow> old = new \<or> new = min me peer"

text \<open>One turn of \<open>run_hub\<close>: the reports, and what is put in connections' queues.\<close>

fun hub_step :: "node_id \<Rightarrow> hub_event \<Rightarrow> hub \<Rightarrow> mesh_report list \<times> (nat \<times> out) list \<times> hub" where
  "hub_step me (HReceived conn peer m) h =
     (case bm_get (hb_live h) peer of
        Some l \<Rightarrow> if lv_conn l = conn then ([RpReceived peer m], [], h) else ([], [], h)
      | None \<Rightarrow> ([], [], h))"
| "hub_step me (HUp conn hi sid link) h =
     (let peer = hl_node hi;
          h = h\<lparr>hb_known := bm_insert sid peer (hb_known h)\<rparr>;
          h' = h\<lparr>hb_live := bm_insert peer \<lparr>lv_conn = conn, lv_link = link\<rparr> (hb_live h)\<rparr>
      in case bm_get (hb_live h) peer of
           Some old \<Rightarrow>
             if \<not> keeps_new me peer (lk_initiator (lv_link old)) (lk_initiator link)
             then ([], [(conn, OutGoodbye reason_duplicate)], h)
             else ([RpDisconnected peer, RpConnected peer hi sid], [(lv_conn old, OutGoodbye reason_duplicate)], h')
         | None \<Rightarrow> ([RpConnected peer hi sid], [], h'))"
| "hub_step me (HDown conn peer) h =
     (case bm_get (hb_live h) peer of
        Some l \<Rightarrow> if lv_conn l = conn then ([RpDisconnected peer], [], h\<lparr>hb_live := bm_remove peer (hb_live h)\<rparr>)
          else ([], [], h)
      | None \<Rightarrow> ([], [], h))"
| "hub_step me (HIncompatible sid hi) h = ([RpIncompatible sid hi], [], h)"

fun hub_run :: "node_id \<Rightarrow> hub_event list \<Rightarrow> hub \<Rightarrow> mesh_report list \<times> (nat \<times> out) list \<times> hub" where
  "hub_run me [] h = ([], [], h)"
| "hub_run me (ev # evs) h =
     (let (rs, outs, h) = hub_step me ev h; (rs', outs', h) = hub_run me evs h in (rs @ rs', outs @ outs', h))"

definition mesh_send :: "node_id \<Rightarrow> message \<Rightarrow> hub \<Rightarrow> (nat \<times> out) option" where
  "mesh_send peer m h = map_option (\<lambda>l. (lv_conn l, OutMessage m)) (bm_get (hb_live h) peer)"

definition mesh_link :: "node_id \<Rightarrow> hub \<Rightarrow> link option" where
  "mesh_link peer h = map_option lv_link (bm_get (hb_live h) peer)"

section \<open>Dialing and accepting\<close>

definition should_dial :: "node_id \<Rightarrow> stable_id \<Rightarrow> hub \<Rightarrow> bool" where
  "should_dial me sid h =
     (case bm_get (hb_known h) sid of
        None \<Rightarrow> True
      | Some peer \<Rightarrow> me < peer \<and> \<not> bm_has (hb_live h) peer)"

record who_is =
  wi_stable_id :: stable_id
  wi_user :: string
  wi_tags :: "string list"

definition trusts :: "string \<Rightarrow> stable_id bset \<Rightarrow> who_is \<Rightarrow> bool" where
  "trusts user trusted who =
     (if wi_tags who = [] then wi_user who = user else bm_has trusted (wi_stable_id who))"

text \<open>What \<open>accepted\<close> decides: the Tailscale node it goes on with, if \<open>whois\<close> answered in time and is trusted.\<close>

definition accepted_node :: "string \<Rightarrow> stable_id bset \<Rightarrow> who_is option \<Rightarrow> stable_id option" where
  "accepted_node user trusted answer =
     (case answer of Some who \<Rightarrow> if trusts user trusted who then Some (wi_stable_id who) else None | None \<Rightarrow> None)"

fun is_ipv4 :: "ip_addr \<Rightarrow> bool" where
  "is_ipv4 (IpV4 a) = True"
| "is_ipv4 (IpV6 a) = False"

text \<open>The address \<open>connect\<close> dials from, and the address \<open>dial\<close> reaches: the first that answers.\<close>

definition connect_from :: "ip_addr list \<Rightarrow> socket_addr \<Rightarrow> ip_addr option" where
  "connect_from ips addr = find (\<lambda>ip. is_ipv4 ip = is_ipv4 (fst addr)) ips"

definition dial_addr :: "(socket_addr \<Rightarrow> bool) \<Rightarrow> socket_addr list \<Rightarrow> socket_addr option" where
  "dial_addr answers addrs = find answers addrs"

text \<open>What \<open>connection\<close> tells the hub of a handshake that is over, and of the connection's life.\<close>

definition connection_events :: "node_id \<Rightarrow> nat \<Rightarrow> stable_id \<Rightarrow> bool \<Rightarrow> socket_addr \<Rightarrow> socket_addr \<Rightarrow>
    refused + hello \<Rightarrow> message list \<Rightarrow> hub_event list" where
  "connection_events me conn sid dialed at_here at_there shook passed =
     (case shook of
        Inl (RfProtocol hi) \<Rightarrow> [HIncompatible sid hi]
      | Inl _ \<Rightarrow> []
      | Inr hi \<Rightarrow>
          HUp conn hi sid \<lparr>lk_initiator = if dialed then me else hl_node hi, lk_local = at_here, lk_remote = at_there\<rparr> #
          map (HReceived conn (hl_node hi)) passed @ [HDown conn (hl_node hi)])"

section \<open>One live connection to each machine\<close>

text \<open>What the reports say of one peer, connected before or not: none if they are out of order.\<close>

fun conversation :: "node_id \<Rightarrow> bool \<Rightarrow> mesh_report list \<Rightarrow> bool option" where
  "conversation peer up [] = Some up"
| "conversation peer up (RpConnected p hi sid # rs) =
     (if p = peer then if up then None else conversation peer True rs else conversation peer up rs)"
| "conversation peer up (RpReceived p m # rs) =
     (if p = peer \<and> \<not> up then None else conversation peer up rs)"
| "conversation peer up (RpDisconnected p # rs) =
     (if p = peer then if up then conversation peer False rs else None else conversation peer up rs)"
| "conversation peer up (RpIncompatible sid hi # rs) = conversation peer up rs"

lemma conversation_append:
  "conversation peer up (rs @ rs') = Option.bind (conversation peer up rs) (\<lambda>up. conversation peer up rs')"
  by (induction peer up rs rule: conversation.induct) auto

lemma step_conversation:
  "hub_step me ev h = (rs, outs, h') \<Longrightarrow> conversation peer (bm_has (hb_live h) peer) rs = Some (bm_has (hb_live h') peer)"
  by (cases ev) (auto simp: Let_def bm_has_iff split: option.splits if_splits)

lemma run_conversation:
  "hub_run me evs h = (rs, outs, h') \<Longrightarrow> conversation peer (bm_has (hb_live h) peer) rs = Some (bm_has (hb_live h') peer)"
proof (induction evs arbitrary: h rs outs)
  case (Cons ev evs)
  then show ?case by (auto simp: conversation_append step_conversation simp del: bm_has_iff split: prod.splits)
qed auto


section \<open>Both ends keep the same connection\<close>

text \<open>Connections to one peer that come up at one end, in its order, each by its number there and who dialed it.\<close>

record conn_pair =
  cp_here :: nat
  cp_there :: nat
  cp_initiator :: node_id

definition up_at :: "(conn_pair \<Rightarrow> nat) \<Rightarrow> hello \<Rightarrow> stable_id \<Rightarrow> socket_addr \<Rightarrow> conn_pair \<Rightarrow> hub_event" where
  "up_at number hi sid addr c =
     HUp (number c) hi sid \<lparr>lk_initiator = cp_initiator c, lk_local = addr, lk_remote = addr\<rparr>"

definition ends_with :: "node_id \<Rightarrow> (conn_pair \<Rightarrow> nat) \<Rightarrow> conn_pair list \<Rightarrow> live option \<Rightarrow> live option \<Rightarrow> bool" where
  "ends_with first number cs l0 l \<longleftrightarrow>
     (cs \<noteq> [] \<longrightarrow> l \<noteq> None) \<and>
     (l \<noteq> l0 \<longrightarrow> (\<exists>c \<in> set cs. \<exists>v. l = Some v \<and> lv_conn v = number c \<and> lk_initiator (lv_link v) = cp_initiator c)) \<and>
     ((\<exists>v. l0 = Some v \<and> lk_initiator (lv_link v) = first) \<or> (\<exists>c \<in> set cs. cp_initiator c = first) \<longrightarrow>
        (\<exists>v. l = Some v \<and> lk_initiator (lv_link v) = first))"

lemma ups_end:
  assumes "hub_run me (map (up_at number hi sid addr) cs) h = (rs, outs, h')"
  shows "ends_with (min me (hl_node hi)) number cs (bm_get (hb_live h) (hl_node hi)) (bm_get (hb_live h') (hl_node hi)) \<and>
    (\<forall>c \<in> set cs. (number c, OutGoodbye reason_duplicate) \<in> set outs \<or>
       map_option lv_conn (bm_get (hb_live h') (hl_node hi)) = Some (number c)) \<and>
    (\<forall>v. bm_get (hb_live h) (hl_node hi) = Some v \<longrightarrow> (lv_conn v, OutGoodbye reason_duplicate) \<in> set outs \<or>
       map_option lv_conn (bm_get (hb_live h') (hl_node hi)) = Some (lv_conn v))"
  using assms
proof (induction cs arbitrary: h rs outs)
  case Nil
  then show ?case by (auto simp: ends_with_def)
next
  case (Cons c cs)
  let ?peer = "hl_node hi"
  obtain rs1 outs1 h1 rs2 outs2 where step: "hub_step me (up_at number hi sid addr c) h = (rs1, outs1, h1)"
      and run: "hub_run me (map (up_at number hi sid addr) cs) h1 = (rs2, outs2, h')" and outs: "outs = outs1 @ outs2"
    using Cons.prems by (auto split: prod.splits)
  note IH = Cons.IH [OF run]
  let ?new = "\<lparr>lv_conn = number c, lv_link = \<lparr>lk_initiator = cp_initiator c, lk_local = addr, lk_remote = addr\<rparr>\<rparr>"
  consider (fresh) "bm_get (hb_live h) ?peer = None" "bm_get (hb_live h1) ?peer = Some ?new" "outs1 = []"
    | (kept) v where "bm_get (hb_live h) ?peer = Some v" "bm_get (hb_live h1) ?peer = Some v"
        "outs1 = [(number c, OutGoodbye reason_duplicate)]" "cp_initiator c \<noteq> min me ?peer"
    | (new) v where "bm_get (hb_live h) ?peer = Some v" "bm_get (hb_live h1) ?peer = Some ?new"
        "outs1 = [(lv_conn v, OutGoodbye reason_duplicate)]"
        "cp_initiator c = lk_initiator (lv_link v) \<or> cp_initiator c = min me ?peer"
    using step by (auto simp: up_at_def keeps_new_def Let_def split: option.splits if_splits)
  then show ?case
    by cases (use IH outs in \<open>auto simp: ends_with_def\<close>)
qed

text \<open>C7: Two machines connected several times at once keep the same connection. Whatever order the connections come
  up in at each end: if one of them was dialed by the machine with the smaller id, that one is live at both ends,
  and at both ends every other is told goodbye.\<close>

theorem both_ends_keep_the_same:
  assumes "hl_node hia = a" and "hl_node hib = b"
    and "mset csa = mset cs" and "mset csb = mset cs" and "filter (\<lambda>c. cp_initiator c = min a b) cs = [c]"
    and "hub_run a (map (up_at cp_here hib sidb addrb) csa) ha = (rsa, outsa, ha')" and "bm_get (hb_live ha) b = None"
    and "hub_run b (map (up_at cp_there hia sida addra) csb) hb = (rsb, outsb, hb')" and "bm_get (hb_live hb) a = None"
  shows "\<exists>la lb. bm_get (hb_live ha') b = Some la \<and> lv_conn la = cp_here c \<and>
    bm_get (hb_live hb') a = Some lb \<and> lv_conn lb = cp_there c \<and>
    (\<forall>d \<in> set cs. (cp_here d \<noteq> cp_here c \<longrightarrow> (cp_here d, OutGoodbye reason_duplicate) \<in> set outsa) \<and>
       (cp_there d \<noteq> cp_there c \<longrightarrow> (cp_there d, OutGoodbye reason_duplicate) \<in> set outsb))"
proof -
  have sets: "set csa = set cs" "set csb = set cs" using assms(3,4) by (auto dest: mset_eq_setD)
  have only: "c \<in> set cs" "cp_initiator c = min a b" "\<And>d. d \<in> set cs \<Longrightarrow> cp_initiator d = min a b \<Longrightarrow> d = c"
    using arg_cong [OF assms(5), of set] by auto
  note ea = ups_end [OF assms(6), unfolded assms(2,7) sets ends_with_def]
    and eb = ups_end [OF assms(8), unfolded assms(1,9) sets ends_with_def]
  obtain la where la: "bm_get (hb_live ha') b = Some la" "lk_initiator (lv_link la) = min a b"
    using ea only(1,2) by blast
  then have "lv_conn la = cp_here c" using ea only(3) by force
  moreover obtain lb where lb: "bm_get (hb_live hb') a = Some lb" "lk_initiator (lv_link lb) = min a b"
    using eb only(1,2) by (metis min.commute)
  then have "lv_conn lb = cp_there c" using eb only(3) by force
  ultimately show ?thesis using la(1) lb(1) ea eb by (intro exI [of _ la] exI [of _ lb]) auto
qed

definition hello_sample :: "byte \<Rightarrow> hello" where
  "hello_sample n = \<lparr>hl_proto = PROTOCOL, hl_node = NodeId (replicate 16 n), hl_hostname = HostName ''h'',
     hl_version = ''0.1.0'', hl_now = 0\<rparr>"

definition hub_sample :: hub where
  "hub_sample = \<lparr>hb_live = bm_empty, hb_known = bm_empty\<rparr>"


lemma both_ends_keep_the_same_witness:
  "\<exists>la. bm_get (hb_live (snd (snd (hub_run (NodeId (replicate 16 1))
      (map (up_at cp_here (hello_sample 2) ''b'' (IpV4 2, 1))
        [\<lparr>cp_here = 0, cp_there = 7, cp_initiator = NodeId (replicate 16 2)\<rparr>,
         \<lparr>cp_here = 1, cp_there = 6, cp_initiator = NodeId (replicate 16 1)\<rparr>]) hub_sample))))
      (NodeId (replicate 16 2)) = Some la \<and> lv_conn la = 1"
proof -
  let ?x = "\<lparr>cp_here = 0, cp_there = 7, cp_initiator = NodeId (replicate 16 2)\<rparr>"
  let ?y = "\<lparr>cp_here = 1, cp_there = 6, cp_initiator = NodeId (replicate 16 1)\<rparr>"
  obtain rsa outsa ha where a: "hub_run (NodeId (replicate 16 1)) (map (up_at cp_here (hello_sample 2) ''b'' (IpV4 2, 1))
      [?x, ?y]) hub_sample = (rsa, outsa, ha)" by (metis prod_cases3)
  obtain rsb outsb hb where b: "hub_run (NodeId (replicate 16 2)) (map (up_at cp_there (hello_sample 1) ''a'' (IpV4 1, 1))
      [?y, ?x]) hub_sample = (rsb, outsb, hb)" by (metis prod_cases3)
  have "filter (\<lambda>c. cp_initiator c = min (NodeId (replicate 16 1)) (NodeId (replicate 16 2))) [?x, ?y] = [?y]"
    by code_simp
  from both_ends_keep_the_same [OF _ _ _ _ this a _ b]
  have "\<exists>la. bm_get (hb_live ha) (NodeId (replicate 16 2)) = Some la \<and> lv_conn la = 1"
    by (auto simp: hello_sample_def hub_sample_def)
  then show ?thesis by (simp only: a snd_conv)
qed

section \<open>Who dials\<close>

text \<open>Of two machines that know each other and are not connected exactly one dials, and neither dials while they
  are connected.\<close>

theorem exactly_one_dials:
  assumes "bm_get (hb_known ha) sidb = Some b" and "bm_get (hb_known hb) sida = Some a" and "a \<noteq> b"
    and "bm_has (hb_live ha) b \<longleftrightarrow> bm_has (hb_live hb) a"
  shows "(if bm_has (hb_live ha) b then \<not> should_dial a sidb ha \<and> \<not> should_dial b sida hb
      else should_dial a sidb ha \<noteq> should_dial b sida hb)"
proof -
  have "a < b \<longleftrightarrow> \<not> b < a" using assms(3) by (metis less_asym neqE)
  with assms show ?thesis by (auto simp: should_dial_def)
qed

lemma exactly_one_dials_witness:
  "should_dial (NodeId [1]) ''b'' (hub_sample\<lparr>hb_known := bm_insert ''b'' (NodeId [2]) bm_empty\<rparr>) \<noteq>
   should_dial (NodeId [2]) ''a'' (hub_sample\<lparr>hb_known := bm_insert ''a'' (NodeId [1]) bm_empty\<rparr>)"
  using exactly_one_dials [of "hub_sample\<lparr>hb_known := bm_insert ''b'' (NodeId [2]) bm_empty\<rparr>" "''b''" "NodeId [2]"
      "hub_sample\<lparr>hb_known := bm_insert ''a'' (NodeId [1]) bm_empty\<rparr>" "''a''" "NodeId [1]"]
  by (simp add: hub_sample_def)

fun waits :: "nat \<Rightarrow> retry \<Rightarrow> nat list" where
  "waits 0 r = []"
| "waits (Suc n) r = (let (w, r) = retry_wait r in w # waits n r)"

lemma waits_from:
  "rt_next r = min (f * 2 ^ k) (bo_cap (rt_backoff r)) \<Longrightarrow> i < n \<Longrightarrow>
    waits n r ! i = min (f * 2 ^ (k + i)) (bo_cap (rt_backoff r))"
proof (induction n arbitrary: r k i)
  case (Suc n)
  let ?r = "snd (retry_wait r)"
  have "rt_next ?r = min (f * 2 ^ Suc k) (bo_cap (rt_backoff ?r))" using Suc.prems(1) by (simp add: retry_wait_def min_def)
  from Suc.IH [OF this, of "i - 1"] Suc.prems show ?case by (cases i) (auto simp: retry_wait_def)
qed simp

lemma waits_double:
  "bo_first b \<le> bo_cap b \<Longrightarrow> i < n \<Longrightarrow> waits n (retry_new b) ! i = min (bo_first b * 2 ^ i) (bo_cap b)"
  using waits_from [of "retry_new b" "bo_first b" 0 i n] by (simp add: retry_new_def)

end
