(* ===== verification/Disks.thy ===== *)
theory Disks
  imports Stores
begin

text \<open>
  \<open>crates/delocal/src/fs.rs\<close>: the filesystem layer, and with it what else the host asks of the machine while it
  works on a folder: the clock, fresh names, the journal's durable writes. The machine is an oracle: it answers
  each call from all the calls before it, so it may fail any of them, and what others do to the folder
  meanwhile is in its answers. A piece of host code is an action: from what has been called so far and what the
  host keeps, to its result and what has been called then; \<open>None\<close> if it does not return. Paths on disk are lists
  of names.
\<close>

section \<open>Calls\<close>

type_synonym dpath = "os_bytes list"

datatype file_kind = FkFile | FkDir | FkSymlink | FkOther

record stat =
  st_kind :: file_kind
  st_size :: u64
  st_mtime :: int
  st_ctime :: int
  st_mode :: "32 word"
  st_dev :: u64
  st_ino :: u64

text \<open>Of an \<open>io::Error\<close> what the host tells apart: its kind, what travels inside it, and \<open>ENOSPC\<close> or \<open>EDQUOT\<close>.\<close>

datatype io_error =
    IeNotFound | IeAlreadyExists | IeDirectoryNotEmpty | IeNotADirectory | IeParentNotADirectory dpath
  | IeNotAFile file_kind | IeNoReplaceUnsupported | IePermissionDenied | IeInvalidInput
  | IeInvalidData | IeFull | IeOther

datatype operation =
    OpenFolder
  | OpenDir dpath
  | OpenRead dpath
  | CreateNew dpath
  | SyncFile dpath
  | SyncDir dpath
  | Rename dpath dpath
  | RenameNoreplace dpath dpath
  | RemoveFile dpath
  | RemoveDir dpath
  | CreateDir dpath
  | MakeSymlink os_bytes dpath
  | SetMtime dpath int
  | SetMode dpath "32 word"
  | Durable "host_write list"

datatype call =
    Did operation "io_error + unit"
  | Stated dpath "io_error + stat"
  | Listed dpath "io_error + os_bytes list"
  | LinkRead dpath "io_error + os_bytes"
  | FileRead dpath "io_error + os_bytes"
  | Told timestamp
  | ToldRealtime timestamp
  | ToldInstant int
  | Drew string

text \<open>The newest call comes first.\<close>

record machine_oracle =
  or_do :: "call list \<Rightarrow> operation \<Rightarrow> io_error + unit"
  or_lstat :: "call list \<Rightarrow> dpath \<Rightarrow> io_error + stat"
  or_read_dir :: "call list \<Rightarrow> dpath \<Rightarrow> io_error + os_bytes list"
  or_read_link :: "call list \<Rightarrow> dpath \<Rightarrow> io_error + os_bytes"
  or_read_file :: "call list \<Rightarrow> dpath \<Rightarrow> io_error + os_bytes"
  or_now :: "call list \<Rightarrow> timestamp"
  or_realtime :: "call list \<Rightarrow> timestamp"
  or_instant :: "call list \<Rightarrow> int"
  or_unique :: "call list \<Rightarrow> string"

section \<open>Actions\<close>

text \<open>What the host keeps, \<open>'s\<close>, with the calls so far.\<close>

record 's host =
  ho_calls :: "call list"
  ho_kept :: 's

type_synonym ('s, 'a) act = "'s host \<Rightarrow> ('a \<times> 's host) option"

definition ret :: "'a \<Rightarrow> ('s, 'a) act" where
  "ret x h = Some (x, h)"

definition bnd :: "('s, 'a) act \<Rightarrow> ('a \<Rightarrow> ('s, 'b) act) \<Rightarrow> ('s, 'b) act" where
  "bnd m k h = Option.bind (m h) (\<lambda>(x, h). k x h)"

text \<open>The \<open>?\<close> operator, the errors as they are or read as others.\<close>

definition trying :: "('e \<Rightarrow> 'f) \<Rightarrow> ('s, 'e + 'a) act \<Rightarrow> ('a \<Rightarrow> ('s, 'f + 'b) act) \<Rightarrow> ('s, 'f + 'b) act" where
  "trying f m k = bnd m (\<lambda>r. case r of Inl e \<Rightarrow> ret (Inl (f e)) | Inr x \<Rightarrow> k x)"

abbreviation tri :: "('s, 'e + 'a) act \<Rightarrow> ('a \<Rightarrow> ('s, 'e + 'b) act) \<Rightarrow> ('s, 'e + 'b) act" where
  "tri \<equiv> trying (\<lambda>e. e)"

definition kept :: "('s, 's) act" where
  "kept h = Some (ho_kept h, h)"

definition keep :: "('s \<Rightarrow> 's) \<Rightarrow> ('s, unit) act" where
  "keep g h = Some ((), h\<lparr>ho_kept := g (ho_kept h)\<rparr>)"

definition called :: "(call list \<Rightarrow> 'a) \<Rightarrow> ('a \<Rightarrow> call) \<Rightarrow> ('s, 'a) act" where
  "called answer c h = (let r = answer (ho_calls h) in Some (r, h\<lparr>ho_calls := c r # ho_calls h\<rparr>))"

definition perform :: "machine_oracle \<Rightarrow> operation \<Rightarrow> ('s, io_error + unit) act" where
  "perform M oper = called (\<lambda>cs. or_do M cs oper) (Did oper)"

definition lstat :: "machine_oracle \<Rightarrow> dpath \<Rightarrow> ('s, io_error + stat) act" where
  "lstat M p = called (\<lambda>cs. or_lstat M cs p) (Stated p)"

definition read_dir :: "machine_oracle \<Rightarrow> dpath \<Rightarrow> ('s, io_error + os_bytes list) act" where
  "read_dir M p = called (\<lambda>cs. or_read_dir M cs p) (Listed p)"

definition read_link :: "machine_oracle \<Rightarrow> dpath \<Rightarrow> ('s, io_error + os_bytes) act" where
  "read_link M p = called (\<lambda>cs. or_read_link M cs p) (LinkRead p)"

text \<open>An open file read to its end.\<close>

definition read_to_end :: "machine_oracle \<Rightarrow> dpath \<Rightarrow> ('s, io_error + os_bytes) act" where
  "read_to_end M p = called (\<lambda>cs. or_read_file M cs p) (FileRead p)"

text \<open>\<open>Clock::now\<close>, the real-time clock, \<open>Instant::now\<close>, and \<open>reach::unique\<close>.\<close>

definition clock_read :: "machine_oracle \<Rightarrow> ('s, timestamp) act" where
  "clock_read M = called (or_now M) Told"

definition realtime_read :: "machine_oracle \<Rightarrow> ('s, timestamp) act" where
  "realtime_read M = called (or_realtime M) ToldRealtime"

definition instant_read :: "machine_oracle \<Rightarrow> ('s, int) act" where
  "instant_read M = called (or_instant M) ToldInstant"

definition unique :: "machine_oracle \<Rightarrow> ('s, string) act" where
  "unique M = called (or_unique M) Drew"

text \<open>A call whose outcome is dropped.\<close>

definition ignoring :: "('s, 'a) act \<Rightarrow> ('s, unit) act" where
  "ignoring m = bnd m (\<lambda>_. ret ())"

text \<open>A \<open>match\<close> on a \<open>Result\<close>.\<close>

definition either :: "('s, 'e + 'a) act \<Rightarrow> ('e \<Rightarrow> ('s, 'b) act) \<Rightarrow> ('a \<Rightarrow> ('s, 'b) act) \<Rightarrow> ('s, 'b) act" where
  "either m failed good = bnd m (\<lambda>r. case r of Inl e \<Rightarrow> failed e | Inr x \<Rightarrow> good x)"

text \<open>A loop over a list, and one that an error ends.\<close>

fun folding :: "('x \<Rightarrow> 'b \<Rightarrow> ('s, 'b) act) \<Rightarrow> 'x list \<Rightarrow> 'b \<Rightarrow> ('s, 'b) act" where
  "folding f [] b = ret b"
| "folding f (x # xs) b = bnd (f x b) (\<lambda>b. folding f xs b)"

fun try_folding :: "('x \<Rightarrow> 'b \<Rightarrow> ('s, 'e + 'b) act) \<Rightarrow> 'x list \<Rightarrow> 'b \<Rightarrow> ('s, 'e + 'b) act" where
  "try_folding f [] b = ret (Inr b)"
| "try_folding f (x # xs) b = tri (f x b) (\<lambda>b. try_folding f xs b)"

definition in_order :: "('x \<Rightarrow> ('s, unit) act) \<Rightarrow> 'x list \<Rightarrow> ('s, unit) act" where
  "in_order f xs = folding (\<lambda>x _. f x) xs ()"

subsection \<open>Loops that may not end\<close>

lemma bnd_mono [partial_function_mono]:
  assumes "\<And>h. mono_option (\<lambda>f. m f h)" and "\<And>x h. mono_option (\<lambda>f. k f x h)"
  shows "mono_option (\<lambda>f. bnd (m f) (k f) h)"
  unfolding bnd_def
proof (rule bind_mono [OF assms(1)])
  show "mono_option (\<lambda>f. (\<lambda>(x, h). k f x h) r)" for r
    by (cases r) (use assms(2) in auto)
qed

lemma either_mono [partial_function_mono]:
  assumes "\<And>h. mono_option (\<lambda>f. m f h)" and "\<And>x h. mono_option (\<lambda>f. a f x h)"
    and "\<And>x h. mono_option (\<lambda>f. b f x h)"
  shows "mono_option (\<lambda>f. either (m f) (a f) (b f) h)"
  unfolding either_def
proof (rule bnd_mono)
  show "mono_option (\<lambda>f. (case x of Inl e' \<Rightarrow> a f e' | Inr y \<Rightarrow> b f y) h)" for x h
    by (cases x) (use assms in \<open>auto intro: partial_function_mono\<close>)
qed (rule assms)

lemma trying_mono [partial_function_mono]:
  assumes "\<And>h. mono_option (\<lambda>f. m f h)" and "\<And>x h. mono_option (\<lambda>f. k f x h)"
  shows "mono_option (\<lambda>f. trying e (m f) (k f) h)"
  unfolding trying_def
proof (rule bnd_mono)
  show "mono_option (\<lambda>f. (case x of Inl e' \<Rightarrow> ret (Inl (e e')) | Inr y \<Rightarrow> k f y) h)" for x h
    by (cases x) (use assms in \<open>auto intro: partial_function_mono\<close>)
qed (rule assms)

lemma folding_mono [partial_function_mono]:
  assumes "\<And>x b h. mono_option (\<lambda>f. g f x b h)"
  shows "mono_option (\<lambda>f. folding (g f) xs b h)"
proof (induction xs arbitrary: b h)
  case Nil
  show ?case by (simp add: partial_function_mono)
next
  case (Cons x xs)
  show ?case
    unfolding folding.simps by (rule bnd_mono) (use assms Cons.IH in auto)
qed

lemma try_folding_mono [partial_function_mono]:
  assumes "\<And>x b h. mono_option (\<lambda>f. g f x b h)"
  shows "mono_option (\<lambda>f. try_folding (g f) xs b h)"
proof (induction xs arbitrary: b h)
  case Nil
  show ?case by (simp add: partial_function_mono)
next
  case (Cons x xs)
  show ?case
    unfolding try_folding.simps by (rule trying_mono) (use assms Cons.IH in auto)
qed

section \<open>Errors and renames that never replace\<close>

definition is_not_a_directory :: "io_error \<Rightarrow> bool" where
  "is_not_a_directory e \<longleftrightarrow> (case e of IeNotADirectory \<Rightarrow> True | IeParentNotADirectory _ \<Rightarrow> True | _ \<Rightarrow> False)"

definition parent_not_a_directory :: "io_error \<Rightarrow> bool" where
  "parent_not_a_directory e \<longleftrightarrow> (case e of IeParentNotADirectory _ \<Rightarrow> True | _ \<Rightarrow> False)"

definition not_a_file :: "io_error \<Rightarrow> bool" where
  "not_a_file e \<longleftrightarrow> (case e of IeNotAFile _ \<Rightarrow> True | _ \<Rightarrow> False)"

datatype refusing = Atomic | Checked

definition rename_refusing :: "machine_oracle \<Rightarrow> dpath \<Rightarrow> dpath \<Rightarrow> ('s, io_error + refusing) act" where
  "rename_refusing M src dst =
     either (perform M (RenameNoreplace src dst))
       (\<lambda>e. if e = IeNoReplaceUnsupported then
              either (lstat M dst)
                (\<lambda>e. if e = IeNotFound then tri (perform M (Rename src dst)) (\<lambda>_. ret (Inr Checked))
                     else ret (Inl e))
                (\<lambda>_. ret (Inl IeAlreadyExists))
            else ret (Inl e))
       (\<lambda>_. ret (Inr Atomic))"

section \<open>Paths on disk\<close>

definition path_bytes :: "dpath \<Rightarrow> os_bytes" where
  "path_bytes p = join_on (CHR ''/'') p"

definition bytes_path :: "os_bytes \<Rightarrow> dpath" where
  "bytes_path s = filter (\<lambda>c. c \<noteq> [] \<and> c \<noteq> ''.'') (split_on (CHR ''/'') s)"

definition dparent :: "dpath \<Rightarrow> dpath" where
  "dparent p = butlast p"

definition dname :: "dpath \<Rightarrow> os_bytes" where
  "dname p = (if p = [] then [] else last p)"

definition strip_dir :: "dpath \<Rightarrow> dpath \<Rightarrow> dpath option" where
  "strip_dir dir p = (if take (length dir) p = dir then Some (drop (length dir) p) else None)"

end
