(* ===== verification/Names.thy ===== *)
theory Names
  imports Disks
begin

text \<open>
  \<open>crates/delocal/src/names.rs\<close>, \<open>scan/ignore_rules.rs\<close> and \<open>shim.rs\<close>: from a name on disk to an index path,
  which paths the rules ignore, and the mtimes a coarse filesystem could not keep. Unicode (UTF-8 validity, NFC,
  lower case), BLAKE3 and the gitignore matcher are other people's crates: the record \<open>texts\<close>.
\<close>

section \<open>What other crates do\<close>

datatype rule_source = FromDefault | FromUser

datatype glob_match = GlobNone | GlobIgnore rule_source | GlobWhitelist

text \<open>\<open>GitignoreBuilder\<close>: a line's error, whether the lines build, and what they say of a path.\<close>

record texts =
  tx_utf8 :: "string \<Rightarrow> bool"
  tx_lossy :: "string \<Rightarrow> string"
  tx_is_nfc :: "string \<Rightarrow> bool"
  tx_nfc :: "string \<Rightarrow> string"
  tx_lowercase :: "string \<Rightarrow> string"
  tx_blake3 :: "string \<Rightarrow> content_hash"
  tx_line_error :: "string \<Rightarrow> string option"
  tx_builds :: "(rule_source \<times> string) list \<Rightarrow> bool"
  tx_matched :: "(rule_source \<times> string) list \<Rightarrow> string \<Rightarrow> bool \<Rightarrow> glob_match"

definition hash_target :: "texts \<Rightarrow> os_bytes \<Rightarrow> content_hash" where
  "hash_target X target = tx_blake3 X target"

section \<open>Names on disk\<close>

definition MAX_PATH_LEN :: nat where
  "MAX_PATH_LEN = 4096"

datatype unobservable =
    NotUtf8 | NameTooLong nat | PathTooLong nat | Coincides rel_path | NotAName rel_path_error

datatype disk_entry = EntryPath rel_path bool | EntryReserved | EntryUnobservable unobservable

definition unobservable_reason :: "unobservable \<Rightarrow> skip_reason option" where
  "unobservable_reason u = (case u of Coincides _ \<Rightarrow> Some CoincidingNames | _ \<Rightarrow> None)"

definition entry_name :: "texts \<Rightarrow> rel_path option \<Rightarrow> os_bytes \<Rightarrow> disk_entry" where
  "entry_name X parent disk =
     (if \<not> tx_utf8 X disk then EntryUnobservable NotUtf8
      else if CHR ''/'' \<in> set disk then EntryUnobservable (NotAName PathEmptyComponent)
      else let nfc = (if tx_is_nfc X disk then disk else tx_nfc X disk) in
        if MAX_COMPONENT_LEN < length nfc then EntryUnobservable (NameTooLong (length nfc))
        else let path = (case parent of Some d \<Rightarrow> path_str d @ CHR ''/'' # nfc | None \<Rightarrow> nfc) in
          if MAX_PATH_LEN < length path then EntryUnobservable (PathTooLong (length path))
          else case rel_path_new path of
            Inr p \<Rightarrow> EntryPath p (nfc \<noteq> disk)
          | Inl PathReserved \<Rightarrow> EntryReserved
          | Inl e \<Rightarrow> EntryUnobservable (NotAName e))"

definition coinciding :: "(os_bytes \<times> disk_entry) list \<Rightarrow> (rel_path, os_bytes list) bmap" where
  "coinciding names =
     bm_filter (\<lambda>p disks. 1 < length disks)
       (fold (\<lambda>(disk, name) by_path. case name of
            EntryPath p _ \<Rightarrow>
              bm_insert p ((case bm_get by_path p of Some ds \<Rightarrow> ds | None \<Rightarrow> []) @ [disk]) by_path
          | _ \<Rightarrow> by_path) names bm_empty)"

definition names_dir :: "texts \<Rightarrow> rel_path option \<Rightarrow> os_bytes list \<Rightarrow> (os_bytes \<times> disk_entry) list" where
  "names_dir X parent names =
     (let mapped = map (\<lambda>disk. (disk, entry_name X parent disk)) names; both = coinciding mapped in
      map (\<lambda>(disk, name). (disk, case name of
           EntryPath p _ \<Rightarrow> if bm_has both p then EntryUnobservable (Coincides p) else name
         | _ \<Rightarrow> name)) mapped)"

section \<open>Ignore rules\<close>

definition DEFAULTS :: "string list" where
  "DEFAULTS = [''.DS_Store'', ''._*'', ''*.swp'', ''*~'', ''.#*'', ''.Trash*'']"

definition IGNORE_FILE :: string where
  "IGNORE_FILE = ''.delocalignore''"

record invalid_rule =
  iv_line :: nat
  iv_text :: string
  iv_reason :: string

record ignore_rules =
  ig_lines :: "(rule_source \<times> string) list"
  ig_invalid :: "invalid_rule list"

definition strip_cr :: "string \<Rightarrow> string" where
  "strip_cr l = (if l \<noteq> [] \<and> last l = CHR 0x0D then butlast l else l)"

definition rule_lines :: "string \<Rightarrow> string list" where
  "rule_lines s =
     (let ls = map strip_cr (split_on (CHR 0x0A) s) in if last ls = [] then butlast ls else ls)"

fun trim_bom :: "string \<Rightarrow> string" where
  "trim_bom (a # b # c # s) =
     (if a = CHR 0xEF \<and> b = CHR 0xBB \<and> c = CHR 0xBF then trim_bom s else a # b # c # s)"
| "trim_bom s = s"

fun add_rules :: "texts \<Rightarrow> nat \<Rightarrow> string list \<Rightarrow> ignore_rules \<Rightarrow> ignore_rules" where
  "add_rules X n [] ig = ig"
| "add_rules X n (l # ls) ig = add_rules X (Suc n) ls
     (if \<not> tx_utf8 X l then
        ig\<lparr>ig_invalid := ig_invalid ig @ [\<lparr>iv_line = n, iv_text = tx_lossy X l, iv_reason = ''not UTF-8''\<rparr>]\<rparr>
      else let text = (if n = 1 then trim_bom l else l); nfc = tx_nfc X text in
        case tx_line_error X nfc of
          Some why \<Rightarrow> ig\<lparr>ig_invalid := ig_invalid ig @ [\<lparr>iv_line = n, iv_text = text, iv_reason = why\<rparr>]\<rparr>
        | None \<Rightarrow> ig\<lparr>ig_lines := ig_lines ig @ [(FromUser, nfc)]\<rparr>)"

definition rules_new :: "texts \<Rightarrow> string option \<Rightarrow> io_error + ignore_rules" where
  "rules_new X user =
     (if \<exists>l \<in> set DEFAULTS. tx_line_error X l \<noteq> None then Inl IeInvalidData
      else let ig = add_rules X 1 (case user of Some s \<Rightarrow> rule_lines s | None \<Rightarrow> [])
                      \<lparr>ig_lines = map (Pair FromDefault) DEFAULTS, ig_invalid = []\<rparr> in
        if tx_builds X (ig_lines ig) then Inr ig else Inl IeInvalidData)"

definition rules_read :: "machine_oracle \<Rightarrow> texts \<Rightarrow> ('s, io_error + ignore_rules) act" where
  "rules_read M X =
     either (perform M (OpenRead [IGNORE_FILE]))
       (\<lambda>e. if e = IeNotFound then ret (rules_new X None) else ret (Inl e))
       (\<lambda>_. tri (read_to_end M [IGNORE_FILE]) (\<lambda>bytes. ret (rules_new X (Some bytes))))"

definition ignores_entry :: "texts \<Rightarrow> ignore_rules \<Rightarrow> rel_path \<Rightarrow> bool \<Rightarrow> bool" where
  "ignores_entry X ig p is_dir \<longleftrightarrow>
     (case tx_matched X (ig_lines ig) (path_str p) is_dir of GlobIgnore _ \<Rightarrow> True | _ \<Rightarrow> False)"

definition rules_ignore :: "texts \<Rightarrow> ignore_rules \<Rightarrow> rel_path \<Rightarrow> bool \<Rightarrow> bool" where
  "rules_ignore X ig p is_dir \<longleftrightarrow> (\<exists>d \<in> set (path_above p). ignores_entry X ig d True) \<or> ignores_entry X ig p is_dir"

definition entry_source :: "texts \<Rightarrow> ignore_rules \<Rightarrow> rel_path \<Rightarrow> bool \<Rightarrow> rule_source option" where
  "entry_source X ig p is_dir =
     (case tx_matched X (ig_lines ig) (path_str p) is_dir of GlobIgnore s \<Rightarrow> Some s | _ \<Rightarrow> None)"

fun first_source :: "texts \<Rightarrow> ignore_rules \<Rightarrow> rel_path list \<Rightarrow> rule_source option" where
  "first_source X ig [] = None"
| "first_source X ig (d # ds) =
     (case entry_source X ig d True of Some s \<Rightarrow> Some s | None \<Rightarrow> first_source X ig ds)"

definition rules_source :: "texts \<Rightarrow> ignore_rules \<Rightarrow> rel_path \<Rightarrow> bool \<Rightarrow> rule_source option" where
  "rules_source X ig p is_dir =
     (case first_source X ig (rev (path_above p)) of Some s \<Rightarrow> Some s | None \<Rightarrow> entry_source X ig p is_dir)"

section \<open>The mtime shim\<close>

type_synonym shims = "rel_path \<Rightarrow> shim option"

definition shim_reported :: "shims \<Rightarrow> rel_path \<Rightarrow> int \<Rightarrow> int" where
  "shim_reported sh p stored =
     (case sh p of Some s \<Rightarrow> if sh_stored s = stored then sh_requested s else stored | None \<Rightarrow> stored)"

definition shim_observed :: "shims \<Rightarrow> rel_path \<Rightarrow> observed \<Rightarrow> observed" where
  "shim_observed sh p ob =
     (if ob_kind ob = File then ob\<lparr>ob_mtime := shim_reported sh p (ob_mtime ob)\<rparr> else ob)"

definition shim_gone :: "folder_id \<Rightarrow> rel_path \<Rightarrow> shims \<Rightarrow> host_write option" where
  "shim_gone fid p sh = map_option (\<lambda>_. RemoveShim fid p) (sh p)"

definition shim_kept :: "folder_id \<Rightarrow> rel_path \<Rightarrow> int \<Rightarrow> int \<Rightarrow> shims \<Rightarrow> host_write option" where
  "shim_kept fid p requested stored sh =
     (if requested = stored then shim_gone fid p sh
      else let s = \<lparr>sh_path = p, sh_requested = requested, sh_stored = stored\<rparr> in
        if sh p \<noteq> Some s then Some (PutShim fid s) else None)"

definition shim_moved :: "folder_id \<Rightarrow> rel_path \<Rightarrow> rel_path \<Rightarrow> shims \<Rightarrow> host_write option" where
  "shim_moved fid src dst sh = map_option (\<lambda>s. PutShim fid (s\<lparr>sh_path := dst\<rparr>)) (sh src)"

end
