(* ===== verification/Reaching.thy ===== *)
theory Reaching
  imports Names
begin

text \<open>
  \<open>crates/delocal/src/tmp.rs\<close> and \<open>reach.rs\<close>: the folder's temp files, and getting from an index path to the
  entry on disk. A walk stops at a mount point; on a filesystem that folds names an entry counts as the path
  only if the parent's listing says so.
\<close>

section \<open>Temp files\<close>

definition TMP :: dpath where
  "TMP = [RESERVED_DIR, ''tmp'']"

definition HASH_PREFIX :: nat where
  "HASH_PREFIX = 16"

definition tmp_ensure :: "machine_oracle \<Rightarrow> ('s, io_error + unit) act" where
  "tmp_ensure M =
     either (lstat M TMP)
       (\<lambda>e. if e = IeNotFound then
              either (perform M (CreateDir TMP))
                (\<lambda>e. if e = IeAlreadyExists then ret (Inr ()) else ret (Inl e)) (\<lambda>u. ret (Inr u))
            else ret (Inl e))
       (\<lambda>st. if st_kind st = FkDir then ret (Inr ()) else ret (Inl IeNotADirectory))"

definition tmp_transfer :: "machine_oracle \<Rightarrow> content_hash \<Rightarrow> ('s, dpath) act" where
  "tmp_transfer M c =
     bnd (unique M) (\<lambda>u. ret (TMP @ [take HASH_PREFIX (write_hex (hash_bytes c)) @ ''-'' @ u]))"

definition tmp_scratch :: "machine_oracle \<Rightarrow> string \<Rightarrow> ('s, dpath) act" where
  "tmp_scratch M what = bnd (unique M) (\<lambda>u. ret (TMP @ [what @ ''-'' @ u]))"

definition tmp_claimed :: "texts \<Rightarrow> os_bytes \<Rightarrow> content_hash list \<Rightarrow> bool" where
  "tmp_claimed X name hashes \<longleftrightarrow>
     tx_utf8 X name \<and> CHR ''-'' \<in> set name \<and>
     (let prefix = takeWhile (\<lambda>c. c \<noteq> CHR ''-'') name in
      length prefix = HASH_PREFIX \<and>
      (\<exists>c \<in> set hashes. take HASH_PREFIX (write_hex (hash_bytes c)) = prefix))"

definition remove_one_unclaimed ::
    "machine_oracle \<Rightarrow> (os_bytes \<Rightarrow> bool) \<Rightarrow> os_bytes \<Rightarrow> os_bytes list \<Rightarrow> ('s, io_error + os_bytes list) act" where
  "remove_one_unclaimed M claims name removed =
     (if claims name then ret (Inr removed)
      else either (trying (\<lambda>e. e) (lstat M (TMP @ [name]))
             (\<lambda>st. if st_kind st = FkDir then perform M (RemoveDir (TMP @ [name]))
                   else perform M (RemoveFile (TMP @ [name]))))
        (\<lambda>e. if e = IeNotFound \<or> e = IeDirectoryNotEmpty then ret (Inr removed) else ret (Inl e))
        (\<lambda>_. ret (Inr (removed @ [name]))))"

definition remove_unclaimed ::
    "machine_oracle \<Rightarrow> (os_bytes \<Rightarrow> bool) \<Rightarrow> ('s, io_error + os_bytes list) act" where
  "remove_unclaimed M claims =
     either (read_dir M TMP)
       (\<lambda>e. if e = IeNotFound then ret (Inr []) else ret (Inl e))
       (\<lambda>names. try_folding (remove_one_unclaimed M claims) names [])"

section \<open>Paths on disk\<close>

type_synonym disk_names = "rel_path \<Rightarrow> os_bytes option"

definition joined_index :: "rel_path option \<Rightarrow> string \<Rightarrow> rel_path_error + rel_path" where
  "joined_index parent c = (case parent of Some d \<Rightarrow> path_join d c | None \<Rightarrow> rel_path_new c)"

fun disk_from :: "disk_names \<Rightarrow> rel_path option \<Rightarrow> string list \<Rightarrow> dpath" where
  "disk_from names prefix [] = []"
| "disk_from names prefix (c # cs) =
     (case joined_index prefix c of
        Inl _ \<Rightarrow> c # disk_from names prefix cs
      | Inr index \<Rightarrow>
          (case names index of Some name \<Rightarrow> name | None \<Rightarrow> c) # disk_from names (Some index) cs)"

definition disk_path :: "rel_path \<Rightarrow> disk_names \<Rightarrow> dpath" where
  "disk_path p names = disk_from names None (path_components p)"

section \<open>How the filesystem compares names\<close>

record sensitivity =
  folds_case :: bool
  folds_normalisation :: bool

definition sn_folds :: "sensitivity \<Rightarrow> bool" where
  "sn_folds sn \<longleftrightarrow> folds_case sn \<or> folds_normalisation sn"

definition ascii_upper :: "char \<Rightarrow> char" where
  "ascii_upper c =
     (let n = of_char c :: nat in if 97 \<le> n \<and> n \<le> 122 then char_of (n - 32) else c)"

definition probe_folds :: "machine_oracle \<Rightarrow> dpath \<Rightarrow> dpath \<Rightarrow> ('s, io_error + bool) act" where
  "probe_folds M made other =
     tri (perform M (CreateNew made)) (\<lambda>_.
       bnd (lstat M other) (\<lambda>found.
         tri (perform M (RemoveFile made)) (\<lambda>_.
           ret (case found of
                Inr _ \<Rightarrow> Inr True
              | Inl e \<Rightarrow> if e = IeNotFound then Inr False else Inl e))))"

definition probe :: "machine_oracle \<Rightarrow> ('s, io_error + sensitivity) act" where
  "probe M =
     bnd (unique M) (\<lambda>u.
       tri (probe_folds M (TMP @ [''probe-'' @ u @ ''-case'']) (TMP @ [''PROBE-'' @ map ascii_upper u @ ''-CASE'']))
         (\<lambda>by_case.
       tri (probe_folds M (TMP @ [''probe-'' @ u @ ''-'' @ [CHR 0xC3, CHR 0xA9]])
              (TMP @ [''probe-'' @ u @ ''-e'' @ [CHR 0xCC, CHR 0x81]])) (\<lambda>by_form.
       ret (Inr \<lparr>folds_case = by_case, folds_normalisation = by_form\<rparr>))))"

definition fold_name :: "texts \<Rightarrow> string \<Rightarrow> string" where
  "fold_name X name = tx_nfc X (tx_lowercase X name)"

definition same_name :: "texts \<Rightarrow> sensitivity \<Rightarrow> string \<Rightarrow> string \<Rightarrow> bool" where
  "same_name X sn a b \<longleftrightarrow> a = b \<or> (folds_case sn \<and> fold_name X a = fold_name X b)"

definition collides :: "texts \<Rightarrow> sensitivity \<Rightarrow> rel_path \<Rightarrow> rel_path \<Rightarrow> bool" where
  "collides X sn p other \<longleftrightarrow>
     (let to = path_components p; from = path_components other in
      length from \<le> length to \<and> from \<noteq> take (length from) to \<and>
      list_all (\<lambda>(a, b). same_name X sn a b) (zip from to))"

definition collision :: "texts \<Rightarrow> sensitivity \<Rightarrow> rel_path \<Rightarrow> rel_path list \<Rightarrow> rel_path option" where
  "collision X sn p live = (if \<not> folds_case sn then None else find (collides X sn p) live)"

section \<open>Walking and looking\<close>

datatype walk = Reached | MissingAt rel_path | NotADirectoryAt rel_path | CrossedAt rel_path

fun walk_from :: "machine_oracle \<Rightarrow> u64 \<Rightarrow> rel_path option \<Rightarrow> dpath \<Rightarrow> (string \<times> os_bytes) list
    \<Rightarrow> ('s, io_error + walk) act" where
  "walk_from M dev index on_disk [] = ret (Inr Reached)"
| "walk_from M dev index on_disk ((c, name) # rest) =
     (case joined_index index c of
        Inl _ \<Rightarrow> ret (Inl IeInvalidInput)
      | Inr at \<Rightarrow>
          either (lstat M (on_disk @ [name]))
            (\<lambda>e. if e = IeNotFound then ret (Inr (MissingAt at))
                 else if parent_not_a_directory e then ret (Inr (NotADirectoryAt at))
                 else ret (Inl e))
            (\<lambda>st. if st_kind st \<noteq> FkDir then ret (Inr (NotADirectoryAt at))
                  else if st_dev st \<noteq> dev then ret (Inr (CrossedAt at))
                  else walk_from M dev (Some at) (on_disk @ [name]) rest))"

definition walk_to :: "machine_oracle \<Rightarrow> rel_path \<Rightarrow> dpath \<Rightarrow> u64 \<Rightarrow> ('s, io_error + walk) act" where
  "walk_to M p disk dev = walk_from M dev None [] (take (path_depth p - 1) (zip (path_components p) disk))"

text \<open>The directories in a listing, or \<open>None\<close> at one on another device.\<close>

definition mounted_child ::
    "machine_oracle \<Rightarrow> u64 \<Rightarrow> dpath \<Rightarrow> os_bytes \<Rightarrow> dpath list option \<Rightarrow> ('s, io_error + dpath list option) act" where
  "mounted_child M dev dir name found =
     (case found of
        None \<Rightarrow> ret (Inr None)
      | Some todo \<Rightarrow>
          either (lstat M (dir @ [name]))
            (\<lambda>e. if e = IeNotFound then ret (Inr (Some todo)) else ret (Inl e))
            (\<lambda>st. if st_kind st = FkDir then
                    if st_dev st \<noteq> dev then ret (Inr None) else ret (Inr (Some ((dir @ [name]) # todo)))
                  else ret (Inr (Some todo))))"

partial_function (option) mounted_from ::
    "machine_oracle \<Rightarrow> u64 \<Rightarrow> dpath list \<Rightarrow> 's host \<Rightarrow> ((io_error + bool) \<times> 's host) option" where
  "mounted_from M dev todo h =
     (case todo of
        [] \<Rightarrow> ret (Inr False) h
      | dir # rest \<Rightarrow>
          tri (read_dir M dir) (\<lambda>names.
            tri (try_folding (mounted_child M dev dir) names (Some rest)) (\<lambda>found h.
              case found of
                None \<Rightarrow> ret (Inr True) h
              | Some todo \<Rightarrow> mounted_from M dev todo h)) h)"

definition mounted_beneath :: "machine_oracle \<Rightarrow> dpath \<Rightarrow> u64 \<Rightarrow> ('s, io_error + bool) act" where
  "mounted_beneath M dir dev = mounted_from M dev [dir]"

datatype exact = ExactOne os_bytes | ExactNone | ExactCoinciding

definition exact_name :: "machine_oracle \<Rightarrow> texts \<Rightarrow> dpath \<Rightarrow> rel_path \<Rightarrow> ('s, io_error + exact) act" where
  "exact_name M X parent p =
     tri (read_dir M parent) (\<lambda>listed.
       let found = List.map_filter (\<lambda>(disk, name). case name of
               EntryPath index _ \<Rightarrow> if index = p then Some (Some disk) else None
             | EntryUnobservable (Coincides index) \<Rightarrow> if index = p then Some None else None
             | _ \<Rightarrow> None) (names_dir X (path_parent p) listed)
       in ret (Inr (case found of [] \<Rightarrow> ExactNone | [Some one] \<Rightarrow> ExactOne one | _ \<Rightarrow> ExactCoinciding)))"

definition taken_by ::
    "machine_oracle \<Rightarrow> texts \<Rightarrow> dpath \<Rightarrow> rel_path \<Rightarrow> sensitivity \<Rightarrow> ('s, io_error + os_bytes option) act" where
  "taken_by M X parent p sn =
     tri (read_dir M parent) (\<lambda>listed.
       ret (Inr (find (\<lambda>disk. tx_utf8 X disk \<and> same_name X sn (tx_nfc X disk) (file_name p)) listed)))"

datatype look = LookAbsent | LookPresent os_bytes stat "observed option" | LookTaken os_bytes | LookCoinciding

definition EXEC_BIT :: "32 word" where
  "EXEC_BIT = 64"

definition seen_at :: "machine_oracle \<Rightarrow> texts \<Rightarrow> dpath \<Rightarrow> os_bytes \<Rightarrow> stat \<Rightarrow> ('s, io_error + look) act" where
  "seen_at M X parent name st =
     (case st_kind st of
        FkFile \<Rightarrow> ret (Inr (LookPresent name st (Some
          \<lparr>ob_kind = File, ob_size = st_size st, ob_mtime = st_mtime st,
           ob_exec = (Bit_Operations.and (st_mode st) EXEC_BIT \<noteq> 0), ob_hash = EMPTY\<rparr>)))
      | FkDir \<Rightarrow> ret (Inr (LookPresent name st (Some
          \<lparr>ob_kind = Dir, ob_size = 0, ob_mtime = 0, ob_exec = False, ob_hash = EMPTY\<rparr>)))
      | FkSymlink \<Rightarrow>
          either (read_link M (parent @ [name]))
            (\<lambda>e. if e = IeNotFound then ret (Inr LookAbsent) else ret (Inl e))
            (\<lambda>target. ret (Inr (LookPresent name st (Some
               \<lparr>ob_kind = Symlink, ob_size = of_nat (length target), ob_mtime = 0, ob_exec = False,
                ob_hash = hash_target X target\<rparr>))))
      | FkOther \<Rightarrow> ret (Inr (LookPresent name st None)))"

definition look_at ::
    "machine_oracle \<Rightarrow> texts \<Rightarrow> dpath \<Rightarrow> rel_path \<Rightarrow> os_bytes \<Rightarrow> sensitivity \<Rightarrow> ('s, io_error + look) act" where
  "look_at M X parent p name sn =
     either (lstat M (parent @ [name]))
       (\<lambda>e. if e = IeNotFound \<or> parent_not_a_directory e then ret (Inr LookAbsent) else ret (Inl e))
       (\<lambda>st. if sn_folds sn then
               tri (exact_name M X parent p) (\<lambda>x. case x of
                 ExactCoinciding \<Rightarrow> ret (Inr LookCoinciding)
               | ExactNone \<Rightarrow> tri (taken_by M X parent p sn) (\<lambda>by.
                   ret (Inr (LookTaken (case by of Some n \<Rightarrow> n | None \<Rightarrow> name))))
               | ExactOne found \<Rightarrow>
                   either (lstat M (parent @ [found]))
                     (\<lambda>e. if e = IeNotFound then ret (Inr LookAbsent) else ret (Inl e))
                     (\<lambda>st. seen_at M X parent found st))
             else seen_at M X parent name st)"

end
