(* ===== verification/Trashes.thy ===== *)
theory Trashes
  imports Reaching
begin

text \<open>
  \<open>crates/delocal/src/trash.rs\<close>: where an entry moved into the trash goes, how a free name there is found, and
  what prunes and reconciles the trash. Loops over what the disk answers may not end and are partial functions;
  the search for a free number always ends (\<open>free_number_returns\<close>).
\<close>

section \<open>Names in the trash\<close>

definition TRASH :: dpath where
  "TRASH = [RESERVED_DIR, ''trash'']"

record policy =
  po_max_age :: int
  po_max_bytes :: u64

definition policy_default :: policy where
  "policy_default = \<lparr>po_max_age = 30 * (86400 * 1000000000), po_max_bytes = 10 * 1024 * 1024 * 1024\<rparr>"

definition trash_day :: "timestamp \<Rightarrow> string" where
  "trash_day at =
     (let date = takeWhile (\<lambda>c. c \<noteq> CHR ''-'') (format_utc_compact at); n = length date - 4;
          month_day = drop n date
      in take n date @ ''-'' @ take 2 month_day @ ''-'' @ drop 2 month_day)"

definition numbered :: "string \<Rightarrow> kind \<Rightarrow> nat \<Rightarrow> string" where
  "numbered name k n =
     (if n = 0 then name
      else let (stem, ext) = split_name name k in fit stem (CHR ''~'' # dec_digits n) ext MAX_COMPONENT_LEN)"

record place =
  pl_disk :: dpath
  pl_row :: dpath

record moving =
  mv_original :: rel_path
  mv_kind :: kind
  mv_hash :: content_hash
  mv_size :: u64
  mv_at :: timestamp

definition moving_row :: "moving \<Rightarrow> place \<Rightarrow> trash_row" where
  "moving_row what pl =
     \<lparr>tr_trashed_path = path_bytes (pl_row pl), tr_original_path = mv_original what, tr_hash = mv_hash what,
      tr_trashed_at = mv_at what, tr_size = mv_size what\<rparr>"

datatype not_moved = NmGone | NmFailed io_error

definition trash_own :: "io_error \<Rightarrow> io_error" where
  "trash_own e =
     (if e = IeNotFound \<or> is_not_a_directory e \<or> e = IeAlreadyExists \<or> e = IeDirectoryNotEmpty \<or> not_a_file e
      then IeOther else e)"

section \<open>A free number\<close>

definition U32_MAX :: nat where
  "U32_MAX = 4294967295"

partial_function (option) gallop ::
    "(nat \<Rightarrow> ('s, io_error + bool) act) \<Rightarrow> nat \<Rightarrow> nat \<Rightarrow> 's host
     \<Rightarrow> ((io_error + nat \<times> nat) \<times> 's host) option" where
  "gallop taken low step h =
     (if U32_MAX < low + step then ret (Inl IeOther) h
      else tri (taken (low + step)) (\<lambda>t h.
             if t then gallop taken (low + step) (min U32_MAX (step * 2)) h
             else ret (Inr (low, low + step)) h) h)"

function halve :: "(nat \<Rightarrow> ('s, io_error + bool) act) \<Rightarrow> nat \<Rightarrow> nat \<Rightarrow> ('s, io_error + nat) act" where
  "halve taken low high =
     (if high - low \<le> 1 then ret (Inr high)
      else tri (taken (low + (high - low) div 2)) (\<lambda>t.
             if t then halve taken (low + (high - low) div 2) high
             else halve taken low (low + (high - low) div 2)))"
  by pat_completeness auto
termination
  by (relation "measure (\<lambda>(taken, low, high). high - low)") auto

declare halve.simps [simp del]

definition free_number :: "(nat \<Rightarrow> ('s, io_error + bool) act) \<Rightarrow> nat \<Rightarrow> ('s, io_error + nat) act" where
  "free_number taken n =
     tri (taken n) (\<lambda>t.
       if t then tri (gallop taken n 1) (\<lambda>(low, high). halve taken low high) else ret (Inr n))"

section \<open>The directories above an entry\<close>

datatype directory = Made | Found | Taken

partial_function (option) trash_directory :: "machine_oracle \<Rightarrow> dpath \<Rightarrow> 's host \<Rightarrow> ((io_error + directory) \<times> 's host) option" where
  "trash_directory M at h =
     either (lstat M (TRASH @ at))
       (\<lambda>e h. if e = IeNotFound then
              either (perform M (CreateDir (TRASH @ at)))
                (\<lambda>e h. if e = IeAlreadyExists then trash_directory M at h else ret (Inl e) h)
                (\<lambda>_. ret (Inr Made)) h
            else ret (Inl e) h)
       (\<lambda>st. ret (Inr (if st_kind st = FkDir then Found else Taken))) h"

definition trash_exact :: "machine_oracle \<Rightarrow> dpath \<Rightarrow> ('s, io_error + bool) act" where
  "trash_exact M at =
     (if at = [] then ret (Inr True)
      else tri (read_dir M (TRASH @ dparent at)) (\<lambda>names. ret (Inr (last at \<in> set names))))"

definition usable_dir :: "machine_oracle \<Rightarrow> dpath \<Rightarrow> ('s, io_error + bool) act" where
  "usable_dir M at =
     tri (trash_directory M at) (\<lambda>d. case d of
       Made \<Rightarrow> ret (Inr True) | Found \<Rightarrow> trash_exact M at | Taken \<Rightarrow> ret (Inr False))"

text \<open>The number is a \<open>u32\<close> that is only ever incremented.\<close>

partial_function (option) numbered_dir ::
    "machine_oracle \<Rightarrow> dpath \<Rightarrow> string \<Rightarrow> nat \<Rightarrow> 's host \<Rightarrow> ((io_error + dpath) \<times> 's host) option" where
  "numbered_dir M at name n h =
     tri (usable_dir M (at @ [numbered name Dir n])) (\<lambda>usable h.
       if usable then ret (Inr (at @ [numbered name Dir n])) h
       else numbered_dir M at name (Suc n mod (U32_MAX + 1)) h) h"

definition trash_parents :: "machine_oracle \<Rightarrow> string \<Rightarrow> rel_path \<Rightarrow> ('s, io_error + dpath) act" where
  "trash_parents M date original =
     tri (trash_directory M []) (\<lambda>d.
     if d = Taken then ret (Inl IeOther)
     else tri (trash_directory M [date]) (\<lambda>d.
     if d = Taken then ret (Inl IeOther)
     else try_folding (\<lambda>name at. numbered_dir M at name 0) (butlast (path_components original)) [date]))"

section \<open>Moving in\<close>

definition place_at :: "dpath \<Rightarrow> moving \<Rightarrow> nat \<Rightarrow> place" where
  "place_at parent what n =
     (let row = parent @ [numbered (file_name (mv_original what)) (mv_kind what) n]
      in \<lparr>pl_disk = TRASH @ row, pl_row = row\<rparr>)"

definition place_taken :: "machine_oracle \<Rightarrow> dpath \<Rightarrow> moving \<Rightarrow> nat \<Rightarrow> ('s, io_error + bool) act" where
  "place_taken M parent what n =
     either (lstat M (pl_disk (place_at parent what n)))
       (\<lambda>e. if e = IeNotFound then ret (Inr False) else ret (Inl e)) (\<lambda>_. ret (Inr True))"

text \<open>\<open>before\<close> is a closure with a state of its own, \<open>l\<close>.\<close>

partial_function (option) move_from ::
    "machine_oracle \<Rightarrow> dpath \<Rightarrow> moving \<Rightarrow> dpath \<Rightarrow> (place \<Rightarrow> 'l \<Rightarrow> ('s, (io_error + unit) \<times> 'l) act) \<Rightarrow> nat \<Rightarrow> 'l
     \<Rightarrow> 's host \<Rightarrow> (((not_moved + place \<times> refusing) \<times> 'l) \<times> 's host) option" where
  "move_from M src what parent before start l h =
     either (free_number (place_taken M parent what) start)
       (\<lambda>e. ret (Inl (NmFailed (trash_own e)), l))
       (\<lambda>n. bnd (before (place_at parent what n) l) (\<lambda>rl.
          either (ret (fst rl))
            (\<lambda>e. ret (Inl (NmFailed e), snd rl))
            (\<lambda>_. either (rename_refusing M src (pl_disk (place_at parent what n)))
               (\<lambda>e h. if e = IeAlreadyExists then
                      if n = U32_MAX then ret (Inl (NmFailed IeOther), snd rl) h
                      else move_from M src what parent before (Suc n) (snd rl) h
                    else either (lstat M src)
                      (\<lambda>gone. ret (Inl (if gone = IeNotFound \<or> parent_not_a_directory gone then NmGone
                                        else NmFailed (trash_own e)), snd rl))
                      (\<lambda>_. ret (Inl (NmFailed (trash_own e)), snd rl)) h)
               (\<lambda>how. ret (Inr (place_at parent what n, how), snd rl))))) h"

definition move_in ::
    "machine_oracle \<Rightarrow> dpath \<Rightarrow> moving \<Rightarrow> (place \<Rightarrow> 'l \<Rightarrow> ('s, (io_error + unit) \<times> 'l) act) \<Rightarrow> 'l
     \<Rightarrow> ('s, (not_moved + place \<times> refusing) \<times> 'l) act" where
  "move_in M src what before l =
     either (trash_parents M (trash_day (mv_at what)) (mv_original what))
       (\<lambda>e. ret (Inl (NmFailed (trash_own e)), l))
       (\<lambda>parent. move_from M src what parent before 0 l)"

section \<open>Sizing, removing, pruning\<close>

definition u64_sat_add :: "u64 \<Rightarrow> u64 \<Rightarrow> u64" where
  "u64_sat_add a b = (if 2 ^ 64 \<le> unat a + unat b then - 1 else a + b)"

partial_function (option) size_of :: "machine_oracle \<Rightarrow> u64 \<Rightarrow> dpath \<Rightarrow> 's host \<Rightarrow> (u64 \<times> 's host) option" where
  "size_of M dev p h =
     either (lstat M p) (\<lambda>_. ret 0)
       (\<lambda>st h. if st_kind st = FkDir then
              if st_dev st \<noteq> dev then ret 0 h
              else either (read_dir M p) (\<lambda>_. ret 0)
                (\<lambda>names. folding (\<lambda>name used. bnd (size_of M dev (p @ [name])) (\<lambda>n. ret (u64_sat_add used n)))
                   names 0) h
            else if st_kind st = FkOther then ret 0 h else ret (st_size st) h) h"

partial_function (option) remove_all ::
    "machine_oracle \<Rightarrow> u64 \<Rightarrow> dpath \<Rightarrow> 's host \<Rightarrow> ((io_error + unit) \<times> 's host) option" where
  "remove_all M dev p h =
     either (lstat M p)
       (\<lambda>e. if e = IeNotFound then ret (Inr ()) else ret (Inl e))
       (\<lambda>st h. if st_kind st = FkDir then
              if st_dev st \<noteq> dev then ret (Inl IeOther) h
              else tri (read_dir M p) (\<lambda>names.
                tri (try_folding (\<lambda>name _. remove_all M dev (p @ [name])) names ()) (\<lambda>_.
                either (perform M (RemoveDir p))
                  (\<lambda>e. if e = IeNotFound then ret (Inr ()) else ret (Inl e)) (\<lambda>_. ret (Inr ())))) h
            else either (perform M (RemoveFile p))
              (\<lambda>e. if e = IeNotFound then ret (Inr ()) else ret (Inl e)) (\<lambda>_. ret (Inr ())) h) h"

fun remove_up :: "machine_oracle \<Rightarrow> dpath list \<Rightarrow> ('s, unit) act" where
  "remove_up M [] = ret ()"
| "remove_up M (d # ds) = either (perform M (RemoveDir (TRASH @ d))) (\<lambda>_. ret ()) (\<lambda>_. remove_up M ds)"

definition remove_empty_parents :: "machine_oracle \<Rightarrow> dpath \<Rightarrow> ('s, unit) act" where
  "remove_empty_parents M row = remove_up M (map (\<lambda>n. take n row) (rev [1..<length row]))"

record pruned =
  pr_writes :: "host_write list"
  pr_failed :: "(dpath \<times> io_error) list"

fun prune_rows :: "machine_oracle \<Rightarrow> folder_id \<Rightarrow> timestamp \<Rightarrow> policy \<Rightarrow> u64 \<Rightarrow> trash_row list \<Rightarrow> u64 \<Rightarrow> pruned
    \<Rightarrow> ('s, pruned) act" where
  "prune_rows M fid now po dev [] used pr = ret pr"
| "prune_rows M fid now po dev (row # rows) used pr =
     (if \<not> po_max_age po < since now (tr_trashed_at row) \<and> used \<le> po_max_bytes po then ret pr
      else either (remove_all M dev (TRASH @ bytes_path (tr_trashed_path row)))
        (\<lambda>e. prune_rows M fid now po dev rows used
           (pr\<lparr>pr_failed := pr_failed pr @ [(bytes_path (tr_trashed_path row), e)]\<rparr>))
        (\<lambda>_. bnd (remove_empty_parents M (bytes_path (tr_trashed_path row))) (\<lambda>_.
           prune_rows M fid now po dev rows (if used < tr_size row then 0 else used - tr_size row)
             (pr\<lparr>pr_writes := pr_writes pr @ [RemoveTrash fid (tr_trashed_path row)]\<rparr>))))"

definition prune :: "machine_oracle \<Rightarrow> folder_id \<Rightarrow> trash_row list \<Rightarrow> timestamp \<Rightarrow> policy \<Rightarrow> ('s, pruned) act" where
  "prune M fid rows now po =
     (let rows = sort_key (\<lambda>r. (tr_trashed_at r, bytes_path (tr_trashed_path r))) rows;
          used = fold (\<lambda>r n. u64_sat_add n (tr_size r)) rows 0
      in either (lstat M [])
           (\<lambda>e. ret \<lparr>pr_writes = [], pr_failed = [([], e)]\<rparr>)
           (\<lambda>st. prune_rows M fid now po (st_dev st) rows used \<lparr>pr_writes = [], pr_failed = []\<rparr>))"

section \<open>Reconciling\<close>

definition trash_hash_file :: "machine_oracle \<Rightarrow> texts \<Rightarrow> dpath \<Rightarrow> ('s, io_error + content_hash) act" where
  "trash_hash_file M X p =
     tri (perform M (OpenRead p)) (\<lambda>_. tri (read_to_end M p) (\<lambda>bytes. ret (Inr (tx_blake3 X bytes))))"

definition trash_original :: "texts \<Rightarrow> dpath \<Rightarrow> rel_path option" where
  "trash_original X row =
     (if row = [] \<or> \<not> list_all (\<lambda>c. c \<noteq> ''..'' \<and> tx_utf8 X c) (tl row) then None
      else case rel_path_new (join_on (CHR ''/'') (tl row)) of Inr p \<Rightarrow> Some p | Inl _ \<Rightarrow> None)"

definition drop_missing :: "machine_oracle \<Rightarrow> folder_id \<Rightarrow> trash_row \<Rightarrow> host_write list \<Rightarrow> ('s, host_write list) act" where
  "drop_missing M fid row ws =
     either (lstat M (TRASH @ bytes_path (tr_trashed_path row)))
       (\<lambda>e. ret (if e = IeNotFound then ws @ [RemoveTrash fid (tr_trashed_path row)] else ws))
       (\<lambda>_. ret ws)"

definition adopt_row ::
    "machine_oracle \<Rightarrow> texts \<Rightarrow> folder_id \<Rightarrow> timestamp \<Rightarrow> u64 \<Rightarrow> dpath \<Rightarrow> dpath list \<times> host_write list
     \<Rightarrow> ('s, dpath list \<times> host_write list) act" where
  "adopt_row M X fid now dev row acc =
     either (lstat M (TRASH @ row)) (\<lambda>_. ret acc)
       (\<lambda>st. let put = (\<lambda>r. case (r, trash_original X row) of
              (Inr c, Some original) \<Rightarrow> ret (fst acc, snd acc @ [PutTrash fid
                \<lparr>tr_trashed_path = path_bytes row, tr_original_path = original, tr_hash = c,
                 tr_trashed_at = now, tr_size = st_size st\<rparr>])
            | _ \<Rightarrow> ret acc)
          in case st_kind st of
            FkDir \<Rightarrow> ret (if st_dev st \<noteq> dev then acc else (row # fst acc, snd acc))
          | FkFile \<Rightarrow> bnd (trash_hash_file M X (TRASH @ row)) put
          | FkSymlink \<Rightarrow> bnd (trying (\<lambda>e. e) (read_link M (TRASH @ row)) (\<lambda>t. ret (Inr (hash_target X t)))) put
          | FkOther \<Rightarrow> ret acc)"

partial_function (option) reconcile_from ::
    "machine_oracle \<Rightarrow> texts \<Rightarrow> folder_id \<Rightarrow> timestamp \<Rightarrow> u64 \<Rightarrow> dpath list \<Rightarrow> dpath list \<times> host_write list \<Rightarrow> 's host
     \<Rightarrow> (host_write list \<times> 's host) option" where
  "reconcile_from M X fid now dev known acc h =
     (case fst acc of
        [] \<Rightarrow> ret (snd acc) h
      | dir # stack \<Rightarrow>
          either (read_dir M (TRASH @ dir))
            (\<lambda>_. reconcile_from M X fid now dev known (stack, snd acc))
            (\<lambda>names. bnd (folding (\<lambda>name acc.
                 if dir @ [name] \<in> set known then ret acc else adopt_row M X fid now dev (dir @ [name]) acc)
               names (stack, snd acc)) (reconcile_from M X fid now dev known)) h)"

definition reconcile ::
    "machine_oracle \<Rightarrow> texts \<Rightarrow> folder_id \<Rightarrow> trash_row list \<Rightarrow> timestamp \<Rightarrow> ('s, host_write list) act" where
  "reconcile M X fid rows now =
     either (lstat M []) (\<lambda>_. ret [])
       (\<lambda>st. bnd (folding (drop_missing M fid) rows []) (\<lambda>ws.
          reconcile_from M X fid now (st_dev st) (map (\<lambda>r. bytes_path (tr_trashed_path r)) rows) ([[]], ws)))"

end
