(* ===== verification/Observers.thy ===== *)
theory Observers
  imports Trashes
begin

text \<open>
  \<open>Observer\<close> of \<open>crates/delocal/src/scan.rs\<close> with \<open>scan/hash.rs\<close> and \<open>scan/stability.rs\<close>: one path observed as a
  scan would report it, and what the host keeps of a folder's disk from one operation to the next.
\<close>

section \<open>What the host keeps\<close>

datatype unresolved =
    Displaced (or_at: dpath) (or_back: dpath) (or_trash: "dpath option") (or_temp: dpath)
  | Unsynced "dpath list"

record first_look =
  fl_size :: u64
  fl_mtime :: int
  fl_ctime :: int
  fl_at :: int

text \<open>\<open>DiskState\<close>, and \<open>Stability\<close>'s first looks.\<close>

record disk_state =
  ds_sensitivity :: "sensitivity option"
  ds_narrower :: bool
  ds_open :: "(rel_path, unresolved) bmap"
  ds_looks :: "(rel_path, first_look) bmap"

definition disk_new :: disk_state where
  "disk_new = \<lparr>ds_sensitivity = None, ds_narrower = False, ds_open = bm_empty, ds_looks = bm_empty\<rparr>"

type_synonym 'a disk_act = "(disk_state, 'a) act"

definition row_open :: "disk_state \<Rightarrow> rel_path \<Rightarrow> bool" where
  "row_open ds p \<longleftrightarrow> list_ex (\<lambda>q. q = p \<or> is_ancestor_of q p) (bm_keys (ds_open ds))"

definition open_row_put :: "rel_path \<Rightarrow> unresolved \<Rightarrow> disk_state \<Rightarrow> disk_state" where
  "open_row_put p r ds = ds\<lparr>ds_open := bm_insert p r (ds_open ds)\<rparr>"

definition open_row_gone :: "rel_path \<Rightarrow> disk_state \<Rightarrow> disk_state" where
  "open_row_gone p ds = ds\<lparr>ds_open := bm_remove p (ds_open ds)\<rparr>"

definition disk_renamed :: "refusing \<Rightarrow> disk_state \<Rightarrow> disk_state" where
  "disk_renamed how ds = (if how = Checked then ds\<lparr>ds_narrower := True\<rparr> else ds)"

definition disk_sensitivity :: "machine_oracle \<Rightarrow> (io_error + sensitivity) disk_act" where
  "disk_sensitivity M =
     bnd kept (\<lambda>ds. case ds_sensitivity ds of
       Some known \<Rightarrow> ret (Inr known)
     | None \<Rightarrow> tri (tmp_ensure M) (\<lambda>_. tri (probe M) (\<lambda>probed.
         bnd (keep (\<lambda>ds. ds\<lparr>ds_sensitivity := Some probed\<rparr>)) (\<lambda>_. ret (Inr probed)))))"

section \<open>Settled and hashed\<close>

definition SETTLE_NANOS :: int where
  "SETTLE_NANOS = 2000000000"

definition is_settled :: "int \<Rightarrow> timestamp \<Rightarrow> bool" where
  "is_settled ctime now \<longleftrightarrow> SETTLE_NANOS \<le> since now ctime"

definition same_look :: "first_look \<Rightarrow> stat \<Rightarrow> bool" where
  "same_look l st \<longleftrightarrow> fl_size l = st_size st \<and> fl_mtime l = st_mtime st \<and> fl_ctime l = st_ctime st"

definition settled_at :: "timestamp \<Rightarrow> int \<Rightarrow> rel_path \<Rightarrow> stat \<Rightarrow> disk_state \<Rightarrow> bool \<times> disk_state" where
  "settled_at real now p st ds =
     (if st_ctime st \<le> real then (is_settled (st_ctime st) real, ds\<lparr>ds_looks := bm_remove p (ds_looks ds)\<rparr>)
      else case bm_get (ds_looks ds) p of
        Some l \<Rightarrow>
          if same_look l st then (SETTLE_NANOS \<le> max 0 (now - fl_at l), ds)
          else (False, ds\<lparr>ds_looks := bm_insert p \<lparr>fl_size = st_size st, fl_mtime = st_mtime st,
                  fl_ctime = st_ctime st, fl_at = now\<rparr> (ds_looks ds)\<rparr>)
      | None \<Rightarrow> (False, ds\<lparr>ds_looks := bm_insert p \<lparr>fl_size = st_size st, fl_mtime = st_mtime st,
                  fl_ctime = st_ctime st, fl_at = now\<rparr> (ds_looks ds)\<rparr>))"

definition is_stable :: "machine_oracle \<Rightarrow> rel_path \<Rightarrow> stat \<Rightarrow> bool disk_act" where
  "is_stable M p st =
     bnd (instant_read M) (\<lambda>now. bnd (realtime_read M) (\<lambda>real. bnd kept (\<lambda>ds.
       bnd (keep (\<lambda>ds. snd (settled_at real now p st ds))) (\<lambda>_. ret (fst (settled_at real now p st ds))))))"

definition stat_same :: "stat \<Rightarrow> stat \<Rightarrow> bool" where
  "stat_same before after \<longleftrightarrow>
     st_size before = st_size after \<and> st_mtime before = st_mtime after \<and> st_ctime before = st_ctime after"

datatype hashed = Stable content_hash | UnstableHash | Vanished | HashFailed io_error

definition hash_file :: "machine_oracle \<Rightarrow> texts \<Rightarrow> dpath \<Rightarrow> stat \<Rightarrow> ('s, hashed) act" where
  "hash_file M X p before =
     either (perform M (OpenRead p))
       (\<lambda>e. ret (if e = IeNotFound then Vanished else if not_a_file e then UnstableHash else HashFailed e))
       (\<lambda>_. either (read_to_end M p) (\<lambda>e. ret (HashFailed e))
         (\<lambda>bytes. either (lstat M p)
            (\<lambda>e. ret (if e = IeNotFound then Vanished else HashFailed e))
            (\<lambda>after. ret (if stat_same before after \<and> length bytes = unat (st_size before)
                          then Stable (tx_blake3 X bytes) else UnstableHash))))"

section \<open>One path observed\<close>

record records =
  rc_live :: "rel_path \<Rightarrow> entry option"
  rc_entries :: "entry list"

definition index_records :: "index \<Rightarrow> records" where
  "index_records ix =
     \<lparr>rc_live = (\<lambda>p. map_option ir_entry (ix_live ix p)), rc_entries = map ir_entry (live_records ix)\<rparr>"

text \<open>What \<open>Commit\<close> and \<open>Observer\<close> have from the host.\<close>

record commit =
  cm_id :: folder_id
  cm_machine :: machine_oracle
  cm_texts :: texts
  cm_records :: records
  cm_names :: disk_names
  cm_shims :: shims

definition skipped_for :: "io_error \<Rightarrow> scan_state" where
  "skipped_for e =
     Skipped (if e = IePermissionDenied then PermissionDenied
              else if not_a_file e \<or> is_not_a_directory e then Unstable else SkipIo)"

definition ignore_file_reason :: "io_error \<Rightarrow> skip_reason" where
  "ignore_file_reason e = (if e = IePermissionDenied then PermissionDenied else SkipIo)"

definition or_absent :: "commit \<Rightarrow> ignore_rules \<Rightarrow> rel_path \<Rightarrow> scan_state" where
  "or_absent cm ig p =
     (let tracked_dir = (case rc_live (cm_records cm) p of Some r \<Rightarrow> e_kind r = Dir | None \<Rightarrow> False)
      in if rules_ignore (cm_texts cm) ig p tracked_dir then Skipped Ignored else Absent)"

definition looked_state ::
    "commit \<Rightarrow> ignore_rules \<Rightarrow> u64 \<Rightarrow> rel_path \<Rightarrow> dpath \<Rightarrow> os_bytes \<Rightarrow> stat \<Rightarrow> observed \<Rightarrow> scan_state disk_act" where
  "looked_state cm ig dev p parent name st ob =
     (let M = cm_machine cm in
      if rules_ignore (cm_texts cm) ig p (ob_kind ob = Dir) then ret (Skipped Ignored)
      else if ob_kind ob = Dir \<and> st_dev st \<noteq> dev then ret (Skipped Ignored)
      else if (case rc_live (cm_records cm) p of Some r \<Rightarrow> unchanged_by_stat r ob | None \<Rightarrow> False) then ret Unchanged
      else if ob_kind ob \<noteq> File then ret (Observed ob)
      else bnd (is_stable M p st) (\<lambda>stable.
        if \<not> stable then ret (Skipped Unstable)
        else either (perform M (OpenDir parent))
          (\<lambda>e. ret (if e = IeNotFound then or_absent cm ig p else skipped_for e))
          (\<lambda>_. bnd (hash_file M (cm_texts cm) (parent @ [name]) st) (\<lambda>r. ret (case r of
             Stable c \<Rightarrow> Observed (ob\<lparr>ob_hash := c\<rparr>)
           | UnstableHash \<Rightarrow> Skipped Unstable
           | Vanished \<Rightarrow> or_absent cm ig p
           | HashFailed e \<Rightarrow> skipped_for e)))))"

definition look_state ::
    "commit \<Rightarrow> sensitivity \<Rightarrow> ignore_rules \<Rightarrow> u64 \<Rightarrow> rel_path \<Rightarrow> dpath \<Rightarrow> (scan_state \<times> timestamp option) disk_act" where
  "look_state cm sn ig dev p disk =
     bnd (look_at (cm_machine cm) (cm_texts cm) (dparent disk) p (dname disk) sn) (\<lambda>r.
     bnd (clock_read (cm_machine cm)) (\<lambda>at.
       bnd (case r of
              Inl e \<Rightarrow> ret (skipped_for e)
            | Inr (LookPresent name st (Some ob)) \<Rightarrow>
                looked_state cm ig dev p (dparent disk) name st (shim_observed (cm_shims cm) p ob)
            | Inr LookCoinciding \<Rightarrow> ret (Skipped CoincidingNames)
            | Inr _ \<Rightarrow> ret (or_absent cm ig p))
         (\<lambda>s. ret (s, Some at))))"

definition observe_state :: "commit \<Rightarrow> sensitivity \<Rightarrow> rel_path \<Rightarrow> (scan_state \<times> timestamp option) disk_act" where
  "observe_state cm sn p =
     (let M = cm_machine cm in
      bnd kept (\<lambda>ds.
        if row_open ds p then ret (Skipped SkipIo, None)
        else either (tri (perform M (OpenDir [])) (\<lambda>_. rules_read M (cm_texts cm)))
          (\<lambda>e. ret (Skipped (ignore_file_reason e), None))
          (\<lambda>ig. either (lstat M []) (\<lambda>e. ret (skipped_for e, None))
            (\<lambda>root. let disk = disk_path p (cm_names cm) in
              either (walk_to M p disk (st_dev root)) (\<lambda>e. ret (skipped_for e, None))
                (\<lambda>w. case w of
                   Reached \<Rightarrow> look_state cm sn ig (st_dev root) p disk
                 | CrossedAt _ \<Rightarrow> ret (Skipped Ignored, None)
                 | _ \<Rightarrow> ret (or_absent cm ig p, None))))))"

definition observe_path :: "commit \<Rightarrow> sensitivity \<Rightarrow> rel_path \<Rightarrow> (scan_state \<times> timestamp) disk_act" where
  "observe_path cm sn p =
     bnd (observe_state cm sn p) (\<lambda>(s, taken). case taken of
       Some at \<Rightarrow> ret (s, at)
     | None \<Rightarrow> bnd (clock_read (cm_machine cm)) (\<lambda>at. ret (s, at)))"

end
