(* ===== verification/Commits.thy ===== *)
theory Commits
  imports Observers
begin

text \<open>
  \<open>crates/delocal/src/commit.rs\<close> and \<open>landed_dirs\<close>, \<open>sync_landed\<close> of \<open>commit/journal.rs\<close>: how the host carries
  out \<open>Write\<close>, \<open>Remove\<close>, \<open>SetMeta\<close> and \<open>MoveToTrash\<close>. Everything a commit does is a call of \<open>Disks\<close>, in the
  order the code makes them.
\<close>

section \<open>Outcomes and errors\<close>

datatype fail = FailChanged | FailLocal local_error | FailHolds "rel_path list" | FailBlind local_error skip_reason

record commit_done =
  dn_at :: timestamp
  dn_writes :: "host_write list"
  dn_created :: "rel_path list"
  dn_unsynced :: "io_error list"

type_synonym failed = "fail \<times> host_write list"

definition fail_only :: "fail \<Rightarrow> failed" where
  "fail_only f = (f, [])"

definition blind :: "skip_reason \<Rightarrow> fail" where
  "blind r = FailBlind EIo r"

definition local_of :: "io_error \<Rightarrow> local_error" where
  "local_of e = (if e = IeFull then EDiskFull else EIo)"

definition changed_or_local :: "io_error \<Rightarrow> fail" where
  "changed_or_local e =
     (if e = IeNotFound \<or> e = IeAlreadyExists \<or> e = IeDirectoryNotEmpty \<or> is_not_a_directory e \<or> not_a_file e
      then FailChanged else FailLocal (local_of e))"

definition not_empty :: "io_error \<Rightarrow> bool" where
  "not_empty e \<longleftrightarrow> e = IeDirectoryNotEmpty \<or> e = IeAlreadyExists"

definition local_fail :: "io_error \<Rightarrow> fail" where
  "local_fail e = FailLocal (local_of e)"

definition MARKER :: string where
  "MARKER = ''folder.json''"

definition marker :: "machine_oracle \<Rightarrow> ('s, io_error + unit) act" where
  "marker M =
     tri (lstat M [RESERVED_DIR, MARKER]) (\<lambda>st.
       ret (if st_kind st = FkFile then Inr () else Inl (IeNotAFile (st_kind st))))"

definition marked :: "machine_oracle \<Rightarrow> ('s, bool) act" where
  "marked M = either (tri (perform M OpenFolder) (\<lambda>_. marker M)) (\<lambda>_. ret False) (\<lambda>_. ret True)"

definition exec_mode :: "32 word \<Rightarrow> bool \<Rightarrow> 32 word" where
  "exec_mode mode exec =
     (if exec then Bit_Operations.or mode (drop_bit 2 (Bit_Operations.and mode 292))
      else Bit_Operations.and mode (Bit_Operations.not 73))"

definition guard :: "observed option \<Rightarrow> observed option \<Rightarrow> fail + unit" where
  "guard expected found =
     (case (expected, found) of
        (None, None) \<Rightarrow> Inr ()
      | (Some x, Some s) \<Rightarrow> if ob_unchanged_by_stat x s then Inr () else Inl FailChanged
      | _ \<Rightarrow> Inl FailChanged)"

definition remove_trash :: "folder_id \<Rightarrow> trash_row \<Rightarrow> host_write" where
  "remove_trash fid row = RemoveTrash fid (tr_trashed_path row)"

definition durable :: "machine_oracle \<Rightarrow> host_write list \<Rightarrow> ('s, io_error + unit) act" where
  "durable M ws = perform M (Durable ws)"

text \<open>\<open>rename_refusing\<close>, with \<open>DiskState::renamed\<close> told of it.\<close>

definition rename_noting :: "machine_oracle \<Rightarrow> dpath \<Rightarrow> dpath \<Rightarrow> (io_error + unit) disk_act" where
  "rename_noting M src dst =
     tri (rename_refusing M src dst) (\<lambda>how. bnd (keep (disk_renamed how)) (\<lambda>_. ret (Inr ())))"

text \<open>The errors of syncing each directory.\<close>

definition sync_dirs :: "machine_oracle \<Rightarrow> dpath list \<Rightarrow> ('s, io_error list) act" where
  "sync_dirs M dirs =
     folding (\<lambda>d es. either (perform M (SyncDir d)) (\<lambda>e. ret (es @ [e])) (\<lambda>_. ret es)) dirs []"

section \<open>Looking at the path\<close>

record commit_place =
  at_path :: rel_path
  at_disk :: dpath
  at_parent :: dpath
  at_device :: u64
  at_sensitivity :: sensitivity

datatype found_at =
    FoundNothing | FoundMissing rel_path | FoundUnreachable | FoundTaken
  | FoundEntry dpath observed "32 word"

definition found_seen :: "found_at \<Rightarrow> observed option" where
  "found_seen fd = (case fd of FoundEntry _ ob _ \<Rightarrow> Some ob | _ \<Rightarrow> None)"

definition commit_look :: "commit \<Rightarrow> commit_place \<Rightarrow> (fail + found_at) disk_act" where
  "commit_look cm at =
     (let M = cm_machine cm in
      trying local_fail (walk_to M (at_path at) (at_disk at) (at_device at)) (\<lambda>w. case w of
        MissingAt first \<Rightarrow> ret (Inr (FoundMissing first))
      | NotADirectoryAt _ \<Rightarrow> ret (Inr FoundUnreachable)
      | CrossedAt _ \<Rightarrow> ret (Inl (blind Ignored))
      | Reached \<Rightarrow>
          trying local_fail
            (look_at M (cm_texts cm) (at_parent at) (at_path at) (dname (at_disk at)) (at_sensitivity at))
            (\<lambda>l. ret (case l of
               LookAbsent \<Rightarrow> Inr FoundNothing
             | LookTaken _ \<Rightarrow> Inr FoundTaken
             | LookPresent _ _ None \<Rightarrow> Inr FoundTaken
             | LookCoinciding \<Rightarrow> Inl FailChanged
             | LookPresent name st (Some ob) \<Rightarrow>
                 if ob_kind ob = Dir \<and> st_dev st \<noteq> at_device at then Inl (blind Ignored)
                 else Inr (FoundEntry (at_parent at @ [name])
                             (shim_observed (cm_shims cm) (at_path at) ob) (st_mode st))))))"

definition refuse_mounts :: "machine_oracle \<Rightarrow> commit_place \<Rightarrow> dpath \<Rightarrow> ('s, fail + unit) act" where
  "refuse_mounts M at disk =
     trying changed_or_local (mounted_beneath M disk (at_device at)) (\<lambda>m.
       ret (if m then Inl (FailLocal EIo) else Inr ()))"

definition copy_free :: "commit \<Rightarrow> commit_place \<Rightarrow> rel_path \<Rightarrow> (fail + unit) disk_act" where
  "copy_free cm at dst =
     (let disk = disk_path dst (cm_names cm) in
      trying local_fail (look_at (cm_machine cm) (cm_texts cm) (dparent disk) dst (dname disk) (at_sensitivity at))
        (\<lambda>l. ret (if l = LookAbsent then Inr () else Inl FailChanged)))"

section \<open>What comes in\<close>

datatype incoming = InFile dpath int | InSymlink dpath dpath | InDir dpath

definition in_path :: "incoming \<Rightarrow> dpath" where
  "in_path i = (case i of InFile temp _ \<Rightarrow> temp | InDir temp \<Rightarrow> temp | InSymlink lnk _ \<Rightarrow> lnk)"

definition in_discard :: "machine_oracle \<Rightarrow> incoming \<Rightarrow> ('s, unit) act" where
  "in_discard M i = (case i of
     InSymlink lnk _ \<Rightarrow> ignoring (perform M (RemoveFile lnk))
   | InDir d \<Rightarrow> ignoring (perform M (RemoveDir d))
   | InFile _ _ \<Rightarrow> ret ())"

definition in_finish :: "machine_oracle \<Rightarrow> incoming \<Rightarrow> ('s, unit) act" where
  "in_finish M i = (case i of InSymlink _ temp \<Rightarrow> ignoring (perform M (RemoveFile temp)) | _ \<Rightarrow> ret ())"

definition ready_dir :: "machine_oracle \<Rightarrow> ('s, fail + incoming) act" where
  "ready_dir M =
     trying local_fail (tmp_ensure M) (\<lambda>_. bnd (tmp_scratch M ''dir'') (\<lambda>d.
       trying local_fail (perform M (CreateDir d)) (\<lambda>_. ret (Inr (InDir d)))))"

definition ready_file :: "machine_oracle \<Rightarrow> entry \<Rightarrow> dpath \<Rightarrow> ('s, fail + incoming) act" where
  "ready_file M e temp =
     trying local_fail (lstat M temp) (\<lambda>st.
       let mode = st_mode st; wanted = exec_mode mode (e_exec e) in
       trying local_fail (if wanted \<noteq> mode then perform M (SetMode temp wanted) else ret (Inr ())) (\<lambda>_.
       trying local_fail (perform M (SetMtime temp (e_mtime e))) (\<lambda>_.
       trying local_fail (perform M (SyncFile temp)) (\<lambda>_.
       trying local_fail (lstat M temp) (\<lambda>st. ret (Inr (InFile temp (st_mtime st))))))))"

definition ready_symlink :: "machine_oracle \<Rightarrow> texts \<Rightarrow> entry \<Rightarrow> dpath \<Rightarrow> ('s, fail + incoming) act" where
  "ready_symlink M X e temp =
     trying local_fail (tri (perform M (OpenRead temp)) (\<lambda>_. read_to_end M temp)) (\<lambda>target.
       if hash_target X target \<noteq> e_hash e then ret (Inl (FailLocal EIo))
       else trying local_fail (tmp_ensure M) (\<lambda>_. bnd (tmp_scratch M ''link'') (\<lambda>lnk.
         trying local_fail (perform M (MakeSymlink target lnk)) (\<lambda>_.
         either (perform M (SyncDir TMP))
           (\<lambda>e. bnd (ignoring (perform M (RemoveFile lnk))) (\<lambda>_. ret (Inl (local_fail e))))
           (\<lambda>_. ret (Inr (InSymlink lnk temp)))))))"

definition ready :: "machine_oracle \<Rightarrow> texts \<Rightarrow> entry \<Rightarrow> dpath option \<Rightarrow> ('s, fail + incoming) act" where
  "ready M X e temp = (case (e_kind e, temp) of
     (Dir, _) \<Rightarrow> ready_dir M
   | (_, None) \<Rightarrow> ret (Inl (FailLocal EIo))
   | (File, Some temp) \<Rightarrow> ready_file M e temp
   | (Symlink, Some temp) \<Rightarrow> ready_symlink M X e temp)"

section \<open>Missing parents\<close>

fun parents_to :: "rel_path \<Rightarrow> rel_path list \<Rightarrow> dpath \<Rightarrow> (rel_path \<times> dpath) list" where
  "parents_to first [] disk = []"
| "parents_to first (d # ds) disk = (d, disk) # (if d = first then [] else parents_to first ds (dparent disk))"

definition undo_made :: "machine_oracle \<Rightarrow> (rel_path \<times> dpath) list \<Rightarrow> rel_path list \<Rightarrow> ('s, unit) act" where
  "undo_made M todo created =
     in_order (\<lambda>made. case map_of todo made of
       Some d \<Rightarrow> ignoring (perform M (RemoveDir d)) | None \<Rightarrow> ret ()) (rev created)"

definition make_one :: "machine_oracle \<Rightarrow> u64 \<Rightarrow> (rel_path \<times> dpath) list \<Rightarrow> rel_path \<times> dpath \<Rightarrow> rel_path list
    \<Rightarrow> ('s, failed + rel_path list) act" where
  "make_one M dev todo d created =
     either (perform M (CreateDir (snd d)))
       (\<lambda>e. if e = IeAlreadyExists then
              bnd (lstat M (snd d)) (\<lambda>r.
                if (case r of Inr st \<Rightarrow> st_kind st = FkDir \<and> st_dev st = dev | Inl _ \<Rightarrow> False) then ret (Inr created)
                else bnd (undo_made M todo created) (\<lambda>_. ret (Inl (fail_only FailChanged))))
            else bnd (undo_made M todo created) (\<lambda>_. ret (Inl (fail_only (changed_or_local e)))))
       (\<lambda>_. ret (Inr (created @ [fst d])))"

definition make_parents :: "machine_oracle \<Rightarrow> commit_place \<Rightarrow> rel_path option \<Rightarrow> ('s, failed + rel_path list) act" where
  "make_parents M at first = (case first of
     None \<Rightarrow> ret (Inr [])
   | Some first \<Rightarrow>
       (let todo = parents_to first (path_above (at_path at)) (dparent (at_disk at))
        in try_folding (make_one M (at_device at) todo) (rev todo) []))"

definition undo_parents :: "commit \<Rightarrow> rel_path list \<Rightarrow> ('s, unit) act" where
  "undo_parents cm created =
     in_order (\<lambda>d. ignoring (perform (cm_machine cm) (RemoveDir (disk_path d (cm_names cm))))) (rev created)"

end
