(* ===== verification/CommitOps.thy ===== *)
theory CommitOps
  imports Commits
begin

text \<open>
  The operations of \<open>crates/delocal/src/commit.rs\<close>: step 7's displacement behind a durable journal row, the
  rename in, what puts a displaced file back, the four actions, and \<open>Commit::run\<close>.
\<close>

section \<open>Displacing, and putting back\<close>

record displaced =
  dp_to :: dpath
  dp_trash :: "trash_row option"

definition commit_row :: "commit_place \<Rightarrow> dpath \<Rightarrow> dpath \<Rightarrow> journal_row" where
  "commit_row at temp dst =
     \<lparr>jr_path = at_path at, jr_displaced_to = path_bytes dst, jr_temp_file = path_bytes temp\<rparr>"

text \<open>What runs before each try at a place: the journal row, the trash row, and the last place's row gone.\<close>

definition before_place ::
    "commit \<Rightarrow> commit_place \<Rightarrow> dpath \<Rightarrow> moving \<Rightarrow> place \<Rightarrow> trash_row option
     \<Rightarrow> ('s, (io_error + unit) \<times> trash_row option) act" where
  "before_place cm at temp what pl prev =
     (let row = moving_row what pl in
      bnd (durable (cm_machine cm)
             ([PutJournal (cm_id cm) (commit_row at temp (pl_disk pl)), PutTrash (cm_id cm) row] @
              (case prev of Some old \<Rightarrow> [remove_trash (cm_id cm) old] | None \<Rightarrow> [])))
        (\<lambda>r. ret (r, Some row)))"

definition journal_gone :: "commit \<Rightarrow> commit_place \<Rightarrow> host_write list \<Rightarrow> host_write list" where
  "journal_gone cm at extra = RemoveJournal (cm_id cm) (at_path at) # extra"

definition unrow :: "commit \<Rightarrow> commit_place \<Rightarrow> trash_row option \<Rightarrow> host_write list" where
  "unrow cm at prev = (case prev of Some row \<Rightarrow> journal_gone cm at [remove_trash (cm_id cm) row] | None \<Rightarrow> [])"

definition displaced_size :: "commit \<Rightarrow> commit_place \<Rightarrow> dpath \<Rightarrow> observed \<Rightarrow> ('s, u64) act" where
  "displaced_size cm at disk ob =
     (if ob_kind ob = Dir then size_of (cm_machine cm) (at_device at) disk else ret (ob_size ob))"

definition displace_to_trash ::
    "commit \<Rightarrow> commit_place \<Rightarrow> dpath \<Rightarrow> observed \<Rightarrow> content_hash \<Rightarrow> dpath \<Rightarrow> (failed + displaced) disk_act" where
  "displace_to_trash cm at disk ob hash temp =
     (let M = cm_machine cm in
      bnd (displaced_size cm at disk ob) (\<lambda>sz. bnd (clock_read M) (\<lambda>now.
        let what = \<lparr>mv_original = at_path at, mv_kind = ob_kind ob,
                    mv_hash = (if ob_kind ob = Dir then EMPTY else hash), mv_size = sz, mv_at = now\<rparr> in
        bnd (move_in M disk what (before_place cm at temp what) None) (\<lambda>(moved, prev). case moved of
          Inr (pl, how) \<Rightarrow>
            bnd (keep (disk_renamed how)) (\<lambda>_. ret (Inr \<lparr>dp_to = pl_disk pl, dp_trash = prev\<rparr>))
        | Inl NmGone \<Rightarrow> ret (Inl (FailChanged, unrow cm at prev))
        | Inl (NmFailed e) \<Rightarrow> ret (Inl (changed_or_local e, unrow cm at prev))))))"

definition displace_to_copy ::
    "commit \<Rightarrow> commit_place \<Rightarrow> dpath \<Rightarrow> rel_path \<Rightarrow> dpath \<Rightarrow> (failed + displaced) disk_act" where
  "displace_to_copy cm at disk copy temp =
     (let M = cm_machine cm; dst = disk_path copy (cm_names cm) in
      trying (\<lambda>e. fail_only (local_fail e)) (durable M [PutJournal (cm_id cm) (commit_row at temp dst)]) (\<lambda>_.
        either (rename_noting M disk dst)
          (\<lambda>e. ret (Inl (changed_or_local e, journal_gone cm at [])))
          (\<lambda>_. ret (Inr \<lparr>dp_to = dst, dp_trash = None\<rparr>))))"

definition commit_displace ::
    "commit \<Rightarrow> commit_place \<Rightarrow> dpath \<Rightarrow> observed \<Rightarrow> content_hash \<Rightarrow> displace \<Rightarrow> dpath \<Rightarrow> (failed + displaced) disk_act" where
  "commit_displace cm at disk ob hash d temp =
     trying fail_only (if ob_kind ob = Dir then refuse_mounts (cm_machine cm) at disk else ret (Inr ())) (\<lambda>_.
       case d of
         ToTrash \<Rightarrow> displace_to_trash cm at disk ob hash temp
       | ToConflictCopy copy \<Rightarrow> displace_to_copy cm at disk copy temp)"

definition trash_of :: "trash_row option \<Rightarrow> dpath option" where
  "trash_of row = map_option (\<lambda>r. bytes_path (tr_trashed_path r)) row"

definition put_back :: "commit \<Rightarrow> rel_path \<Rightarrow> displaced \<Rightarrow> dpath \<Rightarrow> dpath \<Rightarrow> host_write list option disk_act" where
  "put_back cm p d dst temp =
     either (rename_noting (cm_machine cm) (dp_to d) dst)
       (\<lambda>e. if e = IeAlreadyExists then ret (Some [RemoveJournal (cm_id cm) p])
            else bnd (keep (open_row_put p (Displaced (dp_to d) dst (trash_of (dp_trash d)) temp))) (\<lambda>_. ret None))
       (\<lambda>_. ret (Some (RemoveJournal (cm_id cm) p #
          (case dp_trash d of Some row \<Rightarrow> [remove_trash (cm_id cm) row] | None \<Rightarrow> []))))"

section \<open>Open rows\<close>

definition landed_dirs :: "dpath \<Rightarrow> dpath \<Rightarrow> dpath list" where
  "landed_dirs disk displaced_to =
     (if dparent displaced_to = dparent disk then [dparent disk] else [dparent disk, dparent displaced_to])"

definition sync_landed :: "machine_oracle \<Rightarrow> dpath list \<Rightarrow> ('s, io_error + unit) act" where
  "sync_landed M dirs =
     try_folding (\<lambda>d _. either (perform M (SyncDir d))
       (\<lambda>e. ret (if e = IeNotFound \<or> is_not_a_directory e then Inr () else Inl e)) (\<lambda>_. ret (Inr ()))) dirs ()"

datatype row_resolution = NotOpen | Resolved | StillOpen bool io_error | Unrecorded io_error "host_write list"

text \<open>A displaced row whose temp file is gone is a commit that landed.\<close>

definition landed_row :: "commit \<Rightarrow> rel_path \<Rightarrow> unresolved \<Rightarrow> unresolved disk_act" where
  "landed_row cm p r = (case r of
     Displaced at back trash temp \<Rightarrow>
       bnd (lstat (cm_machine cm) temp) (\<lambda>s.
         if s = Inl IeNotFound then
           bnd (keep (open_row_put p (Unsynced (landed_dirs back at)))) (\<lambda>_. ret (Unsynced (landed_dirs back at)))
         else ret r)
   | Unsynced dirs \<Rightarrow> ret r)"

definition settle_row :: "commit \<Rightarrow> rel_path \<Rightarrow> unresolved \<Rightarrow> (bool \<times> io_error + host_write list) disk_act" where
  "settle_row cm p r = (case r of
     Displaced at back trash temp \<Rightarrow>
       either (rename_noting (cm_machine cm) at back)
         (\<lambda>e. ret (if e = IeAlreadyExists \<or> e = IeNotFound then Inr [RemoveJournal (cm_id cm) p]
                   else Inl (True, e)))
         (\<lambda>_. ret (Inr (RemoveJournal (cm_id cm) p #
            (case trash of Some t \<Rightarrow> [RemoveTrash (cm_id cm) (path_bytes t)] | None \<Rightarrow> []))))
   | Unsynced dirs \<Rightarrow>
       either (sync_landed (cm_machine cm) dirs) (\<lambda>e. ret (Inl (False, e)))
         (\<lambda>_. ret (Inr [RemoveJournal (cm_id cm) p])))"

definition resolve_one :: "commit \<Rightarrow> rel_path \<Rightarrow> row_resolution disk_act" where
  "resolve_one cm p =
     bnd kept (\<lambda>ds. case bm_get (ds_open ds) p of
       None \<Rightarrow> ret NotOpen
     | Some r \<Rightarrow>
         bnd (landed_row cm p r) (\<lambda>r.
         either (settle_row cm p r) (\<lambda>(d, e). ret (StillOpen d e))
           (\<lambda>ws. bnd (keep (open_row_gone p)) (\<lambda>_.
              either (durable (cm_machine cm) ws) (\<lambda>e. ret (Unrecorded e ws)) (\<lambda>_. ret Resolved)))))"

record resolved =
  rs_resolved :: "rel_path list"
  rs_open :: "rel_path list"
  rs_errors :: "(rel_path \<times> io_error) list"
  rs_unrecorded :: "host_write list"

definition note_resolved :: "rel_path \<Rightarrow> row_resolution \<Rightarrow> resolved \<Rightarrow> resolved" where
  "note_resolved p r rs = (case r of
     StillOpen _ e \<Rightarrow> rs\<lparr>rs_errors := rs_errors rs @ [(p, e)], rs_open := rs_open rs @ [p]\<rparr>
   | Unrecorded e ws \<Rightarrow> rs\<lparr>rs_errors := rs_errors rs @ [(p, e)], rs_unrecorded := rs_unrecorded rs @ ws,
       rs_resolved := rs_resolved rs @ [p]\<rparr>
   | _ \<Rightarrow> rs\<lparr>rs_resolved := rs_resolved rs @ [p]\<rparr>)"

definition commit_resolve :: "commit \<Rightarrow> resolved disk_act" where
  "commit_resolve cm =
     bnd kept (\<lambda>ds.
       let paths = bm_keys (ds_open ds);
           none = \<lparr>rs_resolved = [], rs_open = [], rs_errors = [], rs_unrecorded = []\<rparr> in
       if paths = [] then ret none
       else either (tri (perform (cm_machine cm) OpenFolder) (\<lambda>_. marker (cm_machine cm)))
         (\<lambda>_. ret (none\<lparr>rs_open := paths\<rparr>))
         (\<lambda>_. folding (\<lambda>p rs. bnd (resolve_one cm p) (\<lambda>r. ret (note_resolved p r rs))) paths none))"

section \<open>Writing\<close>

definition stale_name :: "commit \<Rightarrow> rel_path \<Rightarrow> host_write list" where
  "stale_name cm p = (case cm_names cm p of Some _ \<Rightarrow> [RemoveDiskName (cm_id cm) p] | None \<Rightarrow> [])"

definition opt_write :: "host_write option \<Rightarrow> host_write list" where
  "opt_write w = (case w of Some w \<Rightarrow> [w] | None \<Rightarrow> [])"

definition written_shims :: "commit \<Rightarrow> commit_place \<Rightarrow> entry \<Rightarrow> displace \<Rightarrow> found_at \<Rightarrow> incoming \<Rightarrow> host_write list" where
  "written_shims cm at e d fd i =
     (case (d, fd) of
        (ToConflictCopy copy, FoundEntry _ ob _) \<Rightarrow>
          if ob_kind ob = File then opt_write (shim_moved (cm_id cm) (at_path at) copy (cm_shims cm)) else []
      | _ \<Rightarrow> []) @
     opt_write (case i of
        InFile _ stored \<Rightarrow> shim_kept (cm_id cm) (at_path at) (e_mtime e) stored (cm_shims cm)
      | _ \<Rightarrow> shim_gone (cm_id cm) (at_path at) (cm_shims cm))"

definition landed_write ::
    "commit \<Rightarrow> commit_place \<Rightarrow> entry \<Rightarrow> displace \<Rightarrow> found_at \<Rightarrow> incoming \<Rightarrow> rel_path option \<Rightarrow> rel_path list
     \<Rightarrow> displaced option \<Rightarrow> (failed + commit_done) disk_act" where
  "landed_write cm at e d fd i missing created dp =
     (let M = cm_machine cm; away = (case dp of Some x \<Rightarrow> [dparent (dp_to x)] | None \<Rightarrow> []) in
      bnd (clock_read M) (\<lambda>now.
      bnd (sync_dirs M
             ((case missing of Some first \<Rightarrow> [dparent (disk_path first (cm_names cm))] | None \<Rightarrow> []) @
              map (\<lambda>c. disk_path c (cm_names cm)) created @ [at_parent at] @ away @ [TMP])) (\<lambda>unsynced.
      bnd (in_finish M i) (\<lambda>_.
      bnd (if unsynced \<noteq> [] \<and> dp \<noteq> None then keep (open_row_put (at_path at) (Unsynced (at_parent at # away)))
           else ret ()) (\<lambda>_.
        ret (Inr \<lparr>dn_at = now,
          dn_writes =
            (if unsynced = [] \<and> dp \<noteq> None then journal_gone cm at [] else []) @
            stale_name cm (at_path at) @ written_shims cm at e d fd i,
          dn_created = created, dn_unsynced = unsynced\<rparr>))))))"

definition unlanded_write ::
    "commit \<Rightarrow> commit_place \<Rightarrow> found_at \<Rightarrow> incoming \<Rightarrow> rel_path list \<Rightarrow> displaced option \<Rightarrow> io_error
     \<Rightarrow> (failed + commit_done) disk_act" where
  "unlanded_write cm at fd i created dp e =
     (let M = cm_machine cm; f = changed_or_local e in
      bnd (case (dp, fd) of
             (Some x, FoundEntry disk _ _) \<Rightarrow>
               bnd (put_back cm (at_path at) x disk (in_path i)) (\<lambda>r. case r of
                 Some ws \<Rightarrow> bnd (in_discard M i) (\<lambda>_. ret (f, ws))
               | None \<Rightarrow> ret (FailBlind (case f of FailLocal er \<Rightarrow> er | _ \<Rightarrow> EIo) SkipIo, []))
           | _ \<Rightarrow> bnd (in_discard M i) (\<lambda>_. ret (f, [])))
        (\<lambda>failed. bnd (undo_parents cm created) (\<lambda>_. ret (Inl failed))))"

definition write_ready ::
    "commit \<Rightarrow> commit_place \<Rightarrow> entry \<Rightarrow> observed option \<Rightarrow> displace \<Rightarrow> found_at \<Rightarrow> rel_path option \<Rightarrow> incoming
     \<Rightarrow> (failed + commit_done) disk_act" where
  "write_ready cm at e expected d fd missing i =
     (let M = cm_machine cm in
      either (make_parents M at missing)
        (\<lambda>failed. bnd (in_discard M i) (\<lambda>_. ret (Inl failed)))
        (\<lambda>created.
          either
            (case fd of
               FoundEntry disk ob _ \<Rightarrow>
                 tri (commit_displace cm at disk ob (case expected of Some x \<Rightarrow> ob_hash x | None \<Rightarrow> ob_hash ob) d (in_path i))
                   (\<lambda>x. ret (Inr (Some x)))
             | _ \<Rightarrow> ret (Inr None))
            (\<lambda>failed. bnd (in_discard M i) (\<lambda>_. bnd (undo_parents cm created) (\<lambda>_. ret (Inl failed))))
            (\<lambda>dp. either (rename_noting M (in_path i) (at_parent at @ [file_name (at_path at)]))
               (unlanded_write cm at fd i created dp)
               (\<lambda>_. landed_write cm at e d fd i missing created dp))))"

definition commit_write ::
    "commit \<Rightarrow> commit_place \<Rightarrow> entry \<Rightarrow> observed option \<Rightarrow> displace \<Rightarrow> dpath option \<Rightarrow> (failed + commit_done) disk_act" where
  "commit_write cm at e expected d temp =
     (case collision (cm_texts cm) (at_sensitivity at) (at_path at) (map e_path (rc_entries (cm_records cm))) of
        Some other \<Rightarrow> ret (Inl (fail_only (FailLocal (ECaseCollision other))))
      | None \<Rightarrow>
          trying fail_only (commit_look cm at) (\<lambda>fd.
            if fd = FoundUnreachable \<or> fd = FoundTaken then ret (Inl (fail_only FailChanged))
            else trying fail_only (ret (guard expected (found_seen fd))) (\<lambda>_.
              trying fail_only (case d of ToConflictCopy dst \<Rightarrow> copy_free cm at dst | ToTrash \<Rightarrow> ret (Inr ())) (\<lambda>_.
                trying fail_only (ready (cm_machine cm) (cm_texts cm) e temp)
                  (write_ready cm at e expected d fd
                     (case fd of FoundMissing first \<Rightarrow> Some first | _ \<Rightarrow> None))))))"

section \<open>Removing\<close>

definition nothing_done :: "commit \<Rightarrow> (failed + commit_done) disk_act" where
  "nothing_done cm =
     bnd (clock_read (cm_machine cm)) (\<lambda>now.
       ret (Inr \<lparr>dn_at = now, dn_writes = [], dn_created = [], dn_unsynced = []\<rparr>))"

definition commit_trash ::
    "commit \<Rightarrow> rel_path \<Rightarrow> dpath \<Rightarrow> kind \<Rightarrow> content_hash \<Rightarrow> u64 \<Rightarrow> (fail + dpath \<times> trash_row) disk_act" where
  "commit_trash cm original disk k hash sz =
     bnd (clock_read (cm_machine cm)) (\<lambda>now.
       let what = \<lparr>mv_original = original, mv_kind = k, mv_hash = hash, mv_size = sz, mv_at = now\<rparr> in
       bnd (move_in (cm_machine cm) disk what (\<lambda>_ u. ret (Inr (), u)) ()) (\<lambda>(moved, _). case moved of
         Inr (pl, how) \<Rightarrow> bnd (keep (disk_renamed how)) (\<lambda>_. ret (Inr (pl_disk pl, moving_row what pl)))
       | Inl NmGone \<Rightarrow> ret (Inl FailChanged)
       | Inl (NmFailed e) \<Rightarrow> ret (Inl (changed_or_local e))))"

type_synonym child = "os_bytes \<times> rel_path \<times> stat"

definition hold_one :: "commit \<Rightarrow> commit_place \<Rightarrow> dpath \<Rightarrow> ignore_rules \<Rightarrow> os_bytes \<Rightarrow> child list \<times> rel_path list
    \<Rightarrow> (fail + child list \<times> rel_path list) disk_act" where
  "hold_one cm at disk ig name acc =
     (case entry_name (cm_texts cm) (Some (at_path at)) name of
        EntryPath p _ \<Rightarrow>
          either (lstat (cm_machine cm) (disk @ [name]))
            (\<lambda>e. ret (if e = IeNotFound then Inr acc else Inl (changed_or_local e)))
            (\<lambda>st. ret (case rules_source (cm_texts cm) ig p (st_kind st = FkDir) of
               Some FromDefault \<Rightarrow> Inr (fst acc @ [(name, p, st)], snd acc)
             | Some FromUser \<Rightarrow> Inr (fst acc, snd acc @ [p])
             | None \<Rightarrow> Inl FailChanged))
      | _ \<Rightarrow> ret (Inl FailChanged))"

definition commit_holds :: "commit \<Rightarrow> commit_place \<Rightarrow> dpath \<Rightarrow> (fail + child list) disk_act" where
  "commit_holds cm at disk =
     trying (\<lambda>_. FailChanged)
       (tri (perform (cm_machine cm) (OpenDir [])) (\<lambda>_. rules_read (cm_machine cm) (cm_texts cm))) (\<lambda>ig.
       trying changed_or_local (read_dir (cm_machine cm) disk) (\<lambda>listed.
         tri (try_folding (hold_one cm at disk ig) listed ([], [])) (\<lambda>(defaults, users).
           ret (if users = [] then Inr defaults else Inl (FailHolds users)))))"

definition child_content :: "commit \<Rightarrow> commit_place \<Rightarrow> dpath \<Rightarrow> stat \<Rightarrow> (fail + kind \<times> content_hash \<times> u64) disk_act" where
  "child_content cm at child st =
     (let M = cm_machine cm; X = cm_texts cm in case st_kind st of
        FkFile \<Rightarrow> trying changed_or_local (trash_hash_file M X child) (\<lambda>c. ret (Inr (File, c, st_size st)))
      | FkSymlink \<Rightarrow> trying changed_or_local (read_link M child) (\<lambda>t. ret (Inr (Symlink, hash_target X t, st_size st)))
      | FkDir \<Rightarrow>
          if st_dev st \<noteq> at_device at then ret (Inl (FailLocal EIo))
          else tri (refuse_mounts M at child) (\<lambda>_.
            bnd (size_of M (at_device at) child) (\<lambda>n. ret (Inr (Dir, EMPTY, n))))
      | FkOther \<Rightarrow> ret (Inl FailChanged))"

definition remove_child :: "commit \<Rightarrow> commit_place \<Rightarrow> dpath \<Rightarrow> child \<Rightarrow> host_write list \<Rightarrow> (failed + host_write list) disk_act" where
  "remove_child cm at disk c ws =
     (case c of (name, p, st) \<Rightarrow>
        trying fail_only (child_content cm at (disk @ [name]) st) (\<lambda>(k, hash, sz).
          either (commit_trash cm p (disk @ [name]) k hash sz)
            (\<lambda>f. ret (Inl (f, ws)))
            (\<lambda>(dst, row). ret (Inr (ws @ [PutTrash (cm_id cm) row])))))"

definition commit_remove_dir :: "commit \<Rightarrow> commit_place \<Rightarrow> dpath \<Rightarrow> (failed + host_write list) disk_act" where
  "commit_remove_dir cm at disk =
     (let M = cm_machine cm in
      either (perform M (RemoveDir disk))
        (\<lambda>e. if not_empty e then
               trying fail_only (commit_holds cm at disk) (\<lambda>children.
                 tri (try_folding (remove_child cm at disk) children []) (\<lambda>ws.
                   either (perform M (RemoveDir disk)) (\<lambda>e. ret (Inl (changed_or_local e, ws)))
                     (\<lambda>_. ret (Inr ws))))
             else ret (Inl (fail_only (changed_or_local e))))
        (\<lambda>_. ret (Inr [])))"

definition removal_done :: "commit \<Rightarrow> commit_place \<Rightarrow> host_write list \<Rightarrow> dpath list \<Rightarrow> (failed + commit_done) disk_act" where
  "removal_done cm at ws dirs =
     bnd (clock_read (cm_machine cm)) (\<lambda>now.
     bnd (sync_dirs (cm_machine cm) dirs) (\<lambda>unsynced.
       ret (Inr \<lparr>dn_at = now,
         dn_writes = ws @ stale_name cm (at_path at) @ opt_write (shim_gone (cm_id cm) (at_path at) (cm_shims cm)),
         dn_created = [], dn_unsynced = unsynced\<rparr>)))"

definition commit_remove :: "commit \<Rightarrow> commit_place \<Rightarrow> observed option \<Rightarrow> displace \<Rightarrow> (failed + commit_done) disk_act" where
  "commit_remove cm at expected d =
     trying fail_only (commit_look cm at) (\<lambda>fd.
     trying fail_only (ret (guard expected (found_seen fd))) (\<lambda>_.
       case fd of
         FoundEntry disk ob _ \<Rightarrow>
           (case d of
              ToTrash \<Rightarrow>
                if ob_kind ob = Dir then
                  tri (commit_remove_dir cm at disk) (\<lambda>ws. removal_done cm at ws [at_parent at])
                else trying fail_only
                  (commit_trash cm (at_path at) disk (ob_kind ob)
                     (case expected of Some x \<Rightarrow> ob_hash x | None \<Rightarrow> ob_hash ob) (ob_size ob))
                  (\<lambda>(dst, row). removal_done cm at [PutTrash (cm_id cm) row] [at_parent at, dparent dst])
            | ToConflictCopy copy \<Rightarrow>
                trying fail_only
                  (if ob_kind ob = Dir then refuse_mounts (cm_machine cm) at disk else ret (Inr ())) (\<lambda>_.
                trying (\<lambda>e. fail_only (changed_or_local e))
                  (rename_noting (cm_machine cm) disk (disk_path copy (cm_names cm))) (\<lambda>_.
                  removal_done cm at
                    (if ob_kind ob = File then opt_write (shim_moved (cm_id cm) (at_path at) copy (cm_shims cm)) else [])
                    [at_parent at, dparent (disk_path copy (cm_names cm))])))
       | _ \<Rightarrow> nothing_done cm))"

definition commit_to_trash :: "commit \<Rightarrow> commit_place \<Rightarrow> observed \<Rightarrow> (failed + commit_done) disk_act" where
  "commit_to_trash cm at expected =
     trying fail_only (commit_look cm at) (\<lambda>fd. case fd of
       FoundEntry disk ob _ \<Rightarrow>
         if \<not> ob_unchanged_by_stat expected ob then ret (Inl (fail_only FailChanged))
         else if ob_kind ob = Dir then
           tri (commit_remove_dir cm at disk) (\<lambda>ws. removal_done cm at ws [at_parent at])
         else trying fail_only (commit_trash cm (at_path at) disk (ob_kind ob) (ob_hash expected) (ob_size ob))
           (\<lambda>(dst, row). removal_done cm at [PutTrash (cm_id cm) row] [at_parent at, dparent dst])
     | _ \<Rightarrow> nothing_done cm)"

section \<open>Metadata\<close>

definition meta_set :: "commit \<Rightarrow> commit_place \<Rightarrow> dpath \<Rightarrow> int \<Rightarrow> (failed + commit_done) disk_act" where
  "meta_set cm at disk mtime =
     (let M = cm_machine cm in
      bnd (clock_read M) (\<lambda>now.
      bnd (perform M (SyncFile disk)) (\<lambda>s.
      bnd (lstat M disk) (\<lambda>r.
        let ws = opt_write (case r of
                Inr st \<Rightarrow> shim_kept (cm_id cm) (at_path at) mtime (st_mtime st) (cm_shims cm)
              | Inl _ \<Rightarrow> shim_gone (cm_id cm) (at_path at) (cm_shims cm));
            unsynced = (case s of Inl e \<Rightarrow> [e] | Inr _ \<Rightarrow> []) @ (case r of Inl e \<Rightarrow> [e] | Inr _ \<Rightarrow> []) in
        bnd (if ws = [] then ret (Inr ()) else durable M ws) (\<lambda>w.
          ret (Inr \<lparr>dn_at = now, dn_writes = ws, dn_created = [],
            dn_unsynced = unsynced @ (case w of Inl e \<Rightarrow> [e] | Inr _ \<Rightarrow> [])\<rparr>))))))"

definition commit_set_meta ::
    "commit \<Rightarrow> commit_place \<Rightarrow> observed option \<Rightarrow> int \<Rightarrow> bool \<Rightarrow> (failed + commit_done) disk_act" where
  "commit_set_meta cm at expected mtime exec =
     trying fail_only (commit_look cm at) (\<lambda>fd.
     trying fail_only (ret (guard expected (found_seen fd))) (\<lambda>_.
       case fd of
         FoundEntry disk ob mode \<Rightarrow>
           if ob_kind ob \<noteq> File then ret (Inl (fail_only FailChanged))
           else let M = cm_machine cm; wanted = exec_mode mode exec in
             trying (\<lambda>e. fail_only (changed_or_local e))
               (if wanted \<noteq> mode then perform M (SetMode disk wanted) else ret (Inr ())) (\<lambda>_.
             either (perform M (SetMtime disk mtime))
               (\<lambda>e. bnd (if wanted \<noteq> mode then ignoring (perform M (SetMode disk mode)) else ret ()) (\<lambda>_.
                  ret (Inl (fail_only (changed_or_local e)))))
               (\<lambda>_. meta_set cm at disk mtime))
       | _ \<Rightarrow> ret (Inl (fail_only FailChanged))))"

section \<open>One commit\<close>

datatype commit_oper =
    OpWrite entry "observed option" displace
  | OpRemove "observed option" displace
  | OpSetMeta "observed option" int bool
  | OpMoveToTrash observed

definition commit_op :: "action \<Rightarrow> (rel_path \<times> commit_oper) option" where
  "commit_op a = (case a of
     AcWrite _ p e expected d \<Rightarrow> Some (p, OpWrite e expected d)
   | AcRemove _ p expected d \<Rightarrow> Some (p, OpRemove expected d)
   | AcSetMeta _ p expected mtime exec \<Rightarrow> Some (p, OpSetMeta expected mtime exec)
   | AcMoveToTrash _ p _ expected \<Rightarrow> Some (p, OpMoveToTrash expected)
   | _ \<Rightarrow> None)"

definition commit_do :: "commit \<Rightarrow> commit_place \<Rightarrow> commit_oper \<Rightarrow> dpath option \<Rightarrow> (failed + commit_done) disk_act" where
  "commit_do cm at oper temp = (case oper of
     OpWrite e expected d \<Rightarrow> commit_write cm at e expected d temp
   | OpRemove expected d \<Rightarrow> commit_remove cm at expected d
   | OpSetMeta expected mtime exec \<Rightarrow> commit_set_meta cm at expected mtime exec
   | OpMoveToTrash expected \<Rightarrow> commit_to_trash cm at expected)"

definition commit_attempt :: "commit \<Rightarrow> rel_path \<Rightarrow> commit_oper \<Rightarrow> dpath option \<Rightarrow> (failed + commit_done) disk_act" where
  "commit_attempt cm p oper temp =
     (let M = cm_machine cm in
      trying (\<lambda>_. fail_only (blind SkipIo)) (tri (perform M OpenFolder) (\<lambda>_. marker M)) (\<lambda>_.
      trying (\<lambda>e. fail_only (local_fail e)) (disk_sensitivity M) (\<lambda>sn.
      trying (\<lambda>e. fail_only (local_fail e)) (lstat M []) (\<lambda>root.
        let disk = disk_path p (cm_names cm);
            at = \<lparr>at_path = p, at_disk = disk, at_parent = dparent disk, at_device = st_dev root,
                  at_sensitivity = sn\<rparr> in
        bnd (resolve_one cm p) (\<lambda>r. case r of
          StillOpen True e \<Rightarrow> ret (Inl (fail_only (FailBlind (local_of e) SkipIo)))
        | Unrecorded e ws \<Rightarrow> ret (Inl (local_fail e, ws))
        | _ \<Rightarrow> commit_do cm at oper temp)))))"

text \<open>\<open>Commit::observe\<close>: in an operation of its own.\<close>

definition commit_observe :: "commit \<Rightarrow> rel_path \<Rightarrow> (scan_state \<times> timestamp) disk_act" where
  "commit_observe cm p =
     (let M = cm_machine cm in
      either (tri (perform M OpenFolder) (\<lambda>_. tri (marker M) (\<lambda>_. disk_sensitivity M)))
        (\<lambda>_. bnd (clock_read M) (\<lambda>now. ret (Skipped SkipIo, now)))
        (\<lambda>sn. observe_path cm sn p))"

definition commit_found :: "commit \<Rightarrow> rel_path \<Rightarrow> fail \<Rightarrow> (scan_state \<times> timestamp) disk_act" where
  "commit_found cm p f = (case f of
     FailBlind _ reason \<Rightarrow> bnd (clock_read (cm_machine cm)) (\<lambda>now. ret (Skipped reason, now))
   | _ \<Rightarrow> commit_observe cm p)"

record committed =
  ct_event :: event
  ct_writes :: "host_write list"
  ct_created :: "rel_path list"
  ct_unsynced :: "io_error list"
  ct_holds_ignored :: "rel_path list"

definition fail_outcome :: "fail \<Rightarrow> scan_state \<Rightarrow> apply_outcome" where
  "fail_outcome f s = (case f of
     FailChanged \<Rightarrow> AChangedUnderneath s
   | FailHolds _ \<Rightarrow> AFailed EHoldsIgnored s
   | FailLocal e \<Rightarrow> AFailed e s
   | FailBlind e _ \<Rightarrow> AFailed e s)"

definition commit_result ::
    "commit \<Rightarrow> rel_path \<Rightarrow> commit_oper \<Rightarrow> dpath option \<Rightarrow> (apply_outcome \<times> commit_done \<times> rel_path list) disk_act" where
  "commit_result cm p oper temp =
     either (commit_attempt cm p oper temp)
       (\<lambda>(f, ws). bnd (commit_found cm p f) (\<lambda>(s, at).
          ret (fail_outcome f s, \<lparr>dn_at = at, dn_writes = ws, dn_created = [], dn_unsynced = []\<rparr>,
               (case f of FailHolds files \<Rightarrow> files | _ \<Rightarrow> []))))
       (\<lambda>dn. ret (AOk, dn, []))"

definition is_journal_removal :: "rel_path \<Rightarrow> host_write \<Rightarrow> bool" where
  "is_journal_removal p w \<longleftrightarrow> (case w of RemoveJournal _ q \<Rightarrow> q = p | _ \<Rightarrow> False)"

definition commit_event :: "commit \<Rightarrow> rel_path \<Rightarrow> commit_oper \<Rightarrow> version \<Rightarrow> timestamp \<Rightarrow> apply_outcome \<Rightarrow> event" where
  "commit_event cm p oper v at r =
     (case oper of OpMoveToTrash _ \<Rightarrow> EvTrashed (cm_id cm) p v at r | _ \<Rightarrow> EvApplied (cm_id cm) p v at r)"

definition commit_run :: "commit \<Rightarrow> action \<Rightarrow> version \<Rightarrow> dpath option \<Rightarrow> committed option disk_act" where
  "commit_run cm a v temp = (case commit_op a of
     None \<Rightarrow> ret None
   | Some (p, oper) \<Rightarrow>
       bnd (commit_result cm p oper temp) (\<lambda>(r, dn, files).
       bnd (if list_ex (is_journal_removal p) (dn_writes dn) then keep (open_row_gone p) else ret ()) (\<lambda>_.
         ret (Some \<lparr>ct_event = commit_event cm p oper v (dn_at dn) r, ct_writes = dn_writes dn,
           ct_created = dn_created dn, ct_unsynced = dn_unsynced dn, ct_holds_ignored = files\<rparr>))))"

end
