(* ===== verification/Starts.thy ===== *)
theory Starts
  imports CommitOps
begin

text \<open>
  \<open>crates/delocal/src/commit/journal.rs\<close> and \<open>commit/start.rs\<close>: what the host does for a folder at daemon start.
  Open rows of the journal are undone, into an empty path only; the trash is reconciled and pruned; temp files
  nobody claims go.
\<close>

record undone =
  un_writes :: "host_write list"
  un_back :: "rel_path list"
  un_left :: "rel_path list"
  un_landed :: "rel_path list"
  un_unsynced :: "(rel_path \<times> dpath list \<times> io_error) list"
  un_failed :: "(rel_path \<times> io_error) list"

definition undone_default :: undone where
  "undone_default = \<lparr>un_writes = [], un_back = [], un_left = [], un_landed = [], un_unsynced = [], un_failed = []\<rparr>"

definition kind_only :: "io_error \<Rightarrow> io_error" where
  "kind_only e = (case e of
     IeParentNotADirectory _ \<Rightarrow> IeNotADirectory | IeNotAFile _ \<Rightarrow> IeInvalidInput
   | IeFull \<Rightarrow> IeOther | IeNoReplaceUnsupported \<Rightarrow> IeOther | e \<Rightarrow> e)"

definition in_trash_row :: "folder_id \<Rightarrow> journal_row \<Rightarrow> host_write list" where
  "in_trash_row fid row =
     (case strip_dir TRASH (bytes_path (jr_displaced_to row)) of
        Some t \<Rightarrow> [RemoveTrash fid (path_bytes t)] | None \<Rightarrow> [])"

definition undo_failed :: "rel_path \<Rightarrow> io_error \<Rightarrow> undone \<Rightarrow> undone" where
  "undo_failed p e un = un\<lparr>un_failed := un_failed un @ [(p, e)]\<rparr>"

definition undo_landed :: "machine_oracle \<Rightarrow> folder_id \<Rightarrow> journal_row \<Rightarrow> dpath \<Rightarrow> undone \<Rightarrow> ('s, undone) act" where
  "undo_landed M fid row disk un =
     (let dirs = landed_dirs disk (bytes_path (jr_displaced_to row)) in
      either (sync_landed M dirs)
        (\<lambda>e. ret (un\<lparr>un_unsynced := un_unsynced un @ [(jr_path row, dirs, e)]\<rparr>))
        (\<lambda>_. ret (un\<lparr>un_writes := un_writes un @ [RemoveJournal fid (jr_path row)],
                     un_landed := un_landed un @ [jr_path row]\<rparr>)))"

definition undo_move :: "machine_oracle \<Rightarrow> u64 \<Rightarrow> journal_row \<Rightarrow> dpath \<Rightarrow> ('s, io_error + refusing) act" where
  "undo_move M dev row disk =
     tri (walk_to M (jr_path row) disk dev) (\<lambda>w. case w of
       Reached \<Rightarrow> rename_refusing M (bytes_path (jr_displaced_to row)) disk
     | CrossedAt _ \<Rightarrow> ret (Inl IeOther)
     | _ \<Rightarrow> ret (Inl IeNotFound))"

definition undo_back :: "machine_oracle \<Rightarrow> folder_id \<Rightarrow> u64 \<Rightarrow> journal_row \<Rightarrow> dpath \<Rightarrow> undone \<Rightarrow> ('s, undone) act" where
  "undo_back M fid dev row disk un =
     either (undo_move M dev row disk)
       (\<lambda>e. ret (if e = IeAlreadyExists \<or> e = IeNotFound then
            un\<lparr>un_writes := un_writes un @ [RemoveJournal fid (jr_path row)], un_left := un_left un @ [jr_path row]\<rparr>
          else undo_failed (jr_path row) e un))
       (\<lambda>_. bnd (ignoring (perform M (SyncDir (dparent disk)))) (\<lambda>_.
          bnd (ignoring (perform M (SyncDir (dparent (bytes_path (jr_displaced_to row)))))) (\<lambda>_.
          ret (un\<lparr>un_writes := un_writes un @ RemoveJournal fid (jr_path row) # in_trash_row fid row,
                  un_back := un_back un @ [jr_path row]\<rparr>))))"

definition undo_row :: "machine_oracle \<Rightarrow> folder_id \<Rightarrow> disk_names \<Rightarrow> u64 \<Rightarrow> journal_row \<Rightarrow> undone \<Rightarrow> ('s, undone) act" where
  "undo_row M fid names dev row un =
     either (lstat M (bytes_path (jr_displaced_to row)))
       (\<lambda>e. ret (if e = IeNotFound then
            un\<lparr>un_writes := un_writes un @ RemoveJournal fid (jr_path row) # in_trash_row fid row\<rparr>
          else undo_failed (jr_path row) e un))
       (\<lambda>_. let disk = disk_path (jr_path row) names in
          either (lstat M (bytes_path (jr_temp_file row)))
            (\<lambda>e. if e = IeNotFound then undo_landed M fid row disk un else ret (undo_failed (jr_path row) e un))
            (\<lambda>_. undo_back M fid dev row disk un))"

definition undo :: "machine_oracle \<Rightarrow> folder_id \<Rightarrow> journal_row list \<Rightarrow> disk_names \<Rightarrow> ('s, undone) act" where
  "undo M fid rows names =
     either (lstat M [])
       (\<lambda>e. ret (undone_default\<lparr>un_failed := map (\<lambda>r. (jr_path r, kind_only e)) rows\<rparr>))
       (\<lambda>st. folding (undo_row M fid names (st_dev st)) rows undone_default)"

section \<open>The start\<close>

record start =
  sa_folder :: folder_id
  sa_machine :: machine_oracle
  sa_texts :: texts
  sa_journal :: "journal_row list"
  sa_trash :: "trash_row list"
  sa_names :: disk_names
  sa_claimed :: "os_bytes \<Rightarrow> bool"
  sa_now :: timestamp
  sa_policy :: policy

record folder_started =
  sd_writes :: "host_write list"
  sd_undone :: undone
  sd_unpruned :: "(dpath \<times> io_error) list"
  sd_temps :: "os_bytes list"
  sd_tmp_error :: "io_error option"

fun apply_trash :: "host_write \<Rightarrow> trash_row list \<Rightarrow> trash_row list" where
  "apply_trash (PutTrash _ row) rows =
     filter (\<lambda>r. tr_trashed_path r \<noteq> tr_trashed_path row) rows @ [row]"
| "apply_trash (RemoveTrash _ t) rows = filter (\<lambda>r. tr_trashed_path r \<noteq> t) rows"
| "apply_trash _ rows = rows"

definition row_at :: "start \<Rightarrow> rel_path \<Rightarrow> journal_row option" where
  "row_at sa p = find (\<lambda>r. jr_path r = p) (sa_journal sa)"

definition keep_displaced :: "rel_path \<Rightarrow> dpath \<Rightarrow> dpath \<Rightarrow> dpath \<Rightarrow> disk_state \<Rightarrow> disk_state" where
  "keep_displaced p at back temp = open_row_put p (Displaced at back (strip_dir TRASH at) temp)"

definition keep_open :: "start \<Rightarrow> undone \<Rightarrow> disk_state \<Rightarrow> disk_state" where
  "keep_open sa un ds =
     fold (\<lambda>(p, dirs, _). open_row_put p (Unsynced dirs)) (un_unsynced un)
       (fold (\<lambda>(p, _) ds. case row_at sa p of
            Some row \<Rightarrow> keep_displaced p (bytes_path (jr_displaced_to row)) (disk_path p (sa_names sa))
              (bytes_path (jr_temp_file row)) ds
          | None \<Rightarrow> ds) (un_failed un) ds)"

text \<open>The temp files open rows still name.\<close>

definition open_temps :: "start \<Rightarrow> undone \<Rightarrow> os_bytes list" where
  "open_temps sa un =
     map dname (filter (\<lambda>temp. temp \<noteq> [] \<and> dparent temp = TMP)
       (map (\<lambda>row. bytes_path (jr_temp_file row))
         (List.map_filter (\<lambda>(p, _). row_at sa p) (un_failed un))))"

definition start_run :: "start \<Rightarrow> folder_started disk_act" where
  "start_run sa =
     (let M = sa_machine sa; fid = sa_folder sa in
      bnd (undo M fid (sa_journal sa) (sa_names sa)) (\<lambda>un.
      bnd (keep (keep_open sa un)) (\<lambda>_.
      let rows = fold apply_trash (un_writes un) (sa_trash sa) in
      bnd (reconcile M (sa_texts sa) fid rows (sa_now sa)) (\<lambda>reconciled.
      let rows = fold apply_trash reconciled rows in
      bnd (prune M fid rows (sa_now sa) (sa_policy sa)) (\<lambda>pr.
      bnd (remove_unclaimed M (\<lambda>name. name \<in> set (open_temps sa un) \<or> sa_claimed sa name)) (\<lambda>r.
        ret \<lparr>sd_writes = un_writes un @ reconciled @ pr_writes pr, sd_undone = un, sd_unpruned = pr_failed pr,
          sd_temps = (case r of Inr removed \<Rightarrow> removed | Inl _ \<Rightarrow> []),
          sd_tmp_error = (case r of Inl e \<Rightarrow> Some e | Inr _ \<Rightarrow> None)\<rparr>))))))"

end
