(* ===== verification/CommitLaws.thy ===== *)
theory CommitLaws
  imports Starts
begin

text \<open>
  What is proved of every call an operation makes, from rules for the ways actions are composed. The locale
  \<open>quiet_policy\<close> takes any policy on calls that allows the quiet ones, and proves that everything but the renames
  keeps it; \<open>rename_policy\<close> also allows the renames \<open>rename_refusing\<close> makes, and proves it of whole commits.
\<close>

section \<open>Policies on calls\<close>

text \<open>A policy says whether a call may be made after others, the newest first. An action keeps it if every call the
  action adds does.\<close>

primrec all_new :: "(call \<Rightarrow> call list \<Rightarrow> bool) \<Rightarrow> call list \<Rightarrow> call list \<Rightarrow> bool" where
  "all_new ok [] cs \<longleftrightarrow> True"
| "all_new ok (c # new) cs \<longleftrightarrow> ok c (new @ cs) \<and> all_new ok new cs"

definition extends :: "(call \<Rightarrow> call list \<Rightarrow> bool) \<Rightarrow> call list \<Rightarrow> call list \<Rightarrow> bool" where
  "extends ok cs cs' \<longleftrightarrow> (\<exists>new. cs' = new @ cs \<and> all_new ok new cs)"

definition traced :: "(call \<Rightarrow> call list \<Rightarrow> bool) \<Rightarrow> ('s, 'a) act \<Rightarrow> bool" where
  "traced ok m \<longleftrightarrow> (\<forall>h x h'. m h = Some (x, h') \<longrightarrow> extends ok (ho_calls h) (ho_calls h'))"

lemma all_new_append: "all_new ok (new' @ new) cs \<longleftrightarrow> all_new ok new' (new @ cs) \<and> all_new ok new cs"
  by (induction new') auto

lemma extends_refl [simp]: "extends ok cs cs"
  by (auto simp: extends_def)

lemma extends_trans [trans]: "extends ok cs cs' \<Longrightarrow> extends ok cs' cs'' \<Longrightarrow> extends ok cs cs''"
  unfolding extends_def by (metis all_new_append append.assoc)

lemma extends_one: "ok c cs \<Longrightarrow> extends ok cs (c # cs)"
  unfolding extends_def by (rule exI [of _ "[c]"]) simp

lemma extends_set: "extends ok cs cs' \<Longrightarrow> set cs \<subseteq> set cs'"
  by (auto simp: extends_def)

lemma extends_from_Nil: "extends ok [] cs \<longleftrightarrow> all_new ok cs []"
  by (simp add: extends_def)

named_theorems traced_intros "what keeps a policy on calls"

lemma tracedD: "traced ok m \<Longrightarrow> m h = Some (x, h') \<Longrightarrow> extends ok (ho_calls h) (ho_calls h')"
  by (simp add: traced_def)

lemma bnd_Some: "bnd m k h = Some (y, h') \<longleftrightarrow> (\<exists>x h1. m h = Some (x, h1) \<and> k x h1 = Some (y, h'))"
  by (auto simp: bnd_def split: Option.bind_splits)

lemma traced_ret [traced_intros]: "traced ok (ret x)"
  by (auto simp: traced_def ret_def)

lemma traced_bnd [traced_intros]: "traced ok m \<Longrightarrow> (\<And>x. traced ok (k x)) \<Longrightarrow> traced ok (bnd m k)"
  unfolding traced_def bnd_Some by (blast intro: extends_trans)

lemma traced_kept [traced_intros]: "traced ok kept"
  by (auto simp: traced_def kept_def)

lemma traced_keep [traced_intros]: "traced ok (keep g)"
  by (auto simp: traced_def keep_def)

lemma traced_either [traced_intros]:
  "traced ok m \<Longrightarrow> (\<And>e. traced ok (a e)) \<Longrightarrow> (\<And>x. traced ok (b x)) \<Longrightarrow> traced ok (either m a b)"
  unfolding either_def by (rule traced_bnd) (auto split: sum.split)

lemma traced_trying [traced_intros]:
  "traced ok m \<Longrightarrow> (\<And>x. traced ok (k x)) \<Longrightarrow> traced ok (trying f m k)"
  unfolding trying_def by (rule traced_bnd) (auto split: sum.split intro: traced_ret)

lemma traced_ignoring [traced_intros]: "traced ok m \<Longrightarrow> traced ok (ignoring m)"
  unfolding ignoring_def by (intro traced_intros)

lemma traced_folding [traced_intros]:
  "(\<And>x b. x \<in> set xs \<Longrightarrow> traced ok (f x b)) \<Longrightarrow> traced ok (folding f xs b)"
  by (induction xs arbitrary: b) (auto intro!: traced_intros)

lemma traced_try_folding [traced_intros]:
  "(\<And>x b. x \<in> set xs \<Longrightarrow> traced ok (f x b)) \<Longrightarrow> traced ok (try_folding f xs b)"
  by (induction xs arbitrary: b) (auto intro!: traced_intros)

lemma traced_in_order [traced_intros]:
  "(\<And>x. x \<in> set xs \<Longrightarrow> traced ok (f x)) \<Longrightarrow> traced ok (in_order f xs)"
  unfolding in_order_def by (intro traced_intros)

lemma traced_called: "(\<And>r cs. ok (c r) cs) \<Longrightarrow> traced ok (called a c)"
  by (auto simp: traced_def called_def Let_def intro!: extends_one)

text \<open>A loop that may not end keeps a policy if its body does, given that it does from there on.\<close>

definition keeps_policy :: "(call \<Rightarrow> call list \<Rightarrow> bool) \<Rightarrow> 's host \<Rightarrow> 'a \<times> 's host \<Rightarrow> bool" where
  "keeps_policy ok h r \<longleftrightarrow> extends ok (ho_calls h) (ho_calls (snd r))"

lemma traced_loop: "(\<And>h r. m h = Some r \<Longrightarrow> keeps_policy ok h r) \<Longrightarrow> traced ok m"
  by (auto simp: traced_def keeps_policy_def)

lemma traced_keeps_policy: "traced ok m \<Longrightarrow> m h = Some r \<Longrightarrow> keeps_policy ok h r"
  by (cases r) (auto simp: traced_def keeps_policy_def)

lemma loop_rules:
  "either m a b h = Some r \<Longrightarrow> traced ok (either m a b) \<Longrightarrow> keeps_policy ok h r"
  "trying e n k h = Some s \<Longrightarrow> traced ok (trying e n k) \<Longrightarrow> keeps_policy ok h s"
  "bnd l j h = Some t \<Longrightarrow> traced ok (bnd l j) \<Longrightarrow> keeps_policy ok h t"
  "ret x h = Some u \<Longrightarrow> keeps_policy ok h u"
  by (blast intro: traced_keeps_policy traced_ret)+

text \<open>A case under an abstraction of the state.\<close>

lemma traced_if [traced_intros]:
  "(c \<Longrightarrow> traced ok a) \<Longrightarrow> (\<not> c \<Longrightarrow> traced ok b) \<Longrightarrow> traced ok (\<lambda>h. if c then a h else b h)"
  by (cases c) simp_all

lemma traced_option [traced_intros]:
  "(z = None \<Longrightarrow> traced ok a) \<Longrightarrow> (\<And>y. z = Some y \<Longrightarrow> traced ok (e y)) \<Longrightarrow>
     traced ok (\<lambda>h. case z of None \<Rightarrow> a h | Some y \<Rightarrow> e y h)"
  by (cases z) simp_all

section \<open>The quiet calls\<close>

definition own :: "dpath \<Rightarrow> bool" where
  "own p \<longleftrightarrow> take 2 p = TMP \<or> take 2 p = TRASH"

lemma own_simps [simp]: "own (TMP @ p)" "own (TRASH @ p)"
  by (simp_all add: own_def TMP_def TRASH_def)

lemma own_append: "own p \<Longrightarrow> own (p @ q)"
  by (cases p; cases "tl p") (auto simp: own_def TMP_def TRASH_def)

definition quiet :: "call \<Rightarrow> bool" where
  "quiet c \<longleftrightarrow> (case c of
     Did (Rename _ _) _ \<Rightarrow> False
   | Did (RenameNoreplace _ _) _ \<Rightarrow> False
   | Did (RemoveFile p) _ \<Rightarrow> own p
   | Did (CreateNew p) _ \<Rightarrow> own p
   | Did (MakeSymlink _ p) _ \<Rightarrow> own p
   | _ \<Rightarrow> True)"

locale quiet_policy =
  fixes ok :: "call \<Rightarrow> call list \<Rightarrow> bool"
  assumes quiet_ok: "quiet c \<Longrightarrow> ok c cs"
begin

lemma traced_perform [traced_intros]: "(\<And>r. quiet (Did oper r)) \<Longrightarrow> traced ok (perform M oper)"
  unfolding perform_def by (intro traced_called quiet_ok)

lemma traced_reads [traced_intros]:
  "traced ok (lstat M p)" "traced ok (read_dir M p)" "traced ok (read_link M p)" "traced ok (read_to_end M p)"
  "traced ok (clock_read M)" "traced ok (realtime_read M)" "traced ok (instant_read M)" "traced ok (unique M)"
  unfolding lstat_def read_dir_def read_link_def read_to_end_def clock_read_def realtime_read_def
    instant_read_def unique_def
  by (intro traced_called quiet_ok; simp add: quiet_def)+

lemma traced_tmp_ensure [traced_intros]: "traced ok (tmp_ensure M)"
  by (auto simp: tmp_ensure_def quiet_def intro!: traced_intros)

lemma traced_tmp_scratch [traced_intros]: "traced ok (tmp_scratch M what)"
  by (auto simp: tmp_scratch_def intro!: traced_intros)

lemma traced_remove_unclaimed [traced_intros]: "traced ok (remove_unclaimed M claims)"
  by (auto simp: remove_unclaimed_def remove_one_unclaimed_def quiet_def intro!: traced_intros)

lemma traced_probe_folds: "own made \<Longrightarrow> traced ok (probe_folds M made other)"
  by (auto simp: probe_folds_def quiet_def intro!: traced_intros)

lemma traced_disk_sensitivity [traced_intros]: "traced ok (disk_sensitivity M)"
  by (auto simp: disk_sensitivity_def probe_def intro!: traced_intros traced_probe_folds split: option.split)

lemma traced_walk_from: "traced ok (walk_from M dev index on_disk rest)"
  by (induction M dev index on_disk rest rule: walk_from.induct)
    (auto intro!: traced_intros split: sum.split)

lemma traced_walk_to [traced_intros]: "traced ok (walk_to M p disk dev)"
  unfolding walk_to_def by (rule traced_walk_from)

lemma traced_seen_at [traced_intros]: "traced ok (seen_at M X parent name st)"
  by (auto simp: seen_at_def intro!: traced_intros split: file_kind.split)

lemma traced_look_at [traced_intros]: "traced ok (look_at M X parent p name sn)"
  by (auto simp: look_at_def exact_name_def taken_by_def Let_def intro!: traced_intros split: exact.split)

lemma traced_rules_read [traced_intros]: "traced ok (rules_read M X)"
  by (auto simp: rules_read_def quiet_def intro!: traced_intros)

lemma traced_marker [traced_intros]: "traced ok (marker M)"
  by (auto simp: marker_def intro!: traced_intros)

text \<open>Loops over what the disk answers.\<close>

lemma traced_mounted_child: "traced ok (mounted_child M dev dir name found)"
  by (auto simp: mounted_child_def intro!: traced_intros split: option.split)

lemma traced_mounted_from: "traced ok (mounted_from M dev todo)"
proof (rule traced_loop)
  fix h r
  assume run: "mounted_from M dev todo h = Some r"
  show "keeps_policy ok h r"
  proof (rule mounted_from.raw_induct [where P = "\<lambda>M dev todo. keeps_policy ok", OF _ run], goal_cases)
    case (1 f M dev todo h r)
    have IH: "traced ok (f M dev t)" for t
      using 1(1) by (rule traced_loop)
    show ?case
      using 1(2) by (cases todo) (auto elim!: loop_rules intro!: traced_intros traced_mounted_child IH)
  qed
qed

lemma traced_refuse_mounts [traced_intros]: "traced ok (refuse_mounts M at disk)"
  by (auto simp: refuse_mounts_def mounted_beneath_def intro!: traced_intros traced_mounted_from)

lemma traced_gallop:
  assumes "\<And>n. traced ok (taken n)"
  shows "traced ok (gallop taken low step)"
proof (rule traced_loop)
  fix h r
  assume run: "gallop taken low step h = Some r"
  show "keeps_policy ok h r"
  proof (rule gallop.raw_induct [where P = "\<lambda>t low step h r. t = taken \<longrightarrow> keeps_policy ok h r", OF _ run, THEN mp],
      goal_cases)
    case (1 f t low step h r)
    have IH: "traced ok (f taken n k)" for n k
      using 1(1) by (intro traced_loop) blast
    show ?case
      using 1(2) by (auto elim!: loop_rules intro!: traced_intros assms IH split: if_splits)
  qed simp
qed

lemma traced_halve:
  assumes "\<And>n. traced ok (taken n)"
  shows "traced ok (halve taken low high)"
proof (induction "high - low" arbitrary: low high rule: less_induct)
  case less
  show ?case
    by (subst halve.simps) (auto intro!: traced_intros assms less)
qed

lemma traced_free_number [traced_intros]:
  assumes "\<And>n. traced ok (taken n)"
  shows "traced ok (free_number taken n)"
  by (auto simp: free_number_def intro!: traced_intros assms traced_gallop traced_halve)

lemma traced_trash_directory [traced_intros]: "traced ok (trash_directory M at)"
proof (rule traced_loop)
  fix h r
  assume run: "trash_directory M at h = Some r"
  show "keeps_policy ok h r"
  proof (rule trash_directory.raw_induct [where P = "\<lambda>M at. keeps_policy ok", OF _ run], goal_cases)
    case (1 f M at h r)
    have IH: "traced ok (f M p)" for p
      using 1(1) by (rule traced_loop)
    show ?case
      using 1(2) by (rule loop_rules) (auto simp: quiet_def intro!: traced_intros IH)
  qed
qed

lemma traced_usable_dir: "traced ok (usable_dir M at)"
  by (auto simp: usable_dir_def trash_exact_def intro!: traced_intros split: directory.split)

lemma traced_numbered_dir: "traced ok (numbered_dir M at name n)"
proof (rule traced_loop)
  fix h r
  assume run: "numbered_dir M at name n h = Some r"
  show "keeps_policy ok h r"
  proof (rule numbered_dir.raw_induct [where P = "\<lambda>M at name n. keeps_policy ok", OF _ run], goal_cases)
    case (1 f M at name n h r)
    have IH: "traced ok (f M at name n)" for at name n
      using 1(1) by (rule traced_loop)
    show ?case
      using 1(2) by (rule loop_rules) (auto intro!: traced_intros IH traced_usable_dir)
  qed
qed

lemma traced_trash_parents [traced_intros]: "traced ok (trash_parents M date original)"
  by (auto simp: trash_parents_def intro!: traced_intros traced_numbered_dir)

lemma traced_place_taken [traced_intros]: "traced ok (place_taken M parent what n)"
  by (auto simp: place_taken_def intro!: traced_intros)

lemma traced_size_of [traced_intros]: "traced ok (size_of M dev p)"
proof (rule traced_loop)
  fix h r
  assume run: "size_of M dev p h = Some r"
  show "keeps_policy ok h r"
  proof (rule size_of.raw_induct [where P = "\<lambda>M dev p. keeps_policy ok", OF _ run], goal_cases)
    case (1 f M dev p h r)
    have IH: "traced ok (f M dev p)" for dev p
      using 1(1) by (rule traced_loop)
    show ?case
      using 1(2) by (rule loop_rules) (auto intro!: traced_intros IH)
  qed
qed

lemma traced_remove_all:
  assumes "own p"
  shows "traced ok (remove_all M dev p)"
proof (rule traced_loop)
  fix h r
  assume run: "remove_all M dev p h = Some r"
  have "own p \<longrightarrow> keeps_policy ok h r"
  proof (rule remove_all.raw_induct [where P = "\<lambda>M dev p h r. own p \<longrightarrow> keeps_policy ok h r", OF _ run], goal_cases)
    case (1 f M dev p h r)
    have IH: "traced ok (f M dev p)" if "own p" for dev p
      using 1(1) that by (intro traced_loop) blast
    show ?case
      using 1(2) by (intro impI, elim loop_rules(1)) (auto simp: quiet_def intro!: traced_intros IH own_append)
  qed
  then show "keeps_policy ok h r" using assms by simp
qed

lemma traced_remove_up: "traced ok (remove_up M ds)"
  by (induction ds) (auto simp: quiet_def intro!: traced_intros)

lemma traced_prune_rows: "traced ok (prune_rows M fid now po dev rows used pr)"
  by (induction M fid now po dev rows used pr rule: prune_rows.induct)
    (auto simp: remove_empty_parents_def intro!: traced_intros traced_remove_all traced_remove_up)

lemma traced_prune [traced_intros]: "traced ok (prune M fid rows now po)"
  by (auto simp: prune_def Let_def intro!: traced_intros traced_prune_rows)

lemma traced_trash_hash [traced_intros]: "traced ok (trash_hash_file M X p)"
  by (auto simp: trash_hash_file_def quiet_def intro!: traced_intros)

lemma traced_adopt_row [traced_intros]: "traced ok (adopt_row M X fid now dev row acc)"
  by (auto simp: adopt_row_def Let_def intro!: traced_intros split: file_kind.split sum.split option.split)

lemma traced_reconcile_from: "traced ok (reconcile_from M X fid now dev known acc)"
proof (rule traced_loop)
  fix h r
  assume run: "reconcile_from M X fid now dev known acc h = Some r"
  show "keeps_policy ok h r"
  proof (rule reconcile_from.raw_induct [where P = "\<lambda>M X fid now dev known acc. keeps_policy ok", OF _ run], goal_cases)
    case (1 f M X fid now dev known acc h r)
    have IH: "traced ok (f M X fid now dev known acc)" for acc
      using 1(1) by (rule traced_loop)
    show ?case
      using 1(2) by (cases "fst acc") (auto elim!: loop_rules intro!: traced_intros IH)
  qed
qed

lemma traced_reconcile [traced_intros]: "traced ok (reconcile M X fid rows now)"
  by (auto simp: reconcile_def drop_missing_def intro!: traced_intros traced_reconcile_from)

lemma traced_is_stable [traced_intros]: "traced ok (is_stable M p st)"
  by (auto simp: is_stable_def intro!: traced_intros)

lemma traced_hash_file [traced_intros]: "traced ok (hash_file M X p before)"
  by (auto simp: hash_file_def quiet_def intro!: traced_intros)

lemma traced_looked_state [traced_intros]: "traced ok (looked_state cm ig dev p parent name st ob)"
  by (auto simp: looked_state_def Let_def quiet_def intro!: traced_intros split: option.split)

lemma traced_look_state [traced_intros]: "traced ok (look_state cm sn ig dev p disk)"
  by (auto simp: look_state_def intro!: traced_intros split: sum.split look.split option.split)

lemma traced_observe_path [traced_intros]: "traced ok (observe_path cm sn p)"
  by (auto simp: observe_path_def observe_state_def Let_def quiet_def intro!: traced_intros split: option.split walk.split)

lemma traced_commit_look [traced_intros]: "traced ok (commit_look cm at)"
  by (auto simp: commit_look_def Let_def intro!: traced_intros split: walk.split)

lemma traced_copy_free [traced_intros]: "traced ok (copy_free cm at dst)"
  by (auto simp: copy_free_def Let_def intro!: traced_intros)

lemma traced_durable [traced_intros]: "traced ok (durable M ws)"
  by (auto simp: durable_def quiet_def intro!: traced_intros)

lemma traced_sync_dirs [traced_intros]: "traced ok (sync_dirs M dirs)"
  by (auto simp: sync_dirs_def quiet_def intro!: traced_intros)

lemma traced_sync_landed [traced_intros]: "traced ok (sync_landed M dirs)"
  by (auto simp: sync_landed_def quiet_def intro!: traced_intros)

lemma traced_make_parents [traced_intros]: "traced ok (make_parents M at first)"
  by (auto simp: make_parents_def make_one_def undo_made_def Let_def quiet_def intro!: traced_intros
      split: option.split)

lemma traced_undo_parents [traced_intros]: "traced ok (undo_parents cm created)"
  by (auto simp: undo_parents_def quiet_def intro!: traced_intros)

lemma traced_commit_observe [traced_intros]: "traced ok (commit_observe cm p)"
  by (auto simp: commit_observe_def Let_def quiet_def intro!: traced_intros)

lemma traced_commit_found [traced_intros]: "traced ok (commit_found cm p f)"
  by (auto simp: commit_found_def intro!: traced_intros split: fail.split)

lemma traced_commit_holds [traced_intros]: "traced ok (commit_holds cm at disk)"
  by (auto simp: commit_holds_def hold_one_def quiet_def intro!: traced_intros split: disk_entry.split)

lemma traced_child_content [traced_intros]: "traced ok (child_content cm at child st)"
  by (auto simp: child_content_def Let_def intro!: traced_intros split: file_kind.split)

lemma traced_commit_set_meta [traced_intros]: "traced ok (commit_set_meta cm at expected mtime exec)"
  by (auto simp: commit_set_meta_def meta_set_def Let_def quiet_def intro!: traced_intros split: found_at.split)

lemma traced_nothing_done [traced_intros]: "traced ok (nothing_done cm)"
  by (auto simp: nothing_done_def intro!: traced_intros)

lemma traced_removal_done [traced_intros]: "traced ok (removal_done cm at ws dirs)"
  by (auto simp: removal_done_def intro!: traced_intros)

lemma traced_landed_row [traced_intros]: "traced ok (landed_row cm p r)"
  by (auto simp: landed_row_def intro!: traced_intros split: unresolved.split)

lemma traced_displaced_size [traced_intros]: "traced ok (displaced_size cm at disk ob)"
  by (auto simp: displaced_size_def intro!: traced_intros)

end

text \<open>What a write readies is the host's own.\<close>

definition temp_ok :: "dpath option \<Rightarrow> bool" where
  "temp_ok temp \<longleftrightarrow> (\<forall>t. temp = Some t \<longrightarrow> own t)"

definition incoming_ok :: "incoming \<Rightarrow> bool" where
  "incoming_ok i \<longleftrightarrow> (case i of
     InFile temp _ \<Rightarrow> own temp | InDir temp \<Rightarrow> own temp | InSymlink lnk temp \<Rightarrow> own lnk \<and> own temp)"

context quiet_policy
begin

lemma traced_in_discard [traced_intros]: "incoming_ok i \<Longrightarrow> traced ok (in_discard M i)"
  by (cases i) (auto simp: in_discard_def incoming_ok_def quiet_def intro!: traced_intros)

lemma traced_in_finish [traced_intros]: "incoming_ok i \<Longrightarrow> traced ok (in_finish M i)"
  by (cases i) (auto simp: in_finish_def incoming_ok_def quiet_def intro!: traced_intros)

lemma traced_landed_write [traced_intros]:
  "incoming_ok i \<Longrightarrow> traced ok (landed_write cm at e d fd i missing created dp)"
  by (auto simp: landed_write_def Let_def intro!: traced_intros)

end

section \<open>What an action gives\<close>

definition gives :: "('s, 'a) act \<Rightarrow> ('a \<Rightarrow> bool) \<Rightarrow> bool" where
  "gives m V \<longleftrightarrow> (\<forall>h x h'. m h = Some (x, h') \<longrightarrow> V x)"

named_theorems gives_intros "what an action gives"

lemma gives_ret [gives_intros]: "V x \<Longrightarrow> gives (ret x) V"
  by (simp add: gives_def ret_def)

lemma gives_bnd [gives_intros]: "(\<And>x. gives (k x) V) \<Longrightarrow> gives (bnd m k) V"
  unfolding gives_def bnd_Some by blast

lemma gives_trying [gives_intros]:
  "(\<And>e. V (Inl (f e))) \<Longrightarrow> (\<And>x. gives (k x) V) \<Longrightarrow> gives (trying f m k) V"
  unfolding trying_def by (intro gives_bnd) (auto split: sum.split intro: gives_ret)

lemma gives_either [gives_intros]:
  "(\<And>e. gives (a e) V) \<Longrightarrow> (\<And>x. gives (b x) V) \<Longrightarrow> gives (either m a b) V"
  unfolding either_def by (intro gives_bnd) (auto split: sum.split)

lemma gives_bnd_from: "gives m U \<Longrightarrow> (\<And>x. U x \<Longrightarrow> gives (k x) V) \<Longrightarrow> gives (bnd m k) V"
  unfolding gives_def bnd_Some by blast

lemma traced_trying_from:
  "gives m U \<Longrightarrow> traced ok m \<Longrightarrow> (\<And>x. U (Inr x) \<Longrightarrow> traced ok (k x)) \<Longrightarrow> traced ok (trying f m k)"
  unfolding trying_def traced_def gives_def bnd_Some
  by (fastforce simp: ret_def split: sum.splits intro: extends_trans)

definition readied :: "fail + incoming \<Rightarrow> bool" where
  "readied r \<longleftrightarrow> (case r of Inl _ \<Rightarrow> True | Inr i \<Rightarrow> incoming_ok i)"

lemma scratch_own: "gives (tmp_scratch M what) own"
  by (auto simp: tmp_scratch_def intro!: gives_intros)

lemma ready_gives: "temp_ok temp \<Longrightarrow> gives (ready M X e temp) readied"
  by (auto simp: ready_def ready_dir_def ready_file_def ready_symlink_def readied_def incoming_ok_def temp_ok_def Let_def
      intro!: gives_intros gives_bnd_from [OF scratch_own] split: kind.split option.split)

context quiet_policy
begin

lemma traced_scratch_from: "(\<And>x. own x \<Longrightarrow> traced ok (k x)) \<Longrightarrow> traced ok (bnd (tmp_scratch M what) k)"
  using scratch_own [of M what] traced_tmp_scratch [of M what]
  unfolding traced_def gives_def bnd_Some by (blast intro: extends_trans)

lemma traced_ready [traced_intros]: "traced ok (ready M X e temp)"
  by (auto simp: ready_def ready_dir_def ready_file_def ready_symlink_def Let_def quiet_def
      intro!: traced_scratch_from traced_intros split: kind.split option.split)

end

section \<open>Renames\<close>

lemma extends_Cons: "extends ok cs cs' \<Longrightarrow> ok c cs' \<Longrightarrow> extends ok cs (c # cs')"
  by (auto simp: extends_def)

locale rename_policy = quiet_policy +
  assumes noreplace_ok: "ok (Did (RenameNoreplace src dst) r) cs"
    and checked_ok: "ok (Did (Rename src dst) r)
      (Stated dst (Inl IeNotFound) # Did (RenameNoreplace src dst) (Inl IeNoReplaceUnsupported) # cs)"
begin

lemma traced_rename_refusing [traced_intros]: "traced ok (rename_refusing M src dst)"
  by (auto simp: traced_def rename_refusing_def either_def trying_def bnd_Some perform_def lstat_def called_def ret_def
      Let_def quiet_def intro!: extends_Cons noreplace_ok checked_ok quiet_ok split: sum.splits if_splits)

lemma traced_rename_noting [traced_intros]: "traced ok (rename_noting M src dst)"
  by (auto simp: rename_noting_def intro!: traced_intros)

lemma traced_move_from:
  assumes before: "\<And>pl l. traced ok (before pl l)"
  shows "traced ok (move_from M src what parent before start l)"
proof (rule traced_loop)
  fix h r
  assume run: "move_from M src what parent before start l h = Some r"
  have "(\<forall>pl l. traced ok (before pl l)) \<longrightarrow> keeps_policy ok h r"
  proof (rule move_from.raw_induct
      [where P = "\<lambda>M src what parent before n l h r. (\<forall>pl l. traced ok (before pl l)) \<longrightarrow> keeps_policy ok h r", OF _ run],
      goal_cases)
    case (1 f M src what parent before n l h r)
    have IH: "traced ok (f M src what parent before n l)" if "\<forall>pl l. traced ok (before pl l)" for n l
      using 1(1) that by (intro traced_loop) blast
    show ?case
      using 1(2) by (intro impI, elim loop_rules(1)) (auto intro!: traced_intros IH)
  qed
  then show "keeps_policy ok h r" using before by simp
qed

lemma traced_move_in [traced_intros]:
  "(\<And>pl l. traced ok (before pl l)) \<Longrightarrow> traced ok (move_in M src what before l)"
  by (auto simp: move_in_def intro!: traced_intros traced_move_from)

lemma traced_commit_displace [traced_intros]: "traced ok (commit_displace cm at disk ob hash d temp)"
  by (auto simp: commit_displace_def displace_to_trash_def displace_to_copy_def before_place_def Let_def
      intro!: traced_intros split: displace.split sum.split not_moved.split)

lemma traced_put_back [traced_intros]: "traced ok (put_back cm p d dst temp)"
  by (auto simp: put_back_def intro!: traced_intros)

lemma traced_resolve_one [traced_intros]: "traced ok (resolve_one cm p)"
  by (auto simp: resolve_one_def settle_row_def intro!: traced_intros split: option.split unresolved.split)

lemma traced_unlanded_write [traced_intros]:
  "incoming_ok i \<Longrightarrow> traced ok (unlanded_write cm at fd i created dp e)"
  by (auto simp: unlanded_write_def Let_def intro!: traced_intros split: option.split found_at.split)

lemma traced_write_ready: "incoming_ok i \<Longrightarrow> traced ok (write_ready cm at e expected d fd missing i)"
  by (auto simp: write_ready_def Let_def intro!: traced_intros split: found_at.split)

lemma traced_commit_write [traced_intros]:
  assumes "temp_ok temp"
  shows "traced ok (commit_write cm at e expected d temp)"
proof -
  have ready: "traced ok (trying fail_only (ready M X e temp) (write_ready cm at e expected d fd missing))" for M X d fd missing
    using ready_gives [OF assms] traced_ready
    by (rule traced_trying_from) (auto simp: readied_def intro: traced_write_ready)
  show ?thesis
    by (auto simp: commit_write_def intro!: ready traced_intros split: option.split displace.split)
qed

lemma traced_commit_trash [traced_intros]: "traced ok (commit_trash cm original disk k hash sz)"
  by (auto simp: commit_trash_def Let_def intro!: traced_intros split: sum.split not_moved.split)

lemma traced_commit_remove_dir [traced_intros]: "traced ok (commit_remove_dir cm at disk)"
  by (auto simp: commit_remove_dir_def remove_child_def Let_def quiet_def intro!: traced_intros)

lemma traced_commit_remove [traced_intros]: "traced ok (commit_remove cm at expected d)"
  by (auto simp: commit_remove_def intro!: traced_intros split: found_at.split displace.split)

lemma traced_commit_to_trash [traced_intros]: "traced ok (commit_to_trash cm at expected)"
  by (auto simp: commit_to_trash_def intro!: traced_intros split: found_at.split)

lemma traced_commit_attempt [traced_intros]: "temp_ok temp \<Longrightarrow> traced ok (commit_attempt cm p oper temp)"
  by (auto simp: commit_attempt_def commit_do_def Let_def quiet_def intro!: traced_intros
      split: row_resolution.split bool.split commit_oper.split)

lemma traced_commit_run [traced_intros]: "temp_ok temp \<Longrightarrow> traced ok (commit_run cm a v temp)"
  by (auto simp: commit_run_def commit_result_def intro!: traced_intros split: option.split)

lemma traced_commit_resolve [traced_intros]: "traced ok (commit_resolve cm)"
  by (auto simp: commit_resolve_def Let_def quiet_def intro!: traced_intros)

lemma traced_undo [traced_intros]: "traced ok (undo M fid rows names)"
  by (auto simp: undo_def undo_row_def undo_landed_def undo_back_def undo_move_def Let_def quiet_def
      intro!: traced_intros split: walk.split)

lemma traced_start_run [traced_intros]: "traced ok (start_run sa)"
  by (auto simp: start_run_def Let_def intro!: traced_intros)

end

section \<open>What leaves alone what the host keeps\<close>

definition calm :: "('s, 'a) act \<Rightarrow> bool" where
  "calm m \<longleftrightarrow> (\<forall>h x h'. m h = Some (x, h') \<longrightarrow> ho_kept h' = ho_kept h)"

named_theorems calm_intros "what leaves alone what the host keeps"

lemma calm_ret [calm_intros]: "calm (ret x)"
  by (simp add: calm_def ret_def)

lemma calm_kept [calm_intros]: "calm kept"
  by (simp add: calm_def kept_def)

lemma calm_bnd [calm_intros]: "calm m \<Longrightarrow> (\<And>x. calm (k x)) \<Longrightarrow> calm (bnd m k)"
  unfolding calm_def bnd_Some by metis

lemma calm_either [calm_intros]: "calm m \<Longrightarrow> (\<And>e. calm (a e)) \<Longrightarrow> (\<And>x. calm (b x)) \<Longrightarrow> calm (either m a b)"
  unfolding either_def by (rule calm_bnd) (auto split: sum.split)

lemma calm_trying [calm_intros]: "calm m \<Longrightarrow> (\<And>x. calm (k x)) \<Longrightarrow> calm (trying f m k)"
  unfolding trying_def by (rule calm_bnd) (auto split: sum.split intro: calm_ret)

lemma calm_ignoring [calm_intros]: "calm m \<Longrightarrow> calm (ignoring m)"
  unfolding ignoring_def by (intro calm_intros)

lemma calm_folding [calm_intros]: "(\<And>x b. calm (f x b)) \<Longrightarrow> calm (folding f xs b)"
  by (induction xs arbitrary: b) (auto intro!: calm_intros)

lemma calm_try_folding [calm_intros]: "(\<And>x b. calm (f x b)) \<Longrightarrow> calm (try_folding f xs b)"
  by (induction xs arbitrary: b) (auto intro!: calm_intros)

lemma calm_called: "calm (called a c)"
  by (simp add: calm_def called_def Let_def)

lemma calm_calls [calm_intros]:
  "calm (perform M oper)" "calm (lstat M p)" "calm (read_dir M p)" "calm (read_link M p)" "calm (read_to_end M p)"
  "calm (clock_read M)" "calm (realtime_read M)" "calm (instant_read M)" "calm (unique M)"
  by (simp_all add: perform_def lstat_def read_dir_def read_link_def read_to_end_def clock_read_def realtime_read_def
      instant_read_def unique_def calm_called)

lemma calm_if [calm_intros]: "(c \<Longrightarrow> calm a) \<Longrightarrow> (\<not> c \<Longrightarrow> calm b) \<Longrightarrow> calm (\<lambda>h. if c then a h else b h)"
  by (cases c) simp_all

text \<open>Loops.\<close>

definition calm_at :: "'s host \<Rightarrow> 'a \<times> 's host \<Rightarrow> bool" where
  "calm_at h r \<longleftrightarrow> ho_kept (snd r) = ho_kept h"

lemma calm_loop: "(\<And>h r. m h = Some r \<Longrightarrow> calm_at h r) \<Longrightarrow> calm m"
  by (auto simp: calm_def calm_at_def)

lemma calm_loop_rules:
  "either m a b h = Some r \<Longrightarrow> calm (either m a b) \<Longrightarrow> calm_at h r"
  "ret x h = Some u \<Longrightarrow> calm_at h u"
  by (cases r) (auto simp: calm_def calm_at_def ret_def)

lemma calm_remove_all [calm_intros]: "calm (remove_all M dev p)"
proof (rule calm_loop)
  fix h r
  assume run: "remove_all M dev p h = Some r"
  show "calm_at h r"
  proof (rule remove_all.raw_induct [where P = "\<lambda>M dev p. calm_at", OF _ run], goal_cases)
    case (1 f M dev p h r)
    have IH: "calm (f M dev p)" for dev p
      using 1(1) by (rule calm_loop)
    show ?case
      using 1(2) by (rule calm_loop_rules(1)) (auto intro!: calm_intros IH)
  qed
qed

lemma calm_remove_up [calm_intros]: "calm (remove_up M ds)"
  by (induction ds) (auto intro!: calm_intros)

lemma calm_prune_rows: "calm (prune_rows M fid now po dev rows used pr)"
  by (induction M fid now po dev rows used pr rule: prune_rows.induct)
    (auto simp: remove_empty_parents_def intro!: calm_intros)

lemma calm_prune [calm_intros]: "calm (prune M fid rows now po)"
  by (auto simp: prune_def Let_def intro!: calm_intros calm_prune_rows)

lemma calm_trash_hash [calm_intros]: "calm (trash_hash_file M X p)"
  by (auto simp: trash_hash_file_def intro!: calm_intros)

lemma calm_adopt_row [calm_intros]: "calm (adopt_row M X fid now dev row acc)"
  by (auto simp: adopt_row_def Let_def intro!: calm_intros split: file_kind.split sum.split option.split)

lemma calm_reconcile_from: "calm (reconcile_from M X fid now dev known acc)"
proof (rule calm_loop)
  fix h r
  assume run: "reconcile_from M X fid now dev known acc h = Some r"
  show "calm_at h r"
  proof (rule reconcile_from.raw_induct [where P = "\<lambda>M X fid now dev known acc. calm_at", OF _ run], goal_cases)
    case (1 f M X fid now dev known acc h r)
    have IH: "calm (f M X fid now dev known acc)" for acc
      using 1(1) by (rule calm_loop)
    show ?case
      using 1(2) by (cases "fst acc") (auto elim!: calm_loop_rules intro!: calm_intros IH)
  qed
qed

lemma calm_reconcile [calm_intros]: "calm (reconcile M X fid rows now)"
  by (auto simp: reconcile_def drop_missing_def intro!: calm_intros calm_reconcile_from)

lemma calm_tmp [calm_intros]:
  "calm (tmp_ensure M)" "calm (remove_unclaimed M claims)" "calm (probe_folds M made other)"
  by (auto simp: tmp_ensure_def remove_unclaimed_def remove_one_unclaimed_def probe_folds_def intro!: calm_intros)

lemma calm_probe [calm_intros]: "calm (probe M)"
  by (auto simp: probe_def intro!: calm_intros)

lemma calm_marker [calm_intros]: "calm (marker M)"
  by (auto simp: marker_def intro!: calm_intros)

lemma calm_walk_from: "calm (walk_from M dev index on_disk rest)"
  by (induction M dev index on_disk rest rule: walk_from.induct) (auto intro!: calm_intros split: sum.split)

lemma calm_walk_to [calm_intros]: "calm (walk_to M p disk dev)"
  unfolding walk_to_def by (rule calm_walk_from)

lemma calm_rename_refusing [calm_intros]: "calm (rename_refusing M src dst)"
  by (auto simp: rename_refusing_def intro!: calm_intros)

lemma calm_sync_landed [calm_intros]: "calm (sync_landed M dirs)"
  by (auto simp: sync_landed_def intro!: calm_intros)

lemma calm_undo [calm_intros]: "calm (undo M fid rows names)"
  by (auto simp: undo_def undo_row_def undo_landed_def undo_back_def undo_move_def Let_def
      intro!: calm_intros split: walk.split)

end
