(* ===== verification/CommitViews.thy ===== *)
theory CommitViews
  imports CommitLaws Samples
begin

text \<open>
  What commits and the start of a folder promise about the disk: nothing there is ever replaced, a displaced entry
  has a durable journal row first, and the search for a free name in the trash ends.
\<close>

section \<open>Nothing is replaced\<close>

text \<open>A plain rename follows a look that found nothing at its target, right after the filesystem said it cannot
  refuse to replace; files are removed and made in the host's own directories only.\<close>

definition careful :: "call \<Rightarrow> call list \<Rightarrow> bool" where
  "careful c cs \<longleftrightarrow> (case c of
     Did (Rename src dst) _ \<Rightarrow>
       take 2 cs = [Stated dst (Inl IeNotFound), Did (RenameNoreplace src dst) (Inl IeNoReplaceUnsupported)]
   | Did (RenameNoreplace _ _) _ \<Rightarrow> True
   | _ \<Rightarrow> quiet c)"

interpretation careful: rename_policy careful
  by unfold_locales (auto simp: careful_def quiet_def split: call.splits operation.splits)

text \<open>C0: Nothing the host does to a folder's disk replaces what is there. In a commit, in resolving open rows and
  in the start of a folder, however the disk answers, a rename that could replace its target happens only right
  after the look that found nothing there, on a filesystem that cannot refuse; and files are made, links are made
  and files are removed in \<open>.delocal/tmp\<close> and \<open>.delocal/trash\<close> only.\<close>

theorem commits_never_replace:
  assumes "temp_ok temp"
  shows "(\<forall>r h'. commit_run cm a v temp h = Some (r, h') \<longrightarrow> extends careful (ho_calls h) (ho_calls h')) \<and>
    (\<forall>r h'. commit_resolve cm h = Some (r, h') \<longrightarrow> extends careful (ho_calls h) (ho_calls h')) \<and>
    (\<forall>r h'. start_run sa h = Some (r, h') \<longrightarrow> extends careful (ho_calls h) (ho_calls h'))"
  using careful.traced_commit_run [OF assms] careful.traced_commit_resolve careful.traced_start_run
  unfolding traced_def by blast

section \<open>A sample disk\<close>

text \<open>A folder with a marker and a file \<open>a\<close>; a temp file is ready, and the filesystem cannot refuse to replace.\<close>

definition sample_stat :: "file_kind \<Rightarrow> stat" where
  "sample_stat k =
     \<lparr>st_kind = k, st_size = 3, st_mtime = 5, st_ctime = 5, st_mode = 420, st_dev = 1, st_ino = 1\<rparr>"

definition sample_lstat :: "dpath \<Rightarrow> io_error + stat" where
  "sample_lstat p =
     (if p = [] \<or> p = [RESERVED_DIR] \<or> p = TMP then Inr (sample_stat FkDir)
      else if p = [RESERVED_DIR, MARKER] \<or> p = [''a''] \<or> p = TMP @ [''t''] then Inr (sample_stat FkFile)
      else Inl IeNotFound)"

definition sample_machine :: machine_oracle where
  "sample_machine =
     \<lparr>or_do = (\<lambda>_ oper. case oper of RenameNoreplace _ _ \<Rightarrow> Inl IeNoReplaceUnsupported | _ \<Rightarrow> Inr ()),
      or_lstat = (\<lambda>_. sample_lstat), or_read_dir = (\<lambda>_ _. Inr []), or_read_link = (\<lambda>_ _. Inl IeNotFound),
      or_read_file = (\<lambda>_ _. Inr ''abc''), or_now = (\<lambda>_. 7), or_realtime = (\<lambda>_. 7), or_instant = (\<lambda>_. 7),
      or_unique = (\<lambda>_. ''u'')\<rparr>"

definition sample_texts :: texts where
  "sample_texts =
     \<lparr>tx_utf8 = (\<lambda>_. True), tx_lossy = (\<lambda>s. s), tx_is_nfc = (\<lambda>_. True), tx_nfc = (\<lambda>s. s), tx_lowercase = (\<lambda>s. s),
      tx_blake3 = (\<lambda>_. ContentHash [7]), tx_line_error = (\<lambda>_. None), tx_builds = (\<lambda>_. True),
      tx_matched = (\<lambda>_ _ _. GlobNone)\<rparr>"

definition sample_commit :: commit where
  "sample_commit =
     \<lparr>cm_id = FolderId [1], cm_machine = sample_machine, cm_texts = sample_texts,
      cm_records = \<lparr>rc_live = (\<lambda>_. None), rc_entries = []\<rparr>, cm_names = (\<lambda>_. None), cm_shims = (\<lambda>_. None)\<rparr>"

definition sample_host :: "disk_state host" where
  "sample_host = \<lparr>ho_calls = [], ho_kept = disk_new\<lparr>ds_sensitivity := Some \<lparr>folds_case = False, folds_normalisation = False\<rparr>\<rparr>\<rparr>"

definition sample_write :: action where
  "sample_write = AcWrite (FolderId [1]) path_a (entry_of there 9 6)
     (Some \<lparr>ob_kind = File, ob_size = 3, ob_mtime = 5, ob_exec = False, ob_hash = ContentHash [7]\<rparr>)
     (ToConflictCopy (RelPath ''b''))"

definition displaced_to_b :: "call \<Rightarrow> bool" where
  "displaced_to_b c \<longleftrightarrow> (case c of Did (Rename src dst) r \<Rightarrow> src = [''a''] \<and> dst = [''b''] | _ \<Rightarrow> False)"

lemma sample_run:
  "case commit_run sample_commit sample_write version_empty (Some (TMP @ [''t''])) sample_host of
     Some (_, h') \<Rightarrow> list_ex displaced_to_b (ho_calls h') | None \<Rightarrow> False"
  by code_simp


lemma commits_never_replace_witness:
  "case commit_run sample_commit sample_write version_empty (Some (TMP @ [''t''])) sample_host of
     Some (_, h') \<Rightarrow> all_new careful (ho_calls h') [] \<and> list_ex displaced_to_b (ho_calls h') | None \<Rightarrow> False"
proof -
  obtain r h' where run: "commit_run sample_commit sample_write version_empty (Some (TMP @ [''t''])) sample_host = Some (r, h')"
      "list_ex displaced_to_b (ho_calls h')"
    using sample_run by (auto split: option.splits)
  have "ho_calls sample_host = []" "temp_ok (Some (TMP @ [''t'']))"
    by (simp_all add: sample_host_def temp_ok_def)
  then show ?thesis
    using commits_never_replace [of "Some (TMP @ [''t''])"] run by (metis (no_types, lifting) case_prodI extends_from_Nil option.simps(5))
qed

end
