(* ===== verification/CommitJournals.thy ===== *)
theory CommitJournals
  imports CommitViews
begin

text \<open>
  Commits and their journal: an entry is displaced only once a durable row says where it went, so that a crash at
  any call leaves a row the next start undoes.
\<close>

section \<open>What an action ensures\<close>

definition ensures :: "('s host \<Rightarrow> bool) \<Rightarrow> ('s, 'a) act \<Rightarrow> ('a \<Rightarrow> 's host \<Rightarrow> bool) \<Rightarrow> bool" where
  "ensures P m V \<longleftrightarrow> (\<forall>h x h'. P h \<longrightarrow> m h = Some (x, h') \<longrightarrow> V x h')"

named_theorems ensures_intros "what an action ensures"

lemma ensures_ret [ensures_intros]: "(\<And>h. P h \<Longrightarrow> V x h) \<Longrightarrow> ensures P (ret x) V"
  by (simp add: ensures_def ret_def)

lemma ensures_bnd: "ensures P m U \<Longrightarrow> (\<And>x. ensures (U x) (k x) V) \<Longrightarrow> ensures P (bnd m k) V"
  unfolding ensures_def bnd_Some by blast

lemma ensures_trying:
  "ensures P m U \<Longrightarrow> (\<And>e. ensures (U (Inl e)) (ret (Inl (f e))) V) \<Longrightarrow> (\<And>x. ensures (U (Inr x)) (k x) V) \<Longrightarrow>
   ensures P (trying f m k) V"
  unfolding trying_def by (rule ensures_bnd) (auto split: sum.split)

lemma ensures_either:
  "ensures P m U \<Longrightarrow> (\<And>e. ensures (U (Inl e)) (a e) V) \<Longrightarrow> (\<And>x. ensures (U (Inr x)) (b x) V) \<Longrightarrow>
   ensures P (either m a b) V"
  unfolding either_def by (rule ensures_bnd) (auto split: sum.split)

lemma ensures_post: "ensures P m U \<Longrightarrow> (\<And>x h. U x h \<Longrightarrow> V x h) \<Longrightarrow> ensures P m V"
  by (auto simp: ensures_def)

text \<open>What holds of the calls so far holds of more calls.\<close>

definition lasting :: "(call list \<Rightarrow> bool) \<Rightarrow> bool" where
  "lasting I \<longleftrightarrow> (\<forall>new cs. I cs \<longrightarrow> I (new @ cs))"

lemma ensures_lasting: "traced ok m \<Longrightarrow> lasting I \<Longrightarrow> ensures (\<lambda>h. I (ho_calls h)) m (\<lambda>_ h. I (ho_calls h))"
  unfolding ensures_def traced_def extends_def lasting_def by metis

section \<open>Behind a journal row\<close>

definition row_for :: "rel_path \<Rightarrow> dpath \<Rightarrow> host_write \<Rightarrow> bool" where
  "row_for p d w \<longleftrightarrow>
     (case w of PutJournal _ row \<Rightarrow> jr_path row = p \<and> jr_displaced_to row = path_bytes d | _ \<Rightarrow> False)"

definition durable_row :: "rel_path \<Rightarrow> dpath \<Rightarrow> call \<Rightarrow> bool" where
  "durable_row p d c \<longleftrightarrow> (case c of Did (Durable ws) (Inr _) \<Rightarrow> list_ex (row_for p d) ws | _ \<Rightarrow> False)"

definition backed :: "rel_path \<Rightarrow> dpath \<Rightarrow> call list \<Rightarrow> bool" where
  "backed p d cs \<longleftrightarrow> list_ex (durable_row p d) cs"

text \<open>What may be renamed away for a commit at \<open>p\<close>: the host's own files, what \<open>p\<close>'s open row displaced, and what
  a durable row names as displaced.\<close>

definition may_leave :: "rel_path \<Rightarrow> dpath list \<Rightarrow> dpath \<Rightarrow> call list \<Rightarrow> bool" where
  "may_leave p away src cs \<longleftrightarrow> own src \<or> src \<in> set away \<or> backed p src cs"

definition journalled :: "rel_path \<Rightarrow> dpath list \<Rightarrow> call \<Rightarrow> call list \<Rightarrow> bool" where
  "journalled p away c cs \<longleftrightarrow> (case c of
     Did (Rename src dst) _ \<Rightarrow> may_leave p away src cs \<or> backed p dst cs
   | Did (RenameNoreplace src dst) _ \<Rightarrow> may_leave p away src cs \<or> backed p dst cs
   | _ \<Rightarrow> True)"

definition behind :: "(call list \<Rightarrow> bool) \<Rightarrow> rel_path \<Rightarrow> dpath list \<Rightarrow> call \<Rightarrow> call list \<Rightarrow> bool" where
  "behind I p away c cs \<longleftrightarrow> (I cs \<longrightarrow> journalled p away c cs)"

interpretation behind: quiet_policy "behind I p away" for I p away
  by unfold_locales (auto simp: behind_def journalled_def quiet_def split: call.splits operation.splits)

lemma lasting_backed [simp]: "lasting (backed p d)" "lasting (may_leave p away src)"
  by (auto simp: lasting_def backed_def may_leave_def)

lemma lasting_if [simp]: "lasting I \<Longrightarrow> lasting (\<lambda>cs. c \<longrightarrow> I cs)" "lasting (\<lambda>_. c)"
  by (auto simp: lasting_def)

lemma all_new_behind:
  "all_new (behind (\<lambda>cs. I cs \<and> J cs) p away) new cs \<Longrightarrow> lasting J \<Longrightarrow> J cs \<Longrightarrow> all_new (behind I p away) new cs"
  by (induction new) (auto simp: behind_def lasting_def)

lemma traced_then:
  assumes "traced (behind I p away) m" "ensures (\<lambda>_. True) m (\<lambda>x h. J x (ho_calls h))" "\<And>x. lasting (J x)"
    and "\<And>x. traced (behind (\<lambda>cs. I cs \<and> J x cs) p away) (k x)"
  shows "traced (behind I p away) (bnd m k)"
  unfolding traced_def bnd_Some
proof (intro allI impI, elim exE conjE)
  fix h y h' x h1
  assume run: "m h = Some (x, h1)" "k x h1 = Some (y, h')"
  then have "J x (ho_calls h1)" using assms(2) by (auto simp: ensures_def)
  with assms(3) tracedD [OF assms(4) run(2)] have "extends (behind I p away) (ho_calls h1) (ho_calls h')"
    unfolding extends_def by (blast intro: all_new_behind)
  with assms(1) run(1) show "extends (behind I p away) (ho_calls h) (ho_calls h')"
    by (auto simp: traced_def intro: extends_trans)
qed

lemma traced_sum_then:
  assumes "traced (behind I p away) m" "ensures (\<lambda>_. True) m (\<lambda>r h. \<forall>x. r = Inr x \<longrightarrow> J x (ho_calls h))" "\<And>x. lasting (J x)"
    and "\<And>x. traced (behind (\<lambda>cs. I cs \<and> J x cs) p away) (b x)"
  shows "(\<And>e. traced (behind I p away) (a e)) \<Longrightarrow> traced (behind I p away) (either m a b)"
    and "traced (behind I p away) (trying f m b)"
proof -
  have either: "traced (behind I p away) (either m a b)" if "\<And>e. traced (behind I p away) (a e)" for a
    unfolding either_def
  proof (rule traced_then [where J = "\<lambda>r cs. \<forall>x. r = Inr x \<longrightarrow> J x cs"])
    show "traced (behind (\<lambda>cs. I cs \<and> (\<forall>x. r = Inr x \<longrightarrow> J x cs)) p away) (case r of Inl e \<Rightarrow> a e | Inr x \<Rightarrow> b x)" for r
      using that assms(4) by (cases r) simp_all
  qed (use assms(1-3) in \<open>auto simp: lasting_def\<close>)
  show "(\<And>e. traced (behind I p away) (a e)) \<Longrightarrow> traced (behind I p away) (either m a b)"
    by (rule either)
  have "trying f m b = either m (\<lambda>e. ret (Inl (f e))) b"
    by (simp add: trying_def either_def)
  then show "traced (behind I p away) (trying f m b)"
    by (simp add: either traced_ret)
qed

lemma traced_either_ret:
  "(\<And>e. r = Inl e \<Longrightarrow> traced ok (a e)) \<Longrightarrow> (\<And>x. r = Inr x \<Longrightarrow> traced ok (b x)) \<Longrightarrow> traced ok (either (ret r) a b)"
  by (cases r) (auto simp: either_def bnd_def ret_def traced_def)

section \<open>Renames behind a row\<close>

lemma traced_rename_behind:
  assumes "\<And>cs. I cs \<Longrightarrow> may_leave p away src cs \<or> backed p dst cs"
  shows "traced (behind I p away) (rename_refusing M src dst)"
proof -
  have "traced (behind I p away) (perform M (Rename src dst))" "traced (behind I p away) (perform M (RenameNoreplace src dst))"
    unfolding perform_def by (intro traced_called; use assms in \<open>auto simp: behind_def journalled_def\<close>)+
  then show ?thesis
    by (auto simp: rename_refusing_def intro!: traced_either traced_trying traced_ret behind.traced_reads)
qed

lemma traced_noting_behind:
  "(\<And>cs. I cs \<Longrightarrow> may_leave p away src cs \<or> backed p dst cs) \<Longrightarrow> traced (behind I p away) (rename_noting M src dst)"
  by (auto simp: rename_noting_def intro!: traced_intros traced_rename_behind)

lemma ensures_durable:
  "list_ex (row_for p d) ws \<Longrightarrow> ensures (\<lambda>_. True) (durable M ws) (\<lambda>r h. \<forall>x. r = Inr x \<longrightarrow> backed p d (ho_calls h))"
  by (auto simp: ensures_def durable_def perform_def called_def Let_def backed_def durable_row_def)


section \<open>Moving into the trash behind rows\<close>

text \<open>What runs before each try leaves a durable row for the place.\<close>

definition journals :: "rel_path \<Rightarrow> dpath list \<Rightarrow> (place \<Rightarrow> 'l \<Rightarrow> ('s, (io_error + unit) \<times> 'l) act) \<Rightarrow> bool" where
  "journals p away before \<longleftrightarrow> (\<forall>pl l. (\<forall>I. traced (behind I p away) (before pl l)) \<and>
     ensures (\<lambda>_. True) (before pl l) (\<lambda>r h. \<forall>x. fst r = Inr x \<longrightarrow> backed p (pl_disk pl) (ho_calls h)))"

lemma before_place_journals: "journals (at_path at) away (before_place cm at temp what)"
proof -
  have row: "ensures (\<lambda>_. True) (durable (cm_machine cm) ([PutJournal (cm_id cm) (commit_row at temp (pl_disk pl)), w] @ ws))
      (\<lambda>r h. \<forall>x. r = Inr x \<longrightarrow> backed (at_path at) (pl_disk pl) (ho_calls h))" for pl w ws
    by (rule ensures_durable) (simp add: row_for_def commit_row_def)
  have "ensures (\<lambda>_. True) (before_place cm at temp what pl l)
      (\<lambda>r h. \<forall>x. fst r = Inr x \<longrightarrow> backed (at_path at) (pl_disk pl) (ho_calls h))" for pl l
    unfolding before_place_def Let_def append.simps
    by (rule ensures_bnd [OF row [unfolded append.simps]]) (rule ensures_ret, simp)
  moreover have "traced (behind I (at_path at) away) (before_place cm at temp what pl l)" for I pl l
    unfolding before_place_def Let_def by (intro traced_bnd behind.traced_durable traced_ret)
  ultimately show ?thesis
    unfolding journals_def by blast
qed

lemma traced_move_behind:
  assumes before: "journals p away before"
  shows "traced (behind I p away) (move_from M src what parent before start l)"
proof (rule traced_loop)
  fix h r
  assume run: "move_from M src what parent before start l h = Some r"
  have "journals p away before \<longrightarrow> (\<forall>I. keeps_policy (behind I p away) h r)"
  proof (rule move_from.raw_induct [where P = "\<lambda>M src what parent before n l h r.
        journals p away before \<longrightarrow> (\<forall>I. keeps_policy (behind I p away) h r)", OF _ run], goal_cases)
    case (1 f M src what parent before n l h r)
    show ?case
    proof (intro impI allI)
      fix I
      assume j: "journals p away before"
      have IH: "traced (behind I p away) (f M src what parent before n l)" for n l I
        using 1(1) j by (intro traced_loop) blast
      let ?J = "\<lambda>n rl cs. \<forall>x. fst rl = Inr x \<longrightarrow> backed p (pl_disk (place_at parent what n)) cs"
      have tail: "traced (behind I p away) (bnd (before (place_at parent what n) l) k)"
        if "\<And>rl. traced (behind (\<lambda>cs. I cs \<and> ?J n rl cs) p away) (k rl)" for n k
        by (rule traced_then [where J = "?J n"]) (use j that in \<open>auto simp: journals_def\<close>)
      show "keeps_policy (behind I p away) h r"
        using 1(2)
        by (rule loop_rules(1))
          (auto intro!: traced_either [of _ "free_number _ _"] traced_intros(1) tail traced_either_ret
            traced_either [of _ "rename_refusing _ _ _"] traced_either [of _ "lstat _ _"] traced_rename_behind traced_if IH
            intro: behind.traced_free_number behind.traced_place_taken behind.traced_reads)
    qed
  qed
  then show "keeps_policy (behind I p away) h r" using before by simp
qed

lemma traced_move_in_behind:
  "journals p away before \<Longrightarrow> traced (behind I p away) (move_in M src what before l)"
  by (auto simp: move_in_def intro!: traced_intros traced_move_behind)

text \<open>What was moved in is in the trash.\<close>

definition in_trash :: "(not_moved + place \<times> refusing) \<times> 'l \<Rightarrow> bool" where
  "in_trash r \<longleftrightarrow> (case fst r of Inr (pl, _) \<Rightarrow> own (pl_disk pl) | Inl _ \<Rightarrow> True)"

lemma gives_if [gives_intros]:
  "(c \<Longrightarrow> gives a V) \<Longrightarrow> (\<not> c \<Longrightarrow> gives b V) \<Longrightarrow> gives (\<lambda>h. if c then a h else b h) V"
  by (cases c) simp_all

lemma move_in_trash: "gives (move_from M src what parent before start l) in_trash"
proof -
  have "in_trash (fst r)" if "move_from M src what parent before start l h = Some r" for h r
  proof (rule move_from.raw_induct [where P = "\<lambda>M src what parent before n l h r. in_trash (fst r)", OF _ that], goal_cases)
    case (1 f M src what parent before n l h r)
    have IH: "gives (f M src what parent before n l) in_trash" for n l
      unfolding gives_def using 1(1) by force
    have "gives (\<lambda>h. either (free_number (place_taken M parent what) n)
       (\<lambda>e. ret (Inl (NmFailed (trash_own e)), l))
       (\<lambda>n. bnd (before (place_at parent what n) l) (\<lambda>rl.
          either (ret (fst rl))
            (\<lambda>e. ret (Inl (NmFailed e), snd rl))
            (\<lambda>_. either (rename_refusing M src (pl_disk (place_at parent what n)))
               (\<lambda>e h. if e = IeAlreadyExists then
                      if n = U32_MAX then ret (Inl (NmFailed IeOther), snd rl) h
                      else f M src what parent before (Suc n) (snd rl) h
                    else either (lstat M src)
                      (\<lambda>gone. ret (Inl (if gone = IeNotFound \<or> parent_not_a_directory gone then NmGone
                                        else NmFailed (trash_own e)), snd rl))
                      (\<lambda>_. ret (Inl (NmFailed (trash_own e)), snd rl)) h)
               (\<lambda>how. ret (Inr (place_at parent what n, how), snd rl))))) h) in_trash"
      by (intro gives_intros IH) (simp_all add: in_trash_def place_at_def Let_def)
    then show ?case using 1(2) by (cases r) (auto simp: gives_def)
  qed
  then show ?thesis by (auto simp: gives_def)
qed

section \<open>Displacing behind a row\<close>

definition displaced_leaves :: "rel_path \<Rightarrow> dpath list \<Rightarrow> failed + displaced \<Rightarrow> call list \<Rightarrow> bool" where
  "displaced_leaves p away r cs \<longleftrightarrow> (\<forall>y. r = Inr y \<longrightarrow> may_leave p away (dp_to y) cs)"

lemma displace_to_trash_behind:
  "traced (behind I (at_path at) away) (displace_to_trash cm at disk ob hash temp)"
  by (auto simp: displace_to_trash_def Let_def
      intro!: traced_bnd traced_ret traced_keep behind.traced_displaced_size behind.traced_reads
        traced_move_in_behind before_place_journals
      split: sum.split not_moved.split)

lemma ensures_any: "gives m V \<Longrightarrow> ensures P m (\<lambda>x _. V x)"
  by (auto simp: gives_def ensures_def)

lemma gives_post: "gives m U \<Longrightarrow> (\<And>x. U x \<Longrightarrow> V x) \<Longrightarrow> gives m V"
  by (auto simp: gives_def)

definition displaced_own :: "failed + displaced \<Rightarrow> bool" where
  "displaced_own r \<longleftrightarrow> (\<forall>y. r = Inr y \<longrightarrow> own (dp_to y))"

lemma displace_to_trash_own: "gives (displace_to_trash cm at disk ob hash temp) displaced_own"
proof -
  have moved: "gives (move_in M disk what before l) in_trash" for M what before and l :: "trash_row option"
    unfolding move_in_def by (intro gives_intros move_in_trash) (simp add: in_trash_def)
  show ?thesis
    unfolding displace_to_trash_def Let_def
    by (auto intro!: gives_bnd gives_bnd_from [OF moved] gives_ret
        simp: in_trash_def displaced_own_def split: sum.split not_moved.split)
qed

lemma copy_row:
  "ensures (\<lambda>_. True) (durable M [PutJournal fid (commit_row at temp dst)])
     (\<lambda>r h. \<forall>x. r = Inr x \<longrightarrow> backed (at_path at) dst (ho_calls h))"
  by (rule ensures_durable) (simp add: row_for_def commit_row_def)

lemma displace_to_copy_behind:
  "traced (behind I (at_path at) away) (displace_to_copy cm at disk copy temp)"
  unfolding displace_to_copy_def Let_def
  by (rule traced_sum_then(2) [where J = "\<lambda>_. backed (at_path at) (disk_path copy (cm_names cm))", OF _ copy_row])
    (auto intro!: traced_either traced_ret traced_noting_behind behind.traced_durable)

lemma displace_to_copy_leaves:
  "ensures (\<lambda>_. True) (displace_to_copy cm at disk copy temp) (\<lambda>r h. displaced_leaves (at_path at) away r (ho_calls h))"
proof -
  let ?dst = "disk_path copy (cm_names cm)"
  have rename: "ensures (\<lambda>h. \<forall>x. Inr y = Inr x \<longrightarrow> backed (at_path at) ?dst (ho_calls h))
      (rename_noting (cm_machine cm) disk ?dst) (\<lambda>_ h. backed (at_path at) ?dst (ho_calls h))" for y :: unit
    using ensures_lasting [OF careful.traced_rename_noting lasting_backed(1)] by (simp add: ensures_def)
  show ?thesis
    unfolding displace_to_copy_def Let_def
    by (rule ensures_trying [OF copy_row]; (rule ensures_either [OF rename])?; rule ensures_ret)
      (simp_all add: displaced_leaves_def may_leave_def)
qed

lemma commit_displace_behind:
  "traced (behind I (at_path at) away) (commit_displace cm at disk ob hash d temp)"
  unfolding commit_displace_def
  by (auto intro!: traced_trying traced_ret behind.traced_refuse_mounts displace_to_trash_behind displace_to_copy_behind
      split: displace.split)

lemma commit_displace_leaves:
  "ensures (\<lambda>_. True) (commit_displace cm at disk ob hash d temp) (\<lambda>r h. displaced_leaves (at_path at) away r (ho_calls h))"
proof -
  have trash: "ensures (\<lambda>_. True) (displace_to_trash cm at disk ob hash temp)
      (\<lambda>r h. displaced_leaves (at_path at) away r (ho_calls h))"
    by (rule ensures_post [OF ensures_any [OF displace_to_trash_own]])
      (simp add: displaced_own_def displaced_leaves_def may_leave_def)
  have any: "ensures (\<lambda>_. True) m (\<lambda>_ _. True)" for m :: "('s, 'b) act"
    by (simp add: ensures_def)
  show ?thesis
    unfolding commit_displace_def
    by (rule ensures_trying [OF any], rule ensures_ret, simp add: displaced_leaves_def)
      (cases d; simp add: trash displace_to_copy_leaves)
qed

section \<open>A write behind its row\<close>

lemma put_back_behind:
  "(\<And>cs. I cs \<Longrightarrow> may_leave p away (dp_to d) cs) \<Longrightarrow> traced (behind I p away) (put_back cm q d dst temp)"
  by (auto simp: put_back_def intro!: traced_either traced_if traced_ret traced_bnd traced_keep traced_noting_behind
      split: option.split)

lemma unlanded_write_behind:
  assumes "incoming_ok i" and "\<And>x cs. dp = Some x \<Longrightarrow> I cs \<Longrightarrow> may_leave (at_path at) away (dp_to x) cs"
  shows "traced (behind I (at_path at) away) (unlanded_write cm at fd i created dp e)"
proof -
  have returns: "traced (behind I (at_path at) away) (put_back cm (at_path at) x disk temp)" if "dp = Some x" for x disk temp
    using assms(2) that by (intro put_back_behind) blast
  show ?thesis
    unfolding unlanded_write_def Let_def
    by (auto intro!: traced_bnd traced_ret returns behind.traced_in_discard behind.traced_undo_parents assms(1)
        split: option.split found_at.split)
qed

lemma write_ready_behind:
  assumes "incoming_ok i"
  shows "traced (behind I (at_path at) away) (write_ready cm at e expected d fd missing i)"
proof -
  let ?p = "at_path at"
  let ?J = "\<lambda>dp cs. \<forall>x. dp = Some x \<longrightarrow> may_leave ?p away (dp_to x) cs"
  let ?hash = "\<lambda>ob. case expected of Some x \<Rightarrow> ob_hash x | None \<Rightarrow> ob_hash ob"
  let ?displace = "case fd of
      FoundEntry disk ob _ \<Rightarrow>
        tri (commit_displace cm at disk ob (?hash ob) d (in_path i)) (\<lambda>x. ret (Inr (Some x)))
    | _ \<Rightarrow> ret (Inr None)"
  have temp: "own (in_path i)" using assms by (cases i) (auto simp: incoming_ok_def in_path_def)
  have displace: "traced (behind I ?p away) ?displace"
    by (auto intro!: traced_trying traced_ret commit_displace_behind split: found_at.split)
  have leaves: "ensures (\<lambda>_. True) ?displace (\<lambda>r h. \<forall>dp. r = Inr dp \<longrightarrow> ?J dp (ho_calls h))"
    by (auto intro!: ensures_trying [OF commit_displace_leaves] ensures_ret simp: displaced_leaves_def split: found_at.split)
  have last: "traced (behind (\<lambda>cs. I cs \<and> ?J dp cs) ?p away)
      (either (rename_noting M (in_path i) dst) (unlanded_write cm at fd i created dp)
        (\<lambda>_. landed_write cm at e d fd i missing created dp))" for M dst created dp
    by (auto intro!: traced_either traced_noting_behind unlanded_write_behind behind.traced_landed_write assms
        simp: may_leave_def temp)
  have away: "traced (behind I ?p away) (either ?displace
      (\<lambda>failed. bnd (in_discard M i) (\<lambda>_. bnd (undo_parents cm created) (\<lambda>_. ret (Inl failed))))
      (\<lambda>dp. either (rename_noting M (in_path i) dst) (unlanded_write cm at fd i created dp)
        (\<lambda>_. landed_write cm at e d fd i missing created dp)))" for M dst created
    by (rule traced_sum_then(1) [OF displace leaves _ last])
      (auto simp: lasting_def intro!: traced_bnd traced_ret behind.traced_in_discard behind.traced_undo_parents assms
        intro: lasting_backed(2) [unfolded lasting_def, rule_format])
  show ?thesis
    unfolding write_ready_def Let_def
    by (auto intro!: traced_either [of _ "make_parents _ _ _"] away traced_bnd traced_ret
        behind.traced_make_parents behind.traced_in_discard assms)
qed

lemma commit_write_behind:
  assumes "temp_ok temp"
  shows "traced (behind I (at_path at) away) (commit_write cm at e expected d temp)"
proof -
  have ready: "traced (behind I (at_path at) away)
      (trying fail_only (ready M X e temp) (write_ready cm at e expected d fd missing))" for M X d fd missing
    using ready_gives [OF assms] behind.traced_ready
    by (rule traced_trying_from) (auto simp: readied_def intro: write_ready_behind)
  show ?thesis
    by (auto simp: commit_write_def intro!: ready traced_trying traced_ret behind.traced_commit_look
        behind.traced_copy_free split: option.split displace.split)
qed

section \<open>The open row first\<close>

definition displaced_at :: "rel_path \<Rightarrow> disk_state \<Rightarrow> dpath list" where
  "displaced_at p ds = (case bm_get (ds_open ds) p of Some (Displaced at _ _ _) \<Rightarrow> [at] | _ \<Rightarrow> [])"

definition settles_from :: "dpath list \<Rightarrow> unresolved \<Rightarrow> bool" where
  "settles_from away r \<longleftrightarrow> (case r of Displaced at _ _ _ \<Rightarrow> at \<in> set away | Unsynced _ \<Rightarrow> True)"

lemma settle_row_behind: "settles_from away r \<Longrightarrow> traced (behind I p away) (settle_row cm q r)"
  by (cases r) (auto simp: settle_row_def settles_from_def may_leave_def
      intro!: traced_either traced_ret traced_noting_behind behind.traced_sync_landed)

lemma landed_row_settles: "settles_from away r \<Longrightarrow> gives (landed_row cm p r) (settles_from away)"
  by (cases r) (auto simp: landed_row_def settles_from_def intro!: gives_bnd gives_ret)

lemma traced_given: "gives m U \<Longrightarrow> traced ok m \<Longrightarrow> (\<And>x. U x \<Longrightarrow> traced ok (k x)) \<Longrightarrow> traced ok (bnd m k)"
  unfolding traced_def gives_def bnd_Some by (blast intro: extends_trans)

lemma resolve_one_behind:
  assumes "resolve_one cm p h = Some (r, h')" and "set (displaced_at p (ho_kept h)) \<subseteq> set away"
  shows "extends (behind I q away) (ho_calls h) (ho_calls h')"
proof (cases "bm_get (ds_open (ho_kept h)) p")
  case None
  then show ?thesis using assms(1) by (simp add: resolve_one_def bnd_Some kept_def ret_def)
next
  case (Some row)
  then have row: "settles_from away row"
    using assms(2) by (auto simp: settles_from_def displaced_at_def split: unresolved.splits)
  have "traced (behind I q away) (bnd (landed_row cm p row) (\<lambda>r.
      either (settle_row cm p r) (\<lambda>(d, e). ret (StillOpen d e))
        (\<lambda>ws. bnd (keep (open_row_gone p)) (\<lambda>_.
          either (durable (cm_machine cm) ws) (\<lambda>e. ret (Unrecorded e ws)) (\<lambda>_. ret Resolved)))))"
    by (rule traced_given [OF landed_row_settles [OF row] behind.traced_landed_row])
      (auto intro!: traced_either traced_ret traced_bnd traced_keep settle_row_behind behind.traced_durable)
  from tracedD [OF this] show ?thesis
    using assms(1) Some by (simp add: resolve_one_def bnd_Some [of kept] kept_def)
qed

text \<open>What comes before it leaves the open rows alone.\<close>

definition traced_from :: "('s host \<Rightarrow> bool) \<Rightarrow> (call \<Rightarrow> call list \<Rightarrow> bool) \<Rightarrow> ('s, 'a) act \<Rightarrow> bool" where
  "traced_from P ok m \<longleftrightarrow>
     (\<forall>h x h'. P h \<longrightarrow> m h = Some (x, h') \<longrightarrow> extends ok (ho_calls h) (ho_calls h'))"

lemma traced_from_bnd:
  "traced_from P ok m \<Longrightarrow> ensures P m (\<lambda>_. P) \<Longrightarrow> (\<And>x. traced_from P ok (k x)) \<Longrightarrow> traced_from P ok (bnd m k)"
  unfolding traced_from_def ensures_def bnd_Some by (blast intro: extends_trans)

lemma traced_from_last: "traced_from P ok m \<Longrightarrow> (\<And>x. traced ok (k x)) \<Longrightarrow> traced_from P ok (bnd m k)"
  unfolding traced_from_def traced_def bnd_Some by (blast intro: extends_trans)

lemma traced_from_any: "traced ok m \<Longrightarrow> traced_from P ok m"
  by (auto simp: traced_from_def traced_def)

lemma traced_from_trying:
  "traced ok m \<Longrightarrow> ensures P m (\<lambda>_. P) \<Longrightarrow> (\<And>x. traced_from P ok (k x)) \<Longrightarrow> traced_from P ok (trying f m k)"
  unfolding trying_def
  by (rule traced_from_bnd) (auto intro: traced_from_any traced_ret split: sum.split)

definition rows_same :: "rel_path \<Rightarrow> dpath list \<Rightarrow> disk_state host \<Rightarrow> bool" where
  "rows_same p away h \<longleftrightarrow> displaced_at p (ho_kept h) = away"

lemma calm_rows: "calm m \<Longrightarrow> ensures (rows_same p away) m (\<lambda>_. rows_same p away)"
  by (auto simp: calm_def ensures_def rows_same_def)

lemmas rows_same_rules = ensures_trying [where U = "\<lambda>_. rows_same p away" for p away]
  ensures_bnd [where U = "\<lambda>_. rows_same p away" for p away] ensures_ret calm_rows calm_intros

lemma sensitivity_rows: "ensures (rows_same p away) (disk_sensitivity M) (\<lambda>_. rows_same p away)"
proof -
  have known: "ensures (rows_same p away) (keep (\<lambda>ds. ds\<lparr>ds_sensitivity := s\<rparr>)) (\<lambda>_. rows_same p away)" for s
    by (auto simp: ensures_def keep_def rows_same_def displaced_at_def)
  have probed: "ensures (rows_same p away) (tri (tmp_ensure M) (\<lambda>_. tri (probe M) (\<lambda>probed.
      bnd (keep (\<lambda>ds. ds\<lparr>ds_sensitivity := Some probed\<rparr>)) (\<lambda>_. ret (Inr probed))))) (\<lambda>_. rows_same p away)"
    by (rule rows_same_rules(1) [OF calm_rows [OF calm_tmp(1)]], simp add: ensures_ret,
        rule rows_same_rules(1) [OF calm_rows [OF calm_probe]], simp add: ensures_ret,
        rule rows_same_rules(2) [OF known], simp add: ensures_ret)
  show ?thesis
    unfolding disk_sensitivity_def
    by (rule rows_same_rules(2) [OF calm_rows [OF calm_kept]]) (auto simp: probed ensures_ret split: option.split)
qed

lemma commit_attempt_behind:
  assumes "temp_ok temp"
  shows "traced_from (rows_same p away) (behind I p away) (commit_attempt cm p (OpWrite e expected d) temp)"
proof -
  have row: "traced_from (rows_same p away) (behind I p away) (resolve_one cm p)"
    unfolding traced_from_def by (auto intro: resolve_one_behind simp: rows_same_def)
  have writes: "traced (behind I p away) (commit_write cm at e expected d temp)" if "at_path at = p" for at
    using commit_write_behind [OF assms, of I at] that by simp
  have marked: "traced (behind I p away) (tri (perform M OpenFolder) (\<lambda>_. marker M))" for M
    by (auto simp: quiet_def intro!: traced_trying behind.traced_perform behind.traced_marker)
  have marked_rows: "ensures (rows_same p away) (tri (perform M OpenFolder) (\<lambda>_. marker M)) (\<lambda>_. rows_same p away)" for M
    by (intro calm_rows calm_intros)
  show ?thesis
    unfolding commit_attempt_def Let_def commit_do_def commit_oper.case
    by (intro traced_from_trying marked marked_rows behind.traced_disk_sensitivity sensitivity_rows
        behind.traced_reads(1) calm_rows [OF calm_calls(2)] traced_from_last row)
      (auto intro!: traced_ret writes split: row_resolution.split bool.split)
qed

lemma commit_result_behind:
  assumes "temp_ok temp"
  shows "traced_from (rows_same p away) (behind I p away) (commit_result cm p (OpWrite e expected d) temp)"
  unfolding commit_result_def either_def
  by (rule traced_from_last [OF commit_attempt_behind [OF assms]])
    (auto intro!: traced_ret traced_bnd behind.traced_commit_found split: sum.split)

lemma commit_run_behind:
  assumes "temp_ok temp" and "commit_op a = Some (p, OpWrite e expected d)"
  shows "traced_from (rows_same p away) (behind I p away) (commit_run cm a v temp)"
  unfolding commit_run_def assms(2) option.case split
  by (rule traced_from_last [OF commit_result_behind [OF assms(1)]])
    (auto intro!: traced_ret traced_bnd traced_keep)

lemma behind_nothing: "behind (\<lambda>_. True) p away = journalled p away"
  by (auto simp: behind_def fun_eq_iff)

text \<open>C0: A write displaces nothing that its journal does not name. However the disk answers, every rename a write at
  \<open>p\<close> makes takes away a file of the host's own, or what an earlier commit at \<open>p\<close> displaced, or happens when a
  journal row for \<open>p\<close> naming where the entry goes, or came back from, is already durable. So a crash at any call
  leaves a row the next start undoes.\<close>

theorem displaced_behind_journal:
  assumes "temp_ok temp" and "commit_op a = Some (p, OpWrite e expected d)"
    and "commit_run cm a v temp h = Some (r, h')"
  shows "extends (journalled p (displaced_at p (ho_kept h))) (ho_calls h) (ho_calls h')"
  using commit_run_behind [OF assms(1,2), of "displaced_at p (ho_kept h)" "\<lambda>_. True" cm v] assms(3)
  unfolding behind_nothing traced_from_def rows_same_def by blast

lemma displaced_behind_journal_witness:
  "case commit_run sample_commit sample_write version_empty (Some (TMP @ [''t''])) sample_host of
     Some (_, h') \<Rightarrow> all_new (journalled path_a []) (ho_calls h') [] \<and> list_ex displaced_to_b (ho_calls h')
   | None \<Rightarrow> False"
proof -
  have op: "commit_op sample_write = Some (path_a, OpWrite (entry_of there 9 6)
      (Some \<lparr>ob_kind = File, ob_size = 3, ob_mtime = 5, ob_exec = False, ob_hash = ContentHash [7]\<rparr>)
      (ToConflictCopy (RelPath ''b'')))"
    by (simp add: sample_write_def commit_op_def)
  obtain r h' where run: "commit_run sample_commit sample_write version_empty (Some (TMP @ [''t''])) sample_host = Some (r, h')"
      "list_ex displaced_to_b (ho_calls h')"
    using sample_run by (auto split: option.splits)
  have "displaced_at path_a (ho_kept sample_host) = []" "ho_calls sample_host = []" "temp_ok (Some (TMP @ [''t'']))"
    by (simp_all add: displaced_at_def sample_host_def disk_new_def temp_ok_def)
  then show ?thesis
    using displaced_behind_journal [OF _ op run(1)] run by (simp add: extends_from_Nil)
qed

end
